(* ===== verification/Prelude.thy ===== *)
theory Prelude
  imports Main "HOL-Library.Word"
begin

text \<open>
  Shared vocabulary of the development.

  \<^item> Rust's fixed-width integers. A byte is an \<open>8 word\<close>. The scalar modules that the
    repository calls its pure transitions (quota, ratio, interval) keep \<open>u64\<close> as
    \<open>64 word\<close>. Offsets, lengths and counters of the container readers are natural numbers
    with every \<open>checked_add\<close> and \<open>checked_mul\<close> written out against \<open>u64_max\<close>, because
    the readers never use wrapping arithmetic.
  \<^item> \<open>Result<T, E>\<close> is the sum \<open>'e + 'a\<close> with \<open>Inl\<close> for \<open>Err\<close>; the question-mark
    operator is \<^term>\<open>and_then\<close>.
  \<^item> Slices \<open>xs[a..b]\<close>, \<open>Iterator::position\<close> and \<open>windows(2)\<close> of the standard library.
\<close>

named_theorems result_simps \<open>rewriting and inversion rules for results\<close>
named_theorems slice_simps \<open>rewriting rules for slices of byte sequences\<close>

type_synonym u8 = "8 word"
type_synonym u64 = "64 word"
type_synonym bytes = "8 word list"

subsection \<open>Bounds of the unsigned integer types\<close>

definition u64_max :: nat where
  "u64_max = 18446744073709551615"

definition u32_max :: nat where
  "u32_max = 4294967295"

lemma u64_max_eq: "u64_max = 2 ^ 64 - 1"
  by (simp add: u64_max_def)

lemma unat_le_u64_max [simp]: "unat (x :: u64) \<le> u64_max"
  using unsigned_less [of x, where ?'a = nat] by (simp add: u64_max_def)

lemma unat_of_nat_u64: "n \<le> u64_max \<Longrightarrow> unat (of_nat n :: u64) = n"
  by (simp add: u64_max_def unat_of_nat)

definition checked_add_u64 :: "nat \<Rightarrow> nat \<Rightarrow> nat option" where
  "checked_add_u64 a b = (if a + b \<le> u64_max then Some (a + b) else None)"

definition checked_mul_u64 :: "nat \<Rightarrow> nat \<Rightarrow> nat option" where
  "checked_mul_u64 a b = (if a * b \<le> u64_max then Some (a * b) else None)"

definition checked_sub_u64 :: "nat \<Rightarrow> nat \<Rightarrow> nat option" where
  "checked_sub_u64 a b = (if b \<le> a then Some (a - b) else None)"

lemma checked_add_u64_eq_Some [simp]:
  "checked_add_u64 a b = Some c \<longleftrightarrow> c = a + b \<and> a + b \<le> u64_max"
  by (auto simp: checked_add_u64_def)

lemma checked_add_u64_eq_None [simp]:
  "checked_add_u64 a b = None \<longleftrightarrow> u64_max < a + b"
  by (auto simp: checked_add_u64_def)

lemma checked_mul_u64_eq_Some [simp]:
  "checked_mul_u64 a b = Some c \<longleftrightarrow> c = a * b \<and> a * b \<le> u64_max"
  by (auto simp: checked_mul_u64_def)

lemma checked_mul_u64_eq_None [simp]:
  "checked_mul_u64 a b = None \<longleftrightarrow> u64_max < a * b"
  by (auto simp: checked_mul_u64_def)

lemma checked_sub_u64_eq_Some [simp]:
  "checked_sub_u64 a b = Some c \<longleftrightarrow> b \<le> a \<and> c = a - b"
  by (auto simp: checked_sub_u64_def)

subsection \<open>Results\<close>

definition and_then :: "'e + 'a \<Rightarrow> ('a \<Rightarrow> 'e + 'b) \<Rightarrow> 'e + 'b" where
  "and_then r f = (case r of Inl e \<Rightarrow> Inl e | Inr x \<Rightarrow> f x)"

definition map_err :: "('e \<Rightarrow> 'f) \<Rightarrow> 'e + 'a \<Rightarrow> 'f + 'a" where
  "map_err g r = (case r of Inl e \<Rightarrow> Inl (g e) | Inr x \<Rightarrow> Inr x)"

definition ok_or :: "'e \<Rightarrow> 'a option \<Rightarrow> 'e + 'a" where
  "ok_or e m = (case m of None \<Rightarrow> Inl e | Some x \<Rightarrow> Inr x)"

definition result_ok :: "'e + 'a \<Rightarrow> 'a option" where
  "result_ok r = (case r of Inl e \<Rightarrow> None | Inr x \<Rightarrow> Some x)"

definition is_ok :: "'e + 'a \<Rightarrow> bool" where
  "is_ok r = (case r of Inl e \<Rightarrow> False | Inr x \<Rightarrow> True)"

lemma and_then_simps [simp]:
  "and_then (Inl e) f = Inl e"
  "and_then (Inr x) f = f x"
  by (simp_all add: and_then_def)

lemma and_then_eq_Inr [result_simps]:
  "and_then r f = Inr y \<longleftrightarrow> (\<exists>x. r = Inr x \<and> f x = Inr y)"
  by (cases r) auto

lemma and_then_eq_Inl [result_simps]:
  "and_then r f = Inl e \<longleftrightarrow> r = Inl e \<or> (\<exists>x. r = Inr x \<and> f x = Inl e)"
  by (cases r) auto

lemma and_then_cong [fundef_cong]:
  "\<lbrakk>r = r'; \<And>x. r' = Inr x \<Longrightarrow> f x = g x\<rbrakk> \<Longrightarrow> and_then r f = and_then r' g"
  by (cases r') auto

lemma map_err_simps [simp]:
  "map_err g (Inl e) = Inl (g e)"
  "map_err g (Inr x) = Inr x"
  by (simp_all add: map_err_def)

lemma map_err_eq_Inr [simp]: "map_err g r = Inr x \<longleftrightarrow> r = Inr x"
  by (cases r) auto

lemma map_err_eq_Inl [result_simps]: "map_err g r = Inl e \<longleftrightarrow> (\<exists>e'. r = Inl e' \<and> e = g e')"
  by (cases r) auto

lemma ok_or_simps [simp]:
  "ok_or e None = Inl e"
  "ok_or e (Some x) = Inr x"
  by (simp_all add: ok_or_def)

lemma ok_or_eq_Inr [simp]: "ok_or e m = Inr x \<longleftrightarrow> m = Some x"
  by (cases m) auto

lemma ok_or_eq_Inl [result_simps]: "ok_or e m = Inl e' \<longleftrightarrow> m = None \<and> e' = e"
  by (cases m) auto

lemma result_ok_simps [simp]:
  "result_ok (Inl e) = None"
  "result_ok (Inr x) = Some x"
  by (simp_all add: result_ok_def)

lemma result_ok_eq_Some [simp]: "result_ok r = Some x \<longleftrightarrow> r = Inr x"
  by (cases r) auto

lemma is_ok_simps [simp]:
  "is_ok (Inl e) = False"
  "is_ok (Inr x) = True"
  by (simp_all add: is_ok_def)

lemma is_ok_iff: "is_ok r \<longleftrightarrow> (\<exists>x. r = Inr x)"
  by (cases r) auto

lemma Inr_if [result_simps]:
  "((if b then Inl e else r) = Inr x) \<longleftrightarrow> \<not> b \<and> r = Inr x"
  by simp

subsection \<open>Slices and scans\<close>

text \<open>\<open>xs[a..b]\<close>; every use in the model has \<open>a \<le> b \<le> length xs\<close>.\<close>

definition slice_of :: "nat \<Rightarrow> nat \<Rightarrow> 'a list \<Rightarrow> 'a list" where
  "slice_of a b xs = take (b - a) (drop a xs)"

lemma length_slice [simp]: "length (slice_of a b xs) = min (b - a) (length xs - a)"
  by (simp add: slice_of_def)

lemma slice_nth: "\<lbrakk>i < b - a; a + i < length xs\<rbrakk> \<Longrightarrow> slice_of a b xs ! i = xs ! (a + i)"
  by (simp add: slice_of_def)

lemma set_slice_subset: "set (slice_of a b xs) \<subseteq> set xs"
  by (metis slice_of_def set_take_subset set_drop_subset subset_trans)

lemma slice_append_prefix [slice_simps]:
  "\<lbrakk>a \<le> b; b \<le> length xs\<rbrakk> \<Longrightarrow> slice_of a b (xs @ ys) = slice_of a b xs"
  by (simp add: slice_of_def)

lemma slice_append_suffix [slice_simps]:
  "length xs \<le> a \<Longrightarrow> slice_of a b (xs @ ys) = slice_of (a - length xs) (b - length xs) ys"
  by (simp add: slice_of_def)

lemma slice_full [slice_simps]: "length xs \<le> b \<Longrightarrow> slice_of 0 b xs = xs"
  by (simp add: slice_of_def)

lemma slice_slice_split:
  "\<lbrakk>a \<le> b; b \<le> c\<rbrakk> \<Longrightarrow> slice_of a c xs = slice_of a b xs @ slice_of b c xs"
proof -
  assume "a \<le> b" "b \<le> c"
  then have "take (c - a) (drop a xs) = take ((b - a) + (c - b)) (drop a xs)" by simp
  also have "\<dots> = take (b - a) (drop a xs) @ take (c - b) (drop (b - a) (drop a xs))"
    by (rule take_add)
  finally show ?thesis using \<open>a \<le> b\<close> by (simp add: slice_of_def add.commute)
qed

lemma in_set_slice_iff:
  "x \<in> set (slice_of a b xs) \<longleftrightarrow> (\<exists>i. a \<le> i \<and> i < b \<and> i < length xs \<and> xs ! i = x)"
proof
  assume "x \<in> set (slice_of a b xs)"
  then obtain j where "j < length (slice_of a b xs)" "slice_of a b xs ! j = x"
    by (auto simp: in_set_conv_nth)
  then show "\<exists>i. a \<le> i \<and> i < b \<and> i < length xs \<and> xs ! i = x"
    by (intro exI [of _ "a + j"]) (auto simp: slice_nth)
next
  assume "\<exists>i. a \<le> i \<and> i < b \<and> i < length xs \<and> xs ! i = x"
  then obtain i where "a \<le> i" "i < b" "i < length xs" "xs ! i = x" by blast
  then show "x \<in> set (slice_of a b xs)"
    by (auto simp: in_set_conv_nth slice_nth intro!: exI [of _ "i - a"])
qed

text \<open>\<open>Iterator::position\<close>: the index of the first element with the property.\<close>

primrec position :: "('a \<Rightarrow> bool) \<Rightarrow> 'a list \<Rightarrow> nat option" where
  "position p [] = None"
| "position p (x # xs) = (if p x then Some 0 else map_option Suc (position p xs))"

lemma position_None_iff: "position p xs = None \<longleftrightarrow> (\<forall>x \<in> set xs. \<not> p x)"
  by (induction xs) auto

lemma position_Some_iff:
  "position p xs = Some i \<longleftrightarrow> i < length xs \<and> p (xs ! i) \<and> (\<forall>j < i. \<not> p (xs ! j))"
proof (induction xs arbitrary: i)
  case Nil
  then show ?case by simp
next
  case (Cons x xs)
  show ?case
    by (cases i) (auto simp: Cons.IH less_Suc_eq_0_disj)
qed

lemma position_takeWhile:
  "position p xs = (if length (takeWhile (\<lambda>x. \<not> p x) xs) < length xs
                    then Some (length (takeWhile (\<lambda>x. \<not> p x) xs)) else None)"
  by (induction xs) auto

lemma position_append_left: "position p xs = Some i \<Longrightarrow> position p (xs @ ys) = Some i"
  by (induction xs arbitrary: i) auto

lemma position_append_right:
  "position p xs = None \<Longrightarrow> position p (xs @ ys) = map_option (\<lambda>i. i + length xs) (position p ys)"
  by (induction xs) (auto simp: option.map_comp o_def option.map_ident split: if_splits)

subsection \<open>Zero-filled byte sequences\<close>

definition all_zero :: "bytes \<Rightarrow> bool" where
  "all_zero bs = list_all (\<lambda>b. b = 0) bs"

lemma all_zero_iff: "all_zero bs \<longleftrightarrow> (\<forall>b \<in> set bs. b = 0)"
  by (simp add: all_zero_def list_all_iff)

lemma all_zero_simps [simp]:
  "all_zero []"
  "all_zero (b # bs) \<longleftrightarrow> b = 0 \<and> all_zero bs"
  "all_zero (xs @ ys) \<longleftrightarrow> all_zero xs \<and> all_zero ys"
  "all_zero (replicate n 0)"
  by (auto simp: all_zero_def list_all_iff)

lemma all_zero_eq_replicate: "all_zero bs \<longleftrightarrow> bs = replicate (length bs) 0"
  by (induction bs) auto

end
