(* ===== verification/Quota.thy ===== *)
theory Quota
  imports Prelude
begin

text \<open>
  The monotone quota of \<open>crates/sealr/src/quota.rs\<close>: a counter \<open>used\<close> below a fixed
  \<open>limit\<close>, both \<open>u64\<close>. \<open>consume\<close> mutates its receiver, so the model returns the new
  state beside the result. The locale \<open>meter\<close> is what the planners rely on: a transition
  either adds exactly the amount and stays below the limit, or fails and changes nothing.
\<close>

record quota_state =
  used :: u64
  limit :: u64

datatype quota_error =
    Overflow
  | Exceeded (attempted: u64) (exceeded_limit: u64)

definition quota_new :: "u64 \<Rightarrow> quota_state" where
  "quota_new l = \<lparr>used = 0, limit = l\<rparr>"

text \<open>\<open>u64::checked_add\<close> on the machine word itself.\<close>

definition checked_add_word :: "u64 \<Rightarrow> u64 \<Rightarrow> u64 option" where
  "checked_add_word a b = (if unat a + unat b \<le> u64_max then Some (a + b) else None)"

definition consume :: "quota_state \<Rightarrow> u64 \<Rightarrow> (quota_error + u64) \<times> quota_state" where
  "consume q amount =
     (case checked_add_word (used q) amount of
        None \<Rightarrow> (Inl Overflow, q)
      | Some nxt \<Rightarrow>
          if nxt > limit q then (Inl (Exceeded nxt (limit q)), q)
          else (Inr nxt, q\<lparr>used := nxt\<rparr>))"

definition remaining :: "quota_state \<Rightarrow> u64" where
  "remaining q = limit q - used q"

text \<open>The state invariant: what is used never passes the limit.\<close>

definition quota_inv :: "quota_state \<Rightarrow> bool" where
  "quota_inv q \<longleftrightarrow> used q \<le> limit q"

text \<open>A run of transitions that stops at the first failure, as the planning loops do.\<close>

fun consume_all :: "quota_state \<Rightarrow> u64 list \<Rightarrow> (quota_error + u64) \<times> quota_state" where
  "consume_all q [] = (Inr (used q), q)"
| "consume_all q (a # as) =
     (case consume q a of
        (Inl e, q') \<Rightarrow> (Inl e, q')
      | (Inr _, q') \<Rightarrow> consume_all q' as)"

lemma checked_add_word_eq_Some:
  "checked_add_word a b = Some c \<longleftrightarrow> unat a + unat b \<le> u64_max \<and> c = a + b"
  by (auto simp: checked_add_word_def)

lemma checked_add_word_eq_None:
  "checked_add_word a b = None \<longleftrightarrow> u64_max < unat a + unat b"
  by (auto simp: checked_add_word_def)

lemma unat_add_u64: "unat a + unat b \<le> u64_max \<Longrightarrow> unat (a + b :: u64) = unat a + unat b"
  by (simp add: u64_max_def unat_word_ariths)

text \<open>
  The arithmetic of one transition, read as naturals: the three branches are decided by the
  exact sum, never by its image modulo \<open>2 ^ 64\<close>.
\<close>

lemma consume_cases:
  "consume q a =
     (if u64_max < unat (used q) + unat a then (Inl Overflow, q)
      else if unat (limit q) < unat (used q) + unat a
      then (Inl (Exceeded (used q + a) (limit q)), q)
      else (Inr (used q + a), q\<lparr>used := used q + a\<rparr>))"
  by (auto simp: consume_def checked_add_word_def word_less_nat_alt unat_add_u64 not_le)

lemma quota_inv_new [simp]: "quota_inv (quota_new l)"
  by (simp add: quota_inv_def quota_new_def)

lemma quota_inv_consume: "quota_inv q \<Longrightarrow> quota_inv (snd (consume q a))"
  by (auto simp: consume_cases quota_inv_def word_le_nat_alt unat_add_u64)

lemma limit_consume [simp]: "limit (snd (consume q a)) = limit q"
  by (auto simp: consume_cases)

lemma consume_error_unchanged: "consume q a = (Inl e, q') \<Longrightarrow> q' = q"
  by (auto simp: consume_cases split: if_splits)

lemma consume_ok:
  "consume q a = (Inr n, q') \<Longrightarrow>
     unat (used q') = unat (used q) + unat a \<and> n = used q' \<and>
     unat (used q) + unat a \<le> unat (limit q) \<and> limit q' = limit q"
  by (auto simp: consume_cases unat_add_u64 split: if_splits)

lemma remaining_exact: "quota_inv q \<Longrightarrow> unat (remaining q) = unat (limit q) - unat (used q)"
  by (simp add: remaining_def quota_inv_def unat_sub)

subsection \<open>The contract the planners rely on\<close>

locale meter =
  fixes level :: "'s \<Rightarrow> nat"
    and cap :: "'s \<Rightarrow> nat"
    and charge :: "'s \<Rightarrow> 'a \<Rightarrow> ('e + 'r) \<times> 's"
    and cost :: "'a \<Rightarrow> nat"
    and valid :: "'s \<Rightarrow> bool"
  assumes charge_ok: "\<lbrakk>valid s; charge s a = (Inr r, s')\<rbrakk> \<Longrightarrow>
            valid s' \<and> level s' = level s + cost a \<and> level s' \<le> cap s \<and> cap s' = cap s"
    and charge_err: "\<lbrakk>valid s; charge s a = (Inl e, s')\<rbrakk> \<Longrightarrow>
            s' = s \<and> cap s < level s + cost a"
    and valid_level: "valid s \<Longrightarrow> level s \<le> cap s"
begin

fun run :: "'s \<Rightarrow> 'a list \<Rightarrow> ('e option) \<times> 's" where
  "run s [] = (None, s)"
| "run s (a # as) =
     (case charge s a of (Inl e, s') \<Rightarrow> (Some e, s') | (Inr _, s') \<Rightarrow> run s' as)"

lemma run_accepts_iff:
  "valid s \<Longrightarrow> fst (run s as) = None \<longleftrightarrow> level s + sum_list (map cost as) \<le> cap s"
proof (induction as arbitrary: s)
  case Nil
  then show ?case by (simp add: valid_level)
next
  case (Cons a as)
  obtain r s' where step: "charge s a = (r, s')" by fastforce
  show ?case
  proof (cases r)
    case (Inl e)
    with step Cons.prems have "cap s < level s + cost a" by (blast dest: charge_err)
    with step Inl show ?thesis by simp
  next
    case (Inr x)
    with step Cons.prems have "valid s'" "level s' = level s + cost a" "cap s' = cap s"
      by (auto dest: charge_ok)
    with step Inr Cons.IH [of s'] show ?thesis by (simp add: add.assoc)
  qed
qed

lemma run_level:
  "\<lbrakk>valid s; run s as = (None, s')\<rbrakk> \<Longrightarrow>
     valid s' \<and> level s' = level s + sum_list (map cost as) \<and> cap s' = cap s"
proof (induction as arbitrary: s)
  case Nil
  then show ?case by simp
next
  case (Cons a as)
  from Cons.prems(2) obtain r t where step: "charge s a = (Inr r, t)" and rest: "run t as = (None, s')"
    by (auto split: prod.splits sum.splits)
  from charge_ok [OF Cons.prems(1) step] have "valid t" "level t = level s + cost a" "cap t = cap s"
    by auto
  with Cons.IH [OF _ rest] show ?case by (simp add: add.assoc)
qed

lemma run_bounded: "valid s \<Longrightarrow> level (snd (run s as)) \<le> cap s"
proof (induction as arbitrary: s)
  case Nil
  then show ?case by (simp add: valid_level)
next
  case (Cons a as)
  obtain r s' where step: "charge s a = (r, s')" by fastforce
  show ?case
  proof (cases r)
    case (Inl e)
    with step Cons.prems have "s' = s" by (blast dest: charge_err)
    with step Inl Cons.prems show ?thesis by (simp add: valid_level)
  next
    case (Inr x)
    with step Cons.prems have "valid s'" "cap s' = cap s" by (auto dest: charge_ok)
    with step Inr Cons.IH [of s'] show ?thesis by simp
  qed
qed

end

lemma consume_refuses:
  "quota_inv q \<Longrightarrow> consume q a = (Inl e, q') \<Longrightarrow> unat (limit q) < unat (used q) + unat a"
  using unat_le_u64_max [of "limit q"]
  by (auto simp: consume_cases simp del: unat_le_u64_max split: if_splits)

interpretation quota: meter "\<lambda>q. unat (used q)" "\<lambda>q. unat (limit q)" consume unat quota_inv
proof
  fix s s' a r
  assume "quota_inv s" "consume s a = (Inr r, s')"
  then show "quota_inv s' \<and> unat (used s') = unat (used s) + unat a \<and>
      unat (used s') \<le> unat (limit s) \<and> unat (limit s') = unat (limit s)"
    using consume_ok [of s a r s'] quota_inv_consume [of s a] by auto
next
  fix s s' a e
  assume "quota_inv s" "consume s a = (Inl e, s')"
  then show "s' = s \<and> unat (limit s) < unat (used s) + unat a"
    by (blast dest: consume_error_unchanged consume_refuses)
next
  fix s
  assume "quota_inv s"
  then show "unat (used s) \<le> unat (limit s)"
    by (simp add: quota_inv_def word_le_nat_alt)
qed

lemma consume_all_run:
  "consume_all q as =
     (case quota.run q as of (Some e, q') \<Rightarrow> (Inl e, q') | (None, q') \<Rightarrow> (Inr (used q'), q'))"
proof (induction as arbitrary: q)
  case Nil
  then show ?case by simp
next
  case (Cons a as)
  then show ?case by (auto split: prod.splits sum.splits)
qed

subsection \<open>Properties\<close>

text \<open>C35. The quota is exact and never overrun. From a consistent counter a list of charges is
  accepted precisely when its exact sum, computed without wrap-around, fits what is left of the
  limit; whatever happens the counter stays consistent and at or below its limit, and when all
  charges are accepted it has grown by exactly their sum.\<close>

theorem quota_exact:
  assumes "quota_inv q"
  shows "((\<exists>n. fst (consume_all q as) = Inr n) \<longleftrightarrow>
      unat (used q) + sum_list (map unat as) \<le> unat (limit q)) \<and>
    unat (used (snd (consume_all q as))) \<le> unat (limit q) \<and>
    (fst (consume_all q as) = Inr n \<longrightarrow>
      unat n = unat (used q) + sum_list (map unat as) \<and> used (snd (consume_all q as)) = n \<and>
      unat (remaining (snd (consume_all q as))) = unat (limit q) - unat n)"
proof -
  obtain e q' where r: "quota.run q as = (e, q')" by fastforce
  note facts = quota.run_accepts_iff [OF assms, of as] quota.run_bounded [OF assms, of as]
  show ?thesis
  proof (cases e)
    case None
    with r quota.run_level [OF assms, of as q'] facts show ?thesis
      by (auto simp: consume_all_run remaining_exact)
  next
    case (Some x)
    with r facts show ?thesis by (simp add: consume_all_run)
  qed
qed

theorem quota_exact_witness:
  "quota_inv (quota_new 5) \<and> (\<exists>n. fst (consume_all (quota_new 5) [2, 3]) = Inr n) \<and>
   \<not> (\<exists>n. fst (consume_all (quota_new 5) [2, 4]) = Inr n)"
  using quota_exact [of "quota_new 5" "[2, 3]"] quota_exact [of "quota_new 5" "[2, 4]"]
  by (simp add: quota_new_def quota_inv_def)

end
