(* ===== verification/Interval.thy ===== *)
theory Interval
  imports Quota "HOL-Library.Multiset"
begin

text \<open>
  Checked half-open intervals and exact partitions, \<open>crates/sealr/src/interval.rs\<close>, and the
  ordered variant \<open>validate_ordered_partition\<close> that the covering audit of
  \<open>crates/sealr/src/covering.rs\<close> uses. The specification \<open>partition_spec\<close> is the bitmap
  oracle of the repository's tests, over every point of the outer interval.
\<close>

record checked_interval =
  start :: u64
  iend :: u64

datatype interval_error = EndOverflow | Reversed

datatype partition_error =
    EmptyPart (index: nat)
  | PartOutside (index: nat)
  | MissingParts
  | GapBeforeFirst (index: nat)
  | Overlap (index: nat)
  | Gap (index: nat)
  | GapAfterLast (index: nat)

definition from_offset_len :: "u64 \<Rightarrow> u64 \<Rightarrow> interval_error + checked_interval" where
  "from_offset_len offset len =
     (case checked_add_word offset len of
        None \<Rightarrow> Inl EndOverflow
      | Some e \<Rightarrow> Inr \<lparr>start = offset, iend = e\<rparr>)"

definition from_bounds :: "u64 \<Rightarrow> u64 \<Rightarrow> interval_error + checked_interval" where
  "from_bounds s e = (if e < s then Inl Reversed else Inr \<lparr>start = s, iend = e\<rparr>)"

definition is_empty :: "checked_interval \<Rightarrow> bool" where
  "is_empty iv \<longleftrightarrow> start iv = iend iv"

definition contains :: "checked_interval \<Rightarrow> checked_interval \<Rightarrow> bool" where
  "contains outer inner \<longleftrightarrow> start inner \<ge> start outer \<and> iend inner \<le> iend outer"

text \<open>The first loop of \<open>exact_partition\<close>: no part is empty or outside, in sorted order.\<close>

fun check_parts :: "checked_interval \<Rightarrow> (nat \<times> checked_interval) list \<Rightarrow> partition_error + unit" where
  "check_parts outer [] = Inr ()"
| "check_parts outer ((i, iv) # rest) =
     (if is_empty iv then Inl (EmptyPart i)
      else if \<not> contains outer iv then Inl (PartOutside i)
      else check_parts outer rest)"

text \<open>The loop over \<open>ordered.windows(2)\<close>.\<close>

fun check_windows :: "(nat \<times> checked_interval) list \<Rightarrow> partition_error + unit" where
  "check_windows ((i, previous) # (j, nxt) # rest) =
     (if iend previous > start nxt then Inl (Overlap j)
      else if iend previous < start nxt then Inl (Gap j)
      else check_windows ((j, nxt) # rest))"
| "check_windows _ = Inr ()"

definition exact_partition ::
  "checked_interval \<Rightarrow> checked_interval list \<Rightarrow> partition_error + unit" where
  "exact_partition outer parts =
     (if parts = [] then (if is_empty outer then Inr () else Inl MissingParts)
      else
        let ordered = sort_key (\<lambda>p. start (snd p)) (enumerate 0 parts)
        in and_then (check_parts outer ordered) (\<lambda>_.
             case hd ordered of (first_index, first) \<Rightarrow>
             if start first \<noteq> start outer then Inl (GapBeforeFirst first_index)
             else and_then (check_windows ordered) (\<lambda>_.
               case last ordered of (last_index, lst) \<Rightarrow>
               if iend lst \<noteq> iend outer then Inl (GapAfterLast last_index) else Inr ())))"

text \<open>
  The ordered check of the covering audit: the parts come in source order and the three
  details of its errors are told apart by the constructors below.
\<close>

datatype ordered_error = Invalid | FirstGap | LastGap

fun windows_meet :: "checked_interval list \<Rightarrow> bool" where
  "windows_meet (a # b # rest) \<longleftrightarrow> iend a = start b \<and> windows_meet (b # rest)"
| "windows_meet _ \<longleftrightarrow> True"

definition validate_ordered_partition ::
  "checked_interval \<Rightarrow> checked_interval list \<Rightarrow> ordered_error + unit" where
  "validate_ordered_partition outer parts =
     (if parts = [] then (if is_empty outer then Inr () else Inl Invalid)
      else if list_ex (\<lambda>part. is_empty part \<or> \<not> contains outer part) parts then Inl Invalid
      else if start (hd parts) \<noteq> start outer then Inl FirstGap
      else if \<not> windows_meet parts then Inl Invalid
      else if iend (last parts) \<noteq> iend outer then Inl LastGap
      else Inr ())"

subsection \<open>The specification\<close>

definition interval_ok :: "checked_interval \<Rightarrow> bool" where
  "interval_ok iv \<longleftrightarrow> start iv \<le> iend iv"

definition covers :: "checked_interval \<Rightarrow> u64 \<Rightarrow> bool" where
  "covers iv x \<longleftrightarrow> start iv \<le> x \<and> x < iend iv"

definition cover_count :: "checked_interval list \<Rightarrow> u64 \<Rightarrow> nat" where
  "cover_count parts x = length (filter (\<lambda>iv. covers iv x) parts)"

definition partition_spec :: "checked_interval \<Rightarrow> checked_interval list \<Rightarrow> bool" where
  "partition_spec outer parts \<longleftrightarrow>
     (\<forall>p \<in> set parts. \<not> is_empty p \<and> contains outer p) \<and>
     (\<forall>x. covers outer x \<longrightarrow> cover_count parts x = 1)"

text \<open>The consecutive chain both checks establish.\<close>

fun chain :: "u64 \<Rightarrow> checked_interval list \<Rightarrow> u64 \<Rightarrow> bool" where
  "chain a [] b \<longleftrightarrow> a = b"
| "chain a (p # ps) b \<longleftrightarrow> start p = a \<and> chain (iend p) ps b"

lemma from_offset_len_ok:
  "from_offset_len off len = Inr iv \<Longrightarrow>
     interval_ok iv \<and> start iv = off \<and> unat (iend iv) = unat off + unat len"
  by (auto simp: from_offset_len_def checked_add_word_def interval_ok_def word_le_nat_alt
      unat_add_u64 split: if_splits)

lemma from_bounds_ok: "from_bounds s e = Inr iv \<Longrightarrow> interval_ok iv \<and> start iv = s \<and> iend iv = e"
  by (auto simp: from_bounds_def interval_ok_def split: if_splits)

lemma cover_count_Cons [simp]:
  "cover_count (p # ps) x = (if covers p x then 1 else 0) + cover_count ps x"
  by (simp add: cover_count_def)

lemma cover_count_Nil [simp]: "cover_count [] x = 0"
  by (simp add: cover_count_def)

lemma cover_count_mset: "mset ps = mset qs \<Longrightarrow> cover_count ps x = cover_count qs x"
  unfolding cover_count_def by (metis mset_filter size_mset)

lemma cover_count_pos: "0 < cover_count ps x \<longleftrightarrow> (\<exists>p \<in> set ps. covers p x)"
  by (induction ps) auto

lemma cover_count_none: "(\<And>p. p \<in> set ps \<Longrightarrow> \<not> covers p x) \<Longrightarrow> cover_count ps x = 0"
  by (induction ps) auto

lemma chain_le: "\<lbrakk>chain a ps b; \<forall>p \<in> set ps. start p < iend p\<rbrakk> \<Longrightarrow> a \<le> b"
  by (induction ps arbitrary: a) (auto intro: order.trans less_imp_le)

lemma chain_starts:
  "\<lbrakk>chain a ps b; \<forall>p \<in> set ps. start p < iend p; q \<in> set ps\<rbrakk> \<Longrightarrow> a \<le> start q"
  by (induction ps arbitrary: a) (fastforce dest: less_imp_le)+

lemma chain_counts:
  "\<lbrakk>chain a ps b; \<forall>p \<in> set ps. start p < iend p; a \<le> x; x < b\<rbrakk> \<Longrightarrow> cover_count ps x = 1"
proof (induction ps arbitrary: a)
  case Nil
  then show ?case by simp
next
  case (Cons p ps)
  then have p: "start p = a" and rest: "chain (iend p) ps b" and pos: "\<forall>q \<in> set ps. start q < iend q"
    by auto
  show ?case
  proof (cases "x < iend p")
    case True
    have "cover_count ps x = 0"
      using chain_starts [OF rest pos] True by (intro cover_count_none) (force simp: covers_def)
    with True p Cons.prems show ?thesis by (simp add: covers_def)
  next
    case False
    with Cons.IH [OF rest pos] Cons.prems show ?thesis by (simp add: covers_def not_less)
  qed
qed

text \<open>
  The converse: parts sorted by their start that count every point once are consecutive. The
  part with the least start must begin at \<open>a\<close>, and no later part can begin before it ends,
  or its own start would be counted twice.
\<close>

lemma counts_chain:
  assumes "sorted (map start ps)"
    and "\<forall>p \<in> set ps. start p < iend p \<and> a \<le> start p \<and> iend p \<le> b"
    and "\<And>x. a \<le> x \<Longrightarrow> x < b \<Longrightarrow> cover_count ps x = 1"
    and "a \<le> b"
  shows "chain a ps b"
  using assms
proof (induction ps arbitrary: a)
  case Nil
  then show ?case by (metis chain.simps(1) cover_count_Nil order_le_less order_refl zero_neq_one)
next
  case (Cons p ps)
  have p: "start p < iend p" "a \<le> start p" "iend p \<le> b" using Cons.prems(2) by auto
  then have "a < b" by order
  with Cons.prems(3) [of a] have "0 < cover_count (p # ps) a" by simp
  then obtain q where q: "q \<in> set (p # ps)" "covers q a" unfolding cover_count_pos by blast
  then have "start q = a" using Cons.prems(2) by (force simp: covers_def)
  moreover have "start p \<le> start q" using q(1) Cons.prems(1) by auto
  ultimately have sp: "start p = a" using p by simp
  have later: "iend p \<le> start r" if r: "r \<in> set ps" for r
  proof (rule ccontr)
    assume "\<not> iend p \<le> start r"
    with r Cons.prems(1,2) have "covers p (start r)" "covers r (start r)"
      by (auto simp: covers_def)
    moreover have "0 < cover_count ps (start r)"
      using r \<open>covers r (start r)\<close> by (auto simp: cover_count_pos)
    moreover have "a \<le> start r" "start r < b"
      using r Cons.prems(2) by (auto intro: less_le_trans)
    ultimately show False using Cons.prems(3) [of "start r"] by simp
  qed
  have "chain (iend p) ps b"
  proof (rule Cons.IH)
    fix x assume x: "iend p \<le> x" "x < b"
    then have "cover_count (p # ps) x = 1" using p sp by (intro Cons.prems(3)) auto
    with x show "cover_count ps x = 1" by (simp add: covers_def split: if_splits)
  qed (use Cons.prems(1,2) later p in auto)
  with sp show ?case by simp
qed

lemma check_parts_ok:
  "check_parts outer ordered = Inr () \<longleftrightarrow>
     (\<forall>p \<in> set (map snd ordered). \<not> is_empty p \<and> contains outer p)"
  by (induction outer ordered rule: check_parts.induct) (auto split: if_splits)

lemma check_windows_ok: "check_windows ordered = Inr () \<longleftrightarrow> windows_meet (map snd ordered)"
  by (induction ordered rule: check_windows.induct) (auto split: if_splits)

lemma windows_meet_chain:
  "ps \<noteq> [] \<Longrightarrow> chain a ps b \<longleftrightarrow> start (hd ps) = a \<and> windows_meet ps \<and> iend (last ps) = b"
proof (induction ps arbitrary: a rule: windows_meet.induct)
  case (1 p q ps)
  have "chain a (p # q # ps) b \<longleftrightarrow> start p = a \<and> chain (iend p) (q # ps) b" by simp
  also have "\<dots> \<longleftrightarrow> start p = a \<and> start q = iend p \<and> windows_meet (q # ps) \<and> iend (last (q # ps)) = b"
    using "1.IH" [of "iend p"] by (simp only: list.sel list.distinct simp_thms)
  finally show ?case by (metis list.sel(1) last_ConsR list.distinct(1) windows_meet.simps(1))
qed auto

lemma chain_sorted:
  "\<lbrakk>chain a ps b; \<forall>p \<in> set ps. start p < iend p\<rbrakk> \<Longrightarrow> sorted (map start ps)"
proof (induction ps arbitrary: a)
  case Nil
  then show ?case by simp
next
  case (Cons p ps)
  then have "iend p \<le> start q" if "q \<in> set ps" for q
    using chain_starts [of "iend p" ps b q] that by auto
  with Cons show ?case by (auto intro: order.trans less_imp_le)
qed

lemma map_snd_insort:
  "map snd (insort_key (\<lambda>p. start (snd p)) x ys) = insort_key start (snd x) (map snd ys)"
  by (induction ys) auto

lemma map_snd_sort: "map snd (sort_key (\<lambda>p. start (snd p)) xs) = sort_key start (map snd xs)"
  by (induction xs) (simp_all add: sort_key_def map_snd_insort)

lemma map_snd_ordered:
  "map snd (sort_key (\<lambda>p. start (snd p)) (enumerate n parts)) = sort_key start parts"
  by (simp add: map_snd_sort)

lemma exact_partition_chain:
  assumes "parts \<noteq> []"
  shows "exact_partition outer parts = Inr () \<longleftrightarrow>
     (\<forall>p \<in> set parts. \<not> is_empty p \<and> contains outer p) \<and>
     chain (start outer) (sort_key start parts) (iend outer)"
proof -
  define ord where "ord = sort_key (\<lambda>p. start (snd p)) (enumerate 0 parts)"
  have snds: "map snd ord = sort_key start parts" by (simp add: ord_def map_snd_ordered)
  have ne: "ord \<noteq> []" using assms snds by (metis length_0_conv length_sort list.map_disc_iff)
  then have ends: "snd (hd ord) = hd (map snd ord)" "snd (last ord) = last (map snd ord)"
    by (simp_all add: hd_map last_map)
  have "exact_partition outer parts = Inr () \<longleftrightarrow>
      check_parts outer ord = Inr () \<and> start (snd (hd ord)) = start outer \<and>
      check_windows ord = Inr () \<and> iend (snd (last ord)) = iend outer"
    using assms
    by (auto simp: exact_partition_def Let_def and_then_eq_Inr ord_def [symmetric] split: prod.splits
        if_splits)
  also have "\<dots> \<longleftrightarrow> (\<forall>p \<in> set (map snd ord). \<not> is_empty p \<and> contains outer p) \<and>
      chain (start outer) (map snd ord) (iend outer)"
    using ne windows_meet_chain [of "map snd ord" "start outer" "iend outer"]
    by (simp only: check_parts_ok check_windows_ok ends list.map_disc_iff) blast
  also have "set (map snd ord) = set parts" by (simp only: snds set_sort)
  finally show ?thesis by (simp only: snds)
qed

lemma sorted_sort_id_key: "sorted (map f xs) \<Longrightarrow> sort_key f xs = xs"
  by (induction xs) (simp_all add: insort_is_Cons)

text \<open>C34. The sort-and-scan check is exact: for intervals as the constructors produce them it accepts
  a list of parts precisely when every part is non-empty and inside the outer interval and every
  position of the outer interval lies in exactly one part.\<close>

theorem exact_partition_iff_spec:
  assumes "interval_ok outer" and "\<forall>p \<in> set parts. interval_ok p"
  shows "exact_partition outer parts = Inr () \<longleftrightarrow> partition_spec outer parts"
proof (cases "parts = []")
  case True
  then show ?thesis using assms(1)
    by (auto simp: exact_partition_def partition_spec_def is_empty_def interval_ok_def covers_def)
next
  case False
  let ?s = "sort_key start parts"
  have sets: "set ?s = set parts" and counts: "cover_count ?s x = cover_count parts x" for x
    using cover_count_mset [of ?s parts] by simp_all
  have proper: "\<not> is_empty p \<longleftrightarrow> start p < iend p" if "p \<in> set parts" for p
    using assms(2) that by (auto simp: is_empty_def interval_ok_def)
  show ?thesis (is "?L = ?R")
  proof
    assume ?L
    then have "\<forall>p \<in> set parts. \<not> is_empty p \<and> contains outer p"
      "chain (start outer) ?s (iend outer)"
      by (auto simp: exact_partition_chain [OF False])
    then show ?R
      using chain_counts [of "start outer" ?s "iend outer"]
      by (auto simp: partition_spec_def covers_def sets counts proper)
  next
    assume R: ?R
    then have "chain (start outer) ?s (iend outer)"
      using assms(1) proper
      by (intro counts_chain)
         (auto simp: partition_spec_def sets counts covers_def contains_def interval_ok_def)
    with R show ?L by (auto simp: exact_partition_chain [OF False] partition_spec_def)
  qed
qed

theorem exact_partition_iff_spec_witness:
  "partition_spec \<lparr>start = 0, iend = 8\<rparr> [\<lparr>start = 3, iend = 8\<rparr>, \<lparr>start = 0, iend = 3\<rparr>]"
proof -
  have "exact_partition \<lparr>start = 0, iend = 8\<rparr> [\<lparr>start = 3, iend = 8\<rparr>, \<lparr>start = 0, iend = 3\<rparr>] = Inr ()"
    by (simp add: exact_partition_def is_empty_def contains_def enumerate_eq_zip)
  then show ?thesis
    using exact_partition_iff_spec [of "\<lparr>start = 0, iend = 8\<rparr>" "[\<lparr>start = 3, iend = 8\<rparr>, \<lparr>start = 0, iend = 3\<rparr>]"]
    by (simp add: interval_ok_def)
qed

lemma validate_ordered_partition_chain:
  "parts \<noteq> [] \<Longrightarrow> validate_ordered_partition outer parts = Inr () \<longleftrightarrow>
     (\<forall>p \<in> set parts. \<not> is_empty p \<and> contains outer p) \<and>
     chain (start outer) parts (iend outer)"
  by (auto simp: validate_ordered_partition_def windows_meet_chain list_ex_iff)

text \<open>C39. The audit's own partition check, which does not sort, accepts exactly the ascending lists
  that the general partition check accepts.\<close>

theorem ordered_iff_exact:
  assumes "\<forall>p \<in> set parts. interval_ok p"
  shows "validate_ordered_partition outer parts = Inr () \<longleftrightarrow>
           exact_partition outer parts = Inr () \<and> sorted (map start parts)"
proof (cases "parts = []")
  case True
  then show ?thesis by (simp add: validate_ordered_partition_def exact_partition_def)
next
  case False
  have "chain a parts b \<Longrightarrow> \<forall>p \<in> set parts. \<not> is_empty p \<Longrightarrow> sorted (map start parts)" for a b
    using assms by (intro chain_sorted [of a parts b]) (auto simp: is_empty_def interval_ok_def order_less_le)
  moreover have "sorted (map start parts) \<Longrightarrow> sort_key start parts = parts"
    by (metis sorted_sort_id_key)
  ultimately show ?thesis
    using False by (auto simp: validate_ordered_partition_chain exact_partition_chain)
qed

theorem ordered_iff_exact_witness:
  "validate_ordered_partition \<lparr>start = 0, iend = 8\<rparr> [\<lparr>start = 0, iend = 3\<rparr>, \<lparr>start = 3, iend = 8\<rparr>] = Inr () \<and>
   exact_partition \<lparr>start = 0, iend = 8\<rparr> [\<lparr>start = 0, iend = 3\<rparr>, \<lparr>start = 3, iend = 8\<rparr>] = Inr ()"
proof -
  have "validate_ordered_partition \<lparr>start = 0, iend = 8\<rparr> [\<lparr>start = 0, iend = 3\<rparr>, \<lparr>start = 3, iend = 8\<rparr>] = Inr ()"
    by (simp add: validate_ordered_partition_def is_empty_def contains_def)
  then show ?thesis
    using ordered_iff_exact [of "[\<lparr>start = 0, iend = 3\<rparr>, \<lparr>start = 3, iend = 8\<rparr>]" "\<lparr>start = 0, iend = 8\<rparr>"]
    by (simp add: interval_ok_def)
qed

end
