(* ===== verification/Utf8.thy ===== *)
theory Utf8
  imports Prelude
begin

text \<open>
  Rust strings. A \<open>char\<close> is a Unicode scalar value, here a natural number; a \<open>str\<close> is the
  list of its scalar values. \<open>from_utf8\<close> is \<open>std::str::from_utf8\<close> (strict UTF-8: no
  overlong forms, no surrogates, nothing above \<open>U+10FFFF\<close>) and \<open>as_bytes\<close> is
  \<open>str::as_bytes\<close>. The two are inverse to each other, so a decoded name determines the bytes
  it came from.
\<close>

type_synonym rust_char = nat
type_synonym rust_str = "nat list"

definition is_scalar :: "rust_char \<Rightarrow> bool" where
  "is_scalar c \<longleftrightarrow> c < 0xD800 \<or> (0xDFFF < c \<and> c < 0x110000)"

definition encode_char :: "rust_char \<Rightarrow> bytes" where
  "encode_char c =
     (if c < 0x80 then [of_nat c]
      else if c < 0x800 then [of_nat (0xC0 + c div 64), of_nat (0x80 + c mod 64)]
      else if c < 0x10000 then
        [of_nat (0xE0 + c div 64 div 64), of_nat (0x80 + c div 64 mod 64),
         of_nat (0x80 + c mod 64)]
      else [of_nat (0xF0 + c div 64 div 64 div 64), of_nat (0x80 + c div 64 div 64 mod 64),
            of_nat (0x80 + c div 64 mod 64), of_nat (0x80 + c mod 64)])"

definition as_bytes :: "rust_str \<Rightarrow> bytes" where
  "as_bytes s = concat (map encode_char s)"

definition is_continuation :: "u8 \<Rightarrow> bool" where
  "is_continuation b \<longleftrightarrow> 0x80 \<le> unat b \<and> unat b \<le> 0xBF"

text \<open>The bounds of the second byte, by the first one.\<close>

definition second_ok :: "u8 \<Rightarrow> u8 \<Rightarrow> bool" where
  "second_ok b c \<longleftrightarrow>
     (if unat b = 0xE0 then 0xA0 \<le> unat c \<and> unat c \<le> 0xBF
      else if unat b = 0xED then 0x80 \<le> unat c \<and> unat c \<le> 0x9F
      else if unat b = 0xF0 then 0x90 \<le> unat c \<and> unat c \<le> 0xBF
      else if unat b = 0xF4 then 0x80 \<le> unat c \<and> unat c \<le> 0x8F
      else is_continuation c)"

text \<open>One scalar value from the front of a byte sequence, with the bytes that follow it.\<close>

fun decode_char :: "bytes \<Rightarrow> (rust_char \<times> bytes) option" where
  "decode_char [] = None"
| "decode_char (b # rest) =
     (if unat b < 0x80 then Some (unat b, rest)
      else if 0xC2 \<le> unat b \<and> unat b \<le> 0xDF then
        (case rest of
           c # rest' \<Rightarrow>
             if is_continuation c
             then Some ((unat b - 0xC0) * 64 + (unat c - 0x80), rest') else None
         | _ \<Rightarrow> None)
      else if 0xE0 \<le> unat b \<and> unat b \<le> 0xEF then
        (case rest of
           c # d # rest' \<Rightarrow>
             if second_ok b c \<and> is_continuation d
             then Some (((unat b - 0xE0) * 64 + (unat c - 0x80)) * 64 + (unat d - 0x80), rest')
             else None
         | _ \<Rightarrow> None)
      else if 0xF0 \<le> unat b \<and> unat b \<le> 0xF4 then
        (case rest of
           c # d # e # rest' \<Rightarrow>
             if second_ok b c \<and> is_continuation d \<and> is_continuation e
             then Some ((((unat b - 0xF0) * 64 + (unat c - 0x80)) * 64
                        + (unat d - 0x80)) * 64 + (unat e - 0x80), rest')
             else None
         | _ \<Rightarrow> None)
      else None)"

lemma decode_char_shorter: "decode_char bs = Some (c, rest) \<Longrightarrow> length rest < length bs"
  by (cases bs) (auto split: if_splits list.splits)

function from_utf8 :: "bytes \<Rightarrow> rust_str option" where
  "from_utf8 bs =
     (if bs = [] then Some []
      else case decode_char bs of
        None \<Rightarrow> None
      | Some (c, rest) \<Rightarrow> map_option ((#) c) (from_utf8 rest))"
  by pat_completeness auto
termination
  by (relation "measure length") (auto dest: decode_char_shorter)

declare from_utf8.simps [simp del]

lemma from_utf8_Nil [simp]: "from_utf8 [] = Some []"
  by (simp add: from_utf8.simps)

subsection \<open>Round trips\<close>

lemma of_nat_unat_eq: "n = unat (b :: u8) \<Longrightarrow> of_nat n = b"
  by simp

lemma unat_u8_less: "unat (b :: u8) < 256"
  using unsigned_less [of b, where ?'a = nat] by simp

lemma continuation_range: "is_continuation b \<Longrightarrow> 128 \<le> unat b \<and> unat b < 192"
  by (simp add: is_continuation_def)

lemma second_ok_range: "second_ok b c \<Longrightarrow> 128 \<le> unat c \<and> unat c < 192"
  by (auto simp: second_ok_def is_continuation_def split: if_splits)

lemma horner_div: "y < 64 \<Longrightarrow> (x * 64 + y) div 64 = (x :: nat)"
  by simp

lemma horner_mod: "y < 64 \<Longrightarrow> (x * 64 + y) mod 64 = (y :: nat)"
  by simp

lemma of_nat_offset: "m \<le> unat (b :: u8) \<Longrightarrow> of_nat (m + (unat b - m)) = b"
  by simp

lemma three_range:
  fixes x y z :: nat
  assumes "x < 16" "y < 64" "z < 64" "x = 0 \<Longrightarrow> 32 \<le> y" "x = 13 \<Longrightarrow> y < 32"
  shows "2048 \<le> (x * 64 + y) * 64 + z \<and> (x * 64 + y) * 64 + z < 65536 \<and>
    ((x * 64 + y) * 64 + z < 55296 \<or> 57343 < (x * 64 + y) * 64 + z)"
proof -
  consider "x = 0" "32 \<le> y" | "0 < x" "x < 13" | "x = 13" "y < 32" | "13 < x"
    using assms(4,5) by linarith
  then show ?thesis using assms(1-3) by cases auto
qed

lemma four_range:
  fixes x y z w :: nat
  assumes "x < 5" "y < 64" "z < 64" "w < 64" "x = 0 \<Longrightarrow> 16 \<le> y" "x = 4 \<Longrightarrow> y < 16"
  shows "65536 \<le> ((x * 64 + y) * 64 + z) * 64 + w \<and> ((x * 64 + y) * 64 + z) * 64 + w < 1114112"
proof -
  consider "x = 0" "16 \<le> y" | "0 < x" "x < 4" | "x = 4" "y < 16"
    using assms(1,5,6) by linarith
  then show ?thesis using assms(2-4) by cases auto
qed

text \<open>The value of a two-, three- or four-byte form encodes recomp to the same bytes.\<close>

lemma encode_two:
  assumes "194 \<le> unat b" "unat b \<le> 223" "is_continuation c"
  defines "v \<equiv> (unat b - 192) * 64 + (unat c - 128)"
  shows "encode_char v = [b, c] \<and> is_scalar v"
proof -
  have y: "unat c - 128 < 64" and c: "128 \<le> unat c" using continuation_range [OF assms(3)] by auto
  have v: "v div 64 = unat b - 192" "v mod 64 = unat c - 128"
    unfolding v_def by (rule horner_div [OF y], rule horner_mod [OF y])
  have "2 * 64 \<le> v" "v < 32 * 64" unfolding v_def using assms(1,2) y by linarith+
  then show ?thesis
    using assms(1) c by (simp add: encode_char_def is_scalar_def v of_nat_offset del: of_nat_add)
qed

lemma encode_three:
  assumes "224 \<le> unat b" "unat b \<le> 239" "second_ok b c" "is_continuation d"
  defines "v \<equiv> ((unat b - 224) * 64 + (unat c - 128)) * 64 + (unat d - 128)"
  shows "encode_char v = [b, c, d] \<and> is_scalar v"
proof -
  have z: "unat d - 128 < 64" and d: "128 \<le> unat d" using continuation_range [OF assms(4)] by auto
  have y: "unat c - 128 < 64" and c: "128 \<le> unat c" using second_ok_range [OF assms(3)] by auto
  have v: "v div 64 = (unat b - 224) * 64 + (unat c - 128)" "v mod 64 = unat d - 128"
    unfolding v_def by (rule horner_div [OF z], rule horner_mod [OF z])
  then have v': "v div 64 div 64 = unat b - 224" "v div 64 mod 64 = unat c - 128"
    by (simp_all only: horner_div [OF y] horner_mod [OF y])
  have "unat b - 224 = 0 \<Longrightarrow> 32 \<le> unat c - 128" "unat b - 224 = 13 \<Longrightarrow> unat c - 128 < 32"
    using assms(1,3) by (auto simp: second_ok_def split: if_splits)
  then have "2048 \<le> v" "v < 65536" "v < 55296 \<or> 57343 < v"
    unfolding v_def using three_range [OF _ y z] assms(2) by auto
  then show ?thesis
    using assms(1) c d by (simp add: encode_char_def is_scalar_def v(2) v' of_nat_offset del: of_nat_add)
qed

lemma encode_four:
  assumes "240 \<le> unat b" "unat b \<le> 244" "second_ok b c" "is_continuation d" "is_continuation e"
  defines "v \<equiv> (((unat b - 240) * 64 + (unat c - 128)) * 64 + (unat d - 128)) * 64 + (unat e - 128)"
  shows "encode_char v = [b, c, d, e] \<and> is_scalar v"
proof -
  have w: "unat e - 128 < 64" and e: "128 \<le> unat e" using continuation_range [OF assms(5)] by auto
  have z: "unat d - 128 < 64" and d: "128 \<le> unat d" using continuation_range [OF assms(4)] by auto
  have y: "unat c - 128 < 64" and c: "128 \<le> unat c" using second_ok_range [OF assms(3)] by auto
  have v: "v div 64 = ((unat b - 240) * 64 + (unat c - 128)) * 64 + (unat d - 128)"
    "v mod 64 = unat e - 128"
    unfolding v_def by (rule horner_div [OF w], rule horner_mod [OF w])
  then have v': "v div 64 div 64 = (unat b - 240) * 64 + (unat c - 128)" "v div 64 mod 64 = unat d - 128"
    by (simp_all only: horner_div [OF z] horner_mod [OF z])
  then have v'': "v div 64 div 64 div 64 = unat b - 240" "v div 64 div 64 mod 64 = unat c - 128"
    by (simp_all only: horner_div [OF y] horner_mod [OF y])
  have "unat b - 240 = 0 \<Longrightarrow> 16 \<le> unat c - 128" "unat b - 240 = 4 \<Longrightarrow> unat c - 128 < 16"
    using assms(1,3) by (auto simp: second_ok_def split: if_splits)
  then have "65536 \<le> v" "v < 1114112"
    unfolding v_def using four_range [OF _ y z w] assms(2) by auto
  then show ?thesis
    using assms(1) c d e
    by (simp add: encode_char_def is_scalar_def v(2) v'(2) v'' of_nat_offset del: of_nat_add)
qed

lemma decode_char_sound:
  assumes "decode_char bs = Some (c, rest)"
  shows "encode_char c @ rest = bs \<and> is_scalar c"
proof (cases bs)
  case Nil
  with assms show ?thesis by simp
next
  case (Cons b tail)
  have one: "encode_char (unat b) = [b] \<and> is_scalar (unat b)" if "unat b < 128"
    using that by (simp add: encode_char_def is_scalar_def)
  from assms Cons show ?thesis
    using encode_two [of b] encode_three [of b] encode_four [of b] one
    by (auto split: if_splits list.splits)
qed

lemma from_utf8_as_bytes: "from_utf8 bs = Some s \<Longrightarrow> as_bytes s = bs \<and> list_all is_scalar s"
proof (induction bs arbitrary: s rule: from_utf8.induct)
  case (1 bs)
  show ?case
  proof (cases "bs = []")
    case True
    with "1.prems" show ?thesis by (simp add: as_bytes_def)
  next
    case False
    with "1.prems" obtain c rest t where d: "decode_char bs = Some (c, rest)"
      and t: "from_utf8 rest = Some t" and s: "s = c # t"
      by (auto simp: from_utf8.simps [of bs] split: option.splits prod.splits)
    from "1.IH" [OF False d refl t] have "as_bytes t = rest" "list_all is_scalar t" by auto
    with decode_char_sound [OF d] s show ?thesis by (simp add: as_bytes_def)
  qed
qed

lemma from_utf8_inj: "\<lbrakk>from_utf8 a = Some s; from_utf8 b = Some s\<rbrakk> \<Longrightarrow> a = b"
  using from_utf8_as_bytes by blast

lemma unat_of_nat_u8: "n < 256 \<Longrightarrow> unat (of_nat n :: u8) = n"
  by (simp add: unat_of_nat)

lemma div_mod_64: "c div 64 * 64 + c mod 64 = (c :: nat)"
  by simp

lemma decode_encode_char:
  assumes "is_scalar c"
  shows "decode_char (encode_char c @ rest) = Some (c, rest)"
proof -
  let ?q = "c div 64" and ?r = "c div 64 div 64"
  have m: "c mod 64 \<le> 63" "?q mod 64 \<le> 63" "?r mod 64 \<le> 63"
    by (simp_all add: less_Suc_eq_le [symmetric])
  have recomp: "?q * 64 + c mod 64 = c" "?r * 64 + ?q mod 64 = ?q"
    "?r div 64 * 64 + ?r mod 64 = ?r" by simp_all
  consider (single) "c < 128" | (double) "128 \<le> c" "c < 2048" | (triple) "2048 \<le> c" "c < 65536"
    | (quad) "65536 \<le> c" "c < 1114112"
    using assms by (fastforce simp: is_scalar_def not_less)
  then show ?thesis
  proof cases
    case single
    then show ?thesis by (simp add: encode_char_def unat_of_nat_u8)
  next
    case double
    then have "?q < 32" "2 \<le> ?q" by linarith+
    with double m show ?thesis
      by (simp add: encode_char_def unat_of_nat_u8 is_continuation_def del: of_nat_add)
  next
    case triple
    then have r: "?r < 16" by linarith
    have r0: "?r = 0 \<Longrightarrow> 32 \<le> ?q mod 64" using triple recomp m by linarith
    have "?r = 13 \<Longrightarrow> ?q mod 64 < 32"
    proof -
      assume "?r = 13"
      then have "c = 13 * 4096 + ?q mod 64 * 64 + c mod 64" using recomp by linarith
      with assms m show "?q mod 64 < 32" by (simp add: is_scalar_def)
    qed
    then have r13: "?r = 13 \<longrightarrow> ?q mod 64 \<le> 31" by auto
    have "?r = 0 \<longrightarrow> ?q \<le> 63" by auto
    with triple m r r0 r13 show ?thesis
      by (simp add: encode_char_def unat_of_nat_u8 is_continuation_def second_ok_def recomp
          del: of_nat_add)
  next
    case quad
    have s: "?r div 64 < 5" using quad by linarith
    have "?r div 64 = 0 \<Longrightarrow> 16 \<le> ?r mod 64" "?r div 64 = 4 \<Longrightarrow> ?r mod 64 \<le> 15"
      using quad recomp by linarith+
    with quad m s show ?thesis
      by (simp add: encode_char_def unat_of_nat_u8 is_continuation_def second_ok_def recomp
          del: of_nat_add)
  qed
qed

lemma encode_char_nonempty [simp]: "encode_char c \<noteq> []"
  by (simp add: encode_char_def)

lemma as_bytes_from_utf8: "list_all is_scalar s \<Longrightarrow> from_utf8 (as_bytes s) = Some s"
proof (induction s)
  case Nil
  then show ?case by (simp add: as_bytes_def)
next
  case (Cons c s)
  then have "decode_char (as_bytes (c # s)) = Some (c, as_bytes s)"
    by (simp add: as_bytes_def decode_encode_char)
  moreover have "as_bytes (c # s) \<noteq> []" by (simp add: as_bytes_def)
  ultimately show ?case using Cons by (simp add: from_utf8.simps [of "as_bytes (c # s)"])
qed

text \<open>ASCII text decodes to itself.\<close>

lemma from_utf8_ascii: "\<forall>b \<in> set bs. unat b < 128 \<Longrightarrow> from_utf8 bs = Some (map unat bs)"
  by (induction bs) (simp_all add: from_utf8.simps [of "_ # _"])

end
