(* ===== verification/Findings.thy ===== *)
theory Findings
  imports Utf8
begin

text \<open>
  Findings, \<open>crates/sealr/src/findings.rs\<close>: the stable codes, the severity and the
  constructors every reader and audit uses, and the fixed-signature hints of
  \<open>crates/sealr/src/hints.rs\<close>. The \<open>detail\<close> text of a finding is left out of the record: it
  is prose for people, no function of the program reads it back, and every branch of the model
  is told apart by its code. \<open>member\<close> and \<open>hint\<close> are kept.
\<close>

subsection \<open>Codes\<close>

datatype (plugins only: code) finding_code =
    PathAbsolute
  | PathDotDot
  | PathEmpty
  | PathAds
  | PathReserved
  | PathTrailing
  | PathEscape
  | PathDepth
  | PathNul
  | PathInvalidChar
  | PathUnicode
  | PathCaseFold
  | PathConflict
  | MaterializeExists
  | MaterializeIo
  | MaterializeCommit
  | MaterializeUnsafeParent
  | MaterializeUnsafeComponent
  | MaterializeCleanup
  | MaterializeUnsupported
  | MaterializeUnsupportedFilesystem
  | MaterializeUnsafeStage
  | MaterializeAudit
  | SourceIo
  | QuotaArchive
  | QuotaDerived
  | QuotaMetadata
  | QuotaFiles
  | QuotaMember
  | QuotaTotal
  | QuotaRatio
  | QuotaOverflow
  | QuotaDeclaredLie
  | PolicyUnsupported
  | ZipDiffA1Method
  | ZipDiffA2Size
  | ZipDiffA3Name
  | ZipDiffA4Dir
  | ZipDiffA5Crypt
  | ZipDiffB1Dup
  | ZipDiffB2Chars
  | ZipDiffC1Stream
  | ZipDiffC2Eocd
  | ZipDiffC3Count
  | ZipDiffC4Offset
  | ZipDiffC5Zip64
  | ZipOverlap
  | CoveringInconsistent
  | ZipEncrypted
  | ZipEncoding
  | ZipExtra
  | ZipFlags
  | TarChecksum
  | TarDialect
  | TarNumeric
  | TarPadding
  | TarTerminator
  | TarTruncated
  | TarType
  | TarFeatureUnsupported
  | TarPaxRecord
  | TarPaxState
  | FormatUnsupported
  | FormatMagic
  | GzipExtra
  | CodecDeflateInvalidStream
  | CodecDeflateTrailingInput
  | CrcMismatch
  | MethodUnsupported
  | TarGnuLongName
  | TarGnuState
  | CodecZstdInvalidFrame
  | CodecZstdTrailingInput
  | CodecXzInvalidStream
  | CodecXzTrailingInput
  | CodecBzip2InvalidStream
  | CodecBzip2TrailingInput
  | SevenZInvalidStructure
  | EvidenceCanonicalization
  | ZipSymlink

text \<open>The pinned discriminants (\<open>code as isize\<close>).\<close>

primrec discriminant :: "finding_code \<Rightarrow> nat" where
  "discriminant PathAbsolute = 0"
| "discriminant PathDotDot = 1"
| "discriminant PathEmpty = 2"
| "discriminant PathAds = 3"
| "discriminant PathReserved = 4"
| "discriminant PathTrailing = 5"
| "discriminant PathEscape = 6"
| "discriminant PathDepth = 7"
| "discriminant PathNul = 8"
| "discriminant PathInvalidChar = 9"
| "discriminant PathUnicode = 10"
| "discriminant PathCaseFold = 11"
| "discriminant PathConflict = 12"
| "discriminant MaterializeExists = 13"
| "discriminant MaterializeIo = 14"
| "discriminant MaterializeCommit = 15"
| "discriminant MaterializeUnsafeParent = 16"
| "discriminant MaterializeUnsafeComponent = 17"
| "discriminant MaterializeCleanup = 18"
| "discriminant MaterializeUnsupported = 19"
| "discriminant MaterializeUnsupportedFilesystem = 20"
| "discriminant MaterializeUnsafeStage = 21"
| "discriminant MaterializeAudit = 22"
| "discriminant SourceIo = 23"
| "discriminant QuotaArchive = 24"
| "discriminant QuotaDerived = 25"
| "discriminant QuotaMetadata = 26"
| "discriminant QuotaFiles = 27"
| "discriminant QuotaMember = 28"
| "discriminant QuotaTotal = 29"
| "discriminant QuotaRatio = 30"
| "discriminant QuotaOverflow = 31"
| "discriminant QuotaDeclaredLie = 32"
| "discriminant PolicyUnsupported = 33"
| "discriminant ZipDiffA1Method = 34"
| "discriminant ZipDiffA2Size = 35"
| "discriminant ZipDiffA3Name = 36"
| "discriminant ZipDiffA4Dir = 37"
| "discriminant ZipDiffA5Crypt = 38"
| "discriminant ZipDiffB1Dup = 39"
| "discriminant ZipDiffB2Chars = 40"
| "discriminant ZipDiffC1Stream = 41"
| "discriminant ZipDiffC2Eocd = 42"
| "discriminant ZipDiffC3Count = 43"
| "discriminant ZipDiffC4Offset = 44"
| "discriminant ZipDiffC5Zip64 = 45"
| "discriminant ZipOverlap = 46"
| "discriminant CoveringInconsistent = 47"
| "discriminant ZipEncrypted = 48"
| "discriminant ZipEncoding = 49"
| "discriminant ZipExtra = 50"
| "discriminant ZipFlags = 51"
| "discriminant TarChecksum = 52"
| "discriminant TarDialect = 53"
| "discriminant TarNumeric = 54"
| "discriminant TarPadding = 55"
| "discriminant TarTerminator = 56"
| "discriminant TarTruncated = 57"
| "discriminant TarType = 58"
| "discriminant TarFeatureUnsupported = 59"
| "discriminant TarPaxRecord = 60"
| "discriminant TarPaxState = 61"
| "discriminant FormatUnsupported = 62"
| "discriminant FormatMagic = 63"
| "discriminant GzipExtra = 64"
| "discriminant CodecDeflateInvalidStream = 65"
| "discriminant CodecDeflateTrailingInput = 66"
| "discriminant CrcMismatch = 67"
| "discriminant MethodUnsupported = 68"
| "discriminant TarGnuLongName = 69"
| "discriminant TarGnuState = 70"
| "discriminant CodecZstdInvalidFrame = 71"
| "discriminant CodecZstdTrailingInput = 72"
| "discriminant CodecXzInvalidStream = 73"
| "discriminant CodecXzTrailingInput = 74"
| "discriminant CodecBzip2InvalidStream = 75"
| "discriminant CodecBzip2TrailingInput = 76"
| "discriminant SevenZInvalidStructure = 77"
| "discriminant EvidenceCanonicalization = 78"
| "discriminant ZipSymlink = 79"

primrec as_str :: "finding_code \<Rightarrow> string" where
  "as_str PathAbsolute = ''path.absolute''"
| "as_str PathDotDot = ''path.dotdot''"
| "as_str PathEmpty = ''path.empty''"
| "as_str PathAds = ''path.ads''"
| "as_str PathReserved = ''path.reserved''"
| "as_str PathTrailing = ''path.trailing''"
| "as_str PathEscape = ''path.escape''"
| "as_str PathDepth = ''path.depth''"
| "as_str PathNul = ''path.nul''"
| "as_str PathInvalidChar = ''path.invalid_char''"
| "as_str PathUnicode = ''path.unicode''"
| "as_str PathCaseFold = ''path.case_fold''"
| "as_str PathConflict = ''path.conflict''"
| "as_str MaterializeExists = ''materialize.exists''"
| "as_str MaterializeIo = ''materialize.io''"
| "as_str MaterializeCommit = ''materialize.commit''"
| "as_str MaterializeUnsafeParent = ''materialize.unsafe_parent''"
| "as_str MaterializeUnsafeComponent = ''materialize.unsafe_component''"
| "as_str MaterializeCleanup = ''materialize.cleanup''"
| "as_str MaterializeUnsupported = ''materialize.unsupported''"
| "as_str MaterializeUnsupportedFilesystem = ''materialize.unsupported_filesystem''"
| "as_str MaterializeUnsafeStage = ''materialize.unsafe_stage''"
| "as_str MaterializeAudit = ''materialize.audit''"
| "as_str SourceIo = ''source.io''"
| "as_str QuotaArchive = ''quota.archive''"
| "as_str QuotaDerived = ''quota.derived''"
| "as_str QuotaMetadata = ''quota.metadata''"
| "as_str QuotaFiles = ''quota.files''"
| "as_str QuotaMember = ''quota.member''"
| "as_str QuotaTotal = ''quota.total''"
| "as_str QuotaRatio = ''quota.ratio''"
| "as_str QuotaOverflow = ''quota.overflow''"
| "as_str QuotaDeclaredLie = ''quota.declared_lie''"
| "as_str PolicyUnsupported = ''policy.unsupported''"
| "as_str ZipDiffA1Method = ''zip.diff.a1_method''"
| "as_str ZipDiffA2Size = ''zip.diff.a2_size''"
| "as_str ZipDiffA3Name = ''zip.diff.a3_name''"
| "as_str ZipDiffA4Dir = ''zip.diff.a4_dir''"
| "as_str ZipDiffA5Crypt = ''zip.diff.a5_crypt''"
| "as_str ZipDiffB1Dup = ''zip.diff.b1_dup''"
| "as_str ZipDiffB2Chars = ''zip.diff.b2_chars''"
| "as_str ZipDiffC1Stream = ''zip.diff.c1_stream''"
| "as_str ZipDiffC2Eocd = ''zip.diff.c2_eocd''"
| "as_str ZipDiffC3Count = ''zip.diff.c3_count''"
| "as_str ZipDiffC4Offset = ''zip.diff.c4_offset''"
| "as_str ZipDiffC5Zip64 = ''zip.diff.c5_zip64''"
| "as_str ZipOverlap = ''zip.overlap''"
| "as_str CoveringInconsistent = ''covering.inconsistent''"
| "as_str ZipEncrypted = ''zip.encrypted''"
| "as_str ZipEncoding = ''zip.encoding''"
| "as_str ZipExtra = ''zip.extra''"
| "as_str ZipFlags = ''zip.flags''"
| "as_str TarChecksum = ''tar.checksum''"
| "as_str TarDialect = ''tar.dialect''"
| "as_str TarNumeric = ''tar.numeric''"
| "as_str TarPadding = ''tar.padding''"
| "as_str TarTerminator = ''tar.terminator''"
| "as_str TarTruncated = ''tar.truncated''"
| "as_str TarType = ''tar.type''"
| "as_str TarFeatureUnsupported = ''tar.feature_unsupported''"
| "as_str TarPaxRecord = ''tar.pax.record''"
| "as_str TarPaxState = ''tar.pax.state''"
| "as_str FormatUnsupported = ''format.unsupported''"
| "as_str FormatMagic = ''format.magic''"
| "as_str GzipExtra = ''gzip.extra''"
| "as_str CodecDeflateInvalidStream = ''codec.deflate.invalid_stream''"
| "as_str CodecDeflateTrailingInput = ''codec.deflate.trailing_input''"
| "as_str CrcMismatch = ''crc.mismatch''"
| "as_str MethodUnsupported = ''method.unsupported''"
| "as_str TarGnuLongName = ''tar.gnu.long_name''"
| "as_str TarGnuState = ''tar.gnu.state''"
| "as_str CodecZstdInvalidFrame = ''codec.zstd.invalid_frame''"
| "as_str CodecZstdTrailingInput = ''codec.zstd.trailing_input''"
| "as_str CodecXzInvalidStream = ''codec.xz.invalid_stream''"
| "as_str CodecXzTrailingInput = ''codec.xz.trailing_input''"
| "as_str CodecBzip2InvalidStream = ''codec.bzip2.invalid_stream''"
| "as_str CodecBzip2TrailingInput = ''codec.bzip2.trailing_input''"
| "as_str SevenZInvalidStructure = ''sevenz.invalid_structure''"
| "as_str EvidenceCanonicalization = ''evidence.canonicalization''"
| "as_str ZipSymlink = ''zip.symlink''"

subsection \<open>Findings\<close>

datatype severity = Error | Deny | Warn | Info

record finding_hint =
  observed :: string
  formats :: "string list"

record finding =
  code :: finding_code
  severity :: severity
  member_name :: "rust_str option"
  hint :: "finding_hint option"

definition finding_error :: "finding_code \<Rightarrow> finding" where
  "finding_error c = \<lparr>code = c, severity = Error, member_name = None, hint = None\<rparr>"

definition on_member :: "rust_str \<Rightarrow> finding \<Rightarrow> finding" where
  "on_member m f = f\<lparr>member_name := Some m\<rparr>"

definition with_hint :: "finding_hint \<Rightarrow> finding \<Rightarrow> finding" where
  "with_hint h f = f\<lparr>hint := Some h\<rparr>"

definition hint_new :: "string \<Rightarrow> string list \<Rightarrow> finding_hint" where
  "hint_new obs fs = \<lparr>observed = obs, formats = fs\<rparr>"

text \<open>\<open>char::is_control\<close>: the general category Cc.\<close>

definition is_control :: "rust_char \<Rightarrow> bool" where
  "is_control c \<longleftrightarrow> c < 0x20 \<or> (0x7F \<le> c \<and> c < 0xA0)"

definition header_name_label :: "bytes \<Rightarrow> rust_str option" where
  "header_name_label header =
     (if length header < 100 then None
      else
        let field = take 100 header;
            e = (case position (\<lambda>b. b = 0) field of Some i \<Rightarrow> i | None \<Rightarrow> length field);
            raw = take e field
        in if raw = [] then None
           else case from_utf8 raw of
             None \<Rightarrow> None
           | Some text \<Rightarrow> if list_ex is_control text then None else Some text)"

definition label_header_member :: "finding \<Rightarrow> bytes \<Rightarrow> finding" where
  "label_header_member f header =
     (if member_name f \<noteq> None then f
      else case header_name_label header of None \<Rightarrow> f | Some name \<Rightarrow> on_member name f)"

definition unsupported_typeflag_finding :: "bytes \<Rightarrow> u8 \<Rightarrow> finding" where
  "unsupported_typeflag_finding header typeflag =
     (let f = label_header_member (finding_error TarFeatureUnsupported) header
      in if typeflag = 0x78 then with_hint (hint_new ''PAX extended header'' []) f
         else if typeflag = 0x67 then with_hint (hint_new ''PAX global header'' []) f
         else f)"

definition pax_keyword_refusal :: "bytes \<Rightarrow> finding" where
  "pax_keyword_refusal keyword = finding_error TarFeatureUnsupported"

subsection \<open>Signature hints\<close>

datatype tar_wrapper_class = Raw | Gzip | Zstd | Xz | Bzip2

text \<open>The two TAR magics: \<open>ustar\0\<close> with version \<open>00\<close>, and the old-GNU \<open>ustar  \0\<close>.\<close>

definition USTAR_MAGIC :: bytes where
  "USTAR_MAGIC = [0x75, 0x73, 0x74, 0x61, 0x72, 0x00, 0x30, 0x30]"

definition OLDGNU_MAGIC :: bytes where
  "OLDGNU_MAGIC = [0x75, 0x73, 0x74, 0x61, 0x72, 0x20, 0x20, 0x00]"

definition tar_formats :: "tar_wrapper_class \<Rightarrow> bool \<Rightarrow> string list" where
  "tar_formats cls ustar =
     (case cls of
        Raw \<Rightarrow> if ustar then [''tar-ustar'', ''tar-pax''] else [''tar-gnu-longname'']
      | Gzip \<Rightarrow> if ustar then [''tar-gzip-ustar'', ''tar-gzip-pax''] else [''tar-gzip-gnu-longname'']
      | Zstd \<Rightarrow> if ustar then [''tar-zstd-ustar''] else []
      | Xz \<Rightarrow> if ustar then [''tar-xz-ustar''] else []
      | Bzip2 \<Rightarrow> if ustar then [''tar-bzip2-ustar''] else [])"

text \<open>The observed texts, with the quotation marks (\<open>0x22\<close>) and the backslash (\<open>0x5C\<close>).\<close>

definition USTAR_OBSERVED :: string where
  "USTAR_OBSERVED = ''ustar magic '' @ [CHR 0x22] @ ''ustar'' @ [CHR 0x5C] @ ''0'' @ [CHR 0x22] @
     '' '' @ [CHR 0x22] @ ''00'' @ [CHR 0x22]"

definition OLDGNU_OBSERVED :: string where
  "OLDGNU_OBSERVED = ''GNU magic '' @ [CHR 0x22] @ ''ustar  '' @ [CHR 0x5C] @ ''0'' @ [CHR 0x22]"

definition hint_for_tar_magic :: "tar_wrapper_class \<Rightarrow> bytes \<Rightarrow> finding_hint option" where
  "hint_for_tar_magic cls magic =
     (if magic = USTAR_MAGIC then Some (hint_new USTAR_OBSERVED (tar_formats cls True))
      else if magic = OLDGNU_MAGIC then Some (hint_new OLDGNU_OBSERVED (tar_formats cls False))
      else None)"

definition hint_for_tar_dialect :: "tar_wrapper_class \<Rightarrow> bytes \<Rightarrow> finding_hint option" where
  "hint_for_tar_dialect cls magic =
     (if length magic < 8 then None else hint_for_tar_magic cls (take 8 magic))"

definition starts_with :: "'a list \<Rightarrow> 'a list \<Rightarrow> bool" where
  "starts_with xs prefix \<longleftrightarrow> take (length prefix) xs = prefix"

definition is_zip_signature :: "bytes \<Rightarrow> bool" where
  "is_zip_signature bs \<longleftrightarrow>
     length bs \<ge> 4 \<and> bs ! 0 = 0x50 \<and> bs ! 1 = 0x4B \<and>
     (bs ! 2, bs ! 3) \<in> {(0x03, 0x04), (0x05, 0x06), (0x07, 0x08), (0x06, 0x06)}"

definition hint_from_prefix :: "bytes \<Rightarrow> finding_hint option" where
  "hint_from_prefix bs =
     (if starts_with bs [0xFD, 0x37, 0x7A, 0x58, 0x5A, 0x00]
      then Some (hint_new ''xz stream'' [''tar-xz-ustar''])
      else if starts_with bs [0x28, 0xB5, 0x2F, 0xFD]
      then Some (hint_new ''zstd frame'' [''tar-zstd-ustar''])
      else if starts_with bs [0x37, 0x7A, 0xBC, 0xAF, 0x27, 0x1C]
      then Some (hint_new ''7z signature'' [''7z-copy''])
      else if starts_with bs [0x1F, 0x8B]
      then Some (hint_new ''gzip member'' [''tar-gzip-ustar'', ''tar-gzip-pax'', ''tar-gzip-gnu-longname''])
      else if length bs \<ge> 4 \<and> bs ! 0 = 0x42 \<and> bs ! 1 = 0x5A \<and> bs ! 2 = 0x68 \<and>
              0x31 \<le> bs ! 3 \<and> bs ! 3 \<le> 0x39
      then Some (hint_new ''bzip2 stream'' [''tar-bzip2-ustar''])
      else if is_zip_signature bs
      then Some (hint_new ''zip member'' [''zip'', ''zip64''])
      else if length bs \<ge> 265
      then hint_for_tar_magic Raw (slice_of 257 265 bs)
      else None)"

subsection \<open>Facts the readers use\<close>

lemma finding_error_sel [simp]:
  "code (finding_error c) = c"
  "severity (finding_error c) = Error"
  "member_name (finding_error c) = None"
  "hint (finding_error c) = None"
  by (simp_all add: finding_error_def)

lemma on_member_sel [simp]:
  "code (on_member m f) = code f"
  "severity (on_member m f) = severity f"
  "member_name (on_member m f) = Some m"
  "hint (on_member m f) = hint f"
  by (simp_all add: on_member_def)

lemma label_header_member_sel [simp]:
  "code (label_header_member f h) = code f"
  "severity (label_header_member f h) = severity f"
  "hint (label_header_member f h) = hint f"
  by (simp_all add: label_header_member_def split: option.splits)

lemma unsupported_typeflag_finding_sel [simp]:
  "code (unsupported_typeflag_finding h t) = TarFeatureUnsupported"
  "severity (unsupported_typeflag_finding h t) = Error"
  by (simp_all add: unsupported_typeflag_finding_def with_hint_def Let_def)

end
