(* ===== verification/Snapshot.thy ===== *)
theory Snapshot
  imports Findings
begin

text \<open>
  The immutable source a reader works on, \<open>crates/sealr/src/snapshot.rs\<close>. A snapshot is
  either the caller's memory or a private spool file; a positional read of the file may fail
  with an I/O error, which the predicate \<open>read_ok\<close> of the backing decides. Both backings serve
  the same bytes. On the 64-bit targets the program supports, \<open>usize\<close> is as wide as \<open>u64\<close>,
  so the conversions between them cannot fail.

  SHA-256 is the \<open>sha2\<close> package: a parameter of the functions that use it. \<open>hex_sha256\<close> of
  \<open>crates/sealr/src/policy.rs\<close> prints its digest.
\<close>

record byte_range =
  offset :: nat
  rlen :: nat

text \<open>\<open>ByteRange::end\<close> saturates.\<close>

definition range_end :: "byte_range \<Rightarrow> nat" where
  "range_end r = min (offset r + rlen r) u64_max"

datatype snapshot_backing = Memory | PrivateFile (read_ok: "nat \<Rightarrow> nat \<Rightarrow> bool")

record snapshot =
  content :: bytes
  backing :: snapshot_backing

abbreviation snapshot_len :: "snapshot \<Rightarrow> nat" where
  "snapshot_len sn \<equiv> length (content sn)"

text \<open>A source length is a \<open>u64\<close>.\<close>

definition snapshot_ok :: "snapshot \<Rightarrow> bool" where
  "snapshot_ok sn \<longleftrightarrow> snapshot_len sn \<le> u64_max"

definition checked_range :: "snapshot \<Rightarrow> nat \<Rightarrow> nat \<Rightarrow> finding + unit" where
  "checked_range sn off n =
     and_then (ok_or (finding_error ZipDiffC4Offset) (checked_add_u64 off n)) (\<lambda>e.
       if e > snapshot_len sn then Inl (finding_error ZipDiffC4Offset) else Inr ())"

definition read_exact_at :: "snapshot \<Rightarrow> nat \<Rightarrow> nat \<Rightarrow> finding + bytes" where
  "read_exact_at sn off n =
     and_then (checked_range sn off n) (\<lambda>_.
       case backing sn of
         Memory \<Rightarrow> Inr (slice_of off (off + n) (content sn))
       | PrivateFile ok \<Rightarrow>
           if ok off n then Inr (slice_of off (off + n) (content sn))
           else Inl (finding_error SourceIo))"

definition read_vec :: "snapshot \<Rightarrow> nat \<Rightarrow> nat \<Rightarrow> finding + bytes" where
  "read_vec sn off n = and_then (checked_range sn off n) (\<lambda>_. read_exact_at sn off n)"

definition hex_digit :: "nat \<Rightarrow> char" where
  "hex_digit n = (if n < 10 then char_of (48 + n) else char_of (87 + n))"

definition hex_byte :: "u8 \<Rightarrow> string" where
  "hex_byte b = [hex_digit (unat b div 16), hex_digit (unat b mod 16)]"

definition hex_sha256 :: "(bytes \<Rightarrow> bytes) \<Rightarrow> bytes \<Rightarrow> string" where
  "hex_sha256 sha bs = concat (map hex_byte (sha bs))"

subsection \<open>Reads\<close>

definition in_bounds :: "snapshot \<Rightarrow> nat \<Rightarrow> nat \<Rightarrow> bool" where
  "in_bounds sn off n \<longleftrightarrow> off + n \<le> u64_max \<and> off + n \<le> snapshot_len sn"

lemma checked_range_ok: "checked_range sn off n = Inr () \<longleftrightarrow> in_bounds sn off n"
  by (auto simp: checked_range_def in_bounds_def and_then_eq_Inr)

lemma read_exact_at_ok:
  "read_exact_at sn off n = Inr bs \<Longrightarrow>
     in_bounds sn off n \<and> bs = slice_of off (off + n) (content sn) \<and> length bs = n"
  by (auto simp: read_exact_at_def and_then_eq_Inr checked_range_ok in_bounds_def
      split: snapshot_backing.splits if_splits)

text \<open>A snapshot whose positional reads do not fail: memory, or a file without I/O errors.\<close>

definition reads_ok :: "snapshot \<Rightarrow> bool" where
  "reads_ok sn \<longleftrightarrow> (case backing sn of Memory \<Rightarrow> True | PrivateFile ok \<Rightarrow> \<forall>off n. ok off n)"

lemma reads_ok_memory [simp]: "backing sn = Memory \<Longrightarrow> reads_ok sn"
  by (simp add: reads_ok_def)

lemma read_exact_at_memory:
  "\<lbrakk>reads_ok sn; in_bounds sn off n\<rbrakk> \<Longrightarrow>
     read_exact_at sn off n = Inr (slice_of off (off + n) (content sn))"
  using checked_range_ok [of sn off n]
  by (auto simp: read_exact_at_def reads_ok_def split: snapshot_backing.splits)

lemma read_exact_at_errors:
  "read_exact_at sn off n = Inl e \<Longrightarrow>
     (code e = ZipDiffC4Offset \<and> \<not> in_bounds sn off n) \<or> (code e = SourceIo \<and> backing sn \<noteq> Memory)"
proof -
  assume err: "read_exact_at sn off n = Inl e"
  show ?thesis
  proof (cases "checked_range sn off n")
    case (Inl f)
    with err have "f = e" by (simp add: read_exact_at_def)
    with Inl have "code e = ZipDiffC4Offset"
      by (auto simp: checked_range_def and_then_eq_Inl ok_or_eq_Inl split: if_splits)
    moreover have "\<not> in_bounds sn off n" using Inl checked_range_ok [of sn off n] by auto
    ultimately show ?thesis by blast
  next
    case (Inr u)
    with err show ?thesis
      by (auto simp: read_exact_at_def split: snapshot_backing.splits if_splits)
  qed
qed

lemma read_vec_eq: "read_vec sn off n = read_exact_at sn off n"
  by (cases "checked_range sn off n") (simp_all add: read_vec_def read_exact_at_def)

text \<open>Hexadecimal printing is injective, so digests printed equal are equal digests.\<close>

lemma hex_digit_inj: "\<lbrakk>hex_digit a = hex_digit b; a < 16; b < 16\<rbrakk> \<Longrightarrow> a = b"
proof -
  assume eq: "hex_digit a = hex_digit b" and "a < 16" "b < 16"
  let ?v = "\<lambda>n :: nat. if n < 10 then 48 + n else 87 + n"
  have "hex_digit n = char_of (?v n)" for n by (simp add: hex_digit_def)
  moreover have "of_char (char_of (?v n)) = ?v n" if "n < 16" for n :: nat
    using that by (simp add: mod_less)
  ultimately have "?v a = ?v b" using eq \<open>a < 16\<close> \<open>b < 16\<close> by metis
  then show "a = b" using \<open>a < 16\<close> \<open>b < 16\<close> by (simp split: if_splits)
qed

lemma hex_byte_inj: "hex_byte a = hex_byte b \<Longrightarrow> a = b"
proof -
  assume "hex_byte a = hex_byte b"
  moreover have "unat x div 16 < 16" for x :: u8 using unat_u8_less [of x] by linarith
  ultimately have "unat a div 16 = unat b div 16" "unat a mod 16 = unat b mod 16"
    by (auto simp: hex_byte_def intro: hex_digit_inj)
  then have "unat a = unat b" by (metis div_mult_mod_eq)
  then show ?thesis by (rule unsigned_word_eqI)
qed

end
