(* ===== verification/TarFields.thy ===== *)
theory TarFields
  imports Snapshot
begin

text \<open>
  The field decoders and record arithmetic that the three TAR readers of
  \<open>crates/sealr/src/tar.rs\<close>, \<open>tar_pax.rs\<close> and \<open>tar_gnu.rs\<close> spell out in identical copies.
  Every failure is a finding of the code's own kind. Memory allocation is taken to succeed.
\<close>

definition BLOCK_LEN :: nat where
  "BLOCK_LEN = 512"

definition is_octal :: "u8 \<Rightarrow> bool" where
  "is_octal b \<longleftrightarrow> 0x30 \<le> unat b \<and> unat b \<le> 0x37"

definition is_digit :: "u8 \<Rightarrow> bool" where
  "is_digit b \<longleftrightarrow> 0x30 \<le> unat b \<and> unat b \<le> 0x39"

definition tar_checked_add :: "nat \<Rightarrow> nat \<Rightarrow> finding + nat" where
  "tar_checked_add a b = ok_or (finding_error TarTruncated) (checked_add_u64 a b)"

text \<open>The \<open>try_fold\<close> over the digits, in radix 8 and 10.\<close>

fun fold_digits :: "nat \<Rightarrow> nat \<Rightarrow> bytes \<Rightarrow> nat option" where
  "fold_digits radix v [] = Some v"
| "fold_digits radix v (b # bs) =
     Option.bind (checked_mul_u64 v radix) (\<lambda>w.
     Option.bind (checked_add_u64 w (unat b - 0x30)) (\<lambda>x.
     fold_digits radix x bs))"

definition parse_octal_digits :: "bytes \<Rightarrow> finding + nat" where
  "parse_octal_digits digits = ok_or (finding_error TarNumeric) (fold_digits 8 0 digits)"

definition parse_octal :: "bytes \<Rightarrow> finding + nat" where
  "parse_octal field =
     (if field \<noteq> [] \<and> bit (hd field) 7 then Inl (finding_error TarFeatureUnsupported)
      else
        let e = length (takeWhile is_octal field)
        in if e = 0 \<or> e = length field \<or> list_ex (\<lambda>b. b \<noteq> 0 \<and> b \<noteq> 0x20) (drop e field)
           then Inl (finding_error TarNumeric)
           else parse_octal_digits (take e field))"

definition parse_checksum :: "bytes \<Rightarrow> finding + nat" where
  "parse_checksum field =
     (if length field \<noteq> 8 \<or> \<not> list_all is_octal (take 6 field) \<or>
         field ! 6 \<noteq> 0 \<or> field ! 7 \<noteq> 0x20
      then Inl (finding_error TarChecksum)
      else and_then (parse_octal_digits (take 6 field)) (\<lambda>value.
             if value \<le> u32_max then Inr value else Inl (finding_error TarChecksum)))"

definition parse_device_number :: "bytes \<Rightarrow> finding + nat" where
  "parse_device_number field = (if all_zero field then Inr 0 else parse_octal field)"

definition nul_end :: "bytes \<Rightarrow> nat" where
  "nul_end field = (case position (\<lambda>b. b = 0) field of Some i \<Rightarrow> i | None \<Rightarrow> length field)"

definition parse_text_field :: "bytes \<Rightarrow> bool \<Rightarrow> finding + bytes" where
  "parse_text_field field empty_allowed =
     (let e = nul_end field
      in if \<not> all_zero (drop e field) then Inl (finding_error TarDialect)
         else if \<not> empty_allowed \<and> e = 0 then Inl (finding_error TarDialect)
         else Inr (take e field))"

definition is_printable_ascii :: "u8 \<Rightarrow> bool" where
  "is_printable_ascii b \<longleftrightarrow> 0x20 \<le> unat b \<and> unat b \<le> 0x7E"

definition validate_owner_text :: "bytes \<Rightarrow> finding + unit" where
  "validate_owner_text field =
     (case position (\<lambda>b. b = 0) field of
        None \<Rightarrow> Inl (finding_error TarDialect)
      | Some e \<Rightarrow>
          if \<not> all_zero (drop e field) then Inl (finding_error TarDialect)
          else if \<not> list_all is_printable_ascii (take e field) then Inl (finding_error TarDialect)
          else Inr ())"

text \<open>The scan in chunks of 8 KiB.\<close>

function ensure_zero_range :: "snapshot \<Rightarrow> nat \<Rightarrow> nat \<Rightarrow> finding + unit" where
  "ensure_zero_range sn cursor remaining =
     (if remaining = 0 then Inr ()
      else
        let chunk = min remaining 8192
        in and_then (read_exact_at sn cursor chunk) (\<lambda>buffer.
             if \<not> all_zero buffer then Inl (finding_error TarPadding)
             else and_then (tar_checked_add cursor chunk) (\<lambda>cursor'.
                    ensure_zero_range sn cursor' (remaining - chunk))))"
  by pat_completeness auto
termination
  by (relation "measure (\<lambda>(sn, cursor, remaining). remaining)") auto

declare ensure_zero_range.simps [simp del]

definition round_up_block :: "nat \<Rightarrow> finding + nat" where
  "round_up_block value =
     (let remainder = value mod BLOCK_LEN
      in if remainder = 0 then Inr value else tar_checked_add value (BLOCK_LEN - remainder))"

definition is_zero_block :: "bytes \<Rightarrow> bool" where
  "is_zero_block block = all_zero block"

text \<open>The checksum of a header: its bytes summed with the checksum field read as spaces.\<close>

definition header_checksum_of :: "bytes \<Rightarrow> nat" where
  "header_checksum_of header =
     sum_list (map (\<lambda>(i, b). if 148 \<le> i \<and> i < 156 then 0x20 else unat b) (enumerate 0 header))"

definition header_checksum_matches :: "bytes \<Rightarrow> bool" where
  "header_checksum_matches header =
     (case parse_checksum (slice_of 148 156 header) of
        Inl _ \<Rightarrow> False
      | Inr stored \<Rightarrow> stored = header_checksum_of header)"

text \<open>The numeric fields in the order they are decoded, and the device and owner fields.\<close>

record header_numbers =
  hn_mode :: nat
  hn_size :: nat
  hn_mtime :: nat

definition parse_header_numbers :: "bytes \<Rightarrow> finding + header_numbers" where
  "parse_header_numbers header =
     and_then (parse_octal (slice_of 100 108 header)) (\<lambda>mode.
     if mode > 4095 then Inl (finding_error TarNumeric)
     else
     and_then (parse_octal (slice_of 108 116 header)) (\<lambda>_.
     and_then (parse_octal (slice_of 116 124 header)) (\<lambda>_.
     and_then (parse_octal (slice_of 124 136 header)) (\<lambda>size.
     and_then (parse_octal (slice_of 136 148 header)) (\<lambda>mtime.
     Inr \<lparr>hn_mode = mode, hn_size = size, hn_mtime = mtime\<rparr>)))))"

definition check_devices_and_owners :: "bytes \<Rightarrow> finding + unit" where
  "check_devices_and_owners header =
     and_then (parse_device_number (slice_of 329 337 header)) (\<lambda>devmajor.
     and_then (parse_device_number (slice_of 337 345 header)) (\<lambda>devminor.
     if devmajor \<noteq> 0 \<or> devminor \<noteq> 0 then Inl (finding_error TarType)
     else
     and_then (validate_owner_text (slice_of 265 297 header)) (\<lambda>_.
     validate_owner_text (slice_of 297 329 header))))"

text \<open>The checksum check every reader starts with, labelling its finding with the header name.\<close>

definition verify_checksum :: "bytes \<Rightarrow> finding + nat" where
  "verify_checksum header =
     and_then (map_err (\<lambda>f. label_header_member f header)
                 (parse_checksum (slice_of 148 156 header))) (\<lambda>stored.
     if stored \<noteq> header_checksum_of header
     then Inl (label_header_member (finding_error TarChecksum) header)
     else Inr stored)"

text \<open>The second zero block of the terminator: returns the end of the two blocks.\<close>

definition read_second_block :: "snapshot \<Rightarrow> nat \<Rightarrow> finding + nat" where
  "read_second_block sn second_offset =
     and_then (tar_checked_add second_offset BLOCK_LEN) (\<lambda>second_end.
     if second_end > snapshot_len sn then Inl (finding_error TarTerminator)
     else and_then (read_exact_at sn second_offset BLOCK_LEN) (\<lambda>second.
       if \<not> is_zero_block second then Inl (finding_error TarTerminator) else Inr second_end))"

text \<open>
  The payload and padding of a member of \<open>sz\<close> bytes whose header ends at
  \<open>payload_offset\<close>: payload range, padding range and the end of the record. Truncation and
  nonzero padding are reported on the member.
\<close>

record placed =
  pl_payload :: byte_range
  pl_padding :: byte_range
  pl_end :: nat

definition place_member :: "snapshot \<Rightarrow> nat \<Rightarrow> nat \<Rightarrow> rust_str \<Rightarrow> finding + placed" where
  "place_member sn payload_offset sz name =
     and_then (tar_checked_add payload_offset sz) (\<lambda>payload_end.
     and_then (round_up_block sz) (\<lambda>padded_size.
     and_then (tar_checked_add payload_offset padded_size) (\<lambda>record_end.
     if record_end > snapshot_len sn then Inl (on_member name (finding_error TarTruncated))
     else
       let padding_len = padded_size - sz
       in and_then (map_err (on_member name) (ensure_zero_range sn payload_end padding_len)) (\<lambda>_.
          Inr \<lparr>pl_payload = \<lparr>offset = payload_offset, rlen = sz\<rparr>,
               pl_padding = \<lparr>offset = payload_end, rlen = padding_len\<rparr>,
               pl_end = record_end\<rparr>))))"

subsection \<open>Digits\<close>

definition digits_value :: "nat \<Rightarrow> nat \<Rightarrow> bytes \<Rightarrow> nat" where
  "digits_value radix v bs = foldl (\<lambda>v b. v * radix + (unat b - 0x30)) v bs"

lemma digits_value_simps [simp]:
  "digits_value r v [] = v"
  "digits_value r v (b # bs) = digits_value r (v * r + (unat b - 0x30)) bs"
  "digits_value r v (bs @ cs) = digits_value r (digits_value r v bs) cs"
  by (simp_all add: digits_value_def)

lemma digits_value_mono: "0 < r \<Longrightarrow> v \<le> digits_value r v bs"
proof (induction bs arbitrary: v)
  case Nil
  then show ?case by simp
next
  case (Cons b bs)
  have "v \<le> v * r + (unat b - 0x30)" using Cons.prems by (simp add: trans_le_add1)
  with Cons.IH [OF Cons.prems, of "v * r + (unat b - 0x30)"] show ?case by simp
qed

text \<open>The checked fold is exact: it yields the value when it fits \<open>u64\<close> and fails otherwise.\<close>

lemma fold_digits_eq:
  assumes "0 < r" "v \<le> u64_max"
  shows "fold_digits r v bs =
    (if digits_value r v bs \<le> u64_max then Some (digits_value r v bs) else None)"
  using assms(2)
proof (induction bs arbitrary: v)
  case Nil
  then show ?case by simp
next
  case (Cons b bs)
  define d where "d = unat b - 0x30"
  let ?w = "v * r + d"
  have le: "?w \<le> digits_value r ?w bs" using assms(1) by (rule digits_value_mono)
  have step: "fold_digits r v (b # bs) = (if ?w \<le> u64_max then fold_digits r ?w bs else None)"
    by (auto simp: checked_mul_u64_def checked_add_u64_def d_def [symmetric])
  have val: "digits_value r v (b # bs) = digits_value r ?w bs" by (simp add: d_def)
  show ?case
  proof (cases "?w \<le> u64_max")
    case True
    with Cons.IH [OF True] show ?thesis unfolding step val by simp
  next
    case False
    with le have "\<not> digits_value r ?w bs \<le> u64_max" by simp
    with False show ?thesis unfolding step val by simp
  qed
qed

lemma digits_value_bound:
  assumes "\<forall>b \<in> set bs. unat b - 0x30 < r"
  shows "digits_value r v bs < (v + 1) * r ^ length bs"
  using assms
proof (induction bs arbitrary: v)
  case Nil
  then show ?case by simp
next
  case (Cons b bs)
  let ?w = "v * r + (unat b - 0x30)"
  have "?w + 1 \<le> (v + 1) * r" using Cons.prems by (simp add: Suc_leI)
  then have "(?w + 1) * r ^ length bs \<le> (v + 1) * r * r ^ length bs" by (rule mult_le_mono1)
  moreover have "digits_value r ?w bs < (?w + 1) * r ^ length bs" using Cons by simp
  ultimately show ?case by (simp add: algebra_simps)
qed

lemma octal_digits_bound:
  assumes "list_all is_octal bs"
  shows "digits_value 8 0 bs < 8 ^ length bs"
proof -
  have "\<forall>b \<in> set bs. unat b - 0x30 < 8" using assms by (force simp: list_all_iff is_octal_def)
  then show ?thesis using digits_value_bound [of bs 8 0] by simp
qed

lemma parse_octal_digits_ok:
  assumes "list_all is_octal bs" "length bs \<le> 21"
  shows "parse_octal_digits bs = Inr (digits_value 8 0 bs)"
proof -
  have "digits_value 8 0 bs < 8 ^ length bs" using assms(1) by (rule octal_digits_bound)
  also have "\<dots> \<le> 8 ^ 21" using assms(2) by (intro power_increasing) simp_all
  finally have "digits_value 8 0 bs \<le> u64_max" by (simp add: u64_max_def)
  then show ?thesis by (simp add: parse_octal_digits_def fold_digits_eq)
qed

lemma takeWhile_all: "list_all P (takeWhile P xs)"
  by (induction xs) auto

text \<open>
  The language of a numeric header field: octal digits, then at least one NUL or space and
  nothing else. No field of a 512-byte header is wide enough to overflow.
\<close>

lemma parse_octal_ok:
  assumes "parse_octal field = Inr v" "length field \<le> 22"
  shows "\<exists>ds ts. field = ds @ ts \<and> ds \<noteq> [] \<and> ts \<noteq> [] \<and> list_all is_octal ds \<and>
    list_all (\<lambda>b. b = 0 \<or> b = 0x20) ts \<and> v = digits_value 8 0 ds \<and> v < 8 ^ (length field - 1)"
proof -
  let ?ds = "takeWhile is_octal field" and ?ts = "dropWhile is_octal field"
  have split: "field = ?ds @ ?ts" by simp
  have e: "take (length ?ds) field = ?ds" "drop (length ?ds) field = ?ts"
    by (metis takeWhile_eq_take takeWhile_dropWhile_id append_eq_conv_conj)+
  from assms(1) have ne: "?ds \<noteq> []" "length ?ds \<noteq> length field"
    and ts: "\<not> list_ex (\<lambda>b. b \<noteq> 0 \<and> b \<noteq> 0x20) ?ts"
    and v: "parse_octal_digits ?ds = Inr v"
    by (auto simp: parse_octal_def Let_def e split: if_splits)
  have len: "length ?ds \<le> length field - 1"
    using ne(2) length_takeWhile_le [of is_octal field] by linarith
  with assms(2) have "length ?ds \<le> 21" by linarith
  with v have v': "v = digits_value 8 0 ?ds"
    by (simp add: parse_octal_digits_ok takeWhile_all)
  have "v < 8 ^ length ?ds" unfolding v' by (rule octal_digits_bound [OF takeWhile_all])
  also have "\<dots> \<le> 8 ^ (length field - 1)" using len by (intro power_increasing) simp_all
  finally have "v < 8 ^ (length field - 1)" .
  moreover have "?ts \<noteq> []" using ne(2) split by (metis append_Nil2)
  ultimately show ?thesis
    using split ne(1) ts v' takeWhile_all [of is_octal field]
    by (intro exI [of _ ?ds] exI [of _ ?ts]) (auto simp: list_ex_iff list_all_iff)
qed

lemma not_octal_high: "is_octal b \<Longrightarrow> \<not> bit b 7"
proof -
  assume "is_octal b"
  then have "unat b < 2 ^ 7" by (simp add: is_octal_def)
  then have "\<not> bit (unat b) 7" by (simp add: bit_iff_odd)
  then show ?thesis by (simp add: bit_unsigned_iff)
qed

lemma parse_octal_complete:
  assumes "list_all is_octal ds" "ds \<noteq> []" "length ds \<le> 21"
    "ts \<noteq> []" "list_all (\<lambda>b. b = 0 \<or> b = 0x20) ts"
  shows "parse_octal (ds @ ts) = Inr (digits_value 8 0 ds)"
proof -
  obtain t ts' where ts: "ts = t # ts'" using assms(4) by (cases ts) auto
  then have "\<not> is_octal t" using assms(5) by (auto simp: is_octal_def)
  then have tw: "takeWhile is_octal (ds @ ts) = ds"
    using assms(1) ts by (simp add: takeWhile_append2 list_all_iff)
  obtain d ds' where ds: "ds = d # ds'" using assms(2) by (cases ds) auto
  then have "\<not> bit d 7" using assms(1) by (simp add: not_octal_high)
  then show ?thesis
    using assms ds tw ts
    by (auto simp: parse_octal_def Let_def parse_octal_digits_ok list_all_iff list_ex_iff
        simp del: takeWhile_append)
qed

lemma parse_octal_error_codes:
  "parse_octal field = Inl e \<Longrightarrow> code e \<in> {TarFeatureUnsupported, TarNumeric}"
  by (auto simp: parse_octal_def parse_octal_digits_def Let_def ok_or_eq_Inl split: if_splits)

subsection \<open>Records\<close>

lemma tar_checked_add_ok [simp]: "tar_checked_add a b = Inr c \<longleftrightarrow> c = a + b \<and> a + b \<le> u64_max"
  by (simp add: tar_checked_add_def)

lemma tar_checked_add_eq [simp]: "a + b \<le> u64_max \<Longrightarrow> tar_checked_add a b = Inr (a + b)"
  by simp

lemma tar_checked_add_err [result_simps]:
  "tar_checked_add a b = Inl e \<longleftrightarrow> u64_max < a + b \<and> e = finding_error TarTruncated"
  by (auto simp: tar_checked_add_def ok_or_eq_Inl)

text \<open>The length of the zero bytes that complete a payload of \<open>n\<close> bytes to whole blocks.\<close>

definition pad_len :: "nat \<Rightarrow> nat" where
  "pad_len n = (512 - n mod 512) mod 512"

lemma pad_len_less: "pad_len n < 512"
  by (simp add: pad_len_def)

lemma pad_len_dvd: "512 dvd n + pad_len n"
proof -
  have "q * 512 + r + (512 - r) = 512 * (q + 1)" if "r < 512" for q r :: nat using that by simp
  from this [of "n mod 512" "n div 512"]
  have "n + (512 - n mod 512) = 512 * (n div 512 + 1)" by (simp only: div_mult_mod_eq)
  then have "512 dvd n + (512 - n mod 512)" by (metis dvd_triv_left)
  then show ?thesis by (simp add: pad_len_def dvd_eq_mod_eq_0 mod_simps)
qed

lemma pad_len_zero: "n mod 512 = 0 \<Longrightarrow> pad_len n = 0"
  by (simp add: pad_len_def)

lemma pad_len_nonzero: "n mod 512 \<noteq> 0 \<Longrightarrow> pad_len n = 512 - n mod 512"
  by (simp add: pad_len_def)

lemma round_up_block_ok:
  assumes "n \<le> u64_max"
  shows "round_up_block n = Inr p \<longleftrightarrow> p = n + pad_len n \<and> p \<le> u64_max"
  using assms
  by (cases "n mod 512 = 0")
    (auto simp: round_up_block_def Let_def BLOCK_LEN_def pad_len_zero pad_len_nonzero)

lemma all_zero_slice_append:
  "\<lbrakk>a \<le> b; b \<le> c\<rbrakk> \<Longrightarrow>
     all_zero (slice_of a c xs) \<longleftrightarrow> all_zero (slice_of a b xs) \<and> all_zero (slice_of b c xs)"
  using slice_slice_split [of a b c xs] by simp

text \<open>The chunked scan succeeds only on an in-bounds range of zero bytes.\<close>

lemma ensure_zero_range_ok:
  "\<lbrakk>ensure_zero_range sn cur n = Inr (); cur \<le> snapshot_len sn\<rbrakk> \<Longrightarrow>
     cur + n \<le> snapshot_len sn \<and> all_zero (slice_of cur (cur + n) (content sn))"
proof (induction sn cur n rule: ensure_zero_range.induct)
  case (1 sn cur n)
  show ?case
  proof (cases "n = 0")
    case True
    with "1.prems" show ?thesis by (simp add: slice_of_def)
  next
    case False
    let ?c = "min n 8192"
    from "1.prems"(1) False obtain buf where
      r: "read_exact_at sn cur ?c = Inr buf" and z: "all_zero buf" and
      a: "tar_checked_add cur ?c = Inr (cur + ?c)" and
      rest: "ensure_zero_range sn (cur + ?c) (n - ?c) = Inr ()"
      by (subst (asm) ensure_zero_range.simps)
        (auto simp: Let_def and_then_eq_Inr split: if_splits)
    note buf = read_exact_at_ok [OF r]
    have "cur + ?c \<le> snapshot_len sn" using buf by (simp add: in_bounds_def)
    with "1.IH" [OF False refl r _ a] z rest
    have ih: "cur + ?c + (n - ?c) \<le> snapshot_len sn"
      "all_zero (slice_of (cur + ?c) (cur + ?c + (n - ?c)) (content sn))"
      by auto
    have eq: "cur + ?c + (n - ?c) = cur + n" by simp
    have "all_zero (slice_of cur (cur + n) (content sn))"
      using ih(2) z buf
      by (subst all_zero_slice_append [of _ "cur + ?c"]) (auto simp: eq)
    with ih(1) show ?thesis by (simp add: eq)
  qed
qed

text \<open>When reads succeed it succeeds on every such range.\<close>

lemma ensure_zero_range_memory:
  "\<lbrakk>reads_ok sn; snapshot_ok sn; cur + n \<le> snapshot_len sn;
    all_zero (slice_of cur (cur + n) (content sn))\<rbrakk> \<Longrightarrow> ensure_zero_range sn cur n = Inr ()"
proof (induction sn cur n rule: ensure_zero_range.induct)
  case (1 sn cur n)
  show ?case
  proof (cases "n = 0")
    case True
    then show ?thesis by (simp add: ensure_zero_range.simps)
  next
    case False
    let ?c = "min n 8192"
    have le: "cur + ?c \<le> snapshot_len sn" "cur + ?c \<le> u64_max"
      using "1.prems"(2,3) by (auto simp: snapshot_ok_def)
    then have r: "read_exact_at sn cur ?c = Inr (slice_of cur (cur + ?c) (content sn))"
      using "1.prems"(1) by (simp add: read_exact_at_memory in_bounds_def)
    have a: "tar_checked_add cur ?c = Inr (cur + ?c)" using le by simp
    have eq: "cur + ?c + (n - ?c) = cur + n" by simp
    have z: "all_zero (slice_of cur (cur + ?c) (content sn))"
      "all_zero (slice_of (cur + ?c) (cur + n) (content sn))"
      using "1.prems"(4) all_zero_slice_append [of cur "cur + ?c" "cur + n" "content sn"] by auto
    have "ensure_zero_range sn (cur + ?c) (n - ?c) = Inr ()"
      using "1.IH" [OF False refl r _ a] "1.prems" z by (simp add: eq)
    with False r z show ?thesis
      by (subst ensure_zero_range.simps) (simp add: Let_def le)
  qed
qed

definition read_error_codes :: "finding_code set" where
  "read_error_codes = {ZipDiffC4Offset, SourceIo}"

lemma read_exact_at_error_code: "read_exact_at sn off n = Inl e \<Longrightarrow> code e \<in> read_error_codes"
  using read_exact_at_errors [of sn off n e] by (auto simp: read_error_codes_def)

lemma ensure_zero_range_error_code:
  "ensure_zero_range sn cur n = Inl e \<Longrightarrow>
     code e \<in> {TarPadding, TarTruncated} \<union> read_error_codes"
proof (induction sn cur n rule: ensure_zero_range.induct)
  case (1 sn cur n)
  from "1.prems" have n: "n \<noteq> 0"
    by (subst (asm) ensure_zero_range.simps) (auto split: if_splits)
  let ?c = "min n 8192"
  from "1.prems" n consider
    (read) "read_exact_at sn cur ?c = Inl e"
  | (pad) "e = finding_error TarPadding"
  | (add) "tar_checked_add cur ?c = Inl e"
  | (rec) buf where "read_exact_at sn cur ?c = Inr buf" "all_zero buf"
      "tar_checked_add cur ?c = Inr (cur + ?c)" "ensure_zero_range sn (cur + ?c) (n - ?c) = Inl e"
    by (subst (asm) ensure_zero_range.simps)
      (auto simp: Let_def and_then_eq_Inl split: if_splits)
  then show ?case
  proof cases
    case rec
    then show ?thesis using "1.IH" [OF n refl rec(1) _ rec(3)] by auto
  qed (auto simp: read_exact_at_error_code tar_checked_add_err)
qed

lemma read_second_block_ok:
  "read_second_block sn off = Inr e \<Longrightarrow>
     e = off + 512 \<and> e \<le> snapshot_len sn \<and> all_zero (slice_of off (off + 512) (content sn))"
  by (auto simp: read_second_block_def and_then_eq_Inr is_zero_block_def BLOCK_LEN_def
      split: if_splits dest!: read_exact_at_ok)

lemma place_member_ok:
  assumes "place_member sn po sz name = Inr pl" "po \<le> snapshot_len sn"
  shows "pl_payload pl = \<lparr>offset = po, rlen = sz\<rparr>"
    "pl_padding pl = \<lparr>offset = po + sz, rlen = pad_len sz\<rparr>"
    "pl_end pl = po + sz + pad_len sz" "pl_end pl \<le> snapshot_len sn" "pl_end pl \<le> u64_max"
    "all_zero (slice_of (po + sz) (po + sz + pad_len sz) (content sn))"
proof -
  from assms(1) obtain p where pe: "po + sz \<le> u64_max" and p: "round_up_block sz = Inr p"
    and re: "po + p \<le> u64_max" and len: "po + p \<le> snapshot_len sn"
    and z: "ensure_zero_range sn (po + sz) (p - sz) = Inr ()"
    and pl: "pl = \<lparr>pl_payload = \<lparr>offset = po, rlen = sz\<rparr>,
      pl_padding = \<lparr>offset = po + sz, rlen = p - sz\<rparr>, pl_end = po + p\<rparr>"
    by (auto simp: place_member_def Let_def and_then_eq_Inr split: if_splits)
  have p': "p = sz + pad_len sz" using p pe round_up_block_ok [of sz p] by simp
  with len have "po + sz \<le> snapshot_len sn" by simp
  note zz = ensure_zero_range_ok [OF z this]
  show "pl_payload pl = \<lparr>offset = po, rlen = sz\<rparr>"
    "pl_padding pl = \<lparr>offset = po + sz, rlen = pad_len sz\<rparr>"
    "pl_end pl = po + sz + pad_len sz" "pl_end pl \<le> snapshot_len sn" "pl_end pl \<le> u64_max"
    using pl p' len re by auto
  show "all_zero (slice_of (po + sz) (po + sz + pad_len sz) (content sn))"
    using zz p' by simp
qed

lemma place_member_memory:
  assumes "reads_ok sn" "snapshot_ok sn" "po + sz + pad_len sz \<le> snapshot_len sn"
    "all_zero (slice_of (po + sz) (po + sz + pad_len sz) (content sn))"
  shows "place_member sn po sz name =
    Inr \<lparr>pl_payload = \<lparr>offset = po, rlen = sz\<rparr>,
      pl_padding = \<lparr>offset = po + sz, rlen = pad_len sz\<rparr>, pl_end = po + sz + pad_len sz\<rparr>"
proof -
  have u: "po + sz + pad_len sz \<le> u64_max" using assms(2,3) by (simp add: snapshot_ok_def)
  then have "round_up_block sz = Inr (sz + pad_len sz)" using round_up_block_ok [of sz] by simp
  moreover have "ensure_zero_range sn (po + sz) (pad_len sz) = Inr ()"
    using assms by (intro ensure_zero_range_memory) simp_all
  ultimately show ?thesis using assms(3) u by (simp add: place_member_def Let_def add.assoc)
qed

lemma verify_checksum_ok:
  "verify_checksum header = Inr stored \<Longrightarrow>
     header_checksum_matches header \<and> stored = header_checksum_of header"
  by (auto simp: verify_checksum_def header_checksum_matches_def and_then_eq_Inr
      split: if_splits)

lemma verify_checksum_complete:
  "header_checksum_matches header \<Longrightarrow> verify_checksum header = Inr (header_checksum_of header)"
  by (auto simp: verify_checksum_def header_checksum_matches_def split: sum.splits)

lemma nul_end_eq: "nul_end field = length (takeWhile (\<lambda>b. b \<noteq> 0) field)"
  using length_takeWhile_le [of "\<lambda>b. b \<noteq> 0" field]
  by (auto simp: nul_end_def position_takeWhile split: option.splits if_splits)

lemma take_nul_end: "take (nul_end field) field = takeWhile (\<lambda>b. b \<noteq> 0) field"
  by (simp add: nul_end_eq takeWhile_eq_take [symmetric])

lemma drop_nul_end: "drop (nul_end field) field = dropWhile (\<lambda>b. b \<noteq> 0) field"
  by (simp add: nul_end_eq dropWhile_eq_drop)

text \<open>A text field is its text, free of NUL, completed with NUL bytes.\<close>

lemma parse_text_field_ok:
  "parse_text_field field emp = Inr t \<longleftrightarrow>
     (\<exists>n. field = t @ replicate n 0) \<and> 0 \<notin> set t \<and> (emp \<or> t \<noteq> [])"
proof
  assume ok: "parse_text_field field emp = Inr t"
  then have t: "t = takeWhile (\<lambda>b. b \<noteq> 0) field"
    and z: "all_zero (dropWhile (\<lambda>b. b \<noteq> 0) field)" and ne: "emp \<or> nul_end field \<noteq> 0"
    by (auto simp: parse_text_field_def Let_def take_nul_end drop_nul_end split: if_splits)
  have "field = t @ dropWhile (\<lambda>b. b \<noteq> 0) field" by (simp add: t)
  with z have "\<exists>n. field = t @ replicate n 0" by (metis all_zero_eq_replicate)
  moreover have "0 \<notin> set t" by (auto simp: t dest: set_takeWhileD)
  moreover have "emp \<or> t \<noteq> []" using ne by (auto simp: nul_end_eq t)
  ultimately show "(\<exists>n. field = t @ replicate n 0) \<and> 0 \<notin> set t \<and> (emp \<or> t \<noteq> [])" by blast
next
  assume "(\<exists>n. field = t @ replicate n 0) \<and> 0 \<notin> set t \<and> (emp \<or> t \<noteq> [])"
  then obtain n where f: "field = t @ replicate n 0" and t: "0 \<notin> set t" and e: "emp \<or> t \<noteq> []"
    by blast
  have tw: "takeWhile (\<lambda>b. b \<noteq> 0) field = t"
    using t by (cases n) (auto simp: f takeWhile_append takeWhile_eq_all_conv)
  then have ne: "nul_end (t @ replicate n 0) = length t" by (simp add: nul_end_eq f)
  show "parse_text_field field emp = Inr t"
    using e by (auto simp: parse_text_field_def Let_def ne f)
qed

lemma parse_text_field_error_code: "parse_text_field field emp = Inl e \<Longrightarrow> code e = TarDialect"
  by (auto simp: parse_text_field_def Let_def split: if_splits)

subsection \<open>Properties\<close>

text \<open>A numeric header field is accepted with value \<open>v\<close> exactly when it is a non-empty run of
  octal digits of that value followed by a non-empty run of NUL and space bytes; no other byte,
  no leading blank and no base-256 marker is tolerated.\<close>

theorem octal_field_language:
  assumes "length field \<le> 22"
  shows "parse_octal field = Inr v \<longleftrightarrow>
    (\<exists>ds ts. field = ds @ ts \<and> ds \<noteq> [] \<and> ts \<noteq> [] \<and> list_all is_octal ds \<and>
       list_all (\<lambda>b. b = 0 \<or> b = 0x20) ts \<and> v = digits_value 8 0 ds)"
proof
  assume "parse_octal field = Inr v"
  from parse_octal_ok [OF this assms] show "\<exists>ds ts. field = ds @ ts \<and> ds \<noteq> [] \<and> ts \<noteq> [] \<and>
      list_all is_octal ds \<and> list_all (\<lambda>b. b = 0 \<or> b = 0x20) ts \<and> v = digits_value 8 0 ds" by blast
next
  assume "\<exists>ds ts. field = ds @ ts \<and> ds \<noteq> [] \<and> ts \<noteq> [] \<and> list_all is_octal ds \<and>
    list_all (\<lambda>b. b = 0 \<or> b = 0x20) ts \<and> v = digits_value 8 0 ds"
  then obtain ds ts where d: "field = ds @ ts" "ds \<noteq> []" "ts \<noteq> []" "list_all is_octal ds"
    "list_all (\<lambda>b. b = 0 \<or> b = 0x20) ts" "v = digits_value 8 0 ds" by blast
  from d(1,3) assms have "length ds \<le> 21" by (cases ts) simp_all
  with parse_octal_complete d show "parse_octal field = Inr v" by blast
qed

theorem octal_field_language_witness:
  "length [0x30, 0x36, 0x34, 0x34, 0x20, 0] \<le> 22 \<and> parse_octal [0x30, 0x36, 0x34, 0x34, 0x20, 0] = Inr 420"
proof -
  have "[0x30, 0x36, 0x34, 0x34, 0x20, 0 :: u8] = [0x30, 0x36, 0x34, 0x34] @ [0x20, 0]" by simp
  moreover have "digits_value 8 0 [0x30, 0x36, 0x34, 0x34] = 420" by simp
  moreover have "list_all is_octal [0x30, 0x36, 0x34, 0x34]" by (simp add: is_octal_def)
  ultimately have "\<exists>ds ts. [0x30, 0x36, 0x34, 0x34, 0x20, 0] = ds @ ts \<and> ds \<noteq> [] \<and> ts \<noteq> [] \<and>
      list_all is_octal ds \<and> list_all (\<lambda>b. b = 0 \<or> b = 0x20) ts \<and> (420 :: nat) = digits_value 8 0 ds"
    by (intro exI [of _ "[0x30, 0x36, 0x34, 0x34]"] exI [of _ "[0x20, 0]"]) simp
  with octal_field_language [of "[0x30, 0x36, 0x34, 0x34, 0x20, 0]" 420] show ?thesis by simp
qed

end
