(* ===== verification/Reader.thy ===== *)
theory Reader
  imports Snapshot
begin

text \<open>
  The interface of a container reader: a loop that decodes one record at a time and either
  fails, continues at a later offset or stops with a result. The TAR readers and the
  terminator scan of the ratio accounting are instances; what holds of every such loop
  (invariants, where an error comes from, simulation of one reader by another) is proved here.
\<close>

locale block_reader =
  fixes step :: "'s \<Rightarrow> 'e + ('s + 'r)"
    and loop :: "'s \<Rightarrow> 'e + 'r"
    and off :: "'s \<Rightarrow> nat"
    and len :: nat
  assumes loop_unfold: "loop s = and_then (step s) (\<lambda>x. case x of Inl s' \<Rightarrow> loop s' | Inr r \<Rightarrow> Inr r)"
    and progress: "step s = Inr (Inl s') \<Longrightarrow> off s < off s' \<and> off s' \<le> len"
begin

lemma loop_induct:
  assumes "\<And>s. (\<And>s'. step s = Inr (Inl s') \<Longrightarrow> P s') \<Longrightarrow> P s"
  shows "P s"
proof (induction "len - off s" arbitrary: s rule: less_induct)
  case less
  have "P s'" if "step s = Inr (Inl s')" for s'
    using less progress [OF that] by (intro less) linarith
  then show ?case by (rule assms)
qed

lemma loop_simps:
  "step s = Inl e \<Longrightarrow> loop s = Inl e"
  "step s = Inr (Inl s') \<Longrightarrow> loop s = loop s'"
  "step s = Inr (Inr r) \<Longrightarrow> loop s = Inr r"
  by (subst loop_unfold; simp)+

lemma loop_cases:
  obtains (fails) e where "step s = Inl e" "loop s = Inl e"
  | (moves) s' where "step s = Inr (Inl s')" "loop s = loop s'"
  | (stops) r where "step s = Inr (Inr r)" "loop s = Inr r"
proof (cases "step s")
  case (Inl e)
  then show ?thesis by (rule fails) (rule loop_simps(1) [OF Inl])
next
  case (Inr x)
  then show ?thesis by (cases x) (auto intro: moves stops loop_simps)
qed

lemma loop_invariant:
  assumes "loop s = Inr r" "I s"
    and keep: "\<And>s s'. \<lbrakk>I s; step s = Inr (Inl s')\<rbrakk> \<Longrightarrow> I s'"
  shows "\<exists>t. I t \<and> step t = Inr (Inr r)"
  using assms(1,2)
proof (induction s rule: loop_induct)
  case (1 s)
  show ?case
    by (cases s rule: loop_cases) (use 1 keep in auto)
qed

lemma loop_error:
  assumes "loop s = Inl e" "I s"
    and keep: "\<And>s s'. \<lbrakk>I s; step s = Inr (Inl s')\<rbrakk> \<Longrightarrow> I s'"
  shows "\<exists>t. I t \<and> step t = Inl e"
  using assms(1,2)
proof (induction s rule: loop_induct)
  case (1 s)
  show ?case
    by (cases s rule: loop_cases) (use 1 keep in auto)
qed

text \<open>A reader that appends to a table: what it appends from a state on lies behind that state.\<close>

lemma loop_appends:
  assumes moves: "\<And>s s'. step s = Inr (Inl s') \<Longrightarrow> \<exists>xs. out s' = out s @ xs \<and> (\<forall>x \<in> set xs. off s \<le> pos x)"
    and stops: "\<And>s r. step s = Inr (Inr r) \<Longrightarrow> res r = out s"
    and "loop s = Inr r"
  shows "\<exists>xs. res r = out s @ xs \<and> (\<forall>x \<in> set xs. off s \<le> pos x)"
  using assms(3)
proof (induction s rule: loop_induct)
  case (1 s)
  show ?case
  proof (cases s rule: loop_cases)
    case (moves s')
    with 1 obtain xs where xs: "res r = out s' @ xs" "\<forall>x \<in> set xs. off s' \<le> pos x" by fastforce
    moreover from assms(1) [OF moves(1)] obtain ys where "out s' = out s @ ys" "\<forall>x \<in> set ys. off s \<le> pos x"
      by blast
    moreover have "off s < off s'" using progress [OF moves(1)] by simp
    ultimately show ?thesis by (intro exI [of _ "ys @ xs"]) auto
  qed (use 1 stops in auto)
qed

end

text \<open>Two readers that run in step: what the first accepts, the second accepts.\<close>

locale reader_simulation =
  one: block_reader step\<^sub>1 loop\<^sub>1 off\<^sub>1 len\<^sub>1 + two: block_reader step\<^sub>2 loop\<^sub>2 off\<^sub>2 len\<^sub>2
  for step\<^sub>1 :: "'s \<Rightarrow> 'e + ('s + 'r)" and loop\<^sub>1 off\<^sub>1 len\<^sub>1
    and step\<^sub>2 :: "'t \<Rightarrow> 'f + ('t + 'q)" and loop\<^sub>2 off\<^sub>2 len\<^sub>2 +
  fixes R :: "'s \<Rightarrow> 't \<Rightarrow> bool"
    and Q :: "'r \<Rightarrow> 'q \<Rightarrow> bool"
  assumes sim_step: "\<lbrakk>R s t; step\<^sub>1 s = Inr (Inl s')\<rbrakk> \<Longrightarrow> \<exists>t'. step\<^sub>2 t = Inr (Inl t') \<and> R s' t'"
    and sim_stop: "\<lbrakk>R s t; step\<^sub>1 s = Inr (Inr r)\<rbrakk> \<Longrightarrow> \<exists>q. step\<^sub>2 t = Inr (Inr q) \<and> Q r q"
begin

lemma simulates: "\<lbrakk>R s t; loop\<^sub>1 s = Inr r\<rbrakk> \<Longrightarrow> \<exists>q. loop\<^sub>2 t = Inr q \<and> Q r q"
proof (induction s arbitrary: t rule: one.loop_induct)
  case (1 s)
  show ?case
  proof (cases s rule: one.loop_cases)
    case (fails e)
    with "1.prems" show ?thesis by simp
  next
    case (moves s')
    from sim_step [OF "1.prems"(1) moves(1)] obtain t' where t': "step\<^sub>2 t = Inr (Inl t')" "R s' t'"
      by blast
    with "1.IH" [OF moves(1) t'(2)] "1.prems"(2) moves(2) show ?thesis
      by (simp add: two.loop_simps)
  next
    case (stops r')
    with "1.prems"(2) have "r' = r" by simp
    with sim_stop [OF "1.prems"(1) stops(1)] show ?thesis by (auto simp: two.loop_simps)
  qed
qed

end

text \<open>
  A reader under two caps, one on the entries it counts and one on the bytes it charges. Each
  iteration tests them in this order and fails with one of two errors; everything else it does is
  independent of the caps. Then an accepted input is accepted under exactly the caps it fits.
\<close>

locale capped_reader =
  fixes step :: "nat \<Rightarrow> nat \<Rightarrow> 's \<Rightarrow> 'e + ('s + 'r)"
    and loop :: "nat \<Rightarrow> nat \<Rightarrow> 's \<Rightarrow> 'e + 'r"
    and off :: "'s \<Rightarrow> nat"
    and len :: nat
    and entries :: "'s \<Rightarrow> nat"
    and charged :: "'s \<Rightarrow> nat"
    and total_entries :: "'r \<Rightarrow> nat"
    and total_charge :: "'r \<Rightarrow> nat"
    and entry_error :: 'e
    and charge_error :: 'e
  assumes reader: "block_reader (step mf mm) (loop mf mm) off len"
    and step_caps: "\<lbrakk>step mf mm s = Inr (Inl s'); entries s \<le> mf'\<rbrakk> \<Longrightarrow>
      step mf' mm' s = (if mf' < entries s' then Inl entry_error
        else if mm' < charged s' then Inl charge_error else Inr (Inl s'))"
    and stop_caps: "step mf mm s = Inr (Inr r) \<Longrightarrow>
      step mf' mm' s = (if mm' < total_charge r then Inl charge_error else Inr (Inr r))"
    and step_grows: "step mf mm s = Inr (Inl s') \<Longrightarrow> entries s \<le> entries s' \<and> charged s \<le> charged s'"
    and stop_total: "step mf mm s = Inr (Inr r) \<Longrightarrow> total_entries r = entries s \<and> charged s \<le> total_charge r"
begin

lemma loop_grows: "loop mf mm s = Inr r \<Longrightarrow> entries s \<le> total_entries r \<and> charged s \<le> total_charge r"
proof (induction s rule: block_reader.loop_induct [OF reader, of mf mm])
  case (1 s)
  show ?case
  proof (cases s rule: block_reader.loop_cases [OF reader, of mf mm, case_names fails moves stops])
    case (moves s')
    with step_grows [OF moves(1)] 1 show ?thesis by force
  next
    case (stops q)
    with stop_total [OF stops(1)] "1.prems" show ?thesis by simp
  qed (use "1.prems" in simp)
qed

lemma loop_caps:
  "\<lbrakk>loop mf mm s = Inr r; entries s \<le> mf'\<rbrakk> \<Longrightarrow>
     (total_entries r \<le> mf' \<and> total_charge r \<le> mm' \<longrightarrow> loop mf' mm' s = Inr r) \<and>
     (total_entries r \<le> mf' \<and> mm' < total_charge r \<longrightarrow> loop mf' mm' s = Inl charge_error) \<and>
     (mf' < total_entries r \<and> total_charge r \<le> mm' \<longrightarrow> loop mf' mm' s = Inl entry_error)"
proof (induction s rule: block_reader.loop_induct [OF reader, of mf mm])
  case (1 s)
  note loop_simps = block_reader.loop_simps [OF reader, of mf' mm']
  show ?case
  proof (cases s rule: block_reader.loop_cases [OF reader, of mf mm, case_names fails moves stops])
    case (moves s')
    have l: "loop mf mm s' = Inr r" using moves "1.prems" by simp
    note g = loop_grows [OF l] and s = step_caps [OF moves(1) "1.prems"(2), of mm']
    show ?thesis
    proof (cases "mf' < entries s' \<or> mm' < charged s'")
      case True
      with s g show ?thesis by (auto simp: loop_simps(1) split: if_splits)
    next
      case False
      with s have "loop mf' mm' s = loop mf' mm' s'" by (simp add: loop_simps(2))
      with False "1.IH" [OF moves(1) l] show ?thesis by simp
    qed
  next
    case (stops q)
    with "1.prems" have st: "step mf mm s = Inr (Inr r)" by simp
    with "1.prems"(2) stop_total [OF st] stop_caps [OF st, of mf' mm'] show ?thesis
      by (auto simp: loop_simps split: if_splits)
  qed (use "1.prems" in simp)
qed

end

subsection \<open>Chains of byte ranges\<close>

text \<open>Ranges that follow each other without gap or overlap from one offset to another.\<close>

fun chain :: "nat \<Rightarrow> byte_range list \<Rightarrow> nat \<Rightarrow> bool" where
  "chain a [] e \<longleftrightarrow> a = e"
| "chain a (r # rs) e \<longleftrightarrow> offset r = a \<and> chain (a + rlen r) rs e"

lemma chain_append [simp]: "chain a (rs @ ss) e \<longleftrightarrow> (\<exists>m. chain a rs m \<and> chain m ss e)"
  by (induction rs arbitrary: a) auto

lemma chain_sum: "chain a rs e \<Longrightarrow> e = a + sum_list (map rlen rs)"
  by (induction rs arbitrary: a) fastforce+

lemma chain_bounds: "\<lbrakk>chain a rs e; r \<in> set rs\<rbrakk> \<Longrightarrow> a \<le> offset r \<and> offset r + rlen r \<le> e"
  by (induction rs arbitrary: a) (fastforce dest: chain_sum)+

end
