(* ===== verification/Ratio.thy ===== *)
theory Ratio
  imports Prelude
begin

text \<open>
  The compression-ratio comparison of \<open>crates/sealr/src/ratio.rs\<close>. Both functions are total
  on \<open>u64\<close>; the product of the comparison is computed in \<open>u128\<close>, which a \<open>128 word\<close> keeps.
\<close>

definition ratio_exceeds :: "u64 \<Rightarrow> u64 \<Rightarrow> u64 \<Rightarrow> bool" where
  "ratio_exceeds uncomp compr max_ratio =
     (if compr = 0 then uncomp > 0
      else (let product = (ucast max_ratio :: 128 word) * ucast compr
            in (ucast uncomp :: 128 word) > product))"

definition TAR_RECORD_LEN :: nat where
  "TAR_RECORD_LEN = 10240"

definition TAR_TERMINATOR_LEN :: nat where
  "TAR_TERMINATOR_LEN = 1024"

text \<open>\<open>u64::div_ceil\<close> and \<open>u64::saturating_sub\<close> on the naturals below \<open>2 ^ 64\<close>.\<close>

definition div_ceil :: "nat \<Rightarrow> nat \<Rightarrow> nat" where
  "div_ceil a b = (if a mod b = 0 then a div b else a div b + 1)"

definition derived_tar_ratio_numerator :: "nat \<Rightarrow> nat \<Rightarrow> nat \<Rightarrow> nat \<Rightarrow> nat \<Rightarrow> nat" where
  "derived_tar_ratio_numerator decoded_len terminator_offset terminator_len
       trailing_offset trailing_len =
     (if terminator_len \<noteq> TAR_TERMINATOR_LEN then decoded_len
      else case checked_add_u64 terminator_offset terminator_len of
        None \<Rightarrow> decoded_len
      | Some terminator_end \<Rightarrow>
          if trailing_offset \<noteq> terminator_end \<or> terminator_end > decoded_len then decoded_len
          else
            (let records = div_ceil terminator_end TAR_RECORD_LEN
             in case checked_mul_u64 records TAR_RECORD_LEN of
                  None \<Rightarrow> decoded_len
                | Some record_end \<Rightarrow>
                    (let mandatory_pad = record_end - terminator_end;
                         excluded_pad = min mandatory_pad trailing_len
                     in case checked_add_u64 TAR_TERMINATOR_LEN excluded_pad of
                          None \<Rightarrow> decoded_len
                        | Some excluded \<Rightarrow> decoded_len - min excluded decoded_len)))"

text \<open>The wide product never wraps: two 64-bit factors fit in 128 bits.\<close>

lemma unat_less_128: "unat (x :: u64) < 2 ^ 128"
  using unsigned_less [of x, where ?'a = nat] by simp

lemma unat_ucast_128 [simp]: "unat (ucast (x :: u64) :: 128 word) = unat x"
  using unat_less_128 [of x] by (simp add: unsigned_ucast_eq take_bit_nat_eq_self_iff)

lemma unat_wide_product:
  "unat ((ucast (a :: u64) :: 128 word) * ucast (b :: u64)) = unat a * unat b"
proof -
  have "unat a < 2 ^ 64" "unat b < 2 ^ 64"
    using unsigned_less [of a, where ?'a = nat] unsigned_less [of b, where ?'a = nat] by simp_all
  then have "unat a * unat b < 2 ^ 64 * 2 ^ 64" by (rule mult_strict_mono') simp_all
  then show ?thesis by (simp add: unat_word_ariths)
qed

lemma ratio_exceeds_nat:
  "ratio_exceeds u c r \<longleftrightarrow> unat r * unat c < unat u"
proof (cases "c = 0")
  case True
  then show ?thesis by (auto simp: ratio_exceeds_def word_less_nat_alt)
next
  case False
  then show ?thesis
    by (simp add: ratio_exceeds_def Let_def word_less_nat_alt unat_wide_product)
qed

lemma div_ceil_bounds:
  assumes "0 < b"
  shows "a \<le> div_ceil a b * b" and "div_ceil a b * b < a + b"
proof -
  have eq: "a = a div b * b + a mod b" by simp
  have lt: "a mod b < b" using assms by simp
  show "a \<le> div_ceil a b * b"
  proof (cases "a mod b = 0")
    case False
    have "a \<le> a div b * b + b" using eq lt by linarith
    with False show ?thesis by (simp add: div_ceil_def)
  qed (use eq in \<open>simp add: div_ceil_def\<close>)
  show "div_ceil a b * b < a + b"
  proof (cases "a mod b = 0")
    case False
    then have "a div b * b < a" using eq by linarith
    with False show ?thesis by (simp add: div_ceil_def)
  qed (use eq assms in \<open>simp add: div_ceil_def\<close>)
qed

lemma numerator_le: "derived_tar_ratio_numerator d t l r rl \<le> d"
  by (auto simp: derived_tar_ratio_numerator_def Let_def split: option.splits)

text \<open>What is left out of the numerator when the framing is verified: the terminator and the
  zeros up to the end of the record that holds it, and nothing else.\<close>

lemma numerator_verified:
  assumes "t + 1024 \<le> d" "div_ceil (t + 1024) TAR_RECORD_LEN * TAR_RECORD_LEN \<le> u64_max"
  shows "derived_tar_ratio_numerator d t 1024 (t + 1024) rl =
    d - min (1024 + min (div_ceil (t + 1024) TAR_RECORD_LEN * TAR_RECORD_LEN - (t + 1024)) rl) d"
proof -
  let ?r = "div_ceil (t + 1024) TAR_RECORD_LEN * TAR_RECORD_LEN"
  have "t + 1024 \<le> ?r" using div_ceil_bounds(1) [of TAR_RECORD_LEN "t + 1024"]
    by (simp add: TAR_RECORD_LEN_def)
  with assms(2) have end_ok: "checked_add_u64 t 1024 = Some (t + 1024)" by simp
  have "?r < (t + 1024) + TAR_RECORD_LEN"
    using div_ceil_bounds(2) [of TAR_RECORD_LEN "t + 1024"] by (simp add: TAR_RECORD_LEN_def)
  then have "min (?r - (t + 1024)) rl \<le> TAR_RECORD_LEN" by linarith
  then have pad_ok: "checked_add_u64 1024 (min (?r - (t + 1024)) rl)
      = Some (1024 + min (?r - (t + 1024)) rl)"
    by (simp add: TAR_RECORD_LEN_def u64_max_def)
  from assms(2) have mul_ok:
    "checked_mul_u64 (div_ceil (t + 1024) TAR_RECORD_LEN) TAR_RECORD_LEN = Some ?r" by simp
  show ?thesis
    unfolding derived_tar_ratio_numerator_def TAR_TERMINATOR_LEN_def Let_def end_ok
    using assms(1) by (simp add: mul_ok pad_ok)
qed

lemma numerator_excludes_at_most:
  "d - derived_tar_ratio_numerator d t l r rl < 1024 + TAR_RECORD_LEN"
proof -
  let ?R = "\<lambda>e. div_ceil e TAR_RECORD_LEN * TAR_RECORD_LEN"
  have pad: "?R e - e < TAR_RECORD_LEN" for e
    using div_ceil_bounds [of TAR_RECORD_LEN e] by (simp add: TAR_RECORD_LEN_def)
  have "d - (d - min (1024 + min (?R e - e) rl) d) < 1024 + TAR_RECORD_LEN" for e
    using pad [of e] by linarith
  then show ?thesis
    by (auto simp: derived_tar_ratio_numerator_def Let_def TAR_TERMINATOR_LEN_def
          TAR_RECORD_LEN_def split: option.splits)
qed

subsection \<open>Properties\<close>

text \<open>The ratio test is the exact comparison of the expanded size with the permitted multiple of
  the compressed size: for all 64-bit operands the 128-bit product does not wrap, and a zero
  compressed size permits only a zero expanded size.\<close>

theorem ratio_test_exact:
  "ratio_exceeds uncomp compr max_ratio \<longleftrightarrow> unat max_ratio * unat compr < unat uncomp"
  by (rule ratio_exceeds_nat)

text \<open>The numerator of the derived ratio never exceeds the decoded length and leaves out less than
  one terminator and one record of padding, whatever ranges are claimed for the terminator and the
  trailing zeros: no claimed framing hides more than 11263 decoded bytes from the ratio test.\<close>

theorem numerator_bounds:
  "derived_tar_ratio_numerator d t l r rl \<le> d \<and>
   d - derived_tar_ratio_numerator d t l r rl < TAR_TERMINATOR_LEN + TAR_RECORD_LEN"
  using numerator_le numerator_excludes_at_most by (simp add: TAR_TERMINATOR_LEN_def)

end
