(* ===== verification/Tar.thy ===== *)
theory Tar
  imports TarFields Reader Ratio
begin

text \<open>
  The portable ustar reader, \<open>crates/sealr/src/tar.rs\<close>. The loop of
  \<open>parse_ustar_portable_v1\<close> is \<^emph>\<open>ustar_loop\<close>, one iteration of it \<^emph>\<open>ustar_step\<close>; the
  mutable variables of the function are the record \<^emph>\<open>ustar_state\<close>. The terminator scan that
  serves the ratio accounting of rejected archives, \<open>verified_ratio_covering\<close>, is here too.
\<close>

record tar_member =
  tm_raw_name :: bytes
  tm_name :: rust_str
  tm_size :: nat
  tm_mode :: nat
  tm_mtime :: nat
  tm_header_checksum :: nat
  tm_header_sha256 :: string
  tm_header :: byte_range
  tm_payload :: byte_range
  tm_padding :: byte_range
  tm_is_dir :: bool

record tar_archive =
  ta_members :: "tar_member list"
  ta_member_records :: byte_range
  ta_terminator :: byte_range
  ta_trailing_zeros :: byte_range
  ta_metadata_bytes :: nat

definition recognizes_ustar :: "snapshot \<Rightarrow> bool" where
  "recognizes_ustar sn =
     (if snapshot_len sn < BLOCK_LEN then False
      else case read_exact_at sn 257 8 of
             Inl _ \<Rightarrow> False
           | Inr signature \<Rightarrow> signature = USTAR_MAGIC)"

definition is_known_unsupported_typeflag :: "u8 \<Rightarrow> bool" where
  "is_known_unsupported_typeflag typeflag \<longleftrightarrow>
     typeflag \<in> set [0x31, 0x32, 0x33, 0x34, 0x36, 0x37, 0x78, 0x67, 0x4C, 0x4B, 0x53, 0x44, 0x4D,
       0x4E, 0x56]"

text \<open>The member type of \<open>parse_header\<close>: whether the typeflag stands for a directory.\<close>

definition ustar_is_dir :: "bytes \<Rightarrow> finding + bool" where
  "ustar_is_dir header =
     (let typeflag = header ! 156
      in if typeflag = 0x30 \<or> typeflag = 0 then Inr False
         else if typeflag = 0x35 then Inr True
         else if is_known_unsupported_typeflag typeflag
              then Inl (unsupported_typeflag_finding header typeflag)
         else Inl (finding_error TarType))"

text \<open>The name of a member: the prefix field, a slash if there is a prefix, the name field.\<close>

definition ustar_raw_name :: "bytes \<Rightarrow> finding + bytes" where
  "ustar_raw_name header =
     and_then (parse_text_field (slice_of 0 100 header) False) (\<lambda>name.
     and_then (parse_text_field (slice_of 345 500 header) True) (\<lambda>prefix.
     Inr (if prefix = [] then name else prefix @ [0x2F] @ name)))"

definition parse_header :: "(bytes \<Rightarrow> bytes) \<Rightarrow> bytes \<Rightarrow> nat \<Rightarrow> finding + tar_member" where
  "parse_header sha header offs =
     (if slice_of 257 265 header \<noteq> USTAR_MAGIC then Inl (finding_error TarDialect)
      else
      and_then (verify_checksum header) (\<lambda>stored_checksum.
      and_then (ustar_is_dir header) (\<lambda>is_dir.
      if \<not> all_zero (slice_of 500 512 header) then Inl (finding_error TarDialect)
      else if \<not> all_zero (slice_of 157 257 header) then Inl (finding_error TarType)
      else
      and_then (parse_header_numbers header) (\<lambda>numbers.
      and_then (check_devices_and_owners header) (\<lambda>_.
      and_then (ustar_raw_name header) (\<lambda>raw_name.
      and_then (ok_or (finding_error PathUnicode) (from_utf8 raw_name)) (\<lambda>decoded_name.
      if is_dir \<and> hn_size numbers \<noteq> 0
      then Inl (on_member decoded_name (finding_error TarType))
      else Inr \<lparr>tm_raw_name = raw_name, tm_name = decoded_name, tm_size = hn_size numbers,
             tm_mode = hn_mode numbers, tm_mtime = hn_mtime numbers,
             tm_header_checksum = stored_checksum, tm_header_sha256 = hex_sha256 sha header,
             tm_header = \<lparr>offset = offs, rlen = BLOCK_LEN\<rparr>,
             tm_payload = \<lparr>offset = 0, rlen = 0\<rparr>, tm_padding = \<lparr>offset = 0, rlen = 0\<rparr>,
             tm_is_dir = is_dir\<rparr>)))))))"

record ustar_state =
  us_members :: "tar_member list"
  us_offset :: nat
  us_metadata_bytes :: nat

text \<open>A block read as a header: its end must lie in the source.\<close>

definition read_header_block :: "snapshot \<Rightarrow> nat \<Rightarrow> finding + bytes" where
  "read_header_block sn offs =
     and_then (tar_checked_add offs BLOCK_LEN) (\<lambda>header_end.
     if header_end > snapshot_len sn then Inl (finding_error TarTruncated)
     else read_exact_at sn offs BLOCK_LEN)"

definition ustar_finish :: "snapshot \<Rightarrow> nat \<Rightarrow> ustar_state \<Rightarrow> finding + tar_archive" where
  "ustar_finish sn max_metadata_bytes st =
     and_then (read_second_block sn (us_offset st + BLOCK_LEN)) (\<lambda>second_end.
     and_then (tar_checked_add (us_metadata_bytes st) (BLOCK_LEN * 2)) (\<lambda>metadata_bytes.
     if metadata_bytes > max_metadata_bytes then Inl (finding_error QuotaMetadata)
     else
     and_then (ensure_zero_range sn second_end (snapshot_len sn - second_end)) (\<lambda>_.
     Inr \<lparr>ta_members = us_members st,
          ta_member_records = \<lparr>offset = 0, rlen = us_offset st\<rparr>,
          ta_terminator = \<lparr>offset = us_offset st, rlen = BLOCK_LEN * 2\<rparr>,
          ta_trailing_zeros = \<lparr>offset = second_end, rlen = snapshot_len sn - second_end\<rparr>,
          ta_metadata_bytes = metadata_bytes\<rparr>)))"

definition ustar_member ::
  "(bytes \<Rightarrow> bytes) \<Rightarrow> snapshot \<Rightarrow> nat \<Rightarrow> nat \<Rightarrow> bytes \<Rightarrow> ustar_state \<Rightarrow> finding + ustar_state" where
  "ustar_member sha sn max_files max_metadata_bytes header st =
     and_then (parse_header sha header (us_offset st)) (\<lambda>member.
     if length (us_members st) \<ge> max_files then Inl (finding_error QuotaFiles)
     else
     and_then (tar_checked_add (us_metadata_bytes st) BLOCK_LEN) (\<lambda>metadata_bytes.
     if metadata_bytes > max_metadata_bytes then Inl (finding_error QuotaMetadata)
     else
     and_then (place_member sn (us_offset st + BLOCK_LEN) (tm_size member) (tm_name member)) (\<lambda>pl.
     Inr \<lparr>us_members = us_members st @
            [member\<lparr>tm_payload := pl_payload pl, tm_padding := pl_padding pl\<rparr>],
          us_offset = pl_end pl,
          us_metadata_bytes = metadata_bytes\<rparr>)))"

definition ustar_step ::
  "(bytes \<Rightarrow> bytes) \<Rightarrow> snapshot \<Rightarrow> nat \<Rightarrow> nat \<Rightarrow> ustar_state \<Rightarrow> finding + (ustar_state + tar_archive)"
where
  "ustar_step sha sn max_files max_metadata_bytes st =
     and_then (read_header_block sn (us_offset st)) (\<lambda>header.
     if is_zero_block header
     then and_then (ustar_finish sn max_metadata_bytes st) (\<lambda>archive. Inr (Inr archive))
     else and_then (ustar_member sha sn max_files max_metadata_bytes header st) (\<lambda>st'. Inr (Inl st')))"

lemma read_header_block_ok:
  "read_header_block sn offs = Inr header \<Longrightarrow>
     offs + 512 \<le> snapshot_len sn \<and> offs + 512 \<le> u64_max \<and> length header = 512 \<and>
     header = slice_of offs (offs + 512) (content sn)"
  by (auto simp: read_header_block_def and_then_eq_Inr BLOCK_LEN_def split: if_splits
      dest!: read_exact_at_ok)

lemma ustar_step_next:
  assumes "ustar_step sha sn mf mm st = Inr (Inl st')"
  obtains header where "read_header_block sn (us_offset st) = Inr header" "\<not> is_zero_block header"
    "ustar_member sha sn mf mm header st = Inr st'"
  using assms by (auto simp: ustar_step_def and_then_eq_Inr split: if_splits)

lemma ustar_step_stop:
  assumes "ustar_step sha sn mf mm st = Inr (Inr a)"
  obtains header where "read_header_block sn (us_offset st) = Inr header" "is_zero_block header"
    "ustar_finish sn mm st = Inr a"
  using assms by (auto simp: ustar_step_def and_then_eq_Inr split: if_splits)

lemma ustar_member_ok:
  assumes "ustar_member sha sn mf mm header st = Inr st'"
  obtains member pl where "parse_header sha header (us_offset st) = Inr member"
    "length (us_members st) < mf" "us_metadata_bytes st + 512 \<le> mm"
    "us_metadata_bytes st + 512 \<le> u64_max"
    "place_member sn (us_offset st + 512) (tm_size member) (tm_name member) = Inr pl"
    "st' = \<lparr>us_members = us_members st @
              [member\<lparr>tm_payload := pl_payload pl, tm_padding := pl_padding pl\<rparr>],
            us_offset = pl_end pl, us_metadata_bytes = us_metadata_bytes st + 512\<rparr>"
  using assms by (auto simp: ustar_member_def and_then_eq_Inr BLOCK_LEN_def not_le split: if_splits)

lemma ustar_progress:
  assumes "ustar_step sha sn mf mm st = Inr (Inl st')"
  shows "us_offset st < us_offset st' \<and> us_offset st' \<le> snapshot_len sn"
  using assms
proof (rule ustar_step_next)
  fix header
  assume h: "read_header_block sn (us_offset st) = Inr header"
    and m: "ustar_member sha sn mf mm header st = Inr st'"
  from m show ?thesis
  proof (rule ustar_member_ok)
    fix member pl
    assume p: "place_member sn (us_offset st + 512) (tm_size member) (tm_name member) = Inr pl"
      and st': "st' = \<lparr>us_members = us_members st @
              [member\<lparr>tm_payload := pl_payload pl, tm_padding := pl_padding pl\<rparr>],
            us_offset = pl_end pl, us_metadata_bytes = us_metadata_bytes st + 512\<rparr>"
    have "us_offset st + 512 \<le> snapshot_len sn" using read_header_block_ok [OF h] by simp
    from place_member_ok [OF p this] st' show ?thesis by simp
  qed
qed

function ustar_loop ::
  "(bytes \<Rightarrow> bytes) \<Rightarrow> snapshot \<Rightarrow> nat \<Rightarrow> nat \<Rightarrow> ustar_state \<Rightarrow> finding + tar_archive"
where
  "ustar_loop sha sn max_files max_metadata_bytes st =
     and_then (ustar_step sha sn max_files max_metadata_bytes st) (\<lambda>next.
       case next of
         Inl st' \<Rightarrow> ustar_loop sha sn max_files max_metadata_bytes st'
       | Inr archive \<Rightarrow> Inr archive)"
  by pat_completeness auto
termination
  by (relation "measure (\<lambda>(sha, sn, mf, mm, st). snapshot_len sn - us_offset st)")
    (auto dest: ustar_progress)

declare ustar_loop.simps [simp del]

definition parse_ustar_portable_v1 ::
  "(bytes \<Rightarrow> bytes) \<Rightarrow> snapshot \<Rightarrow> nat \<Rightarrow> nat \<Rightarrow> finding + tar_archive"
where
  "parse_ustar_portable_v1 sha sn max_files max_metadata_bytes =
     (if snapshot_len sn < BLOCK_LEN * 2 \<or> snapshot_len sn mod BLOCK_LEN \<noteq> 0
      then Inl (finding_error TarTruncated)
      else ustar_loop sha sn max_files max_metadata_bytes
             \<lparr>us_members = [], us_offset = 0, us_metadata_bytes = 0\<rparr>)"

interpretation ustar: block_reader "ustar_step sha sn mf mm" "ustar_loop sha sn mf mm" us_offset
    "snapshot_len sn" for sha sn mf mm
  by unfold_locales (subst ustar_loop.simps, rule refl, rule ustar_progress)

subsection \<open>The terminator scan\<close>

record ratio_covering =
  rc_terminator :: byte_range
  rc_trailing_zeros :: byte_range

text \<open>One iteration: \<open>Some (Inl o)\<close> continues at \<open>o\<close>.\<close>

definition ratio_step :: "snapshot \<Rightarrow> nat \<Rightarrow> (nat + ratio_covering) option" where
  "ratio_step sn offs =
     Option.bind (checked_add_u64 offs BLOCK_LEN) (\<lambda>header_end.
     if header_end > snapshot_len sn then None
     else Option.bind (result_ok (read_exact_at sn offs BLOCK_LEN)) (\<lambda>header.
     if is_zero_block header then
       Option.bind (checked_add_u64 header_end BLOCK_LEN) (\<lambda>trailing_offset.
       if trailing_offset > snapshot_len sn then None
       else Option.bind (result_ok (read_exact_at sn header_end BLOCK_LEN)) (\<lambda>second.
       if \<not> is_zero_block second then None
       else
         let trailing_len = snapshot_len sn - trailing_offset
         in Option.bind (result_ok (ensure_zero_range sn trailing_offset trailing_len)) (\<lambda>_.
            Some (Inr \<lparr>rc_terminator = \<lparr>offset = offs, rlen = BLOCK_LEN * 2\<rparr>,
                       rc_trailing_zeros = \<lparr>offset = trailing_offset, rlen = trailing_len\<rparr>\<rparr>))))
     else if \<not> header_checksum_matches header then None
     else if slice_of 257 265 header \<noteq> USTAR_MAGIC \<and> slice_of 257 265 header \<noteq> OLDGNU_MAGIC
     then None
     else
       Option.bind (result_ok (parse_octal (slice_of 124 136 header))) (\<lambda>size.
       Option.bind (result_ok (round_up_block size)) (\<lambda>padded.
       Option.bind (checked_add_u64 header_end size) (\<lambda>payload_end.
       Option.bind (checked_add_u64 header_end padded) (\<lambda>record_end.
       if record_end > snapshot_len sn \<or> record_end \<le> offs then None
       else Option.bind (result_ok (ensure_zero_range sn payload_end (padded - size))) (\<lambda>_.
            Some (Inl record_end))))))))"

lemma ratio_progress:
  "ratio_step sn offs = Some (Inl offs') \<Longrightarrow> offs < offs' \<and> offs' \<le> snapshot_len sn"
  by (auto simp: ratio_step_def Let_def bind_eq_Some_conv split: if_splits)

function ratio_loop :: "snapshot \<Rightarrow> nat \<Rightarrow> ratio_covering option" where
  "ratio_loop sn offs =
     (case ratio_step sn offs of
        None \<Rightarrow> None
      | Some (Inl offs') \<Rightarrow> ratio_loop sn offs'
      | Some (Inr covering) \<Rightarrow> Some covering)"
  by pat_completeness auto
termination
  by (relation "measure (\<lambda>(sn, offs). snapshot_len sn - offs)") (auto dest: ratio_progress)

declare ratio_loop.simps [simp del]

definition verified_ratio_covering :: "snapshot \<Rightarrow> ratio_covering option" where
  "verified_ratio_covering sn =
     (if snapshot_len sn < BLOCK_LEN * 2 \<or> snapshot_len sn mod BLOCK_LEN \<noteq> 0 then None
      else ratio_loop sn 0)"

interpretation ratio: block_reader "\<lambda>offs. ok_or () (ratio_step sn offs)"
    "\<lambda>offs. ok_or () (ratio_loop sn offs)" id "snapshot_len sn" for sn
proof
  show "ok_or () (ratio_loop sn s) = and_then (ok_or () (ratio_step sn s))
      (\<lambda>x. case x of Inl s' \<Rightarrow> ok_or () (ratio_loop sn s') | Inr r \<Rightarrow> Inr r)" for s
    by (subst ratio_loop.simps) (auto split: option.splits sum.splits)
  show "id s < id s' \<and> id s' \<le> snapshot_len sn" if "ok_or () (ratio_step sn s) = Inr (Inl s')" for s s'
    using that ratio_progress by simp
qed

subsection \<open>What an accepted archive is\<close>

text \<open>
  The declarative description of a portable ustar archive. The header, payload and padding of
  the members, the terminator and the record padding follow each other through the whole
  source; every member is what its header block decodes to, with its payload and padding placed
  behind it; every byte outside headers and payloads is zero; the counts respect the caps.
\<close>

definition ustar_ranges :: "tar_member \<Rightarrow> byte_range list" where
  "ustar_ranges m = [tm_header m, tm_payload m, tm_padding m]"

definition range_bytes :: "snapshot \<Rightarrow> byte_range \<Rightarrow> bytes" where
  "range_bytes sn r = slice_of (offset r) (offset r + rlen r) (content sn)"

definition ustar_member_at :: "(bytes \<Rightarrow> bytes) \<Rightarrow> snapshot \<Rightarrow> tar_member \<Rightarrow> bool" where
  "ustar_member_at sha sn m \<longleftrightarrow>
     rlen (tm_header m) = 512 \<and> rlen (tm_payload m) = tm_size m \<and>
     rlen (tm_padding m) = pad_len (tm_size m) \<and> all_zero (range_bytes sn (tm_padding m)) \<and>
     parse_header sha (range_bytes sn (tm_header m)) (offset (tm_header m)) =
       Inr (m\<lparr>tm_payload := \<lparr>offset = 0, rlen = 0\<rparr>, tm_padding := \<lparr>offset = 0, rlen = 0\<rparr>\<rparr>)"

definition ustar_spec ::
  "(bytes \<Rightarrow> bytes) \<Rightarrow> snapshot \<Rightarrow> nat \<Rightarrow> nat \<Rightarrow> tar_archive \<Rightarrow> bool" where
  "ustar_spec sha sn max_files max_metadata_bytes a \<longleftrightarrow>
     chain 0 (concat (map ustar_ranges (ta_members a)) @ [ta_terminator a, ta_trailing_zeros a])
       (snapshot_len sn) \<and>
     snapshot_len sn mod 512 = 0 \<and>
     (\<forall>m \<in> set (ta_members a). ustar_member_at sha sn m) \<and>
     ta_member_records a = \<lparr>offset = 0, rlen = offset (ta_terminator a)\<rparr> \<and>
     rlen (ta_terminator a) = 1024 \<and>
     all_zero (range_bytes sn (ta_terminator a)) \<and>
     all_zero (range_bytes sn (ta_trailing_zeros a)) \<and>
     ta_metadata_bytes a = 512 * length (ta_members a) + 1024 \<and>
     length (ta_members a) \<le> max_files \<and> ta_metadata_bytes a \<le> max_metadata_bytes"

lemma parse_header_ok:
  assumes "parse_header sha header offs = Inr m"
  shows "slice_of 257 265 header = USTAR_MAGIC" "header_checksum_matches header"
    "parse_octal (slice_of 124 136 header) = Inr (tm_size m)"
    "tm_header m = \<lparr>offset = offs, rlen = 512\<rparr>"
    "tm_payload m = \<lparr>offset = 0, rlen = 0\<rparr>" "tm_padding m = \<lparr>offset = 0, rlen = 0\<rparr>"
    "tm_header_checksum m = header_checksum_of header"
    "tm_header_sha256 m = hex_sha256 sha header"
    "ustar_raw_name header = Inr (tm_raw_name m)" "from_utf8 (tm_raw_name m) = Some (tm_name m)"
    "tm_is_dir m \<Longrightarrow> tm_size m = 0" "tm_mode m \<le> 4095"
    "parse_octal (slice_of 136 148 header) = Inr (tm_mtime m)"
  using assms
  by (auto simp: parse_header_def parse_header_numbers_def and_then_eq_Inr BLOCK_LEN_def
      split: if_splits dest: verify_checksum_ok)

lemma USTAR_MAGIC_not_zero: "slice_of 257 265 header = USTAR_MAGIC \<Longrightarrow> \<not> is_zero_block header"
proof
  assume m: "slice_of 257 265 header = USTAR_MAGIC" and z: "is_zero_block header"
  have "0x75 \<in> set USTAR_MAGIC" by (simp add: USTAR_MAGIC_def)
  then have "(0x75 :: u8) \<in> set header" using m set_slice_subset [of 257 265 header] by auto
  with z have "(0x75 :: u8) = 0" by (auto simp: is_zero_block_def all_zero_iff)
  then show False by simp
qed

definition ustar_inv ::
  "(bytes \<Rightarrow> bytes) \<Rightarrow> snapshot \<Rightarrow> nat \<Rightarrow> nat \<Rightarrow> ustar_state \<Rightarrow> bool" where
  "ustar_inv sha sn mf mm st \<longleftrightarrow>
     chain 0 (concat (map ustar_ranges (us_members st))) (us_offset st) \<and>
     us_offset st \<le> snapshot_len sn \<and>
     (\<forall>m \<in> set (us_members st). ustar_member_at sha sn m) \<and>
     us_metadata_bytes st = 512 * length (us_members st) \<and> length (us_members st) \<le> mf"

lemma ustar_inv_step:
  assumes inv: "ustar_inv sha sn mf mm st" and "ustar_step sha sn mf mm st = Inr (Inl st')"
  shows "ustar_inv sha sn mf mm st'"
proof -
  from assms(2) obtain header where h: "read_header_block sn (us_offset st) = Inr header"
    and mm: "ustar_member sha sn mf mm header st = Inr st'" by (rule ustar_step_next)
  from mm obtain m pl where m: "parse_header sha header (us_offset st) = Inr m"
    and n: "length (us_members st) < mf"
    and p: "place_member sn (us_offset st + 512) (tm_size m) (tm_name m) = Inr pl"
    and st': "st' = \<lparr>us_members = us_members st @
              [m\<lparr>tm_payload := pl_payload pl, tm_padding := pl_padding pl\<rparr>],
            us_offset = pl_end pl, us_metadata_bytes = us_metadata_bytes st + 512\<rparr>"
    by (rule ustar_member_ok)
  note h = read_header_block_ok [OF h]
  then have "us_offset st + 512 \<le> snapshot_len sn" by simp
  note p = place_member_ok [OF p this]
  note m' = parse_header_ok [OF m]
  let ?m = "m\<lparr>tm_payload := pl_payload pl, tm_padding := pl_padding pl\<rparr>"
  have "?m\<lparr>tm_payload := \<lparr>offset = 0, rlen = 0\<rparr>, tm_padding := \<lparr>offset = 0, rlen = 0\<rparr>\<rparr> = m"
    using m'(5,6) by (cases m) simp
  then have "ustar_member_at sha sn ?m"
    using m m' p h by (simp add: ustar_member_at_def range_bytes_def)
  moreover have "chain (us_offset st) (ustar_ranges ?m) (pl_end pl)"
    using m'(4) p by (simp add: ustar_ranges_def)
  ultimately show ?thesis
    using inv p n by (auto simp: ustar_inv_def st')
qed

lemma ustar_finish_ok:
  assumes "ustar_finish sn mm st = Inr a"
  shows "us_offset st + 1024 \<le> snapshot_len sn"
    "all_zero (slice_of (us_offset st + 512) (us_offset st + 1024) (content sn))"
    "all_zero (slice_of (us_offset st + 1024) (snapshot_len sn) (content sn))"
    "us_metadata_bytes st + 1024 \<le> mm" "us_metadata_bytes st + 1024 \<le> u64_max"
    "a = \<lparr>ta_members = us_members st,
          ta_member_records = \<lparr>offset = 0, rlen = us_offset st\<rparr>,
          ta_terminator = \<lparr>offset = us_offset st, rlen = 1024\<rparr>,
          ta_trailing_zeros = \<lparr>offset = us_offset st + 1024,
            rlen = snapshot_len sn - (us_offset st + 1024)\<rparr>,
          ta_metadata_bytes = us_metadata_bytes st + 1024\<rparr>"
proof -
  from assms obtain e where s: "read_second_block sn (us_offset st + 512) = Inr e"
    and mm: "us_metadata_bytes st + 1024 \<le> mm" "us_metadata_bytes st + 1024 \<le> u64_max"
    and z: "ensure_zero_range sn e (snapshot_len sn - e) = Inr ()"
    and a: "a = \<lparr>ta_members = us_members st,
          ta_member_records = \<lparr>offset = 0, rlen = us_offset st\<rparr>,
          ta_terminator = \<lparr>offset = us_offset st, rlen = 1024\<rparr>,
          ta_trailing_zeros = \<lparr>offset = e, rlen = snapshot_len sn - e\<rparr>,
          ta_metadata_bytes = us_metadata_bytes st + 1024\<rparr>"
    by (auto simp: ustar_finish_def and_then_eq_Inr BLOCK_LEN_def split: if_splits)
  note s = read_second_block_ok [OF s]
  with z have z: "all_zero (slice_of e (snapshot_len sn) (content sn))"
    using ensure_zero_range_ok [OF z] by simp
  from s have e: "e = us_offset st + 1024" by simp
  show "us_offset st + 1024 \<le> snapshot_len sn"
    "all_zero (slice_of (us_offset st + 512) (us_offset st + 1024) (content sn))"
    "all_zero (slice_of (us_offset st + 1024) (snapshot_len sn) (content sn))"
    "us_metadata_bytes st + 1024 \<le> mm" "us_metadata_bytes st + 1024 \<le> u64_max"
    using s z mm by (simp_all add: e add.commute)
  show "a = \<lparr>ta_members = us_members st,
          ta_member_records = \<lparr>offset = 0, rlen = us_offset st\<rparr>,
          ta_terminator = \<lparr>offset = us_offset st, rlen = 1024\<rparr>,
          ta_trailing_zeros = \<lparr>offset = us_offset st + 1024,
            rlen = snapshot_len sn - (us_offset st + 1024)\<rparr>,
          ta_metadata_bytes = us_metadata_bytes st + 1024\<rparr>"
    using a by (simp add: e)
qed

lemma ustar_parse_spec:
  assumes "parse_ustar_portable_v1 sha sn mf mm = Inr a"
  shows "ustar_spec sha sn mf mm a"
proof -
  let ?st = "\<lparr>us_members = [], us_offset = 0, us_metadata_bytes = 0\<rparr>"
  from assms have len: "snapshot_len sn mod 512 = 0" and l: "ustar_loop sha sn mf mm ?st = Inr a"
    by (auto simp: parse_ustar_portable_v1_def BLOCK_LEN_def split: if_splits)
  have "ustar_inv sha sn mf mm ?st" by (simp add: ustar_inv_def)
  with l have "\<exists>st. ustar_inv sha sn mf mm st \<and> ustar_step sha sn mf mm st = Inr (Inr a)"
    by (rule ustar.loop_invariant) (rule ustar_inv_step)
  then obtain st where inv: "ustar_inv sha sn mf mm st"
    and stop: "ustar_step sha sn mf mm st = Inr (Inr a)" by blast
  from stop obtain header where h: "read_header_block sn (us_offset st) = Inr header"
    "is_zero_block header" and f: "ustar_finish sn mm st = Inr a" by (rule ustar_step_stop)
  note f = ustar_finish_ok [OF f]
  have "all_zero (slice_of (us_offset st) (us_offset st + 512) (content sn))"
    using h read_header_block_ok [OF h(1)] by (simp add: is_zero_block_def)
  then have "all_zero (slice_of (us_offset st) (us_offset st + 1024) (content sn))"
    using f(2) all_zero_slice_append [of "us_offset st" "us_offset st + 512" "us_offset st + 1024"
        "content sn"] by simp
  then show ?thesis
    using f inv len by (simp add: ustar_spec_def ustar_inv_def range_bytes_def)
qed

lemma ustar_member_at_step:
  assumes at: "ustar_member_at sha sn m" and mem: "reads_ok sn" "snapshot_ok sn"
    and ch: "chain (us_offset st) (ustar_ranges m) e" and e: "e \<le> snapshot_len sn"
    and caps: "length (us_members st) < mf" "us_metadata_bytes st + 512 \<le> mm"
      "us_metadata_bytes st + 512 \<le> u64_max"
  shows "ustar_step sha sn mf mm st = Inr (Inl \<lparr>us_members = us_members st @ [m], us_offset = e,
    us_metadata_bytes = us_metadata_bytes st + 512\<rparr>)"
proof -
  let ?o = "us_offset st" and ?p = "pad_len (tm_size m)"
  let ?m0 = "m\<lparr>tm_payload := \<lparr>offset = 0, rlen = 0\<rparr>, tm_padding := \<lparr>offset = 0, rlen = 0\<rparr>\<rparr>"
  let ?header = "slice_of ?o (?o + 512) (content sn)"
  from ch at have r: "tm_header m = \<lparr>offset = ?o, rlen = 512\<rparr>"
    "tm_payload m = \<lparr>offset = ?o + 512, rlen = tm_size m\<rparr>"
    "tm_padding m = \<lparr>offset = ?o + 512 + tm_size m, rlen = ?p\<rparr>"
    and e': "e = ?o + 512 + tm_size m + ?p"
    by (auto simp: ustar_ranges_def ustar_member_at_def intro!: byte_range.equality)
  from at r have h: "parse_header sha ?header ?o = Inr ?m0"
    and z: "all_zero (slice_of (?o + 512 + tm_size m) (?o + 512 + tm_size m + ?p) (content sn))"
    by (simp_all add: ustar_member_at_def range_bytes_def)
  have le: "?o + 512 \<le> u64_max" using mem(2) e e' by (simp add: snapshot_ok_def)
  then have "read_header_block sn ?o = Inr ?header"
    using mem e e' by (simp add: read_header_block_def BLOCK_LEN_def read_exact_at_memory in_bounds_def)
  moreover have "\<not> is_zero_block ?header" using USTAR_MAGIC_not_zero parse_header_ok(1) [OF h] by blast
  moreover have "place_member sn (?o + 512) (tm_size m) (tm_name m) =
    Inr \<lparr>pl_payload = tm_payload m, pl_padding = tm_padding m, pl_end = e\<rparr>"
    using place_member_memory [OF mem, of "?o + 512" "tm_size m"] z e e' r by simp
  then have "ustar_member sha sn mf mm ?header st = Inr \<lparr>us_members = us_members st @ [m], us_offset = e,
    us_metadata_bytes = us_metadata_bytes st + 512\<rparr>"
    using caps h by (simp add: ustar_member_def BLOCK_LEN_def)
  ultimately show ?thesis by (simp add: ustar_step_def)
qed

lemma ustar_loop_members:
  assumes mem: "reads_ok sn" "snapshot_ok sn"
    and "\<forall>m \<in> set ms. ustar_member_at sha sn m"
    "chain (us_offset st) (concat (map ustar_ranges ms)) e" "e \<le> snapshot_len sn"
    "length (us_members st) + length ms \<le> mf" "us_metadata_bytes st + 512 * length ms \<le> mm"
    "us_metadata_bytes st + 512 * length ms \<le> u64_max"
  shows "ustar_loop sha sn mf mm st = ustar_loop sha sn mf mm
    \<lparr>us_members = us_members st @ ms, us_offset = e,
     us_metadata_bytes = us_metadata_bytes st + 512 * length ms\<rparr>"
  using assms(3-)
proof (induction ms arbitrary: st)
  case Nil
  then have "st = \<lparr>us_members = us_members st @ [], us_offset = e,
     us_metadata_bytes = us_metadata_bytes st + 512 * length []\<rparr>" by (cases st) simp
  then show ?case by simp
next
  case (Cons m ms)
  from Cons.prems(2) obtain e' where ch: "chain (us_offset st) (ustar_ranges m) e'"
    "chain e' (concat (map ustar_ranges ms)) e" by auto
  let ?st = "\<lparr>us_members = us_members st @ [m], us_offset = e',
    us_metadata_bytes = us_metadata_bytes st + 512\<rparr>"
  have "e' \<le> e" using chain_sum [OF ch(2)] by simp
  then have "ustar_step sha sn mf mm st = Inr (Inl ?st)"
    using Cons.prems ch by (intro ustar_member_at_step mem) simp_all
  moreover have "ustar_loop sha sn mf mm ?st = ustar_loop sha sn mf mm
    \<lparr>us_members = us_members st @ m # ms, us_offset = e,
     us_metadata_bytes = us_metadata_bytes st + 512 * length (m # ms)\<rparr>"
    using Cons.IH [of ?st] Cons.prems ch(2) by (simp add: add.assoc)
  ultimately show ?case by (simp add: ustar.loop_simps(2))
qed

lemma ustar_finish_memory:
  assumes "reads_ok sn" "snapshot_ok sn"
    "us_offset st + 1024 \<le> snapshot_len sn"
    "all_zero (slice_of (us_offset st) (us_offset st + 1024) (content sn))"
    "all_zero (slice_of (us_offset st + 1024) (snapshot_len sn) (content sn))"
    "us_metadata_bytes st + 1024 \<le> mm" "us_metadata_bytes st + 1024 \<le> u64_max"
  shows "ustar_step sha sn mf mm st = Inr (Inr \<lparr>ta_members = us_members st,
          ta_member_records = \<lparr>offset = 0, rlen = us_offset st\<rparr>,
          ta_terminator = \<lparr>offset = us_offset st, rlen = 1024\<rparr>,
          ta_trailing_zeros = \<lparr>offset = us_offset st + 1024,
            rlen = snapshot_len sn - (us_offset st + 1024)\<rparr>,
          ta_metadata_bytes = us_metadata_bytes st + 1024\<rparr>)"
proof -
  let ?o = "us_offset st"
  have u: "?o + 1024 \<le> u64_max" using assms(2,3) by (simp add: snapshot_ok_def)
  have z: "all_zero (slice_of ?o (?o + 512) (content sn))"
    "all_zero (slice_of (?o + 512) (?o + 1024) (content sn))"
    using assms(4) all_zero_slice_append [of ?o "?o + 512" "?o + 1024" "content sn"] by simp_all
  have "read_header_block sn ?o = Inr (slice_of ?o (?o + 512) (content sn))"
    using assms u by (simp add: read_header_block_def BLOCK_LEN_def read_exact_at_memory in_bounds_def)
  moreover have "read_second_block sn (?o + 512) = Inr (?o + 1024)"
    using assms u z
    by (simp add: read_second_block_def BLOCK_LEN_def read_exact_at_memory in_bounds_def
        is_zero_block_def add.commute)
  moreover have "ensure_zero_range sn (?o + 1024) (snapshot_len sn - (?o + 1024)) = Inr ()"
    using assms by (intro ensure_zero_range_memory) simp_all
  ultimately show ?thesis
    using z assms(6,7) by (simp add: ustar_step_def ustar_finish_def is_zero_block_def BLOCK_LEN_def)
qed

lemma ustar_spec_parse:
  assumes mem: "reads_ok sn" "snapshot_ok sn" and spec: "ustar_spec sha sn mf mm a"
  shows "parse_ustar_portable_v1 sha sn mf mm = Inr a"
proof -
  let ?st = "\<lparr>us_members = [], us_offset = 0, us_metadata_bytes = 0\<rparr>"
  from spec obtain e where te: "ta_terminator a = \<lparr>offset = e, rlen = 1024\<rparr>"
    by (cases "ta_terminator a") (simp add: ustar_spec_def)
  let ?fin = "\<lparr>us_members = ta_members a, us_offset = e,
    us_metadata_bytes = 512 * length (ta_members a)\<rparr>"
  from spec have ch: "chain 0 (concat (map ustar_ranges (ta_members a))) e"
    and tz: "ta_trailing_zeros a = \<lparr>offset = e + 1024, rlen = snapshot_len sn - (e + 1024)\<rparr>"
    and len: "e + 1024 \<le> snapshot_len sn"
    and tr: "ta_member_records a = \<lparr>offset = 0, rlen = e\<rparr>"
    by (auto simp: ustar_spec_def te intro!: byte_range.equality)
  have "512 * length ms \<le> sum_list (map rlen (concat (map ustar_ranges ms)))"
    if "\<forall>m \<in> set ms. ustar_member_at sha sn m" for ms
    using that by (induction ms) (auto simp: ustar_ranges_def ustar_member_at_def)
  then have "512 * length (ta_members a) \<le> e"
    using spec chain_sum [OF ch] by (simp add: ustar_spec_def)
  then have md: "512 * length (ta_members a) + 1024 \<le> u64_max"
    using len mem(2) by (simp add: snapshot_ok_def)
  have "ustar_loop sha sn mf mm ?st = ustar_loop sha sn mf mm ?fin"
    using spec ch len md by (subst ustar_loop_members [OF mem]) (auto simp: ustar_spec_def)
  also have "\<dots> = Inr a"
  proof -
    have z: "all_zero (slice_of e (e + 1024) (content sn))"
      "all_zero (slice_of (e + 1024) (snapshot_len sn) (content sn))"
      using spec len by (simp_all add: ustar_spec_def range_bytes_def tz te)
    have "a = \<lparr>ta_members = ta_members a, ta_member_records = ta_member_records a,
        ta_terminator = ta_terminator a, ta_trailing_zeros = ta_trailing_zeros a,
        ta_metadata_bytes = ta_metadata_bytes a\<rparr>" by simp
    also have "\<dots> = \<lparr>ta_members = ta_members a, ta_member_records = \<lparr>offset = 0, rlen = e\<rparr>,
        ta_terminator = \<lparr>offset = e, rlen = 1024\<rparr>,
        ta_trailing_zeros = \<lparr>offset = e + 1024, rlen = snapshot_len sn - (e + 1024)\<rparr>,
        ta_metadata_bytes = 512 * length (ta_members a) + 1024\<rparr>"
      using spec by (simp only: te tz tr ustar_spec_def)
    finally have "ustar_step sha sn mf mm ?fin = Inr (Inr a)"
      using ustar_finish_memory [OF mem, of ?fin mm sha mf] len spec md z
      by (simp add: ustar_spec_def)
    then show ?thesis by (rule ustar.loop_simps(3))
  qed
  finally show ?thesis
    using spec len by (simp add: parse_ustar_portable_v1_def BLOCK_LEN_def ustar_spec_def)
qed

subsection \<open>Fields of an accepted header\<close>

lemma ustar_raw_name_ok:
  assumes "ustar_raw_name header = Inr raw" "length header = 512"
  shows "raw \<noteq> []" "0 \<notin> set raw" "length raw \<le> 256"
proof -
  from assms(1) obtain name prefix where n: "parse_text_field (slice_of 0 100 header) False = Inr name"
    and p: "parse_text_field (slice_of 345 500 header) True = Inr prefix"
    and raw: "raw = (if prefix = [] then name else prefix @ [0x2F] @ name)"
    by (auto simp: ustar_raw_name_def and_then_eq_Inr)
  from n obtain k where k: "slice_of 0 100 header = name @ replicate k 0" "0 \<notin> set name" "name \<noteq> []"
    by (auto simp: parse_text_field_ok)
  from p obtain l where l: "slice_of 345 500 header = prefix @ replicate l 0" "0 \<notin> set prefix"
    by (auto simp: parse_text_field_ok)
  have "length name \<le> 100" using arg_cong [OF k(1), of length] by simp
  moreover have "length prefix \<le> 155" using arg_cong [OF l(1), of length] by simp
  ultimately show "raw \<noteq> []" "0 \<notin> set raw" "length raw \<le> 256" using k l raw by auto
qed

lemma header_checksum_bound:
  assumes "length header = 512"
  shows "header_checksum_of header \<le> 512 * 255"
proof -
  have "sum_list (map (\<lambda>(i, b :: u8). if 148 \<le> i \<and> i < 156 then 0x20 else unat b) xs) \<le> length xs * 255"
    for xs :: "(nat \<times> u8) list"
  proof (induction xs)
    case Nil
    then show ?case by simp
  next
    case (Cons x xs)
    have "unat (snd x) < 256" by (rule unat_u8_less)
    with Cons show ?case by (cases x) auto
  qed
  from this [of "enumerate 0 header"] show ?thesis using assms by (simp add: header_checksum_of_def)
qed

text \<open>The bounds of the fields of a member; its name is the UTF-8 reading of its raw name.\<close>

definition ustar_member_bounded :: "tar_member \<Rightarrow> bool" where
  "ustar_member_bounded m \<longleftrightarrow>
     tm_raw_name m = as_bytes (tm_name m) \<and> tm_name m \<noteq> [] \<and> 0 \<notin> set (tm_name m) \<and>
     length (tm_raw_name m) \<le> 256 \<and> tm_size m < 8 ^ 11 \<and> tm_mode m \<le> 4095 \<and>
     tm_mtime m < 8 ^ 11 \<and> tm_header_checksum m \<le> 512 * 255 \<and> (tm_is_dir m \<longrightarrow> tm_size m = 0)"

lemma as_bytes_no_nul: "0 \<notin> set (as_bytes cs) \<Longrightarrow> 0 \<notin> set cs"
proof
  assume n: "0 \<notin> set (as_bytes cs)" and "0 \<in> set cs"
  then have "set (encode_char 0) \<subseteq> set (as_bytes cs)" by (auto simp: as_bytes_def)
  with n show False by (simp add: encode_char_def)
qed

lemma parse_header_bounded:
  assumes "parse_header sha header offs = Inr m" "length header = 512"
  shows "ustar_member_bounded m"
proof -
  note m = parse_header_ok [OF assms(1)]
  note raw = ustar_raw_name_ok [OF m(9) assms(2)]
  have nm: "as_bytes (tm_name m) = tm_raw_name m" using from_utf8_as_bytes [OF m(10)] by simp
  have "tm_size m < 8 ^ 11" "tm_mtime m < 8 ^ 11"
    using parse_octal_ok [OF m(3)] parse_octal_ok [OF m(13)] assms(2) by auto
  moreover have "tm_name m \<noteq> []" using nm raw(1) by (auto simp: as_bytes_def)
  moreover have "0 \<notin> set (tm_name m)" using nm raw(2) by (intro as_bytes_no_nul) simp
  ultimately show ?thesis
    using m raw nm header_checksum_bound [OF assms(2)] by (simp add: ustar_member_bounded_def)
qed

subsection \<open>Caps\<close>

lemma ustar_member_caps:
  assumes "ustar_member sha sn mf mm header st = Inr st'"
  shows "ustar_member sha sn mf' mm' header st =
    (if mf' \<le> length (us_members st) then Inl (finding_error QuotaFiles)
     else if mm' < us_metadata_bytes st' then Inl (finding_error QuotaMetadata) else Inr st') \<and>
    length (us_members st') = Suc (length (us_members st)) \<and>
    us_metadata_bytes st' = us_metadata_bytes st + 512"
  using assms by (auto simp: ustar_member_def and_then_eq_Inr BLOCK_LEN_def split: if_splits)

lemma ustar_finish_caps:
  assumes "ustar_finish sn mm st = Inr a"
  shows "ustar_finish sn mm' st =
    (if mm' < ta_metadata_bytes a then Inl (finding_error QuotaMetadata) else Inr a)"
  using assms by (auto simp: ustar_finish_def and_then_eq_Inr BLOCK_LEN_def split: if_splits)

interpretation ustar_caps: capped_reader "ustar_step sha sn" "ustar_loop sha sn" us_offset
    "snapshot_len sn" "\<lambda>st. length (us_members st)" us_metadata_bytes
    "\<lambda>a. length (ta_members a)" ta_metadata_bytes "finding_error QuotaFiles"
    "finding_error QuotaMetadata" for sha sn
proof (rule capped_reader.intro)
  show "block_reader (ustar_step sha sn mf mm) (ustar_loop sha sn mf mm) us_offset (snapshot_len sn)"
    for mf mm by (rule ustar.block_reader_axioms)
next
  fix mf mm st st' mf' mm'
  assume "ustar_step sha sn mf mm st = Inr (Inl st')" and n: "length (us_members st) \<le> mf'"
  then obtain header where "read_header_block sn (us_offset st) = Inr header" "\<not> is_zero_block header"
    and m: "ustar_member sha sn mf mm header st = Inr st'" by (elim ustar_step_next)
  with ustar_member_caps [OF m, of mf' mm'] n show "ustar_step sha sn mf' mm' st =
      (if mf' < length (us_members st') then Inl (finding_error QuotaFiles)
       else if mm' < us_metadata_bytes st' then Inl (finding_error QuotaMetadata) else Inr (Inl st'))"
    by (auto simp: ustar_step_def)
next
  fix mf mm st a mf' mm'
  assume "ustar_step sha sn mf mm st = Inr (Inr a)"
  then obtain header where "read_header_block sn (us_offset st) = Inr header" "is_zero_block header"
    and f: "ustar_finish sn mm st = Inr a" by (elim ustar_step_stop)
  with ustar_finish_caps [OF f, of mm'] show "ustar_step sha sn mf' mm' st =
      (if mm' < ta_metadata_bytes a then Inl (finding_error QuotaMetadata) else Inr (Inr a))"
    by (simp add: ustar_step_def)
next
  fix mf mm st st'
  assume "ustar_step sha sn mf mm st = Inr (Inl st')"
  then show "length (us_members st) \<le> length (us_members st') \<and> us_metadata_bytes st \<le> us_metadata_bytes st'"
    by (auto elim!: ustar_step_next dest!: ustar_member_caps)
next
  fix mf mm st a
  assume "ustar_step sha sn mf mm st = Inr (Inr a)"
  then show "length (ta_members a) = length (us_members st) \<and> us_metadata_bytes st \<le> ta_metadata_bytes a"
    by (auto elim!: ustar_step_stop dest: ustar_finish_ok(6))
qed

subsection \<open>The terminator scan follows the reader\<close>

lemma ratio_step_member:
  assumes "ustar_step sha sn mf mm st = Inr (Inl st')"
  shows "ratio_step sn (us_offset st) = Some (Inl (us_offset st'))"
proof -
  let ?o = "us_offset st"
  from assms obtain h where h: "read_header_block sn ?o = Inr h" "\<not> is_zero_block h"
    and mm: "ustar_member sha sn mf mm h st = Inr st'" by (rule ustar_step_next)
  from mm obtain m pl where m: "parse_header sha h ?o = Inr m"
    and p: "place_member sn (?o + 512) (tm_size m) (tm_name m) = Inr pl"
    and st': "us_offset st' = pl_end pl" by (rule ustar_member_ok) simp
  note m = parse_header_ok [OF m]
  have r: "read_exact_at sn ?o 512 = Inr h" "?o + 512 \<le> snapshot_len sn" "?o + 512 \<le> u64_max"
    using h by (auto simp: read_header_block_def and_then_eq_Inr BLOCK_LEN_def split: if_splits)
  from p obtain q where q: "round_up_block (tm_size m) = Inr q" "?o + 512 + tm_size m \<le> u64_max"
    "?o + 512 + q \<le> u64_max" "?o + 512 + q \<le> snapshot_len sn"
    "ensure_zero_range sn (?o + 512 + tm_size m) (q - tm_size m) = Inr ()" "pl_end pl = ?o + 512 + q"
    by (auto simp: place_member_def Let_def and_then_eq_Inr split: if_splits)
  then show ?thesis
    using h r m st'
    by (simp add: ratio_step_def BLOCK_LEN_def checked_add_u64_def)
qed

lemma ratio_step_finish:
  assumes "ustar_step sha sn mf mm st = Inr (Inr a)"
  shows "ratio_step sn (us_offset st) =
    Some (Inr \<lparr>rc_terminator = ta_terminator a, rc_trailing_zeros = ta_trailing_zeros a\<rparr>)"
proof -
  let ?o = "us_offset st"
  from assms obtain h where h: "read_header_block sn ?o = Inr h" "is_zero_block h"
    and f: "ustar_finish sn mm st = Inr a" by (rule ustar_step_stop)
  have r: "read_exact_at sn ?o 512 = Inr h" "?o + 512 \<le> snapshot_len sn" "?o + 512 \<le> u64_max"
    using h by (auto simp: read_header_block_def and_then_eq_Inr BLOCK_LEN_def split: if_splits)
  from f obtain h2 where "read_exact_at sn (?o + 512) 512 = Inr h2" "is_zero_block h2"
    "?o + 512 + 512 \<le> snapshot_len sn" "?o + 512 + 512 \<le> u64_max"
    "ensure_zero_range sn (?o + 512 + 512) (snapshot_len sn - (?o + 512 + 512)) = Inr ()"
    by (auto simp: ustar_finish_def read_second_block_def and_then_eq_Inr BLOCK_LEN_def
        split: if_splits)
  with h r ustar_finish_ok(6) [OF f] show ?thesis
    by (simp add: ratio_step_def BLOCK_LEN_def Let_def checked_add_u64_def)
qed

interpretation ustar_ratio: reader_simulation "ustar_step sha sn mf mm" "ustar_loop sha sn mf mm"
    us_offset "snapshot_len sn" "\<lambda>offs. ok_or () (ratio_step sn offs)"
    "\<lambda>offs. ok_or () (ratio_loop sn offs)" id "snapshot_len sn"
    "\<lambda>st offs. us_offset st = offs"
    "\<lambda>a c. c = \<lparr>rc_terminator = ta_terminator a, rc_trailing_zeros = ta_trailing_zeros a\<rparr>"
    for sha sn mf mm
  by unfold_locales (auto dest: ratio_step_member ratio_step_finish)

subsection \<open>Errors\<close>

definition tar_format_codes :: "finding_code set" where
  "tar_format_codes = {TarTruncated, TarTerminator, TarDialect, TarChecksum, TarType,
     TarFeatureUnsupported, TarNumeric, TarPadding, PathUnicode}"

lemma tar_format_codes_intro [simp]:
  "TarTruncated \<in> tar_format_codes" "TarTerminator \<in> tar_format_codes"
  "TarDialect \<in> tar_format_codes" "TarChecksum \<in> tar_format_codes" "TarType \<in> tar_format_codes"
  "TarFeatureUnsupported \<in> tar_format_codes" "TarNumeric \<in> tar_format_codes"
  "TarPadding \<in> tar_format_codes" "PathUnicode \<in> tar_format_codes"
  by (simp_all add: tar_format_codes_def)

lemma parse_octal_format: "parse_octal field = Inl e \<Longrightarrow> code e \<in> tar_format_codes"
  using parse_octal_error_codes [of field e] by auto

lemma parse_text_field_format: "parse_text_field field b = Inl e \<Longrightarrow> code e \<in> tar_format_codes"
  using parse_text_field_error_code by simp

lemma parse_checksum_format: "parse_checksum field = Inl e \<Longrightarrow> code e \<in> tar_format_codes"
  by (auto simp: parse_checksum_def parse_octal_digits_def and_then_eq_Inl ok_or_eq_Inl
      split: if_splits)

lemma verify_checksum_format: "verify_checksum header = Inl e \<Longrightarrow> code e \<in> tar_format_codes"
  by (auto simp: verify_checksum_def and_then_eq_Inl map_err_eq_Inl parse_checksum_format
      split: if_splits)

lemma validate_owner_text_format: "validate_owner_text field = Inl e \<Longrightarrow> code e \<in> tar_format_codes"
  by (auto simp: validate_owner_text_def split: option.splits if_splits)

lemma parse_device_number_format: "parse_device_number field = Inl e \<Longrightarrow> code e \<in> tar_format_codes"
  by (auto simp: parse_device_number_def parse_octal_format split: if_splits)

lemma parse_header_numbers_format: "parse_header_numbers header = Inl e \<Longrightarrow> code e \<in> tar_format_codes"
  by (auto simp: parse_header_numbers_def and_then_eq_Inl parse_octal_format split: if_splits)

lemma check_devices_format: "check_devices_and_owners header = Inl e \<Longrightarrow> code e \<in> tar_format_codes"
  by (auto simp: check_devices_and_owners_def and_then_eq_Inl parse_device_number_format
      validate_owner_text_format split: if_splits)

lemma round_up_block_format: "round_up_block n = Inl e \<Longrightarrow> code e \<in> tar_format_codes"
  by (auto simp: round_up_block_def Let_def tar_checked_add_err split: if_splits)

lemmas field_format = parse_octal_format parse_text_field_format verify_checksum_format
  parse_header_numbers_format check_devices_format round_up_block_format

text \<open>Within the source a read fails only with an I/O error of the spool file.\<close>

lemma read_error_in_bounds:
  "\<lbrakk>read_exact_at sn offs n = Inl e; in_bounds sn offs n\<rbrakk> \<Longrightarrow> code e = SourceIo \<and> backing sn \<noteq> Memory"
  using read_exact_at_errors [of sn offs n e] by auto

lemma zero_range_error_in_bounds:
  "\<lbrakk>ensure_zero_range sn cur n = Inl e; snapshot_ok sn; cur + n \<le> snapshot_len sn\<rbrakk> \<Longrightarrow>
     code e = TarPadding \<or> code e = SourceIo \<and> backing sn \<noteq> Memory"
proof (induction sn cur n rule: ensure_zero_range.induct)
  case (1 sn cur n)
  let ?c = "min n 8192"
  from "1.prems"(1) have n: "n \<noteq> 0"
    by (subst (asm) ensure_zero_range.simps) (auto split: if_splits)
  have b: "in_bounds sn cur ?c"
    using "1.prems"(2,3) unfolding in_bounds_def snapshot_ok_def by linarith
  then have a: "tar_checked_add cur ?c = Inr (cur + ?c)" by (simp add: in_bounds_def)
  from "1.prems"(1) n a consider
    (read) "read_exact_at sn cur ?c = Inl e" | (pad) "e = finding_error TarPadding"
  | (rec) buf where "read_exact_at sn cur ?c = Inr buf" "all_zero buf"
      "ensure_zero_range sn (cur + ?c) (n - ?c) = Inl e"
    by (subst (asm) ensure_zero_range.simps) (auto simp: Let_def and_then_eq_Inl split: if_splits)
  then show ?case
  proof cases
    case read
    then show ?thesis using read_error_in_bounds b by blast
  next
    case pad
    then show ?thesis by simp
  next
    case rec
    then show ?thesis using "1.IH" [OF n refl rec(1) _ a] "1.prems" by simp
  qed
qed

definition io_or :: "snapshot \<Rightarrow> finding_code set \<Rightarrow> finding \<Rightarrow> bool" where
  "io_or sn cs e \<longleftrightarrow> code e \<in> cs \<or> code e = SourceIo \<and> backing sn \<noteq> Memory"

lemma io_or_on_member [simp]: "io_or sn cs (on_member nm e) = io_or sn cs e"
  by (simp add: io_or_def)

lemma io_or_mono: "\<lbrakk>io_or sn cs e; cs \<subseteq> ds\<rbrakk> \<Longrightarrow> io_or sn ds e"
  by (auto simp: io_or_def)

lemma read_header_block_error:
  "read_header_block sn offs = Inl e \<Longrightarrow> io_or sn tar_format_codes e"
  by (auto simp: read_header_block_def and_then_eq_Inl tar_checked_add_err io_or_def BLOCK_LEN_def
      in_bounds_def split: if_splits dest: read_error_in_bounds)

lemma read_second_block_error:
  "read_second_block sn offs = Inl e \<Longrightarrow> io_or sn tar_format_codes e"
  by (auto simp: read_second_block_def and_then_eq_Inl tar_checked_add_err io_or_def BLOCK_LEN_def
      in_bounds_def split: if_splits dest: read_error_in_bounds)

lemma zero_range_error:
  "\<lbrakk>ensure_zero_range sn cur n = Inl e; snapshot_ok sn; cur + n \<le> snapshot_len sn\<rbrakk> \<Longrightarrow>
     io_or sn tar_format_codes e"
  using zero_range_error_in_bounds [of sn cur n e] by (auto simp: io_or_def)

lemma place_member_error:
  assumes "place_member sn po sz nm = Inl e" "snapshot_ok sn"
  shows "io_or sn tar_format_codes e"
proof -
  from assms(1) consider (format) "code e \<in> tar_format_codes"
  | (trunc) "e = on_member nm (finding_error TarTruncated)"
  | (zero) p where "round_up_block sz = Inr p" "po + sz \<le> u64_max" "po + p \<le> snapshot_len sn"
      "map_err (on_member nm) (ensure_zero_range sn (po + sz) (p - sz)) = Inl e"
    by (auto simp: place_member_def Let_def and_then_eq_Inl tar_checked_add_err
        round_up_block_format split: if_splits)
  then show ?thesis
  proof cases
    case format
    then show ?thesis by (simp add: io_or_def)
  next
    case trunc
    then show ?thesis by (simp add: io_or_def)
  next
    case zero
    then have "p = sz + pad_len sz" using round_up_block_ok [of sz p] by simp
    moreover from zero(4) obtain e' where e': "ensure_zero_range sn (po + sz) (p - sz) = Inl e'"
      "e = on_member nm e'" by (auto simp: map_err_eq_Inl)
    ultimately have "io_or sn tar_format_codes e'"
      using zero(3) assms(2) by (intro zero_range_error [OF e'(1)]) simp_all
    then show ?thesis by (simp add: e'(2))
  qed
qed

lemma parse_header_error: "parse_header sha h offs = Inl e \<Longrightarrow> code e \<in> tar_format_codes"
  by (auto simp: parse_header_def ustar_is_dir_def ustar_raw_name_def Let_def and_then_eq_Inl
      ok_or_eq_Inl split: if_splits intro: field_format)

definition tar_quota_codes :: "finding_code set" where
  "tar_quota_codes = {QuotaFiles, QuotaMetadata}"

lemma ustar_step_error:
  assumes "ustar_step sha sn mf mm st = Inl e" "snapshot_ok sn"
  shows "io_or sn (tar_format_codes \<union> tar_quota_codes) e"
proof -
  from assms(1) consider (header) "read_header_block sn (us_offset st) = Inl e"
  | (finish) "ustar_finish sn mm st = Inl e"
  | (member) header where "ustar_member sha sn mf mm header st = Inl e"
    by (auto simp: ustar_step_def and_then_eq_Inl split: if_splits)
  then show ?thesis
  proof cases
    case header
    then show ?thesis by (auto dest!: read_header_block_error intro: io_or_mono)
  next
    case finish
    then consider (second) "read_second_block sn (us_offset st + 512) = Inl e"
    | (zero) e' where "read_second_block sn (us_offset st + 512) = Inr e'"
        "ensure_zero_range sn e' (snapshot_len sn - e') = Inl e"
    | (other) "code e \<in> tar_format_codes \<union> tar_quota_codes"
      by (auto simp: ustar_finish_def and_then_eq_Inl tar_checked_add_err BLOCK_LEN_def
          tar_quota_codes_def split: if_splits)
    then show ?thesis
    proof cases
      case zero
      with read_second_block_ok [OF zero(1)] have "io_or sn tar_format_codes e"
        using assms(2) by (intro zero_range_error [OF zero(2)]) auto
      then show ?thesis by (auto intro: io_or_mono)
    qed (auto simp: io_or_def dest!: read_second_block_error)
  next
    case member
    then consider (place) sz nm where "place_member sn (us_offset st + 512) sz nm = Inl e"
    | (other) "code e \<in> tar_format_codes \<union> tar_quota_codes"
      by (auto simp: ustar_member_def and_then_eq_Inl tar_checked_add_err BLOCK_LEN_def
          tar_quota_codes_def split: if_splits dest: parse_header_error)
    then show ?thesis
      using assms(2) by cases (auto simp: io_or_def dest!: place_member_error)
  qed
qed

end
