(* ===== verification/TarRender.thy ===== *)
theory TarRender
  imports Tar
begin

text \<open>
  A reference writer of portable ustar archives, and that the reader of \<open>tar.rs\<close> reads back what
  it writes. It is the specification of a producer, not code of the repository: it shows that the
  reader accepts every archive of plain files and directories, with any names the fields can hold.
\<close>

record ustar_entry =
  ue_name :: bytes
  ue_mode :: nat
  ue_mtime :: nat
  ue_is_dir :: bool
  ue_data :: bytes

primrec octal_digits :: "nat \<Rightarrow> nat \<Rightarrow> bytes" where
  "octal_digits 0 v = []"
| "octal_digits (Suc n) v = octal_digits n (v div 8) @ [of_nat (0x30 + v mod 8)]"

definition octal_field :: "nat \<Rightarrow> nat \<Rightarrow> bytes" where
  "octal_field width v = octal_digits (width - 1) v @ [0]"

definition header_front :: "ustar_entry \<Rightarrow> bytes" where
  "header_front e = ue_name e @ replicate (100 - length (ue_name e)) 0 @ octal_field 8 (ue_mode e) @
     octal_field 8 0 @ octal_field 8 0 @ octal_field 12 (length (ue_data e)) @
     octal_field 12 (ue_mtime e)"

definition header_rear :: "ustar_entry \<Rightarrow> bytes" where
  "header_rear e = [if ue_is_dir e then 0x35 else 0x30] @ replicate 100 0 @ USTAR_MAGIC @ replicate 247 0"

definition header_sum :: "ustar_entry \<Rightarrow> nat" where
  "header_sum e = sum_list (map unat (header_front e)) + 256 + sum_list (map unat (header_rear e))"

definition render_header :: "ustar_entry \<Rightarrow> bytes" where
  "render_header e = header_front e @ (octal_digits 6 (header_sum e) @ [0, 0x20]) @ header_rear e"

definition render_entry :: "ustar_entry \<Rightarrow> bytes" where
  "render_entry e = render_header e @ ue_data e @ replicate (pad_len (length (ue_data e))) 0"

definition render_archive :: "ustar_entry list \<Rightarrow> bytes" where
  "render_archive es = concat (map render_entry es) @ replicate 1024 0"

definition entry_ok :: "ustar_entry \<Rightarrow> bool" where
  "entry_ok e \<longleftrightarrow> ue_name e \<noteq> [] \<and> length (ue_name e) \<le> 100 \<and> 0 \<notin> set (ue_name e) \<and>
     from_utf8 (ue_name e) \<noteq> None \<and> ue_mode e \<le> 4095 \<and> ue_mtime e < 8 ^ 11 \<and>
     length (ue_data e) < 8 ^ 11 \<and> (ue_is_dir e \<longrightarrow> ue_data e = [])"

definition memory_snapshot :: "bytes \<Rightarrow> snapshot" where
  "memory_snapshot bs = \<lparr>content = bs, backing = Memory\<rparr>"

lemma memory_snapshot_sel [simp]:
  "content (memory_snapshot bs) = bs" "backing (memory_snapshot bs) = Memory" "reads_ok (memory_snapshot bs)"
  by (simp_all add: memory_snapshot_def)

subsection \<open>Fields\<close>

lemma length_octal_digits [simp]: "length (octal_digits n v) = n"
  by (induction n arbitrary: v) simp_all

lemma unat_octal_digit: "unat (of_nat (0x30 + v mod 8) :: u8) = 0x30 + v mod 8"
  using mod_less_divisor [of 8 v] by (intro unat_of_nat_u8) linarith

lemma octal_digits_octal: "list_all is_octal (octal_digits n v)"
proof (induction n arbitrary: v)
  case (Suc n)
  have "v mod 8 \<le> 7" by (simp add: less_Suc_eq_le [symmetric])
  then have "is_octal (of_nat (0x30 + v mod 8))" unfolding is_octal_def unat_octal_digit by simp
  with Suc show ?case by simp
qed simp

lemma octal_digits_value: "v < 8 ^ n \<Longrightarrow> digits_value 8 0 (octal_digits n v) = v"
proof (induction n arbitrary: v)
  case (Suc n)
  then have "v div 8 < 8 ^ n" by (simp add: less_mult_imp_div_less mult.commute)
  with Suc.IH have "digits_value 8 0 (octal_digits n (v div 8)) = v div 8" by simp
  moreover have "digits_value 8 (v div 8) [of_nat (0x30 + v mod 8)] = v"
    unfolding digits_value_simps unat_octal_digit by simp
  ultimately show ?case by (simp del: of_nat_add)
qed simp

lemma length_octal_field [simp]: "0 < w \<Longrightarrow> length (octal_field w v) = w"
  by (simp add: octal_field_def)

lemma parse_octal_field:
  assumes "1 < w" "w \<le> 22" "v < 8 ^ (w - 1)"
  shows "parse_octal (octal_field w v) = Inr v"
proof -
  have "octal_digits (w - 1) v \<noteq> []" using assms(1) by (metis length_octal_digits list.size(3) zero_less_diff less_irrefl)
  then have "parse_octal (octal_digits (w - 1) v @ [0]) = Inr (digits_value 8 0 (octal_digits (w - 1) v))"
    using assms by (intro parse_octal_complete octal_digits_octal) simp_all
  then show ?thesis using assms(3) by (simp add: octal_field_def octal_digits_value)
qed

lemma length_header_front: "length (ue_name e) \<le> 100 \<Longrightarrow> length (header_front e) = 148"
  by (simp add: header_front_def)

lemma length_header_rear: "length (header_rear e) = 356"
  by (simp add: header_rear_def USTAR_MAGIC_def)

lemma length_render_header: "length (ue_name e) \<le> 100 \<Longrightarrow> length (render_header e) = 512"
  by (simp add: render_header_def length_header_front length_header_rear)

lemma checksum_of_split:
  assumes "length front = 148" "length field = 8"
  shows "header_checksum_of (front @ field @ rear) = sum_list (map unat front) + 256 + sum_list (map unat rear)"
proof -
  let ?f = "\<lambda>(i, b :: u8). if 148 \<le> i \<and> i < 156 then 0x20 else unat b"
  have front: "map ?f (enumerate n xs) = map unat xs" if "n + length xs \<le> 148" for n xs
    using that by (induction xs arbitrary: n) auto
  have mid: "map ?f (enumerate n xs) = replicate (length xs) 0x20" if "148 \<le> n" "n + length xs \<le> 156" for n xs
    using that by (induction xs arbitrary: n) auto
  have rear: "map ?f (enumerate n xs) = map unat xs" if "156 \<le> n" for n xs
    using that by (induction xs arbitrary: n) auto
  show ?thesis
    using assms front [of 0 front] mid [of 148 field] rear [of 156 rear]
    by (simp add: header_checksum_of_def enumerate_append_eq sum_list_replicate)
qed

lemma header_sum_bound:
  assumes "length (ue_name e) \<le> 100"
  shows "header_sum e < 8 ^ 6"
proof -
  have "sum_list (map unat bs) \<le> length bs * 255" for bs :: bytes
  proof (induction bs)
    case (Cons b bs)
    then show ?case using unat_u8_less [of b] by simp
  qed simp
  from this [of "header_front e"] this [of "header_rear e"] show ?thesis
    by (simp add: header_sum_def length_header_front assms length_header_rear)
qed

lemma slice_replicate [slice_simps]: "slice_of a b (replicate n x) = replicate (min (b - a) (n - a)) x"
  by (simp add: slice_of_def)

lemma slice_append_exact [slice_simps]:
  "\<lbrakk>a = 0; b = length xs\<rbrakk> \<Longrightarrow> slice_of a b (xs @ ys) = xs"
  by (simp add: slice_of_def)

lemma header_front_slices:
  assumes "length (ue_name e) \<le> 100"
  shows "slice_of 0 100 (header_front e) = ue_name e @ replicate (100 - length (ue_name e)) 0"
    "slice_of 100 108 (header_front e) = octal_field 8 (ue_mode e)"
    "slice_of 108 116 (header_front e) = octal_field 8 0"
    "slice_of 116 124 (header_front e) = octal_field 8 0"
    "slice_of 124 136 (header_front e) = octal_field 12 (length (ue_data e))"
    "slice_of 136 148 (header_front e) = octal_field 12 (ue_mtime e)"
proof -
  define name where "name = ue_name e @ replicate (100 - length (ue_name e)) 0"
  have l: "length name = 100" using assms by (simp add: name_def)
  have f: "header_front e = name @ octal_field 8 (ue_mode e) @
     octal_field 8 0 @ octal_field 8 0 @ octal_field 12 (length (ue_data e)) @
     octal_field 12 (ue_mtime e)" by (simp add: header_front_def name_def)
  show "slice_of 0 100 (header_front e) = ue_name e @ replicate (100 - length (ue_name e)) 0"
    unfolding name_def [symmetric] f using l by (simp add: slice_simps)
  show "slice_of 100 108 (header_front e) = octal_field 8 (ue_mode e)"
    "slice_of 108 116 (header_front e) = octal_field 8 0"
    "slice_of 116 124 (header_front e) = octal_field 8 0"
    "slice_of 124 136 (header_front e) = octal_field 12 (length (ue_data e))"
    "slice_of 136 148 (header_front e) = octal_field 12 (ue_mtime e)"
    unfolding f by (simp_all add: slice_simps l)
qed

lemma render_header_slices:
  assumes "length (ue_name e) \<le> 100"
  shows "b \<le> 148 \<Longrightarrow> a \<le> b \<Longrightarrow> slice_of a b (render_header e) = slice_of a b (header_front e)"
    "slice_of 148 156 (render_header e) = octal_digits 6 (header_sum e) @ [0, 0x20]"
    "render_header e ! 156 = (if ue_is_dir e then 0x35 else 0x30)"
    "slice_of 157 257 (render_header e) = replicate 100 0"
    "slice_of 257 265 (render_header e) = USTAR_MAGIC"
    "265 \<le> a \<Longrightarrow> b \<le> 512 \<Longrightarrow> slice_of a b (render_header e) = replicate (b - a) 0"
proof -
  define chk where "chk = octal_digits 6 (header_sum e) @ [0, 0x20]"
  have c: "length chk = 8" by (simp add: chk_def)
  define ty :: u8 where "ty = (if ue_is_dir e then 0x35 else 0x30)"
  note l = length_header_front [OF assms]
  have r: "render_header e = header_front e @ chk @ [ty] @ replicate 100 0 @ USTAR_MAGIC @ replicate 247 0"
    by (simp add: render_header_def chk_def ty_def header_rear_def)
  have m: "length USTAR_MAGIC = 8" by (simp add: USTAR_MAGIC_def)
  show "slice_of a b (render_header e) = slice_of a b (header_front e)" if "b \<le> 148" "a \<le> b"
    unfolding r using that l by (simp add: slice_simps)
  show "slice_of 148 156 (render_header e) = octal_digits 6 (header_sum e) @ [0, 0x20]"
    unfolding chk_def [symmetric] r using l c by (simp add: slice_simps)
  show "render_header e ! 156 = (if ue_is_dir e then 0x35 else 0x30)"
    unfolding ty_def [symmetric] r using l c by (simp add: nth_append)
  have s: "slice_of 157 b' (render_header e) = slice_of 0 (b' - 157) (replicate 100 0 @ USTAR_MAGIC @ replicate 247 0)"
    for b' unfolding r using l c slice_append_suffix [of "[ty]" 1] by (simp add: slice_simps)
  show "slice_of 157 257 (render_header e) = replicate 100 0" by (simp add: s slice_simps)
  have t: "slice_of a b (render_header e) = slice_of (a - 257) (b - 257) (USTAR_MAGIC @ replicate 247 0)"
    if "257 \<le> a" for a b
  proof -
    have "length (header_front e @ chk @ [ty] @ replicate 100 0) = 257" using l c by simp
    with that slice_append_suffix [of "header_front e @ chk @ [ty] @ replicate 100 0" a b
        "USTAR_MAGIC @ replicate 247 0"] show ?thesis by (simp add: r l c)
  qed
  show "slice_of 257 265 (render_header e) = USTAR_MAGIC" by (simp add: t slice_simps m)
  show "slice_of a b (render_header e) = replicate (b - a) 0" if "265 \<le> a" "b \<le> 512"
    using that m by (simp add: t slice_simps min_def)
qed

lemma parse_render_header:
  assumes ok: "entry_ok e"
  shows "parse_header sha (render_header e) offs =
    Inr \<lparr>tm_raw_name = ue_name e, tm_name = the (from_utf8 (ue_name e)),
      tm_size = length (ue_data e), tm_mode = ue_mode e, tm_mtime = ue_mtime e,
      tm_header_checksum = header_sum e, tm_header_sha256 = hex_sha256 sha (render_header e),
      tm_header = \<lparr>offset = offs, rlen = 512\<rparr>, tm_payload = \<lparr>offset = 0, rlen = 0\<rparr>,
      tm_padding = \<lparr>offset = 0, rlen = 0\<rparr>, tm_is_dir = ue_is_dir e\<rparr>"
proof -
  from ok have n: "length (ue_name e) \<le> 100" by (simp add: entry_ok_def)
  note sl = render_header_slices [OF n] header_front_slices [OF n]
  have sum: "header_checksum_of (render_header e) = header_sum e"
    unfolding render_header_def using length_header_front [OF n]
    by (subst checksum_of_split) (simp_all add: header_sum_def)
  have "parse_checksum (octal_digits 6 (header_sum e) @ [0, 0x20]) = Inr (header_sum e)"
    using octal_digits_octal [of 6 "header_sum e"] header_sum_bound [OF n]
    by (simp add: parse_checksum_def nth_append parse_octal_digits_ok octal_digits_value u32_max_def)
  then have chk: "verify_checksum (render_header e) = Inr (header_sum e)"
    by (simp add: verify_checksum_def sl sum)
  have dir: "ustar_is_dir (render_header e) = Inr (ue_is_dir e)"
    by (simp add: ustar_is_dir_def sl)
  have num: "parse_header_numbers (render_header e) =
    Inr \<lparr>hn_mode = ue_mode e, hn_size = length (ue_data e), hn_mtime = ue_mtime e\<rparr>"
    using ok by (simp add: parse_header_numbers_def sl parse_octal_field entry_ok_def)
  have own: "check_devices_and_owners (render_header e) = Inr ()"
    by (simp add: check_devices_and_owners_def sl parse_device_number_def validate_owner_text_def
        numeral_eq_Suc)
  have "parse_text_field (ue_name e @ replicate (100 - length (ue_name e)) 0) False = Inr (ue_name e)"
    using ok by (auto simp: parse_text_field_ok entry_ok_def)
  moreover have "parse_text_field (replicate 155 0) True = Inr []"
    by (auto simp: parse_text_field_ok)
  ultimately have raw: "ustar_raw_name (render_header e) = Inr (ue_name e)"
    by (simp add: ustar_raw_name_def sl)
  show ?thesis
    using ok by (auto simp: parse_header_def sl chk dir num own raw entry_ok_def BLOCK_LEN_def)
qed

subsection \<open>Archives\<close>

text \<open>The members the reader is to find, placed one behind the other.\<close>

definition member_of :: "(bytes \<Rightarrow> bytes) \<Rightarrow> nat \<Rightarrow> ustar_entry \<Rightarrow> tar_member" where
  "member_of sha offs e = \<lparr>tm_raw_name = ue_name e, tm_name = the (from_utf8 (ue_name e)),
      tm_size = length (ue_data e), tm_mode = ue_mode e, tm_mtime = ue_mtime e,
      tm_header_checksum = header_sum e, tm_header_sha256 = hex_sha256 sha (render_header e),
      tm_header = \<lparr>offset = offs, rlen = 512\<rparr>,
      tm_payload = \<lparr>offset = offs + 512, rlen = length (ue_data e)\<rparr>,
      tm_padding = \<lparr>offset = offs + 512 + length (ue_data e), rlen = pad_len (length (ue_data e))\<rparr>,
      tm_is_dir = ue_is_dir e\<rparr>"

fun members_of :: "(bytes \<Rightarrow> bytes) \<Rightarrow> nat \<Rightarrow> ustar_entry list \<Rightarrow> tar_member list" where
  "members_of sha offs [] = []"
| "members_of sha offs (e # es) = member_of sha offs e # members_of sha (offs + length (render_entry e)) es"

definition archive_of :: "(bytes \<Rightarrow> bytes) \<Rightarrow> ustar_entry list \<Rightarrow> tar_archive" where
  "archive_of sha es =
     (let n = length (concat (map render_entry es))
      in \<lparr>ta_members = members_of sha 0 es, ta_member_records = \<lparr>offset = 0, rlen = n\<rparr>,
          ta_terminator = \<lparr>offset = n, rlen = 1024\<rparr>, ta_trailing_zeros = \<lparr>offset = n + 1024, rlen = 0\<rparr>,
          ta_metadata_bytes = 512 * length es + 1024\<rparr>)"

lemma length_render_entry:
  "length (ue_name e) \<le> 100 \<Longrightarrow>
     length (render_entry e) = 512 + length (ue_data e) + pad_len (length (ue_data e))"
  by (simp add: render_entry_def length_render_header)

lemma length_members_of [simp]: "length (members_of sha offs es) = length es"
  by (induction es arbitrary: offs) simp_all

lemma members_of_chain:
  "list_all entry_ok es \<Longrightarrow>
     chain offs (concat (map ustar_ranges (members_of sha offs es)))
       (offs + length (concat (map render_entry es)))"
proof (induction es arbitrary: offs)
  case (Cons e es)
  then have n: "length (ue_name e) \<le> 100" by (simp add: entry_ok_def)
  have "chain offs (ustar_ranges (member_of sha offs e)) (offs + length (render_entry e))"
    by (simp add: ustar_ranges_def member_of_def length_render_entry [OF n])
  moreover have "chain (offs + length (render_entry e))
      (concat (map ustar_ranges (members_of sha (offs + length (render_entry e)) es)))
      (offs + length (render_entry e) + length (concat (map render_entry es)))"
    using Cons by simp
  ultimately show ?case by (auto simp: add.assoc)
qed simp

lemma member_of_at:
  assumes ok: "entry_ok e" and c: "content sn = pre @ render_entry e @ post" and o: "offs = length pre"
  shows "ustar_member_at sha sn (member_of sha offs e)" "range_bytes sn (tm_payload (member_of sha offs e)) = ue_data e"
proof -
  from ok have n: "length (ue_name e) \<le> 100" by (simp add: entry_ok_def)
  note l = length_render_header [OF n]
  have "range_bytes sn \<lparr>offset = offs, rlen = 512\<rparr> = render_header e"
    "range_bytes sn \<lparr>offset = offs + 512, rlen = length (ue_data e)\<rparr> = ue_data e"
    "range_bytes sn \<lparr>offset = offs + 512 + length (ue_data e), rlen = pad_len (length (ue_data e))\<rparr> =
       replicate (pad_len (length (ue_data e))) 0"
    unfolding range_bytes_def c o render_entry_def using l by (simp_all add: slice_of_def)
  then show "ustar_member_at sha sn (member_of sha offs e)"
    "range_bytes sn (tm_payload (member_of sha offs e)) = ue_data e"
    using parse_render_header [OF ok, of sha offs]
    by (simp_all add: ustar_member_at_def member_of_def)
qed

lemma members_of_at:
  "\<lbrakk>list_all entry_ok es; content sn = pre @ concat (map render_entry es) @ post; offs = length pre\<rbrakk> \<Longrightarrow>
     list_all (ustar_member_at sha sn) (members_of sha offs es) \<and>
     map (\<lambda>m. range_bytes sn (tm_payload m)) (members_of sha offs es) = map ue_data es"
proof (induction es arbitrary: pre offs)
  case (Cons e es)
  let ?post = "concat (map render_entry es) @ post"
  have "content sn = pre @ render_entry e @ ?post" using Cons.prems by simp
  from member_of_at [OF _ this Cons.prems(3)] Cons.prems
  have "ustar_member_at sha sn (member_of sha offs e)"
    "range_bytes sn (tm_payload (member_of sha offs e)) = ue_data e" by simp_all
  then show ?case
    using Cons.IH [of "pre @ render_entry e" "offs + length (render_entry e)"] Cons.prems by simp
qed simp

lemma render_entries_aligned:
  "list_all entry_ok es \<Longrightarrow> length (concat (map render_entry es)) mod 512 = 0"
proof (induction es)
  case (Cons e es)
  have "512 dvd length (render_entry e)"
    using Cons.prems pad_len_dvd [of "length (ue_data e)"]
    by (simp add: length_render_entry entry_ok_def add.assoc)
  with Cons show ?case by (simp add: mod_eq_0_iff_dvd)
qed simp

lemma parse_render:
  assumes ok: "list_all entry_ok es" and len: "length (render_archive es) \<le> u64_max"
    and caps: "length es \<le> mf" "512 * length es + 1024 \<le> mm"
  shows "parse_ustar_portable_v1 sha (memory_snapshot (render_archive es)) mf mm = Inr (archive_of sha es)"
proof (rule ustar_spec_parse)
  let ?sn = "memory_snapshot (render_archive es)" and ?n = "length (concat (map render_entry es))"
  show "reads_ok ?sn" "snapshot_ok ?sn" using len by (simp_all add: snapshot_ok_def)
  have sl: "slice_of ?n (?n + 1024) (render_archive es) = replicate 1024 0"
    by (simp add: render_archive_def slice_of_def)
  have "list_all (ustar_member_at sha ?sn) (members_of sha 0 es)"
    using members_of_at [OF ok, of ?sn "[]" "replicate 1024 0" 0] by (simp add: render_archive_def)
  then show "ustar_spec sha ?sn mf mm (archive_of sha es)"
    using caps render_entries_aligned [OF ok] members_of_chain [OF ok, of 0 sha] sl
    by (auto simp: ustar_spec_def archive_of_def Let_def range_bytes_def list_all_iff render_archive_def
        mod_add_left_eq [symmetric] slice_of_def)
qed

subsection \<open>An example archive: a directory and a file\<close>

definition example_entries :: "ustar_entry list" where
  "example_entries =
     [\<lparr>ue_name = [0x64, 0x2F], ue_mode = 493, ue_mtime = 0, ue_is_dir = True, ue_data = []\<rparr>,
      \<lparr>ue_name = [0x64, 0x2F, 0x61], ue_mode = 420, ue_mtime = 7, ue_is_dir = False,
        ue_data = [0x68, 0x69, 0x0A]\<rparr>]"

abbreviation example_snapshot :: snapshot where
  "example_snapshot \<equiv> memory_snapshot (render_archive example_entries)"

lemma example_entries_ok: "list_all entry_ok example_entries"
  by (simp add: example_entries_def entry_ok_def from_utf8_ascii)

lemma example_length: "length (render_archive example_entries) = 2560"
  by (simp add: render_archive_def example_entries_def length_render_entry pad_len_def)

lemma example_parse:
  "parse_ustar_portable_v1 sha example_snapshot 2 2048 = Inr (archive_of sha example_entries)"
proof (rule parse_render [OF example_entries_ok])
  show "length (render_archive example_entries) \<le> u64_max" by (simp add: example_length u64_max_def)
qed (simp_all add: example_entries_def)

lemma example_ok: "snapshot_ok example_snapshot"
  by (simp add: snapshot_ok_def example_length u64_max_def)

subsection \<open>Properties of the portable ustar reader\<close>

text \<open>C1. The reader implements the description of a portable ustar archive: on a source whose reads succeed it
  accepts exactly the sources that have a description within the caps, and its result is that
  description. The loop always ends, so the equivalence is about termination too.\<close>

theorem ustar_parse_iff_spec:
  assumes "reads_ok sn" "snapshot_ok sn"
  shows "parse_ustar_portable_v1 sha sn mf mm = Inr a \<longleftrightarrow> ustar_spec sha sn mf mm a"
  using ustar_parse_spec ustar_spec_parse [OF assms] by blast

theorem ustar_parse_iff_spec_witness:
  "backing example_snapshot = Memory \<and> snapshot_ok example_snapshot \<and>
   ustar_spec id example_snapshot 2 2048 (archive_of id example_entries)"
  using ustar_parse_iff_spec [OF _ example_ok, of id 2 2048 "archive_of id example_entries"]
    example_parse [of id] example_ok by simp

text \<open>Whatever backs the source, the parts of an accepted archive partition it from the first
  byte to the last, everything but headers and payloads is zero, the metadata charged is the
  headers and the terminator, and every decoded field is in range: names are the nonempty,
  NUL-free UTF-8 reading of at most 256 bytes, sizes and times are below \<open>8 ^ 11\<close>, modes are
  permission bits and a directory has no payload.\<close>

theorem ustar_parse_sound:
  assumes "parse_ustar_portable_v1 sha sn mf mm = Inr a"
  shows "chain 0 (concat (map ustar_ranges (ta_members a)) @ [ta_terminator a, ta_trailing_zeros a])
      (snapshot_len sn) \<and>
    (\<forall>m \<in> set (ta_members a). all_zero (range_bytes sn (tm_padding m)) \<and> ustar_member_bounded m) \<and>
    all_zero (range_bytes sn (ta_terminator a)) \<and> all_zero (range_bytes sn (ta_trailing_zeros a)) \<and>
    ta_metadata_bytes a = 512 * length (ta_members a) + 1024 \<and>
    length (ta_members a) \<le> mf \<and> ta_metadata_bytes a \<le> mm"
proof -
  note spec = ustar_parse_spec [OF assms]
  have "ustar_member_bounded m" if m: "m \<in> set (ta_members a)" for m
  proof -
    from spec m have at: "ustar_member_at sha sn m" by (simp add: ustar_spec_def)
    have "tm_header m \<in> set (concat (map ustar_ranges (ta_members a)))"
      using m by (auto simp: ustar_ranges_def)
    then have "offset (tm_header m) + rlen (tm_header m) \<le> snapshot_len sn"
      using spec chain_bounds unfolding ustar_spec_def by (metis Un_iff set_append)
    with at have "length (range_bytes sn (tm_header m)) = 512"
      by (simp add: range_bytes_def ustar_member_at_def)
    with at have "ustar_member_bounded
        (m\<lparr>tm_payload := \<lparr>offset = 0, rlen = 0\<rparr>, tm_padding := \<lparr>offset = 0, rlen = 0\<rparr>\<rparr>)"
      by (metis parse_header_bounded ustar_member_at_def)
    then show ?thesis by (auto simp: ustar_member_bounded_def)
  qed
  with spec show ?thesis by (simp add: ustar_spec_def ustar_member_at_def)
qed

theorem ustar_parse_sound_witness:
  "chain 0 (concat (map ustar_ranges (ta_members (archive_of id example_entries))) @
     [ta_terminator (archive_of id example_entries), ta_trailing_zeros (archive_of id example_entries)])
     (snapshot_len example_snapshot)"
  using ustar_parse_sound [OF example_parse] by blast

text \<open>C29. The reader reads back what the reference writer writes: for every list of files and
  directories whose fields fit, the archive decodes to the same names, sizes, modes and times in
  the same order, the payload ranges hold the data, and caps that fit exactly are enough.\<close>

theorem ustar_round_trip:
  assumes "list_all entry_ok es" "length (render_archive es) \<le> u64_max"
  shows "\<exists>a. parse_ustar_portable_v1 sha (memory_snapshot (render_archive es)) (length es)
        (512 * length es + 1024) = Inr a \<and>
      map tm_raw_name (ta_members a) = map ue_name es \<and>
      map tm_mode (ta_members a) = map ue_mode es \<and>
      map tm_mtime (ta_members a) = map ue_mtime es \<and>
      map tm_is_dir (ta_members a) = map ue_is_dir es \<and>
      map (\<lambda>m. range_bytes (memory_snapshot (render_archive es)) (tm_payload m)) (ta_members a) =
        map ue_data es"
proof -
  have "map tm_raw_name (members_of sha offs es) = map ue_name es \<and>
      map tm_mode (members_of sha offs es) = map ue_mode es \<and>
      map tm_mtime (members_of sha offs es) = map ue_mtime es \<and>
      map tm_is_dir (members_of sha offs es) = map ue_is_dir es" for offs
    by (induction es arbitrary: offs) (simp_all add: member_of_def)
  with parse_render [OF assms order_refl order_refl, of sha]
    members_of_at [OF assms(1), of "memory_snapshot (render_archive es)" "[]" "replicate 1024 0" 0 sha]
  show ?thesis by (auto simp: render_archive_def archive_of_def Let_def)
qed

theorem ustar_round_trip_witness:
  "\<exists>a. parse_ustar_portable_v1 id example_snapshot 2 2048 = Inr a \<and>
      map tm_raw_name (ta_members a) = [[0x64, 0x2F], [0x64, 0x2F, 0x61]]"
proof -
  have "length example_entries = 2" "map ue_name example_entries = [[0x64, 0x2F], [0x64, 0x2F, 0x61]]"
    by (simp_all add: example_entries_def)
  moreover have "length (render_archive example_entries) \<le> u64_max"
    by (simp add: example_length u64_max_def)
  ultimately show ?thesis using ustar_round_trip [OF example_entries_ok, of id] by auto
qed

text \<open>C36. The caps are exact. An accepted archive is accepted again with the same result under any
  caps that its members and metadata fit; if only the metadata cap is too low the error is
  \<open>QuotaMetadata\<close>, if only the file cap is too low it is \<open>QuotaFiles\<close>.\<close>

theorem ustar_caps_exact:
  assumes "parse_ustar_portable_v1 sha sn mf mm = Inr a"
  shows "(length (ta_members a) \<le> mf' \<and> ta_metadata_bytes a \<le> mm' \<longrightarrow>
      parse_ustar_portable_v1 sha sn mf' mm' = Inr a) \<and>
    (length (ta_members a) \<le> mf' \<and> mm' < ta_metadata_bytes a \<longrightarrow>
      parse_ustar_portable_v1 sha sn mf' mm' = Inl (finding_error QuotaMetadata)) \<and>
    (mf' < length (ta_members a) \<and> ta_metadata_bytes a \<le> mm' \<longrightarrow>
      parse_ustar_portable_v1 sha sn mf' mm' = Inl (finding_error QuotaFiles))"
proof -
  let ?st = "\<lparr>us_members = [], us_offset = 0, us_metadata_bytes = 0\<rparr>"
  from assms have l: "ustar_loop sha sn mf mm ?st = Inr a"
    and len: "\<not> (snapshot_len sn < BLOCK_LEN * 2 \<or> snapshot_len sn mod BLOCK_LEN \<noteq> 0)"
    by (auto simp: parse_ustar_portable_v1_def split: if_splits)
  from ustar_caps.loop_caps [OF l, of mf' mm'] len show ?thesis
    by (simp add: parse_ustar_portable_v1_def)
qed

theorem ustar_caps_exact_witness:
  "parse_ustar_portable_v1 id example_snapshot 1 2048 = Inl (finding_error QuotaFiles) \<and>
   parse_ustar_portable_v1 id example_snapshot 2 2047 = Inl (finding_error QuotaMetadata)"
  using ustar_caps_exact [OF example_parse, of id 1 2048]
    ustar_caps_exact [OF example_parse, of id 2 2047]
  by (simp add: archive_of_def Let_def example_entries_def)

text \<open>C38. Errors of the reader are findings of the TAR format or of a quota. A read outside the
  source never happens, and only a file-backed source can fail with an I/O error.\<close>

theorem ustar_parse_errors:
  assumes "parse_ustar_portable_v1 sha sn mf mm = Inl e" "snapshot_ok sn"
  shows "code e \<in> {TarTruncated, TarTerminator, TarDialect, TarChecksum, TarType,
      TarFeatureUnsupported, TarNumeric, TarPadding, PathUnicode, QuotaFiles, QuotaMetadata} \<or>
    code e = SourceIo \<and> backing sn \<noteq> Memory"
proof -
  let ?st = "\<lparr>us_members = [], us_offset = 0, us_metadata_bytes = 0\<rparr>"
  have "io_or sn (tar_format_codes \<union> tar_quota_codes) e"
  proof (cases "ustar_loop sha sn mf mm ?st = Inl e")
    case True
    then have "\<exists>t. True \<and> ustar_step sha sn mf mm t = Inl e" by (rule ustar.loop_error) simp_all
    with assms(2) show ?thesis by (auto intro: ustar_step_error)
  next
    case False
    with assms(1) show ?thesis
      by (auto simp: parse_ustar_portable_v1_def io_or_def split: if_splits)
  qed
  then show ?thesis by (auto simp: io_or_def tar_format_codes_def tar_quota_codes_def)
qed

theorem ustar_parse_errors_witness:
  "\<exists>e. parse_ustar_portable_v1 id (memory_snapshot []) 2 2048 = Inl e \<and> code e = TarTruncated"
  using ustar_parse_errors [of id "memory_snapshot []" 2 2048 "finding_error TarTruncated"]
  by (simp add: parse_ustar_portable_v1_def BLOCK_LEN_def snapshot_ok_def)

text \<open>The terminator scan that the ratio accounting runs on rejected archives agrees with the
  reader: on every accepted archive it finds the same terminator and record padding.\<close>

theorem ratio_covering_agrees:
  assumes "parse_ustar_portable_v1 sha sn mf mm = Inr a"
  shows "verified_ratio_covering sn =
    Some \<lparr>rc_terminator = ta_terminator a, rc_trailing_zeros = ta_trailing_zeros a\<rparr>"
proof -
  let ?st = "\<lparr>us_members = [], us_offset = 0, us_metadata_bytes = 0\<rparr>"
  from assms have len: "\<not> (snapshot_len sn < BLOCK_LEN * 2 \<or> snapshot_len sn mod BLOCK_LEN \<noteq> 0)"
    and l: "ustar_loop sha sn mf mm ?st = Inr a"
    by (auto simp: parse_ustar_portable_v1_def split: if_splits)
  have "ok_or () (ratio_loop sn 0) =
      Inr \<lparr>rc_terminator = ta_terminator a, rc_trailing_zeros = ta_trailing_zeros a\<rparr>"
    using ustar_ratio.simulates [OF _ l, of 0] by simp
  with len show ?thesis by (simp add: verified_ratio_covering_def)
qed

theorem ratio_covering_agrees_witness:
  "verified_ratio_covering example_snapshot =
     Some \<lparr>rc_terminator = \<lparr>offset = 1536, rlen = 1024\<rparr>, rc_trailing_zeros = \<lparr>offset = 2560, rlen = 0\<rparr>\<rparr>"
  using ratio_covering_agrees [OF example_parse]
  by (simp add: archive_of_def Let_def example_entries_def length_render_entry pad_len_def)

end
