(* ===== verification/PaxRecords.thy ===== *)
theory PaxRecords
  imports TarFields Reader
begin

text \<open>
  The record grammar of a pax extension payload: \<open>parse_records\<close> of
  \<open>crates/sealr/src/tar_pax.rs\<close> with its value parsers. A payload holds one or two records
  \<open>length SP keyword = value LF\<close> whose length counts the whole record, with the keywords
  \<open>path\<close> and \<open>size\<close>, each at most once.
\<close>

datatype pax_keyword = KeywordPath | KeywordSize

datatype pax_record_value = PathValue rust_str | SizeValue nat

record pax_record =
  pr_keyword :: pax_keyword
  pr_value :: pax_record_value
  pr_record :: byte_range
  pr_value_range :: byte_range
  pr_raw_value_bytes :: bytes

definition MAX_EFFECTIVE_PATH_BYTES :: nat where
  "MAX_EFFECTIVE_PATH_BYTES = 8191"

definition MAX_RECORD_LENGTH_DIGITS :: nat where
  "MAX_RECORD_LENGTH_DIGITS = 20"

definition MAX_KEYWORD_BYTES :: nat where
  "MAX_KEYWORD_BYTES = 16"

definition pax_syntax :: finding where
  "pax_syntax = finding_error TarPaxRecord"

definition parse_decimal :: "bytes \<Rightarrow> finding + nat" where
  "parse_decimal digits = ok_or pax_syntax (fold_digits 10 0 digits)"

definition validate_path_bytes :: "bytes \<Rightarrow> finding + unit" where
  "validate_path_bytes path =
     (if path = [] then Inl (finding_error PathEmpty)
      else if length path > MAX_EFFECTIVE_PATH_BYTES then Inl (finding_error PathDepth)
      else if 0 \<in> set path then Inl (finding_error PathNul)
      else Inr ())"

definition validate_effective_path :: "rust_str \<Rightarrow> finding + unit" where
  "validate_effective_path path = validate_path_bytes (as_bytes path)"

definition parse_path_value :: "bytes \<Rightarrow> finding + rust_str" where
  "parse_path_value v =
     and_then (validate_path_bytes v) (\<lambda>_.
     ok_or (finding_error PathUnicode) (from_utf8 v))"

definition PATH_KEYWORD :: bytes where
  "PATH_KEYWORD = [0x70, 0x61, 0x74, 0x68]"

definition SIZE_KEYWORD :: bytes where
  "SIZE_KEYWORD = [0x73, 0x69, 0x7A, 0x65]"

definition canonical_decimal :: "bytes \<Rightarrow> bool" where
  "canonical_decimal v \<longleftrightarrow>
     \<not> (v = [] \<or> \<not> list_all is_digit v \<or> length v > 1 \<and> hd v = 0x30 \<or>
        length v > MAX_RECORD_LENGTH_DIGITS)"

record record_state =
  rs_records :: "pax_record list"
  rs_cursor :: nat
  rs_saw_path :: bool
  rs_saw_size :: bool

text \<open>The keyword and value of a body, with the flags of the keywords already seen.\<close>

definition parse_keyword_value ::
  "bytes \<Rightarrow> bytes \<Rightarrow> bool \<Rightarrow> bool \<Rightarrow> finding + pax_keyword \<times> pax_record_value \<times> bool \<times> bool"
where
  "parse_keyword_value keyword_bytes value_bytes saw_path saw_size =
     (if keyword_bytes = PATH_KEYWORD then
        if saw_path then Inl pax_syntax
        else and_then (parse_path_value value_bytes) (\<lambda>path.
             Inr (KeywordPath, PathValue path, True, saw_size))
      else if keyword_bytes = SIZE_KEYWORD then
        if saw_size then Inl pax_syntax
        else if \<not> canonical_decimal value_bytes then Inl pax_syntax
        else and_then (parse_decimal value_bytes) (\<lambda>n.
             Inr (KeywordSize, SizeValue n, saw_path, True))
      else Inl (pax_keyword_refusal keyword_bytes))"

text \<open>The length prefix of the record at \<open>length_start\<close>: the end of its digits and its value.\<close>

definition parse_record_length :: "bytes \<Rightarrow> nat \<Rightarrow> finding + nat \<times> nat" where
  "parse_record_length payload length_start =
     (let digits = takeWhile is_digit (drop length_start payload);
          cursor = length_start + length digits
      in if length digits > MAX_RECORD_LENGTH_DIGITS then Inl pax_syntax
         else if cursor = length_start \<or> cursor = length payload \<or> payload ! cursor \<noteq> 0x20
         then Inl pax_syntax
         else if length digits > 1 \<and> hd digits = 0x30 then Inl pax_syntax
         else and_then (parse_decimal digits) (\<lambda>record_len. Inr (cursor, record_len)))"

text \<open>The extent of the record: where its body starts, where the record ends and where in the
  body the equals sign is, searched in the first 16 bytes.\<close>

definition parse_record_frame :: "bytes \<Rightarrow> nat \<Rightarrow> finding + nat \<times> nat \<times> nat \<times> nat" where
  "parse_record_frame payload length_start =
     and_then (parse_record_length payload length_start) (\<lambda>(digits_end, record_len).
     and_then (ok_or pax_syntax (checked_add_u64 length_start record_len)) (\<lambda>record_end.
     if record_len = 0 \<or> record_end > length payload then Inl pax_syntax
     else if payload ! (record_end - 1) \<noteq> 0x0A then Inl pax_syntax
     else
     let cursor = digits_end + 1
     in if cursor \<ge> record_end - 1 then Inl pax_syntax
        else and_then (ok_or pax_syntax (position (\<lambda>b. b = 0x3D)
                 (take MAX_KEYWORD_BYTES (slice_of cursor (record_end - 1) payload)))) (\<lambda>equals.
             if equals = 0 then Inl pax_syntax
             else Inr (cursor, record_len, record_end, equals))))"

definition parse_record :: "bytes \<Rightarrow> nat \<Rightarrow> record_state \<Rightarrow> finding + record_state" where
  "parse_record payload payload_offset st =
     (if length (rs_records st) = 2 then Inl pax_syntax
      else
      let length_start = rs_cursor st in
      and_then (parse_record_frame payload length_start) (\<lambda>(cursor, record_len, record_end, equals).
      let body = slice_of cursor (record_end - 1) payload;
          keyword_bytes = take equals body;
          value_bytes = drop (equals + 1) body in
      and_then (ok_or pax_syntax (checked_add_u64 cursor (equals + 1))) (\<lambda>value_start.
      and_then (parse_keyword_value keyword_bytes value_bytes (rs_saw_path st) (rs_saw_size st))
        (\<lambda>(keyword, val, saw_path, saw_size).
      and_then (tar_checked_add payload_offset length_start) (\<lambda>source_offset.
      and_then (tar_checked_add payload_offset value_start) (\<lambda>value_offset.
      Inr \<lparr>rs_records = rs_records st @
             [\<lparr>pr_keyword = keyword, pr_value = val,
               pr_record = \<lparr>offset = source_offset, rlen = record_len\<rparr>,
               pr_value_range = \<lparr>offset = value_offset, rlen = length value_bytes\<rparr>,
               pr_raw_value_bytes = value_bytes\<rparr>],
           rs_cursor = record_end, rs_saw_path = saw_path, rs_saw_size = saw_size\<rparr>))))))"

definition parse_records_step ::
  "bytes \<Rightarrow> nat \<Rightarrow> record_state \<Rightarrow> finding + (record_state + pax_record list)" where
  "parse_records_step payload payload_offset st =
     (if rs_cursor st < length payload
      then and_then (parse_record payload payload_offset st) (\<lambda>st'. Inr (Inl st'))
      else if rs_records st = [] then Inl pax_syntax
      else Inr (Inr (rs_records st)))"

text \<open>The shape of a record: its digits, keyword and value.\<close>

definition record_bytes :: "bytes \<Rightarrow> bytes \<Rightarrow> bytes \<Rightarrow> bytes" where
  "record_bytes digits keyword v = digits @ [0x20] @ keyword @ [0x3D] @ v @ [0x0A]"

lemma length_record_bytes [simp]:
  "length (record_bytes digits keyword v) = length digits + length keyword + length v + 3"
  by (simp add: record_bytes_def)

lemma parse_decimal_ok:
  "parse_decimal ds = Inr n \<longleftrightarrow> n = digits_value 10 0 ds \<and> n \<le> u64_max"
  by (auto simp: parse_decimal_def fold_digits_eq)

lemma parse_record_length_ok:
  assumes "parse_record_length payload s = Inr (cur, n)"
  obtains digits where "cur = s + length digits" "cur < length payload"
    "slice_of s (cur + 1) payload = digits @ [0x20]" "canonical_decimal digits"
    "digits_value 10 0 digits = n" "n \<le> u64_max"
proof -
  define digits where "digits = takeWhile is_digit (drop s payload)"
  have len: "length digits \<le> length payload - s"
    unfolding digits_def using length_takeWhile_le [of is_digit "drop s payload"] by simp
  from assms have c: "cur = s + length digits" "digits \<noteq> []" "cur \<noteq> length payload"
    "payload ! cur = 0x20" "length digits \<le> 20" "\<not> (length digits > 1 \<and> hd digits = 0x30)"
    and n: "parse_decimal digits = Inr n"
    unfolding digits_def
    by (auto simp: parse_record_length_def Let_def and_then_eq_Inr MAX_RECORD_LENGTH_DIGITS_def
        split: if_splits)
  have "s \<le> length payload" using c(2) by (cases "s \<le> length payload") (auto simp: digits_def)
  with c(1,3) len have lt: "cur < length payload" by linarith
  have "take (length digits) (drop s payload) = digits"
    unfolding digits_def by (simp add: takeWhile_eq_take [symmetric])
  then have "slice_of s (cur + 1) payload = digits @ [0x20]"
    using c(1,4) lt by (simp add: slice_of_def take_Suc_conv_app_nth)
  moreover have "canonical_decimal digits"
    using c takeWhile_all [of is_digit "drop s payload"]
    by (auto simp: canonical_decimal_def MAX_RECORD_LENGTH_DIGITS_def digits_def [symmetric])
  ultimately show ?thesis using that [of digits] c lt n by (simp add: parse_decimal_ok)
qed

lemma slice_last: "\<lbrakk>a < b; b \<le> length xs\<rbrakk> \<Longrightarrow> slice_of a b xs = slice_of a (b - 1) xs @ [xs ! (b - 1)]"
proof -
  assume "a < b" "b \<le> length xs"
  then have "slice_of (b - 1) b xs = [xs ! (b - 1)]"
    by (simp add: slice_of_def take_Suc_conv_app_nth [of 0])
  with slice_slice_split [of a "b - 1" b xs] \<open>a < b\<close> show ?thesis by simp
qed

lemma parse_record_frame_ok:
  assumes "parse_record_frame payload s = Inr (cur, n, e, eq)"
  obtains digits where "cur = s + length digits + 1" "e = s + n" "e \<le> length payload" "cur + eq < e - 1"
    "slice_of s e payload = record_bytes digits (take eq (slice_of cur (e - 1) payload))
       (drop (eq + 1) (slice_of cur (e - 1) payload))"
    "canonical_decimal digits" "digits_value 10 0 digits = n"
    "0 < eq" "0x3D \<notin> set (take eq (slice_of cur (e - 1) payload))"
proof -
  let ?body = "slice_of cur (e - 1) payload"
  from assms obtain de where len: "parse_record_length payload s = Inr (de, n)"
    and e: "e = s + n" "n \<noteq> 0" "e \<le> length payload" "payload ! (e - 1) = 0x0A"
    and cur: "cur = de + 1" "cur < e - 1" and eq: "eq \<noteq> 0"
    and pos: "position (\<lambda>b. b = 0x3D) (take 16 ?body) = Some eq"
    by (auto simp: parse_record_frame_def Let_def and_then_eq_Inr MAX_KEYWORD_BYTES_def not_le
        split: if_splits prod.splits)
  from len obtain digits where d: "de = s + length digits" "de < length payload"
    "slice_of s (de + 1) payload = digits @ [0x20]" "canonical_decimal digits"
    "digits_value 10 0 digits = n" by (rule parse_record_length_ok)
  from pos have eqs: "eq < length ?body" "?body ! eq = 0x3D" "\<forall>j < eq. ?body ! j \<noteq> 0x3D"
    by (auto simp: position_Some_iff)
  have "?body = take eq ?body @ [0x3D] @ drop (eq + 1) ?body"
    using id_take_nth_drop [OF eqs(1)] eqs(2) by simp
  moreover have "slice_of s e payload = slice_of s cur payload @ ?body @ [0x0A]"
    using cur e d(1) slice_slice_split [of s cur e payload] slice_last [of cur e payload] by simp
  ultimately have "slice_of s e payload = record_bytes digits (take eq ?body) (drop (eq + 1) ?body)"
    using d(3) cur(1) by (simp add: record_bytes_def)
  moreover have "0x3D \<notin> set (take eq ?body)"
    using eqs(1,3) by (auto simp: in_set_conv_nth)
  moreover have "cur + eq < e - 1" using eqs(1) cur(2) by simp arith
  ultimately show ?thesis using that [of digits] e cur d eq by simp
qed

text \<open>What one iteration appends.\<close>

definition record_at :: "bytes \<Rightarrow> nat \<Rightarrow> pax_record \<Rightarrow> bool" where
  "record_at payload po r \<longleftrightarrow>
     po \<le> offset (pr_record r) \<and>
     (\<exists>digits keyword.
        slice_of (offset (pr_record r) - po) (offset (pr_record r) - po + rlen (pr_record r)) payload =
          record_bytes digits keyword (pr_raw_value_bytes r) \<and>
        canonical_decimal digits \<and> digits_value 10 0 digits = rlen (pr_record r) \<and>
        keyword = (case pr_keyword r of KeywordPath \<Rightarrow> PATH_KEYWORD | KeywordSize \<Rightarrow> SIZE_KEYWORD) \<and>
        pr_value_range r =
          \<lparr>offset = offset (pr_record r) + length digits + length keyword + 2,
           rlen = length (pr_raw_value_bytes r)\<rparr>) \<and>
     (case pr_value r of
        PathValue p \<Rightarrow> pr_keyword r = KeywordPath \<and> from_utf8 (pr_raw_value_bytes r) = Some p \<and>
          pr_raw_value_bytes r \<noteq> [] \<and> length (pr_raw_value_bytes r) \<le> 8191 \<and>
          0 \<notin> set (pr_raw_value_bytes r)
      | SizeValue n \<Rightarrow> pr_keyword r = KeywordSize \<and> canonical_decimal (pr_raw_value_bytes r) \<and>
          digits_value 10 0 (pr_raw_value_bytes r) = n \<and> n \<le> u64_max)"

lemma parse_keyword_value_ok:
  assumes "parse_keyword_value k v saw_path saw_size = Inr (kw, val, sp, ss)"
  shows "case kw of
      KeywordPath \<Rightarrow> k = PATH_KEYWORD \<and> \<not> saw_path \<and> sp \<and> ss = saw_size \<and>
        (\<exists>p. val = PathValue p \<and> from_utf8 v = Some p \<and> v \<noteq> [] \<and> length v \<le> 8191 \<and> 0 \<notin> set v)
    | KeywordSize \<Rightarrow> k = SIZE_KEYWORD \<and> \<not> saw_size \<and> ss \<and> sp = saw_path \<and>
        (\<exists>n. val = SizeValue n \<and> canonical_decimal v \<and> digits_value 10 0 v = n \<and> n \<le> u64_max)"
  using assms
  by (auto simp: parse_keyword_value_def parse_path_value_def validate_path_bytes_def and_then_eq_Inr
      parse_decimal_ok MAX_EFFECTIVE_PATH_BYTES_def split: if_splits)

lemma parse_record_ok:
  assumes "parse_record payload po st = Inr st'"
  obtains r where "rs_records st' = rs_records st @ [r]" "record_at payload po r"
    "pr_record r = \<lparr>offset = po + rs_cursor st, rlen = rs_cursor st' - rs_cursor st\<rparr>"
    "rs_cursor st < rs_cursor st'" "rs_cursor st' \<le> length payload" "length (rs_records st) \<noteq> 2"
    "pr_keyword r = KeywordPath \<longrightarrow> \<not> rs_saw_path st"
    "pr_keyword r = KeywordSize \<longrightarrow> \<not> rs_saw_size st"
    "rs_saw_path st' \<longleftrightarrow> rs_saw_path st \<or> pr_keyword r = KeywordPath"
    "rs_saw_size st' \<longleftrightarrow> rs_saw_size st \<or> pr_keyword r = KeywordSize"
proof -
  define s where "s = rs_cursor st"
  from assms obtain cur n e eq kw val sp ss where n2: "length (rs_records st) \<noteq> 2"
    and fr: "parse_record_frame payload s = Inr (cur, n, e, eq)"
    and kv: "parse_keyword_value (take eq (slice_of cur (e - 1) payload))
      (drop (eq + 1) (slice_of cur (e - 1) payload)) (rs_saw_path st) (rs_saw_size st) =
      Inr (kw, val, sp, ss)"
    and st': "st' = \<lparr>rs_records = rs_records st @
             [\<lparr>pr_keyword = kw, pr_value = val, pr_record = \<lparr>offset = po + s, rlen = n\<rparr>,
               pr_value_range = \<lparr>offset = po + (cur + (eq + 1)),
                 rlen = length (drop (eq + 1) (slice_of cur (e - 1) payload))\<rparr>,
               pr_raw_value_bytes = drop (eq + 1) (slice_of cur (e - 1) payload)\<rparr>],
           rs_cursor = e, rs_saw_path = sp, rs_saw_size = ss\<rparr>"
    unfolding s_def
    by (auto simp: parse_record_def Let_def and_then_eq_Inr split: if_splits prod.splits)
  define k where "k = take eq (slice_of cur (e - 1) payload)"
  define v where "v = drop (eq + 1) (slice_of cur (e - 1) payload)"
  from fr obtain digits where f: "cur = s + length digits + 1" "e = s + n" "e \<le> length payload"
    "cur + eq < e - 1" "slice_of s e payload = record_bytes digits k v"
    "canonical_decimal digits" "digits_value 10 0 digits = n"
    unfolding k_def v_def by (rule parse_record_frame_ok)
  have lk: "length k = eq" using f(3,4) by (simp add: k_def)
  let ?r = "\<lparr>pr_keyword = kw, pr_value = val, pr_record = \<lparr>offset = po + s, rlen = n\<rparr>,
     pr_value_range = \<lparr>offset = po + (cur + (eq + 1)), rlen = length v\<rparr>, pr_raw_value_bytes = v\<rparr>"
  note kv = parse_keyword_value_ok [OF kv [folded k_def v_def]]
  have "record_at payload po ?r"
    using f kv lk by (auto simp: record_at_def split: pax_keyword.splits intro!: exI [of _ digits])
  moreover have sel: "rs_records st' = rs_records st @ [?r]" "rs_cursor st' = s + n"
    "rs_saw_path st' = sp" "rs_saw_size st' = ss"
    by (simp_all add: st' v_def f(2))
  moreover have "pr_record ?r = \<lparr>offset = po + rs_cursor st, rlen = rs_cursor st' - rs_cursor st\<rparr>"
    by (simp add: sel(2) s_def)
  moreover have "rs_cursor st < rs_cursor st'" "rs_cursor st' \<le> length payload"
    using f(1-4) by (simp_all add: sel(2) s_def)
  ultimately show ?thesis
    using that [of ?r] n2 kv by (cases kw) simp_all
qed

function parse_records_loop ::
  "bytes \<Rightarrow> nat \<Rightarrow> record_state \<Rightarrow> finding + pax_record list" where
  "parse_records_loop payload payload_offset st =
     and_then (parse_records_step payload payload_offset st) (\<lambda>next.
       case next of
         Inl st' \<Rightarrow> parse_records_loop payload payload_offset st'
       | Inr records \<Rightarrow> Inr records)"
  by pat_completeness auto
termination
  by (relation "measure (\<lambda>(payload, po, st). length payload - rs_cursor st)")
    (auto simp: parse_records_step_def and_then_eq_Inr split: if_splits elim!: parse_record_ok)

declare parse_records_loop.simps [simp del]

definition parse_records :: "bytes \<Rightarrow> nat \<Rightarrow> finding + pax_record list" where
  "parse_records payload payload_offset =
     parse_records_loop payload payload_offset
       \<lparr>rs_records = [], rs_cursor = 0, rs_saw_path = False, rs_saw_size = False\<rparr>"

interpretation pax_records: block_reader "parse_records_step payload po" "parse_records_loop payload po"
    rs_cursor "length payload" for payload po
proof
  show "rs_cursor st < rs_cursor st' \<and> rs_cursor st' \<le> length payload"
    if "parse_records_step payload po st = Inr (Inl st')" for st st'
    using that by (auto simp: parse_records_step_def and_then_eq_Inr split: if_splits elim!: parse_record_ok)
qed (subst parse_records_loop.simps, rule refl)

subsection \<open>The language of payloads\<close>

definition records_spec :: "bytes \<Rightarrow> nat \<Rightarrow> pax_record list \<Rightarrow> bool" where
  "records_spec payload po recs \<longleftrightarrow>
     chain po (map pr_record recs) (po + length payload) \<and> recs \<noteq> [] \<and> length recs \<le> 2 \<and>
     distinct (map pr_keyword recs) \<and> (\<forall>r \<in> set recs. record_at payload po r)"

definition record_inv :: "bytes \<Rightarrow> nat \<Rightarrow> record_state \<Rightarrow> bool" where
  "record_inv payload po st \<longleftrightarrow>
     chain po (map pr_record (rs_records st)) (po + rs_cursor st) \<and> rs_cursor st \<le> length payload \<and>
     length (rs_records st) \<le> 2 \<and> distinct (map pr_keyword (rs_records st)) \<and>
     (rs_saw_path st \<longleftrightarrow> KeywordPath \<in> pr_keyword ` set (rs_records st)) \<and>
     (rs_saw_size st \<longleftrightarrow> KeywordSize \<in> pr_keyword ` set (rs_records st)) \<and>
     (\<forall>r \<in> set (rs_records st). record_at payload po r)"

lemma record_inv_step:
  assumes "record_inv payload po st" "parse_records_step payload po st = Inr (Inl st')"
  shows "record_inv payload po st'"
proof -
  from assms(2) have "parse_record payload po st = Inr st'"
    by (auto simp: parse_records_step_def and_then_eq_Inr split: if_splits)
  then obtain r where r: "rs_records st' = rs_records st @ [r]" "record_at payload po r"
    "pr_record r = \<lparr>offset = po + rs_cursor st, rlen = rs_cursor st' - rs_cursor st\<rparr>"
    "rs_cursor st < rs_cursor st'" "rs_cursor st' \<le> length payload" "length (rs_records st) \<noteq> 2"
    and k: "pr_keyword r = KeywordPath \<longrightarrow> \<not> rs_saw_path st"
    "pr_keyword r = KeywordSize \<longrightarrow> \<not> rs_saw_size st"
    "rs_saw_path st' \<longleftrightarrow> rs_saw_path st \<or> pr_keyword r = KeywordPath"
    "rs_saw_size st' \<longleftrightarrow> rs_saw_size st \<or> pr_keyword r = KeywordSize"
    by (rule parse_record_ok)
  from assms(1) k(1,2) have "pr_keyword r \<notin> pr_keyword ` set (rs_records st)"
    by (cases "pr_keyword r") (auto simp: record_inv_def)
  then show ?thesis
    using assms(1) r k(3,4) by (auto simp: record_inv_def)
qed

lemma parse_records_spec:
  assumes "parse_records payload po = Inr recs"
  shows "records_spec payload po recs"
proof -
  let ?st = "\<lparr>rs_records = [], rs_cursor = 0, rs_saw_path = False, rs_saw_size = False\<rparr>"
  have "record_inv payload po ?st" by (simp add: record_inv_def)
  with assms have "\<exists>st. record_inv payload po st \<and> parse_records_step payload po st = Inr (Inr recs)"
    unfolding parse_records_def by (rule pax_records.loop_invariant) (rule record_inv_step)
  then show ?thesis
    by (auto simp: records_spec_def record_inv_def parse_records_step_def and_then_eq_Inr
        split: if_splits)
qed

lemma drop_slice: "e \<le> length xs \<Longrightarrow> s \<le> e \<Longrightarrow> drop s xs = slice_of s e xs @ drop e xs"
  by (metis slice_of_def append_take_drop_id drop_drop le_add_diff_inverse2)

lemma canonical_decimal_digits:
  "canonical_decimal ds \<longleftrightarrow> ds \<noteq> [] \<and> list_all is_digit ds \<and> (length ds > 1 \<longrightarrow> hd ds \<noteq> 0x30) \<and>
     length ds \<le> 20"
  by (auto simp: canonical_decimal_def MAX_RECORD_LENGTH_DIGITS_def)

lemma parse_record_frame_complete:
  assumes e: "e = s + n" "e \<le> length payload" and u: "length payload \<le> u64_max"
    and b: "slice_of s e payload = record_bytes digits k v"
    and d: "canonical_decimal digits" "digits_value 10 0 digits = n"
    and k: "k \<noteq> []" "length k < 16" "0x3D \<notin> set k"
  shows "parse_record_frame payload s = Inr (s + length digits + 1, n, e, length k) \<and>
    slice_of (s + length digits + 1) (e - 1) payload = k @ [0x3D] @ v"
proof -
  let ?cur = "s + length digits + 1"
  have n: "n = length digits + length k + length v + 3"
    using arg_cong [OF b, of length] e by simp
  have dr: "drop s payload = digits @ 0x20 # k @ 0x3D # v @ 0x0A # drop e payload"
    using drop_slice [OF e(2), of s] e(1) b by (simp add: record_bytes_def)
  have nth: "payload ! (s + i) = (digits @ 0x20 # k @ 0x3D # v @ 0x0A # drop e payload) ! i"
    if "s + i < length payload" for i
    using that dr nth_drop [of s payload i] by simp
  have tw: "takeWhile is_digit (drop s payload) = digits"
    using d(1) by (simp add: dr takeWhile_append list_all_iff canonical_decimal_digits is_digit_def)
  have sp: "payload ! (s + length digits) = 0x20" using n e nth [of "length digits"] by simp
  have nl: "payload ! (e - 1) = 0x0A"
  proof -
    define pre where "pre = digits @ 0x20 # k @ 0x3D # v"
    have "drop s payload = pre @ 0x0A # drop e payload" by (simp add: dr pre_def)
    moreover have "length pre = n - 1" using n by (simp add: pre_def)
    ultimately have "drop s payload ! (n - 1) = 0x0A" by (metis nth_append_length)
    then show ?thesis using e n by simp
  qed
  have len: "parse_record_length payload s = Inr (s + length digits, n)"
    using d tw sp e n u
    by (simp add: parse_record_length_def Let_def canonical_decimal_digits parse_decimal_def
        fold_digits_eq MAX_RECORD_LENGTH_DIGITS_def)
  have body: "slice_of ?cur (e - 1) payload = k @ [0x3D] @ v"
  proof -
    have "drop ?cur payload = k @ 0x3D # v @ 0x0A # drop e payload"
      using arg_cong [OF dr, of "drop (length digits + 1)"] by (simp add: add.commute add.left_commute)
    moreover have "e - 1 - ?cur = length k + 1 + length v" using e n by simp
    ultimately show ?thesis by (simp add: slice_of_def)
  qed
  have "position (\<lambda>b. b = 0x3D) (take 16 (k @ [0x3D] @ v)) = Some (length k)"
    using k by (auto simp: position_Some_iff nth_append take_append dest: nth_mem)
  then have "parse_record_frame payload s = Inr (?cur, n, e, length k)"
    using len e n nl body k(1) u
    by (simp add: parse_record_frame_def Let_def MAX_KEYWORD_BYTES_def checked_add_u64_def)
  with body show ?thesis by simp
qed

lemma parse_keyword_value_complete:
  assumes "record_at payload po r"
    "pr_keyword r = KeywordPath \<longrightarrow> \<not> saw_path" "pr_keyword r = KeywordSize \<longrightarrow> \<not> saw_size"
  shows "parse_keyword_value
      (case pr_keyword r of KeywordPath \<Rightarrow> PATH_KEYWORD | KeywordSize \<Rightarrow> SIZE_KEYWORD)
      (pr_raw_value_bytes r) saw_path saw_size =
    Inr (pr_keyword r, pr_value r, saw_path \<or> pr_keyword r = KeywordPath,
      saw_size \<or> pr_keyword r = KeywordSize)"
proof -
  have "PATH_KEYWORD \<noteq> SIZE_KEYWORD" by (simp add: PATH_KEYWORD_def SIZE_KEYWORD_def)
  then show ?thesis
    using assms
    by (auto simp: record_at_def parse_keyword_value_def parse_path_value_def validate_path_bytes_def
        MAX_EFFECTIVE_PATH_BYTES_def parse_decimal_def fold_digits_eq
        split: pax_keyword.splits pax_record_value.splits)
qed

lemma parse_record_complete:
  assumes at: "record_at payload po r" and u: "po + length payload \<le> u64_max"
    and r: "pr_record r = \<lparr>offset = po + rs_cursor st, rlen = n\<rparr>" "rs_cursor st + n \<le> length payload"
    and n2: "length (rs_records st) \<noteq> 2"
    and seen: "pr_keyword r = KeywordPath \<longrightarrow> \<not> rs_saw_path st" "pr_keyword r = KeywordSize \<longrightarrow> \<not> rs_saw_size st"
  shows "parse_record payload po st = Inr \<lparr>rs_records = rs_records st @ [r], rs_cursor = rs_cursor st + n,
    rs_saw_path = (rs_saw_path st \<or> pr_keyword r = KeywordPath),
    rs_saw_size = (rs_saw_size st \<or> pr_keyword r = KeywordSize)\<rparr>"
proof -
  let ?s = "rs_cursor st" and ?v = "pr_raw_value_bytes r"
  let ?k = "case pr_keyword r of KeywordPath \<Rightarrow> PATH_KEYWORD | KeywordSize \<Rightarrow> SIZE_KEYWORD"
  from at r obtain digits where b: "slice_of ?s (?s + n) payload = record_bytes digits ?k ?v"
    and d: "canonical_decimal digits" "digits_value 10 0 digits = n"
    and vr: "pr_value_range r = \<lparr>offset = po + ?s + length digits + length ?k + 2, rlen = length ?v\<rparr>"
    by (auto simp: record_at_def)
  have kk: "?k \<noteq> []" "length ?k < 16" "0x3D \<notin> set ?k"
    by (auto simp: PATH_KEYWORD_def SIZE_KEYWORD_def split: pax_keyword.splits)
  have u': "length payload \<le> u64_max" using u by simp
  note fr = parse_record_frame_complete [OF refl r(2) u' b d kk]
  have len: "n = length digits + length ?k + length ?v + 3"
    using arg_cong [OF b, of length] r(2) by simp
  define cur where "cur = ?s + length digits + 1"
  define k where "k = ?k"
  define v where "v = ?v"
  define vs where "vs = cur + (length k + 1)"
  have body: "slice_of cur (?s + n - 1) payload = k @ 0x3D # v"
    and frame: "parse_record_frame payload ?s = Inr (cur, n, ?s + n, length k)"
    using fr by (simp_all add: cur_def k_def v_def)
  have req: "\<lparr>pr_keyword = pr_keyword r, pr_value = pr_value r,
      pr_record = \<lparr>offset = po + ?s, rlen = n\<rparr>,
      pr_value_range = \<lparr>offset = po + vs, rlen = length v\<rparr>, pr_raw_value_bytes = v\<rparr> = r"
    by (rule pax_record.equality) (simp_all add: r(1) vr vs_def cur_def k_def v_def)
  have adds: "checked_add_u64 cur (length k + 1) = Some vs" "tar_checked_add po ?s = Inr (po + ?s)"
    "tar_checked_add po vs = Inr (po + vs)"
    using u' u r(2) len by (simp_all add: vs_def cur_def k_def v_def)
  have kv: "parse_keyword_value k v (rs_saw_path st) (rs_saw_size st) =
    Inr (pr_keyword r, pr_value r, rs_saw_path st \<or> pr_keyword r = KeywordPath,
      rs_saw_size st \<or> pr_keyword r = KeywordSize)"
    unfolding k_def v_def by (rule parse_keyword_value_complete [OF at seen])
  show ?thesis
    unfolding parse_record_def Let_def frame and_then_simps prod.case body adds ok_or_simps
    using n2 by (simp add: kv req)
qed

lemma parse_records_loop_complete:
  assumes "po + length payload \<le> u64_max"
    and "chain (po + rs_cursor st) (map pr_record rs) (po + length payload)"
    and "\<forall>r \<in> set rs. record_at payload po r" "length (rs_records st) + length rs \<le> 2"
    and "distinct (map pr_keyword rs)" "rs_records st @ rs \<noteq> []"
    and "rs_saw_path st \<longrightarrow> KeywordPath \<notin> pr_keyword ` set rs"
      "rs_saw_size st \<longrightarrow> KeywordSize \<notin> pr_keyword ` set rs"
  shows "parse_records_loop payload po st = Inr (rs_records st @ rs)"
  using assms(2-)
proof (induction rs arbitrary: st)
  case Nil
  then have "parse_records_step payload po st = Inr (Inr (rs_records st))"
    by (auto simp: parse_records_step_def)
  then show ?case by (simp add: pax_records.loop_simps(3))
next
  case (Cons r rs)
  define n where "n = rlen (pr_record r)"
  from Cons.prems(1) have r: "pr_record r = \<lparr>offset = po + rs_cursor st, rlen = n\<rparr>"
    by (cases "pr_record r") (simp add: n_def)
  from Cons.prems(2) have at: "record_at payload po r" by simp
  from Cons.prems(1) r have ch: "chain (po + rs_cursor st + n) (map pr_record rs) (po + length payload)"
    by simp
  have le: "rs_cursor st + n \<le> length payload" using chain_sum [OF ch] by simp
  from at have "0 < n"
  proof -
    from at r obtain ds k where "slice_of (rs_cursor st) (rs_cursor st + n) payload =
        record_bytes ds k (pr_raw_value_bytes r)" by (auto simp: record_at_def)
    from arg_cong [OF this, of length] show ?thesis by simp
  qed
  let ?st = "\<lparr>rs_records = rs_records st @ [r], rs_cursor = rs_cursor st + n,
    rs_saw_path = (rs_saw_path st \<or> pr_keyword r = KeywordPath),
    rs_saw_size = (rs_saw_size st \<or> pr_keyword r = KeywordSize)\<rparr>"
  have "parse_record payload po st = Inr ?st"
    using parse_record_complete [OF at assms(1) r le] Cons.prems by force
  with \<open>0 < n\<close> le have "parse_records_step payload po st = Inr (Inl ?st)"
    by (simp add: parse_records_step_def)
  moreover have "parse_records_loop payload po ?st = Inr (rs_records ?st @ rs)"
    using ch Cons.prems by (intro Cons.IH) (auto simp: add.assoc)
  ultimately show ?case by (simp add: pax_records.loop_simps(2))
qed

subsection \<open>Properties\<close>

text \<open>C28. The pax record parser accepts exactly the payloads of one or two complete records
  \<open>length SP keyword = value LF\<close> that follow each other through the whole payload, with canonical
  decimal lengths that count the whole record, distinct keywords, and values that decode; the
  records it returns are those, with their positions in the source.\<close>

theorem parse_records_iff_spec:
  assumes "po + length payload \<le> u64_max"
  shows "parse_records payload po = Inr recs \<longleftrightarrow> records_spec payload po recs"
proof
  assume "parse_records payload po = Inr recs"
  then show "records_spec payload po recs" by (rule parse_records_spec)
next
  assume spec: "records_spec payload po recs"
  let ?st = "\<lparr>rs_records = [], rs_cursor = 0, rs_saw_path = False, rs_saw_size = False\<rparr>"
  have "parse_records_loop payload po ?st = Inr (rs_records ?st @ recs)"
    using spec by (intro parse_records_loop_complete assms) (auto simp: records_spec_def)
  then show "parse_records payload po = Inr recs" by (simp add: parse_records_def)
qed

definition example_payload :: bytes where
  "example_payload = [0x31, 0x30, 0x20] @ SIZE_KEYWORD @ [0x3D, 0x37, 0x0A]"

theorem parse_records_iff_spec_witness:
  "parse_records example_payload 512 =
     Inr [\<lparr>pr_keyword = KeywordSize, pr_value = SizeValue 7, pr_record = \<lparr>offset = 512, rlen = 10\<rparr>,
           pr_value_range = \<lparr>offset = 520, rlen = 1\<rparr>, pr_raw_value_bytes = [0x37]\<rparr>]"
proof -
  let ?r = "\<lparr>pr_keyword = KeywordSize, pr_value = SizeValue 7, pr_record = \<lparr>offset = 512, rlen = 10\<rparr>,
     pr_value_range = \<lparr>offset = 520, rlen = 1\<rparr>, pr_raw_value_bytes = [0x37]\<rparr>"
  have "record_at example_payload 512 ?r"
    unfolding record_at_def
    by (auto simp: example_payload_def SIZE_KEYWORD_def slice_of_def record_bytes_def
        canonical_decimal_digits is_digit_def u64_max_def intro!: exI [of _ "[0x31, 0x30]"])
  then have "records_spec example_payload 512 [?r]"
    by (simp add: records_spec_def example_payload_def SIZE_KEYWORD_def)
  moreover have "512 + length example_payload \<le> u64_max"
    by (simp add: example_payload_def SIZE_KEYWORD_def u64_max_def)
  ultimately show ?thesis using parse_records_iff_spec by blast
qed

end
