(* ===== verification/TarPax.thy ===== *)
theory TarPax
  imports TarRender PaxRecords
begin

text \<open>
  The portable pax reader, \<open>crates/sealr/src/tar_pax.rs\<close>: ustar members with global and local
  extension headers that override the path and the size of members. The mutable variables of
  \<open>parse_pax_portable_v1\<close> are the record \<^emph>\<open>pax_state\<close>; one iteration of its loop is
  \<^emph>\<open>pax_step\<close>, whose branches are \<^emph>\<open>pax_finish\<close>, \<^emph>\<open>pax_extension_step\<close> and
  \<^emph>\<open>pax_member_step\<close>.
\<close>

datatype pax_extension_kind = ExtGlobal | ExtLocal

datatype pax_value_source =
    SrcUstar
  | SrcGlobal (extension_index: nat) (record_index: nat)
  | SrcLocal (extension_index: nat) (record_index: nat)

record pax_extension =
  px_kind :: pax_extension_kind
  px_raw_name :: bytes
  px_header_checksum :: nat
  px_header_sha256 :: string
  px_payload_sha256 :: string
  px_mode :: nat
  px_mtime :: nat
  px_header :: byte_range
  px_payload :: byte_range
  px_padding :: byte_range
  px_records :: "pax_record list"

record pax_member =
  pm_raw_name :: bytes
  pm_name :: rust_str
  pm_header_size :: nat
  pm_size :: nat
  pm_mode :: nat
  pm_mtime :: nat
  pm_header_checksum :: nat
  pm_header_sha256 :: string
  pm_header :: byte_range
  pm_payload :: byte_range
  pm_padding :: byte_range
  pm_is_dir :: bool
  pm_path_source :: pax_value_source
  pm_size_source :: pax_value_source

record pax_archive =
  pa_members :: "pax_member list"
  pa_extensions :: "pax_extension list"
  pa_member_records :: byte_range
  pa_terminator :: byte_range
  pa_trailing_zeros :: byte_range
  pa_metadata_bytes :: nat

datatype header_kind = FileKind | DirectoryKind | GlobalExtension | LocalExtension

record parsed_header =
  ph_raw_name :: bytes
  ph_size :: nat
  ph_mode :: nat
  ph_mtime :: nat
  ph_header_checksum :: nat
  ph_header_sha256 :: string
  ph_header :: byte_range
  ph_kind :: header_kind

record 'a state_value =
  sv_value :: 'a
  sv_extension_index :: nat
  sv_record_index :: nat

record override_state =
  os_path :: "rust_str state_value option"
  os_size :: "nat state_value option"

definition default_override :: override_state where
  "default_override = \<lparr>os_path = None, os_size = None\<rparr>"

definition override_record :: "nat \<Rightarrow> override_state \<Rightarrow> nat \<times> pax_record \<Rightarrow> override_state" where
  "override_record ext_index st ir =
     (case ir of (rec_index, rec) \<Rightarrow>
        case pr_value rec of
          PathValue path \<Rightarrow>
            st\<lparr>os_path := Some \<lparr>sv_value = path, sv_extension_index = ext_index,
                 sv_record_index = rec_index\<rparr>\<rparr>
        | SizeValue sz \<Rightarrow>
            st\<lparr>os_size := Some \<lparr>sv_value = sz, sv_extension_index = ext_index,
                 sv_record_index = rec_index\<rparr>\<rparr>)"

definition from_records :: "pax_record list \<Rightarrow> nat \<Rightarrow> override_state" where
  "from_records records ext_index =
     foldl (override_record ext_index) default_override (enumerate 0 records)"

definition update_from :: "override_state \<Rightarrow> override_state \<Rightarrow> override_state" where
  "update_from self update =
     \<lparr>os_path = (case os_path update of None \<Rightarrow> os_path self | Some v \<Rightarrow> Some v),
      os_size = (case os_size update of None \<Rightarrow> os_size self | Some v \<Rightarrow> Some v)\<rparr>"

definition MAX_EXTENSION_BYTES :: nat where
  "MAX_EXTENSION_BYTES = 64 * 1024"

definition MAX_EXTENSIONS :: nat where
  "MAX_EXTENSIONS = 1024"

definition add_metadata :: "nat \<Rightarrow> nat \<Rightarrow> nat \<Rightarrow> finding + nat" where
  "add_metadata current amount cap =
     and_then (ok_or (finding_error QuotaOverflow) (checked_add_u64 current amount)) (\<lambda>total.
     if total > cap then Inl (finding_error QuotaMetadata) else Inr total)"

definition resolve_path ::
  "bytes \<Rightarrow> override_state \<Rightarrow> override_state option \<Rightarrow> finding + rust_str \<times> pax_value_source" where
  "resolve_path raw_name globals local =
     and_then
       (case Option.bind local os_path of
          Some v \<Rightarrow> Inr (sv_value v, SrcLocal (sv_extension_index v) (sv_record_index v))
        | None \<Rightarrow>
            (case os_path globals of
               Some v \<Rightarrow> Inr (sv_value v, SrcGlobal (sv_extension_index v) (sv_record_index v))
             | None \<Rightarrow>
                 and_then (ok_or (finding_error PathUnicode) (from_utf8 raw_name)) (\<lambda>name.
                 Inr (name, SrcUstar))))
       (\<lambda>(name, origin).
        and_then (validate_effective_path name) (\<lambda>_. Inr (name, origin)))"

definition resolve_size ::
  "nat \<Rightarrow> override_state \<Rightarrow> override_state option \<Rightarrow> nat \<times> pax_value_source" where
  "resolve_size header_size globals local =
     (case Option.bind local os_size of
        Some v \<Rightarrow> (sv_value v, SrcLocal (sv_extension_index v) (sv_record_index v))
      | None \<Rightarrow>
          (case os_size globals of
             Some v \<Rightarrow> (sv_value v, SrcGlobal (sv_extension_index v) (sv_record_index v))
           | None \<Rightarrow> (header_size, SrcUstar)))"

definition pax_known_unsupported_typeflag :: "u8 \<Rightarrow> bool" where
  "pax_known_unsupported_typeflag typeflag \<longleftrightarrow>
     typeflag \<in> set [0x31, 0x32, 0x33, 0x34, 0x36, 0x37, 0x4C, 0x4B, 0x53, 0x44, 0x4D, 0x4E, 0x56]"

definition pax_kind :: "bytes \<Rightarrow> finding + header_kind" where
  "pax_kind header =
     (let typeflag = header ! 156
      in if typeflag = 0x30 \<or> typeflag = 0 then Inr FileKind
         else if typeflag = 0x35 then Inr DirectoryKind
         else if typeflag = 0x67 then Inr GlobalExtension
         else if typeflag = 0x78 then Inr LocalExtension
         else if pax_known_unsupported_typeflag typeflag
              then Inl (unsupported_typeflag_finding header typeflag)
         else Inl (finding_error TarType))"

definition pax_parse_header :: "(bytes \<Rightarrow> bytes) \<Rightarrow> bytes \<Rightarrow> nat \<Rightarrow> finding + parsed_header" where
  "pax_parse_header sha header offs =
     (if slice_of 257 265 header \<noteq> USTAR_MAGIC then Inl (finding_error TarDialect)
      else
      and_then (verify_checksum header) (\<lambda>stored_checksum.
      and_then (pax_kind header) (\<lambda>kind.
      if \<not> all_zero (slice_of 500 512 header) then Inl (finding_error TarDialect)
      else if \<not> all_zero (slice_of 157 257 header) then Inl (finding_error TarType)
      else
      and_then (parse_header_numbers header) (\<lambda>numbers.
      if kind = DirectoryKind \<and> hn_size numbers \<noteq> 0 then Inl (finding_error TarType)
      else
      and_then (check_devices_and_owners header) (\<lambda>_.
      and_then (ustar_raw_name header) (\<lambda>raw_name.
      Inr \<lparr>ph_raw_name = raw_name, ph_size = hn_size numbers, ph_mode = hn_mode numbers,
           ph_mtime = hn_mtime numbers, ph_header_checksum = stored_checksum,
           ph_header_sha256 = hex_sha256 sha header,
           ph_header = \<lparr>offset = offs, rlen = BLOCK_LEN\<rparr>, ph_kind = kind\<rparr>))))))"

record pax_state =
  ps_members :: "pax_member list"
  ps_extensions :: "pax_extension list"
  ps_globals :: override_state
  ps_pending_local :: "override_state option"
  ps_offset :: nat
  ps_metadata_bytes :: nat

definition pax_finish :: "snapshot \<Rightarrow> nat \<Rightarrow> pax_state \<Rightarrow> finding + pax_archive" where
  "pax_finish sn max_metadata_bytes st =
     (if ps_pending_local st \<noteq> None then Inl (finding_error TarPaxState)
      else
      and_then (read_second_block sn (ps_offset st + BLOCK_LEN)) (\<lambda>second_end.
      and_then (add_metadata (ps_metadata_bytes st) (BLOCK_LEN * 2) max_metadata_bytes) (\<lambda>metadata_bytes.
      and_then (ensure_zero_range sn second_end (snapshot_len sn - second_end)) (\<lambda>_.
      Inr \<lparr>pa_members = ps_members st, pa_extensions = ps_extensions st,
           pa_member_records = \<lparr>offset = 0, rlen = ps_offset st\<rparr>,
           pa_terminator = \<lparr>offset = ps_offset st, rlen = BLOCK_LEN * 2\<rparr>,
           pa_trailing_zeros = \<lparr>offset = second_end, rlen = snapshot_len sn - second_end\<rparr>,
           pa_metadata_bytes = metadata_bytes\<rparr>))))"

text \<open>The payload of an extension: its bytes, records, padding and the end of its blocks.\<close>

definition pax_extension_body ::
  "snapshot \<Rightarrow> nat \<Rightarrow> nat \<Rightarrow> nat \<Rightarrow> nat \<Rightarrow> finding + nat \<times> bytes \<times> pax_record list \<times> nat \<times> nat" where
  "pax_extension_body sn max_metadata_bytes metadata payload_offset sz =
     and_then (round_up_block sz) (\<lambda>padded_size.
     and_then (tar_checked_add payload_offset sz) (\<lambda>payload_end.
     and_then (tar_checked_add payload_offset padded_size) (\<lambda>record_end.
     if record_end > snapshot_len sn then Inl (finding_error TarTruncated)
     else
     and_then (tar_checked_add BLOCK_LEN padded_size) (\<lambda>amount.
     and_then (add_metadata metadata amount max_metadata_bytes) (\<lambda>metadata_bytes.
     and_then (read_exact_at sn payload_offset sz) (\<lambda>payload.
     and_then (parse_records payload payload_offset) (\<lambda>records.
     and_then (ensure_zero_range sn payload_end (padded_size - sz)) (\<lambda>_.
     Inr (metadata_bytes, payload, records, padded_size - sz, record_end)))))))))"

definition pax_extension_step ::
  "(bytes \<Rightarrow> bytes) \<Rightarrow> snapshot \<Rightarrow> nat \<Rightarrow> parsed_header \<Rightarrow> pax_extension_kind \<Rightarrow> pax_state \<Rightarrow>
     finding + pax_state" where
  "pax_extension_step sha sn max_metadata_bytes header kind st =
     (if ps_pending_local st \<noteq> None then Inl (finding_error TarPaxState)
      else if ph_size header > MAX_EXTENSION_BYTES then Inl (finding_error QuotaMetadata)
      else if length (ps_extensions st) \<ge> MAX_EXTENSIONS then Inl (finding_error QuotaMetadata)
      else
      let payload_offset = ps_offset st + BLOCK_LEN in
      and_then (pax_extension_body sn max_metadata_bytes (ps_metadata_bytes st) payload_offset
          (ph_size header))
        (\<lambda>(metadata_bytes, payload, records, padding_len, record_end).
      let ext_index = length (ps_extensions st);
          extension = \<lparr>px_kind = kind, px_raw_name = ph_raw_name header,
            px_header_checksum = ph_header_checksum header,
            px_header_sha256 = ph_header_sha256 header, px_payload_sha256 = hex_sha256 sha payload,
            px_mode = ph_mode header, px_mtime = ph_mtime header, px_header = ph_header header,
            px_payload = \<lparr>offset = payload_offset, rlen = ph_size header\<rparr>,
            px_padding = \<lparr>offset = payload_offset + ph_size header, rlen = padding_len\<rparr>,
            px_records = records\<rparr>;
          update = from_records records ext_index
      in Inr (st\<lparr>ps_extensions := ps_extensions st @ [extension],
                 ps_globals := (case kind of ExtGlobal \<Rightarrow> update_from (ps_globals st) update
                                | ExtLocal \<Rightarrow> ps_globals st),
                 ps_pending_local := (case kind of ExtGlobal \<Rightarrow> ps_pending_local st
                                      | ExtLocal \<Rightarrow> Some update),
                 ps_offset := record_end, ps_metadata_bytes := metadata_bytes\<rparr>)))"

definition pax_member_step ::
  "snapshot \<Rightarrow> nat \<Rightarrow> nat \<Rightarrow> parsed_header \<Rightarrow> bool \<Rightarrow> pax_state \<Rightarrow> finding + pax_state" where
  "pax_member_step sn max_files max_metadata_bytes header is_dir st =
     (if length (ps_members st) \<ge> max_files then Inl (finding_error QuotaFiles)
      else
      and_then (add_metadata (ps_metadata_bytes st) BLOCK_LEN max_metadata_bytes) (\<lambda>metadata_bytes.
      and_then (resolve_path (ph_raw_name header) (ps_globals st) (ps_pending_local st))
        (\<lambda>(name, path_origin).
      let (sz, size_origin) = resolve_size (ph_size header) (ps_globals st) (ps_pending_local st) in
      if is_dir \<and> sz \<noteq> 0 then Inl (on_member name (finding_error TarType))
      else
      and_then (place_member sn (ps_offset st + BLOCK_LEN) sz name) (\<lambda>pl.
      Inr (st\<lparr>ps_members := ps_members st @
                [\<lparr>pm_raw_name = ph_raw_name header, pm_name = name, pm_header_size = ph_size header,
                  pm_size = sz, pm_mode = ph_mode header, pm_mtime = ph_mtime header,
                  pm_header_checksum = ph_header_checksum header,
                  pm_header_sha256 = ph_header_sha256 header, pm_header = ph_header header,
                  pm_payload = pl_payload pl, pm_padding = pl_padding pl, pm_is_dir = is_dir,
                  pm_path_source = path_origin, pm_size_source = size_origin\<rparr>],
              ps_pending_local := None, ps_offset := pl_end pl,
              ps_metadata_bytes := metadata_bytes\<rparr>)))))"

definition pax_entry_step ::
  "(bytes \<Rightarrow> bytes) \<Rightarrow> snapshot \<Rightarrow> nat \<Rightarrow> nat \<Rightarrow> parsed_header \<Rightarrow> pax_state \<Rightarrow> finding + pax_state" where
  "pax_entry_step sha sn max_files max_metadata_bytes header st =
     (case ph_kind header of
        GlobalExtension \<Rightarrow> pax_extension_step sha sn max_metadata_bytes header ExtGlobal st
      | LocalExtension \<Rightarrow> pax_extension_step sha sn max_metadata_bytes header ExtLocal st
      | FileKind \<Rightarrow> pax_member_step sn max_files max_metadata_bytes header False st
      | DirectoryKind \<Rightarrow> pax_member_step sn max_files max_metadata_bytes header True st)"

definition pax_step ::
  "(bytes \<Rightarrow> bytes) \<Rightarrow> snapshot \<Rightarrow> nat \<Rightarrow> nat \<Rightarrow> pax_state \<Rightarrow> finding + (pax_state + pax_archive)" where
  "pax_step sha sn max_files max_metadata_bytes st =
     and_then (read_header_block sn (ps_offset st)) (\<lambda>header_bytes.
     if is_zero_block header_bytes
     then and_then (pax_finish sn max_metadata_bytes st) (\<lambda>archive. Inr (Inr archive))
     else
     and_then (pax_parse_header sha header_bytes (ps_offset st)) (\<lambda>header.
     and_then (pax_entry_step sha sn max_files max_metadata_bytes header st) (\<lambda>st'.
     Inr (Inl st'))))"

subsection \<open>One iteration\<close>

lemma add_metadata_ok [simp]:
  "add_metadata a b cap = Inr t \<longleftrightarrow> t = a + b \<and> t \<le> cap \<and> t \<le> u64_max"
  by (auto simp: add_metadata_def and_then_eq_Inr split: if_splits)

lemma add_metadata_eq [simp]:
  "\<lbrakk>a + b \<le> cap; a + b \<le> u64_max\<rbrakk> \<Longrightarrow> add_metadata a b cap = Inr (a + b)"
  by simp

lemma pax_extension_body_ok:
  assumes "pax_extension_body sn mm md po sz = Inr (md', payload, recs, pad, e)"
  shows "pad = pad_len sz" "e = po + sz + pad_len sz" "e \<le> snapshot_len sn"
    "md' = md + 512 + sz + pad_len sz" "md' \<le> mm" "md' \<le> u64_max"
    "payload = slice_of po (po + sz) (content sn)" "length payload = sz"
    "parse_records payload po = Inr recs"
    "all_zero (slice_of (po + sz) e (content sn))" "e \<le> u64_max"
proof -
  from assms obtain p where p: "round_up_block sz = Inr p" "po + sz \<le> u64_max" "po + p \<le> u64_max"
    "po + p \<le> snapshot_len sn" "md' = md + (512 + p)" "md' \<le> mm" "md' \<le> u64_max"
    and r: "read_exact_at sn po sz = Inr payload" and recs: "parse_records payload po = Inr recs"
    and z: "ensure_zero_range sn (po + sz) (p - sz) = Inr ()" and pad: "pad = p - sz" and e: "e = po + p"
    by (auto simp: pax_extension_body_def and_then_eq_Inr BLOCK_LEN_def split: if_splits)
  have p': "p = sz + pad_len sz" using p(1,2) round_up_block_ok [of sz p] by simp
  then have "po + sz \<le> snapshot_len sn" using p(4) by simp
  from ensure_zero_range_ok [OF z this] read_exact_at_ok [OF r] p p' recs pad e
  show "pad = pad_len sz" "e = po + sz + pad_len sz" "e \<le> snapshot_len sn"
    "md' = md + 512 + sz + pad_len sz" "md' \<le> mm" "md' \<le> u64_max"
    "payload = slice_of po (po + sz) (content sn)" "length payload = sz"
    "parse_records payload po = Inr recs"
    "all_zero (slice_of (po + sz) e (content sn))" "e \<le> u64_max"
    by (simp_all add: add.assoc)
qed

text \<open>An extension and a member that stand in the source at their header offset.\<close>

definition pax_extension_at :: "(bytes \<Rightarrow> bytes) \<Rightarrow> snapshot \<Rightarrow> pax_extension \<Rightarrow> bool" where
  "pax_extension_at sha sn x \<longleftrightarrow>
     rlen (px_payload x) \<le> 65536 \<and> rlen (px_padding x) = pad_len (rlen (px_payload x)) \<and>
     all_zero (range_bytes sn (px_padding x)) \<and>
     pax_parse_header sha (range_bytes sn (px_header x)) (offset (px_header x)) =
       Inr \<lparr>ph_raw_name = px_raw_name x, ph_size = rlen (px_payload x), ph_mode = px_mode x,
            ph_mtime = px_mtime x, ph_header_checksum = px_header_checksum x,
            ph_header_sha256 = px_header_sha256 x, ph_header = px_header x,
            ph_kind = (case px_kind x of ExtGlobal \<Rightarrow> GlobalExtension | ExtLocal \<Rightarrow> LocalExtension)\<rparr> \<and>
     px_payload_sha256 x = hex_sha256 sha (range_bytes sn (px_payload x)) \<and>
     parse_records (range_bytes sn (px_payload x)) (offset (px_payload x)) = Inr (px_records x)"

definition pax_member_at :: "(bytes \<Rightarrow> bytes) \<Rightarrow> snapshot \<Rightarrow> pax_member \<Rightarrow> bool" where
  "pax_member_at sha sn m \<longleftrightarrow>
     rlen (pm_payload m) = pm_size m \<and> rlen (pm_padding m) = pad_len (pm_size m) \<and>
     all_zero (range_bytes sn (pm_padding m)) \<and>
     pax_parse_header sha (range_bytes sn (pm_header m)) (offset (pm_header m)) =
       Inr \<lparr>ph_raw_name = pm_raw_name m, ph_size = pm_header_size m, ph_mode = pm_mode m,
            ph_mtime = pm_mtime m, ph_header_checksum = pm_header_checksum m,
            ph_header_sha256 = pm_header_sha256 m, ph_header = pm_header m,
            ph_kind = (if pm_is_dir m then DirectoryKind else FileKind)\<rparr> \<and>
     (pm_is_dir m \<longrightarrow> pm_size m = 0) \<and> validate_effective_path (pm_name m) = Inr ()"

definition extension_ranges :: "pax_extension \<Rightarrow> byte_range list" where
  "extension_ranges x = [px_header x, px_payload x, px_padding x]"

definition member_ranges :: "pax_member \<Rightarrow> byte_range list" where
  "member_ranges m = [pm_header m, pm_payload m, pm_padding m]"

definition extension_cost :: "pax_extension \<Rightarrow> nat" where
  "extension_cost x = 512 + rlen (px_payload x) + rlen (px_padding x)"

lemma pax_parse_header_ok:
  assumes "pax_parse_header sha header offs = Inr h"
  shows "slice_of 257 265 header = USTAR_MAGIC" "header_checksum_matches header"
    "ph_header h = \<lparr>offset = offs, rlen = 512\<rparr>" "pax_kind header = Inr (ph_kind h)"
    "ustar_raw_name header = Inr (ph_raw_name h)"
    "parse_octal (slice_of 124 136 header) = Inr (ph_size h)" "ph_mode h \<le> 4095"
    "ph_kind h = DirectoryKind \<Longrightarrow> ph_size h = 0"
    "ph_header_sha256 h = hex_sha256 sha header" "ph_header_checksum h = header_checksum_of header"
  using assms
  by (auto simp: pax_parse_header_def parse_header_numbers_def and_then_eq_Inr BLOCK_LEN_def
      split: if_splits dest: verify_checksum_ok)

lemma pax_extension_step_ok:
  assumes "pax_extension_step sha sn mm h kind st = Inr st'"
    and hb: "header = slice_of (ps_offset st) (ps_offset st + 512) (content sn)"
    and h: "pax_parse_header sha header (ps_offset st) = Inr h"
    and k: "ph_kind h = (case kind of ExtGlobal \<Rightarrow> GlobalExtension | ExtLocal \<Rightarrow> LocalExtension)"
  obtains x where "px_kind x = kind" "pax_extension_at sha sn x"
    "chain (ps_offset st) (extension_ranges x) (ps_offset st')" "ps_offset st' \<le> snapshot_len sn"
    "ps_pending_local st = None" "length (ps_extensions st) < 1024"
    "rlen (px_header x) = 512"
    "ps_metadata_bytes st' = ps_metadata_bytes st + extension_cost x"
    "ps_metadata_bytes st' \<le> mm" "ps_members st' = ps_members st"
    "ps_extensions st' = ps_extensions st @ [x]"
    "ps_globals st' = (case kind of
       ExtGlobal \<Rightarrow> update_from (ps_globals st) (from_records (px_records x) (length (ps_extensions st)))
     | ExtLocal \<Rightarrow> ps_globals st)"
    "ps_pending_local st' = (case kind of ExtGlobal \<Rightarrow> None
     | ExtLocal \<Rightarrow> Some (from_records (px_records x) (length (ps_extensions st))))"
proof -
  let ?o = "ps_offset st"
  from assms(1) obtain md payload recs pad e where pend: "ps_pending_local st = None"
    and sz: "ph_size h \<le> 65536" and n: "length (ps_extensions st) < 1024"
    and body: "pax_extension_body sn mm (ps_metadata_bytes st) (?o + 512) (ph_size h) =
      Inr (md, payload, recs, pad, e)"
    and st': "st' = st\<lparr>ps_extensions := ps_extensions st @
        [\<lparr>px_kind = kind, px_raw_name = ph_raw_name h,
            px_header_checksum = ph_header_checksum h,
            px_header_sha256 = ph_header_sha256 h, px_payload_sha256 = hex_sha256 sha payload,
            px_mode = ph_mode h, px_mtime = ph_mtime h, px_header = ph_header h,
            px_payload = \<lparr>offset = ?o + 512, rlen = ph_size h\<rparr>,
            px_padding = \<lparr>offset = ?o + 512 + ph_size h, rlen = pad\<rparr>,
            px_records = recs\<rparr>],
       ps_globals := (case kind of ExtGlobal \<Rightarrow> update_from (ps_globals st)
           (from_records recs (length (ps_extensions st))) | ExtLocal \<Rightarrow> ps_globals st),
       ps_pending_local := (case kind of ExtGlobal \<Rightarrow> ps_pending_local st
          | ExtLocal \<Rightarrow> Some (from_records recs (length (ps_extensions st)))),
       ps_offset := e, ps_metadata_bytes := md\<rparr>"
    by (auto simp: pax_extension_step_def Let_def and_then_eq_Inr BLOCK_LEN_def
        MAX_EXTENSION_BYTES_def MAX_EXTENSIONS_def not_le not_less split: if_splits prod.splits)
  note body = pax_extension_body_ok [OF body]
  note h' = pax_parse_header_ok [OF h]
  let ?x = "\<lparr>px_kind = kind, px_raw_name = ph_raw_name h,
            px_header_checksum = ph_header_checksum h,
            px_header_sha256 = ph_header_sha256 h, px_payload_sha256 = hex_sha256 sha payload,
            px_mode = ph_mode h, px_mtime = ph_mtime h, px_header = ph_header h,
            px_payload = \<lparr>offset = ?o + 512, rlen = ph_size h\<rparr>,
            px_padding = \<lparr>offset = ?o + 512 + ph_size h, rlen = pad\<rparr>,
            px_records = recs\<rparr>"
  have heq: "h = \<lparr>ph_raw_name = ph_raw_name h, ph_size = ph_size h, ph_mode = ph_mode h,
      ph_mtime = ph_mtime h, ph_header_checksum = ph_header_checksum h,
      ph_header_sha256 = ph_header_sha256 h, ph_header = ph_header h, ph_kind = ph_kind h\<rparr>" by simp
  have at: "pax_extension_at sha sn ?x"
    using body sz h hb h'(3) k heq by (simp add: pax_extension_at_def range_bytes_def)
  show ?thesis
    by (rule that [of ?x]) (use at body pend n h'(3) in \<open>simp_all add: st' extension_ranges_def
        extension_cost_def split: pax_extension_kind.splits\<close>)
qed

lemma pax_member_step_ok:
  assumes "pax_member_step sn mf mm h is_dir st = Inr st'"
    and hb: "header = slice_of (ps_offset st) (ps_offset st + 512) (content sn)"
    and le: "ps_offset st + 512 \<le> snapshot_len sn"
    and h: "pax_parse_header sha header (ps_offset st) = Inr h"
    and k: "ph_kind h = (if is_dir then DirectoryKind else FileKind)"
  obtains m where "pax_member_at sha sn m"
    "chain (ps_offset st) (member_ranges m) (ps_offset st')" "ps_offset st' \<le> snapshot_len sn"
    "pm_header m = \<lparr>offset = ps_offset st, rlen = 512\<rparr>" "length (ps_members st) < mf"
    "ps_metadata_bytes st' = ps_metadata_bytes st + 512" "ps_metadata_bytes st' \<le> mm"
    "ps_members st' = ps_members st @ [m]" "ps_extensions st' = ps_extensions st"
    "ps_globals st' = ps_globals st" "ps_pending_local st' = None"
    "resolve_path (pm_raw_name m) (ps_globals st) (ps_pending_local st) =
       Inr (pm_name m, pm_path_source m)"
    "resolve_size (pm_header_size m) (ps_globals st) (ps_pending_local st) =
       (pm_size m, pm_size_source m)"
proof -
  let ?o = "ps_offset st"
  obtain sz so where rs: "resolve_size (ph_size h) (ps_globals st) (ps_pending_local st) = (sz, so)"
    by fastforce
  with assms(1) obtain name po pl where n: "length (ps_members st) < mf"
    and md: "ps_metadata_bytes st + 512 \<le> mm"
    and rp: "resolve_path (ph_raw_name h) (ps_globals st) (ps_pending_local st) = Inr (name, po)"
    and dir: "is_dir \<longrightarrow> sz = 0" and pl: "place_member sn (?o + 512) sz name = Inr pl"
    and st': "st' = st\<lparr>ps_members := ps_members st @
                [\<lparr>pm_raw_name = ph_raw_name h, pm_name = name, pm_header_size = ph_size h,
                  pm_size = sz, pm_mode = ph_mode h, pm_mtime = ph_mtime h,
                  pm_header_checksum = ph_header_checksum h,
                  pm_header_sha256 = ph_header_sha256 h, pm_header = ph_header h,
                  pm_payload = pl_payload pl, pm_padding = pl_padding pl, pm_is_dir = is_dir,
                  pm_path_source = po, pm_size_source = so\<rparr>],
              ps_pending_local := None, ps_offset := pl_end pl,
              ps_metadata_bytes := ps_metadata_bytes st + 512\<rparr>"
    by (auto simp: pax_member_step_def and_then_eq_Inr BLOCK_LEN_def not_le split: if_splits)
  from rp have vp: "validate_effective_path name = Inr ()"
    by (auto simp: resolve_path_def and_then_eq_Inr split: prod.splits)
  note pl = place_member_ok [OF pl le]
  note h' = pax_parse_header_ok [OF h]
  let ?m = "\<lparr>pm_raw_name = ph_raw_name h, pm_name = name, pm_header_size = ph_size h,
                  pm_size = sz, pm_mode = ph_mode h, pm_mtime = ph_mtime h,
                  pm_header_checksum = ph_header_checksum h,
                  pm_header_sha256 = ph_header_sha256 h, pm_header = ph_header h,
                  pm_payload = pl_payload pl, pm_padding = pl_padding pl, pm_is_dir = is_dir,
                  pm_path_source = po, pm_size_source = so\<rparr>"
  have heq: "h = \<lparr>ph_raw_name = ph_raw_name h, ph_size = ph_size h, ph_mode = ph_mode h,
      ph_mtime = ph_mtime h, ph_header_checksum = ph_header_checksum h,
      ph_header_sha256 = ph_header_sha256 h, ph_header = ph_header h, ph_kind = ph_kind h\<rparr>" by simp
  have at: "pax_member_at sha sn ?m"
    using pl h hb h'(3) k heq dir vp by (simp add: pax_member_at_def range_bytes_def)
  show ?thesis
    by (rule that [of ?m]) (use at pl n h'(3) md rp rs in \<open>simp_all add: st' member_ranges_def\<close>)
qed

lemma pax_step_next:
  assumes "pax_step sha sn mf mm st = Inr (Inl st')"
  obtains
    (extension) header h kind where "read_header_block sn (ps_offset st) = Inr header"
      "\<not> is_zero_block header" "pax_parse_header sha header (ps_offset st) = Inr h"
      "ph_kind h = (case kind of ExtGlobal \<Rightarrow> GlobalExtension | ExtLocal \<Rightarrow> LocalExtension)"
      "pax_extension_step sha sn mm h kind st = Inr st'"
  | (member) header h is_dir where "read_header_block sn (ps_offset st) = Inr header"
      "\<not> is_zero_block header" "pax_parse_header sha header (ps_offset st) = Inr h"
      "ph_kind h = (if is_dir then DirectoryKind else FileKind)"
      "pax_member_step sn mf mm h is_dir st = Inr st'"
proof -
  from assms obtain header h where h: "read_header_block sn (ps_offset st) = Inr header"
    "\<not> is_zero_block header" "pax_parse_header sha header (ps_offset st) = Inr h"
    and e: "pax_entry_step sha sn mf mm h st = Inr st'"
    by (auto simp: pax_step_def and_then_eq_Inr split: if_splits)
  show ?thesis
  proof (cases "ph_kind h")
    case FileKind
    then show ?thesis using member [OF h, of False] e by (simp add: pax_entry_step_def)
  next
    case DirectoryKind
    then show ?thesis using member [OF h, of True] e by (simp add: pax_entry_step_def)
  next
    case GlobalExtension
    then show ?thesis using extension [OF h, of ExtGlobal] e by (simp add: pax_entry_step_def)
  next
    case LocalExtension
    then show ?thesis using extension [OF h, of ExtLocal] e by (simp add: pax_entry_step_def)
  qed
qed

text \<open>What an iteration appends to the tables, independently of the archive around it.\<close>

lemma pax_step_cases:
  assumes "pax_step sha sn mf mm st = Inr (Inl st')"
  obtains
    (extension) x where "pax_extension_at sha sn x"
    "chain (ps_offset st) (extension_ranges x) (ps_offset st')" "ps_offset st' \<le> snapshot_len sn"
    "ps_pending_local st = None" "length (ps_extensions st) < 1024"
    "rlen (px_header x) = 512"
    "ps_metadata_bytes st' = ps_metadata_bytes st + extension_cost x"
    "ps_metadata_bytes st' \<le> mm" "ps_members st' = ps_members st"
    "ps_extensions st' = ps_extensions st @ [x]"
    "ps_globals st' = (case px_kind x of
       ExtGlobal \<Rightarrow> update_from (ps_globals st) (from_records (px_records x) (length (ps_extensions st)))
     | ExtLocal \<Rightarrow> ps_globals st)"
    "ps_pending_local st' = (case px_kind x of ExtGlobal \<Rightarrow> None
     | ExtLocal \<Rightarrow> Some (from_records (px_records x) (length (ps_extensions st))))"
  | (member) m where "pax_member_at sha sn m"
    "chain (ps_offset st) (member_ranges m) (ps_offset st')" "ps_offset st' \<le> snapshot_len sn"
    "pm_header m = \<lparr>offset = ps_offset st, rlen = 512\<rparr>" "length (ps_members st) < mf"
    "ps_metadata_bytes st' = ps_metadata_bytes st + 512" "ps_metadata_bytes st' \<le> mm"
    "ps_members st' = ps_members st @ [m]" "ps_extensions st' = ps_extensions st"
    "ps_globals st' = ps_globals st" "ps_pending_local st' = None"
    "resolve_path (pm_raw_name m) (ps_globals st) (ps_pending_local st) =
       Inr (pm_name m, pm_path_source m)"
    "resolve_size (pm_header_size m) (ps_globals st) (ps_pending_local st) =
       (pm_size m, pm_size_source m)"
  using assms
proof (cases rule: pax_step_next)
  case (extension header h kind)
  note hb = read_header_block_ok [OF extension(1)]
  from pax_extension_step_ok [OF extension(5) _ extension(3) extension(4)] hb
  obtain x where "px_kind x = kind" and x: "pax_extension_at sha sn x"
    "chain (ps_offset st) (extension_ranges x) (ps_offset st')" "ps_offset st' \<le> snapshot_len sn"
    "ps_pending_local st = None" "length (ps_extensions st) < 1024"
    "rlen (px_header x) = 512"
    "ps_metadata_bytes st' = ps_metadata_bytes st + extension_cost x"
    "ps_metadata_bytes st' \<le> mm" "ps_members st' = ps_members st"
    "ps_extensions st' = ps_extensions st @ [x]"
    "ps_globals st' = (case kind of
       ExtGlobal \<Rightarrow> update_from (ps_globals st) (from_records (px_records x) (length (ps_extensions st)))
     | ExtLocal \<Rightarrow> ps_globals st)"
    "ps_pending_local st' = (case kind of ExtGlobal \<Rightarrow> None
     | ExtLocal \<Rightarrow> Some (from_records (px_records x) (length (ps_extensions st))))"
    by metis
  with that(1) show ?thesis by blast
next
  case (member header h is_dir)
  note hb = read_header_block_ok [OF member(1)]
  show ?thesis
    by (rule pax_member_step_ok [OF member(5) _ _ member(3) member(4)])
      (use hb in simp, use hb in simp, rule that(2))
qed

lemma pax_progress:
  assumes "pax_step sha sn mf mm st = Inr (Inl st')"
  shows "ps_offset st < ps_offset st' \<and> ps_offset st' \<le> snapshot_len sn"
  using assms
proof (cases rule: pax_step_cases)
  case (extension x)
  from extension(2) have "ps_offset st + 512 \<le> ps_offset st'"
    using chain_sum [OF extension(2)] extension(6) by (simp add: extension_ranges_def)
  with extension(3) show ?thesis by simp
next
  case (member m)
  from member(2) have "ps_offset st + 512 \<le> ps_offset st'"
    using chain_sum [OF member(2)] member(4) by (simp add: member_ranges_def)
  with member(3) show ?thesis by simp
qed

function pax_loop ::
  "(bytes \<Rightarrow> bytes) \<Rightarrow> snapshot \<Rightarrow> nat \<Rightarrow> nat \<Rightarrow> pax_state \<Rightarrow> finding + pax_archive"
where
  "pax_loop sha sn max_files max_metadata_bytes st =
     and_then (pax_step sha sn max_files max_metadata_bytes st) (\<lambda>next.
       case next of
         Inl st' \<Rightarrow> pax_loop sha sn max_files max_metadata_bytes st'
       | Inr archive \<Rightarrow> Inr archive)"
  by pat_completeness auto
termination
  by (relation "measure (\<lambda>(sha, sn, mf, mm, st). snapshot_len sn - ps_offset st)")
    (auto dest: pax_progress)

declare pax_loop.simps [simp del]

definition pax_start :: pax_state where
  "pax_start = \<lparr>ps_members = [], ps_extensions = [], ps_globals = default_override,
     ps_pending_local = None, ps_offset = 0, ps_metadata_bytes = 0\<rparr>"

definition parse_pax_portable_v1 ::
  "(bytes \<Rightarrow> bytes) \<Rightarrow> snapshot \<Rightarrow> nat \<Rightarrow> nat \<Rightarrow> finding + pax_archive"
where
  "parse_pax_portable_v1 sha sn max_files max_metadata_bytes =
     (if snapshot_len sn < BLOCK_LEN * 2 \<or> snapshot_len sn mod BLOCK_LEN \<noteq> 0
      then Inl (finding_error TarTruncated)
      else pax_loop sha sn max_files max_metadata_bytes pax_start)"

interpretation pax: block_reader "pax_step sha sn mf mm" "pax_loop sha sn mf mm" ps_offset
    "snapshot_len sn" for sha sn mf mm
  by unfold_locales (subst pax_loop.simps, rule refl, rule pax_progress)

lemma pax_step_stop:
  assumes "pax_step sha sn mf mm st = Inr (Inr a)"
  obtains header where "read_header_block sn (ps_offset st) = Inr header" "is_zero_block header"
    "pax_finish sn mm st = Inr a"
  using assms by (auto simp: pax_step_def and_then_eq_Inr split: if_splits)

lemma pax_finish_ok:
  assumes "pax_finish sn mm st = Inr a"
  shows "ps_pending_local st = None" "ps_offset st + 1024 \<le> snapshot_len sn"
    "all_zero (slice_of (ps_offset st + 512) (ps_offset st + 1024) (content sn))"
    "all_zero (slice_of (ps_offset st + 1024) (snapshot_len sn) (content sn))"
    "ps_metadata_bytes st + 1024 \<le> mm"
    "a = \<lparr>pa_members = ps_members st, pa_extensions = ps_extensions st,
          pa_member_records = \<lparr>offset = 0, rlen = ps_offset st\<rparr>,
          pa_terminator = \<lparr>offset = ps_offset st, rlen = 1024\<rparr>,
          pa_trailing_zeros = \<lparr>offset = ps_offset st + 1024,
            rlen = snapshot_len sn - (ps_offset st + 1024)\<rparr>,
          pa_metadata_bytes = ps_metadata_bytes st + 1024\<rparr>"
proof -
  from assms obtain e where p: "ps_pending_local st = None"
    and s: "read_second_block sn (ps_offset st + 512) = Inr e"
    and mm: "ps_metadata_bytes st + 1024 \<le> mm"
    and z: "ensure_zero_range sn e (snapshot_len sn - e) = Inr ()"
    and a: "a = \<lparr>pa_members = ps_members st, pa_extensions = ps_extensions st,
          pa_member_records = \<lparr>offset = 0, rlen = ps_offset st\<rparr>,
          pa_terminator = \<lparr>offset = ps_offset st, rlen = 1024\<rparr>,
          pa_trailing_zeros = \<lparr>offset = e, rlen = snapshot_len sn - e\<rparr>,
          pa_metadata_bytes = ps_metadata_bytes st + 1024\<rparr>"
    by (auto simp: pax_finish_def and_then_eq_Inr BLOCK_LEN_def split: if_splits)
  note s = read_second_block_ok [OF s]
  with z have z: "all_zero (slice_of e (snapshot_len sn) (content sn))"
    using ensure_zero_range_ok [OF z] by simp
  from s have e: "e = ps_offset st + 1024" by simp
  show "ps_pending_local st = None" "ps_offset st + 1024 \<le> snapshot_len sn"
    "all_zero (slice_of (ps_offset st + 512) (ps_offset st + 1024) (content sn))"
    "all_zero (slice_of (ps_offset st + 1024) (snapshot_len sn) (content sn))"
    "ps_metadata_bytes st + 1024 \<le> mm"
    using p s z mm by (simp_all add: e add.commute)
  show "a = \<lparr>pa_members = ps_members st, pa_extensions = ps_extensions st,
          pa_member_records = \<lparr>offset = 0, rlen = ps_offset st\<rparr>,
          pa_terminator = \<lparr>offset = ps_offset st, rlen = 1024\<rparr>,
          pa_trailing_zeros = \<lparr>offset = ps_offset st + 1024,
            rlen = snapshot_len sn - (ps_offset st + 1024)\<rparr>,
          pa_metadata_bytes = ps_metadata_bytes st + 1024\<rparr>"
    using a by (simp add: e)
qed

subsection \<open>Which value a member gets\<close>

text \<open>
  The override a member whose header is at \<open>h\<close> is subject to, read off the finished extension
  table: the local extension that ends exactly at the header, and otherwise the last global
  extension before it that sets the keyword. \<open>sel\<close> selects the path or the size.
\<close>

definition extension_end :: "pax_extension \<Rightarrow> nat" where
  "extension_end x = offset (px_padding x) + rlen (px_padding x)"

definition local_at ::
  "(override_state \<Rightarrow> 'a state_value option) \<Rightarrow> pax_extension list \<Rightarrow> nat \<Rightarrow> 'a state_value option" where
  "local_at sel exts h =
     (case filter (\<lambda>(i, x). px_kind x = ExtLocal \<and> extension_end x = h) (enumerate 0 exts) of
        [] \<Rightarrow> None
      | (i, x) # _ \<Rightarrow> sel (from_records (px_records x) i))"

definition global_at ::
  "(override_state \<Rightarrow> 'a state_value option) \<Rightarrow> pax_extension list \<Rightarrow> nat \<Rightarrow> 'a state_value option" where
  "global_at sel exts h =
     (case rev (filter (\<lambda>(i, x). px_kind x = ExtGlobal \<and> offset (px_header x) < h \<and>
               sel (from_records (px_records x) i) \<noteq> None) (enumerate 0 exts)) of
        [] \<Rightarrow> None
      | (i, x) # _ \<Rightarrow> sel (from_records (px_records x) i))"

definition effective ::
  "(override_state \<Rightarrow> 'a state_value option) \<Rightarrow> pax_extension list \<Rightarrow> nat \<Rightarrow> 'a \<Rightarrow> 'a \<times> pax_value_source" where
  "effective sel exts h dflt =
     (case local_at sel exts h of
        Some v \<Rightarrow> (sv_value v, SrcLocal (sv_extension_index v) (sv_record_index v))
      | None \<Rightarrow>
          (case global_at sel exts h of
             Some v \<Rightarrow> (sv_value v, SrcGlobal (sv_extension_index v) (sv_record_index v))
           | None \<Rightarrow> (dflt, SrcUstar)))"

lemma enumerate_snoc: "enumerate 0 (xs @ [x]) = enumerate 0 xs @ [(length xs, x)]"
  by (simp add: enumerate_append_eq)

lemma local_at_other: "extension_end x \<noteq> h \<Longrightarrow> local_at sel (exts @ [x]) h = local_at sel exts h"
  by (simp add: local_at_def enumerate_snoc)

lemma local_at_none: "\<forall>x \<in> set exts. extension_end x \<noteq> h \<Longrightarrow> local_at sel exts h = None"
proof -
  assume a: "\<forall>x \<in> set exts. extension_end x \<noteq> h"
  have "filter (\<lambda>(i, x). px_kind x = ExtLocal \<and> extension_end x = h) (enumerate 0 exts) = []"
    using a by (auto simp: filter_empty_conv in_set_enumerate_eq)
  then show ?thesis by (simp add: local_at_def)
qed

lemma local_at_new:
  assumes "\<forall>x \<in> set exts. extension_end x < h" "extension_end x = h"
  shows "local_at sel (exts @ [x]) h =
    (case px_kind x of ExtLocal \<Rightarrow> sel (from_records (px_records x) (length exts)) | ExtGlobal \<Rightarrow> None)"
proof -
  have "filter (\<lambda>(i, x). px_kind x = ExtLocal \<and> extension_end x = h) (enumerate 0 exts) = []"
    using assms(1) by (auto simp: filter_empty_conv in_set_enumerate_eq)
  then show ?thesis
    using assms(2) by (simp add: local_at_def enumerate_snoc split: pax_extension_kind.splits)
qed

lemma global_at_later: "h \<le> offset (px_header x) \<Longrightarrow> global_at sel (exts @ [x]) h = global_at sel exts h"
  by (simp add: global_at_def enumerate_snoc)

lemma global_at_new:
  assumes "offset (px_header x) < h"
  shows "global_at sel (exts @ [x]) h =
    (if px_kind x = ExtGlobal \<and> sel (from_records (px_records x) (length exts)) \<noteq> None
     then sel (from_records (px_records x) (length exts)) else global_at sel exts h)"
  using assms by (auto simp: global_at_def enumerate_snoc)

lemma global_at_beyond:
  assumes "\<forall>x \<in> set exts. offset (px_header x) < h" "h \<le> k"
  shows "global_at sel exts k = global_at sel exts h"
proof -
  have "filter (\<lambda>(i, x). px_kind x = ExtGlobal \<and> offset (px_header x) < k \<and>
      sel (from_records (px_records x) i) \<noteq> None) (enumerate 0 exts) =
    filter (\<lambda>(i, x). px_kind x = ExtGlobal \<and> offset (px_header x) < h \<and>
      sel (from_records (px_records x) i) \<noteq> None) (enumerate 0 exts)"
  proof (rule filter_cong [OF refl])
    fix ix assume "ix \<in> set (enumerate 0 exts)"
    then have "snd ix \<in> set exts" by (metis imageI list.set_map map_snd_enumerate)
    with assms show "(case ix of (i, x) \<Rightarrow> px_kind x = ExtGlobal \<and> offset (px_header x) < k \<and>
        sel (from_records (px_records x) i) \<noteq> None) = (case ix of (i, x) \<Rightarrow> px_kind x = ExtGlobal \<and>
        offset (px_header x) < h \<and> sel (from_records (px_records x) i) \<noteq> None)"
      by (cases ix) force
  qed
  then show ?thesis by (simp add: global_at_def)
qed

definition exts_before :: "pax_extension list \<Rightarrow> nat \<Rightarrow> bool" where
  "exts_before exts e \<longleftrightarrow>
     (\<forall>x \<in> set exts. offset (px_header x) < extension_end x \<and> extension_end x \<le> e)"

definition env_agrees ::
  "(override_state \<Rightarrow> 'a state_value option) \<Rightarrow> override_state \<Rightarrow> override_state option \<Rightarrow>
     pax_extension list \<Rightarrow> nat \<Rightarrow> bool" where
  "env_agrees sel globals pending exts e \<longleftrightarrow>
     Option.bind pending sel = local_at sel exts e \<and> sel globals = global_at sel exts e"

lemma env_agrees_extension:
  assumes agree: "env_agrees sel g None exts off" and before: "exts_before exts off"
    and x: "offset (px_header x) = off" "extension_end x = e" "off < e"
    and upd: "\<And>a b. sel (update_from a b) = (case sel b of None \<Rightarrow> sel a | Some v \<Rightarrow> Some v)"
  shows "env_agrees sel
    (case px_kind x of ExtGlobal \<Rightarrow> update_from g (from_records (px_records x) (length exts)) | ExtLocal \<Rightarrow> g)
    (case px_kind x of ExtGlobal \<Rightarrow> None | ExtLocal \<Rightarrow> Some (from_records (px_records x) (length exts)))
    (exts @ [x]) e"
proof -
  have l: "local_at sel (exts @ [x]) e =
    (case px_kind x of ExtLocal \<Rightarrow> sel (from_records (px_records x) (length exts)) | ExtGlobal \<Rightarrow> None)"
    using before x by (intro local_at_new) (force simp: exts_before_def)+
  have "global_at sel exts e = global_at sel exts off"
    using before x by (intro global_at_beyond) (auto simp: exts_before_def)
  then have g: "global_at sel (exts @ [x]) e =
    (if px_kind x = ExtGlobal \<and> sel (from_records (px_records x) (length exts)) \<noteq> None
     then sel (from_records (px_records x) (length exts)) else global_at sel exts off)"
    using x by (subst global_at_new) auto
  show ?thesis
    using agree upd unfolding env_agrees_def l g
    by (auto split: pax_extension_kind.splits option.splits)
qed

lemma env_agrees_member:
  assumes "env_agrees sel g p exts off" "exts_before exts off" "off < e"
  shows "env_agrees sel g None exts e"
proof -
  have "local_at sel exts e = None"
    using assms by (intro local_at_none) (auto simp: exts_before_def)
  moreover have "global_at sel exts e = global_at sel exts off"
    using assms by (intro global_at_beyond) (auto simp: exts_before_def)
  ultimately show ?thesis using assms(1) by (simp add: env_agrees_def)
qed

lemma effective_stable:
  assumes "h < off" "off = offset (px_header x)" "off < extension_end x"
  shows "effective sel (exts @ [x]) h d = effective sel exts h d"
proof -
  have "local_at sel (exts @ [x]) h = local_at sel exts h" using assms by (simp add: local_at_other)
  moreover have "global_at sel (exts @ [x]) h = global_at sel exts h"
    using assms by (intro global_at_later) simp
  ultimately show ?thesis unfolding effective_def by presburger
qed

text \<open>The values and sources of a member as the finished table determines them.\<close>

definition member_values_ok :: "pax_extension list \<Rightarrow> pax_member \<Rightarrow> bool" where
  "member_values_ok exts m \<longleftrightarrow>
     (pm_name m, pm_path_source m) =
       effective os_path exts (offset (pm_header m)) (pm_name m) \<and>
     (pm_path_source m = SrcUstar \<longrightarrow> from_utf8 (pm_raw_name m) = Some (pm_name m)) \<and>
     (pm_size m, pm_size_source m) =
       effective os_size exts (offset (pm_header m)) (pm_header_size m)"

lemma resolve_path_effective:
  assumes "resolve_path raw g p = Inr (name, src)" "env_agrees os_path g p exts h"
  shows "(name, src) = effective os_path exts h name" "src = SrcUstar \<Longrightarrow> from_utf8 raw = Some name"
  using assms
  by (auto simp: resolve_path_def effective_def env_agrees_def and_then_eq_Inr
      split: option.splits prod.splits)

lemma resolve_size_effective:
  assumes "env_agrees os_size g p exts h"
  shows "resolve_size sz g p = effective os_size exts h sz"
  using assms by (simp add: resolve_size_def effective_def env_agrees_def split: option.splits)

subsection \<open>The loop invariant\<close>

datatype pax_item = ExtItem pax_extension | MemItem pax_member

fun item_ranges :: "pax_item \<Rightarrow> byte_range list" where
  "item_ranges (ExtItem x) = extension_ranges x"
| "item_ranges (MemItem m) = member_ranges m"

fun item_extensions :: "pax_item list \<Rightarrow> pax_extension list" where
  "item_extensions [] = []"
| "item_extensions (ExtItem x # is) = x # item_extensions is"
| "item_extensions (MemItem m # is) = item_extensions is"

fun item_members :: "pax_item list \<Rightarrow> pax_member list" where
  "item_members [] = []"
| "item_members (ExtItem x # is) = item_members is"
| "item_members (MemItem m # is) = m # item_members is"

lemma item_append [simp]:
  "item_extensions (xs @ ys) = item_extensions xs @ item_extensions ys"
  "item_members (xs @ ys) = item_members xs @ item_members ys"
  by (induction xs rule: item_extensions.induct) simp_all

definition pax_inv :: "(bytes \<Rightarrow> bytes) \<Rightarrow> snapshot \<Rightarrow> nat \<Rightarrow> nat \<Rightarrow> pax_state \<Rightarrow> bool" where
  "pax_inv sha sn mf mm st \<longleftrightarrow>
     (\<exists>items. item_extensions items = ps_extensions st \<and> item_members items = ps_members st \<and>
        chain 0 (concat (map item_ranges items)) (ps_offset st)) \<and>
     ps_offset st \<le> snapshot_len sn \<and>
     (\<forall>x \<in> set (ps_extensions st). pax_extension_at sha sn x) \<and>
     (\<forall>m \<in> set (ps_members st). pax_member_at sha sn m) \<and>
     ps_metadata_bytes st = sum_list (map extension_cost (ps_extensions st)) + 512 * length (ps_members st) \<and>
     length (ps_extensions st) \<le> 1024 \<and> length (ps_members st) \<le> mf"

definition pax_env_inv :: "pax_state \<Rightarrow> bool" where
  "pax_env_inv st \<longleftrightarrow>
     exts_before (ps_extensions st) (ps_offset st) \<and>
     env_agrees os_path (ps_globals st) (ps_pending_local st) (ps_extensions st) (ps_offset st) \<and>
     env_agrees os_size (ps_globals st) (ps_pending_local st) (ps_extensions st) (ps_offset st) \<and>
     (\<forall>m \<in> set (ps_members st). offset (pm_header m) < ps_offset st \<and>
        member_values_ok (ps_extensions st) m)"

lemma pax_inv_step:
  assumes inv: "pax_inv sha sn mf mm st" and step: "pax_step sha sn mf mm st = Inr (Inl st')"
  shows "pax_inv sha sn mf mm st'"
proof -
  from inv obtain items where i: "item_extensions items = ps_extensions st"
    "item_members items = ps_members st" "chain 0 (concat (map item_ranges items)) (ps_offset st)"
    unfolding pax_inv_def by blast
  from step show ?thesis
  proof (cases rule: pax_step_cases)
    case (extension x)
    have "\<exists>items'. item_extensions items' = ps_extensions st' \<and> item_members items' = ps_members st' \<and>
        chain 0 (concat (map item_ranges items')) (ps_offset st')"
      using i extension by (intro exI [of _ "items @ [ExtItem x]"]) auto
    with inv extension show ?thesis by (auto simp: pax_inv_def)
  next
    case (member m)
    have "\<exists>items'. item_extensions items' = ps_extensions st' \<and> item_members items' = ps_members st' \<and>
        chain 0 (concat (map item_ranges items')) (ps_offset st')"
      using i member by (intro exI [of _ "items @ [MemItem m]"]) auto
    with inv member show ?thesis by (auto simp: pax_inv_def)
  qed
qed

lemma pax_env_inv_step:
  assumes inv: "pax_env_inv st" and step: "pax_step sha sn mf mm st = Inr (Inl st')"
  shows "pax_env_inv st'"
  using step
proof (cases rule: pax_step_cases)
  case (extension x)
  have x: "offset (px_header x) = ps_offset st" "extension_end x = ps_offset st'"
    "ps_offset st < ps_offset st'"
    using extension(2,6) by (auto simp: extension_ranges_def extension_end_def)
  from inv extension(4) have env: "env_agrees os_path (ps_globals st) None (ps_extensions st) (ps_offset st)"
    "env_agrees os_size (ps_globals st) None (ps_extensions st) (ps_offset st)"
    and bef: "exts_before (ps_extensions st) (ps_offset st)" by (simp_all add: pax_env_inv_def)
  have "env_agrees os_path (ps_globals st') (ps_pending_local st') (ps_extensions st') (ps_offset st')"
    unfolding extension(10-12)
    by (rule env_agrees_extension [OF env(1) bef x]) (simp add: update_from_def)
  moreover have "env_agrees os_size (ps_globals st') (ps_pending_local st') (ps_extensions st') (ps_offset st')"
    unfolding extension(10-12)
    by (rule env_agrees_extension [OF env(2) bef x]) (simp add: update_from_def)
  moreover have "exts_before (ps_extensions st') (ps_offset st')"
    using bef x extension(10) by (auto simp: exts_before_def)
  moreover have "offset (pm_header m) < ps_offset st' \<and> member_values_ok (ps_extensions st') m"
    if "m \<in> set (ps_members st')" for m
  proof -
    from that extension(9) inv have m: "offset (pm_header m) < ps_offset st"
      "member_values_ok (ps_extensions st) m" by (auto simp: pax_env_inv_def)
    then show ?thesis using x extension(10) by (simp add: member_values_ok_def effective_stable)
  qed
  ultimately show ?thesis by (simp add: pax_env_inv_def)
next
  case (member m)
  have lt: "ps_offset st < ps_offset st'" using pax_progress [OF step] by simp
  from inv have bef: "exts_before (ps_extensions st) (ps_offset st)"
    and env: "env_agrees os_path (ps_globals st) (ps_pending_local st) (ps_extensions st) (ps_offset st)"
      "env_agrees os_size (ps_globals st) (ps_pending_local st) (ps_extensions st) (ps_offset st)"
    by (simp_all add: pax_env_inv_def)
  have "member_values_ok (ps_extensions st) m"
    using resolve_path_effective [OF member(12) env(1)] resolve_size_effective [OF env(2)] member(4,13)
    by (simp add: member_values_ok_def)
  moreover have "exts_before (ps_extensions st) (ps_offset st')"
    using bef lt by (auto simp: exts_before_def)
  ultimately show ?thesis
    using inv member env_agrees_member [OF env(1) bef lt] env_agrees_member [OF env(2) bef lt] lt
    by (auto simp: pax_env_inv_def)
qed

lemma pax_parse_final:
  assumes "parse_pax_portable_v1 sha sn mf mm = Inr a"
  obtains st header where "pax_inv sha sn mf mm st" "pax_env_inv st"
    "read_header_block sn (ps_offset st) = Inr header" "is_zero_block header"
    "pax_finish sn mm st = Inr a" "snapshot_len sn mod 512 = 0"
proof -
  from assms have len: "snapshot_len sn mod 512 = 0" and l: "pax_loop sha sn mf mm pax_start = Inr a"
    by (auto simp: parse_pax_portable_v1_def BLOCK_LEN_def split: if_splits)
  have "\<exists>items. item_extensions items = [] \<and> item_members items = [] \<and>
      chain 0 (concat (map item_ranges items)) 0" by (intro exI [of _ "[]"]) simp
  then have "pax_inv sha sn mf mm pax_start \<and> pax_env_inv pax_start"
    by (simp add: pax_inv_def pax_env_inv_def pax_start_def exts_before_def env_agrees_def
        default_override_def local_at_def global_at_def)
  with l have "\<exists>st. (pax_inv sha sn mf mm st \<and> pax_env_inv st) \<and> pax_step sha sn mf mm st = Inr (Inr a)"
    by (rule pax.loop_invariant) (blast intro: pax_inv_step pax_env_inv_step)
  with that len show ?thesis by (auto elim: pax_step_stop)
qed

subsection \<open>Caps\<close>

lemma add_metadata_capped:
  "a + b \<le> u64_max \<Longrightarrow>
     add_metadata a b cap = (if cap < a + b then Inl (finding_error QuotaMetadata) else Inr (a + b))"
  by (simp add: add_metadata_def checked_add_u64_def)

lemma pax_extension_body_caps:
  assumes "pax_extension_body sn mm md po sz = Inr r"
  shows "pax_extension_body sn mm' md po sz =
    (if mm' < fst r then Inl (finding_error QuotaMetadata) else Inr r)"
proof -
  from assms obtain p payload recs where p: "round_up_block sz = Inr p" "po + sz \<le> u64_max"
    "po + p \<le> u64_max" "po + p \<le> snapshot_len sn" "512 + p \<le> u64_max" "md + (512 + p) \<le> u64_max"
    and r: "read_exact_at sn po sz = Inr payload" "parse_records payload po = Inr recs"
      "ensure_zero_range sn (po + sz) (p - sz) = Inr ()"
      "r = (md + (512 + p), payload, recs, p - sz, po + p)"
    by (auto simp: pax_extension_body_def and_then_eq_Inr BLOCK_LEN_def split: if_splits)
  then show ?thesis
    by (simp add: pax_extension_body_def add_metadata_capped [OF p(6)] BLOCK_LEN_def)
qed

lemma pax_extension_step_caps:
  assumes "pax_extension_step sha sn mm h kind st = Inr st'"
  shows "pax_extension_step sha sn mm' h kind st =
    (if mm' < ps_metadata_bytes st' then Inl (finding_error QuotaMetadata) else Inr st')"
proof -
  from assms obtain r where r: "pax_extension_body sn mm (ps_metadata_bytes st) (ps_offset st + BLOCK_LEN)
      (ph_size h) = Inr r" "ps_metadata_bytes st' = fst r"
    by (auto simp: pax_extension_step_def Let_def and_then_eq_Inr split: if_splits prod.splits)
  show ?thesis
    using assms r pax_extension_body_caps [OF r(1), of mm']
    by (auto simp: pax_extension_step_def Let_def split: if_splits prod.splits)
qed

lemma pax_member_step_caps:
  assumes "pax_member_step sn mf mm h d st = Inr st'"
  shows "pax_member_step sn mf' mm' h d st =
    (if mf' \<le> length (ps_members st) then Inl (finding_error QuotaFiles)
     else if mm' < ps_metadata_bytes st' then Inl (finding_error QuotaMetadata) else Inr st') \<and>
    length (ps_members st') = Suc (length (ps_members st))"
proof -
  obtain sz so where "resolve_size (ph_size h) (ps_globals st) (ps_pending_local st) = (sz, so)"
    by fastforce
  with assms have md: "ps_metadata_bytes st + 512 \<le> u64_max"
    "add_metadata (ps_metadata_bytes st) BLOCK_LEN mm = Inr (ps_metadata_bytes st + 512)"
    "ps_metadata_bytes st' = ps_metadata_bytes st + 512"
    "length (ps_members st') = Suc (length (ps_members st))"
    by (auto simp: pax_member_step_def and_then_eq_Inr BLOCK_LEN_def split: if_splits)
  then have "add_metadata (ps_metadata_bytes st) BLOCK_LEN mm' =
      (if mm' < ps_metadata_bytes st' then Inl (finding_error QuotaMetadata)
       else Inr (ps_metadata_bytes st + 512))"
    by (simp add: add_metadata_capped BLOCK_LEN_def)
  with assms md show ?thesis by (simp add: pax_member_step_def split: if_splits)
qed

lemma pax_step_caps:
  assumes step: "pax_step sha sn mf mm st = Inr (Inl st')" and n: "length (ps_members st) \<le> mf'"
  shows "pax_step sha sn mf' mm' st =
    (if mf' < length (ps_members st') then Inl (finding_error QuotaFiles)
     else if mm' < ps_metadata_bytes st' then Inl (finding_error QuotaMetadata) else Inr (Inl st'))"
  using step
proof (cases rule: pax_step_next)
  case (extension header h kind)
  have "ps_members st' = ps_members st"
    using extension(5) by (auto simp: pax_extension_step_def Let_def and_then_eq_Inr
        split: if_splits prod.splits)
  with n pax_extension_step_caps [OF extension(5), of mm'] extension show ?thesis
    by (cases kind) (simp_all add: pax_step_def pax_entry_step_def)
next
  case (member header h is_dir)
  with n pax_member_step_caps [OF member(5), of mf' mm'] show ?thesis
    by (cases is_dir) (auto simp: pax_step_def pax_entry_step_def)
qed

lemma pax_finish_caps:
  assumes "pax_step sha sn mf mm st = Inr (Inr a)"
  shows "pax_step sha sn mf' mm' st =
    (if mm' < pa_metadata_bytes a then Inl (finding_error QuotaMetadata) else Inr (Inr a))"
proof -
  from assms obtain header where h: "read_header_block sn (ps_offset st) = Inr header"
    "is_zero_block header" and f: "pax_finish sn mm st = Inr a" by (rule pax_step_stop)
  from f have "pax_finish sn mm' st =
    (if mm' < pa_metadata_bytes a then Inl (finding_error QuotaMetadata) else Inr a)"
    by (auto simp: pax_finish_def and_then_eq_Inr add_metadata_capped split: if_splits)
  with h show ?thesis by (simp add: pax_step_def)
qed

interpretation pax_caps: capped_reader "pax_step sha sn" "pax_loop sha sn" ps_offset
    "snapshot_len sn" "\<lambda>st. length (ps_members st)" ps_metadata_bytes
    "\<lambda>a. length (pa_members a)" pa_metadata_bytes "finding_error QuotaFiles"
    "finding_error QuotaMetadata" for sha sn
proof (rule capped_reader.intro)
  show "block_reader (pax_step sha sn mf mm) (pax_loop sha sn mf mm) ps_offset (snapshot_len sn)"
    for mf mm by (rule pax.block_reader_axioms)
next
  fix mf mm st st'
  assume "pax_step sha sn mf mm st = Inr (Inl st')"
  then show "length (ps_members st) \<le> length (ps_members st') \<and> ps_metadata_bytes st \<le> ps_metadata_bytes st'"
    by (cases rule: pax_step_cases) auto
next
  fix mf mm st a
  assume "pax_step sha sn mf mm st = Inr (Inr a)"
  then show "length (pa_members a) = length (ps_members st) \<and> ps_metadata_bytes st \<le> pa_metadata_bytes a"
    by (auto elim!: pax_step_stop dest: pax_finish_ok(6))
qed (fact pax_step_caps, fact pax_finish_caps)

subsection \<open>Archives without extensions\<close>

definition pax_of_ustar :: "tar_member \<Rightarrow> pax_member" where
  "pax_of_ustar m = \<lparr>pm_raw_name = tm_raw_name m, pm_name = tm_name m, pm_header_size = tm_size m,
     pm_size = tm_size m, pm_mode = tm_mode m, pm_mtime = tm_mtime m,
     pm_header_checksum = tm_header_checksum m, pm_header_sha256 = tm_header_sha256 m,
     pm_header = tm_header m, pm_payload = tm_payload m, pm_padding = tm_padding m,
     pm_is_dir = tm_is_dir m, pm_path_source = SrcUstar, pm_size_source = SrcUstar\<rparr>"

definition pax_state_of :: "ustar_state \<Rightarrow> pax_state" where
  "pax_state_of st = \<lparr>ps_members = map pax_of_ustar (us_members st), ps_extensions = [],
     ps_globals = default_override, ps_pending_local = None, ps_offset = us_offset st,
     ps_metadata_bytes = us_metadata_bytes st\<rparr>"

definition pax_archive_of :: "tar_archive \<Rightarrow> pax_archive" where
  "pax_archive_of a = \<lparr>pa_members = map pax_of_ustar (ta_members a), pa_extensions = [],
     pa_member_records = ta_member_records a, pa_terminator = ta_terminator a,
     pa_trailing_zeros = ta_trailing_zeros a, pa_metadata_bytes = ta_metadata_bytes a\<rparr>"

lemma pax_parse_header_of_ustar:
  assumes "parse_header sha header offs = Inr m"
  shows "pax_parse_header sha header offs =
    Inr \<lparr>ph_raw_name = tm_raw_name m, ph_size = tm_size m, ph_mode = tm_mode m, ph_mtime = tm_mtime m,
         ph_header_checksum = tm_header_checksum m, ph_header_sha256 = tm_header_sha256 m,
         ph_header = tm_header m, ph_kind = (if tm_is_dir m then DirectoryKind else FileKind)\<rparr>"
proof -
  have "pax_kind header = Inr (if d then DirectoryKind else FileKind)" if "ustar_is_dir header = Inr d" for d
    using that by (auto simp: ustar_is_dir_def pax_kind_def Let_def split: if_splits)
  moreover from assms obtain n where "slice_of 257 265 header = USTAR_MAGIC"
    "verify_checksum header = Inr (tm_header_checksum m)" "ustar_is_dir header = Inr (tm_is_dir m)"
    "all_zero (slice_of 500 512 header)" "all_zero (slice_of 157 257 header)"
    "parse_header_numbers header = Inr n" "check_devices_and_owners header = Inr ()"
    "hn_size n = tm_size m" "hn_mode n = tm_mode m" "hn_mtime n = tm_mtime m"
    by (auto simp: parse_header_def and_then_eq_Inr split: if_splits)
  moreover note parse_header_ok [OF assms]
  ultimately show ?thesis by (simp add: pax_parse_header_def BLOCK_LEN_def)
qed

lemma pax_step_of_ustar:
  assumes "ustar_step sha sn mf mm st = Inr (Inl st')"
  shows "pax_step sha sn mf mm (pax_state_of st) = Inr (Inl (pax_state_of st'))"
  using assms
proof (rule ustar_step_next)
  fix header
  assume h: "read_header_block sn (us_offset st) = Inr header" "\<not> is_zero_block header"
    and mm: "ustar_member sha sn mf mm header st = Inr st'"
  from mm obtain m pl where m: "parse_header sha header (us_offset st) = Inr m"
    and caps: "length (us_members st) < mf" "us_metadata_bytes st + 512 \<le> mm"
      "us_metadata_bytes st + 512 \<le> u64_max"
    and pl: "place_member sn (us_offset st + 512) (tm_size m) (tm_name m) = Inr pl"
    and st': "st' = \<lparr>us_members = us_members st @
              [m\<lparr>tm_payload := pl_payload pl, tm_padding := pl_padding pl\<rparr>],
            us_offset = pl_end pl, us_metadata_bytes = us_metadata_bytes st + 512\<rparr>"
    by (rule ustar_member_ok)
  note m' = parse_header_ok [OF m]
  have b: "ustar_member_bounded m" using m h(1) by (auto dest!: read_header_block_ok parse_header_bounded)
  then have "as_bytes (tm_name m) = tm_raw_name m" "length (tm_raw_name m) \<le> 256"
    by (auto simp: ustar_member_bounded_def)
  moreover have "0 \<notin> set (tm_raw_name m)" "tm_raw_name m \<noteq> []"
    using ustar_raw_name_ok [OF m'(9)] h(1) by (auto dest!: read_header_block_ok)
  ultimately have "resolve_path (tm_raw_name m) default_override None = Inr (tm_name m, SrcUstar)"
    using m'(10) by (simp add: resolve_path_def default_override_def validate_effective_path_def
        validate_path_bytes_def MAX_EFFECTIVE_PATH_BYTES_def)
  moreover have "resolve_size s default_override None = (s, SrcUstar)" for s
    by (simp add: resolve_size_def default_override_def)
  ultimately show ?thesis
    using h pax_parse_header_of_ustar [OF m] caps pl m'(11)
    by (cases "tm_is_dir m") (simp_all add: pax_step_def pax_entry_step_def pax_member_step_def
        pax_state_of_def st' pax_of_ustar_def BLOCK_LEN_def)
qed

lemma pax_finish_of_ustar:
  assumes "ustar_step sha sn mf mm st = Inr (Inr a)"
  shows "pax_step sha sn mf mm (pax_state_of st) = Inr (Inr (pax_archive_of a))"
  using assms
proof (rule ustar_step_stop)
  fix header
  assume h: "read_header_block sn (us_offset st) = Inr header" "is_zero_block header"
    and f: "ustar_finish sn mm st = Inr a"
  have "pax_finish sn mm (pax_state_of st) = Inr (pax_archive_of a)"
    using f by (auto simp: ustar_finish_def pax_finish_def pax_state_of_def pax_archive_of_def
        and_then_eq_Inr split: if_splits)
  with h show ?thesis by (simp add: pax_step_def pax_state_of_def)
qed

interpretation ustar_pax: reader_simulation "ustar_step sha sn mf mm" "ustar_loop sha sn mf mm"
    us_offset "snapshot_len sn" "pax_step sha sn mf mm" "pax_loop sha sn mf mm" ps_offset "snapshot_len sn"
    "\<lambda>st t. t = pax_state_of st" "\<lambda>a b. b = pax_archive_of a"
    for sha sn mf mm
  by unfold_locales (auto dest: pax_step_of_ustar pax_finish_of_ustar)

subsection \<open>Records behind the values\<close>

lemma from_records_path:
  "os_path (from_records recs i) = Some v \<Longrightarrow>
     sv_extension_index v = i \<and> sv_record_index v < length recs \<and>
     pr_value (recs ! sv_record_index v) = PathValue (sv_value v)"
proof (induction recs arbitrary: v rule: rev_induct)
  case Nil
  then show ?case by (simp add: from_records_def default_override_def)
next
  case (snoc r recs)
  then show ?case
    by (fastforce simp: from_records_def enumerate_snoc override_record_def nth_append
        split: pax_record_value.splits)
qed

lemma from_records_size:
  "os_size (from_records recs i) = Some v \<Longrightarrow>
     sv_extension_index v = i \<and> sv_record_index v < length recs \<and>
     pr_value (recs ! sv_record_index v) = SizeValue (sv_value v)"
proof (induction recs arbitrary: v rule: rev_induct)
  case Nil
  then show ?case by (simp add: from_records_def default_override_def)
next
  case (snoc r recs)
  then show ?case
    by (fastforce simp: from_records_def enumerate_snoc override_record_def nth_append
        split: pax_record_value.splits)
qed

lemma local_at_Some:
  assumes "local_at sel exts h = Some v"
  obtains i where "i < length exts" "px_kind (exts ! i) = ExtLocal" "extension_end (exts ! i) = h"
    "sel (from_records (px_records (exts ! i)) i) = Some v"
proof -
  from assms obtain i x r where f: "filter (\<lambda>(i, x). px_kind x = ExtLocal \<and> extension_end x = h)
      (enumerate 0 exts) = (i, x) # r" and v: "sel (from_records (px_records x) i) = Some v"
    by (auto simp: local_at_def split: list.splits)
  have "(i, x) \<in> set (filter (\<lambda>(i, x). px_kind x = ExtLocal \<and> extension_end x = h) (enumerate 0 exts))"
    by (simp add: f)
  with v that show ?thesis by (auto simp: in_set_enumerate_eq)
qed

lemma global_at_Some:
  assumes "global_at sel exts h = Some v"
  obtains i where "i < length exts" "px_kind (exts ! i) = ExtGlobal" "offset (px_header (exts ! i)) < h"
    "sel (from_records (px_records (exts ! i)) i) = Some v"
proof -
  let ?p = "\<lambda>(i, x). px_kind x = ExtGlobal \<and> offset (px_header x) < h \<and>
      sel (from_records (px_records x) i) \<noteq> None"
  from assms obtain i x r where f: "rev (filter ?p (enumerate 0 exts)) = (i, x) # r"
    and v: "sel (from_records (px_records x) i) = Some v"
    by (auto simp: global_at_def split: list.splits)
  have "(i, x) \<in> set (rev (filter ?p (enumerate 0 exts)))" unfolding f by simp
  with v that show ?thesis by (auto simp: in_set_enumerate_eq)
qed

text \<open>A source names the record that holds the value, in an extension that governs the member.\<close>

definition points_to :: "pax_extension list \<Rightarrow> nat \<Rightarrow> pax_value_source \<Rightarrow> pax_record_value \<Rightarrow> bool" where
  "points_to exts h src v \<longleftrightarrow>
     (case src of
        SrcUstar \<Rightarrow> True
      | SrcGlobal i j \<Rightarrow> i < length exts \<and> px_kind (exts ! i) = ExtGlobal \<and>
          offset (px_header (exts ! i)) < h \<and> j < length (px_records (exts ! i)) \<and>
          pr_value (px_records (exts ! i) ! j) = v
      | SrcLocal i j \<Rightarrow> i < length exts \<and> px_kind (exts ! i) = ExtLocal \<and>
          extension_end (exts ! i) = h \<and> j < length (px_records (exts ! i)) \<and>
          pr_value (px_records (exts ! i) ! j) = v)"

lemma effective_points_to:
  assumes "(v, src) = effective sel exts h d"
    and rec: "\<And>recs i sv. sel (from_records recs i) = Some sv \<Longrightarrow>
      sv_extension_index sv = i \<and> sv_record_index sv < length recs \<and>
      pr_value (recs ! sv_record_index sv) = con (sv_value sv)"
  shows "points_to exts h src (con v)"
proof (cases "local_at sel exts h")
  case (Some sv)
  then obtain i where "i < length exts" "px_kind (exts ! i) = ExtLocal" "extension_end (exts ! i) = h"
    "sel (from_records (px_records (exts ! i)) i) = Some sv" by (rule local_at_Some)
  with Some rec assms(1) show ?thesis by (auto simp: effective_def points_to_def)
next
  case None
  show ?thesis
  proof (cases "global_at sel exts h")
    case (Some sv)
    then obtain i where "i < length exts" "px_kind (exts ! i) = ExtGlobal"
      "offset (px_header (exts ! i)) < h" "sel (from_records (px_records (exts ! i)) i) = Some sv"
      by (rule global_at_Some)
    with None Some rec assms(1) show ?thesis by (auto simp: effective_def points_to_def)
  next
    case None
    with \<open>local_at sel exts h = None\<close> assms(1) show ?thesis by (simp add: effective_def points_to_def)
  qed
qed

subsection \<open>Properties of the portable pax reader\<close>

lemma pax_parse_parts:
  assumes "parse_pax_portable_v1 sha sn mf mm = Inr a"
  shows "(\<exists>items. item_extensions items = pa_extensions a \<and> item_members items = pa_members a \<and>
      chain 0 (concat (map item_ranges items) @ [pa_terminator a, pa_trailing_zeros a]) (snapshot_len sn)) \<and>
    (\<forall>x \<in> set (pa_extensions a). pax_extension_at sha sn x) \<and>
    (\<forall>m \<in> set (pa_members a). pax_member_at sha sn m) \<and>
    all_zero (range_bytes sn (pa_terminator a)) \<and> all_zero (range_bytes sn (pa_trailing_zeros a)) \<and>
    pa_metadata_bytes a =
      sum_list (map extension_cost (pa_extensions a)) + 512 * length (pa_members a) + 1024 \<and>
    length (pa_extensions a) \<le> 1024 \<and> length (pa_members a) \<le> mf \<and> pa_metadata_bytes a \<le> mm"
proof -
  from assms obtain st header where inv: "pax_inv sha sn mf mm st"
    and h: "read_header_block sn (ps_offset st) = Inr header" "is_zero_block header"
    and f: "pax_finish sn mm st = Inr a" by (rule pax_parse_final)
  note f = pax_finish_ok [OF f]
  have "all_zero (slice_of (ps_offset st) (ps_offset st + 512) (content sn))"
    using h read_header_block_ok [OF h(1)] by (simp add: is_zero_block_def)
  then have z: "all_zero (slice_of (ps_offset st) (ps_offset st + 1024) (content sn))"
    using f(3) all_zero_slice_append [of "ps_offset st" "ps_offset st + 512" "ps_offset st + 1024"
        "content sn"] by simp
  from inv obtain items where "item_extensions items = ps_extensions st"
    "item_members items = ps_members st" "chain 0 (concat (map item_ranges items)) (ps_offset st)"
    unfolding pax_inv_def by blast
  then have "\<exists>items. item_extensions items = pa_extensions a \<and> item_members items = pa_members a \<and>
      chain 0 (concat (map item_ranges items) @ [pa_terminator a, pa_trailing_zeros a]) (snapshot_len sn)"
    using f by (intro exI [of _ items]) simp
  with inv f z show ?thesis by (simp add: pax_inv_def range_bytes_def)
qed

text \<open>C30. In an accepted pax archive the extensions and members, in some interleaving that keeps
  both orders, the terminator and the record padding partition the source. Every extension and
  member is what the bytes at its place decode to, the padding is zero, the metadata charged is
  exactly the headers, the extension payloads with their padding and the terminator, and the caps
  hold, the fixed one of 1024 extensions of at most 64 KiB too.\<close>

theorem pax_parse_sound:
  assumes "parse_pax_portable_v1 sha sn mf mm = Inr a"
  shows "(\<exists>items. item_extensions items = pa_extensions a \<and> item_members items = pa_members a \<and>
      chain 0 (concat (map item_ranges items) @ [pa_terminator a, pa_trailing_zeros a]) (snapshot_len sn)) \<and>
    (\<forall>x \<in> set (pa_extensions a). pax_extension_at sha sn x) \<and>
    (\<forall>m \<in> set (pa_members a). pax_member_at sha sn m) \<and>
    all_zero (range_bytes sn (pa_terminator a)) \<and> all_zero (range_bytes sn (pa_trailing_zeros a)) \<and>
    pa_metadata_bytes a =
      sum_list (map extension_cost (pa_extensions a)) + 512 * length (pa_members a) + 1024 \<and>
    length (pa_extensions a) \<le> 1024 \<and> length (pa_members a) \<le> mf \<and> pa_metadata_bytes a \<le> mm"
  using assms by (rule pax_parse_parts)

lemma example_pax_parse:
  "parse_pax_portable_v1 sha example_snapshot 2 2048 = Inr (pax_archive_of (archive_of sha example_entries))"
proof -
  let ?st = "\<lparr>us_members = [], us_offset = 0, us_metadata_bytes = 0\<rparr>"
  have l: "ustar_loop sha example_snapshot 2 2048 ?st = Inr (archive_of sha example_entries)"
    and len: "\<not> (snapshot_len example_snapshot < BLOCK_LEN * 2 \<or> snapshot_len example_snapshot mod BLOCK_LEN \<noteq> 0)"
    using example_parse [of sha] by (auto simp: parse_ustar_portable_v1_def split: if_splits)
  have "pax_start = pax_state_of ?st" by (simp add: pax_start_def pax_state_of_def)
  with ustar_pax.simulates [OF _ l] len show ?thesis by (simp add: parse_pax_portable_v1_def)
qed

theorem pax_parse_sound_witness:
  "\<exists>a. parse_pax_portable_v1 id example_snapshot 2 2048 = Inr a \<and> pa_metadata_bytes a = 2048"
  using pax_parse_sound [OF example_pax_parse, of id] example_pax_parse [of id]
  by (simp add: pax_archive_of_def archive_of_def Let_def example_entries_def)

text \<open>C27. Precedence and provenance. The name and the size of every member of an accepted pax archive
  are those of the local extension that directly precedes its header, else those of the last
  global extension before it that sets them, else those of its ustar header; and the source
  recorded with each points to the record, in the extension table, that holds the value.\<close>

theorem pax_member_values:
  assumes "parse_pax_portable_v1 sha sn mf mm = Inr a" "m \<in> set (pa_members a)"
  shows "(pm_name m, pm_path_source m) =
      effective os_path (pa_extensions a) (offset (pm_header m)) (pm_name m) \<and>
    (pm_path_source m = SrcUstar \<longrightarrow> from_utf8 (pm_raw_name m) = Some (pm_name m)) \<and>
    (pm_size m, pm_size_source m) =
      effective os_size (pa_extensions a) (offset (pm_header m)) (pm_header_size m) \<and>
    points_to (pa_extensions a) (offset (pm_header m)) (pm_path_source m) (PathValue (pm_name m)) \<and>
    points_to (pa_extensions a) (offset (pm_header m)) (pm_size_source m) (SizeValue (pm_size m))"
proof -
  from assms(1) obtain st header where inv: "pax_env_inv st" and f: "pax_finish sn mm st = Inr a"
    by (rule pax_parse_final)
  from pax_finish_ok(6) [OF f] inv assms(2) have v: "member_values_ok (pa_extensions a) m"
    by (simp add: pax_env_inv_def)
  then show ?thesis
    unfolding member_values_ok_def
    using effective_points_to [of "pm_name m" _ os_path, where con = PathValue]
      effective_points_to [of "pm_size m" _ os_size, where con = SizeValue]
      from_records_path from_records_size by blast
qed

theorem pax_member_values_witness:
  "\<exists>a m. parse_pax_portable_v1 id example_snapshot 2 2048 = Inr a \<and> m \<in> set (pa_members a) \<and>
     points_to (pa_extensions a) (offset (pm_header m)) (pm_path_source m) (PathValue (pm_name m))"
proof -
  let ?a = "pax_archive_of (archive_of id example_entries)"
  have m: "hd (pa_members ?a) \<in> set (pa_members ?a)"
    by (rule hd_in_set) (simp add: pax_archive_of_def archive_of_def Let_def example_entries_def)
  show ?thesis using example_pax_parse [of id] m pax_member_values [OF example_pax_parse m] by blast
qed

text \<open>C37. The pax caps are exact, as the fuzzing harness of \<open>tar_pax.rs\<close> asserts of its inputs: an
  accepted archive is accepted again with the same result under any caps it fits; if only the
  metadata cap is too low the error is \<open>QuotaMetadata\<close>, if only the file cap is too low it is
  \<open>QuotaFiles\<close>.\<close>

theorem pax_caps_exact:
  assumes "parse_pax_portable_v1 sha sn mf mm = Inr a"
  shows "(length (pa_members a) \<le> mf' \<and> pa_metadata_bytes a \<le> mm' \<longrightarrow>
      parse_pax_portable_v1 sha sn mf' mm' = Inr a) \<and>
    (length (pa_members a) \<le> mf' \<and> mm' < pa_metadata_bytes a \<longrightarrow>
      parse_pax_portable_v1 sha sn mf' mm' = Inl (finding_error QuotaMetadata)) \<and>
    (mf' < length (pa_members a) \<and> pa_metadata_bytes a \<le> mm' \<longrightarrow>
      parse_pax_portable_v1 sha sn mf' mm' = Inl (finding_error QuotaFiles))"
proof -
  from assms have l: "pax_loop sha sn mf mm pax_start = Inr a"
    and len: "\<not> (snapshot_len sn < BLOCK_LEN * 2 \<or> snapshot_len sn mod BLOCK_LEN \<noteq> 0)"
    by (auto simp: parse_pax_portable_v1_def split: if_splits)
  have "length (ps_members pax_start) \<le> mf'" by (simp add: pax_start_def)
  from pax_caps.loop_caps [OF l this, of mm'] len show ?thesis
    by (simp add: parse_pax_portable_v1_def)
qed

theorem pax_caps_exact_witness:
  "parse_pax_portable_v1 id example_snapshot 1 2048 = Inl (finding_error QuotaFiles) \<and>
   parse_pax_portable_v1 id example_snapshot 2 2047 = Inl (finding_error QuotaMetadata)"
  using pax_caps_exact [OF example_pax_parse, of id 1 2048]
    pax_caps_exact [OF example_pax_parse, of id 2 2047]
  by (simp add: pax_archive_of_def archive_of_def Let_def example_entries_def)

text \<open>C33. The pax profile conservatively extends the ustar profile: whatever the ustar reader accepts,
  the pax reader accepts under the same caps, with the same members and ranges, no extensions and
  every value taken from the ustar header.\<close>

theorem pax_extends_ustar:
  assumes "parse_ustar_portable_v1 sha sn mf mm = Inr a"
  shows "parse_pax_portable_v1 sha sn mf mm = Inr (pax_archive_of a)"
proof -
  let ?st = "\<lparr>us_members = [], us_offset = 0, us_metadata_bytes = 0\<rparr>"
  from assms have l: "ustar_loop sha sn mf mm ?st = Inr a"
    and len: "\<not> (snapshot_len sn < BLOCK_LEN * 2 \<or> snapshot_len sn mod BLOCK_LEN \<noteq> 0)"
    by (auto simp: parse_ustar_portable_v1_def split: if_splits)
  have "pax_start = pax_state_of ?st" by (simp add: pax_start_def pax_state_of_def)
  with ustar_pax.simulates [OF _ l] len show ?thesis by (simp add: parse_pax_portable_v1_def)
qed

theorem pax_extends_ustar_witness:
  "\<exists>a. parse_pax_portable_v1 id example_snapshot 2 2048 = Inr a \<and> length (pa_members a) = 2"
  using pax_extends_ustar [OF example_parse, of id]
  by (simp add: pax_archive_of_def archive_of_def Let_def example_entries_def)

end
