(* ===== verification/TarGnu.thy ===== *)
theory TarGnu
  imports TarPax
begin

text \<open>
  The old-GNU long-name reader, \<open>crates/sealr/src/tar_gnu.rs\<close>: members with old-GNU headers,
  each optionally preceded by one carrier of type \<open>L\<close> that holds its name. The field decoders and
  \<open>add_metadata\<close> are copies of those of the other readers, so their definitions are shared.
\<close>

record gnu_carrier =
  gc_raw_name :: bytes
  gc_path_bytes :: bytes
  gc_header_checksum :: nat
  gc_header_sha256 :: string
  gc_payload_sha256 :: string
  gc_mode :: nat
  gc_mtime :: nat
  gc_header :: byte_range
  gc_payload :: byte_range
  gc_path :: byte_range
  gc_padding :: byte_range

record gnu_member =
  gm_raw_name :: bytes
  gm_name :: rust_str
  gm_size :: nat
  gm_mode :: nat
  gm_mtime :: nat
  gm_header_checksum :: nat
  gm_header_sha256 :: string
  gm_header :: byte_range
  gm_payload :: byte_range
  gm_padding :: byte_range
  gm_is_dir :: bool
  gm_carrier_index :: "nat option"

record gnu_archive =
  ga_members :: "gnu_member list"
  ga_carriers :: "gnu_carrier list"
  ga_member_records :: byte_range
  ga_terminator :: byte_range
  ga_trailing_zeros :: byte_range
  ga_metadata_bytes :: nat

datatype gnu_header_kind = GnuFile | GnuDirectory | GnuLongName

record gnu_parsed_header =
  gh_raw_name :: bytes
  gh_size :: nat
  gh_mode :: nat
  gh_mtime :: nat
  gh_header_checksum :: nat
  gh_header_sha256 :: string
  gh_header :: byte_range
  gh_kind :: gnu_header_kind

record pending_long_name =
  pn_path :: rust_str
  pn_carrier_index :: nat

definition MAX_CARRIERS :: nat where
  "MAX_CARRIERS = 1024"

definition MAX_CARRIER_PAYLOAD_BYTES :: nat where
  "MAX_CARRIER_PAYLOAD_BYTES = MAX_EFFECTIVE_PATH_BYTES + 1"

definition gnu_syntax :: finding where
  "gnu_syntax = finding_error TarGnuLongName"

definition gnu_state_error :: finding where
  "gnu_state_error = finding_error TarGnuState"

definition recognizes_oldgnu :: "snapshot \<Rightarrow> bool" where
  "recognizes_oldgnu sn =
     (if snapshot_len sn < BLOCK_LEN then False
      else case read_exact_at sn 257 8 of
             Inl _ \<Rightarrow> False
           | Inr signature \<Rightarrow> signature = OLDGNU_MAGIC)"

definition gnu_validate_effective_path :: "bytes \<Rightarrow> finding + unit" where
  "gnu_validate_effective_path path =
     (if path = [] then Inl (finding_error PathEmpty)
      else if length path > MAX_EFFECTIVE_PATH_BYTES then Inl (finding_error PathDepth)
      else if 0 \<in> set path then Inl (finding_error PathNul)
      else Inr ())"

definition parse_carrier_payload :: "bytes \<Rightarrow> finding + rust_str \<times> bytes" where
  "parse_carrier_payload payload =
     (if \<not> (2 \<le> length payload \<and> length payload \<le> MAX_CARRIER_PAYLOAD_BYTES) \<or> last payload \<noteq> 0
      then Inl gnu_syntax
      else
      let path_bytes = take (length payload - 1) payload in
      if 0 \<in> set path_bytes then Inl gnu_syntax
      else
      and_then (gnu_validate_effective_path path_bytes) (\<lambda>_.
      and_then (ok_or (finding_error PathUnicode) (from_utf8 path_bytes)) (\<lambda>path.
      Inr (path, path_bytes))))"

definition decode_effective_path :: "bytes \<Rightarrow> finding + rust_str" where
  "decode_effective_path raw_name =
     and_then (gnu_validate_effective_path raw_name) (\<lambda>_.
     ok_or (finding_error PathUnicode) (from_utf8 raw_name))"

definition gnu_known_unsupported_typeflag :: "u8 \<Rightarrow> bool" where
  "gnu_known_unsupported_typeflag typeflag \<longleftrightarrow>
     typeflag \<in> set [0x31, 0x32, 0x33, 0x34, 0x36, 0x37, 0x78, 0x67, 0x58, 0x4B, 0x53, 0x44, 0x4D,
       0x4E, 0x56]"

definition gnu_kind :: "bytes \<Rightarrow> finding + gnu_header_kind" where
  "gnu_kind header =
     (let typeflag = header ! 156
      in if typeflag = 0x30 \<or> typeflag = 0 then Inr GnuFile
         else if typeflag = 0x35 then Inr GnuDirectory
         else if typeflag = 0x4C then Inr GnuLongName
         else if gnu_known_unsupported_typeflag typeflag
              then Inl (unsupported_typeflag_finding header typeflag)
         else Inl (finding_error TarType))"

definition gnu_parse_header :: "(bytes \<Rightarrow> bytes) \<Rightarrow> bytes \<Rightarrow> nat \<Rightarrow> finding + gnu_parsed_header" where
  "gnu_parse_header sha header offs =
     (if slice_of 257 265 header \<noteq> OLDGNU_MAGIC then Inl (finding_error TarDialect)
      else
      and_then (verify_checksum header) (\<lambda>stored_checksum.
      and_then (gnu_kind header) (\<lambda>kind.
      if \<not> all_zero (slice_of 157 257 header) then Inl (finding_error TarType)
      else if \<not> all_zero (slice_of 345 512 header) then Inl (finding_error TarDialect)
      else
      and_then (parse_header_numbers header) (\<lambda>numbers.
      if kind = GnuDirectory \<and> hn_size numbers \<noteq> 0 then Inl (finding_error TarType)
      else
      and_then (check_devices_and_owners header) (\<lambda>_.
      and_then (parse_text_field (slice_of 0 100 header) False) (\<lambda>raw_name.
      Inr \<lparr>gh_raw_name = raw_name, gh_size = hn_size numbers, gh_mode = hn_mode numbers,
           gh_mtime = hn_mtime numbers, gh_header_checksum = stored_checksum,
           gh_header_sha256 = hex_sha256 sha header,
           gh_header = \<lparr>offset = offs, rlen = BLOCK_LEN\<rparr>, gh_kind = kind\<rparr>))))))"

record gnu_state =
  gs_members :: "gnu_member list"
  gs_carriers :: "gnu_carrier list"
  gs_pending :: "pending_long_name option"
  gs_offset :: nat
  gs_metadata_bytes :: nat

definition gnu_finish :: "snapshot \<Rightarrow> nat \<Rightarrow> gnu_state \<Rightarrow> finding + gnu_archive" where
  "gnu_finish sn max_metadata_bytes st =
     (if gs_pending st \<noteq> None then Inl gnu_state_error
      else
      and_then (read_second_block sn (gs_offset st + BLOCK_LEN)) (\<lambda>second_end.
      and_then (add_metadata (gs_metadata_bytes st) (BLOCK_LEN * 2) max_metadata_bytes) (\<lambda>metadata_bytes.
      and_then (ensure_zero_range sn second_end (snapshot_len sn - second_end)) (\<lambda>_.
      Inr \<lparr>ga_members = gs_members st, ga_carriers = gs_carriers st,
           ga_member_records = \<lparr>offset = 0, rlen = gs_offset st\<rparr>,
           ga_terminator = \<lparr>offset = gs_offset st, rlen = BLOCK_LEN * 2\<rparr>,
           ga_trailing_zeros = \<lparr>offset = second_end, rlen = snapshot_len sn - second_end\<rparr>,
           ga_metadata_bytes = metadata_bytes\<rparr>))))"

text \<open>The payload of a carrier: metadata charged, payload, decoded path and its bytes, padding
  length and the end of its blocks.\<close>

definition gnu_carrier_body ::
  "snapshot \<Rightarrow> nat \<Rightarrow> nat \<Rightarrow> nat \<Rightarrow> nat \<Rightarrow> finding + nat \<times> bytes \<times> rust_str \<times> bytes \<times> nat \<times> nat" where
  "gnu_carrier_body sn max_metadata_bytes metadata payload_offset sz =
     and_then (round_up_block sz) (\<lambda>padded_size.
     and_then (tar_checked_add payload_offset sz) (\<lambda>payload_end.
     and_then (tar_checked_add payload_offset padded_size) (\<lambda>record_end.
     if record_end > snapshot_len sn then Inl (finding_error TarTruncated)
     else
     and_then (tar_checked_add BLOCK_LEN padded_size) (\<lambda>amount.
     and_then (add_metadata metadata amount max_metadata_bytes) (\<lambda>metadata_bytes.
     and_then (read_exact_at sn payload_offset sz) (\<lambda>payload.
     and_then (parse_carrier_payload payload) (\<lambda>(path, path_bytes).
     and_then (ensure_zero_range sn payload_end (padded_size - sz)) (\<lambda>_.
     Inr (metadata_bytes, payload, path, path_bytes, padded_size - sz, record_end)))))))))"

definition gnu_carrier_step ::
  "(bytes \<Rightarrow> bytes) \<Rightarrow> snapshot \<Rightarrow> nat \<Rightarrow> gnu_parsed_header \<Rightarrow> gnu_state \<Rightarrow> finding + gnu_state" where
  "gnu_carrier_step sha sn max_metadata_bytes header st =
     (if gs_pending st \<noteq> None then Inl gnu_state_error
      else if gh_size header > MAX_CARRIER_PAYLOAD_BYTES then Inl (finding_error QuotaMetadata)
      else if length (gs_carriers st) \<ge> MAX_CARRIERS then Inl (finding_error QuotaMetadata)
      else
      let payload_offset = gs_offset st + BLOCK_LEN in
      and_then (gnu_carrier_body sn max_metadata_bytes (gs_metadata_bytes st) payload_offset
          (gh_size header))
        (\<lambda>(metadata_bytes, payload, path, path_bytes, padding_len, record_end).
      let carrier_index = length (gs_carriers st)
      in Inr (st\<lparr>gs_carriers := gs_carriers st @
                   [\<lparr>gc_raw_name = gh_raw_name header, gc_path_bytes = path_bytes,
                     gc_header_checksum = gh_header_checksum header,
                     gc_header_sha256 = gh_header_sha256 header,
                     gc_payload_sha256 = hex_sha256 sha payload,
                     gc_mode = gh_mode header, gc_mtime = gh_mtime header, gc_header = gh_header header,
                     gc_payload = \<lparr>offset = payload_offset, rlen = gh_size header\<rparr>,
                     gc_path = \<lparr>offset = payload_offset, rlen = gh_size header - 1\<rparr>,
                     gc_padding = \<lparr>offset = payload_offset + gh_size header, rlen = padding_len\<rparr>\<rparr>],
                 gs_pending := Some \<lparr>pn_path = path, pn_carrier_index = carrier_index\<rparr>,
                 gs_offset := record_end, gs_metadata_bytes := metadata_bytes\<rparr>)))"

definition gnu_member_name ::
  "gnu_parsed_header \<Rightarrow> gnu_state \<Rightarrow> finding + rust_str \<times> nat option" where
  "gnu_member_name header st =
     (case gs_pending st of
        Some p \<Rightarrow> Inr (pn_path p, Some (pn_carrier_index p))
      | None \<Rightarrow> and_then (decode_effective_path (gh_raw_name header)) (\<lambda>name. Inr (name, None)))"

definition gnu_member_step ::
  "snapshot \<Rightarrow> nat \<Rightarrow> nat \<Rightarrow> gnu_parsed_header \<Rightarrow> bool \<Rightarrow> gnu_state \<Rightarrow> finding + gnu_state" where
  "gnu_member_step sn max_files max_metadata_bytes header is_dir st =
     (if length (gs_members st) \<ge> max_files then Inl (finding_error QuotaFiles)
      else
      and_then (add_metadata (gs_metadata_bytes st) BLOCK_LEN max_metadata_bytes) (\<lambda>metadata_bytes.
      and_then (gnu_member_name header st) (\<lambda>(name, carrier_index).
      and_then (place_member sn (gs_offset st + BLOCK_LEN) (gh_size header) name) (\<lambda>pl.
      Inr (st\<lparr>gs_members := gs_members st @
                [\<lparr>gm_raw_name = gh_raw_name header, gm_name = name, gm_size = gh_size header,
                  gm_mode = gh_mode header, gm_mtime = gh_mtime header,
                  gm_header_checksum = gh_header_checksum header,
                  gm_header_sha256 = gh_header_sha256 header, gm_header = gh_header header,
                  gm_payload = pl_payload pl, gm_padding = pl_padding pl, gm_is_dir = is_dir,
                  gm_carrier_index = carrier_index\<rparr>],
              gs_pending := None, gs_offset := pl_end pl, gs_metadata_bytes := metadata_bytes\<rparr>)))))"

definition gnu_entry_step ::
  "(bytes \<Rightarrow> bytes) \<Rightarrow> snapshot \<Rightarrow> nat \<Rightarrow> nat \<Rightarrow> gnu_parsed_header \<Rightarrow> gnu_state \<Rightarrow> finding + gnu_state" where
  "gnu_entry_step sha sn max_files max_metadata_bytes header st =
     (case gh_kind header of
        GnuLongName \<Rightarrow> gnu_carrier_step sha sn max_metadata_bytes header st
      | GnuFile \<Rightarrow> gnu_member_step sn max_files max_metadata_bytes header False st
      | GnuDirectory \<Rightarrow> gnu_member_step sn max_files max_metadata_bytes header True st)"

definition gnu_step ::
  "(bytes \<Rightarrow> bytes) \<Rightarrow> snapshot \<Rightarrow> nat \<Rightarrow> nat \<Rightarrow> gnu_state \<Rightarrow> finding + (gnu_state + gnu_archive)" where
  "gnu_step sha sn max_files max_metadata_bytes st =
     and_then (read_header_block sn (gs_offset st)) (\<lambda>header_bytes.
     if is_zero_block header_bytes
     then and_then (gnu_finish sn max_metadata_bytes st) (\<lambda>archive. Inr (Inr archive))
     else
     and_then (gnu_parse_header sha header_bytes (gs_offset st)) (\<lambda>header.
     and_then (gnu_entry_step sha sn max_files max_metadata_bytes header st) (\<lambda>st'.
     Inr (Inl st'))))"

subsection \<open>One iteration\<close>

lemma gnu_carrier_body_ok:
  assumes "gnu_carrier_body sn mm md po sz = Inr (md', payload, path, pb, pad, e)"
  shows "pad = pad_len sz" "e = po + sz + pad_len sz" "e \<le> snapshot_len sn"
    "md' = md + 512 + sz + pad_len sz" "md' \<le> mm" "md' \<le> u64_max"
    "payload = slice_of po (po + sz) (content sn)" "length payload = sz"
    "parse_carrier_payload payload = Inr (path, pb)"
    "all_zero (slice_of (po + sz) e (content sn))" "e \<le> u64_max"
proof -
  from assms obtain p where p: "round_up_block sz = Inr p" "po + sz \<le> u64_max" "po + p \<le> u64_max"
    "po + p \<le> snapshot_len sn" "md' = md + (512 + p)" "md' \<le> mm" "md' \<le> u64_max"
    and r: "read_exact_at sn po sz = Inr payload" and pp: "parse_carrier_payload payload = Inr (path, pb)"
    and z: "ensure_zero_range sn (po + sz) (p - sz) = Inr ()" and pad: "pad = p - sz" and e: "e = po + p"
    by (auto simp: gnu_carrier_body_def and_then_eq_Inr BLOCK_LEN_def case_prod_beta
        split: if_splits)
  have p': "p = sz + pad_len sz" using p(1,2) round_up_block_ok [of sz p] by simp
  then have "po + sz \<le> snapshot_len sn" using p(4) by simp
  from ensure_zero_range_ok [OF z this] read_exact_at_ok [OF r] p p' pp pad e
  show "pad = pad_len sz" "e = po + sz + pad_len sz" "e \<le> snapshot_len sn"
    "md' = md + 512 + sz + pad_len sz" "md' \<le> mm" "md' \<le> u64_max"
    "payload = slice_of po (po + sz) (content sn)" "length payload = sz"
    "parse_carrier_payload payload = Inr (path, pb)"
    "all_zero (slice_of (po + sz) e (content sn))" "e \<le> u64_max"
    by (simp_all add: add.assoc)
qed

lemma parse_carrier_payload_ok:
  "parse_carrier_payload payload = Inr (path, pb) \<longleftrightarrow>
     payload = pb @ [0] \<and> pb \<noteq> [] \<and> length pb \<le> 8191 \<and> 0 \<notin> set pb \<and> from_utf8 pb = Some path"
proof
  assume "parse_carrier_payload payload = Inr (path, pb)"
  then have p: "2 \<le> length payload" "length payload \<le> 8192" "last payload = 0" "pb = butlast payload"
    "0 \<notin> set pb" "from_utf8 pb = Some path"
    by (auto simp: parse_carrier_payload_def Let_def and_then_eq_Inr MAX_CARRIER_PAYLOAD_BYTES_def
        MAX_EFFECTIVE_PATH_BYTES_def butlast_conv_take split: if_splits)
  have eq: "payload = pb @ [0]"
    using p(1,3,4) by (metis append_butlast_last_id list.size(3) not_numeral_le_zero)
  moreover from this p(1,2) have "pb \<noteq> []" "length pb \<le> 8191" by auto
  ultimately show "payload = pb @ [0] \<and> pb \<noteq> [] \<and> length pb \<le> 8191 \<and> 0 \<notin> set pb \<and> from_utf8 pb = Some path"
    using p(5,6) by blast
next
  assume "payload = pb @ [0] \<and> pb \<noteq> [] \<and> length pb \<le> 8191 \<and> 0 \<notin> set pb \<and> from_utf8 pb = Some path"
  then show "parse_carrier_payload payload = Inr (path, pb)"
    by (cases pb) (auto simp: parse_carrier_payload_def Let_def MAX_CARRIER_PAYLOAD_BYTES_def
        MAX_EFFECTIVE_PATH_BYTES_def gnu_validate_effective_path_def)
qed

definition gnu_carrier_at :: "(bytes \<Rightarrow> bytes) \<Rightarrow> snapshot \<Rightarrow> gnu_carrier \<Rightarrow> bool" where
  "gnu_carrier_at sha sn c \<longleftrightarrow>
     rlen (gc_padding c) = pad_len (rlen (gc_payload c)) \<and> all_zero (range_bytes sn (gc_padding c)) \<and>
     gnu_parse_header sha (range_bytes sn (gc_header c)) (offset (gc_header c)) =
       Inr \<lparr>gh_raw_name = gc_raw_name c, gh_size = rlen (gc_payload c), gh_mode = gc_mode c,
            gh_mtime = gc_mtime c, gh_header_checksum = gc_header_checksum c,
            gh_header_sha256 = gc_header_sha256 c, gh_header = gc_header c, gh_kind = GnuLongName\<rparr> \<and>
     gc_payload_sha256 c = hex_sha256 sha (range_bytes sn (gc_payload c)) \<and>
     range_bytes sn (gc_payload c) = gc_path_bytes c @ [0] \<and>
     gc_path c = \<lparr>offset = offset (gc_payload c), rlen = length (gc_path_bytes c)\<rparr> \<and>
     gc_path_bytes c \<noteq> [] \<and> length (gc_path_bytes c) \<le> 8191 \<and> 0 \<notin> set (gc_path_bytes c) \<and>
     from_utf8 (gc_path_bytes c) \<noteq> None"

definition gnu_member_at :: "(bytes \<Rightarrow> bytes) \<Rightarrow> snapshot \<Rightarrow> gnu_member \<Rightarrow> bool" where
  "gnu_member_at sha sn m \<longleftrightarrow>
     rlen (gm_payload m) = gm_size m \<and> rlen (gm_padding m) = pad_len (gm_size m) \<and>
     all_zero (range_bytes sn (gm_padding m)) \<and>
     gnu_parse_header sha (range_bytes sn (gm_header m)) (offset (gm_header m)) =
       Inr \<lparr>gh_raw_name = gm_raw_name m, gh_size = gm_size m, gh_mode = gm_mode m,
            gh_mtime = gm_mtime m, gh_header_checksum = gm_header_checksum m,
            gh_header_sha256 = gm_header_sha256 m, gh_header = gm_header m,
            gh_kind = (if gm_is_dir m then GnuDirectory else GnuFile)\<rparr>"

definition carrier_ranges :: "gnu_carrier \<Rightarrow> byte_range list" where
  "carrier_ranges c = [gc_header c, gc_payload c, gc_padding c]"

definition gnu_member_ranges :: "gnu_member \<Rightarrow> byte_range list" where
  "gnu_member_ranges m = [gm_header m, gm_payload m, gm_padding m]"

definition carrier_cost :: "gnu_carrier \<Rightarrow> nat" where
  "carrier_cost c = 512 + rlen (gc_payload c) + rlen (gc_padding c)"

definition carrier_end :: "gnu_carrier \<Rightarrow> nat" where
  "carrier_end c = offset (gc_padding c) + rlen (gc_padding c)"

lemma gnu_parse_header_ok:
  assumes "gnu_parse_header sha header offs = Inr h"
  shows "slice_of 257 265 header = OLDGNU_MAGIC" "header_checksum_matches header"
    "gh_header h = \<lparr>offset = offs, rlen = 512\<rparr>" "gnu_kind header = Inr (gh_kind h)"
    "parse_text_field (slice_of 0 100 header) False = Inr (gh_raw_name h)"
    "parse_octal (slice_of 124 136 header) = Inr (gh_size h)" "gh_mode h \<le> 4095"
    "gh_kind h = GnuDirectory \<Longrightarrow> gh_size h = 0"
  using assms
  by (auto simp: gnu_parse_header_def parse_header_numbers_def and_then_eq_Inr BLOCK_LEN_def
      split: if_splits dest: verify_checksum_ok)

lemma gnu_carrier_step_ok:
  assumes "gnu_carrier_step sha sn mm h st = Inr st'"
    and hb: "header = slice_of (gs_offset st) (gs_offset st + 512) (content sn)"
    and h: "gnu_parse_header sha header (gs_offset st) = Inr h"
    and k: "gh_kind h = GnuLongName"
  obtains c where "gnu_carrier_at sha sn c"
    "chain (gs_offset st) (carrier_ranges c) (gs_offset st')" "gs_offset st' \<le> snapshot_len sn"
    "gs_pending st = None" "length (gs_carriers st) < 1024"
    "gc_header c = \<lparr>offset = gs_offset st, rlen = 512\<rparr>"
    "gs_metadata_bytes st' = gs_metadata_bytes st + carrier_cost c"
    "gs_metadata_bytes st' \<le> mm" "gs_members st' = gs_members st"
    "gs_carriers st' = gs_carriers st @ [c]"
    "gs_pending st' = Some \<lparr>pn_path = the (from_utf8 (gc_path_bytes c)),
       pn_carrier_index = length (gs_carriers st)\<rparr>"
proof -
  let ?o = "gs_offset st"
  from assms(1) obtain md payload path pb pad e where pend: "gs_pending st = None"
    and n: "length (gs_carriers st) < 1024"
    and body: "gnu_carrier_body sn mm (gs_metadata_bytes st) (?o + 512) (gh_size h) =
      Inr (md, payload, path, pb, pad, e)"
    and st': "st' = st\<lparr>gs_carriers := gs_carriers st @
        [\<lparr>gc_raw_name = gh_raw_name h, gc_path_bytes = pb,
            gc_header_checksum = gh_header_checksum h, gc_header_sha256 = gh_header_sha256 h,
            gc_payload_sha256 = hex_sha256 sha payload, gc_mode = gh_mode h, gc_mtime = gh_mtime h,
            gc_header = gh_header h, gc_payload = \<lparr>offset = ?o + 512, rlen = gh_size h\<rparr>,
            gc_path = \<lparr>offset = ?o + 512, rlen = gh_size h - 1\<rparr>,
            gc_padding = \<lparr>offset = ?o + 512 + gh_size h, rlen = pad\<rparr>\<rparr>],
       gs_pending := Some \<lparr>pn_path = path, pn_carrier_index = length (gs_carriers st)\<rparr>,
       gs_offset := e, gs_metadata_bytes := md\<rparr>"
    by (auto simp: gnu_carrier_step_def Let_def and_then_eq_Inr BLOCK_LEN_def MAX_CARRIERS_def
        not_le split: if_splits)
  note body = gnu_carrier_body_ok [OF body]
  note h' = gnu_parse_header_ok [OF h]
  from body(9) have pay: "payload = pb @ [0]" "pb \<noteq> []" "length pb \<le> 8191" "0 \<notin> set pb"
    "from_utf8 pb = Some path" by (simp_all add: parse_carrier_payload_ok)
  then have len: "length pb = gh_size h - 1" using body(8) by auto
  have heq: "h = \<lparr>gh_raw_name = gh_raw_name h, gh_size = gh_size h, gh_mode = gh_mode h,
      gh_mtime = gh_mtime h, gh_header_checksum = gh_header_checksum h,
      gh_header_sha256 = gh_header_sha256 h, gh_header = gh_header h, gh_kind = gh_kind h\<rparr>" by simp
  let ?c = "\<lparr>gc_raw_name = gh_raw_name h, gc_path_bytes = pb,
            gc_header_checksum = gh_header_checksum h, gc_header_sha256 = gh_header_sha256 h,
            gc_payload_sha256 = hex_sha256 sha payload, gc_mode = gh_mode h, gc_mtime = gh_mtime h,
            gc_header = gh_header h, gc_payload = \<lparr>offset = ?o + 512, rlen = gh_size h\<rparr>,
            gc_path = \<lparr>offset = ?o + 512, rlen = gh_size h - 1\<rparr>,
            gc_padding = \<lparr>offset = ?o + 512 + gh_size h, rlen = pad\<rparr>\<rparr>"
  have at: "gnu_carrier_at sha sn ?c"
    using body(1,2,7,10) pay len h hb h'(3) k heq by (simp add: gnu_carrier_at_def range_bytes_def)
  show ?thesis
    by (rule that [of ?c]) (use at body(1-5) pend n h'(3) pay(5) in \<open>simp_all add: st'
        carrier_ranges_def carrier_cost_def\<close>)
qed

lemma gnu_member_step_ok:
  assumes "gnu_member_step sn mf mm h is_dir st = Inr st'"
    and hb: "header = slice_of (gs_offset st) (gs_offset st + 512) (content sn)"
    and le: "gs_offset st + 512 \<le> snapshot_len sn"
    and h: "gnu_parse_header sha header (gs_offset st) = Inr h"
    and k: "gh_kind h = (if is_dir then GnuDirectory else GnuFile)"
  obtains m where "gnu_member_at sha sn m"
    "chain (gs_offset st) (gnu_member_ranges m) (gs_offset st')" "gs_offset st' \<le> snapshot_len sn"
    "gm_header m = \<lparr>offset = gs_offset st, rlen = 512\<rparr>" "length (gs_members st) < mf"
    "gs_metadata_bytes st' = gs_metadata_bytes st + 512" "gs_metadata_bytes st' \<le> mm"
    "gs_members st' = gs_members st @ [m]" "gs_carriers st' = gs_carriers st"
    "gs_pending st' = None"
    "case gs_pending st of
       None \<Rightarrow> decode_effective_path (gm_raw_name m) = Inr (gm_name m) \<and> gm_carrier_index m = None
     | Some p \<Rightarrow> gm_name m = pn_path p \<and> gm_carrier_index m = Some (pn_carrier_index p)"
proof -
  let ?o = "gs_offset st"
  from assms(1) obtain name ci pl where n: "length (gs_members st) < mf"
    and md: "gs_metadata_bytes st + 512 \<le> mm"
    and nm: "gnu_member_name h st = Inr (name, ci)"
    and pl: "place_member sn (?o + 512) (gh_size h) name = Inr pl"
    and st': "st' = st\<lparr>gs_members := gs_members st @
                [\<lparr>gm_raw_name = gh_raw_name h, gm_name = name, gm_size = gh_size h,
                  gm_mode = gh_mode h, gm_mtime = gh_mtime h,
                  gm_header_checksum = gh_header_checksum h,
                  gm_header_sha256 = gh_header_sha256 h, gm_header = gh_header h,
                  gm_payload = pl_payload pl, gm_padding = pl_padding pl, gm_is_dir = is_dir,
                  gm_carrier_index = ci\<rparr>],
              gs_pending := None, gs_offset := pl_end pl,
              gs_metadata_bytes := gs_metadata_bytes st + 512\<rparr>"
    by (auto simp: gnu_member_step_def and_then_eq_Inr BLOCK_LEN_def not_le split: if_splits)
  note pl = place_member_ok [OF pl le]
  note h' = gnu_parse_header_ok [OF h]
  let ?m = "\<lparr>gm_raw_name = gh_raw_name h, gm_name = name, gm_size = gh_size h,
                  gm_mode = gh_mode h, gm_mtime = gh_mtime h,
                  gm_header_checksum = gh_header_checksum h,
                  gm_header_sha256 = gh_header_sha256 h, gm_header = gh_header h,
                  gm_payload = pl_payload pl, gm_padding = pl_padding pl, gm_is_dir = is_dir,
                  gm_carrier_index = ci\<rparr>"
  have heq: "h = \<lparr>gh_raw_name = gh_raw_name h, gh_size = gh_size h, gh_mode = gh_mode h,
      gh_mtime = gh_mtime h, gh_header_checksum = gh_header_checksum h,
      gh_header_sha256 = gh_header_sha256 h, gh_header = gh_header h, gh_kind = gh_kind h\<rparr>" by simp
  have at: "gnu_member_at sha sn ?m"
    using pl h hb h'(3) k heq by (simp add: gnu_member_at_def range_bytes_def)
  have "case gs_pending st of
       None \<Rightarrow> decode_effective_path (gh_raw_name h) = Inr name \<and> ci = None
     | Some p \<Rightarrow> name = pn_path p \<and> ci = Some (pn_carrier_index p)"
    using nm by (auto simp: gnu_member_name_def and_then_eq_Inr split: option.splits)
  then show ?thesis
    by (intro that [of ?m]) (use at pl n h'(3) md in \<open>simp_all add: st' gnu_member_ranges_def
        split: option.splits\<close>)
qed

lemma gnu_step_next:
  assumes "gnu_step sha sn mf mm st = Inr (Inl st')"
  obtains
    (carrier) header h where "read_header_block sn (gs_offset st) = Inr header"
      "\<not> is_zero_block header" "gnu_parse_header sha header (gs_offset st) = Inr h"
      "gh_kind h = GnuLongName" "gnu_carrier_step sha sn mm h st = Inr st'"
  | (member) header h is_dir where "read_header_block sn (gs_offset st) = Inr header"
      "\<not> is_zero_block header" "gnu_parse_header sha header (gs_offset st) = Inr h"
      "gh_kind h = (if is_dir then GnuDirectory else GnuFile)"
      "gnu_member_step sn mf mm h is_dir st = Inr st'"
proof -
  from assms obtain header h where h: "read_header_block sn (gs_offset st) = Inr header"
    "\<not> is_zero_block header" "gnu_parse_header sha header (gs_offset st) = Inr h"
    and e: "gnu_entry_step sha sn mf mm h st = Inr st'"
    by (auto simp: gnu_step_def and_then_eq_Inr split: if_splits)
  show ?thesis
  proof (cases "gh_kind h")
    case GnuFile
    then show ?thesis using member [OF h, of False] e by (simp add: gnu_entry_step_def)
  next
    case GnuDirectory
    then show ?thesis using member [OF h, of True] e by (simp add: gnu_entry_step_def)
  next
    case GnuLongName
    then show ?thesis using carrier [OF h] e by (simp add: gnu_entry_step_def)
  qed
qed

lemma gnu_step_cases:
  assumes "gnu_step sha sn mf mm st = Inr (Inl st')"
  obtains
    (carrier) c where "gnu_carrier_at sha sn c"
    "chain (gs_offset st) (carrier_ranges c) (gs_offset st')" "gs_offset st' \<le> snapshot_len sn"
    "gs_pending st = None" "length (gs_carriers st) < 1024"
    "gc_header c = \<lparr>offset = gs_offset st, rlen = 512\<rparr>"
    "gs_metadata_bytes st' = gs_metadata_bytes st + carrier_cost c"
    "gs_metadata_bytes st' \<le> mm" "gs_members st' = gs_members st"
    "gs_carriers st' = gs_carriers st @ [c]"
    "gs_pending st' = Some \<lparr>pn_path = the (from_utf8 (gc_path_bytes c)),
       pn_carrier_index = length (gs_carriers st)\<rparr>"
  | (member) m where "gnu_member_at sha sn m"
    "chain (gs_offset st) (gnu_member_ranges m) (gs_offset st')" "gs_offset st' \<le> snapshot_len sn"
    "gm_header m = \<lparr>offset = gs_offset st, rlen = 512\<rparr>" "length (gs_members st) < mf"
    "gs_metadata_bytes st' = gs_metadata_bytes st + 512" "gs_metadata_bytes st' \<le> mm"
    "gs_members st' = gs_members st @ [m]" "gs_carriers st' = gs_carriers st"
    "gs_pending st' = None"
    "case gs_pending st of
       None \<Rightarrow> decode_effective_path (gm_raw_name m) = Inr (gm_name m) \<and> gm_carrier_index m = None
     | Some p \<Rightarrow> gm_name m = pn_path p \<and> gm_carrier_index m = Some (pn_carrier_index p)"
  using assms
proof (cases rule: gnu_step_next)
  case (carrier header h)
  note hb = read_header_block_ok [OF carrier(1)]
  show ?thesis
    by (rule gnu_carrier_step_ok [OF carrier(5) _ carrier(3) carrier(4)])
      (use hb in simp, rule that(1))
next
  case (member header h is_dir)
  note hb = read_header_block_ok [OF member(1)]
  show ?thesis
    by (rule gnu_member_step_ok [OF member(5) _ _ member(3) member(4)])
      (use hb in simp, use hb in simp, rule that(2))
qed

lemma gnu_progress:
  assumes "gnu_step sha sn mf mm st = Inr (Inl st')"
  shows "gs_offset st < gs_offset st' \<and> gs_offset st' \<le> snapshot_len sn"
  using assms
proof (cases rule: gnu_step_cases)
  case (carrier c)
  then show ?thesis using chain_sum [OF carrier(2)] by (simp add: carrier_ranges_def)
next
  case (member m)
  then show ?thesis using chain_sum [OF member(2)] by (simp add: gnu_member_ranges_def)
qed

function gnu_loop ::
  "(bytes \<Rightarrow> bytes) \<Rightarrow> snapshot \<Rightarrow> nat \<Rightarrow> nat \<Rightarrow> gnu_state \<Rightarrow> finding + gnu_archive"
where
  "gnu_loop sha sn max_files max_metadata_bytes st =
     and_then (gnu_step sha sn max_files max_metadata_bytes st) (\<lambda>next.
       case next of
         Inl st' \<Rightarrow> gnu_loop sha sn max_files max_metadata_bytes st'
       | Inr archive \<Rightarrow> Inr archive)"
  by pat_completeness auto
termination
  by (relation "measure (\<lambda>(sha, sn, mf, mm, st). snapshot_len sn - gs_offset st)")
    (auto dest: gnu_progress)

declare gnu_loop.simps [simp del]

definition gnu_start :: gnu_state where
  "gnu_start = \<lparr>gs_members = [], gs_carriers = [], gs_pending = None, gs_offset = 0,
     gs_metadata_bytes = 0\<rparr>"

definition parse_gnu_longname_portable_v1 ::
  "(bytes \<Rightarrow> bytes) \<Rightarrow> snapshot \<Rightarrow> nat \<Rightarrow> nat \<Rightarrow> finding + gnu_archive"
where
  "parse_gnu_longname_portable_v1 sha sn max_files max_metadata_bytes =
     (if snapshot_len sn < BLOCK_LEN * 2 \<or> snapshot_len sn mod BLOCK_LEN \<noteq> 0
      then Inl (finding_error TarTruncated)
      else gnu_loop sha sn max_files max_metadata_bytes gnu_start)"

interpretation gnu: block_reader "gnu_step sha sn mf mm" "gnu_loop sha sn mf mm" gs_offset
    "snapshot_len sn" for sha sn mf mm
  by unfold_locales (subst gnu_loop.simps, rule refl, rule gnu_progress)

subsection \<open>The loop invariant\<close>

text \<open>A member with the carrier it consumes.\<close>

definition gnu_block :: "gnu_carrier list \<Rightarrow> gnu_member \<Rightarrow> byte_range list" where
  "gnu_block carriers m =
     (case gm_carrier_index m of None \<Rightarrow> [] | Some i \<Rightarrow> carrier_ranges (carriers ! i)) @ gnu_member_ranges m"

definition carriers_used :: "gnu_member list \<Rightarrow> nat list" where
  "carriers_used ms = concat (map (\<lambda>m. case gm_carrier_index m of None \<Rightarrow> [] | Some i \<Rightarrow> [i]) ms)"

definition gnu_name_ok :: "gnu_carrier list \<Rightarrow> gnu_member \<Rightarrow> bool" where
  "gnu_name_ok carriers m \<longleftrightarrow>
     (case gm_carrier_index m of
        None \<Rightarrow> from_utf8 (gm_raw_name m) = Some (gm_name m)
      | Some i \<Rightarrow> i < length carriers \<and> from_utf8 (gc_path_bytes (carriers ! i)) = Some (gm_name m))"

definition pending_count :: "gnu_state \<Rightarrow> nat" where
  "pending_count st = (case gs_pending st of None \<Rightarrow> 0 | Some p \<Rightarrow> 1)"

definition gnu_inv :: "(bytes \<Rightarrow> bytes) \<Rightarrow> snapshot \<Rightarrow> nat \<Rightarrow> nat \<Rightarrow> gnu_state \<Rightarrow> bool" where
  "gnu_inv sha sn mf mm st \<longleftrightarrow>
     chain 0 (concat (map (gnu_block (gs_carriers st)) (gs_members st)) @
       (case gs_pending st of None \<Rightarrow> [] | Some p \<Rightarrow> carrier_ranges (last (gs_carriers st)))) (gs_offset st) \<and>
     gs_offset st \<le> snapshot_len sn \<and>
     (\<forall>c \<in> set (gs_carriers st). gnu_carrier_at sha sn c) \<and>
     (\<forall>m \<in> set (gs_members st). gnu_member_at sha sn m \<and> gnu_name_ok (gs_carriers st) m) \<and>
     carriers_used (gs_members st) = [0..<length (gs_carriers st) - pending_count st] \<and>
     (case gs_pending st of None \<Rightarrow> True
      | Some p \<Rightarrow> gs_carriers st \<noteq> [] \<and> pn_carrier_index p = length (gs_carriers st) - 1 \<and>
          from_utf8 (gc_path_bytes (last (gs_carriers st))) = Some (pn_path p)) \<and>
     gs_metadata_bytes st = sum_list (map carrier_cost (gs_carriers st)) + 512 * length (gs_members st) \<and>
     length (gs_carriers st) \<le> 1024 \<and> length (gs_members st) \<le> mf"

lemma gnu_block_append:
  "gnu_name_ok carriers m \<Longrightarrow> gnu_block (carriers @ cs) m = gnu_block carriers m"
  "gnu_name_ok carriers m \<Longrightarrow> gnu_name_ok (carriers @ cs) m"
  by (auto simp: gnu_block_def gnu_name_ok_def nth_append split: option.splits)

lemma decode_effective_path_ok:
  "decode_effective_path raw = Inr name \<Longrightarrow> from_utf8 raw = Some name"
  by (auto simp: decode_effective_path_def and_then_eq_Inr)

lemma gnu_inv_step:
  assumes inv: "gnu_inv sha sn mf mm st" and step: "gnu_step sha sn mf mm st = Inr (Inl st')"
  shows "gnu_inv sha sn mf mm st'"
  using step
proof (cases rule: gnu_step_cases)
  case (carrier c)
  have nm: "gnu_name_ok (gs_carriers st) m" if "m \<in> set (gs_members st)" for m
    using that inv by (auto simp: gnu_inv_def)
  then have blocks: "map (gnu_block (gs_carriers st @ [c])) (gs_members st) =
      map (gnu_block (gs_carriers st)) (gs_members st)"
    by (auto simp: gnu_block_append)
  have "from_utf8 (gc_path_bytes c) = Some (the (from_utf8 (gc_path_bytes c)))"
    using carrier(1) by (auto simp: gnu_carrier_at_def)
  with inv carrier nm show ?thesis
    by (auto simp: gnu_inv_def blocks gnu_block_append pending_count_def)
next
  case (member m)
  show ?thesis
  proof (cases "gs_pending st")
    case None
    with member(11) have m: "gm_carrier_index m = None" "from_utf8 (gm_raw_name m) = Some (gm_name m)"
      by (auto dest: decode_effective_path_ok)
    with inv member None show ?thesis
      by (auto simp: gnu_inv_def gnu_block_def gnu_name_ok_def pending_count_def carriers_used_def)
  next
    case (Some p)
    let ?n = "length (gs_carriers st)"
    from inv Some have p: "gs_carriers st \<noteq> []" "pn_carrier_index p = ?n - 1"
      "from_utf8 (gc_path_bytes (last (gs_carriers st))) = Some (pn_path p)"
      "carriers_used (gs_members st) = [0..<?n - 1]"
      by (simp_all add: gnu_inv_def pending_count_def)
    with member(11) Some have m: "gm_carrier_index m = Some (?n - 1)" "gm_name m = pn_path p" by auto
    have "gs_carriers st ! (?n - 1) = last (gs_carriers st)" using p(1) by (simp add: last_conv_nth)
    moreover have "[0..<?n - 1] @ [?n - 1] = [0..<?n]"
      using p(1) by (metis One_nat_def Suc_pred length_greater_0_conv upt_Suc zero_le)
    ultimately show ?thesis
      using inv member Some p m
      by (auto simp: gnu_inv_def gnu_block_def gnu_name_ok_def pending_count_def carriers_used_def)
  qed
qed

lemma gnu_step_stop:
  assumes "gnu_step sha sn mf mm st = Inr (Inr a)"
  obtains header where "read_header_block sn (gs_offset st) = Inr header" "is_zero_block header"
    "gnu_finish sn mm st = Inr a"
  using assms by (auto simp: gnu_step_def and_then_eq_Inr split: if_splits)

lemma gnu_finish_ok:
  assumes "gnu_finish sn mm st = Inr a"
  shows "gs_pending st = None" "gs_offset st + 1024 \<le> snapshot_len sn"
    "all_zero (slice_of (gs_offset st + 512) (gs_offset st + 1024) (content sn))"
    "all_zero (slice_of (gs_offset st + 1024) (snapshot_len sn) (content sn))"
    "gs_metadata_bytes st + 1024 \<le> mm"
    "a = \<lparr>ga_members = gs_members st, ga_carriers = gs_carriers st,
          ga_member_records = \<lparr>offset = 0, rlen = gs_offset st\<rparr>,
          ga_terminator = \<lparr>offset = gs_offset st, rlen = 1024\<rparr>,
          ga_trailing_zeros = \<lparr>offset = gs_offset st + 1024,
            rlen = snapshot_len sn - (gs_offset st + 1024)\<rparr>,
          ga_metadata_bytes = gs_metadata_bytes st + 1024\<rparr>"
proof -
  from assms obtain e where p: "gs_pending st = None"
    and s: "read_second_block sn (gs_offset st + 512) = Inr e"
    and mm: "gs_metadata_bytes st + 1024 \<le> mm"
    and z: "ensure_zero_range sn e (snapshot_len sn - e) = Inr ()"
    and a: "a = \<lparr>ga_members = gs_members st, ga_carriers = gs_carriers st,
          ga_member_records = \<lparr>offset = 0, rlen = gs_offset st\<rparr>,
          ga_terminator = \<lparr>offset = gs_offset st, rlen = 1024\<rparr>,
          ga_trailing_zeros = \<lparr>offset = e, rlen = snapshot_len sn - e\<rparr>,
          ga_metadata_bytes = gs_metadata_bytes st + 1024\<rparr>"
    by (auto simp: gnu_finish_def and_then_eq_Inr BLOCK_LEN_def split: if_splits)
  note s = read_second_block_ok [OF s]
  with z have z: "all_zero (slice_of e (snapshot_len sn) (content sn))"
    using ensure_zero_range_ok [OF z] by simp
  from s have e: "e = gs_offset st + 1024" by simp
  show "gs_pending st = None" "gs_offset st + 1024 \<le> snapshot_len sn"
    "all_zero (slice_of (gs_offset st + 512) (gs_offset st + 1024) (content sn))"
    "all_zero (slice_of (gs_offset st + 1024) (snapshot_len sn) (content sn))"
    "gs_metadata_bytes st + 1024 \<le> mm"
    using p s z mm by (simp_all add: e add.commute)
  show "a = \<lparr>ga_members = gs_members st, ga_carriers = gs_carriers st,
          ga_member_records = \<lparr>offset = 0, rlen = gs_offset st\<rparr>,
          ga_terminator = \<lparr>offset = gs_offset st, rlen = 1024\<rparr>,
          ga_trailing_zeros = \<lparr>offset = gs_offset st + 1024,
            rlen = snapshot_len sn - (gs_offset st + 1024)\<rparr>,
          ga_metadata_bytes = gs_metadata_bytes st + 1024\<rparr>"
    using a by (simp add: e)
qed

lemma gnu_parse_final:
  assumes "parse_gnu_longname_portable_v1 sha sn mf mm = Inr a"
  obtains st header where "gnu_inv sha sn mf mm st"
    "read_header_block sn (gs_offset st) = Inr header" "is_zero_block header"
    "gnu_finish sn mm st = Inr a" "snapshot_len sn mod 512 = 0"
proof -
  from assms have len: "snapshot_len sn mod 512 = 0" and l: "gnu_loop sha sn mf mm gnu_start = Inr a"
    by (auto simp: parse_gnu_longname_portable_v1_def BLOCK_LEN_def split: if_splits)
  have "gnu_inv sha sn mf mm gnu_start"
    by (simp add: gnu_inv_def gnu_start_def carriers_used_def pending_count_def)
  with l have "\<exists>st. gnu_inv sha sn mf mm st \<and> gnu_step sha sn mf mm st = Inr (Inr a)"
    by (rule gnu.loop_invariant) (rule gnu_inv_step)
  with that len show ?thesis by (auto elim: gnu_step_stop)
qed

subsection \<open>Caps\<close>

lemma gnu_carrier_body_caps:
  assumes "gnu_carrier_body sn mm md po sz = Inr r"
  shows "gnu_carrier_body sn mm' md po sz =
    (if mm' < fst r then Inl (finding_error QuotaMetadata) else Inr r)"
proof -
  from assms obtain p payload pp where p: "round_up_block sz = Inr p" "po + sz \<le> u64_max"
    "po + p \<le> u64_max" "po + p \<le> snapshot_len sn" "512 + p \<le> u64_max" "md + (512 + p) \<le> u64_max"
    and r: "read_exact_at sn po sz = Inr payload" "parse_carrier_payload payload = Inr pp"
      "ensure_zero_range sn (po + sz) (p - sz) = Inr ()"
      "r = (md + (512 + p), payload, fst pp, snd pp, p - sz, po + p)"
    by (auto simp: gnu_carrier_body_def and_then_eq_Inr BLOCK_LEN_def case_prod_beta
        split: if_splits)
  then show ?thesis
    by (simp add: gnu_carrier_body_def add_metadata_capped [OF p(6)] BLOCK_LEN_def case_prod_beta)
qed

lemma gnu_carrier_step_caps:
  assumes "gnu_carrier_step sha sn mm h st = Inr st'"
  shows "gnu_carrier_step sha sn mm' h st =
    (if mm' < gs_metadata_bytes st' then Inl (finding_error QuotaMetadata) else Inr st')"
proof -
  from assms obtain r where r: "gnu_carrier_body sn mm (gs_metadata_bytes st) (gs_offset st + BLOCK_LEN)
      (gh_size h) = Inr r" "gs_metadata_bytes st' = fst r"
    by (auto simp: gnu_carrier_step_def Let_def and_then_eq_Inr case_prod_beta split: if_splits)
  show ?thesis
    using assms r gnu_carrier_body_caps [OF r(1), of mm']
    by (auto simp: gnu_carrier_step_def Let_def case_prod_beta split: if_splits)
qed

lemma gnu_member_step_caps:
  assumes "gnu_member_step sn mf mm h d st = Inr st'"
  shows "gnu_member_step sn mf' mm' h d st =
    (if mf' \<le> length (gs_members st) then Inl (finding_error QuotaFiles)
     else if mm' < gs_metadata_bytes st' then Inl (finding_error QuotaMetadata) else Inr st') \<and>
    length (gs_members st') = Suc (length (gs_members st))"
proof -
  from assms have md: "gs_metadata_bytes st + 512 \<le> u64_max"
    "add_metadata (gs_metadata_bytes st) BLOCK_LEN mm = Inr (gs_metadata_bytes st + 512)"
    "gs_metadata_bytes st' = gs_metadata_bytes st + 512"
    "length (gs_members st') = Suc (length (gs_members st))"
    by (auto simp: gnu_member_step_def and_then_eq_Inr BLOCK_LEN_def split: if_splits)
  then have "add_metadata (gs_metadata_bytes st) BLOCK_LEN mm' =
      (if mm' < gs_metadata_bytes st' then Inl (finding_error QuotaMetadata)
       else Inr (gs_metadata_bytes st + 512))"
    by (simp add: add_metadata_capped BLOCK_LEN_def)
  with assms md show ?thesis by (simp add: gnu_member_step_def split: if_splits)
qed

lemma gnu_step_caps:
  assumes step: "gnu_step sha sn mf mm st = Inr (Inl st')" and n: "length (gs_members st) \<le> mf'"
  shows "gnu_step sha sn mf' mm' st =
    (if mf' < length (gs_members st') then Inl (finding_error QuotaFiles)
     else if mm' < gs_metadata_bytes st' then Inl (finding_error QuotaMetadata) else Inr (Inl st'))"
  using step
proof (cases rule: gnu_step_next)
  case (carrier header h)
  have "gs_members st' = gs_members st"
    using carrier(5) by (auto simp: gnu_carrier_step_def Let_def and_then_eq_Inr split: if_splits)
  with n gnu_carrier_step_caps [OF carrier(5), of mm'] carrier show ?thesis
    by (simp add: gnu_step_def gnu_entry_step_def)
next
  case (member header h is_dir)
  with n gnu_member_step_caps [OF member(5), of mf' mm'] show ?thesis
    by (cases is_dir) (auto simp: gnu_step_def gnu_entry_step_def)
qed

lemma gnu_finish_caps:
  assumes "gnu_step sha sn mf mm st = Inr (Inr a)"
  shows "gnu_step sha sn mf' mm' st =
    (if mm' < ga_metadata_bytes a then Inl (finding_error QuotaMetadata) else Inr (Inr a))"
proof -
  from assms obtain header where h: "read_header_block sn (gs_offset st) = Inr header"
    "is_zero_block header" and f: "gnu_finish sn mm st = Inr a" by (rule gnu_step_stop)
  from f have "gnu_finish sn mm' st =
    (if mm' < ga_metadata_bytes a then Inl (finding_error QuotaMetadata) else Inr a)"
    by (auto simp: gnu_finish_def and_then_eq_Inr add_metadata_capped split: if_splits)
  with h show ?thesis by (simp add: gnu_step_def)
qed

interpretation gnu_caps: capped_reader "gnu_step sha sn" "gnu_loop sha sn" gs_offset
    "snapshot_len sn" "\<lambda>st. length (gs_members st)" gs_metadata_bytes
    "\<lambda>a. length (ga_members a)" ga_metadata_bytes "finding_error QuotaFiles"
    "finding_error QuotaMetadata" for sha sn
proof (rule capped_reader.intro)
  show "block_reader (gnu_step sha sn mf mm) (gnu_loop sha sn mf mm) gs_offset (snapshot_len sn)"
    for mf mm by (rule gnu.block_reader_axioms)
next
  fix mf mm st st'
  assume "gnu_step sha sn mf mm st = Inr (Inl st')"
  then show "length (gs_members st) \<le> length (gs_members st') \<and> gs_metadata_bytes st \<le> gs_metadata_bytes st'"
    by (cases rule: gnu_step_cases) auto
next
  fix mf mm st a
  assume "gnu_step sha sn mf mm st = Inr (Inr a)"
  then show "length (ga_members a) = length (gs_members st) \<and> gs_metadata_bytes st \<le> ga_metadata_bytes a"
    by (auto elim!: gnu_step_stop dest: gnu_finish_ok(6))
qed (fact gnu_step_caps, fact gnu_finish_caps)

subsection \<open>Properties of the old-GNU long-name reader\<close>

lemma gnu_parse_parts:
  assumes "parse_gnu_longname_portable_v1 sha sn mf mm = Inr a"
  shows "chain 0 (concat (map (gnu_block (ga_carriers a)) (ga_members a)) @
      [ga_terminator a, ga_trailing_zeros a]) (snapshot_len sn) \<and>
    carriers_used (ga_members a) = [0..<length (ga_carriers a)] \<and>
    (\<forall>m \<in> set (ga_members a). gnu_member_at sha sn m \<and> gnu_name_ok (ga_carriers a) m) \<and>
    (\<forall>c \<in> set (ga_carriers a). gnu_carrier_at sha sn c) \<and>
    all_zero (range_bytes sn (ga_terminator a)) \<and> all_zero (range_bytes sn (ga_trailing_zeros a)) \<and>
    ga_metadata_bytes a =
      sum_list (map carrier_cost (ga_carriers a)) + 512 * length (ga_members a) + 1024 \<and>
    length (ga_carriers a) \<le> 1024 \<and> length (ga_members a) \<le> mf \<and> ga_metadata_bytes a \<le> mm"
proof -
  from assms obtain st header where inv: "gnu_inv sha sn mf mm st"
    and h: "read_header_block sn (gs_offset st) = Inr header" "is_zero_block header"
    and f: "gnu_finish sn mm st = Inr a" by (rule gnu_parse_final)
  note f = gnu_finish_ok [OF f]
  have "all_zero (slice_of (gs_offset st) (gs_offset st + 512) (content sn))"
    using h read_header_block_ok [OF h(1)] by (simp add: is_zero_block_def)
  then have "all_zero (slice_of (gs_offset st) (gs_offset st + 1024) (content sn))"
    using f(3) all_zero_slice_append [of "gs_offset st" "gs_offset st + 512" "gs_offset st + 1024"
        "content sn"] by simp
  with inv f show ?thesis by (simp add: gnu_inv_def range_bytes_def pending_count_def)
qed

text \<open>C31. In an accepted old-GNU archive every carrier belongs to exactly one member: the carriers
  are used once each, in order, and directly precede the member that takes its name from them; a
  member without a carrier takes it from its header. Carriers and members with their padding, the
  terminator and the record padding partition the source; everything is what its bytes decode to;
  the metadata charged is exact and the caps hold.\<close>

theorem gnu_parse_sound:
  assumes "parse_gnu_longname_portable_v1 sha sn mf mm = Inr a"
  shows "chain 0 (concat (map (gnu_block (ga_carriers a)) (ga_members a)) @
      [ga_terminator a, ga_trailing_zeros a]) (snapshot_len sn) \<and>
    carriers_used (ga_members a) = [0..<length (ga_carriers a)] \<and>
    (\<forall>m \<in> set (ga_members a). gnu_member_at sha sn m \<and> gnu_name_ok (ga_carriers a) m) \<and>
    (\<forall>c \<in> set (ga_carriers a). gnu_carrier_at sha sn c) \<and>
    all_zero (range_bytes sn (ga_terminator a)) \<and> all_zero (range_bytes sn (ga_trailing_zeros a)) \<and>
    ga_metadata_bytes a =
      sum_list (map carrier_cost (ga_carriers a)) + 512 * length (ga_members a) + 1024 \<and>
    length (ga_carriers a) \<le> 1024 \<and> length (ga_members a) \<le> mf \<and> ga_metadata_bytes a \<le> mm"
  using assms by (rule gnu_parse_parts)

lemma empty_gnu_parse:
  "parse_gnu_longname_portable_v1 sha (memory_snapshot (replicate 1024 0)) 0 1024 =
     Inr \<lparr>ga_members = [], ga_carriers = [], ga_member_records = \<lparr>offset = 0, rlen = 0\<rparr>,
          ga_terminator = \<lparr>offset = 0, rlen = 1024\<rparr>, ga_trailing_zeros = \<lparr>offset = 1024, rlen = 0\<rparr>,
          ga_metadata_bytes = 1024\<rparr>"
proof -
  let ?sn = "memory_snapshot (replicate 1024 0)"
  have "read_header_block ?sn 0 = Inr (replicate 512 0)"
    by (simp add: read_header_block_def BLOCK_LEN_def read_exact_at_memory in_bounds_def u64_max_def
        slice_of_def)
  moreover have "read_second_block ?sn 512 = Inr 1024"
    by (simp add: read_second_block_def BLOCK_LEN_def read_exact_at_memory in_bounds_def u64_max_def
        slice_of_def is_zero_block_def)
  moreover have "ensure_zero_range ?sn 1024 0 = Inr ()" by (simp add: ensure_zero_range.simps)
  ultimately have "gnu_step sha ?sn 0 1024 gnu_start =
     Inr (Inr \<lparr>ga_members = [], ga_carriers = [], ga_member_records = \<lparr>offset = 0, rlen = 0\<rparr>,
          ga_terminator = \<lparr>offset = 0, rlen = 1024\<rparr>, ga_trailing_zeros = \<lparr>offset = 1024, rlen = 0\<rparr>,
          ga_metadata_bytes = 1024\<rparr>)"
    by (simp add: gnu_step_def gnu_start_def gnu_finish_def is_zero_block_def BLOCK_LEN_def u64_max_def)
  then show ?thesis
    by (simp add: parse_gnu_longname_portable_v1_def BLOCK_LEN_def gnu.loop_simps(3))
qed

theorem gnu_parse_sound_witness:
  "\<exists>a. parse_gnu_longname_portable_v1 id (memory_snapshot (replicate 1024 0)) 0 1024 = Inr a \<and>
     ga_metadata_bytes a = sum_list (map carrier_cost (ga_carriers a)) + 512 * length (ga_members a) + 1024"
  using gnu_parse_sound [OF empty_gnu_parse, of id] empty_gnu_parse [of id] by blast

text \<open>The caps of the old-GNU reader are exact, as its fuzzing harness asserts: an accepted archive
  is accepted under any caps it fits, a metadata cap that is too low is reported as
  \<open>QuotaMetadata\<close> and a file cap that is too low as \<open>QuotaFiles\<close>.\<close>

theorem gnu_caps_exact:
  assumes "parse_gnu_longname_portable_v1 sha sn mf mm = Inr a"
  shows "(length (ga_members a) \<le> mf' \<and> ga_metadata_bytes a \<le> mm' \<longrightarrow>
      parse_gnu_longname_portable_v1 sha sn mf' mm' = Inr a) \<and>
    (length (ga_members a) \<le> mf' \<and> mm' < ga_metadata_bytes a \<longrightarrow>
      parse_gnu_longname_portable_v1 sha sn mf' mm' = Inl (finding_error QuotaMetadata)) \<and>
    (mf' < length (ga_members a) \<and> ga_metadata_bytes a \<le> mm' \<longrightarrow>
      parse_gnu_longname_portable_v1 sha sn mf' mm' = Inl (finding_error QuotaFiles))"
proof -
  from assms have l: "gnu_loop sha sn mf mm gnu_start = Inr a"
    and len: "\<not> (snapshot_len sn < BLOCK_LEN * 2 \<or> snapshot_len sn mod BLOCK_LEN \<noteq> 0)"
    by (auto simp: parse_gnu_longname_portable_v1_def split: if_splits)
  have "length (gs_members gnu_start) \<le> mf'" by (simp add: gnu_start_def)
  from gnu_caps.loop_caps [OF l this, of mm'] len show ?thesis
    by (simp add: parse_gnu_longname_portable_v1_def)
qed

theorem gnu_caps_exact_witness:
  "parse_gnu_longname_portable_v1 id (memory_snapshot (replicate 1024 0)) 0 1023 =
     Inl (finding_error QuotaMetadata)"
  using gnu_caps_exact [OF empty_gnu_parse, of 0 1023] by simp

end
