(* ===== verification/Jail.thy ===== *)
theory Jail
  imports Findings
begin

text \<open>
  The path jail, \<open>crates/sealr/src/jail.rs\<close>. A member name is a list of Unicode scalar values.
  The Unicode tables come from third-party packages and from \<open>char::to_lowercase\<close>: they are
  the fields of the record \<^emph>\<open>unicode\<close>, an argument of the functions that use them. The failure of
  a bounded allocation is not modelled. \<open>join_under_dest\<close> uses \<open>std::path\<close>, modelled for Unix.
\<close>

datatype general_category = CatControl | CatUnassigned | CatPrivateUse | CatSurrogate | CatOther

record unicode =
  uc_nfc :: "rust_str \<Rightarrow> rust_str"
  uc_category :: "rust_char \<Rightarrow> general_category"
  uc_default_case_fold :: "rust_str \<Rightarrow> rust_str"
  uc_to_lowercase :: "rust_char \<Rightarrow> rust_str"

datatype zip_interpretation_profile =
  StrictAsciiV1 | StrictAsciiV2 | PortableUtf8V1 | WheelUtf8V1 | Zip64StrictAsciiV1

datatype normalization_action =
  StripDirectoryTrailingSlash | DropDotComponent (component_index: nat)

record jailed_name =
  jn_components :: "rust_str list"
  jn_actions :: "normalization_action list"

datatype component_disposition = DropDot | Keep

definition str_of :: "string \<Rightarrow> rust_str" where
  "str_of s = map of_char s"

abbreviation slash :: rust_char where "slash \<equiv> 0x2F"
abbreviation dot :: rust_char where "dot \<equiv> 0x2E"

definition RESERVED :: "rust_str list" where
  "RESERVED = map str_of
     [''CON'', ''PRN'', ''AUX'', ''NUL'', ''COM1'', ''COM2'', ''COM3'', ''COM4'', ''COM5'', ''COM6'',
      ''COM7'', ''COM8'', ''COM9'', ''LPT1'', ''LPT2'', ''LPT3'', ''LPT4'', ''LPT5'', ''LPT6'',
      ''LPT7'', ''LPT8'', ''LPT9'']"

definition PORTABLE_ADDITIONAL_RESERVED :: "rust_str list" where
  "PORTABLE_ADDITIONAL_RESERVED =
     [str_of ''COM'' @ [0xB9], str_of ''COM'' @ [0xB2], str_of ''COM'' @ [0xB3],
      str_of ''LPT'' @ [0xB9], str_of ''LPT'' @ [0xB2], str_of ''LPT'' @ [0xB3]]"

definition is_unicode_16_white_space :: "rust_char \<Rightarrow> bool" where
  "is_unicode_16_white_space c \<longleftrightarrow>
     c \<in> {0x85, 0xA0, 0x1680, 0x2028, 0x2029, 0x202F, 0x205F, 0x3000} \<or> (0x2000 \<le> c \<and> c \<le> 0x200A)"

definition is_legacy_bidi_control :: "rust_char \<Rightarrow> bool" where
  "is_legacy_bidi_control c \<longleftrightarrow>
     c = 0x200E \<or> c = 0x200F \<or> (0x202A \<le> c \<and> c \<le> 0x202E) \<or> (0x2066 \<le> c \<and> c \<le> 0x2069)"

definition is_bidi_control :: "rust_char \<Rightarrow> bool" where
  "is_bidi_control c \<longleftrightarrow>
     c = 0x061C \<or> c = 0x200E \<or> c = 0x200F \<or> (0x202A \<le> c \<and> c \<le> 0x202E) \<or>
     (0x2066 \<le> c \<and> c \<le> 0x2069)"

text \<open>Outside ASCII, \<open>char::is_whitespace\<close> is the White\_Space property, the same table.\<close>

definition invalid_character_for_profile :: "unicode \<Rightarrow> rust_char \<Rightarrow> zip_interpretation_profile \<Rightarrow> bool" where
  "invalid_character_for_profile u c profile =
     (if profile \<noteq> PortableUtf8V1
      then is_control c \<or> (\<not> c < 0x80 \<and> is_unicode_16_white_space c) \<or> is_legacy_bidi_control c
      else uc_category u c = CatControl \<or> (\<not> c < 0x80 \<and> is_unicode_16_white_space c) \<or>
        is_bidi_control c)"

definition ascii_upper :: "rust_char \<Rightarrow> rust_char" where
  "ascii_upper c = (if 0x61 \<le> c \<and> c \<le> 0x7A then c - 0x20 else c)"

definition eq_ignore_ascii_case :: "rust_str \<Rightarrow> rust_str \<Rightarrow> bool" where
  "eq_ignore_ascii_case a b \<longleftrightarrow> map ascii_upper a = map ascii_upper b"

definition is_reserved :: "rust_str \<Rightarrow> zip_interpretation_profile \<Rightarrow> bool" where
  "is_reserved part profile =
     (let stem = takeWhile (\<lambda>c. c \<noteq> dot) part
      in list_ex (eq_ignore_ascii_case stem) RESERVED \<or>
         (profile = PortableUtf8V1 \<and> list_ex (eq_ignore_ascii_case stem) PORTABLE_ADDITIONAL_RESERVED))"

definition ILLEGAL :: rust_str where
  "ILLEGAL = [0x3C, 0x3E, 0x22, 0x7C, 0x3F, 0x2A]"

definition validate_component ::
  "unicode \<Rightarrow> rust_str \<Rightarrow> zip_interpretation_profile \<Rightarrow> finding_code + component_disposition" where
  "validate_component u part profile =
     (if part = [] then Inl PathEmpty
      else if part = [dot] then Inr DropDot
      else if part = [dot, dot] then Inl PathDotDot
      else if 0x3A \<in> set part then Inl PathAds
      else if list_ex (\<lambda>c. invalid_character_for_profile u c profile \<or> c \<in> set ILLEGAL) part
      then Inl PathInvalidChar
      else if last part = dot \<or> last part = 0x20 then Inl PathTrailing
      else if is_reserved part profile then Inl PathReserved
      else Inr Keep)"

definition looks_like_drive :: "rust_str \<Rightarrow> bool" where
  "looks_like_drive s =
     (let b = as_bytes s
      in length b \<ge> 2 \<and>
         (0x41 \<le> unat (b ! 0) \<and> unat (b ! 0) \<le> 0x5A \<or> 0x61 \<le> unat (b ! 0) \<and> unat (b ! 0) \<le> 0x7A) \<and>
         b ! 1 = 0x3A)"

text \<open>\<open>str::split\<close> on a character.\<close>

fun split_on :: "rust_char \<Rightarrow> rust_str \<Rightarrow> rust_str list" where
  "split_on d [] = [[]]"
| "split_on d (c # cs) =
     (if c = d then [] # split_on d cs
      else case split_on d cs of
             [] \<Rightarrow> [[c]]
           | p # ps \<Rightarrow> (c # p) # ps)"

text \<open>The first pass: counts of kept components and of dropped dots.\<close>

fun count_components ::
  "unicode \<Rightarrow> zip_interpretation_profile \<Rightarrow> nat \<Rightarrow> rust_str list \<Rightarrow> nat \<times> nat \<Rightarrow> finding_code + nat \<times> nat" where
  "count_components u profile index [] counts = Inr counts"
| "count_components u profile index (part # parts) (component_count, action_count) =
     and_then (validate_component u part profile) (\<lambda>disposition.
       case disposition of
         DropDot \<Rightarrow>
           if index > u32_max then Inl PathDepth
           else count_components u profile (index + 1) parts (component_count, action_count + 1)
       | Keep \<Rightarrow> count_components u profile (index + 1) parts (component_count + 1, action_count))"

definition validate_name ::
  "unicode \<Rightarrow> rust_str \<Rightarrow> nat \<Rightarrow> zip_interpretation_profile \<Rightarrow> finding_code + nat \<times> nat" where
  "validate_name u raw max_depth profile =
     (if 0 \<in> set raw then Inl PathNul
      else if uc_nfc u raw \<noteq> raw then Inl PathUnicode
      else if 0x5C \<in> set raw then Inl PathInvalidChar
      else if (raw \<noteq> [] \<and> hd raw = slash) \<or> looks_like_drive raw then Inl PathAbsolute
      else
      and_then (count_components u profile 0 (split_on slash raw) (0, 0)) (\<lambda>(component_count, action_count).
      if component_count = 0 then Inl PathEmpty
      else if component_count > u32_max \<or> component_count > max_depth then Inl PathDepth
      else Inr (component_count, action_count)))"

text \<open>
  The second pass. It validates each component again and expects success; the branch for an
  invalid component is unreachable after the first pass, see \<open>validate_name_components\<close>.
\<close>

fun collect_components ::
  "unicode \<Rightarrow> zip_interpretation_profile \<Rightarrow> nat \<Rightarrow> rust_str list \<Rightarrow> jailed_name" where
  "collect_components u profile index [] = \<lparr>jn_components = [], jn_actions = []\<rparr>"
| "collect_components u profile index (part # parts) =
     (let rest = collect_components u profile (index + 1) parts
      in case validate_component u part profile of
           Inr DropDot \<Rightarrow> rest\<lparr>jn_actions := DropDotComponent index # jn_actions rest\<rparr>
         | Inr Keep \<Rightarrow> rest\<lparr>jn_components := part # jn_components rest\<rparr>
         | Inl _ \<Rightarrow> rest)"

definition jail_name_fallible_for_profile ::
  "unicode \<Rightarrow> rust_str \<Rightarrow> nat \<Rightarrow> zip_interpretation_profile \<Rightarrow> finding_code + jailed_name" where
  "jail_name_fallible_for_profile u raw max_depth profile =
     and_then (validate_name u raw max_depth profile) (\<lambda>_.
     Inr (collect_components u profile 0 (split_on slash raw)))"

definition jail_name_for_profile ::
  "unicode \<Rightarrow> rust_str \<Rightarrow> nat \<Rightarrow> zip_interpretation_profile \<Rightarrow> finding + jailed_name" where
  "jail_name_for_profile u raw max_depth profile =
     map_err (\<lambda>c. on_member raw (finding_error c)) (jail_name_fallible_for_profile u raw max_depth profile)"

definition jail_name :: "unicode \<Rightarrow> rust_str \<Rightarrow> nat \<Rightarrow> finding + jailed_name" where
  "jail_name u raw max_depth =
     map_err (\<lambda>c. on_member raw (finding_error c)) (jail_name_fallible_for_profile u raw max_depth StrictAsciiV1)"

definition jail_relative :: "unicode \<Rightarrow> rust_str \<Rightarrow> nat \<Rightarrow> finding + rust_str list" where
  "jail_relative u raw max_depth =
     and_then (jail_name u raw max_depth) (\<lambda>j. Inr (jn_components j))"

definition portable_unicode_case_fold :: "unicode \<Rightarrow> rust_str \<Rightarrow> rust_str" where
  "portable_unicode_case_fold u v = uc_nfc u (uc_default_case_fold u v)"

definition profile_case_fold :: "unicode \<Rightarrow> rust_str \<Rightarrow> zip_interpretation_profile \<Rightarrow> rust_str" where
  "profile_case_fold u v profile =
     (if profile = PortableUtf8V1 then portable_unicode_case_fold u v
      else uc_nfc u (concat (map (uc_to_lowercase u) v)))"

definition utf16_units :: "rust_str \<Rightarrow> nat" where
  "utf16_units s = sum_list (map (\<lambda>c. if c < 0x10000 then 1 else 2) s)"

text \<open>\<open>Some\<close> stands for the violation; its text is diagnostic.\<close>

definition portable_name_violation :: "unicode \<Rightarrow> jailed_name \<Rightarrow> unit option" where
  "portable_name_violation u jailed =
     (if jn_actions jailed \<noteq> [] then Some ()
      else if list_ex (list_ex (\<lambda>c. uc_category u c \<in> {CatUnassigned, CatPrivateUse, CatSurrogate}))
                (jn_components jailed) then Some ()
      else if list_ex (\<lambda>c. length (as_bytes c) > 255) (jn_components jailed) then Some ()
      else if list_ex (\<lambda>c. utf16_units c > 255) (jn_components jailed) then Some ()
      else None)"

subsection \<open>Paths of the operating system\<close>

datatype path_component = RootDir | CurDir | ParentDir | Normal rust_str

definition component_of :: "rust_str \<Rightarrow> path_component" where
  "component_of s = (if s = [dot, dot] then ParentDir else Normal s)"

text \<open>\<open>Path::components\<close> on Unix: repeated separators and dots are dropped, except a leading dot.\<close>

definition path_components :: "rust_str \<Rightarrow> path_component list" where
  "path_components p =
     (let parts = split_on slash p
      in (if p \<noteq> [] \<and> hd p = slash then [RootDir] else if hd parts = [dot] then [CurDir] else []) @
         map component_of (filter (\<lambda>s. s \<noteq> [] \<and> s \<noteq> [dot]) parts))"

text \<open>\<open>PathBuf::push\<close> on Unix: an absolute path replaces, another is appended behind a separator.\<close>

definition path_push :: "rust_str \<Rightarrow> rust_str \<Rightarrow> rust_str" where
  "path_push p s =
     (if s \<noteq> [] \<and> hd s = slash then s
      else if p = [] \<or> last p = slash then p @ s
      else p @ [slash] @ s)"

definition is_strict_child_or_eq :: "rust_str \<Rightarrow> rust_str \<Rightarrow> bool" where
  "is_strict_child_or_eq root target =
     (let r = path_components root in take (length r) (path_components target) = r)"

definition join_under_dest :: "rust_str \<Rightarrow> rust_str list \<Rightarrow> rust_str \<Rightarrow> finding + rust_str" where
  "join_under_dest dest parts raw =
     (let target = foldl path_push dest parts
      in if \<not> is_strict_child_or_eq dest target then Inl (on_member raw (finding_error PathEscape))
         else Inr target)"

subsection \<open>Splitting and joining\<close>

text \<open>\<open>[T]::join\<close> with a one-character separator.\<close>

fun join_on :: "rust_char \<Rightarrow> rust_str list \<Rightarrow> rust_str" where
  "join_on d [] = []"
| "join_on d [p] = p"
| "join_on d (p # q # ps) = p @ d # join_on d (q # ps)"

lemma split_on_not_Nil [simp]: "split_on d s \<noteq> []"
  by (induction s) (auto split: list.splits)

lemma split_on_no_sep: "p \<in> set (split_on d s) \<Longrightarrow> d \<notin> set p"
proof (induction s arbitrary: p)
  case (Cons c s)
  then show ?case by (cases "split_on d s") (auto split: if_splits)
qed simp

lemma split_on_subset: "p \<in> set (split_on d s) \<Longrightarrow> set p \<subseteq> set s"
proof (induction s arbitrary: p)
  case (Cons c s)
  then show ?case by (cases "split_on d s") (fastforce split: if_splits)+
qed simp

lemma join_split [simp]: "join_on d (split_on d s) = s"
proof (induction s)
  case (Cons c s)
  obtain p ps where "split_on d s = p # ps" by (cases "split_on d s") simp_all
  with Cons show ?case by (cases ps) auto
qed simp

lemma split_on_sep_free: "d \<notin> set s \<Longrightarrow> split_on d s = [s]"
  by (induction s) auto

lemma split_on_append: "split_on d (s @ d # t) = split_on d s @ split_on d t"
proof (induction s)
  case (Cons c s)
  obtain p ps where "split_on d s = p # ps" by (cases "split_on d s") simp_all
  with Cons show ?case by auto
qed simp

lemma split_join:
  "\<lbrakk>ps \<noteq> []; \<forall>p \<in> set ps. d \<notin> set p\<rbrakk> \<Longrightarrow> split_on d (join_on d ps) = ps"
  by (induction d ps rule: join_on.induct) (auto simp: split_on_append split_on_sep_free)

lemma split_on_last_sep:
  assumes "s \<noteq> []" "last s = d"
  obtains ps where "split_on d s = ps @ [[]]" "ps \<noteq> []" "\<And>t. d \<notin> set t \<Longrightarrow> split_on d (s @ t) = ps @ [t]"
proof -
  from assms obtain s' where s: "s = s' @ [d]" by (metis append_butlast_last_id)
  show ?thesis
  proof (rule that [of "split_on d s'"])
    show "split_on d s = split_on d s' @ [[]]" using split_on_append [of d s' "[]"] by (simp add: s)
    show "split_on d (s @ t) = split_on d s' @ [t]" if "d \<notin> set t" for t
      using that split_on_append [of d s' t] by (simp add: s split_on_sep_free)
  qed simp
qed

subsection \<open>What the jail keeps\<close>

definition safe_component :: "unicode \<Rightarrow> zip_interpretation_profile \<Rightarrow> rust_str \<Rightarrow> bool" where
  "safe_component u profile c \<longleftrightarrow>
     c \<noteq> [] \<and> c \<noteq> [dot] \<and> c \<noteq> [dot, dot] \<and> last c \<noteq> dot \<and> last c \<noteq> 0x20 \<and>
     (\<forall>x \<in> set c. x \<noteq> slash \<and> x \<noteq> 0x5C \<and> x \<noteq> 0 \<and> x \<noteq> 0x3A \<and> x \<notin> set ILLEGAL \<and>
        \<not> invalid_character_for_profile u x profile) \<and>
     \<not> is_reserved c profile"

lemma validate_component_keep:
  "validate_component u part profile = Inr Keep \<longleftrightarrow>
     part \<noteq> [] \<and> part \<noteq> [dot] \<and> part \<noteq> [dot, dot] \<and> last part \<noteq> dot \<and> last part \<noteq> 0x20 \<and>
     (\<forall>x \<in> set part. x \<noteq> 0x3A \<and> x \<notin> set ILLEGAL \<and> \<not> invalid_character_for_profile u x profile) \<and>
     \<not> is_reserved part profile"
  by (auto simp: validate_component_def list_ex_iff split: if_splits)

lemma validate_component_dot: "validate_component u part profile = Inr DropDot \<longleftrightarrow> part = [dot]"
  by (auto simp: validate_component_def split: if_splits)

lemma count_components_ok:
  "count_components u profile i parts (n, a) = Inr (n', a') \<Longrightarrow>
     (\<forall>p \<in> set parts. p = [dot] \<or> validate_component u p profile = Inr Keep) \<and>
     n' = n + length (filter (\<lambda>p. p \<noteq> [dot]) parts) \<and> a' = a + length (filter (\<lambda>p. p = [dot]) parts)"
proof (induction parts arbitrary: i n a)
  case (Cons p parts)
  from Cons.prems obtain disp where "validate_component u p profile = Inr disp"
    by (auto simp: and_then_eq_Inr)
  then show ?case
  proof (cases disp)
    case DropDot
    with Cons.prems \<open>validate_component u p profile = Inr disp\<close> Cons.IH show ?thesis
      by (fastforce simp: validate_component_dot split: if_splits)
  next
    case Keep
    with Cons.prems \<open>validate_component u p profile = Inr disp\<close> Cons.IH show ?thesis
      by (fastforce simp: validate_component_keep)
  qed
qed simp

lemma collect_components_ok:
  "\<forall>p \<in> set parts. p = [dot] \<or> validate_component u p profile = Inr Keep \<Longrightarrow>
     jn_components (collect_components u profile i parts) = filter (\<lambda>p. p \<noteq> [dot]) parts \<and>
     jn_actions (collect_components u profile i parts) =
       map (\<lambda>(j, p). DropDotComponent j) (filter (\<lambda>(j, p). p = [dot]) (enumerate i parts))"
proof (induction parts arbitrary: i)
  case (Cons p parts)
  show ?case
  proof (cases "p = [dot]")
    case True
    then have "validate_component u p profile = Inr DropDot" by (simp add: validate_component_dot)
    with True Cons show ?thesis by (simp add: Let_def)
  next
    case False
    then have "validate_component u p profile = Inr Keep" using Cons.prems by simp
    with False Cons show ?thesis by (simp add: Let_def)
  qed
qed simp

text \<open>After the first pass the second pass meets no invalid component.\<close>

lemma validate_name_components:
  assumes "validate_name u raw depth profile = Inr (n, a)"
  shows "\<forall>p \<in> set (split_on slash raw). p = [dot] \<or> validate_component u p profile = Inr Keep"
    "n = length (filter (\<lambda>p. p \<noteq> [dot]) (split_on slash raw))" "n \<noteq> 0" "n \<le> depth"
    "0 \<notin> set raw" "0x5C \<notin> set raw" "uc_nfc u raw = raw" "raw \<noteq> []" "hd raw \<noteq> slash"
proof -
  from assms have c: "count_components u profile 0 (split_on slash raw) (0, 0) = Inr (n, a)"
    and r: "n \<noteq> 0" "n \<le> depth" "0 \<notin> set raw" "0x5C \<notin> set raw" "uc_nfc u raw = raw"
      "raw = [] \<or> hd raw \<noteq> slash"
    by (auto simp: validate_name_def and_then_eq_Inr split: if_splits)
  note c' = count_components_ok [OF c]
  then show "\<forall>p \<in> set (split_on slash raw). p = [dot] \<or> validate_component u p profile = Inr Keep"
    "n = length (filter (\<lambda>p. p \<noteq> [dot]) (split_on slash raw))" by simp_all
  show "n \<noteq> 0" "n \<le> depth" "0 \<notin> set raw" "0x5C \<notin> set raw" "uc_nfc u raw = raw" by fact+
  show "raw \<noteq> []" using c' by (auto simp: validate_component_def)
  with r show "hd raw \<noteq> slash" by simp
qed

lemma jail_fallible_ok:
  assumes "jail_name_fallible_for_profile u raw depth profile = Inr j"
  shows "jn_components j = filter (\<lambda>p. p \<noteq> [dot]) (split_on slash raw)"
    "jn_actions j = map (\<lambda>(j, p). DropDotComponent j)
       (filter (\<lambda>(j, p). p = [dot]) (enumerate 0 (split_on slash raw)))"
    "jn_components j \<noteq> []" "length (jn_components j) \<le> depth"
    "\<forall>c \<in> set (jn_components j). safe_component u profile c" "raw \<noteq> []" "hd raw \<noteq> slash"
proof -
  from assms obtain n a where v: "validate_name u raw depth profile = Inr (n, a)"
    and j: "j = collect_components u profile 0 (split_on slash raw)"
    by (auto simp: jail_name_fallible_for_profile_def and_then_eq_Inr)
  note v = validate_name_components [OF v]
  note c = collect_components_ok [OF v(1), of 0]
  show comps: "jn_components j = filter (\<lambda>p. p \<noteq> [dot]) (split_on slash raw)"
    and "jn_actions j = map (\<lambda>(j, p). DropDotComponent j)
       (filter (\<lambda>(j, p). p = [dot]) (enumerate 0 (split_on slash raw)))"
    using c by (simp_all add: j)
  show "jn_components j \<noteq> []" "length (jn_components j) \<le> depth" "raw \<noteq> []" "hd raw \<noteq> slash"
    using v unfolding comps by auto
  show "\<forall>c \<in> set (jn_components j). safe_component u profile c"
  proof
    fix c assume "c \<in> set (jn_components j)"
    then have c: "c \<in> set (split_on slash raw)" "c \<noteq> [dot]" by (auto simp: comps)
    then have "validate_component u c profile = Inr Keep" using v(1) by blast
    moreover have "slash \<notin> set c" using c(1) by (rule split_on_no_sep)
    moreover have "0 \<notin> set c" "0x5C \<notin> set c" using split_on_subset [OF c(1)] v(5,6) by auto
    ultimately show "safe_component u profile c"
      unfolding safe_component_def validate_component_keep by metis
  qed
qed

lemma jail_for_profile_ok:
  "jail_name_for_profile u raw depth profile = Inr j \<longleftrightarrow>
     jail_name_fallible_for_profile u raw depth profile = Inr j"
  by (simp add: jail_name_for_profile_def)

text \<open>Without dropped dots the components are the name itself.\<close>

lemma jail_no_actions:
  assumes "jail_name_fallible_for_profile u raw depth profile = Inr j" "jn_actions j = []"
  shows "join_on slash (jn_components j) = raw" "jn_components j = split_on slash raw"
proof -
  note j = jail_fallible_ok [OF assms(1)]
  from assms(2) have f: "filter (\<lambda>(j, p). p = [dot]) (enumerate 0 (split_on slash raw)) = []"
    by (simp add: j(2))
  have "p \<noteq> [dot]" if "p \<in> set (split_on slash raw)" for p
  proof -
    from that have "p \<in> snd ` set (enumerate 0 (split_on slash raw))"
      by (metis list.set_map map_snd_enumerate)
    then obtain k where "(k, p) \<in> set (enumerate 0 (split_on slash raw))" by auto
    with f show ?thesis by (auto simp: filter_empty_conv)
  qed
  then show "jn_components j = split_on slash raw" by (simp add: j(1))
  then show "join_on slash (jn_components j) = raw" by simp
qed

subsection \<open>Joining under the destination\<close>

lemma path_push_components:
  assumes "s \<noteq> []" "s \<noteq> [dot]" "slash \<notin> set s"
  shows "path_components (path_push p s) = path_components p @ [component_of s]"
proof -
  have hd: "hd s \<noteq> slash" using assms by (cases s) auto
  show ?thesis
  proof (cases "p = []")
    case True
    then show ?thesis
      using assms hd by (simp add: path_push_def path_components_def Let_def split_on_sep_free)
  next
    case False
    show ?thesis
    proof (cases "last p = slash")
      case True
      from split_on_last_sep [OF False True] obtain ps where ps: "split_on slash p = ps @ [[]]" "ps \<noteq> []"
        "split_on slash (p @ s) = ps @ [s]" using assms(3) by metis
      then show ?thesis
        using assms hd False True by (simp add: path_push_def path_components_def Let_def hd_append)
    next
      case last: False
      have "split_on slash (p @ slash # s) = split_on slash p @ [s]"
        using assms(3) by (simp add: split_on_append split_on_sep_free)
      then show ?thesis
        using assms hd False last by (simp add: path_push_def path_components_def Let_def)
    qed
  qed
qed

lemma foldl_push_components:
  assumes "\<forall>s \<in> set parts. safe_component u profile s"
  shows "path_components (foldl path_push dest parts) = path_components dest @ map Normal parts"
  using assms
proof (induction parts arbitrary: dest)
  case (Cons s parts)
  then have s: "s \<noteq> []" "s \<noteq> [dot]" "s \<noteq> [dot, dot]" "slash \<notin> set s" by (auto simp: safe_component_def)
  then have "path_components (path_push dest s) = path_components dest @ [Normal s]"
    by (simp add: path_push_components component_of_def)
  with Cons show ?case by simp
qed simp

subsection \<open>Properties\<close>

text \<open>C2. The jail is safe. The components of an accepted name are the parts of the name between
  slashes without the single dots, at least one and at most the depth cap; none of them is empty,
  a dot or a parent reference, holds a slash, backslash, NUL, colon, control or bidirectional
  control character, ends in a dot or a space, or is a reserved device name; and the dropped dots
  are recorded with their positions. A name with a parent reference, or an absolute one, is never
  accepted.\<close>

theorem jail_safe:
  assumes "jail_name_for_profile u raw depth profile = Inr j"
  shows "jn_components j = filter (\<lambda>p. p \<noteq> [dot]) (split_on slash raw) \<and>
    jn_actions j = map (\<lambda>(i, p). DropDotComponent i)
      (filter (\<lambda>(i, p). p = [dot]) (enumerate 0 (split_on slash raw))) \<and>
    1 \<le> length (jn_components j) \<and> length (jn_components j) \<le> depth \<and>
    (\<forall>c \<in> set (jn_components j). safe_component u profile c) \<and>
    [dot, dot] \<notin> set (split_on slash raw) \<and> hd raw \<noteq> slash"
proof -
  note j = jail_fallible_ok [OF assms [unfolded jail_for_profile_ok]]
  have "[dot, dot] \<notin> set (split_on slash raw)"
  proof
    assume "[dot, dot] \<in> set (split_on slash raw)"
    then have "[dot, dot] \<in> set (jn_components j)" unfolding j(1) by simp
    with j(5) show False by (auto simp: safe_component_def)
  qed
  moreover have "1 \<le> length (jn_components j)" using j(3) by (cases "jn_components j") simp_all
  ultimately show ?thesis using j by blast
qed

definition ascii_unicode :: unicode where
  "ascii_unicode = \<lparr>uc_nfc = id, uc_category = (\<lambda>c. if is_control c then CatControl else CatOther),
     uc_default_case_fold = map (\<lambda>c. if 0x41 \<le> c \<and> c \<le> 0x5A then c + 0x20 else c),
     uc_to_lowercase = (\<lambda>c. [if 0x41 \<le> c \<and> c \<le> 0x5A then c + 0x20 else c])\<rparr>"

lemma ascii_unicode_sel [simp]:
  "uc_nfc ascii_unicode = id"
  "uc_category ascii_unicode c = (if is_control c then CatControl else CatOther)"
  "uc_default_case_fold ascii_unicode = map (\<lambda>c. if 0x41 \<le> c \<and> c \<le> 0x5A then c + 0x20 else c)"
  by (simp_all add: ascii_unicode_def)

text \<open>The definitions that evaluate the jail on a concrete name.\<close>

lemmas jail_eval =
  jail_name_for_profile_def jail_name_fallible_for_profile_def validate_name_def
  str_of_def looks_like_drive_def as_bytes_def encode_char_def
  validate_component_def invalid_character_for_profile_def is_control_def
  is_unicode_16_white_space_def is_bidi_control_def ILLEGAL_def is_reserved_def RESERVED_def
  PORTABLE_ADDITIONAL_RESERVED_def eq_ignore_ascii_case_def ascii_upper_def u32_max_def Let_def

lemma example_jail:
  "jail_name_for_profile ascii_unicode (str_of ''a/./b'') 8 PortableUtf8V1 =
     Inr \<lparr>jn_components = [str_of ''a'', str_of ''b''], jn_actions = [DropDotComponent 1]\<rparr>"
  by (simp add: jail_eval)

theorem jail_safe_witness:
  "\<exists>j. jail_name_for_profile ascii_unicode (str_of ''a/./b'') 8 PortableUtf8V1 = Inr j \<and>
     length (jn_components j) \<le> 8"
  using jail_safe [OF example_jail] example_jail by blast

text \<open>C32. Joining accepted components under the destination never escapes it and never fails: the
  target is the destination followed by exactly the components, each of them a normal path
  component.\<close>

theorem join_stays_under_dest:
  assumes "jail_name_for_profile u raw depth profile = Inr j"
  shows "\<exists>t. join_under_dest dest (jn_components j) raw = Inr t \<and>
    path_components t = path_components dest @ map Normal (jn_components j)"
proof -
  note j = jail_fallible_ok [OF assms [unfolded jail_for_profile_ok]]
  let ?t = "foldl path_push dest (jn_components j)"
  have t: "path_components ?t = path_components dest @ map Normal (jn_components j)"
    by (rule foldl_push_components [OF j(5)])
  then have "is_strict_child_or_eq dest ?t" by (simp add: is_strict_child_or_eq_def Let_def)
  with t show ?thesis by (simp add: join_under_dest_def Let_def)
qed

theorem join_stays_under_dest_witness:
  "\<exists>t. join_under_dest (str_of ''/d'') [str_of ''a'', str_of ''b''] (str_of ''a/./b'') = Inr t \<and>
     path_components t = [RootDir, Normal (str_of ''d''), Normal (str_of ''a''), Normal (str_of ''b'')]"
proof -
  have "path_components (str_of ''/d'') = [RootDir, Normal (str_of ''d'')]"
    by (simp add: path_components_def str_of_def component_of_def Let_def)
  with join_stays_under_dest [OF example_jail, of "str_of ''/d''"] show ?thesis by simp
qed

end
