(* ===== verification/Ir.thy ===== *)
theory Ir
  imports TarGnu Jail
begin

text \<open>
  The interpretation of an archive, \<open>crates/sealr/src/ir.rs\<close>: the evidence records of the
  formats, the members with their destination components, and the archive value with its
  source digest. Serialisation and the profile digests are not modelled; \<open>SourceDigest\<close> is of
  \<open>outcome.rs\<close>, \<open>PayloadPlan\<close> of \<open>verification.rs\<close>.
\<close>

datatype source_digest = Available (sha256_text: string) | Unavailable

definition digest_sha256 :: "source_digest \<Rightarrow> string option" where
  "digest_sha256 d = (case d of Available s \<Rightarrow> Some s | Unavailable \<Rightarrow> None)"

datatype archive_format =
    Zip32 | Zip64 | TarUstar | TarGzipUstar | TarPax | TarGnuLongName | TarGzipPax | TarGzipGnuLongName
  | TarZstdUstar | TarXzUstar | TarBzip2Ustar | SevenZCopy

datatype member_kind = MemberFile | MemberDirectory

datatype member_verification = Pending | Verified | Failed (failure_cause: string)

subsection \<open>Member evidence\<close>

datatype extra_site = LocalSite | CentralSite

datatype extra_disposition = Semantic | Ignored | Denied_extra

record extra_field_record =
  ef_site :: extra_site
  ef_id :: nat
  ef_header_range :: byte_range
  ef_data_range :: byte_range
  ef_disposition :: extra_disposition

record member_source_ranges =
  sr_local_header :: byte_range
  sr_compressed_payload :: byte_range
  sr_data_descriptor :: "byte_range option"
  sr_central_header :: byte_range

record zip_member_evidence =
  ze_method :: nat
  ze_flags :: nat
  ze_declared_crc :: nat
  ze_declared_comp_size :: nat
  ze_source_ranges :: member_source_ranges
  ze_extra_fields :: "extra_field_record list"
  ze_creator_system :: nat
  ze_external_attributes :: nat

datatype zip64_data_descriptor_width = DescriptorZip32 | DescriptorZip64

datatype zip64_local_value_shape = Absent | Exact | StreamingZeros | StreamingMaxima

record zip64_member_evidence =
  z64_zip :: zip_member_evidence
  z64_local_version_needed :: nat
  z64_central_version_needed :: nat
  z64_central_presence_mask :: nat
  z64_central_legacy_sentinel_mask :: nat
  z64_local_legacy_sentinel_mask :: nat
  z64_local_value_shape :: zip64_local_value_shape
  z64_local_zip64_extra :: "byte_range option"
  z64_central_zip64_extra :: "byte_range option"
  z64_descriptor_width :: "zip64_data_descriptor_width option"

record tar_member_evidence =
  te_header :: byte_range
  te_payload :: byte_range
  te_padding :: byte_range
  te_mode :: nat
  te_mtime :: nat
  te_header_checksum :: nat
  te_header_sha256 :: string

record pax_record_evidence =
  re_record :: byte_range
  re_value :: byte_range
  re_keyword :: pax_keyword
  re_raw_value_bytes :: bytes
  re_parsed_size :: "nat option"

record pax_extension_evidence =
  xe_raw_name_bytes :: bytes
  xe_kind :: pax_extension_kind
  xe_header :: byte_range
  xe_payload :: byte_range
  xe_padding :: byte_range
  xe_mode :: nat
  xe_mtime :: nat
  xe_header_checksum :: nat
  xe_header_sha256 :: string
  xe_payload_sha256 :: string
  xe_records :: "pax_record_evidence list"

record tar_pax_member_evidence =
  pe_tar :: tar_member_evidence
  pe_base_name_bytes :: bytes
  pe_base_size :: nat
  pe_path_source :: pax_value_source
  pe_size_source :: pax_value_source

datatype gnu_path_source = HeaderName | Carrier (carrier_index: nat)

record gnu_carrier_evidence =
  ce_raw_name_bytes :: bytes
  ce_path_bytes :: bytes
  ce_header :: byte_range
  ce_payload :: byte_range
  ce_path :: byte_range
  ce_padding :: byte_range
  ce_mode :: nat
  ce_mtime :: nat
  ce_header_checksum :: nat
  ce_header_sha256 :: string
  ce_payload_sha256 :: string

record tar_gnu_member_evidence =
  ge_tar :: tar_member_evidence
  ge_base_name_bytes :: bytes
  ge_path_source :: gnu_path_source

record sevenz_member_evidence =
  se_payload :: byte_range
  se_declared_crc :: "nat option"
  se_attributes :: "nat option"
  se_mtime :: "nat option"

datatype member_evidence =
    MemZip zip_member_evidence
  | MemZip64 zip64_member_evidence
  | MemTar tar_member_evidence
  | MemTarGzip tar_member_evidence
  | MemTarPax tar_pax_member_evidence
  | MemTarGnuLongName tar_gnu_member_evidence
  | MemTarGzipPax tar_pax_member_evidence
  | MemTarGzipGnuLongName tar_gnu_member_evidence
  | MemTarZstd tar_member_evidence
  | MemTarXz tar_member_evidence
  | MemTarBzip2 tar_member_evidence
  | MemSevenZ sevenz_member_evidence

record ir_member =
  im_raw_name_bytes :: bytes
  im_decoded_name :: rust_str
  im_canonical_path :: rust_str
  im_components :: "rust_str list"
  im_kind :: member_kind
  im_declared_uncomp_size :: nat
  im_evidence :: member_evidence
  im_actual_uncomp_size :: "nat option"
  im_actual_crc :: "nat option"
  im_content_sha256 :: "string option"
  im_verification :: member_verification
  im_normalization_actions :: "normalization_action list"

subsection \<open>Wrapper and archive evidence\<close>

record gzip_wrapper_evidence =
  gz_flags :: nat
  gz_modification_time :: nat
  gz_extra_flags :: nat
  gz_operating_system :: nat
  gz_header :: byte_range
  gz_extra :: "byte_range option"
  gz_extra_subfield_count :: nat
  gz_original_name :: "byte_range option"
  gz_comment :: "byte_range option"
  gz_header_crc16 :: "byte_range option"
  gz_compressed_payload :: byte_range
  gz_trailer :: byte_range
  gz_declared_crc32 :: nat
  gz_declared_isize :: nat
  gz_derived_output_len :: nat
  gz_derived_output_sha256 :: string

record zstd_wrapper_evidence =
  zs_descriptor :: nat
  zs_single_segment :: bool
  zs_checksum_flag :: bool
  zs_window_descriptor :: "nat option"
  zs_window_size :: nat
  zs_frame_content_size :: "nat option"
  zs_header :: byte_range
  zs_compressed_payload :: byte_range
  zs_trailer :: byte_range
  zs_declared_checksum :: "nat option"
  zs_derived_output_len :: nat
  zs_derived_output_sha256 :: string

record xz_block_evidence =
  xb_header :: byte_range
  xb_compressed :: byte_range
  xb_padding :: byte_range
  xb_check :: byte_range
  xb_dict_size :: nat
  xb_declared_compressed :: "nat option"
  xb_declared_uncompressed :: "nat option"
  xb_uncompressed_len :: nat
  xb_check_value :: bytes

record xz_wrapper_evidence =
  xz_check_id :: nat
  xz_header :: byte_range
  xz_blocks :: "xz_block_evidence list"
  xz_index :: byte_range
  xz_footer :: byte_range
  xz_derived_output_len :: nat
  xz_derived_output_sha256 :: string

record bzip2_wrapper_evidence =
  bz_level :: nat
  bz_header :: byte_range
  bz_payload_bits :: nat
  bz_padding_bits :: nat
  bz_block_bit_offsets :: "nat list"
  bz_block_crcs :: "nat list"
  bz_combined_crc :: nat
  bz_derived_output_len :: nat
  bz_derived_output_sha256 :: string

record sevenz_substream_evidence =
  ss_payload :: byte_range
  ss_declared_crc :: "nat option"

record sevenz_folder_evidence =
  sf_pack_stream :: byte_range
  sf_pack_crc :: "nat option"
  sf_unpack_size :: nat
  sf_folder_crc :: "nat option"
  sf_substreams :: "sevenz_substream_evidence list"

record sevenz_archive_evidence =
  sa_version_minor :: nat
  sa_pack_region :: byte_range
  sa_next_header :: byte_range
  sa_next_header_crc :: nat
  sa_folders :: "sevenz_folder_evidence list"
  sa_name_region_bytes :: nat
  sa_dummy_bytes :: nat

record archive_covering =
  zc_local_records :: byte_range
  zc_central_directory :: byte_range
  zc_eocd :: byte_range
  zc_comment :: byte_range

record zip64_archive_covering =
  zc64_local_records :: byte_range
  zc64_central_directory :: byte_range
  zc64_zip64_eocd :: "byte_range option"
  zc64_zip64_locator :: "byte_range option"
  zc64_eocd :: byte_range
  zc64_comment :: byte_range

record tar_archive_covering =
  tc_member_records :: byte_range
  tc_terminator :: byte_range
  tc_trailing_zeros :: byte_range

record tar_pax_archive_evidence =
  pae_tar :: tar_archive_covering
  pae_extensions :: "pax_extension_evidence list"

record tar_gnu_archive_evidence =
  gae_tar :: tar_archive_covering
  gae_carriers :: "gnu_carrier_evidence list"

datatype archive_evidence =
    ArcZip archive_covering
  | ArcZip64 zip64_archive_covering
  | ArcTar tar_archive_covering
  | ArcTarGzip gzip_wrapper_evidence tar_archive_covering
  | ArcTarPax tar_pax_archive_evidence
  | ArcTarGnuLongName tar_gnu_archive_evidence
  | ArcTarGzipPax gzip_wrapper_evidence tar_pax_archive_evidence
  | ArcTarGzipGnuLongName gzip_wrapper_evidence tar_gnu_archive_evidence
  | ArcTarZstd zstd_wrapper_evidence tar_archive_covering
  | ArcTarXz xz_wrapper_evidence tar_archive_covering
  | ArcTarBzip2 bzip2_wrapper_evidence tar_archive_covering
  | ArcSevenZ sevenz_archive_evidence

record archive_ir =
  ir_source_digest :: source_digest
  ir_evidence :: archive_evidence
  ir_members :: "ir_member list"

subsection \<open>Accessors\<close>

primrec member_evidence_format :: "member_evidence \<Rightarrow> archive_format" where
  "member_evidence_format (MemZip e) = Zip32"
| "member_evidence_format (MemZip64 e) = Zip64"
| "member_evidence_format (MemTar e) = TarUstar"
| "member_evidence_format (MemTarGzip e) = TarGzipUstar"
| "member_evidence_format (MemTarPax e) = TarPax"
| "member_evidence_format (MemTarGnuLongName e) = TarGnuLongName"
| "member_evidence_format (MemTarGzipPax e) = TarGzipPax"
| "member_evidence_format (MemTarGzipGnuLongName e) = TarGzipGnuLongName"
| "member_evidence_format (MemTarZstd e) = TarZstdUstar"
| "member_evidence_format (MemTarXz e) = TarXzUstar"
| "member_evidence_format (MemTarBzip2 e) = TarBzip2Ustar"
| "member_evidence_format (MemSevenZ e) = SevenZCopy"

definition member_format :: "ir_member \<Rightarrow> archive_format" where
  "member_format m = member_evidence_format (im_evidence m)"

primrec evidence_format :: "archive_evidence \<Rightarrow> archive_format" where
  "evidence_format (ArcZip c) = Zip32"
| "evidence_format (ArcZip64 c) = Zip64"
| "evidence_format (ArcTar c) = TarUstar"
| "evidence_format (ArcTarGzip w c) = TarGzipUstar"
| "evidence_format (ArcTarPax e) = TarPax"
| "evidence_format (ArcTarGnuLongName e) = TarGnuLongName"
| "evidence_format (ArcTarGzipPax w e) = TarGzipPax"
| "evidence_format (ArcTarGzipGnuLongName w e) = TarGzipGnuLongName"
| "evidence_format (ArcTarZstd w c) = TarZstdUstar"
| "evidence_format (ArcTarXz w c) = TarXzUstar"
| "evidence_format (ArcTarBzip2 w c) = TarBzip2Ustar"
| "evidence_format (ArcSevenZ e) = SevenZCopy"

definition ir_format :: "archive_ir \<Rightarrow> archive_format" where
  "ir_format ir = evidence_format (ir_evidence ir)"

definition member_tar_evidence :: "ir_member \<Rightarrow> tar_member_evidence option" where
  "member_tar_evidence m =
     (case im_evidence m of
        MemTar e \<Rightarrow> Some e | MemTarGzip e \<Rightarrow> Some e | MemTarZstd e \<Rightarrow> Some e | MemTarXz e \<Rightarrow> Some e
      | MemTarBzip2 e \<Rightarrow> Some e | MemTarPax e \<Rightarrow> Some (pe_tar e) | MemTarGzipPax e \<Rightarrow> Some (pe_tar e)
      | MemTarGnuLongName e \<Rightarrow> Some (ge_tar e) | MemTarGzipGnuLongName e \<Rightarrow> Some (ge_tar e)
      | _ \<Rightarrow> None)"

definition member_tar_pax_evidence :: "ir_member \<Rightarrow> tar_pax_member_evidence option" where
  "member_tar_pax_evidence m =
     (case im_evidence m of MemTarPax e \<Rightarrow> Some e | MemTarGzipPax e \<Rightarrow> Some e | _ \<Rightarrow> None)"

definition member_tar_gnu_evidence :: "ir_member \<Rightarrow> tar_gnu_member_evidence option" where
  "member_tar_gnu_evidence m =
     (case im_evidence m of MemTarGnuLongName e \<Rightarrow> Some e | MemTarGzipGnuLongName e \<Rightarrow> Some e | _ \<Rightarrow> None)"

definition ir_tar_covering :: "archive_ir \<Rightarrow> tar_archive_covering option" where
  "ir_tar_covering ir =
     (case ir_evidence ir of
        ArcTar c \<Rightarrow> Some c | ArcTarGzip _ c \<Rightarrow> Some c | ArcTarZstd _ c \<Rightarrow> Some c | ArcTarXz _ c \<Rightarrow> Some c
      | ArcTarBzip2 _ c \<Rightarrow> Some c | ArcTarPax e \<Rightarrow> Some (pae_tar e) | ArcTarGzipPax _ e \<Rightarrow> Some (pae_tar e)
      | ArcTarGnuLongName e \<Rightarrow> Some (gae_tar e) | ArcTarGzipGnuLongName _ e \<Rightarrow> Some (gae_tar e)
      | _ \<Rightarrow> None)"

definition ir_gzip_evidence :: "archive_ir \<Rightarrow> gzip_wrapper_evidence option" where
  "ir_gzip_evidence ir =
     (case ir_evidence ir of
        ArcTarGzip w _ \<Rightarrow> Some w | ArcTarGzipPax w _ \<Rightarrow> Some w | ArcTarGzipGnuLongName w _ \<Rightarrow> Some w
      | _ \<Rightarrow> None)"

definition ir_zstd_evidence :: "archive_ir \<Rightarrow> zstd_wrapper_evidence option" where
  "ir_zstd_evidence ir = (case ir_evidence ir of ArcTarZstd w _ \<Rightarrow> Some w | _ \<Rightarrow> None)"

definition ir_xz_evidence :: "archive_ir \<Rightarrow> xz_wrapper_evidence option" where
  "ir_xz_evidence ir = (case ir_evidence ir of ArcTarXz w _ \<Rightarrow> Some w | _ \<Rightarrow> None)"

definition ir_bzip2_evidence :: "archive_ir \<Rightarrow> bzip2_wrapper_evidence option" where
  "ir_bzip2_evidence ir = (case ir_evidence ir of ArcTarBzip2 w _ \<Rightarrow> Some w | _ \<Rightarrow> None)"

definition ir_tar_pax_evidence :: "archive_ir \<Rightarrow> tar_pax_archive_evidence option" where
  "ir_tar_pax_evidence ir =
     (case ir_evidence ir of ArcTarPax e \<Rightarrow> Some e | ArcTarGzipPax _ e \<Rightarrow> Some e | _ \<Rightarrow> None)"

definition ir_tar_gnu_evidence :: "archive_ir \<Rightarrow> tar_gnu_archive_evidence option" where
  "ir_tar_gnu_evidence ir =
     (case ir_evidence ir of ArcTarGnuLongName e \<Rightarrow> Some e | ArcTarGzipGnuLongName _ e \<Rightarrow> Some e | _ \<Rightarrow> None)"

subsection \<open>Members from planned members\<close>

definition kind_of :: "bool \<Rightarrow> member_kind" where
  "kind_of is_dir = (if is_dir then MemberDirectory else MemberFile)"

definition from_tar_planned_for_format ::
  "tar_wrapper_class \<Rightarrow> tar_member \<Rightarrow> rust_str list \<Rightarrow> normalization_action list \<Rightarrow> ir_member"
where
  "from_tar_planned_for_format wrapper tar components actions =
     (let evidence = \<lparr>te_header = tm_header tar, te_payload = tm_payload tar, te_padding = tm_padding tar,
            te_mode = tm_mode tar, te_mtime = tm_mtime tar,
            te_header_checksum = tm_header_checksum tar, te_header_sha256 = tm_header_sha256 tar\<rparr>
      in \<lparr>im_raw_name_bytes = tm_raw_name tar, im_decoded_name = tm_name tar,
          im_canonical_path = join_on slash components, im_components = components,
          im_kind = kind_of (tm_is_dir tar), im_declared_uncomp_size = tm_size tar,
          im_evidence = (case wrapper of Raw \<Rightarrow> MemTar evidence | Gzip \<Rightarrow> MemTarGzip evidence
            | Zstd \<Rightarrow> MemTarZstd evidence | Xz \<Rightarrow> MemTarXz evidence | Bzip2 \<Rightarrow> MemTarBzip2 evidence),
          im_actual_uncomp_size = None, im_actual_crc = None, im_content_sha256 = None,
          im_verification = Pending, im_normalization_actions = actions\<rparr>)"

definition from_tar_pax_planned_for_format ::
  "bool \<Rightarrow> pax_member \<Rightarrow> rust_str list \<Rightarrow> normalization_action list \<Rightarrow> ir_member"
where
  "from_tar_pax_planned_for_format gzip_wrapped m components actions =
     (let evidence = \<lparr>pe_tar = \<lparr>te_header = pm_header m, te_payload = pm_payload m, te_padding = pm_padding m,
            te_mode = pm_mode m, te_mtime = pm_mtime m,
            te_header_checksum = pm_header_checksum m, te_header_sha256 = pm_header_sha256 m\<rparr>,
            pe_base_name_bytes = pm_raw_name m, pe_base_size = pm_header_size m,
            pe_path_source = pm_path_source m, pe_size_source = pm_size_source m\<rparr>
      in \<lparr>im_raw_name_bytes = as_bytes (pm_name m), im_decoded_name = pm_name m,
          im_canonical_path = join_on slash components, im_components = components,
          im_kind = kind_of (pm_is_dir m), im_declared_uncomp_size = pm_size m,
          im_evidence = (if gzip_wrapped then MemTarGzipPax evidence else MemTarPax evidence),
          im_actual_uncomp_size = None, im_actual_crc = None, im_content_sha256 = None,
          im_verification = Pending, im_normalization_actions = actions\<rparr>)"

definition from_tar_gnu_longname_planned_for_format ::
  "bool \<Rightarrow> gnu_member \<Rightarrow> rust_str list \<Rightarrow> normalization_action list \<Rightarrow> ir_member"
where
  "from_tar_gnu_longname_planned_for_format gzip_wrapped m components actions =
     (let evidence = \<lparr>ge_tar = \<lparr>te_header = gm_header m, te_payload = gm_payload m, te_padding = gm_padding m,
            te_mode = gm_mode m, te_mtime = gm_mtime m,
            te_header_checksum = gm_header_checksum m, te_header_sha256 = gm_header_sha256 m\<rparr>,
            ge_base_name_bytes = gm_raw_name m,
            ge_path_source = (case gm_carrier_index m of None \<Rightarrow> HeaderName | Some i \<Rightarrow> Carrier i)\<rparr>
      in \<lparr>im_raw_name_bytes = as_bytes (gm_name m), im_decoded_name = gm_name m,
          im_canonical_path = join_on slash components, im_components = components,
          im_kind = kind_of (gm_is_dir m), im_declared_uncomp_size = gm_size m,
          im_evidence = (if gzip_wrapped then MemTarGzipGnuLongName evidence else MemTarGnuLongName evidence),
          im_actual_uncomp_size = None, im_actual_crc = None, im_content_sha256 = None,
          im_verification = Pending, im_normalization_actions = actions\<rparr>)"

text \<open>The evidence the pax planner takes from the extensions of the reader.\<close>

definition pax_record_evidence_of :: "pax_record \<Rightarrow> pax_record_evidence" where
  "pax_record_evidence_of r =
     \<lparr>re_record = pr_record r, re_value = pr_value_range r, re_keyword = pr_keyword r,
      re_raw_value_bytes = pr_raw_value_bytes r,
      re_parsed_size = (case pr_value r of PathValue _ \<Rightarrow> None | SizeValue sz \<Rightarrow> Some sz)\<rparr>"

definition pax_extension_evidence_of :: "pax_extension \<Rightarrow> pax_extension_evidence" where
  "pax_extension_evidence_of x =
     \<lparr>xe_raw_name_bytes = px_raw_name x, xe_kind = px_kind x, xe_header = px_header x,
      xe_payload = px_payload x, xe_padding = px_padding x, xe_mode = px_mode x, xe_mtime = px_mtime x,
      xe_header_checksum = px_header_checksum x, xe_header_sha256 = px_header_sha256 x,
      xe_payload_sha256 = px_payload_sha256 x, xe_records = map pax_record_evidence_of (px_records x)\<rparr>"

definition gnu_carrier_evidence_of :: "gnu_carrier \<Rightarrow> gnu_carrier_evidence" where
  "gnu_carrier_evidence_of c =
     \<lparr>ce_raw_name_bytes = gc_raw_name c, ce_path_bytes = gc_path_bytes c, ce_header = gc_header c,
      ce_payload = gc_payload c, ce_path = gc_path c, ce_padding = gc_padding c, ce_mode = gc_mode c,
      ce_mtime = gc_mtime c, ce_header_checksum = gc_header_checksum c,
      ce_header_sha256 = gc_header_sha256 c, ce_payload_sha256 = gc_payload_sha256 c\<rparr>"

end
