(* ===== verification/Outcome.thy ===== *)
theory Outcome
  imports Ir
begin

text \<open>
  Outcomes: the five semantic axes with their constructors (\<open>crates/sealr/src/outcome.rs\<close>) and
  the verdict, exit code, member views and outcome assembly of \<open>crates/sealr/src/apply.rs\<close>. An
  outcome keeps what its decisions are: axes, verdict, magic, findings, member views and the
  interpretation. The parts of the view and the receipt that repeat these, and the identities,
  policy and environment labels that are passed through, are left out.
\<close>

datatype interpretation_status = Interpreted | Malformed | Unsupported | Indeterminate

datatype admission_status = Admitted | Denied | NotEvaluated

datatype verification_status =
    StructureOnly
  | PartialVerification (verified_members: nat) (pending_members: nat)
  | CompleteVerification

datatype effect_status = NotRequested | Committed | FailedEffect

datatype stopping_phase = SourcePhase | StructurePhase | AdmissionPhase | VerificationPhase | EffectPhase

datatype view_completeness = CompleteView | PartialView (stop_phase: stopping_phase) (stop_cause: string)

record semantic_axes =
  ax_interpretation :: interpretation_status
  ax_admission :: admission_status
  ax_verification :: verification_status
  ax_effect :: effect_status
  ax_view_completeness :: view_completeness

definition partial :: "stopping_phase \<Rightarrow> finding \<Rightarrow> view_completeness" where
  "partial ph f = PartialView ph (as_str (code f))"

definition inspect_complete :: semantic_axes where
  "inspect_complete = \<lparr>ax_interpretation = Interpreted, ax_admission = Admitted,
     ax_verification = CompleteVerification, ax_effect = NotRequested, ax_view_completeness = CompleteView\<rparr>"

definition materialize_committed :: semantic_axes where
  "materialize_committed = \<lparr>ax_interpretation = Interpreted, ax_admission = Admitted,
     ax_verification = CompleteVerification, ax_effect = Committed, ax_view_completeness = CompleteView\<rparr>"

definition source_failure :: "finding \<Rightarrow> admission_status \<Rightarrow> semantic_axes" where
  "source_failure f admission = \<lparr>ax_interpretation = Indeterminate, ax_admission = admission,
     ax_verification = StructureOnly, ax_effect = NotRequested,
     ax_view_completeness = partial SourcePhase f\<rparr>"

definition structure_stop :: "interpretation_status \<Rightarrow> admission_status \<Rightarrow> finding \<Rightarrow> semantic_axes" where
  "structure_stop i a f = \<lparr>ax_interpretation = i, ax_admission = a, ax_verification = StructureOnly,
     ax_effect = NotRequested, ax_view_completeness = partial StructurePhase f\<rparr>"

definition denied_at_admission :: "finding \<Rightarrow> semantic_axes" where
  "denied_at_admission f = \<lparr>ax_interpretation = Interpreted, ax_admission = Denied,
     ax_verification = StructureOnly, ax_effect = NotRequested,
     ax_view_completeness = partial AdmissionPhase f\<rparr>"

definition admitted_setup_failed :: "finding \<Rightarrow> semantic_axes" where
  "admitted_setup_failed f = \<lparr>ax_interpretation = Interpreted, ax_admission = Admitted,
     ax_verification = StructureOnly, ax_effect = FailedEffect,
     ax_view_completeness = partial EffectPhase f\<rparr>"

definition admitted_verification_stop :: "nat \<Rightarrow> nat \<Rightarrow> finding \<Rightarrow> bool \<Rightarrow> semantic_axes" where
  "admitted_verification_stop verified pending f dest_requested =
     (let (i, a) =
        (if code f = SourceIo then (Indeterminate, Admitted)
         else if code f \<in> {CodecDeflateInvalidStream, CodecDeflateTrailingInput, ZipDiffC4Offset}
         then (Malformed, NotEvaluated)
         else if code f \<in> {MaterializeIo, MaterializeUnsafeComponent, MaterializeCommit, MaterializeExists}
         then (Interpreted, Admitted)
         else (Interpreted, Denied))
      in \<lparr>ax_interpretation = i, ax_admission = a,
          ax_verification = PartialVerification verified pending,
          ax_effect = (if dest_requested then FailedEffect else NotRequested),
          ax_view_completeness = partial VerificationPhase f\<rparr>)"

definition admitted_publication_failed :: "finding \<Rightarrow> semantic_axes" where
  "admitted_publication_failed f = \<lparr>ax_interpretation = Interpreted, ax_admission = Admitted,
     ax_verification = CompleteVerification, ax_effect = FailedEffect,
     ax_view_completeness = CompleteView\<rparr>"

definition policy_compile_failed :: "finding \<Rightarrow> semantic_axes" where
  "policy_compile_failed f = \<lparr>ax_interpretation = Indeterminate, ax_admission = Denied,
     ax_verification = StructureOnly, ax_effect = NotRequested,
     ax_view_completeness = partial AdmissionPhase f\<rparr>"

subsection \<open>Verdict and exit code\<close>

datatype verdict = Allowed (verdict_wrote: bool) | Rejected

definition compat_verdict :: "semantic_axes \<Rightarrow> verdict" where
  "compat_verdict axes =
     (case (ax_admission axes, ax_verification axes, ax_effect axes) of
        (Admitted, CompleteVerification, Committed) \<Rightarrow> Allowed True
      | (Admitted, CompleteVerification, NotRequested) \<Rightarrow> Allowed False
      | _ \<Rightarrow> Rejected)"

definition compat_exit_code :: "admission_status \<Rightarrow> verification_status \<Rightarrow> effect_status \<Rightarrow> nat" where
  "compat_exit_code admission verification effect =
     (if admission = Admitted \<and> effect = FailedEffect then 3
      else if admission = Admitted \<and> verification = CompleteVerification \<and>
              (effect = Committed \<or> effect = NotRequested) then 0
      else 2)"

text \<open>\<open>first_error\<close> panics without an error finding: \<open>None\<close>.\<close>

definition first_error :: "finding list \<Rightarrow> finding option" where
  "first_error fs = find (\<lambda>f. severity f = Error) fs"

definition parse_failure_axes :: "finding \<Rightarrow> semantic_axes" where
  "parse_failure_axes f =
     (let interpretation =
            (if code f = SourceIo then Indeterminate
             else if code f \<in> {FormatUnsupported, ZipDiffC5Zip64, ZipEncoding, TarFeatureUnsupported}
             then Unsupported
             else if code f \<in> {QuotaFiles, QuotaMetadata, QuotaOverflow} then Interpreted
             else Malformed);
          admission =
            (if code f \<in> {QuotaFiles, QuotaMetadata, QuotaOverflow} then Denied else NotEvaluated)
      in structure_stop interpretation admission f)"

subsection \<open>Member views and outcomes\<close>

record member_view =
  mv_path :: rust_str
  mv_kind :: string
  mv_comp_bytes :: nat
  mv_uncomp_bytes :: nat
  mv_method :: string
  mv_crc32 :: string
  mv_sha256 :: string

text \<open>\<open>format!("{:08x}", n)\<close> of a \<open>u32\<close>.\<close>

definition hex_u32 :: "nat \<Rightarrow> string" where
  "hex_u32 n = map (\<lambda>i. hex_digit (n div 16 ^ (7 - i) mod 16)) [0..<8]"

definition member_method :: "member_evidence \<Rightarrow> string \<times> nat \<times> nat" where
  "member_method e =
     (case e of
        MemZip z \<Rightarrow> (if ze_method z = 0 then ''store'' else ''deflate'', ze_declared_comp_size z, ze_declared_crc z)
      | MemZip64 z \<Rightarrow> (if ze_method (z64_zip z) = 0 then ''store'' else ''deflate'',
          ze_declared_comp_size (z64_zip z), ze_declared_crc (z64_zip z))
      | MemTar t \<Rightarrow> (''raw'', rlen (te_payload t), 0)
      | MemTarGzip t \<Rightarrow> (''raw'', rlen (te_payload t), 0)
      | MemTarZstd t \<Rightarrow> (''raw'', rlen (te_payload t), 0)
      | MemTarXz t \<Rightarrow> (''raw'', rlen (te_payload t), 0)
      | MemTarBzip2 t \<Rightarrow> (''raw'', rlen (te_payload t), 0)
      | MemTarPax t \<Rightarrow> (''raw'', rlen (te_payload (pe_tar t)), 0)
      | MemTarGzipPax t \<Rightarrow> (''raw'', rlen (te_payload (pe_tar t)), 0)
      | MemTarGnuLongName t \<Rightarrow> (''raw'', rlen (te_payload (ge_tar t)), 0)
      | MemTarGzipGnuLongName t \<Rightarrow> (''raw'', rlen (te_payload (ge_tar t)), 0)
      | MemSevenZ s \<Rightarrow> (''copy'', rlen (se_payload s), case se_declared_crc s of Some c \<Rightarrow> c | None \<Rightarrow> 0))"

definition member_view_of :: "ir_member \<Rightarrow> member_view" where
  "member_view_of m =
     (let (method, declared_comp_size, declared_crc) = member_method (im_evidence m)
      in \<lparr>mv_path = im_canonical_path m,
          mv_kind = (case im_kind m of MemberDirectory \<Rightarrow> ''dir'' | MemberFile \<Rightarrow> ''file''),
          mv_comp_bytes = (if im_kind m = MemberDirectory then 0 else declared_comp_size),
          mv_uncomp_bytes = (case im_actual_uncomp_size m of Some n \<Rightarrow> n | None \<Rightarrow> 0),
          mv_method = (if im_kind m = MemberDirectory then ''store'' else method),
          mv_crc32 = hex_u32 (case im_actual_crc m of Some c \<Rightarrow> c | None \<Rightarrow> declared_crc),
          mv_sha256 = (case im_content_sha256 m of Some s \<Rightarrow> s | None \<Rightarrow> [])\<rparr>)"

record outcome =
  oc_axes :: semantic_axes
  oc_verdict :: verdict
  oc_wrote :: bool
  oc_source_digest :: source_digest
  oc_magic :: string
  oc_findings :: "finding list"
  oc_members :: "member_view list"
  oc_archive_ir :: "archive_ir option"
  oc_verified :: bool

definition finish ::
  "source_digest \<Rightarrow> string \<Rightarrow> finding list \<Rightarrow> member_view list \<Rightarrow> semantic_axes \<Rightarrow> outcome"
where
  "finish digest magic findings members axes =
     (let verdict = compat_verdict axes;
          wrote = (case verdict of Allowed w \<Rightarrow> w | Rejected \<Rightarrow> False)
      in \<lparr>oc_axes = axes, oc_verdict = verdict, oc_wrote = wrote, oc_source_digest = digest,
          oc_magic = magic, oc_findings = findings, oc_members = members, oc_archive_ir = None,
          oc_verified = False\<rparr>)"

definition with_ir :: "outcome \<Rightarrow> archive_ir \<Rightarrow> outcome" where
  "with_ir oc ir = oc\<lparr>oc_archive_ir := Some ir\<rparr>"

text \<open>The capability carries the interpretation; \<open>Outcome::archive_ir\<close> reads it from there.\<close>

definition with_verified_archive :: "outcome \<Rightarrow> archive_ir \<Rightarrow> outcome" where
  "with_verified_archive oc ir = oc\<lparr>oc_archive_ir := Some ir, oc_verified := True\<rparr>"

definition rejected :: "outcome \<Rightarrow> bool" where
  "rejected oc \<longleftrightarrow> oc_verdict oc = Rejected"

definition cli_exit_code :: "outcome \<Rightarrow> nat" where
  "cli_exit_code oc =
     compat_exit_code (ax_admission (oc_axes oc)) (ax_verification (oc_axes oc)) (ax_effect (oc_axes oc))"

subsection \<open>Lemmas\<close>

lemma compat_verdict_iff:
  "compat_verdict axes = Allowed w \<longleftrightarrow>
     ax_admission axes = Admitted \<and> ax_verification axes = CompleteVerification \<and>
     ax_effect axes = (if w then Committed else NotRequested)"
  by (auto simp: compat_verdict_def split: admission_status.splits verification_status.splits effect_status.splits)

lemma finish_sel [simp]:
  "oc_axes (finish d g fs ms axes) = axes" "oc_verdict (finish d g fs ms axes) = compat_verdict axes"
  "oc_findings (finish d g fs ms axes) = fs" "oc_members (finish d g fs ms axes) = ms"
  "oc_magic (finish d g fs ms axes) = g" "oc_archive_ir (finish d g fs ms axes) = None"
  "oc_verified (finish d g fs ms axes) = False" "oc_source_digest (finish d g fs ms axes) = d"
  "oc_wrote (finish d g fs ms axes) \<longleftrightarrow> compat_verdict axes = Allowed True"
  by (auto simp: finish_def Let_def split: verdict.splits)

lemma with_ir_sel [simp]:
  "oc_axes (with_ir oc ir) = oc_axes oc" "oc_verdict (with_ir oc ir) = oc_verdict oc"
  "oc_findings (with_ir oc ir) = oc_findings oc" "oc_members (with_ir oc ir) = oc_members oc"
  "oc_wrote (with_ir oc ir) = oc_wrote oc" "oc_verified (with_ir oc ir) = oc_verified oc"
  "oc_magic (with_ir oc ir) = oc_magic oc" "oc_archive_ir (with_ir oc ir) = Some ir"
  by (simp_all add: with_ir_def)

lemma with_verified_archive_sel [simp]:
  "oc_axes (with_verified_archive oc ir) = oc_axes oc" "oc_verdict (with_verified_archive oc ir) = oc_verdict oc"
  "oc_findings (with_verified_archive oc ir) = oc_findings oc"
  "oc_members (with_verified_archive oc ir) = oc_members oc"
  "oc_wrote (with_verified_archive oc ir) = oc_wrote oc" "oc_verified (with_verified_archive oc ir)"
  "oc_archive_ir (with_verified_archive oc ir) = Some ir"
  by (simp_all add: with_verified_archive_def)

lemma structure_stop_sel [simp]:
  "ax_interpretation (structure_stop i a f) = i" "ax_admission (structure_stop i a f) = a"
  "ax_verification (structure_stop i a f) = StructureOnly" "ax_effect (structure_stop i a f) = NotRequested"
  "ax_view_completeness (structure_stop i a f) = PartialView StructurePhase (as_str (code f))"
  by (simp_all add: structure_stop_def partial_def)

text \<open>An outcome that says that nothing was decided in favour of the archive: rejected with exit code 2,
  nothing written, no capability, and a partial view whose cause is an error among the findings.\<close>

definition stopped :: "outcome \<Rightarrow> bool" where
  "stopped oc \<longleftrightarrow>
     rejected oc \<and> cli_exit_code oc = 2 \<and> \<not> oc_wrote oc \<and> \<not> oc_verified oc \<and>
     (\<exists>f \<in> set (oc_findings oc). severity f = Error \<and>
        (\<exists>ph. ax_view_completeness (oc_axes oc) = PartialView ph (as_str (code f))))"

lemma stopped_structure:
  assumes "f \<in> set fs" "severity f = Error" "a \<noteq> Admitted"
  shows "stopped (finish d g fs ms (structure_stop i a f))"
  using assms by (cases a) (auto simp: stopped_def rejected_def cli_exit_code_def compat_exit_code_def compat_verdict_def)

lemma stopped_admission:
  assumes "f \<in> set fs" "severity f = Error"
  shows "stopped (finish d g fs ms (denied_at_admission f))"
  using assms
  by (auto simp: stopped_def rejected_def cli_exit_code_def compat_exit_code_def compat_verdict_def
      denied_at_admission_def partial_def)

lemma stopped_with_ir [simp]: "stopped (with_ir oc ir) \<longleftrightarrow> stopped oc"
  by (simp add: stopped_def rejected_def cli_exit_code_def)

lemma first_error_Some:
  "first_error fs = Some f \<Longrightarrow> f \<in> set fs \<and> severity f = Error"
  by (auto simp: first_error_def find_Some_iff)

lemma first_error_exists:
  "list_ex (\<lambda>f. severity f = Error) fs \<longleftrightarrow> (\<exists>f. first_error fs = Some f)"
  by (induction fs) (auto simp: first_error_def)

lemma parse_failure_axes_stop:
  "\<exists>i a. a \<noteq> Admitted \<and> parse_failure_axes f = structure_stop i a f"
  by (auto simp: parse_failure_axes_def Let_def)

end
