(* ===== verification/Payload.thy ===== *)
theory Payload
  imports Ir
begin

text \<open>
  Payload plans, \<open>PayloadPlan\<close> of \<open>crates/sealr/src/verification.rs\<close> with the domain ranges
  of \<open>snapshot.rs\<close>: where the bytes of a member are, how they are coded and how they are checked.
\<close>

definition ORIGINAL :: nat where
  "ORIGINAL = 0"

definition FIRST_DERIVED :: nat where
  "FIRST_DERIVED = 1"

record domain_range =
  dr_domain :: nat
  dr_range :: byte_range

definition domain_original :: "byte_range \<Rightarrow> domain_range" where
  "domain_original r = \<lparr>dr_domain = ORIGINAL, dr_range = r\<rparr>"

datatype payload_codec = RawCodec | DeflateCodec | UnsupportedCodec nat

datatype payload_integrity = NoIntegrity | Crc32 nat

record payload_plan =
  pp_source :: domain_range
  pp_codec :: payload_codec
  pp_compressed_size :: nat
  pp_uncompressed_size :: nat
  pp_integrity :: payload_integrity

definition payload_codec_from_zip_method :: "nat \<Rightarrow> payload_codec" where
  "payload_codec_from_zip_method method =
     (if method = 0 then RawCodec else if method = 8 then DeflateCodec else UnsupportedCodec method)"

definition from_ir :: "ir_member \<Rightarrow> payload_plan" where
  "from_ir m =
     (case im_evidence m of
        MemZip z \<Rightarrow>
          \<lparr>pp_source = domain_original (sr_compressed_payload (ze_source_ranges z)),
           pp_codec = payload_codec_from_zip_method (ze_method z), pp_compressed_size = ze_declared_comp_size z,
           pp_uncompressed_size = im_declared_uncomp_size m, pp_integrity = Crc32 (ze_declared_crc z)\<rparr>
      | MemZip64 zip64 \<Rightarrow>
          \<lparr>pp_source = domain_original (sr_compressed_payload (ze_source_ranges (z64_zip zip64))),
           pp_codec = payload_codec_from_zip_method (ze_method (z64_zip zip64)), pp_compressed_size = ze_declared_comp_size (z64_zip zip64),
           pp_uncompressed_size = im_declared_uncomp_size m, pp_integrity = Crc32 (ze_declared_crc (z64_zip zip64))\<rparr>
      | MemTar tar \<Rightarrow>
          \<lparr>pp_source = domain_original (te_payload tar), pp_codec = RawCodec,
           pp_compressed_size = rlen (te_payload tar), pp_uncompressed_size = im_declared_uncomp_size m, pp_integrity = NoIntegrity\<rparr>
      | MemTarGzip tar \<Rightarrow>
          \<lparr>pp_source = \<lparr>dr_domain = FIRST_DERIVED, dr_range = te_payload tar\<rparr>, pp_codec = RawCodec,
           pp_compressed_size = rlen (te_payload tar), pp_uncompressed_size = im_declared_uncomp_size m, pp_integrity = NoIntegrity\<rparr>
      | MemTarPax tar_pax \<Rightarrow>
          \<lparr>pp_source = domain_original (te_payload (pe_tar tar_pax)), pp_codec = RawCodec,
           pp_compressed_size = rlen (te_payload (pe_tar tar_pax)), pp_uncompressed_size = im_declared_uncomp_size m, pp_integrity = NoIntegrity\<rparr>
      | MemTarGnuLongName tar_gnu \<Rightarrow>
          \<lparr>pp_source = domain_original (te_payload (ge_tar tar_gnu)), pp_codec = RawCodec,
           pp_compressed_size = rlen (te_payload (ge_tar tar_gnu)), pp_uncompressed_size = im_declared_uncomp_size m, pp_integrity = NoIntegrity\<rparr>
      | MemTarGzipPax tar_pax \<Rightarrow>
          \<lparr>pp_source = \<lparr>dr_domain = FIRST_DERIVED, dr_range = te_payload (pe_tar tar_pax)\<rparr>, pp_codec = RawCodec,
           pp_compressed_size = rlen (te_payload (pe_tar tar_pax)), pp_uncompressed_size = im_declared_uncomp_size m, pp_integrity = NoIntegrity\<rparr>
      | MemTarGzipGnuLongName tar_gnu \<Rightarrow>
          \<lparr>pp_source = \<lparr>dr_domain = FIRST_DERIVED, dr_range = te_payload (ge_tar tar_gnu)\<rparr>, pp_codec = RawCodec,
           pp_compressed_size = rlen (te_payload (ge_tar tar_gnu)), pp_uncompressed_size = im_declared_uncomp_size m, pp_integrity = NoIntegrity\<rparr>
      | MemTarZstd tar \<Rightarrow>
          \<lparr>pp_source = \<lparr>dr_domain = FIRST_DERIVED, dr_range = te_payload tar\<rparr>, pp_codec = RawCodec,
           pp_compressed_size = rlen (te_payload tar), pp_uncompressed_size = im_declared_uncomp_size m, pp_integrity = NoIntegrity\<rparr>
      | MemTarXz tar \<Rightarrow>
          \<lparr>pp_source = \<lparr>dr_domain = FIRST_DERIVED, dr_range = te_payload tar\<rparr>, pp_codec = RawCodec,
           pp_compressed_size = rlen (te_payload tar), pp_uncompressed_size = im_declared_uncomp_size m, pp_integrity = NoIntegrity\<rparr>
      | MemTarBzip2 tar \<Rightarrow>
          \<lparr>pp_source = \<lparr>dr_domain = FIRST_DERIVED, dr_range = te_payload tar\<rparr>, pp_codec = RawCodec,
           pp_compressed_size = rlen (te_payload tar), pp_uncompressed_size = im_declared_uncomp_size m, pp_integrity = NoIntegrity\<rparr>
      | MemSevenZ sevenz \<Rightarrow>
          \<lparr>pp_source = domain_original (se_payload sevenz), pp_codec = RawCodec,
           pp_compressed_size = rlen (se_payload sevenz), pp_uncompressed_size = im_declared_uncomp_size m,
           pp_integrity = (case se_declared_crc sevenz of Some crc \<Rightarrow> Crc32 crc | None \<Rightarrow> NoIntegrity)\<rparr>)"

definition from_tar :: "tar_member \<Rightarrow> payload_plan" where
  "from_tar m =
     \<lparr>pp_source = domain_original (tm_payload m), pp_codec = RawCodec, pp_compressed_size = rlen (tm_payload m),
      pp_uncompressed_size = tm_size m, pp_integrity = NoIntegrity\<rparr>"

definition from_tar_gzip :: "tar_member \<Rightarrow> payload_plan" where
  "from_tar_gzip m =
     \<lparr>pp_source = \<lparr>dr_domain = FIRST_DERIVED, dr_range = tm_payload m\<rparr>, pp_codec = RawCodec, pp_compressed_size = rlen (tm_payload m),
      pp_uncompressed_size = tm_size m, pp_integrity = NoIntegrity\<rparr>"

definition from_tar_bzip2 :: "tar_member \<Rightarrow> payload_plan" where
  "from_tar_bzip2 m =
     \<lparr>pp_source = \<lparr>dr_domain = FIRST_DERIVED, dr_range = tm_payload m\<rparr>, pp_codec = RawCodec, pp_compressed_size = rlen (tm_payload m),
      pp_uncompressed_size = tm_size m, pp_integrity = NoIntegrity\<rparr>"

definition from_tar_zstd :: "tar_member \<Rightarrow> payload_plan" where
  "from_tar_zstd m =
     \<lparr>pp_source = \<lparr>dr_domain = FIRST_DERIVED, dr_range = tm_payload m\<rparr>, pp_codec = RawCodec, pp_compressed_size = rlen (tm_payload m),
      pp_uncompressed_size = tm_size m, pp_integrity = NoIntegrity\<rparr>"

definition from_tar_xz :: "tar_member \<Rightarrow> payload_plan" where
  "from_tar_xz m =
     \<lparr>pp_source = \<lparr>dr_domain = FIRST_DERIVED, dr_range = tm_payload m\<rparr>, pp_codec = RawCodec, pp_compressed_size = rlen (tm_payload m),
      pp_uncompressed_size = tm_size m, pp_integrity = NoIntegrity\<rparr>"

definition from_tar_pax :: "pax_member \<Rightarrow> payload_plan" where
  "from_tar_pax m =
     \<lparr>pp_source = domain_original (pm_payload m), pp_codec = RawCodec, pp_compressed_size = rlen (pm_payload m),
      pp_uncompressed_size = pm_size m, pp_integrity = NoIntegrity\<rparr>"

definition from_tar_gnu_longname :: "gnu_member \<Rightarrow> payload_plan" where
  "from_tar_gnu_longname m =
     \<lparr>pp_source = domain_original (gm_payload m), pp_codec = RawCodec, pp_compressed_size = rlen (gm_payload m),
      pp_uncompressed_size = gm_size m, pp_integrity = NoIntegrity\<rparr>"

definition from_tar_gzip_pax :: "pax_member \<Rightarrow> payload_plan" where
  "from_tar_gzip_pax m =
     \<lparr>pp_source = \<lparr>dr_domain = FIRST_DERIVED, dr_range = pm_payload m\<rparr>, pp_codec = RawCodec, pp_compressed_size = rlen (pm_payload m),
      pp_uncompressed_size = pm_size m, pp_integrity = NoIntegrity\<rparr>"

definition from_tar_gzip_gnu_longname :: "gnu_member \<Rightarrow> payload_plan" where
  "from_tar_gzip_gnu_longname m =
     \<lparr>pp_source = \<lparr>dr_domain = FIRST_DERIVED, dr_range = gm_payload m\<rparr>, pp_codec = RawCodec, pp_compressed_size = rlen (gm_payload m),
      pp_uncompressed_size = gm_size m, pp_integrity = NoIntegrity\<rparr>"

text \<open>The choice the planners of \<open>apply.rs\<close> make between them.\<close>

definition tar_payload_plan :: "tar_wrapper_class \<Rightarrow> tar_member \<Rightarrow> payload_plan" where
  "tar_payload_plan wrapper m =
     (case wrapper of
        Raw \<Rightarrow> from_tar m
      | Gzip \<Rightarrow> from_tar_gzip m
      | Zstd \<Rightarrow> from_tar_zstd m
      | Xz \<Rightarrow> from_tar_xz m
      | Bzip2 \<Rightarrow> from_tar_bzip2 m)"

definition pax_payload_plan :: "bool \<Rightarrow> pax_member \<Rightarrow> payload_plan" where
  "pax_payload_plan wrapped m = (if wrapped then from_tar_gzip_pax m else from_tar_pax m)"

definition gnu_payload_plan :: "bool \<Rightarrow> gnu_member \<Rightarrow> payload_plan" where
  "gnu_payload_plan wrapped m = (if wrapped then from_tar_gzip_gnu_longname m else from_tar_gnu_longname m)"

definition matches_member :: "payload_plan \<Rightarrow> ir_member \<Rightarrow> bool" where
  "matches_member plan m \<longleftrightarrow> plan = from_ir m"

text \<open>All plans of TAR payloads have one shape, the plan of stored bytes in a domain.\<close>

definition tar_plan :: "(byte_range \<Rightarrow> domain_range) \<Rightarrow> byte_range \<Rightarrow> nat \<Rightarrow> payload_plan" where
  "tar_plan in_domain payload sz =
     \<lparr>pp_source = in_domain payload, pp_codec = RawCodec, pp_compressed_size = rlen payload,
      pp_uncompressed_size = sz, pp_integrity = NoIntegrity\<rparr>"

definition domain_derived :: "byte_range \<Rightarrow> domain_range" where
  "domain_derived r = \<lparr>dr_domain = FIRST_DERIVED, dr_range = r\<rparr>"

lemma tar_payload_plan_shape:
  "tar_payload_plan wrapper m = tar_plan (if wrapper = Raw then domain_original else domain_derived) (tm_payload m) (tm_size m)"
  by (cases wrapper)
    (simp_all add: tar_payload_plan_def tar_plan_def domain_derived_def from_tar_def from_tar_gzip_def from_tar_zstd_def
      from_tar_xz_def from_tar_bzip2_def)

lemma pax_payload_plan_shape:
  "pax_payload_plan wrapped m = tar_plan (if wrapped then domain_derived else domain_original) (pm_payload m) (pm_size m)"
  by (simp add: pax_payload_plan_def tar_plan_def domain_derived_def from_tar_pax_def from_tar_gzip_pax_def)

lemma gnu_payload_plan_shape:
  "gnu_payload_plan wrapped m = tar_plan (if wrapped then domain_derived else domain_original) (gm_payload m) (gm_size m)"
  by (simp add: gnu_payload_plan_def tar_plan_def domain_derived_def from_tar_gnu_longname_def from_tar_gzip_gnu_longname_def)

text \<open>The plan fixed at admission is the one the interpretation gives.\<close>

lemma tar_payload_plan_matches [simp]:
  "matches_member (tar_payload_plan wrapper m) (from_tar_planned_for_format wrapper m parts actions)"
  unfolding matches_member_def tar_payload_plan_shape
  by (cases wrapper)
    (simp_all add: from_ir_def from_tar_planned_for_format_def tar_plan_def domain_derived_def)

lemma pax_payload_plan_matches [simp]:
  "matches_member (pax_payload_plan wrapped m) (from_tar_pax_planned_for_format wrapped m parts actions)"
  unfolding matches_member_def pax_payload_plan_shape
  by (simp add: from_ir_def from_tar_pax_planned_for_format_def tar_plan_def domain_derived_def)

lemma gnu_payload_plan_matches [simp]:
  "matches_member (gnu_payload_plan wrapped m) (from_tar_gnu_longname_planned_for_format wrapped m parts actions)"
  unfolding matches_member_def gnu_payload_plan_shape
  by (simp add: from_ir_def from_tar_gnu_longname_planned_for_format_def tar_plan_def domain_derived_def)

end
