(* ===== verification/Paths.thy ===== *)
theory Paths
  imports Jail "HOL-Library.List_Lexorder"
begin

text \<open>
  Admission of TAR member paths, \<open>prepare_tar_member_name\<close>, \<open>admit_tar_path\<close> and
  \<open>path_conflict\<close> of \<open>crates/sealr/src/apply.rs\<close>. The two tables \<open>dest_seen\<close> and
  \<open>fold_seen\<close> are \<open>BTreeMap<String, bool>\<close>: here sorted association lists. Rust orders
  strings by their UTF-8 bytes, which is the lexicographic order of the scalar values. The locale
  \<open>ordered_map\<close> is what the planner relies on of the table; its probe of the next key is proved
  exact there.
\<close>

subsection \<open>The ordered map\<close>

type_synonym 'v btree_map = "(rust_str \<times> 'v) list"

fun bt_insert :: "rust_str \<Rightarrow> 'v \<Rightarrow> 'v btree_map \<Rightarrow> 'v btree_map" where
  "bt_insert k v [] = [(k, v)]"
| "bt_insert k v ((k', v') # m) =
     (if k < k' then (k, v) # (k', v') # m
      else if k = k' then (k, v) # m
      else (k', v') # bt_insert k v m)"

definition bt_get :: "'v btree_map \<Rightarrow> rust_str \<Rightarrow> 'v option" where
  "bt_get m k = map_of m k"

text \<open>\<open>range(k..).next()\<close>: the first entry whose key is at least \<open>k\<close>.\<close>

definition bt_range_next :: "'v btree_map \<Rightarrow> rust_str \<Rightarrow> (rust_str \<times> 'v) option" where
  "bt_range_next m k = find (\<lambda>e. k \<le> fst e) m"

definition bt_sorted :: "'v btree_map \<Rightarrow> bool" where
  "bt_sorted m \<longleftrightarrow> sorted_wrt (<) (map fst m)"

locale ordered_map =
  fixes valid :: "'m \<Rightarrow> bool"
    and get :: "'m \<Rightarrow> ('a :: linorder) list \<Rightarrow> 'v option"
    and put :: "'a list \<Rightarrow> 'v \<Rightarrow> 'm \<Rightarrow> 'm"
    and next_from :: "'m \<Rightarrow> 'a list \<Rightarrow> ('a list \<times> 'v) option"
  assumes valid_put: "valid m \<Longrightarrow> valid (put k v m)"
    and get_put: "valid m \<Longrightarrow> get (put k v m) k' = (if k' = k then Some v else get m k')"
    and next_None: "\<lbrakk>valid m; next_from m k = None; get m k' = Some v\<rbrakk> \<Longrightarrow> k' < k"
    and next_Some: "\<lbrakk>valid m; next_from m k = Some (k', v)\<rbrakk> \<Longrightarrow> k \<le> k' \<and> get m k' = Some v"
    and next_least: "\<lbrakk>valid m; next_from m k = Some (k', v); get m q = Some w; k \<le> q\<rbrakk> \<Longrightarrow> k' \<le> q"
begin

text \<open>Keys with a prefix are an interval: between a prefix and an extension of it all keys extend it.\<close>

lemma prefix_interval:
  fixes p q k :: "'a list"
  assumes "p \<le> k" "k \<le> p @ q"
  shows "take (length p) k = p"
  using assms
proof (induction p arbitrary: k)
  case (Cons x p)
  from Cons.prems(1) obtain y k' where k: "k = y # k'" by (cases k) simp_all
  with Cons.prems have "x = y" "p \<le> k'" "k' \<le> p @ q" by (auto simp: k)
  with Cons.IH [of k'] k show ?case by simp
qed simp

lemma prefix_le: "(p :: 'a list) \<le> p @ q"
  by (induction p) simp_all

text \<open>One probe decides whether any key has the prefix.\<close>

lemma probe_exact:
  assumes "valid m"
  shows "(\<exists>k v. next_from m p = Some (k, v) \<and> take (length p) k = p) \<longleftrightarrow>
    (\<exists>q v. get m (p @ q) = Some v)"
proof
  assume "\<exists>k v. next_from m p = Some (k, v) \<and> take (length p) k = p"
  then obtain k v where "next_from m p = Some (k, v)" and k: "take (length p) k = p" by blast
  then have "get m k = Some v" using next_Some [OF assms] by blast
  moreover have "k = p @ drop (length p) k" using k append_take_drop_id [of "length p" k] by metis
  ultimately show "\<exists>q v. get m (p @ q) = Some v" by metis
next
  assume "\<exists>q v. get m (p @ q) = Some v"
  then obtain q v where q: "get m (p @ q) = Some v" by blast
  show "\<exists>k v. next_from m p = Some (k, v) \<and> take (length p) k = p"
  proof (cases "next_from m p")
    case None
    from next_None [OF assms None q] prefix_le [of p q] show ?thesis by simp
  next
    case (Some e)
    obtain k w where e: "e = (k, w)" by fastforce
    have "k \<le> p @ q" using next_least [OF assms _ q prefix_le] Some e by blast
    moreover have "p \<le> k" using next_Some [OF assms] Some e by blast
    ultimately show ?thesis using prefix_interval Some e by blast
  qed
qed

end

lemma bt_insert_keys: "fst ` set (bt_insert k v m) = insert k (fst ` set m)"
  by (induction k v m rule: bt_insert.induct) auto

lemma bt_sorted_insert: "bt_sorted m \<Longrightarrow> bt_sorted (bt_insert k v m)"
  unfolding bt_sorted_def
proof (induction k v m rule: bt_insert.induct)
  case (2 k v k' v' m)
  have keys: "set (map fst (bt_insert k v m)) = insert k (set (map fst m))"
    using bt_insert_keys [of k v m] by simp
  from 2 show ?case
    by (cases "k < k'"; cases "k = k'") (auto simp: keys simp del: set_map)
qed simp

lemma bt_get_insert: "bt_sorted m \<Longrightarrow> bt_get (bt_insert k v m) k' = (if k' = k then Some v else bt_get m k')"
  unfolding bt_get_def bt_sorted_def by (induction k v m rule: bt_insert.induct) auto

lemma bt_range_next_Some:
  "bt_range_next m k = Some (k', v) \<Longrightarrow> k \<le> k' \<and> (k', v) \<in> set m"
  unfolding bt_range_next_def by (metis find_Some_iff fst_conv nth_mem)

lemma bt_range_next_least:
  "\<lbrakk>bt_sorted m; bt_range_next m k = Some (k', v); (q, w) \<in> set m; k \<le> q\<rbrakk> \<Longrightarrow> k' \<le> q"
  unfolding bt_range_next_def bt_sorted_def
  by (induction m) (auto split: if_splits)

lemma bt_get_mem: "bt_sorted m \<Longrightarrow> bt_get m k = Some v \<longleftrightarrow> (k, v) \<in> set m"
  unfolding bt_get_def bt_sorted_def
  by (simp add: strict_sorted_iff)

interpretation btree: ordered_map bt_sorted bt_get bt_insert bt_range_next
proof
  fix m :: "'b btree_map" and k k' v
  assume "bt_sorted m" "bt_range_next m k = None" "bt_get m k' = Some v"
  then show "k' < k"
    by (fastforce simp: bt_get_mem bt_range_next_def find_None_iff)
next
  fix m :: "'b btree_map" and k k' v
  assume "bt_sorted m" "bt_range_next m k = Some (k', v)"
  then show "k \<le> k' \<and> bt_get m k' = Some v"
    by (simp add: bt_get_mem bt_range_next_Some)
next
  fix m :: "'b btree_map" and k k' v q w
  assume "bt_sorted m" "bt_range_next m k = Some (k', v)" "bt_get m q = Some w" "k \<le> q"
  then show "k' \<le> q" by (auto simp: bt_get_mem intro: bt_range_next_least)
qed (simp_all add: bt_sorted_insert bt_get_insert)

subsection \<open>Preparing a name\<close>

record prepared_tar_name =
  pn_name :: rust_str
  pn_actions :: "normalization_action list"
  pn_archive_root :: bool

text \<open>\<open>while let Some(next) = rest.strip_prefix("./")\<close>\<close>

fun strip_dot_slash :: "rust_str \<Rightarrow> rust_str" where
  "strip_dot_slash (a # b # rest) =
     (if a = dot \<and> b = slash then strip_dot_slash rest else a # b # rest)"
| "strip_dot_slash name = name"

definition prepare_tar_member_name :: "rust_str \<Rightarrow> bool \<Rightarrow> prepared_tar_name" where
  "prepare_tar_member_name name is_dir =
     (let strip = is_dir \<and> name \<noteq> [] \<and> last name = slash;
          actions = (if strip then [StripDirectoryTrailingSlash] else []);
          stripped = (if strip then butlast name else name);
          rest = strip_dot_slash stripped
      in if is_dir \<and> (rest = [] \<or> rest = [dot])
         then \<lparr>pn_name = [], pn_actions = actions, pn_archive_root = True\<rparr>
         else \<lparr>pn_name = rest, pn_actions = actions, pn_archive_root = False\<rparr>)"

subsection \<open>Admission\<close>

definition ancestors :: "rust_str \<Rightarrow> rust_str list" where
  "ancestors path = map (\<lambda>i. take i path) (filter (\<lambda>i. path ! i = slash) [0..<length path])"

definition path_conflict :: "bool btree_map \<Rightarrow> rust_str \<Rightarrow> bool \<Rightarrow> rust_str option" where
  "path_conflict seen path is_dir =
     (case find (\<lambda>a. bt_get seen a = Some False) (ancestors path) of
        Some a \<Rightarrow> Some a
      | None \<Rightarrow>
          if \<not> is_dir then
            let prefix = path @ [slash]
            in case bt_range_next seen prefix of
                 Some (candidate, _) \<Rightarrow> if starts_with candidate prefix then Some candidate else None
               | None \<Rightarrow> None
          else None)"

text \<open>The two tables the planner threads through the members.\<close>

record path_tables =
  pt_dest :: "bool btree_map"
  pt_fold :: "bool btree_map"

definition tables_new :: path_tables where
  "tables_new = \<lparr>pt_dest = [], pt_fold = []\<rparr>"

definition record_path :: "rust_str \<Rightarrow> rust_str \<Rightarrow> bool \<Rightarrow> path_tables \<Rightarrow> path_tables" where
  "record_path joined folded is_dir pt =
     \<lparr>pt_dest = bt_insert joined is_dir (pt_dest pt), pt_fold = bt_insert folded is_dir (pt_fold pt)\<rparr>"

definition admit_tar_path ::
  "unicode \<Rightarrow> rust_str \<Rightarrow> bool \<Rightarrow> nat \<Rightarrow> path_tables \<Rightarrow>
     (finding + rust_str list \<times> normalization_action list) \<times> path_tables"
where
  "admit_tar_path u name is_dir max_depth pt =
     (let prepared = prepare_tar_member_name name is_dir;
          err = (\<lambda>c. (Inl (on_member name (finding_error c)), pt))
      in if pn_archive_root prepared then
           if bt_get (pt_dest pt) [] \<noteq> None then err PathConflict
           else if bt_get (pt_fold pt) [] \<noteq> None then err PathCaseFold
           else (Inr ([], pn_actions prepared), record_path [] [] True pt)
         else
           case jail_name_for_profile u (pn_name prepared) max_depth PortableUtf8V1 of
             Inl f \<Rightarrow> (Inl (f\<lparr>member_name := Some name\<rparr>), pt)
           | Inr jailed \<Rightarrow>
               if portable_name_violation u jailed \<noteq> None then err PathInvalidChar
               else
                 let parts = jn_components jailed;
                     joined = join_on slash parts;
                     folded = profile_case_fold u joined PortableUtf8V1
                 in if bt_get (pt_dest pt) joined \<noteq> None then err PathConflict
                    else if bt_get (pt_fold pt) folded \<noteq> None then err PathCaseFold
                    else if path_conflict (pt_dest pt) joined is_dir \<noteq> None then err PathConflict
                    else if path_conflict (pt_fold pt) folded is_dir \<noteq> None then err PathCaseFold
                    else (Inr (parts, pn_actions prepared @ jn_actions jailed),
                          record_path joined folded is_dir pt))"

subsection \<open>The tree invariant\<close>

text \<open>\<open>below p q\<close>: the path \<open>q\<close> lies below \<open>p\<close>.\<close>

definition below :: "rust_str \<Rightarrow> rust_str \<Rightarrow> bool" where
  "below p q \<longleftrightarrow> (\<exists>r. q = p @ slash # r)"

text \<open>Every recorded path above a recorded path is a directory.\<close>

definition tree_ok :: "bool btree_map \<Rightarrow> bool" where
  "tree_ok m \<longleftrightarrow> (\<forall>p q d b. bt_get m p = Some d \<and> bt_get m q = Some b \<and> below p q \<longrightarrow> d)"

definition tables_ok :: "path_tables \<Rightarrow> bool" where
  "tables_ok pt \<longleftrightarrow> bt_sorted (pt_dest pt) \<and> bt_sorted (pt_fold pt) \<and> tree_ok (pt_dest pt) \<and> tree_ok (pt_fold pt)"

lemma in_ancestors: "p \<in> set (ancestors q) \<longleftrightarrow> below p q"
proof
  assume "p \<in> set (ancestors q)"
  then obtain i where "i < length q" "q ! i = slash" "p = take i q" by (auto simp: ancestors_def)
  then have "q = p @ slash # drop (Suc i) q" by (metis id_take_nth_drop)
  then show "below p q" unfolding below_def by blast
next
  assume "below p q"
  then obtain r where "q = p @ slash # r" by (auto simp: below_def)
  then have "length p < length q" "q ! length p = slash" "take (length p) q = p" by simp_all
  then show "p \<in> set (ancestors q)" 
    unfolding ancestors_def by (auto intro!: image_eqI [of _ _ "length p"])
qed

lemma below_iff_prefix: "below p q \<longleftrightarrow> (\<exists>r. q = (p @ [slash]) @ r)"
  by (simp add: below_def)

text \<open>No conflict is reported exactly when nothing above is a file and, for a file, nothing is below.\<close>

lemma path_conflict_None:
  assumes "bt_sorted m"
  shows "path_conflict m path is_dir = None \<longleftrightarrow>
    (\<forall>p. below p path \<longrightarrow> bt_get m p \<noteq> Some False) \<and>
    (\<not> is_dir \<longrightarrow> (\<forall>q. below path q \<longrightarrow> bt_get m q = None))"
proof -
  have up: "find (\<lambda>a. bt_get m a = Some False) (ancestors path) = None \<longleftrightarrow>
      (\<forall>p. below p path \<longrightarrow> bt_get m p \<noteq> Some False)"
    by (auto simp: find_None_iff in_ancestors)
  have down: "(\<exists>k v. bt_range_next m (path @ [slash]) = Some (k, v) \<and>
        take (length (path @ [slash])) k = path @ [slash]) \<longleftrightarrow> (\<exists>q v. bt_get m ((path @ [slash]) @ q) = Some v)"
    by (rule btree.probe_exact [OF assms])
  have "(\<forall>q. below path q \<longrightarrow> bt_get m q = None) \<longleftrightarrow> \<not> (\<exists>q v. bt_get m ((path @ [slash]) @ q) = Some v)"
    by (auto simp: below_iff_prefix)
  with up down [unfolded starts_with_def [symmetric]] show ?thesis
    unfolding path_conflict_def
    by (cases "bt_range_next m (path @ [slash])") (auto simp: starts_with_def split: option.split)
qed

lemma tree_ok_insert:
  assumes "bt_sorted m" "tree_ok m" "path_conflict m path is_dir = None"
  shows "tree_ok (bt_insert path is_dir m)"
  using assms path_conflict_None [OF assms(1), of path is_dir]
  unfolding tree_ok_def by (fastforce simp: bt_get_insert below_def split: if_splits)

lemma tree_ok_root:
  assumes "bt_sorted m" "tree_ok m" shows "tree_ok (bt_insert [] True m)"
  using assms unfolding tree_ok_def by (auto simp: bt_get_insert below_def split: if_splits)

text \<open>What an admission did: the path it recorded, and that it was new.\<close>

definition admitted ::
  "unicode \<Rightarrow> nat \<Rightarrow> rust_str \<Rightarrow> bool \<Rightarrow> path_tables \<Rightarrow> rust_str list \<Rightarrow> normalization_action list \<Rightarrow> path_tables \<Rightarrow> bool"
where
  "admitted u depth name is_dir pt parts actions pt' \<longleftrightarrow>
     (let prepared = prepare_tar_member_name name is_dir;
          joined = join_on slash parts;
          folded = (if parts = [] then [] else profile_case_fold u joined PortableUtf8V1)
      in joined = pn_name prepared \<and> actions = pn_actions prepared \<and>
         (parts = [] \<longleftrightarrow> pn_archive_root prepared) \<and> length parts \<le> depth \<and>
         (\<forall>c \<in> set parts. safe_component u PortableUtf8V1 c) \<and>
         bt_get (pt_dest pt) joined = None \<and> bt_get (pt_fold pt) folded = None \<and>
         (parts \<noteq> [] \<longrightarrow> path_conflict (pt_dest pt) joined is_dir = None \<and>
            path_conflict (pt_fold pt) folded is_dir = None) \<and>
         pt' = record_path joined folded is_dir pt)"

lemma prepare_root:
  "pn_archive_root (prepare_tar_member_name name is_dir) \<Longrightarrow>
     is_dir \<and> pn_name (prepare_tar_member_name name is_dir) = []"
  by (auto simp: prepare_tar_member_name_def Let_def split: if_splits)

lemma admit_ok:
  assumes "admit_tar_path u name is_dir depth pt = (Inr (parts, actions), pt')"
  shows "admitted u depth name is_dir pt parts actions pt'"
proof (cases "pn_archive_root (prepare_tar_member_name name is_dir)")
  case True
  with assms prepare_root [OF True] show ?thesis
    by (auto simp: admit_tar_path_def admitted_def Let_def split: if_splits)
next
  case False
  with assms obtain j where
    j: "jail_name_for_profile u (pn_name (prepare_tar_member_name name is_dir)) depth PortableUtf8V1 = Inr j"
    and v: "portable_name_violation u j = None"
    by (auto simp: admit_tar_path_def Let_def simp del: not_None_eq split: sum.splits if_splits)
  from v have a: "jn_actions j = []" by (auto simp: portable_name_violation_def split: if_splits)
  note j' = j [unfolded jail_for_profile_ok]
  note jn = jail_fallible_ok [OF j'] and name = jail_no_actions [OF j' a]
  from assms False j v a have
    "parts = jn_components j" "actions = pn_actions (prepare_tar_member_name name is_dir)"
    "bt_get (pt_dest pt) (join_on slash parts) = None"
    "bt_get (pt_fold pt) (profile_case_fold u (join_on slash parts) PortableUtf8V1) = None"
    "path_conflict (pt_dest pt) (join_on slash parts) is_dir = None"
    "path_conflict (pt_fold pt) (profile_case_fold u (join_on slash parts) PortableUtf8V1) is_dir = None"
    "pt' = record_path (join_on slash parts) (profile_case_fold u (join_on slash parts) PortableUtf8V1) is_dir pt"
    by (auto simp: admit_tar_path_def Let_def split: if_splits)
  then show ?thesis
    using jn(3,4,5) name(1) False by (simp add: admitted_def Let_def)
qed

lemma admit_error:
  assumes "admit_tar_path u name is_dir depth pt = (Inl f, pt')"
  shows "pt' = pt \<and> member_name f = Some name \<and> severity f = Error"
  using assms
  by (auto simp: admit_tar_path_def Let_def jail_name_for_profile_def map_err_eq_Inl
      split: sum.splits if_splits)

lemma admitted_tables_ok:
  assumes "tables_ok pt" "admitted u depth name is_dir pt parts actions pt'"
  shows "tables_ok pt'"
proof (cases "parts = []")
  case True
  with assms(2) have "is_dir" "pt' = record_path [] [] True pt"
    using prepare_root [of name is_dir] by (auto simp: admitted_def Let_def)
  with assms(1) show ?thesis
    by (simp add: tables_ok_def record_path_def tree_ok_root bt_sorted_insert)
next
  case False
  with assms show ?thesis
    by (auto simp: tables_ok_def admitted_def Let_def record_path_def tree_ok_insert bt_sorted_insert)
qed

lemma admitted_dest:
  assumes "tables_ok pt" "admitted u depth name is_dir pt parts actions pt'"
  shows "bt_get (pt_dest pt') k = (if k = join_on slash parts then Some is_dir else bt_get (pt_dest pt) k)"
  using assms by (auto simp: admitted_def Let_def record_path_def tables_ok_def bt_get_insert)

lemma admitted_fold:
  assumes "tables_ok pt" "admitted u depth name is_dir pt parts actions pt'" "parts \<noteq> []"
  shows "bt_get (pt_fold pt') k =
    (if k = profile_case_fold u (join_on slash parts) PortableUtf8V1 then Some is_dir else bt_get (pt_fold pt) k)"
  using assms by (auto simp: admitted_def Let_def record_path_def tables_ok_def bt_get_insert)

lemma tables_ok_new [simp]: "tables_ok tables_new"
  by (simp add: tables_ok_def tables_new_def tree_ok_def bt_sorted_def bt_get_def)

subsection \<open>Properties\<close>

text \<open>The ancestor walk and the single range probe decide the file and directory conflict: on a
  sorted table no conflict is reported exactly when no proper ancestor of the path is recorded as
  a file and, for a file, nothing is recorded below it.\<close>

theorem conflict_probe_exact:
  assumes "bt_sorted m"
  shows "path_conflict m path is_dir = None \<longleftrightarrow>
    (\<forall>p. below p path \<longrightarrow> bt_get m p \<noteq> Some False) \<and>
    (\<not> is_dir \<longrightarrow> (\<forall>q. below path q \<longrightarrow> bt_get m q = None))"
  using assms by (rule path_conflict_None)

theorem conflict_probe_exact_witness:
  "bt_sorted [(str_of ''a/b'', False)] \<and> path_conflict [(str_of ''a/b'', False)] (str_of ''a'') False \<noteq> None"
proof -
  let ?m = "[(str_of ''a/b'', False)]" and ?p = "str_of ''a''" and ?q = "str_of ''a/b''"
  have s: "bt_sorted ?m" by (simp add: bt_sorted_def)
  have b: "below ?p ?q" by (auto simp: below_iff_prefix str_of_def)
  have g: "bt_get ?m ?q \<noteq> None" by (simp add: bt_get_def)
  have "path_conflict ?m ?p False \<noteq> None"
  proof
    assume "path_conflict ?m ?p False = None"
    then have "\<forall>q. below ?p q \<longrightarrow> bt_get ?m q = None"
      unfolding conflict_probe_exact [OF s] by simp
    from this [rule_format, OF b] g show False by (rule notE [rotated])
  qed
  with s show ?thesis by (rule conjI)
qed

end
