(* ===== verification/Policy.thy ===== *)
theory Policy
  imports Findings "HOL-Library.Sublist"
begin

text \<open>
  Policies, \<open>crates/sealr/src/policy.rs\<close>: the policy record with its twelve default versions,
  the compiler to typed controls, and the validation of caller-authored documents. The detail
  text of a refusal and the digest of the serialized policy are left out.
\<close>

definition POLICY_FORMAT_ZIP :: string where "POLICY_FORMAT_ZIP = ''zip''"
definition POLICY_FORMAT_ZIP64 :: string where "POLICY_FORMAT_ZIP64 = ''zip64''"
definition POLICY_FORMAT_TAR_USTAR :: string where "POLICY_FORMAT_TAR_USTAR = ''tar-ustar''"
definition POLICY_FORMAT_TAR_GZIP_USTAR :: string where "POLICY_FORMAT_TAR_GZIP_USTAR = ''tar-gzip-ustar''"
definition POLICY_FORMAT_TAR_PAX :: string where "POLICY_FORMAT_TAR_PAX = ''tar-pax''"
definition POLICY_FORMAT_TAR_GNU_LONGNAME :: string where "POLICY_FORMAT_TAR_GNU_LONGNAME = ''tar-gnu-longname''"
definition POLICY_FORMAT_TAR_GZIP_PAX :: string where "POLICY_FORMAT_TAR_GZIP_PAX = ''tar-gzip-pax''"
definition POLICY_FORMAT_TAR_GZIP_GNU_LONGNAME :: string where
  "POLICY_FORMAT_TAR_GZIP_GNU_LONGNAME = ''tar-gzip-gnu-longname''"
definition POLICY_FORMAT_TAR_ZSTD_USTAR :: string where "POLICY_FORMAT_TAR_ZSTD_USTAR = ''tar-zstd-ustar''"
definition POLICY_FORMAT_TAR_XZ_USTAR :: string where "POLICY_FORMAT_TAR_XZ_USTAR = ''tar-xz-ustar''"
definition POLICY_FORMAT_TAR_BZIP2_USTAR :: string where "POLICY_FORMAT_TAR_BZIP2_USTAR = ''tar-bzip2-ustar''"
definition POLICY_FORMAT_SEVENZ_COPY :: string where "POLICY_FORMAT_SEVENZ_COPY = ''7z-copy''"

lemmas policy_format_defs = POLICY_FORMAT_ZIP_def POLICY_FORMAT_ZIP64_def POLICY_FORMAT_TAR_USTAR_def
  POLICY_FORMAT_TAR_GZIP_USTAR_def POLICY_FORMAT_TAR_PAX_def POLICY_FORMAT_TAR_GNU_LONGNAME_def
  POLICY_FORMAT_TAR_GZIP_PAX_def POLICY_FORMAT_TAR_GZIP_GNU_LONGNAME_def POLICY_FORMAT_TAR_ZSTD_USTAR_def
  POLICY_FORMAT_TAR_XZ_USTAR_def POLICY_FORMAT_TAR_BZIP2_USTAR_def POLICY_FORMAT_SEVENZ_COPY_def

record policy =
  po_schema :: string
  po_id :: string
  po_formats :: "string list"
  po_max_archive_bytes :: u64
  po_max_derived_archive_bytes :: "u64 option"
  po_max_files :: u64
  po_max_member_bytes :: u64
  po_max_total_bytes :: u64
  po_max_ratio :: "u64 option"
  po_max_path_depth :: "32 word"
  po_max_metadata_bytes :: u64
  po_max_dict_bytes :: u64
  po_symlinks :: string
  po_hardlinks :: string
  po_overwrite :: string
  po_setuid :: string
  po_nested_depth :: "32 word"
  po_ambiguity :: string
  po_case_fold_collision :: string
  po_magic_vs_extension :: string
  po_encrypted :: string
  po_atomic :: bool
  po_directory_sync :: bool

datatype durability = FlushOnly | MemberSync | DirectorySync

definition from_member_sync :: "bool \<Rightarrow> durability" where
  "from_member_sync sync = (if sync then MemberSync else FlushOnly)"

primrec durability_member_sync :: "durability \<Rightarrow> bool" where
  "durability_member_sync FlushOnly = False"
| "durability_member_sync MemberSync = True"
| "durability_member_sync DirectorySync = True"

definition durability_directory_sync :: "durability \<Rightarrow> bool" where
  "durability_directory_sync d \<longleftrightarrow> d = DirectorySync"

record resource_budget =
  max_archive_bytes :: u64
  max_derived_archive_bytes :: u64
  max_files :: u64
  max_member_bytes :: u64
  max_total_bytes :: u64
  max_ratio :: "u64 option"
  max_path_depth :: "32 word"
  max_metadata_bytes :: u64

datatype target_model = PortableV1Target

datatype consumer_profile = GenericArchive

record effect_policy =
  member_sync :: bool
  directory_sync :: bool

record compiled_controls =
  cc_budget :: resource_budget
  cc_target :: target_model
  cc_consumer :: consumer_profile
  cc_effect :: effect_policy

definition policy_durability :: "policy \<Rightarrow> durability" where
  "policy_durability p = (if po_directory_sync p then DirectorySync else from_member_sync (po_atomic p))"

definition policy_set_durability :: "durability \<Rightarrow> policy \<Rightarrow> policy" where
  "policy_set_durability d p =
     p\<lparr>po_atomic := durability_member_sync d, po_directory_sync := durability_directory_sync d\<rparr>"

subsection \<open>Default policies\<close>

definition default_v1 :: policy where
  "default_v1 = \<lparr>po_schema = ''sealr.policy.v1'', po_id = ''sealr:policy/default/v1'',
     po_formats = [POLICY_FORMAT_ZIP], po_max_archive_bytes = 512 * 1024 * 1024,
     po_max_derived_archive_bytes = None, po_max_files = 10000, po_max_member_bytes = 1024 * 1024 * 1024,
     po_max_total_bytes = 5 * 1024 * 1024 * 1024, po_max_ratio = Some 100, po_max_path_depth = 32,
     po_max_metadata_bytes = 4 * 1024 * 1024, po_max_dict_bytes = 64 * 1024 * 1024,
     po_symlinks = ''deny'', po_hardlinks = ''deny'', po_overwrite = ''refuse'', po_setuid = ''strip'',
     po_nested_depth = 1, po_ambiguity = ''deny'', po_case_fold_collision = ''deny'',
     po_magic_vs_extension = ''deny'', po_encrypted = ''deny'', po_atomic = False, po_directory_sync = False\<rparr>"

definition default_v2 :: policy where
  "default_v2 = default_v1\<lparr>po_schema := ''sealr.policy.v2'', po_id := ''sealr:policy/default/v2'',
     po_formats := [POLICY_FORMAT_ZIP, POLICY_FORMAT_TAR_USTAR]\<rparr>"

definition default_v3 :: policy where
  "default_v3 = default_v1\<lparr>po_schema := ''sealr.policy.v3'', po_id := ''sealr:policy/default/v3'',
     po_formats := [POLICY_FORMAT_ZIP, POLICY_FORMAT_ZIP64, POLICY_FORMAT_TAR_USTAR]\<rparr>"

definition default_v4 :: policy where
  "default_v4 = default_v1\<lparr>po_schema := ''sealr.policy.v4'', po_id := ''sealr:policy/default/v4'',
     po_formats := [POLICY_FORMAT_ZIP, POLICY_FORMAT_ZIP64, POLICY_FORMAT_TAR_USTAR, POLICY_FORMAT_TAR_GZIP_USTAR],
     po_max_derived_archive_bytes := Some (512 * 1024 * 1024)\<rparr>"

definition default_v5 :: policy where
  "default_v5 = default_v4\<lparr>po_schema := ''sealr.policy.v5'', po_id := ''sealr:policy/default/v5'',
     po_formats := [POLICY_FORMAT_ZIP, POLICY_FORMAT_ZIP64, POLICY_FORMAT_TAR_USTAR, POLICY_FORMAT_TAR_GZIP_USTAR,
       POLICY_FORMAT_TAR_PAX]\<rparr>"

definition default_v6 :: policy where
  "default_v6 = default_v5\<lparr>po_schema := ''sealr.policy.v6'', po_id := ''sealr:policy/default/v6'',
     po_formats := [POLICY_FORMAT_ZIP, POLICY_FORMAT_ZIP64, POLICY_FORMAT_TAR_USTAR, POLICY_FORMAT_TAR_GZIP_USTAR,
       POLICY_FORMAT_TAR_PAX, POLICY_FORMAT_TAR_GNU_LONGNAME]\<rparr>"

definition default_v7 :: policy where
  "default_v7 = default_v6\<lparr>po_schema := ''sealr.policy.v7'', po_id := ''sealr:policy/default/v7'',
     po_formats := [POLICY_FORMAT_ZIP, POLICY_FORMAT_ZIP64, POLICY_FORMAT_TAR_USTAR, POLICY_FORMAT_TAR_GZIP_USTAR,
       POLICY_FORMAT_TAR_PAX, POLICY_FORMAT_TAR_GNU_LONGNAME, POLICY_FORMAT_TAR_GZIP_PAX,
       POLICY_FORMAT_TAR_GZIP_GNU_LONGNAME]\<rparr>"

definition default_v8 :: policy where
  "default_v8 = default_v7\<lparr>po_schema := ''sealr.policy.v8'', po_id := ''sealr:policy/default/v8'',
     po_formats := [POLICY_FORMAT_ZIP, POLICY_FORMAT_ZIP64, POLICY_FORMAT_TAR_USTAR, POLICY_FORMAT_TAR_GZIP_USTAR,
       POLICY_FORMAT_TAR_PAX, POLICY_FORMAT_TAR_GNU_LONGNAME, POLICY_FORMAT_TAR_GZIP_PAX,
       POLICY_FORMAT_TAR_GZIP_GNU_LONGNAME, POLICY_FORMAT_TAR_ZSTD_USTAR]\<rparr>"

definition default_v9 :: policy where
  "default_v9 = default_v8\<lparr>po_schema := ''sealr.policy.v9'', po_id := ''sealr:policy/default/v9'',
     po_formats := [POLICY_FORMAT_ZIP, POLICY_FORMAT_ZIP64, POLICY_FORMAT_TAR_USTAR, POLICY_FORMAT_TAR_GZIP_USTAR,
       POLICY_FORMAT_TAR_PAX, POLICY_FORMAT_TAR_GNU_LONGNAME, POLICY_FORMAT_TAR_GZIP_PAX,
       POLICY_FORMAT_TAR_GZIP_GNU_LONGNAME, POLICY_FORMAT_TAR_ZSTD_USTAR, POLICY_FORMAT_TAR_XZ_USTAR]\<rparr>"

definition default_v10 :: policy where
  "default_v10 = default_v9\<lparr>po_schema := ''sealr.policy.v10'', po_id := ''sealr:policy/default/v10'',
     po_formats := [POLICY_FORMAT_ZIP, POLICY_FORMAT_ZIP64, POLICY_FORMAT_TAR_USTAR, POLICY_FORMAT_TAR_GZIP_USTAR,
       POLICY_FORMAT_TAR_PAX, POLICY_FORMAT_TAR_GNU_LONGNAME, POLICY_FORMAT_TAR_GZIP_PAX,
       POLICY_FORMAT_TAR_GZIP_GNU_LONGNAME, POLICY_FORMAT_TAR_ZSTD_USTAR, POLICY_FORMAT_TAR_XZ_USTAR,
       POLICY_FORMAT_TAR_BZIP2_USTAR]\<rparr>"

definition default_v11 :: policy where
  "default_v11 = default_v10\<lparr>po_schema := ''sealr.policy.v11'', po_id := ''sealr:policy/default/v11'',
     po_formats := [POLICY_FORMAT_ZIP, POLICY_FORMAT_ZIP64, POLICY_FORMAT_TAR_USTAR, POLICY_FORMAT_TAR_GZIP_USTAR,
       POLICY_FORMAT_TAR_PAX, POLICY_FORMAT_TAR_GNU_LONGNAME, POLICY_FORMAT_TAR_GZIP_PAX,
       POLICY_FORMAT_TAR_GZIP_GNU_LONGNAME, POLICY_FORMAT_TAR_ZSTD_USTAR, POLICY_FORMAT_TAR_XZ_USTAR,
       POLICY_FORMAT_TAR_BZIP2_USTAR, POLICY_FORMAT_SEVENZ_COPY]\<rparr>"

definition default_v12 :: policy where
  "default_v12 = default_v11\<lparr>po_schema := ''sealr.policy.v12'', po_id := ''sealr:policy/default/v12''\<rparr>"

lemmas default_policy_defs = default_v1_def default_v2_def default_v3_def default_v4_def default_v5_def
  default_v6_def default_v7_def default_v8_def default_v9_def default_v10_def default_v11_def default_v12_def

subsection \<open>The compiler\<close>

definition policy_unsupported :: finding where
  "policy_unsupported = finding_error PolicyUnsupported"

text \<open>The loop with the index \<open>next\<close> into the canonical list; \<open>rest\<close> is \<open>canonical[next..]\<close>.\<close>

fun canonical_scan :: "string list \<Rightarrow> string list \<Rightarrow> bool" where
  "canonical_scan [] rest = True"
| "canonical_scan (f # fs) rest =
     (case position (\<lambda>candidate. candidate = f) rest of
        None \<Rightarrow> False
      | Some i \<Rightarrow> canonical_scan fs (drop (i + 1) rest))"

definition valid_canonical_subset :: "string list \<Rightarrow> string list \<Rightarrow> bool" where
  "valid_canonical_subset fmts canonical = (if fmts = [] then False else canonical_scan fmts canonical)"

definition valid_v2_formats :: "string list \<Rightarrow> bool" where
  "valid_v2_formats fmts = valid_canonical_subset fmts [POLICY_FORMAT_ZIP, POLICY_FORMAT_TAR_USTAR]"

definition valid_v3_formats :: "string list \<Rightarrow> bool" where
  "valid_v3_formats fmts = valid_canonical_subset fmts
     [POLICY_FORMAT_ZIP, POLICY_FORMAT_ZIP64, POLICY_FORMAT_TAR_USTAR]"

definition valid_v4_formats :: "string list \<Rightarrow> bool" where
  "valid_v4_formats fmts = valid_canonical_subset fmts
     [POLICY_FORMAT_ZIP, POLICY_FORMAT_ZIP64, POLICY_FORMAT_TAR_USTAR, POLICY_FORMAT_TAR_GZIP_USTAR]"

definition valid_v5_formats :: "string list \<Rightarrow> bool" where
  "valid_v5_formats fmts = valid_canonical_subset fmts
     [POLICY_FORMAT_ZIP, POLICY_FORMAT_ZIP64, POLICY_FORMAT_TAR_USTAR, POLICY_FORMAT_TAR_GZIP_USTAR,
      POLICY_FORMAT_TAR_PAX]"

definition valid_v6_formats :: "string list \<Rightarrow> bool" where
  "valid_v6_formats fmts = valid_canonical_subset fmts
     [POLICY_FORMAT_ZIP, POLICY_FORMAT_ZIP64, POLICY_FORMAT_TAR_USTAR, POLICY_FORMAT_TAR_GZIP_USTAR,
      POLICY_FORMAT_TAR_PAX, POLICY_FORMAT_TAR_GNU_LONGNAME]"

definition valid_v7_formats :: "string list \<Rightarrow> bool" where
  "valid_v7_formats fmts = valid_canonical_subset fmts
     [POLICY_FORMAT_ZIP, POLICY_FORMAT_ZIP64, POLICY_FORMAT_TAR_USTAR, POLICY_FORMAT_TAR_GZIP_USTAR,
      POLICY_FORMAT_TAR_PAX, POLICY_FORMAT_TAR_GNU_LONGNAME, POLICY_FORMAT_TAR_GZIP_PAX,
      POLICY_FORMAT_TAR_GZIP_GNU_LONGNAME]"

definition valid_v8_formats :: "string list \<Rightarrow> bool" where
  "valid_v8_formats fmts = valid_canonical_subset fmts
     [POLICY_FORMAT_ZIP, POLICY_FORMAT_ZIP64, POLICY_FORMAT_TAR_USTAR, POLICY_FORMAT_TAR_GZIP_USTAR,
      POLICY_FORMAT_TAR_PAX, POLICY_FORMAT_TAR_GNU_LONGNAME, POLICY_FORMAT_TAR_GZIP_PAX,
      POLICY_FORMAT_TAR_GZIP_GNU_LONGNAME, POLICY_FORMAT_TAR_ZSTD_USTAR]"

definition valid_v9_formats :: "string list \<Rightarrow> bool" where
  "valid_v9_formats fmts = valid_canonical_subset fmts
     [POLICY_FORMAT_ZIP, POLICY_FORMAT_ZIP64, POLICY_FORMAT_TAR_USTAR, POLICY_FORMAT_TAR_GZIP_USTAR,
      POLICY_FORMAT_TAR_PAX, POLICY_FORMAT_TAR_GNU_LONGNAME, POLICY_FORMAT_TAR_GZIP_PAX,
      POLICY_FORMAT_TAR_GZIP_GNU_LONGNAME, POLICY_FORMAT_TAR_ZSTD_USTAR, POLICY_FORMAT_TAR_XZ_USTAR]"

definition valid_v10_formats :: "string list \<Rightarrow> bool" where
  "valid_v10_formats fmts = valid_canonical_subset fmts
     [POLICY_FORMAT_ZIP, POLICY_FORMAT_ZIP64, POLICY_FORMAT_TAR_USTAR, POLICY_FORMAT_TAR_GZIP_USTAR,
      POLICY_FORMAT_TAR_PAX, POLICY_FORMAT_TAR_GNU_LONGNAME, POLICY_FORMAT_TAR_GZIP_PAX,
      POLICY_FORMAT_TAR_GZIP_GNU_LONGNAME, POLICY_FORMAT_TAR_ZSTD_USTAR, POLICY_FORMAT_TAR_XZ_USTAR,
      POLICY_FORMAT_TAR_BZIP2_USTAR]"

definition valid_v11_formats :: "string list \<Rightarrow> bool" where
  "valid_v11_formats fmts = valid_canonical_subset fmts
     [POLICY_FORMAT_ZIP, POLICY_FORMAT_ZIP64, POLICY_FORMAT_TAR_USTAR, POLICY_FORMAT_TAR_GZIP_USTAR,
      POLICY_FORMAT_TAR_PAX, POLICY_FORMAT_TAR_GNU_LONGNAME, POLICY_FORMAT_TAR_GZIP_PAX,
      POLICY_FORMAT_TAR_GZIP_GNU_LONGNAME, POLICY_FORMAT_TAR_ZSTD_USTAR, POLICY_FORMAT_TAR_XZ_USTAR,
      POLICY_FORMAT_TAR_BZIP2_USTAR, POLICY_FORMAT_SEVENZ_COPY]"

lemmas valid_formats_defs = valid_v2_formats_def valid_v3_formats_def valid_v4_formats_def valid_v5_formats_def
  valid_v6_formats_def valid_v7_formats_def valid_v8_formats_def valid_v9_formats_def valid_v10_formats_def
  valid_v11_formats_def

definition allows_format :: "policy \<Rightarrow> string \<Rightarrow> bool" where
  "allows_format p magic = list_ex (\<lambda>f. f = magic) (po_formats p)"

definition check_reserved :: "string \<Rightarrow> string \<Rightarrow> finding + unit" where
  "check_reserved actual supported = (if actual = supported then Inr () else Inl policy_unsupported)"

definition check_formats :: "policy \<Rightarrow> finding + unit" where
  "check_formats p =
     (let fmts = po_formats p;
          require = (\<lambda>ok. if ok then Inr () else Inl policy_unsupported)
      in if po_schema p = ''sealr.policy.v1'' then require (fmts = [POLICY_FORMAT_ZIP])
         else if po_schema p = ''sealr.policy.v2'' then require (valid_v2_formats fmts)
         else if po_schema p = ''sealr.policy.v3'' then require (valid_v3_formats fmts)
         else if po_schema p = ''sealr.policy.v4'' then require (valid_v4_formats fmts)
         else if po_schema p = ''sealr.policy.v5'' then require (valid_v5_formats fmts)
         else if po_schema p = ''sealr.policy.v6'' then require (valid_v6_formats fmts)
         else if po_schema p = ''sealr.policy.v7'' then require (valid_v7_formats fmts)
         else if po_schema p = ''sealr.policy.v8'' then require (valid_v8_formats fmts)
         else if po_schema p = ''sealr.policy.v9'' then require (valid_v9_formats fmts)
         else if po_schema p = ''sealr.policy.v11'' then require (valid_v11_formats fmts)
         else if po_schema p = ''sealr.policy.v12'' then require (valid_v11_formats fmts)
         else if po_schema p = ''sealr.policy.v10'' then require (valid_v10_formats fmts)
         else Inl policy_unsupported)"

definition compile_controls :: "policy \<Rightarrow> compiled_controls" where
  "compile_controls p = \<lparr>cc_budget = \<lparr>max_archive_bytes = po_max_archive_bytes p,
       max_derived_archive_bytes = (case po_max_derived_archive_bytes p of Some v \<Rightarrow> v | None \<Rightarrow> 0),
       max_files = po_max_files p, max_member_bytes = po_max_member_bytes p, max_total_bytes = po_max_total_bytes p,
       max_ratio = po_max_ratio p, max_path_depth = po_max_path_depth p,
       max_metadata_bytes = po_max_metadata_bytes p\<rparr>,
     cc_target = PortableV1Target, cc_consumer = GenericArchive,
     cc_effect = \<lparr>member_sync = po_atomic p, directory_sync = po_directory_sync p\<rparr>\<rparr>"

definition policy_compile :: "policy \<Rightarrow> finding + compiled_controls" where
  "policy_compile p =
     and_then (check_formats p) (\<lambda>_.
     and_then (check_reserved (po_symlinks p) (po_symlinks default_v1)) (\<lambda>_.
     and_then (check_reserved (po_hardlinks p) (po_hardlinks default_v1)) (\<lambda>_.
     and_then (check_reserved (po_overwrite p) (po_overwrite default_v1)) (\<lambda>_.
     and_then (check_reserved (po_setuid p) (po_setuid default_v1)) (\<lambda>_.
     and_then (check_reserved (po_ambiguity p) (po_ambiguity default_v1)) (\<lambda>_.
     and_then (check_reserved (po_case_fold_collision p) (po_case_fold_collision default_v1)) (\<lambda>_.
     and_then (check_reserved (po_magic_vs_extension p) (po_magic_vs_extension default_v1)) (\<lambda>_.
     and_then (check_reserved (po_encrypted p) (po_encrypted default_v1)) (\<lambda>_.
     if po_nested_depth p \<noteq> po_nested_depth default_v1 then Inl policy_unsupported
     else if po_max_dict_bytes p \<noteq> po_max_dict_bytes default_v1 then Inl policy_unsupported
     else if po_schema p \<in> {''sealr.policy.v2'', ''sealr.policy.v3'', ''sealr.policy.v4'', ''sealr.policy.v5'',
            ''sealr.policy.v6'', ''sealr.policy.v7'', ''sealr.policy.v8'', ''sealr.policy.v9'', ''sealr.policy.v10'',
            ''sealr.policy.v11'', ''sealr.policy.v12''} \<and> po_max_files p > of_nat u32_max
     then Inl policy_unsupported
     else
     and_then
       (if po_schema p \<in> {''sealr.policy.v4'', ''sealr.policy.v5'', ''sealr.policy.v6'', ''sealr.policy.v7'',
            ''sealr.policy.v8'', ''sealr.policy.v9'', ''sealr.policy.v10'', ''sealr.policy.v11'', ''sealr.policy.v12''}
        then (case po_max_derived_archive_bytes p of Some _ \<Rightarrow> Inr () | None \<Rightarrow> Inl policy_unsupported)
        else (case po_max_derived_archive_bytes p of None \<Rightarrow> Inr () | Some _ \<Rightarrow> Inl policy_unsupported)) (\<lambda>_.
     if po_directory_sync p \<and> po_schema p \<noteq> ''sealr.policy.v12'' then Inl policy_unsupported
     else if po_directory_sync p \<and> \<not> po_atomic p then Inl policy_unsupported
     else Inr (compile_controls p)))))))))))"

definition compile_for_format :: "policy \<Rightarrow> string \<Rightarrow> finding + compiled_controls" where
  "compile_for_format p format =
     and_then (policy_compile p) (\<lambda>controls.
     if allows_format p format then Inr controls else Inl policy_unsupported)"

subsection \<open>Policy documents\<close>

record policy_document =
  pd_schema :: string
  pd_id :: string
  pd_formats :: "string list"
  pd_max_archive_bytes :: u64
  pd_max_derived_archive_bytes :: "u64 option"
  pd_max_files :: u64
  pd_max_member_bytes :: u64
  pd_max_total_bytes :: u64
  pd_max_ratio :: "u64 option"
  pd_max_path_depth :: "32 word"
  pd_max_metadata_bytes :: u64
  pd_max_dict_bytes :: u64
  pd_symlinks :: string
  pd_hardlinks :: string
  pd_overwrite :: string
  pd_setuid :: string
  pd_nested_depth :: "32 word"
  pd_ambiguity :: string
  pd_case_fold_collision :: string
  pd_magic_vs_extension :: string
  pd_encrypted :: string
  pd_atomic :: bool
  pd_directory_sync :: "bool option"

definition MAX_DOUBLE_SAFE_INTEGER :: u64 where
  "MAX_DOUBLE_SAFE_INTEGER = 2 ^ 53 - 1"

definition KNOWN_POLICY_SCHEMAS :: "string list" where
  "KNOWN_POLICY_SCHEMAS = [''sealr.policy.v1'', ''sealr.policy.v2'', ''sealr.policy.v3'', ''sealr.policy.v4'',
     ''sealr.policy.v5'', ''sealr.policy.v6'', ''sealr.policy.v7'', ''sealr.policy.v8'', ''sealr.policy.v9'',
     ''sealr.policy.v10'', ''sealr.policy.v11'', ''sealr.policy.v12'']"

definition static_schema :: "string \<Rightarrow> finding + string" where
  "static_schema schema = ok_or policy_unsupported (find (\<lambda>known. known = schema) KNOWN_POLICY_SCHEMAS)"

definition static_vocabulary :: "string \<Rightarrow> string \<Rightarrow> finding + string" where
  "static_vocabulary field val =
     (if field \<in> {''symlinks'', ''hardlinks'', ''ambiguity'', ''case_fold_collision'', ''magic_vs_extension'',
           ''encrypted''} \<and> val = ''deny'' then Inr ''deny''
      else if field = ''overwrite'' \<and> val = ''refuse'' then Inr ''refuse''
      else if field = ''setuid'' \<and> val = ''strip'' then Inr ''strip''
      else Inl policy_unsupported)"

definition document_durability :: "policy_document \<Rightarrow> durability" where
  "document_durability d =
     (if pd_directory_sync d = Some True then DirectorySync else from_member_sync (pd_atomic d))"

definition document_set_durability :: "durability \<Rightarrow> policy_document \<Rightarrow> policy_document" where
  "document_set_durability du d =
     d\<lparr>pd_atomic := durability_member_sync du,
       pd_directory_sync := (if durability_directory_sync du then Some True else None)\<rparr>"

text \<open>\<open>ValidatedPolicy::new\<close>: the policy compiles and every cap is below the ceiling.\<close>

definition validated_policy :: "policy \<Rightarrow> finding + policy" where
  "validated_policy p =
     and_then (policy_compile p) (\<lambda>_.
     if list_ex (\<lambda>v. case v of Some n \<Rightarrow> n > MAX_DOUBLE_SAFE_INTEGER | None \<Rightarrow> False)
          [Some (po_max_archive_bytes p), po_max_derived_archive_bytes p, Some (po_max_files p),
           Some (po_max_member_bytes p), Some (po_max_total_bytes p), po_max_ratio p,
           Some (po_max_metadata_bytes p), Some (po_max_dict_bytes p)]
     then Inl policy_unsupported else Inr p)"

definition document_validate :: "policy_document \<Rightarrow> finding + policy" where
  "document_validate d =
     and_then (static_schema (pd_schema d)) (\<lambda>schema.
     and_then
       (case pd_directory_sync d of
          Some v \<Rightarrow> if schema = ''sealr.policy.v12'' then Inr v else Inl policy_unsupported
        | None \<Rightarrow> Inr False) (\<lambda>dir_sync.
     and_then (static_vocabulary ''symlinks'' (pd_symlinks d)) (\<lambda>symlinks.
     and_then (static_vocabulary ''hardlinks'' (pd_hardlinks d)) (\<lambda>hardlinks.
     and_then (static_vocabulary ''overwrite'' (pd_overwrite d)) (\<lambda>overwrite.
     and_then (static_vocabulary ''setuid'' (pd_setuid d)) (\<lambda>setuid.
     and_then (static_vocabulary ''ambiguity'' (pd_ambiguity d)) (\<lambda>ambiguity.
     and_then (static_vocabulary ''case_fold_collision'' (pd_case_fold_collision d)) (\<lambda>case_fold.
     and_then (static_vocabulary ''magic_vs_extension'' (pd_magic_vs_extension d)) (\<lambda>magic.
     and_then (static_vocabulary ''encrypted'' (pd_encrypted d)) (\<lambda>encrypted.
     validated_policy
       \<lparr>po_schema = schema, po_id = pd_id d, po_formats = pd_formats d,
        po_max_archive_bytes = pd_max_archive_bytes d, po_max_derived_archive_bytes = pd_max_derived_archive_bytes d,
        po_max_files = pd_max_files d, po_max_member_bytes = pd_max_member_bytes d,
        po_max_total_bytes = pd_max_total_bytes d, po_max_ratio = pd_max_ratio d,
        po_max_path_depth = pd_max_path_depth d, po_max_metadata_bytes = pd_max_metadata_bytes d,
        po_max_dict_bytes = pd_max_dict_bytes d, po_symlinks = symlinks, po_hardlinks = hardlinks,
        po_overwrite = overwrite, po_setuid = setuid, po_nested_depth = pd_nested_depth d,
        po_ambiguity = ambiguity, po_case_fold_collision = case_fold, po_magic_vs_extension = magic,
        po_encrypted = encrypted, po_atomic = pd_atomic d, po_directory_sync = dir_sync\<rparr>))))))))))"

subsection \<open>What compiles\<close>

text \<open>The formats in canonical order and the sublist each schema authorizes.\<close>

definition canonical_formats :: "string list" where
  "canonical_formats = [''zip'', ''zip64'', ''tar-ustar'', ''tar-gzip-ustar'', ''tar-pax'', ''tar-gnu-longname'',
     ''tar-gzip-pax'', ''tar-gzip-gnu-longname'', ''tar-zstd-ustar'', ''tar-xz-ustar'', ''tar-bzip2-ustar'', ''7z-copy'']"

definition schema_formats :: "(string \<times> string list) list" where
  "schema_formats = [(''sealr.policy.v1'', [''zip'']), (''sealr.policy.v2'', [''zip'', ''tar-ustar'']),
     (''sealr.policy.v3'', take 3 canonical_formats), (''sealr.policy.v4'', take 4 canonical_formats),
     (''sealr.policy.v5'', take 5 canonical_formats), (''sealr.policy.v6'', take 6 canonical_formats),
     (''sealr.policy.v7'', take 8 canonical_formats), (''sealr.policy.v8'', take 9 canonical_formats),
     (''sealr.policy.v9'', take 10 canonical_formats), (''sealr.policy.v10'', take 11 canonical_formats),
     (''sealr.policy.v11'', canonical_formats), (''sealr.policy.v12'', canonical_formats)]"

text \<open>What a policy has to be: a known schema with a nonempty selection of its formats in canonical order, every reserved
  field at its only value, a file cap that fits 32 bits after v1, a derived cap exactly from v4 on,
  and directory sync only in v12 and only with member sync.\<close>

definition policy_spec :: "policy \<Rightarrow> bool" where
  "policy_spec p \<longleftrightarrow>
     (\<exists>canonical. map_of schema_formats (po_schema p) = Some canonical \<and> po_formats p \<noteq> [] \<and>
        subseq (po_formats p) canonical) \<and>
     po_symlinks p = ''deny'' \<and> po_hardlinks p = ''deny'' \<and> po_overwrite p = ''refuse'' \<and> po_setuid p = ''strip'' \<and>
     po_ambiguity p = ''deny'' \<and> po_case_fold_collision p = ''deny'' \<and> po_magic_vs_extension p = ''deny'' \<and>
     po_encrypted p = ''deny'' \<and> po_nested_depth p = 1 \<and> po_max_dict_bytes p = 64 * 1024 * 1024 \<and>
     (po_schema p \<noteq> ''sealr.policy.v1'' \<longrightarrow> unat (po_max_files p) \<le> u32_max) \<and>
     (po_max_derived_archive_bytes p = None \<longleftrightarrow>
        po_schema p \<in> {''sealr.policy.v1'', ''sealr.policy.v2'', ''sealr.policy.v3''}) \<and>
     (po_directory_sync p \<longrightarrow> po_schema p = ''sealr.policy.v12'' \<and> po_atomic p)"

lemma canonical_scan_iff: "canonical_scan fs cs \<longleftrightarrow> subseq fs cs"
proof (induction fs arbitrary: cs)
  case (Cons f fs)
  have "subseq (f # fs) cs \<longleftrightarrow>
      (case position (\<lambda>c. c = f) cs of None \<Rightarrow> False | Some i \<Rightarrow> subseq fs (drop (i + 1) cs))"
    by (induction cs) (auto split: option.split)
  with Cons.IH show ?case by (simp split: option.split)
qed simp

lemma valid_canonical_subset_iff: "valid_canonical_subset fs cs \<longleftrightarrow> fs \<noteq> [] \<and> subseq fs cs"
  by (simp add: valid_canonical_subset_def canonical_scan_iff)

lemma subseq_singleton: "fs \<noteq> [] \<and> subseq fs [x] \<longleftrightarrow> fs = [x]"
  by (cases fs) (auto elim: list_emb.cases)

lemma known_schemas_cases:
  obtains "s = ''sealr.policy.v1''" | "s = ''sealr.policy.v2''" | "s = ''sealr.policy.v3''"
  | "s = ''sealr.policy.v4''" | "s = ''sealr.policy.v5''" | "s = ''sealr.policy.v6''"
  | "s = ''sealr.policy.v7''" | "s = ''sealr.policy.v8''" | "s = ''sealr.policy.v9''"
  | "s = ''sealr.policy.v10''" | "s = ''sealr.policy.v11''" | "s = ''sealr.policy.v12''"
  | "s \<notin> set KNOWN_POLICY_SCHEMAS"
  by (cases "s \<in> set KNOWN_POLICY_SCHEMAS") (simp only: KNOWN_POLICY_SCHEMAS_def list.set insert_iff empty_iff, elim disjE FalseE)

lemma map_of_schema_formats_None:
  "s \<notin> set KNOWN_POLICY_SCHEMAS \<Longrightarrow> map_of schema_formats s = None"
  unfolding map_of_eq_None_iff schema_formats_def KNOWN_POLICY_SCHEMAS_def by (simp only: list.map list.set image_insert image_empty fst_conv) simp

lemma check_formats_iff:
  "check_formats p = (if \<exists>canonical. map_of schema_formats (po_schema p) = Some canonical \<and> po_formats p \<noteq> [] \<and>
      subseq (po_formats p) canonical then Inr () else Inl policy_unsupported)"
proof (cases "po_schema p" rule: known_schemas_cases)
  case 1
  then show ?thesis using subseq_singleton [of "po_formats p" "''zip''"]
    by (simp add: check_formats_def Let_def schema_formats_def policy_format_defs)
next
  case 13
  then have "check_formats p = Inl policy_unsupported"
    unfolding check_formats_def KNOWN_POLICY_SCHEMAS_def Let_def by simp
  with map_of_schema_formats_None [OF 13] show ?thesis by simp
qed (simp add: check_formats_def Let_def schema_formats_def valid_formats_defs valid_canonical_subset_iff policy_format_defs
    canonical_formats_def)+

lemma of_nat_u32_less: "(x :: u64) > of_nat u32_max \<longleftrightarrow> u32_max < unat x"
  by (simp add: word_less_nat_alt u32_max_def)

lemma policy_compile_iff:
  "policy_compile p = (if policy_spec p then Inr (compile_controls p) else Inl policy_unsupported)"
proof (cases "\<exists>canonical. map_of schema_formats (po_schema p) = Some canonical \<and> po_formats p \<noteq> [] \<and>
      subseq (po_formats p) canonical")
  case False
  then have "check_formats p = Inl policy_unsupported" by (simp only: check_formats_iff if_False)
  moreover have "\<not> policy_spec p" using False by (simp only: policy_spec_def) blast
  ultimately show ?thesis by (simp add: policy_compile_def)
next
  case True
  then obtain canonical where "map_of schema_formats (po_schema p) = Some canonical" by blast
  then have "po_schema p \<in> fst ` set schema_formats" by (force dest: map_of_SomeD)
  then have known: "po_schema p \<in> set KNOWN_POLICY_SCHEMAS"
    by (simp add: schema_formats_def KNOWN_POLICY_SCHEMAS_def)
  have c: "check_formats p = Inr ()" using True by (simp add: check_formats_iff)
  have late: "po_schema p \<in> {''sealr.policy.v2'', ''sealr.policy.v3'', ''sealr.policy.v4'', ''sealr.policy.v5'',
            ''sealr.policy.v6'', ''sealr.policy.v7'', ''sealr.policy.v8'', ''sealr.policy.v9'', ''sealr.policy.v10'',
            ''sealr.policy.v11'', ''sealr.policy.v12''} \<longleftrightarrow> po_schema p \<noteq> ''sealr.policy.v1''"
    and derived: "po_schema p \<in> {''sealr.policy.v4'', ''sealr.policy.v5'', ''sealr.policy.v6'', ''sealr.policy.v7'',
            ''sealr.policy.v8'', ''sealr.policy.v9'', ''sealr.policy.v10'', ''sealr.policy.v11'', ''sealr.policy.v12''} \<longleftrightarrow>
          po_schema p \<notin> {''sealr.policy.v1'', ''sealr.policy.v2'', ''sealr.policy.v3''}"
    using known unfolding KNOWN_POLICY_SCHEMAS_def by auto
  have spec: "policy_spec p \<longleftrightarrow>
     po_symlinks p = ''deny'' \<and> po_hardlinks p = ''deny'' \<and> po_overwrite p = ''refuse'' \<and> po_setuid p = ''strip'' \<and>
     po_ambiguity p = ''deny'' \<and> po_case_fold_collision p = ''deny'' \<and> po_magic_vs_extension p = ''deny'' \<and>
     po_encrypted p = ''deny'' \<and> po_nested_depth p = 1 \<and> po_max_dict_bytes p = 64 * 1024 * 1024 \<and>
     (po_schema p \<noteq> ''sealr.policy.v1'' \<longrightarrow> unat (po_max_files p) \<le> u32_max) \<and>
     (po_max_derived_archive_bytes p = None \<longleftrightarrow>
        po_schema p \<in> {''sealr.policy.v1'', ''sealr.policy.v2'', ''sealr.policy.v3''}) \<and>
     (po_directory_sync p \<longrightarrow> po_schema p = ''sealr.policy.v12'' \<and> po_atomic p)"
    using True unfolding policy_spec_def by blast
  show ?thesis
    unfolding policy_compile_def c late derived spec check_reserved_def of_nat_u32_less
    by (simp add: default_v1_def split: option.split)
qed

lemma default_policies_spec:
  "list_all policy_spec [default_v1, default_v2, default_v3, default_v4, default_v5, default_v6, default_v7,
     default_v8, default_v9, default_v10, default_v11, default_v12]"
  by (simp add: policy_spec_def default_policy_defs schema_formats_def canonical_formats_def policy_format_defs u32_max_def)


text \<open>The document a policy serializes to: the conditional fields are absent when the policy has no
  derived cap or no directory sync.\<close>

definition document_of :: "policy \<Rightarrow> policy_document" where
  "document_of p = \<lparr>pd_schema = po_schema p, pd_id = po_id p, pd_formats = po_formats p,
     pd_max_archive_bytes = po_max_archive_bytes p, pd_max_derived_archive_bytes = po_max_derived_archive_bytes p,
     pd_max_files = po_max_files p, pd_max_member_bytes = po_max_member_bytes p,
     pd_max_total_bytes = po_max_total_bytes p, pd_max_ratio = po_max_ratio p,
     pd_max_path_depth = po_max_path_depth p, pd_max_metadata_bytes = po_max_metadata_bytes p,
     pd_max_dict_bytes = po_max_dict_bytes p, pd_symlinks = po_symlinks p, pd_hardlinks = po_hardlinks p,
     pd_overwrite = po_overwrite p, pd_setuid = po_setuid p, pd_nested_depth = po_nested_depth p,
     pd_ambiguity = po_ambiguity p, pd_case_fold_collision = po_case_fold_collision p,
     pd_magic_vs_extension = po_magic_vs_extension p, pd_encrypted = po_encrypted p, pd_atomic = po_atomic p,
     pd_directory_sync = (if po_directory_sync p then Some True else None)\<rparr>"

definition caps_ok :: "policy \<Rightarrow> bool" where
  "caps_ok p \<longleftrightarrow> (\<forall>n \<in> {po_max_archive_bytes p, po_max_files p, po_max_member_bytes p, po_max_total_bytes p,
       po_max_metadata_bytes p, po_max_dict_bytes p} \<union> set_option (po_max_derived_archive_bytes p) \<union>
       set_option (po_max_ratio p). unat n < 2 ^ 53)"

lemma double_safe: "n > MAX_DOUBLE_SAFE_INTEGER \<longleftrightarrow> \<not> unat n < 2 ^ 53"
  by (simp add: MAX_DOUBLE_SAFE_INTEGER_def word_less_nat_alt) linarith

lemma validated_policy_iff:
  "validated_policy p = (if policy_spec p \<and> caps_ok p then Inr p else Inl policy_unsupported)"
  unfolding validated_policy_def policy_compile_iff caps_ok_def double_safe
  by (auto split: option.split)

lemma static_schema_known:
  "static_schema s = (if s \<in> set KNOWN_POLICY_SCHEMAS then Inr s else Inl policy_unsupported)"
proof (cases "find (\<lambda>known. known = s) KNOWN_POLICY_SCHEMAS")
  case None
  then have "s \<notin> set KNOWN_POLICY_SCHEMAS" by (auto simp: find_None_iff)
  with None show ?thesis by (simp add: static_schema_def)
next
  case (Some x)
  then have "x = s" "x \<in> set KNOWN_POLICY_SCHEMAS" by (auto simp: find_Some_iff)
  with Some show ?thesis by (simp add: static_schema_def)
qed

lemma policy_spec_known:
  assumes "policy_spec p"
  shows "po_schema p \<in> set KNOWN_POLICY_SCHEMAS"
proof (rule ccontr)
  assume "\<not> ?thesis"
  then have "map_of schema_formats (po_schema p) = None" by (rule map_of_schema_formats_None)
  moreover from assms have "\<exists>canonical. map_of schema_formats (po_schema p) = Some canonical"
    unfolding policy_spec_def by (elim conjE exE) (rule exI)
  ultimately show False by simp
qed

lemma static_vocabulary_values:
  "static_vocabulary ''symlinks'' ''deny'' = Inr ''deny''" "static_vocabulary ''hardlinks'' ''deny'' = Inr ''deny''"
  "static_vocabulary ''ambiguity'' ''deny'' = Inr ''deny''"
  "static_vocabulary ''case_fold_collision'' ''deny'' = Inr ''deny''"
  "static_vocabulary ''magic_vs_extension'' ''deny'' = Inr ''deny''"
  "static_vocabulary ''encrypted'' ''deny'' = Inr ''deny''"
  "static_vocabulary ''overwrite'' ''refuse'' = Inr ''refuse''" "static_vocabulary ''setuid'' ''strip'' = Inr ''strip''"
  by (simp_all add: static_vocabulary_def)

lemma document_of_validates:
  assumes "policy_spec p" "caps_ok p"
  shows "document_validate (document_of p) = Inr p"
proof -
  have v: "po_symlinks p = ''deny''" "po_hardlinks p = ''deny''" "po_overwrite p = ''refuse''" "po_setuid p = ''strip''"
    "po_ambiguity p = ''deny''" "po_case_fold_collision p = ''deny''" "po_magic_vs_extension p = ''deny''"
    "po_encrypted p = ''deny''" "po_directory_sync p \<Longrightarrow> po_schema p = ''sealr.policy.v12''"
    using assms(1) by (simp_all only: policy_spec_def)
  have "document_validate (document_of p) = validated_policy p"
    using v policy_spec_known [OF assms(1)]
    unfolding document_validate_def static_schema_known
    by (cases p) (simp add: document_of_def static_vocabulary_values)
  with assms show ?thesis by (simp add: validated_policy_iff)
qed

lemma document_validate_sound:
  assumes "document_validate d = Inr p"
  shows "policy_spec p \<and> caps_ok p \<and> policy_durability p = document_durability d \<and> po_formats p = pd_formats d"
proof -
  from assms obtain dir_sync vals where v: "validated_policy vals = Inr p"
    and ds: "(case pd_directory_sync d of Some v \<Rightarrow> if pd_schema d = ''sealr.policy.v12'' then Inr v
        else Inl policy_unsupported | None \<Rightarrow> Inr False) = Inr dir_sync"
    and f: "po_atomic vals = pd_atomic d" "po_directory_sync vals = dir_sync" "po_formats vals = pd_formats d"
    unfolding document_validate_def static_schema_known
    by (auto simp only: and_then_eq_Inr policy.select_convs split: if_split_asm)
  from v have p: "vals = p" "policy_spec p \<and> caps_ok p" by (simp_all add: validated_policy_iff split: if_split_asm)
  have "dir_sync \<longleftrightarrow> pd_directory_sync d = Some True" using ds by (auto split: option.splits if_split_asm)
  with p f show ?thesis by (simp add: policy_durability_def document_durability_def)
qed

subsection \<open>Properties\<close>

text \<open>C13. The compiler decides the policy specification. A policy compiles for a selected format exactly
  when its schema is known, its formats are a nonempty selection of the schema's in canonical order
  with the selected one among them, its reserved fields have their only values, and the caps and the
  sync options agree with the schema, and every refusal is the finding \<open>policy.unsupported\<close>. The controls
  of a policy that compiles have each cap of the policy in its own field, no derived archive where the
  policy has no cap for one, the policy's two sync options, and the only target and consumer.\<close>

theorem policy_compiler_decides:
  "case compile_for_format p selected of
     Inl f \<Rightarrow> f = policy_unsupported \<and> \<not> (policy_spec p \<and> selected \<in> set (po_formats p))
   | Inr controls \<Rightarrow>
       policy_spec p \<and> selected \<in> set (po_formats p) \<and>
       max_archive_bytes (cc_budget controls) = po_max_archive_bytes p \<and>
       max_derived_archive_bytes (cc_budget controls) = (case po_max_derived_archive_bytes p of Some v \<Rightarrow> v | None \<Rightarrow> 0) \<and>
       max_files (cc_budget controls) = po_max_files p \<and>
       max_member_bytes (cc_budget controls) = po_max_member_bytes p \<and>
       max_total_bytes (cc_budget controls) = po_max_total_bytes p \<and>
       max_ratio (cc_budget controls) = po_max_ratio p \<and>
       max_path_depth (cc_budget controls) = po_max_path_depth p \<and>
       max_metadata_bytes (cc_budget controls) = po_max_metadata_bytes p \<and>
       member_sync (cc_effect controls) = po_atomic p \<and>
       directory_sync (cc_effect controls) = po_directory_sync p \<and>
       cc_target controls = PortableV1Target \<and> cc_consumer controls = GenericArchive"
  by (auto simp: compile_for_format_def policy_compile_iff allows_format_def list_ex_iff compile_controls_def)

text \<open>C24. Documents and policies correspond. The document of a policy validates back to it exactly when
  the policy compiles and its caps are below \<open>2 ^ 53\<close>; every document that validates gives a policy
  that compiles, with the same formats and the same durability.\<close>

theorem policy_documents_round_trip:
  "(document_validate (document_of p) = Inr p \<longleftrightarrow> policy_spec p \<and> caps_ok p) \<and>
   (document_validate d = Inr q \<longrightarrow>
      policy_spec q \<and> caps_ok q \<and> policy_durability q = document_durability d \<and> po_formats q = pd_formats d)"
  using document_of_validates document_validate_sound by blast

theorem policy_documents_round_trip_witness:
  "document_validate (document_of default_v12) = Inr default_v12 \<and> policy_durability default_v12 = FlushOnly"
proof -
  have "policy_spec default_v12" using default_policies_spec by simp
  moreover have "caps_ok default_v12" by (simp add: caps_ok_def default_policy_defs)
  ultimately show ?thesis
    using policy_documents_round_trip [of default_v12 "document_of default_v12" default_v12]
    by (simp add: document_durability_def document_of_def default_policy_defs from_member_sync_def)
qed

end
