(* ===== verification/TarPlan.thy ===== *)
theory TarPlan
  imports Paths TarGnu Quota Policy
begin

text \<open>
  The member planning of the TAR planners, \<open>crates/sealr/src/apply.rs\<close>: the loop over the
  parsed members that \<open>plan_tar_domains\<close>, \<open>plan_tar_pax\<close> and \<open>plan_tar_gnu_longname\<close> share
  word for word, with the declared-size quotas and the path admission. The budget is \<open>ResourceBudget\<close> of \<open>policy.rs\<close>. The loop
  is written over the selectors of a member type.
\<close>

type_synonym 'm planned = "'m \<times> rust_str list \<times> normalization_action list"

record 'm plan_state =
  pl_findings :: "finding list"
  pl_planned :: "'m planned list"
  pl_tables :: path_tables
  pl_total :: quota_state

definition plan_start :: "resource_budget \<Rightarrow> 'm plan_state" where
  "plan_start b = \<lparr>pl_findings = [], pl_planned = [], pl_tables = tables_new,
     pl_total = quota_new (max_total_bytes b)\<rparr>"

definition push_finding :: "finding \<Rightarrow> 'm plan_state \<Rightarrow> 'm plan_state" where
  "push_finding f st = st\<lparr>pl_findings := pl_findings st @ [f]\<rparr>"

text \<open>The path part of one iteration.\<close>

definition plan_path ::
  "unicode \<Rightarrow> resource_budget \<Rightarrow> ('m \<Rightarrow> rust_str) \<Rightarrow> ('m \<Rightarrow> bool) \<Rightarrow> 'm \<Rightarrow> 'm plan_state \<Rightarrow> 'm plan_state"
where
  "plan_path u b mname mdir m st =
     (case admit_tar_path u (mname m) (mdir m) (unat (max_path_depth b)) (pl_tables st) of
        (Inr (parts, actions), tables) \<Rightarrow>
          st\<lparr>pl_tables := tables, pl_planned := pl_planned st @ [(m, parts, actions)]\<rparr>
      | (Inl f, tables) \<Rightarrow> push_finding f (st\<lparr>pl_tables := tables\<rparr>))"

text \<open>\<open>Inr\<close> goes on with the next member, \<open>Inl\<close> is the \<open>break\<close>.\<close>

definition plan_member ::
  "unicode \<Rightarrow> resource_budget \<Rightarrow> ('m \<Rightarrow> rust_str) \<Rightarrow> ('m \<Rightarrow> nat) \<Rightarrow> ('m \<Rightarrow> bool) \<Rightarrow> 'm \<Rightarrow> 'm plan_state \<Rightarrow>
     'm plan_state + 'm plan_state"
where
  "plan_member u b mname msize mdir m st =
     (let sz = (of_nat (msize m) :: u64)
      in if sz > max_member_bytes b
         then Inr (push_finding (on_member (mname m) (finding_error QuotaMember)) st)
         else if (case max_ratio b of Some r \<Rightarrow> ratio_exceeds sz sz r | None \<Rightarrow> False)
         then Inr (push_finding (on_member (mname m) (finding_error QuotaRatio)) st)
         else case consume (pl_total st) sz of
                (Inl Overflow, q) \<Rightarrow> Inl (push_finding (finding_error QuotaOverflow) (st\<lparr>pl_total := q\<rparr>))
              | (Inl (Exceeded _ _), q) \<Rightarrow> Inl (push_finding (finding_error QuotaTotal) (st\<lparr>pl_total := q\<rparr>))
              | (Inr _, q) \<Rightarrow> Inr (plan_path u b mname mdir m (st\<lparr>pl_total := q\<rparr>)))"

fun plan_members ::
  "unicode \<Rightarrow> resource_budget \<Rightarrow> ('m \<Rightarrow> rust_str) \<Rightarrow> ('m \<Rightarrow> nat) \<Rightarrow> ('m \<Rightarrow> bool) \<Rightarrow> 'm list \<Rightarrow> 'm plan_state \<Rightarrow>
     'm plan_state"
where
  "plan_members u b mname msize mdir [] st = st"
| "plan_members u b mname msize mdir (m # ms) st =
     (case plan_member u b mname msize mdir m st of
        Inl st' \<Rightarrow> st'
      | Inr st' \<Rightarrow> plan_members u b mname msize mdir ms st')"

subsection \<open>What a plan without findings promises\<close>

abbreviation planned_path :: "'m planned \<Rightarrow> rust_str" where
  "planned_path p \<equiv> join_on slash (fst (snd p))"

definition planned_fold :: "unicode \<Rightarrow> 'm planned \<Rightarrow> rust_str" where
  "planned_fold u p =
     (if fst (snd p) = [] then [] else profile_case_fold u (planned_path p) PortableUtf8V1)"

definition keys_of :: "('m planned \<Rightarrow> rust_str) \<Rightarrow> ('m \<Rightarrow> bool) \<Rightarrow> 'm planned list \<Rightarrow> bool btree_map \<Rightarrow> bool" where
  "keys_of key mdir ps m \<longleftrightarrow>
     distinct (map key ps) \<and> (\<forall>k d. bt_get m k = Some d \<longleftrightarrow> (\<exists>p \<in> set ps. k = key p \<and> d = mdir (fst p)))"

text \<open>Each planned member has the prepared name as its path, safe components and its actions.\<close>

definition planned_ok :: "unicode \<Rightarrow> resource_budget \<Rightarrow> ('m \<Rightarrow> rust_str) \<Rightarrow> ('m \<Rightarrow> bool) \<Rightarrow> 'm planned \<Rightarrow> bool" where
  "planned_ok u b mname mdir p \<longleftrightarrow>
     (case p of (m, parts, actions) \<Rightarrow>
        let prepared = prepare_tar_member_name (mname m) (mdir m)
        in join_on slash parts = pn_name prepared \<and> actions = pn_actions prepared \<and>
           (parts = [] \<longleftrightarrow> pn_archive_root prepared) \<and> length parts \<le> unat (max_path_depth b) \<and>
           (\<forall>c \<in> set parts. safe_component u PortableUtf8V1 c))"

definition plan_inv :: "unicode \<Rightarrow> resource_budget \<Rightarrow> ('m \<Rightarrow> rust_str) \<Rightarrow> ('m \<Rightarrow> bool) \<Rightarrow> 'm plan_state \<Rightarrow> bool" where
  "plan_inv u b mname mdir st \<longleftrightarrow>
     tables_ok (pl_tables st) \<and> quota_inv (pl_total st) \<and> limit (pl_total st) = max_total_bytes b \<and>
     (\<forall>p \<in> set (pl_planned st). planned_ok u b mname mdir p) \<and>
     keys_of planned_path mdir (pl_planned st) (pt_dest (pl_tables st)) \<and>
     keys_of (planned_fold u) mdir (pl_planned st) (pt_fold (pl_tables st)) \<and>
     (\<forall>f \<in> set (pl_findings st). severity f = Error)"

lemma plan_inv_start [simp]: "plan_inv u b mname mdir (plan_start b)"
  using tables_ok_new
  by (simp add: plan_inv_def plan_start_def keys_of_def tables_new_def bt_get_def)
    (simp add: quota_new_def)

lemma plan_inv_push:
  "\<lbrakk>plan_inv u b mname mdir st; severity f = Error\<rbrakk> \<Longrightarrow> plan_inv u b mname mdir (push_finding f st)"
  by (simp add: plan_inv_def push_finding_def)

lemma push_finding_sel [simp]:
  "pl_findings (push_finding f st) = pl_findings st @ [f]"
  "pl_planned (push_finding f st) = pl_planned st"
  "pl_total (push_finding f st) = pl_total st"
  by (simp_all add: push_finding_def)

lemma keys_of_insert:
  assumes "keys_of key mdir ps m" "bt_sorted m" "bt_get m (key p) = None"
  shows "keys_of key mdir (ps @ [p]) (bt_insert (key p) (mdir (fst p)) m)"
proof -
  have k: "bt_get m k = Some d \<longleftrightarrow> (\<exists>p \<in> set ps. k = key p \<and> d = mdir (fst p))" for k d
    using assms(1) unfolding keys_of_def by blast
  have new: "key p \<notin> key ` set ps"
  proof
    assume "key p \<in> key ` set ps"
    then obtain q where "q \<in> set ps" "key p = key q" by blast
    with k [of "key p" "mdir (fst q)"] assms(3) show False by auto
  qed
  have "bt_get (bt_insert (key p) (mdir (fst p)) m) k' = Some d \<longleftrightarrow>
      (\<exists>q \<in> set (ps @ [p]). k' = key q \<and> d = mdir (fst q))" for k' d
  proof (cases "k' = key p")
    case True
    with new show ?thesis by (auto simp: bt_get_insert [OF assms(2)])
  next
    case False
    with k [of k' d] show ?thesis by (auto simp: bt_get_insert [OF assms(2)])
  qed
  with new assms(1) show ?thesis unfolding keys_of_def by simp
qed

lemma plan_path_inv:
  assumes "plan_inv u b mname mdir st"
  shows "plan_inv u b mname mdir (plan_path u b mname mdir m st)"
proof -
  obtain r pt' where a: "admit_tar_path u (mname m) (mdir m) (unat (max_path_depth b)) (pl_tables st) = (r, pt')"
    by fastforce
  show ?thesis
  proof (cases r)
    case (Inl f)
    with admit_error [OF a [unfolded Inl]] assms a show ?thesis
      by (simp add: plan_path_def plan_inv_push)
  next
    case (Inr x)
    obtain parts actions where x: "x = (parts, actions)" by fastforce
    let ?p = "(m, parts, actions)"
    note ad = admit_ok [OF a [unfolded Inr x]]
    have ok: "tables_ok (pl_tables st)" using assms by (simp add: plan_inv_def)
    have pt': "pt' = record_path (planned_path ?p) (planned_fold u ?p) (mdir m) (pl_tables st)"
      and new: "bt_get (pt_dest (pl_tables st)) (planned_path ?p) = None"
        "bt_get (pt_fold (pl_tables st)) (planned_fold u ?p) = None"
      and pok: "planned_ok u b mname mdir ?p"
      using ad by (auto simp: admitted_def planned_fold_def planned_ok_def Let_def)
    have "keys_of planned_path mdir (pl_planned st @ [?p]) (pt_dest pt')"
      using keys_of_insert [of planned_path mdir "pl_planned st" "pt_dest (pl_tables st)" ?p] new assms ok
      by (simp add: pt' record_path_def plan_inv_def tables_ok_def)
    moreover have "keys_of (planned_fold u) mdir (pl_planned st @ [?p]) (pt_fold pt')"
      using keys_of_insert [of "planned_fold u" mdir "pl_planned st" "pt_fold (pl_tables st)" ?p] new assms ok
      by (simp add: pt' record_path_def plan_inv_def tables_ok_def)
    ultimately show ?thesis
      using assms admitted_tables_ok [OF ok ad] pok a
      by (simp add: plan_path_def Inr x plan_inv_def)
  qed
qed

lemma consume_quota:
  assumes "quota_inv q" "consume q a = (r, q')"
  shows "quota_inv q' \<and> limit q' = limit q"
  using quota_inv_consume [OF assms(1), of a] limit_consume [of q a] assms(2) by simp

lemma plan_inv_total:
  assumes "plan_inv u b mname mdir st" "consume (pl_total st) a = (r, q)"
  shows "plan_inv u b mname mdir (st\<lparr>pl_total := q\<rparr>)"
  using assms(1) consume_quota [OF _ assms(2)] by (simp add: plan_inv_def)

lemma plan_member_inv:
  assumes "plan_inv u b mname mdir st"
  shows "case plan_member u b mname msize mdir m st of
    Inl st' \<Rightarrow> plan_inv u b mname mdir st' \<and> pl_findings st' \<noteq> []
  | Inr st' \<Rightarrow> plan_inv u b mname mdir st'"
proof -
  obtain r q where c: "consume (pl_total st) (of_nat (msize m)) = (r, q)" by fastforce
  note t = plan_inv_total [OF assms c]
  show ?thesis
  proof (cases r)
    case (Inl e)
    then show ?thesis using assms t c
      by (cases e) (auto simp: plan_member_def Let_def intro!: plan_inv_push)
  next
    case (Inr x)
    then show ?thesis using assms t c
      by (auto simp: plan_member_def Let_def intro!: plan_inv_push plan_path_inv)
  qed
qed

lemma plan_members_inv:
  "plan_inv u b mname mdir st \<Longrightarrow> plan_inv u b mname mdir (plan_members u b mname msize mdir ms st)"
proof (induction ms arbitrary: st)
  case (Cons m ms)
  then show ?case
    using plan_member_inv [OF Cons.prems, of msize m]
    by (cases "plan_member u b mname msize mdir m st") auto
qed simp

lemma plan_path_findings:
  "pl_findings (plan_path u b mname mdir m st) = [] \<Longrightarrow>
     pl_findings st = [] \<and> pl_total (plan_path u b mname mdir m st) = pl_total st \<and>
     map fst (pl_planned (plan_path u b mname mdir m st)) = map fst (pl_planned st) @ [m]"
  by (auto simp: plan_path_def split: prod.splits sum.splits)

text \<open>An iteration that leaves no finding charged the member and planned it.\<close>

lemma plan_member_clean:
  assumes "plan_member u b mname msize mdir m st = Inr st'" "pl_findings st' = []"
    "plan_inv u b mname mdir st"
  shows "pl_findings st = [] \<and> map fst (pl_planned st') = map fst (pl_planned st) @ [m] \<and>
    (of_nat (msize m) :: u64) \<le> max_member_bytes b \<and>
    unat (used (pl_total st')) = unat (used (pl_total st)) + unat (of_nat (msize m) :: u64)"
proof -
  obtain r q where c: "consume (pl_total st) (of_nat (msize m)) = (r, q)" by fastforce
  with assms(1,2) obtain x where r: "r = Inr x" and sz: "\<not> of_nat (msize m) > max_member_bytes b"
    and st': "st' = plan_path u b mname mdir m (st\<lparr>pl_total := q\<rparr>)"
    by (cases r; cases "projl r") (auto simp: plan_member_def Let_def split: if_splits)
  have "quota_inv (pl_total st)" using assms(3) by (simp add: plan_inv_def)
  from quota.charge_ok [OF this c [unfolded r]] plan_path_findings [OF assms(2) [unfolded st']] sz
  show ?thesis by (simp add: st')
qed

lemma plan_members_findings:
  "pl_findings (plan_members u b mname msize mdir ms st) = [] \<Longrightarrow> plan_inv u b mname mdir st \<Longrightarrow>
     pl_findings st = [] \<and>
     map fst (pl_planned (plan_members u b mname msize mdir ms st)) = map fst (pl_planned st) @ ms \<and>
     (\<forall>m \<in> set ms. (of_nat (msize m) :: u64) \<le> max_member_bytes b) \<and>
     unat (used (pl_total (plan_members u b mname msize mdir ms st))) =
       unat (used (pl_total st)) + (\<Sum>m \<leftarrow> ms. unat (of_nat (msize m) :: u64))"
proof (induction ms arbitrary: st)
  case (Cons m ms)
  note inv = plan_member_inv [OF Cons.prems(2), of msize m]
  show ?case
  proof (cases "plan_member u b mname msize mdir m st")
    case (Inl st')
    with Cons.prems inv show ?thesis by simp
  next
    case (Inr st')
    with Cons.prems inv have rest: "pl_findings (plan_members u b mname msize mdir ms st') = []"
      and inv': "plan_inv u b mname mdir st'" by simp_all
    note ih = Cons.IH [OF rest inv']
    then show ?thesis
      using plan_member_clean [OF Inr _ Cons.prems(2)] Inr by simp
  qed
qed simp

lemma plan_clean:
  assumes "pl_findings (plan_members u b mname msize mdir ms (plan_start b)) = []"
  shows "map fst (pl_planned (plan_members u b mname msize mdir ms (plan_start b))) = ms"
    "\<forall>p \<in> set (pl_planned (plan_members u b mname msize mdir ms (plan_start b))). planned_ok u b mname mdir p"
proof -
  show "map fst (pl_planned (plan_members u b mname msize mdir ms (plan_start b))) = ms"
    using plan_members_findings [OF assms plan_inv_start] by (simp add: plan_start_def)
  have "plan_inv u b mname mdir (plan_members u b mname msize mdir ms (plan_start b))"
    by (rule plan_members_inv) simp
  then show "\<forall>p \<in> set (pl_planned (plan_members u b mname msize mdir ms (plan_start b))). planned_ok u b mname mdir p"
    by (simp add: plan_inv_def)
qed

lemma keys_of_topology:
  assumes "keys_of key mdir ps m" "tree_ok m" "p \<in> set ps" "q \<in> set ps" "below (key p) (key q)"
  shows "mdir (fst p)"
  using assms unfolding keys_of_def tree_ok_def by metis

subsection \<open>Properties\<close>

lemma plan_members_tree:
  fixes b :: resource_budget
  assumes "\<forall>m \<in> set ms. msize m \<le> u64_max"
    and "pl_findings (plan_members u b mname msize mdir ms (plan_start b)) = []"
    and "ps = pl_planned (plan_members u b mname msize mdir ms (plan_start b))"
  shows "map fst ps = ms \<and> (\<forall>p \<in> set ps. planned_ok u b mname mdir p) \<and>
    distinct (map planned_path ps) \<and> distinct (map (planned_fold u) ps) \<and>
    (\<forall>p \<in> set ps. \<forall>q \<in> set ps.
       below (planned_path p) (planned_path q) \<or> below (planned_fold u p) (planned_fold u q) \<longrightarrow> mdir (fst p)) \<and>
    (\<forall>m \<in> set ms. msize m \<le> unat (max_member_bytes b)) \<and>
    (\<Sum>m \<leftarrow> ms. msize m) \<le> unat (max_total_bytes b)"
proof -
  let ?st = "plan_members u b mname msize mdir ms (plan_start b)"
  note f = plan_members_findings [OF assms(2) plan_inv_start]
  have inv: "plan_inv u b mname mdir ?st" by (rule plan_members_inv) simp
  have sz: "unat (of_nat (msize m) :: u64) = msize m" if "m \<in> set ms" for m
    using assms(1) that by (simp add: unat_of_nat_u64)
  then have sum: "(\<Sum>m \<leftarrow> ms. unat (of_nat (msize m) :: u64)) = (\<Sum>m \<leftarrow> ms. msize m)"
    by (simp cong: map_cong)
  have dest: "keys_of planned_path mdir ps (pt_dest (pl_tables ?st))" "tree_ok (pt_dest (pl_tables ?st))"
    and fold: "keys_of (planned_fold u) mdir ps (pt_fold (pl_tables ?st))" "tree_ok (pt_fold (pl_tables ?st))"
    using inv by (simp_all add: plan_inv_def tables_ok_def assms(3))
  have top: "mdir (fst p)" if "p \<in> set ps" "q \<in> set ps"
      "below (planned_path p) (planned_path q) \<or> below (planned_fold u p) (planned_fold u q)" for p q
    using that keys_of_topology [OF dest] keys_of_topology [OF fold] by blast
  have "quota_inv (pl_total ?st)" "limit (pl_total ?st) = max_total_bytes b"
    using inv unfolding plan_inv_def by blast+
  then have "used (pl_total ?st) \<le> max_total_bytes b" unfolding quota_inv_def by metis
  then have "unat (used (pl_total ?st)) \<le> unat (max_total_bytes b)" by (simp add: word_le_nat_alt)
  moreover have "msize m \<le> unat (max_member_bytes b)" if "m \<in> set ms" for m
    using f that sz [OF that] by (auto simp: word_le_nat_alt)
  ultimately show ?thesis
    using f inv dest(1) fold(1) top sum
    by (auto simp: plan_start_def quota_new_def keys_of_def plan_inv_def assms(3))
qed

text \<open>C7. A plan without findings is a tree. Every member is planned, in order, with safe
  components that spell its prepared name; no two members have the same destination path or the
  same case-folded path; a member above another, literally or after case folding, is a directory;
  no member passes the member cap and the declared sizes sum up to at most the total cap.\<close>

theorem plan_without_findings_is_tree:
  fixes b :: resource_budget
  assumes "\<forall>m \<in> set ms. msize m \<le> u64_max"
    and "pl_findings (plan_members u b mname msize mdir ms (plan_start b)) = []"
    and "ps = pl_planned (plan_members u b mname msize mdir ms (plan_start b))"
  shows "map fst ps = ms \<and> (\<forall>p \<in> set ps. planned_ok u b mname mdir p) \<and>
    distinct (map planned_path ps) \<and> distinct (map (planned_fold u) ps) \<and>
    (\<forall>p \<in> set ps. \<forall>q \<in> set ps.
       below (planned_path p) (planned_path q) \<or> below (planned_fold u p) (planned_fold u q) \<longrightarrow> mdir (fst p)) \<and>
    (\<forall>m \<in> set ms. msize m \<le> unat (max_member_bytes b)) \<and>
    (\<Sum>m \<leftarrow> ms. msize m) \<le> unat (max_total_bytes b)"
  using assms by (rule plan_members_tree)

definition example_budget :: resource_budget where
  "example_budget = \<lparr>max_archive_bytes = 1000000, max_derived_archive_bytes = 1000000, max_files = 10,
     max_member_bytes = 100, max_total_bytes = 200, max_ratio = Some 100, max_path_depth = 8,
     max_metadata_bytes = 100000\<rparr>"

definition example_names :: "(rust_str \<times> nat \<times> bool) list" where
  "example_names = [(str_of ''./d/'', 0, True), (str_of ''./d/a'', 3, False)]"

lemma example_jailed:
  "jail_name_for_profile ascii_unicode [100] 8 PortableUtf8V1 = Inr \<lparr>jn_components = [[100]], jn_actions = []\<rparr>"
  "jail_name_for_profile ascii_unicode [100, 47, 97] 8 PortableUtf8V1 =
     Inr \<lparr>jn_components = [[100], [97]], jn_actions = []\<rparr>"
  by (simp_all add: jail_eval)

lemma example_ancestors: "ancestors [100] = []" "ancestors [100, 47, 97] = [[100]]"
  by (simp_all add: ancestors_def upt_conv_Cons)

lemma example_admitted:
  "admit_tar_path ascii_unicode (str_of ''./d/'') True 8 tables_new =
     (Inr ([[100]], [StripDirectoryTrailingSlash]), record_path [100] [100] True tables_new)"
  "admit_tar_path ascii_unicode (str_of ''./d/a'') False 8 (record_path [100] [100] True tables_new) =
     (Inr ([[100], [97]], []),
      record_path [100, 47, 97] [100, 47, 97] False (record_path [100] [100] True tables_new))"
  by (simp_all add: admit_tar_path_def prepare_tar_member_name_def str_of_def Let_def example_jailed
      portable_name_violation_def is_control_def as_bytes_def encode_char_def
      utf16_units_def profile_case_fold_def portable_unicode_case_fold_def bt_get_def tables_new_def
      path_conflict_def example_ancestors bt_range_next_def record_path_def starts_with_def)

lemma example_plan:
  "pl_findings (plan_members ascii_unicode example_budget fst (\<lambda>m. fst (snd m)) (\<lambda>m. snd (snd m))
     example_names (plan_start example_budget)) = []"
  by (simp add: example_names_def plan_member_def plan_path_def plan_start_def example_budget_def
      example_admitted Let_def ratio_exceeds_nat consume_cases quota_new_def u64_max_def)

theorem plan_without_findings_is_tree_witness:
  "\<exists>ps. map fst ps = example_names \<and> distinct (map planned_path ps)"
proof -
  have "\<forall>m \<in> set example_names. fst (snd m) \<le> u64_max" by (simp add: example_names_def u64_max_def)
  from plan_without_findings_is_tree [OF this example_plan refl] show ?thesis by blast
qed

end
