(* ===== verification/Covering.thy ===== *)
theory Covering
  imports Payload
begin

text \<open>
  The independent covering audit of a portable-ustar interpretation, \<open>audit_tar_covering\<close> of
  \<open>crates/sealr/src/covering.rs\<close>, with the range helpers the other audits share. The digest of
  the audited snapshot is an argument beside the snapshot. The audit is proved equivalent to an
  abstract covering specification, and the reader's result to satisfy it.
\<close>

definition inconsistent :: finding where
  "inconsistent = finding_error CoveringInconsistent"

definition checked_range_end :: "byte_range \<Rightarrow> finding + nat" where
  "checked_range_end r = ok_or inconsistent (checked_add_u64 (offset r) (rlen r))"

text \<open>
  The scan of \<open>audit_zero_range\<close>. Its loop ends when the offset equals the end; the offset
  starts at or below the end and never passes it.
\<close>

function audit_zero_scan :: "snapshot \<Rightarrow> nat \<Rightarrow> nat \<Rightarrow> finding + unit" where
  "audit_zero_scan sn offs e =
     (if e \<le> offs then Inr ()
      else
        let len = min (e - offs) 8192
        in and_then (read_exact_at sn offs len) (\<lambda>buffer.
             if \<not> all_zero buffer then Inl inconsistent
             else audit_zero_scan sn (offs + len) e))"
  by pat_completeness auto
termination
  by (relation "measure (\<lambda>(sn, offs, e). e - offs)") auto

declare audit_zero_scan.simps [simp del]

definition audit_zero_range :: "snapshot \<Rightarrow> byte_range \<Rightarrow> finding + unit" where
  "audit_zero_range sn r =
     and_then (checked_range_end r) (\<lambda>e.
     if e > snapshot_len sn then Inl inconsistent else audit_zero_scan sn (offset r) e)"

text \<open>A derived snapshot is the one the wrapper evidence names.\<close>

definition derived_identity :: "snapshot \<Rightarrow> source_digest \<Rightarrow> nat \<Rightarrow> string \<Rightarrow> finding + unit" where
  "derived_identity sn digest len sha256 =
     (if len \<noteq> snapshot_len sn \<or> digest_sha256 digest \<noteq> Some sha256 then Inl inconsistent else Inr ())"

definition audit_tar_identity :: "snapshot \<Rightarrow> source_digest \<Rightarrow> archive_ir \<Rightarrow> finding + unit" where
  "audit_tar_identity sn digest ir =
     (case ir_format ir of
        TarUstar \<Rightarrow> if ir_source_digest ir \<noteq> digest then Inl inconsistent else Inr ()
      | TarGzipUstar \<Rightarrow>
          and_then (ok_or inconsistent (ir_gzip_evidence ir)) (\<lambda>gzip.
          derived_identity sn digest (gz_derived_output_len gzip) (gz_derived_output_sha256 gzip))
      | TarZstdUstar \<Rightarrow>
          and_then (ok_or inconsistent (ir_zstd_evidence ir)) (\<lambda>zstd.
          derived_identity sn digest (zs_derived_output_len zstd) (zs_derived_output_sha256 zstd))
      | TarXzUstar \<Rightarrow>
          and_then (ok_or inconsistent (ir_xz_evidence ir)) (\<lambda>xz.
          derived_identity sn digest (xz_derived_output_len xz) (xz_derived_output_sha256 xz))
      | TarBzip2Ustar \<Rightarrow>
          and_then (ok_or inconsistent (ir_bzip2_evidence ir)) (\<lambda>bzip2.
          derived_identity sn digest (bz_derived_output_len bzip2) (bz_derived_output_sha256 bzip2))
      | _ \<Rightarrow> Inl inconsistent)"

text \<open>One member: its record must start where the last one ended; returns where it ends.\<close>

definition audit_tar_member ::
  "(bytes \<Rightarrow> bytes) \<Rightarrow> snapshot \<Rightarrow> archive_format \<Rightarrow> nat \<Rightarrow> ir_member \<Rightarrow> nat \<Rightarrow> finding + nat"
where
  "audit_tar_member sha sn fmt member_end m expected_header =
     (let fail = on_member (im_decoded_name m) inconsistent
      in if member_format m \<noteq> fmt then Inl fail
         else
         and_then (ok_or fail (member_tar_evidence m)) (\<lambda>evidence.
         and_then (checked_range_end (te_header evidence)) (\<lambda>header_end.
         and_then (checked_range_end (te_payload evidence)) (\<lambda>payload_end.
         and_then (checked_range_end (te_padding evidence)) (\<lambda>padding_end.
         let expected_padding = (512 - rlen (te_payload evidence) mod 512) mod 512
         in if offset (te_header evidence) \<noteq> expected_header \<or> rlen (te_header evidence) \<noteq> 512 \<or>
               offset (te_payload evidence) \<noteq> header_end \<or>
               rlen (te_payload evidence) \<noteq> im_declared_uncomp_size m \<or>
               offset (te_padding evidence) \<noteq> payload_end \<or>
               rlen (te_padding evidence) \<noteq> expected_padding \<or>
               padding_end mod 512 \<noteq> 0 \<or> padding_end > member_end
            then Inl fail
            else
            and_then (map_err (\<lambda>_. fail) (read_exact_at sn (offset (te_header evidence)) 512)) (\<lambda>header.
            if hex_sha256 sha header \<noteq> te_header_sha256 evidence then Inl fail
            else
            and_then (map_err (on_member (im_decoded_name m)) (audit_zero_range sn (te_padding evidence))) (\<lambda>_.
            Inr padding_end)))))))"

fun audit_tar_members ::
  "(bytes \<Rightarrow> bytes) \<Rightarrow> snapshot \<Rightarrow> archive_format \<Rightarrow> nat \<Rightarrow> ir_member list \<Rightarrow> nat \<Rightarrow> finding + nat"
where
  "audit_tar_members sha sn fmt member_end [] expected_header = Inr expected_header"
| "audit_tar_members sha sn fmt member_end (m # ms) expected_header =
     and_then (audit_tar_member sha sn fmt member_end m expected_header) (\<lambda>next_header.
     audit_tar_members sha sn fmt member_end ms next_header)"

definition audit_tar_covering ::
  "(bytes \<Rightarrow> bytes) \<Rightarrow> snapshot \<Rightarrow> source_digest \<Rightarrow> archive_ir \<Rightarrow> finding + unit"
where
  "audit_tar_covering sha sn digest ir =
     (if ir_format ir \<notin> {TarUstar, TarGzipUstar, TarZstdUstar, TarXzUstar, TarBzip2Ustar}
      then Inl inconsistent
      else
      and_then (audit_tar_identity sn digest ir) (\<lambda>_.
      and_then (ok_or inconsistent (ir_tar_covering ir)) (\<lambda>c.
      and_then (checked_range_end (tc_member_records c)) (\<lambda>member_end.
      and_then (checked_range_end (tc_terminator c)) (\<lambda>terminator_end.
      and_then (checked_range_end (tc_trailing_zeros c)) (\<lambda>trailing_end.
      if offset (tc_member_records c) \<noteq> 0 \<or> offset (tc_terminator c) \<noteq> member_end \<or>
         rlen (tc_terminator c) \<noteq> 1024 \<or> offset (tc_trailing_zeros c) \<noteq> terminator_end \<or>
         trailing_end \<noteq> snapshot_len sn
      then Inl inconsistent
      else
      and_then (audit_tar_members sha sn (ir_format ir) member_end (ir_members ir) 0) (\<lambda>expected_header.
      if expected_header \<noteq> member_end then Inl inconsistent
      else
      and_then (map_err (\<lambda>_. inconsistent) (read_exact_at sn (offset (tc_terminator c)) 1024)) (\<lambda>terminator.
      if \<not> all_zero terminator then Inl inconsistent
      else audit_zero_range sn (tc_trailing_zeros c)))))))))"

subsection \<open>Ranges\<close>

lemma checked_range_end_ok [simp]:
  "checked_range_end r = Inr e \<longleftrightarrow> e = offset r + rlen r \<and> offset r + rlen r \<le> u64_max"
  by (auto simp: checked_range_end_def)

lemma checked_range_end_eq [simp]:
  "offset r + rlen r \<le> u64_max \<Longrightarrow> checked_range_end r = Inr (offset r + rlen r)"
  by simp

lemma audit_zero_scan_ok:
  "\<lbrakk>audit_zero_scan sn offs e = Inr (); offs \<le> e; e \<le> snapshot_len sn\<rbrakk> \<Longrightarrow>
     all_zero (slice_of offs e (content sn))"
proof (induction sn offs e rule: audit_zero_scan.induct)
  case (1 sn offs e)
  show ?case
  proof (cases "e \<le> offs")
    case True
    with "1.prems" show ?thesis by (simp add: slice_of_def)
  next
    case False
    let ?c = "min (e - offs) 8192"
    from "1.prems"(1) False obtain buf where
      r: "read_exact_at sn offs ?c = Inr buf" and z: "all_zero buf" and
      rest: "audit_zero_scan sn (offs + ?c) e = Inr ()"
      by (subst (asm) audit_zero_scan.simps) (auto simp: Let_def and_then_eq_Inr split: if_splits)
    have "all_zero (slice_of (offs + ?c) e (content sn))"
      using "1.IH" [OF False refl r _ rest] z False "1.prems"(3) by simp
    moreover have "all_zero (slice_of offs (offs + ?c) (content sn))"
      using z read_exact_at_ok [OF r] by simp
    ultimately show ?thesis
      using all_zero_slice_append [of offs "offs + ?c" e "content sn"] False by simp
  qed
qed

lemma audit_zero_scan_memory:
  "\<lbrakk>reads_ok sn; snapshot_ok sn; e \<le> snapshot_len sn; all_zero (slice_of offs e (content sn))\<rbrakk> \<Longrightarrow>
     audit_zero_scan sn offs e = Inr ()"
proof (induction sn offs e rule: audit_zero_scan.induct)
  case (1 sn offs e)
  show ?case
  proof (cases "e \<le> offs")
    case True
    then show ?thesis by (simp add: audit_zero_scan.simps)
  next
    case False
    let ?c = "min (e - offs) 8192"
    have le: "offs + ?c \<le> e" using False by simp
    then have r: "read_exact_at sn offs ?c = Inr (slice_of offs (offs + ?c) (content sn))"
      using "1.prems" by (simp add: read_exact_at_memory in_bounds_def snapshot_ok_def)
    have z: "all_zero (slice_of offs (offs + ?c) (content sn))" "all_zero (slice_of (offs + ?c) e (content sn))"
      using "1.prems"(4) le all_zero_slice_append [of offs "offs + ?c" e "content sn"] by simp_all
    have "audit_zero_scan sn (offs + ?c) e = Inr ()"
      using "1.IH" [OF False refl r] "1.prems" z by simp
    with False r z show ?thesis by (subst audit_zero_scan.simps) (simp add: Let_def)
  qed
qed

text \<open>The audited range lies in the snapshot and is zero; in memory the audit decides that.\<close>

definition zero_at :: "snapshot \<Rightarrow> byte_range \<Rightarrow> bool" where
  "zero_at sn r \<longleftrightarrow> offset r + rlen r \<le> snapshot_len sn \<and> all_zero (range_bytes sn r)"

lemma audit_zero_range_ok: "audit_zero_range sn r = Inr () \<Longrightarrow> zero_at sn r"
  by (auto simp: audit_zero_range_def zero_at_def range_bytes_def and_then_eq_Inr audit_zero_scan_ok
      split: if_splits)

lemma audit_zero_range_memory:
  "\<lbrakk>reads_ok sn; snapshot_ok sn; zero_at sn r\<rbrakk> \<Longrightarrow> audit_zero_range sn r = Inr ()"
proof -
  assume m: "reads_ok sn" "snapshot_ok sn" and z: "zero_at sn r"
  then have "offset r + rlen r \<le> u64_max" by (simp add: zero_at_def snapshot_ok_def)
  with m z show ?thesis
    by (simp add: audit_zero_range_def zero_at_def range_bytes_def audit_zero_scan_memory)
qed

subsection \<open>The covering specification\<close>

definition evidence_ranges :: "tar_member_evidence \<Rightarrow> byte_range list" where
  "evidence_ranges e = [te_header e, te_payload e, te_padding e]"

text \<open>The evidence of a member: a header with the recorded digest, its payload, zero padding.\<close>

definition evidence_at :: "(bytes \<Rightarrow> bytes) \<Rightarrow> snapshot \<Rightarrow> nat \<Rightarrow> tar_member_evidence \<Rightarrow> bool" where
  "evidence_at sha sn sz e \<longleftrightarrow>
     rlen (te_header e) = 512 \<and> rlen (te_payload e) = sz \<and> rlen (te_padding e) = pad_len sz \<and>
     hex_sha256 sha (range_bytes sn (te_header e)) = te_header_sha256 e \<and> zero_at sn (te_padding e)"

text \<open>The ranges of the members, the terminator and the trailing zeros partition the snapshot.\<close>

definition tar_covered ::
  "(bytes \<Rightarrow> bytes) \<Rightarrow> snapshot \<Rightarrow> archive_format \<Rightarrow> ir_member list \<Rightarrow> tar_archive_covering \<Rightarrow> bool"
where
  "tar_covered sha sn fmt ms c \<longleftrightarrow>
     (\<exists>es. map member_tar_evidence ms = map Some es \<and>
        chain 0 (concat (map evidence_ranges es) @ [tc_terminator c, tc_trailing_zeros c]) (snapshot_len sn) \<and>
        list_all2 (\<lambda>m e. evidence_at sha sn (im_declared_uncomp_size m) e \<and> member_format m = fmt) ms es) \<and>
     tc_member_records c = \<lparr>offset = 0, rlen = offset (tc_terminator c)\<rparr> \<and>
     rlen (tc_terminator c) = 1024 \<and> zero_at sn (tc_terminator c) \<and> zero_at sn (tc_trailing_zeros c)"

lemma audit_tar_member_ok:
  assumes "audit_tar_member sha sn fmt me m x = Inr y"
  shows "\<exists>e. member_tar_evidence m = Some e \<and> member_format m = fmt \<and> chain x (evidence_ranges e) y \<and>
    evidence_at sha sn (im_declared_uncomp_size m) e \<and> y \<le> me"
proof -
  from assms obtain e h where e: "member_tar_evidence m = Some e" "member_format m = fmt"
    and r: "offset (te_header e) = x" "rlen (te_header e) = 512" "offset (te_payload e) = x + 512"
      "rlen (te_payload e) = im_declared_uncomp_size m"
      "offset (te_padding e) = x + 512 + im_declared_uncomp_size m"
      "rlen (te_padding e) = pad_len (im_declared_uncomp_size m)"
    and y: "y = offset (te_padding e) + rlen (te_padding e)" "y \<le> me"
    and h: "read_exact_at sn x 512 = Inr h" "hex_sha256 sha h = te_header_sha256 e"
    and z: "audit_zero_range sn (te_padding e) = Inr ()"
    by (auto simp: audit_tar_member_def Let_def and_then_eq_Inr pad_len_def split: if_splits)
  have "h = range_bytes sn (te_header e)"
    using read_exact_at_ok [OF h(1)] r by (simp add: range_bytes_def)
  then have "evidence_at sha sn (im_declared_uncomp_size m) e"
    using h(2) r z by (simp add: evidence_at_def audit_zero_range_ok)
  with e r y show ?thesis by (auto simp: evidence_ranges_def)
qed

lemma audit_tar_member_memory:
  assumes mem: "reads_ok sn" "snapshot_ok sn"
    and e: "member_tar_evidence m = Some e" "member_format m = fmt"
    and ch: "chain x (evidence_ranges e) y" and at: "evidence_at sha sn (im_declared_uncomp_size m) e"
    and y: "y \<le> me" and x: "x mod 512 = 0"
  shows "audit_tar_member sha sn fmt me m x = Inr y \<and> y mod 512 = 0"
proof -
  let ?sz = "im_declared_uncomp_size m"
  from ch at have r: "offset (te_header e) = x" "rlen (te_header e) = 512" "offset (te_payload e) = x + 512"
      "rlen (te_payload e) = ?sz" "offset (te_padding e) = x + 512 + ?sz" "rlen (te_padding e) = pad_len ?sz"
    and y': "y = x + 512 + ?sz + pad_len ?sz"
    by (auto simp: evidence_ranges_def evidence_at_def)
  have len: "y \<le> snapshot_len sn" using at r y' by (simp add: evidence_at_def zero_at_def)
  then have u: "y \<le> u64_max" using mem(2) by (simp add: snapshot_ok_def)
  have "512 dvd ?sz + pad_len ?sz" by (rule pad_len_dvd)
  then have "512 dvd y" using x by (simp add: y' dvd_eq_mod_eq_0 [symmetric] add.assoc)
  then have dvd: "y mod 512 = 0" by simp
  have "read_exact_at sn x 512 = Inr (range_bytes sn (te_header e))"
    using mem(1) len u r y' by (simp add: read_exact_at_memory in_bounds_def range_bytes_def)
  moreover have "audit_zero_range sn (te_padding e) = Inr ()"
    using at by (simp add: evidence_at_def audit_zero_range_memory [OF mem])
  ultimately show ?thesis
    using e r y y' u dvd at by (simp add: audit_tar_member_def Let_def pad_len_def [symmetric] evidence_at_def)
qed

lemma audit_tar_members_ok:
  "audit_tar_members sha sn fmt me ms x = Inr y \<Longrightarrow>
     \<exists>es. map member_tar_evidence ms = map Some es \<and> chain x (concat (map evidence_ranges es)) y \<and>
       list_all2 (\<lambda>m e. evidence_at sha sn (im_declared_uncomp_size m) e \<and> member_format m = fmt) ms es"
proof (induction ms arbitrary: x)
  case (Cons m ms)
  then obtain z where m: "audit_tar_member sha sn fmt me m x = Inr z"
    and ms: "audit_tar_members sha sn fmt me ms z = Inr y" by (auto simp: and_then_eq_Inr)
  from audit_tar_member_ok [OF m] obtain e where
    "member_tar_evidence m = Some e" "member_format m = fmt" "chain x (evidence_ranges e) z"
    "evidence_at sha sn (im_declared_uncomp_size m) e" by blast
  moreover from Cons.IH [OF ms] obtain es where
    "map member_tar_evidence ms = map Some es" "chain z (concat (map evidence_ranges es)) y"
    "list_all2 (\<lambda>m e. evidence_at sha sn (im_declared_uncomp_size m) e \<and> member_format m = fmt) ms es"
    by blast
  ultimately show ?case by (intro exI [of _ "e # es"]) auto
qed simp

lemma audit_tar_members_memory:
  assumes mem: "reads_ok sn" "snapshot_ok sn"
  shows "\<lbrakk>map member_tar_evidence ms = map Some es; chain x (concat (map evidence_ranges es)) y;
      list_all2 (\<lambda>m e. evidence_at sha sn (im_declared_uncomp_size m) e \<and> member_format m = fmt) ms es;
      y \<le> me; x mod 512 = 0\<rbrakk> \<Longrightarrow> audit_tar_members sha sn fmt me ms x = Inr y"
proof (induction ms arbitrary: x es)
  case (Cons m ms)
  then obtain e es' where es: "es = e # es'" by (cases es) auto
  with Cons.prems obtain z where z: "chain x (evidence_ranges e) z"
    "chain z (concat (map evidence_ranges es')) y" by auto
  then have "z \<le> me" using Cons.prems(4) chain_sum by fastforce
  then have "audit_tar_member sha sn fmt me m x = Inr z \<and> z mod 512 = 0"
    using Cons.prems es z by (intro audit_tar_member_memory [OF mem]) auto
  moreover have "audit_tar_members sha sn fmt me ms z = Inr y"
    using Cons.prems es z calculation by (intro Cons.IH [of es']) auto
  ultimately show ?case by simp
qed simp

text \<open>The part of the audit behind the identity check, against the specification.\<close>

lemma audit_tar_covered:
  assumes "audit_tar_covering sha sn digest ir = Inr ()"
  shows "\<exists>c. ir_tar_covering ir = Some c \<and> tar_covered sha sn (ir_format ir) (ir_members ir) c"
proof -
  from assms obtain c t where c: "ir_tar_covering ir = Some c"
    and r: "offset (tc_member_records c) = 0" "offset (tc_terminator c) = rlen (tc_member_records c)"
      "rlen (tc_terminator c) = 1024" "offset (tc_trailing_zeros c) = offset (tc_terminator c) + 1024"
      "offset (tc_trailing_zeros c) + rlen (tc_trailing_zeros c) = snapshot_len sn"
    and m: "audit_tar_members sha sn (ir_format ir) (rlen (tc_member_records c)) (ir_members ir) 0 =
      Inr (rlen (tc_member_records c))"
    and t: "read_exact_at sn (offset (tc_terminator c)) 1024 = Inr t" "all_zero t"
    and z: "audit_zero_range sn (tc_trailing_zeros c) = Inr ()"
    by (auto simp: audit_tar_covering_def and_then_eq_Inr split: if_splits)
  have "zero_at sn (tc_terminator c)"
    using t read_exact_at_ok [OF t(1)] r by (simp add: zero_at_def range_bytes_def in_bounds_def)
  moreover have "tc_member_records c = \<lparr>offset = 0, rlen = offset (tc_terminator c)\<rparr>"
    using r by (cases "tc_member_records c") simp
  ultimately show ?thesis
    using c r audit_tar_members_ok [OF m] audit_zero_range_ok [OF z]
    by (auto simp: tar_covered_def)
qed

lemma tar_covered_audit:
  assumes mem: "reads_ok sn" "snapshot_ok sn"
    and f: "ir_format ir \<in> {TarUstar, TarGzipUstar, TarZstdUstar, TarXzUstar, TarBzip2Ustar}"
    and i: "audit_tar_identity sn digest ir = Inr ()"
    and c: "ir_tar_covering ir = Some c" "tar_covered sha sn (ir_format ir) (ir_members ir) c"
  shows "audit_tar_covering sha sn digest ir = Inr ()"
proof -
  from c(2) obtain es where es: "map member_tar_evidence (ir_members ir) = map Some es"
      "list_all2 (\<lambda>m e. evidence_at sha sn (im_declared_uncomp_size m) e \<and> member_format m = ir_format ir)
        (ir_members ir) es"
    and ch: "chain 0 (concat (map evidence_ranges es) @ [tc_terminator c, tc_trailing_zeros c]) (snapshot_len sn)"
    and r: "tc_member_records c = \<lparr>offset = 0, rlen = offset (tc_terminator c)\<rparr>"
      "rlen (tc_terminator c) = 1024"
    and z: "zero_at sn (tc_terminator c)" "zero_at sn (tc_trailing_zeros c)"
    unfolding tar_covered_def by blast
  from ch r have ch': "chain 0 (concat (map evidence_ranges es)) (offset (tc_terminator c))"
    and len: "offset (tc_trailing_zeros c) = offset (tc_terminator c) + 1024"
      "offset (tc_terminator c) + 1024 + rlen (tc_trailing_zeros c) = snapshot_len sn" by auto
  have u: "snapshot_len sn \<le> u64_max" using mem(2) by (simp add: snapshot_ok_def)
  have m: "audit_tar_members sha sn (ir_format ir) (offset (tc_terminator c)) (ir_members ir) 0 =
      Inr (offset (tc_terminator c))"
    by (rule audit_tar_members_memory [OF mem es(1) ch' es(2)]) simp_all
  have t: "read_exact_at sn (offset (tc_terminator c)) 1024 = Inr (range_bytes sn (tc_terminator c))"
    using mem(1) len u r by (simp add: read_exact_at_memory in_bounds_def range_bytes_def)
  have u': "offset (tc_terminator c) + 1024 \<le> u64_max"
    "offset (tc_trailing_zeros c) + rlen (tc_trailing_zeros c) \<le> u64_max" "offset (tc_terminator c) \<le> u64_max"
    using len u by linarith+
  show ?thesis
    unfolding audit_tar_covering_def
    using f i c(1) r len m t z u' by (simp add: audit_zero_range_memory [OF mem] zero_at_def [of sn "tc_terminator c"])
qed

text \<open>The reader's members satisfy the specification, whatever components they are planned with.\<close>

definition tar_covering_of :: "tar_archive \<Rightarrow> tar_archive_covering" where
  "tar_covering_of a = \<lparr>tc_member_records = ta_member_records a, tc_terminator = ta_terminator a,
     tc_trailing_zeros = ta_trailing_zeros a\<rparr>"

definition wrapped_format :: "tar_wrapper_class \<Rightarrow> archive_format" where
  "wrapped_format wrapper = (case wrapper of Raw \<Rightarrow> TarUstar | Gzip \<Rightarrow> TarGzipUstar | Zstd \<Rightarrow> TarZstdUstar
     | Xz \<Rightarrow> TarXzUstar | Bzip2 \<Rightarrow> TarBzip2Ustar)"

definition tar_evidence_of :: "tar_member \<Rightarrow> tar_member_evidence" where
  "tar_evidence_of m = \<lparr>te_header = tm_header m, te_payload = tm_payload m, te_padding = tm_padding m,
     te_mode = tm_mode m, te_mtime = tm_mtime m, te_header_checksum = tm_header_checksum m,
     te_header_sha256 = tm_header_sha256 m\<rparr>"

lemma from_tar_planned_sel [simp]:
  "member_tar_evidence (from_tar_planned_for_format w m parts acts) = Some (tar_evidence_of m)"
  "member_format (from_tar_planned_for_format w m parts acts) = wrapped_format w"
  "im_declared_uncomp_size (from_tar_planned_for_format w m parts acts) = tm_size m"
  by (cases w; simp add: from_tar_planned_for_format_def member_tar_evidence_def member_format_def
      wrapped_format_def tar_evidence_of_def Let_def)+

lemma ustar_member_evidence:
  assumes "ustar_member_at sha sn m" "offset (tm_padding m) + rlen (tm_padding m) \<le> snapshot_len sn"
  shows "evidence_at sha sn (tm_size m) (tar_evidence_of m)"
proof -
  from assms(1) have "parse_header sha (range_bytes sn (tm_header m)) (offset (tm_header m)) =
      Inr (m\<lparr>tm_payload := \<lparr>offset = 0, rlen = 0\<rparr>, tm_padding := \<lparr>offset = 0, rlen = 0\<rparr>\<rparr>)"
    by (simp add: ustar_member_at_def)
  from parse_header_ok(8) [OF this] assms show ?thesis
    by (simp add: evidence_at_def tar_evidence_of_def zero_at_def ustar_member_at_def)
qed

lemma ustar_spec_covered:
  assumes spec: "ustar_spec sha sn mf mm a" and ps: "map fst ps = ta_members a"
  shows "tar_covered sha sn (wrapped_format w)
    (map (\<lambda>(m, parts, acts). from_tar_planned_for_format w m parts acts) ps) (tar_covering_of a)"
proof -
  let ?f = "\<lambda>(m, parts, acts). from_tar_planned_for_format w m parts acts"
  let ?es = "map (\<lambda>p. tar_evidence_of (fst p)) ps"
  from spec have ch: "chain 0 (concat (map ustar_ranges (ta_members a)) @ [ta_terminator a, ta_trailing_zeros a])
      (snapshot_len sn)" by (simp add: ustar_spec_def)
  have ranges: "concat (map evidence_ranges ?es) = concat (map ustar_ranges (ta_members a))"
    unfolding ps [symmetric]
    by (simp add: evidence_ranges_def ustar_ranges_def tar_evidence_of_def comp_def)
  have bound: "offset r + rlen r \<le> snapshot_len sn"
    if "r \<in> set (concat (map ustar_ranges (ta_members a)) @ [ta_terminator a, ta_trailing_zeros a])" for r
    using chain_bounds [OF ch that] by simp
  have ev: "evidence_at sha sn (tm_size m) (tar_evidence_of m)" if "m \<in> set (ta_members a)" for m
  proof (rule ustar_member_evidence)
    show "ustar_member_at sha sn m" using spec that by (simp add: ustar_spec_def)
    show "offset (tm_padding m) + rlen (tm_padding m) \<le> snapshot_len sn"
      using that by (intro bound) (auto simp: ustar_ranges_def)
  qed
  have "map member_tar_evidence (map ?f ps) = map Some ?es" by (simp add: case_prod_beta)
  moreover have "list_all2 (\<lambda>m e. evidence_at sha sn (im_declared_uncomp_size m) e \<and>
      member_format m = wrapped_format w) (map ?f ps) ?es"
    using ev unfolding ps [symmetric] by (force simp: list_all2_map1 list_all2_map2 list_all2_same)
  moreover have "chain 0 (concat (map evidence_ranges ?es) @ [ta_terminator a, ta_trailing_zeros a])
      (snapshot_len sn)" using ch by (simp only: ranges)
  ultimately have "\<exists>es. map member_tar_evidence (map ?f ps) = map Some es \<and>
      chain 0 (concat (map evidence_ranges es) @ [ta_terminator a, ta_trailing_zeros a]) (snapshot_len sn) \<and>
      list_all2 (\<lambda>m e. evidence_at sha sn (im_declared_uncomp_size m) e \<and>
        member_format m = wrapped_format w) (map ?f ps) es" by blast
  moreover have "zero_at sn (ta_terminator a)" "zero_at sn (ta_trailing_zeros a)"
    using spec bound by (auto simp: zero_at_def ustar_spec_def)
  ultimately show ?thesis
    using spec unfolding tar_covered_def by (simp add: tar_covering_of_def ustar_spec_def)
qed

subsection \<open>Properties\<close>

text \<open>C9. The ustar audit decides the covering specification. On a snapshot whose reads succeed it accepts an
  interpretation exactly when the format is a ustar one, the snapshot is the one the
  interpretation names, and the recorded member ranges, terminator and trailing zeros partition
  the snapshot without gap or overlap, with the recorded header digests and with zero bytes in
  the padding, the terminator and the tail.\<close>

theorem tar_audit_exact:
  assumes "reads_ok sn" "snapshot_ok sn"
  shows "audit_tar_covering sha sn digest ir = Inr () \<longleftrightarrow>
    ir_format ir \<in> {TarUstar, TarGzipUstar, TarZstdUstar, TarXzUstar, TarBzip2Ustar} \<and>
    audit_tar_identity sn digest ir = Inr () \<and>
    (\<exists>c. ir_tar_covering ir = Some c \<and> tar_covered sha sn (ir_format ir) (ir_members ir) c)"
proof
  assume a: "audit_tar_covering sha sn digest ir = Inr ()"
  then have "ir_format ir \<in> {TarUstar, TarGzipUstar, TarZstdUstar, TarXzUstar, TarBzip2Ustar}"
    "audit_tar_identity sn digest ir = Inr ()"
    by (auto simp: audit_tar_covering_def and_then_eq_Inr split: if_splits)
  with audit_tar_covered [OF a]
  show "ir_format ir \<in> {TarUstar, TarGzipUstar, TarZstdUstar, TarXzUstar, TarBzip2Ustar} \<and>
    audit_tar_identity sn digest ir = Inr () \<and>
    (\<exists>c. ir_tar_covering ir = Some c \<and> tar_covered sha sn (ir_format ir) (ir_members ir) c)" by blast
qed (use tar_covered_audit [OF assms] in blast)

definition example_ir :: archive_ir where
  "example_ir = \<lparr>ir_source_digest = Unavailable,
     ir_evidence = ArcTar (tar_covering_of (archive_of id example_entries)),
     ir_members = map (\<lambda>(m, parts, acts). from_tar_planned_for_format Raw m parts acts)
       (map (\<lambda>m. (m, [], [])) (ta_members (archive_of id example_entries)))\<rparr>"

theorem tar_audit_exact_witness:
  "audit_tar_covering id example_snapshot Unavailable example_ir = Inr ()"
proof -
  let ?a = "archive_of id example_entries"
  have "tar_covered id example_snapshot (wrapped_format Raw) (ir_members example_ir) (tar_covering_of ?a)"
    unfolding example_ir_def archive_ir.simps
    by (rule ustar_spec_covered [OF ustar_parse_spec [OF example_parse]]) (simp add: comp_def)
  moreover have "ir_format example_ir = TarUstar" "ir_tar_covering example_ir = Some (tar_covering_of ?a)"
    "audit_tar_identity example_snapshot Unavailable example_ir = Inr ()"
    by (simp_all add: example_ir_def ir_format_def ir_tar_covering_def audit_tar_identity_def)
  ultimately show ?thesis
    using tar_audit_exact [OF _ example_ok, of id Unavailable example_ir] by (simp add: wrapped_format_def)
qed

end
