(* ===== verification/AuditFields.thy ===== *)
theory AuditFields
  imports Covering
begin

text \<open>
  The header decoders of the audits, \<open>crates/sealr/src/covering.rs\<close>. They are written
  independently of the readers' decoders (\<open>parse_pax_octal\<close> beside \<open>parse_octal\<close>, and so on);
  each is proved to decide the same language with the same value.
\<close>

fun audit_fold_digits :: "nat \<Rightarrow> nat \<Rightarrow> bytes \<Rightarrow> nat option" where
  "audit_fold_digits radix v [] = Some v"
| "audit_fold_digits radix v (b # bs) =
     Option.bind (checked_mul_u64 v radix) (\<lambda>w.
     Option.bind (checked_sub_u64 (unat b) 0x30) (\<lambda>d.
     Option.bind (checked_add_u64 w d) (\<lambda>x.
     audit_fold_digits radix x bs)))"

definition parse_pax_octal_digits :: "bytes \<Rightarrow> nat option" where
  "parse_pax_octal_digits digits = audit_fold_digits 8 0 digits"

definition parse_pax_decimal :: "bytes \<Rightarrow> nat option" where
  "parse_pax_decimal digits = audit_fold_digits 10 0 digits"

definition parse_pax_octal :: "bytes \<Rightarrow> nat option" where
  "parse_pax_octal field =
     (if field \<noteq> [] \<and> bit (hd field) 7 then None
      else case position (\<lambda>b. \<not> is_octal b) field of
             None \<Rightarrow> None
           | Some e \<Rightarrow>
               if e = 0 \<or> list_ex (\<lambda>b. b \<noteq> 0 \<and> b \<noteq> 0x20) (drop e field) then None
               else parse_pax_octal_digits (take e field))"

definition pax_device_field_is_zero :: "bytes \<Rightarrow> bool" where
  "pax_device_field_is_zero field \<longleftrightarrow> all_zero field \<or> parse_pax_octal field = Some 0"

definition pax_owner_field_is_canonical :: "bytes \<Rightarrow> bool" where
  "pax_owner_field_is_canonical field =
     (case position (\<lambda>b. b = 0) field of
        None \<Rightarrow> False
      | Some e \<Rightarrow> all_zero (drop e field) \<and> list_all is_printable_ascii (take e field))"

definition pax_text_field :: "bytes \<Rightarrow> bool \<Rightarrow> bytes option" where
  "pax_text_field field empty_allowed =
     (let e = (case position (\<lambda>b. b = 0) field of Some i \<Rightarrow> i | None \<Rightarrow> length field)
      in if \<not> all_zero (drop e field) \<or> (\<not> empty_allowed \<and> e = 0) then None else Some (take e field))"

definition pax_header_name_matches :: "bytes \<Rightarrow> bytes \<Rightarrow> bool" where
  "pax_header_name_matches header expected =
     (case pax_text_field (slice_of 0 100 header) False of
        None \<Rightarrow> False
      | Some name \<Rightarrow>
          (case pax_text_field (slice_of 345 500 header) True of
             None \<Rightarrow> False
           | Some prefix \<Rightarrow>
               if length prefix + (if prefix \<noteq> [] then 1 else 0) + length name \<noteq> length expected then False
               else if prefix = [] then expected = name
               else starts_with expected prefix \<and>
                 (length prefix < length expected \<and> expected ! length prefix = 0x2F) \<and>
                 drop (length prefix + 1) expected = name))"

text \<open>The checksum part that \<open>audit_pax_header\<close> and \<open>audit_gnu_header\<close> share.\<close>

definition audit_checksum :: "bytes \<Rightarrow> finding + nat" where
  "audit_checksum header =
     (let field = slice_of 148 156 header
      in if \<not> list_all is_octal (take 6 field) \<or> field ! 6 \<noteq> 0 \<or> field ! 7 \<noteq> 0x20 then Inl inconsistent
         else
         and_then (ok_or inconsistent (parse_pax_octal_digits (take 6 field))) (\<lambda>checksum.
         if checksum > u32_max then Inl inconsistent
         else if checksum \<noteq> header_checksum_of header then Inl inconsistent
         else Inr checksum))"

record pax_header_facts =
  hf_typeflag :: u8
  hf_size :: nat
  hf_mode :: nat
  hf_mtime :: nat
  hf_checksum :: nat

definition audit_pax_header :: "bytes \<Rightarrow> finding + pax_header_facts" where
  "audit_pax_header header =
     (if slice_of 257 263 header \<noteq> take 6 USTAR_MAGIC \<or> slice_of 263 265 header \<noteq> drop 6 USTAR_MAGIC \<or>
         \<not> all_zero (drop 500 header) \<or> \<not> all_zero (slice_of 157 257 header) \<or>
         \<not> pax_owner_field_is_canonical (slice_of 265 297 header) \<or>
         \<not> pax_owner_field_is_canonical (slice_of 297 329 header)
      then Inl inconsistent
      else
      and_then (audit_checksum header) (\<lambda>checksum.
      and_then (ok_or inconsistent (parse_pax_octal (slice_of 100 108 header))) (\<lambda>mode.
      if mode > 4095 \<or> parse_pax_octal (slice_of 108 116 header) = None \<or>
         parse_pax_octal (slice_of 116 124 header) = None
      then Inl inconsistent
      else
      and_then (ok_or inconsistent (parse_pax_octal (slice_of 124 136 header))) (\<lambda>sz.
      if header ! 156 = 0x35 \<and> sz \<noteq> 0 then Inl inconsistent
      else
      and_then (ok_or inconsistent (parse_pax_octal (slice_of 136 148 header))) (\<lambda>mtime.
      if \<not> pax_device_field_is_zero (slice_of 329 337 header) \<or>
         \<not> pax_device_field_is_zero (slice_of 337 345 header)
      then Inl inconsistent
      else Inr \<lparr>hf_typeflag = header ! 156, hf_size = sz, hf_mode = mode, hf_mtime = mtime,
             hf_checksum = checksum\<rparr>)))))"

record gnu_header_facts =
  gf_name :: bytes
  gf_typeflag :: u8
  gf_size :: nat
  gf_mode :: nat
  gf_mtime :: nat
  gf_checksum :: nat

definition audit_gnu_header :: "bytes \<Rightarrow> finding + gnu_header_facts" where
  "audit_gnu_header header =
     (if slice_of 257 265 header \<noteq> OLDGNU_MAGIC \<or> \<not> all_zero (slice_of 157 257 header) \<or>
         \<not> all_zero (drop 345 header) \<or>
         \<not> pax_owner_field_is_canonical (slice_of 265 297 header) \<or>
         \<not> pax_owner_field_is_canonical (slice_of 297 329 header)
      then Inl inconsistent
      else
      and_then (audit_checksum header) (\<lambda>checksum.
      and_then (ok_or inconsistent (parse_pax_octal (slice_of 100 108 header))) (\<lambda>mode.
      if mode > 4095 \<or> parse_pax_octal (slice_of 108 116 header) = None \<or>
         parse_pax_octal (slice_of 116 124 header) = None \<or>
         \<not> pax_device_field_is_zero (slice_of 329 337 header) \<or>
         \<not> pax_device_field_is_zero (slice_of 337 345 header)
      then Inl inconsistent
      else
      and_then (ok_or inconsistent (parse_pax_octal (slice_of 124 136 header))) (\<lambda>sz.
      and_then (ok_or inconsistent (parse_pax_octal (slice_of 136 148 header))) (\<lambda>mtime.
      if header ! 156 \<notin> {0, 0x30, 0x35, 0x4C} then Inl inconsistent
      else if header ! 156 = 0x35 \<and> sz \<noteq> 0 then Inl inconsistent
      else
      and_then (ok_or inconsistent (pax_text_field (take 100 header) False)) (\<lambda>name.
      Inr \<lparr>gf_name = name, gf_typeflag = header ! 156, gf_size = sz, gf_mode = mode, gf_mtime = mtime,
           gf_checksum = checksum\<rparr>))))))"

subsection \<open>Agreement with the readers' decoders\<close>

lemma audit_fold_digits_eq:
  "\<forall>b \<in> set bs. 0x30 \<le> unat b \<Longrightarrow> audit_fold_digits r v bs = fold_digits r v bs"
proof (induction bs arbitrary: v)
  case (Cons b bs)
  then show ?case by (simp add: checked_sub_u64_def)
qed simp

lemma octal_takeWhile: "\<forall>b \<in> set (takeWhile is_octal field). 0x30 \<le> unat b"
  by (auto dest: set_takeWhileD simp: is_octal_def)

lemma parse_pax_octal_agrees: "parse_pax_octal field = result_ok (parse_octal field)"
proof -
  let ?n = "length (takeWhile is_octal field)"
  have p: "position (\<lambda>b. \<not> is_octal b) field = (if ?n < length field then Some ?n else None)"
    by (simp add: position_takeWhile)
  have "?n \<le> length field" by (rule length_takeWhile_le)
  then have n: "?n < length field \<longleftrightarrow> ?n \<noteq> length field" by linarith
  have t: "take ?n field = takeWhile is_octal field" by (simp add: takeWhile_eq_take [symmetric])
  show ?thesis
    using n
    by (auto simp: parse_pax_octal_def parse_octal_def p t Let_def parse_pax_octal_digits_def
        parse_octal_digits_def audit_fold_digits_eq [OF octal_takeWhile] result_ok_def ok_or_def
        split: option.splits)
qed

lemma pax_text_field_agrees: "pax_text_field field emp = result_ok (parse_text_field field emp)"
  by (simp add: pax_text_field_def parse_text_field_def nul_end_def Let_def)

lemma pax_owner_agrees: "pax_owner_field_is_canonical field \<longleftrightarrow> is_ok (validate_owner_text field)"
  by (simp add: pax_owner_field_is_canonical_def validate_owner_text_def split: option.splits)

lemma pax_device_agrees: "pax_device_field_is_zero field \<longleftrightarrow> parse_device_number field = Inr 0"
  by (simp add: pax_device_field_is_zero_def parse_device_number_def parse_pax_octal_agrees)

lemma audit_checksum_complete:
  assumes "header_checksum_matches header" "length header = 512"
  shows "audit_checksum header = Inr (header_checksum_of header)"
proof -
  let ?f = "slice_of 148 156 header"
  from assms have p: "parse_checksum ?f = Inr (header_checksum_of header)"
    by (auto simp: header_checksum_matches_def split: sum.splits)
  then have o: "list_all is_octal (take 6 ?f)" "?f ! 6 = 0" "?f ! 7 = 0x20"
    and v: "parse_octal_digits (take 6 ?f) = Inr (header_checksum_of header)"
    and u: "header_checksum_of header \<le> u32_max"
    by (auto simp: parse_checksum_def and_then_eq_Inr split: if_splits)
  have "parse_pax_octal_digits (take 6 ?f) = Some (header_checksum_of header)"
  proof -
    have "\<forall>b \<in> set (take 6 ?f). 0x30 \<le> unat b" using o(1) by (auto simp: list_all_iff is_octal_def)
    with v show ?thesis
      by (simp add: parse_pax_octal_digits_def audit_fold_digits_eq parse_octal_digits_def)
  qed
  with o u show ?thesis by (simp add: audit_checksum_def Let_def)
qed

lemma header_numbers_audit:
  assumes "parse_header_numbers header = Inr n"
  shows "parse_pax_octal (slice_of 100 108 header) = Some (hn_mode n)" "hn_mode n \<le> 4095"
    "parse_pax_octal (slice_of 108 116 header) \<noteq> None" "parse_pax_octal (slice_of 116 124 header) \<noteq> None"
    "parse_pax_octal (slice_of 124 136 header) = Some (hn_size n)"
    "parse_pax_octal (slice_of 136 148 header) = Some (hn_mtime n)"
  using assms
  by (auto simp: parse_header_numbers_def and_then_eq_Inr parse_pax_octal_agrees split: if_splits)

lemma devices_owners_audit:
  assumes "check_devices_and_owners header = Inr ()"
  shows "pax_owner_field_is_canonical (slice_of 265 297 header)"
    "pax_owner_field_is_canonical (slice_of 297 329 header)"
    "pax_device_field_is_zero (slice_of 329 337 header)" "pax_device_field_is_zero (slice_of 337 345 header)"
  using assms
  by (auto simp: check_devices_and_owners_def and_then_eq_Inr pax_owner_agrees pax_device_agrees
      split: if_splits)

lemma slice_take_drop:
  "\<lbrakk>slice_of a c xs = ys; a + n = b; b \<le> c\<rbrakk> \<Longrightarrow> slice_of a b xs = take n ys \<and> slice_of b c xs = drop n ys"
proof -
  assume ys: "slice_of a c xs = ys" and b: "a + n = b" and c: "b \<le> c"
  have "take n ys = take n (drop a xs)" using b c unfolding ys [symmetric] slice_of_def by (simp add: min_def)
  moreover have "drop n ys = take (c - a - n) (drop (n + a) xs)"
    unfolding ys [symmetric] slice_of_def by (simp add: drop_take)
  moreover have "b - a = n" "c - a - n = c - b" "n + a = b" using b by simp_all
  ultimately show ?thesis by (simp add: slice_of_def)
qed

text \<open>The audit of a pax header reads the values the reader decoded.\<close>

lemma audit_pax_header_complete:
  assumes "pax_parse_header sha header offs = Inr h" and len: "length header = 512"
  shows "audit_pax_header header = Inr \<lparr>hf_typeflag = header ! 156, hf_size = ph_size h, hf_mode = ph_mode h,
    hf_mtime = ph_mtime h, hf_checksum = ph_header_checksum h\<rparr>"
proof -
  from assms obtain n where n: "parse_header_numbers header = Inr n" "ph_size h = hn_size n"
      "ph_mode h = hn_mode n" "ph_mtime h = hn_mtime n"
    and d: "check_devices_and_owners header = Inr ()"
    and z: "all_zero (slice_of 500 512 header)" "all_zero (slice_of 157 257 header)"
    by (auto simp: pax_parse_header_def and_then_eq_Inr split: if_splits)
  note h = pax_parse_header_ok [OF assms(1)]
  have "header ! 156 = 0x35 \<longrightarrow> ph_size h = 0"
    using h(4,8) by (auto simp: pax_kind_def Let_def split: if_splits)
  moreover have "drop 500 header = slice_of 500 512 header" using len by (simp add: slice_of_def)
  moreover have "slice_of 257 263 header = take 6 USTAR_MAGIC \<and> slice_of 263 265 header = drop 6 USTAR_MAGIC"
    using slice_take_drop [OF h(1), of 6 263] by simp
  ultimately show ?thesis
    using z n header_numbers_audit [OF n(1)] devices_owners_audit [OF d] h(10)
      audit_checksum_complete [OF h(2) len]
    by (simp add: audit_pax_header_def)
qed

lemma pax_header_name_complete:
  assumes "ustar_raw_name header = Inr raw"
  shows "pax_header_name_matches header raw"
  using assms
  by (auto simp: ustar_raw_name_def and_then_eq_Inr pax_header_name_matches_def pax_text_field_agrees
      starts_with_def)

subsection \<open>Properties\<close>

text \<open>The decoders the audit carries for itself agree with the reader's: on every field the two
  octal parsers, text extractors, owner checks and device checks accept the same bytes with the
  same value, so the audit neither refuses a header the reader took nor takes one it refused.\<close>

theorem audit_decoders_agree:
  "parse_pax_octal field = result_ok (parse_octal field) \<and>
   pax_text_field field emp = result_ok (parse_text_field field emp) \<and>
   (pax_owner_field_is_canonical field \<longleftrightarrow> is_ok (validate_owner_text field)) \<and>
   (pax_device_field_is_zero field \<longleftrightarrow> parse_device_number field = Inr 0)"
  by (simp add: parse_pax_octal_agrees pax_text_field_agrees pax_owner_agrees pax_device_agrees)

end
