(* ===== verification/CoveringPax.thy ===== *)
theory CoveringPax
  imports AuditFields
begin

text \<open>
  The covering audit of the pax profile, \<open>audit_tar_pax_covering\<close> of
  \<open>crates/sealr/src/covering.rs\<close>: it scans the recorded extensions and members in source order,
  decodes their headers and records again and replays the overrides. Each loop is an instance of
  \<open>block_reader\<close>, and the audit is proved to follow the reader step by step.
\<close>

definition PAX_MAX_RECORD_LENGTH_DIGITS :: nat where "PAX_MAX_RECORD_LENGTH_DIGITS = 20"
definition PAX_MAX_KEYWORD_BYTES :: nat where "PAX_MAX_KEYWORD_BYTES = 16"
definition PAX_MAX_EFFECTIVE_PATH_BYTES :: nat where "PAX_MAX_EFFECTIVE_PATH_BYTES = 8191"
definition PAX_MAX_EXTENSION_BYTES :: nat where "PAX_MAX_EXTENSION_BYTES = 64 * 1024"
definition PAX_MAX_EXTENSIONS :: nat where "PAX_MAX_EXTENSIONS = 1024"
definition TAR_BLOCK_LEN :: nat where "TAR_BLOCK_LEN = 512"

subsection \<open>Records\<close>

record audit_record_state =
  ar_cursor :: nat
  ar_record_index :: nat
  ar_saw_path :: bool
  ar_saw_size :: bool

definition list_get :: "'a list \<Rightarrow> nat \<Rightarrow> 'a option" where
  "list_get xs i = (if i < length xs then Some (xs ! i) else None)"

lemma list_get_append [simp]: "list_get (map f (xs @ y # ys)) (length xs) = Some (f y)"
  by (simp add: list_get_def nth_append)

text \<open>The frame of the record at \<open>record_start\<close>: start of its body, its length, its end and the
  position of the equals sign in the body.\<close>

definition audit_record_frame :: "bytes \<Rightarrow> nat \<Rightarrow> finding + nat \<times> nat \<times> nat \<times> nat" where
  "audit_record_frame payload record_start =
     (let length_digits = takeWhile is_digit (drop record_start payload);
          cursor = record_start + length length_digits
      in if length length_digits > PAX_MAX_RECORD_LENGTH_DIGITS then Inl inconsistent
         else if cursor = record_start \<or> cursor = length payload \<or> payload ! cursor \<noteq> 0x20
         then Inl inconsistent
         else if length length_digits > 1 \<and> hd length_digits = 0x30 then Inl inconsistent
         else
         and_then (ok_or inconsistent (parse_pax_decimal length_digits)) (\<lambda>record_len.
         and_then (ok_or inconsistent (checked_add_u64 record_start record_len)) (\<lambda>record_end.
         if record_len = 0 \<or> record_end > length payload \<or> payload ! (record_end - 1) \<noteq> 0x0A
         then Inl inconsistent
         else if cursor + 1 \<ge> record_end - 1 then Inl inconsistent
         else
         and_then (ok_or inconsistent
             (position (\<lambda>b. b = 0x3D) (slice_of (cursor + 1) (record_end - 1) payload))) (\<lambda>equals.
         if equals = 0 \<or> equals > PAX_MAX_KEYWORD_BYTES then Inl inconsistent
         else Inr (cursor + 1, record_len, record_end, equals)))))"

text \<open>The keyword of a record, with the flags of the keywords seen, checked against the evidence.\<close>

definition audit_keyword ::
  "bytes \<Rightarrow> bytes \<Rightarrow> nat option \<Rightarrow> bool \<Rightarrow> bool \<Rightarrow> finding + pax_keyword \<times> bool \<times> bool"
where
  "audit_keyword keyword_bytes v parsed_size saw_path saw_size =
     (if keyword_bytes = PATH_KEYWORD \<and> \<not> saw_path then
        if v = [] \<or> length v > PAX_MAX_EFFECTIVE_PATH_BYTES \<or> 0 \<in> set v \<or> from_utf8 v = None
        then Inl inconsistent
        else if parsed_size \<noteq> None then Inl inconsistent
        else Inr (KeywordPath, True, saw_size)
      else if keyword_bytes = SIZE_KEYWORD \<and> \<not> saw_size then
        if v = [] \<or> length v > PAX_MAX_RECORD_LENGTH_DIGITS \<or> \<not> list_all is_digit v \<or>
           (length v > 1 \<and> hd v = 0x30)
        then Inl inconsistent
        else and_then (ok_or inconsistent (parse_pax_decimal v)) (\<lambda>parsed.
             if parsed_size \<noteq> Some parsed then Inl inconsistent
             else Inr (KeywordSize, saw_path, True))
      else Inl inconsistent)"

definition audit_pax_record ::
  "bytes \<Rightarrow> nat \<Rightarrow> pax_record_evidence list \<Rightarrow> audit_record_state \<Rightarrow> finding + audit_record_state"
where
  "audit_pax_record payload payload_offset records st =
     and_then (ok_or inconsistent (list_get records (ar_record_index st))) (\<lambda>evidence.
     let record_start = ar_cursor st in
     and_then (audit_record_frame payload record_start) (\<lambda>(cursor, record_len, record_end, equals).
     let body = slice_of cursor (record_end - 1) payload;
         keyword_bytes = take equals body;
         v = drop (equals + 1) body in
     and_then (ok_or inconsistent (checked_add_u64 cursor (equals + 1))) (\<lambda>value_start.
     and_then (audit_keyword keyword_bytes v (re_parsed_size evidence) (ar_saw_path st) (ar_saw_size st))
       (\<lambda>(keyword, saw_path, saw_size).
     and_then (ok_or inconsistent (checked_add_u64 payload_offset record_start)) (\<lambda>absolute_record.
     and_then (ok_or inconsistent (checked_add_u64 payload_offset value_start)) (\<lambda>absolute_value.
     if re_record evidence \<noteq> \<lparr>offset = absolute_record, rlen = record_len\<rparr> \<or>
        re_value evidence \<noteq> \<lparr>offset = absolute_value, rlen = length v\<rparr> \<or>
        re_keyword evidence \<noteq> keyword \<or> re_raw_value_bytes evidence \<noteq> v
     then Inl inconsistent
     else Inr \<lparr>ar_cursor = record_end, ar_record_index = ar_record_index st + 1,
            ar_saw_path = saw_path, ar_saw_size = saw_size\<rparr>))))))"

definition audit_records_step ::
  "bytes \<Rightarrow> nat \<Rightarrow> pax_record_evidence list \<Rightarrow> audit_record_state \<Rightarrow> finding + (audit_record_state + unit)"
where
  "audit_records_step payload payload_offset records st =
     (if ar_cursor st < length payload
      then and_then (audit_pax_record payload payload_offset records st) (\<lambda>st'. Inr (Inl st'))
      else if ar_record_index st \<noteq> length records then Inl inconsistent
      else Inr (Inr ()))"

lemma audit_record_frame_bounds:
  assumes "audit_record_frame payload s = Inr (cur, n, e, eq)"
  shows "s < e \<and> e \<le> length payload"
  using assms by (auto simp: audit_record_frame_def Let_def and_then_eq_Inr split: if_splits)

lemma audit_records_progress:
  assumes "audit_records_step payload po records st = Inr (Inl st')"
  shows "ar_cursor st < ar_cursor st' \<and> ar_cursor st' \<le> length payload"
  using assms
  by (auto simp: audit_records_step_def audit_pax_record_def Let_def and_then_eq_Inr
      split: if_splits prod.splits dest!: audit_record_frame_bounds)

function audit_records_loop ::
  "bytes \<Rightarrow> nat \<Rightarrow> pax_record_evidence list \<Rightarrow> audit_record_state \<Rightarrow> finding + unit"
where
  "audit_records_loop payload payload_offset records st =
     and_then (audit_records_step payload payload_offset records st) (\<lambda>next.
       case next of
         Inl st' \<Rightarrow> audit_records_loop payload payload_offset records st'
       | Inr u \<Rightarrow> Inr u)"
  by pat_completeness auto
termination
  by (relation "measure (\<lambda>(payload, po, records, st). length payload - ar_cursor st)")
    (auto dest: audit_records_progress)

declare audit_records_loop.simps [simp del]

definition audit_pax_records :: "bytes \<Rightarrow> nat \<Rightarrow> pax_record_evidence list \<Rightarrow> finding + unit" where
  "audit_pax_records payload payload_offset records =
     (if records = [] \<or> length records > 2 then Inl inconsistent
      else audit_records_loop payload payload_offset records
             \<lparr>ar_cursor = 0, ar_record_index = 0, ar_saw_path = False, ar_saw_size = False\<rparr>)"

interpretation audit_records: block_reader "audit_records_step payload po records"
    "audit_records_loop payload po records" ar_cursor "length payload" for payload po records
  by unfold_locales (subst audit_records_loop.simps, rule refl, rule audit_records_progress)

subsection \<open>The record audit follows the record parser\<close>

lemma decimal_agrees:
  "list_all is_digit ds \<Longrightarrow> parse_pax_decimal ds = result_ok (parse_decimal ds)"
proof -
  assume "list_all is_digit ds"
  then have "\<forall>b \<in> set ds. 0x30 \<le> unat b" by (auto simp: list_all_iff is_digit_def)
  then show ?thesis
    by (simp add: parse_pax_decimal_def audit_fold_digits_eq parse_decimal_def result_ok_def ok_or_def
        split: option.splits)
qed

lemma position_take: "position p (take n xs) = Some i \<Longrightarrow> position p xs = Some i \<and> i < n"
  by (auto simp: position_Some_iff)

lemma audit_record_frame_follows:
  assumes "parse_record_frame payload s = Inr (cur, n, e, eq)"
  shows "audit_record_frame payload s = Inr (cur, n, e, eq)"
proof -
  let ?ds = "takeWhile is_digit (drop s payload)"
  have ds: "parse_pax_decimal ?ds = result_ok (parse_decimal ?ds)" by (rule decimal_agrees [OF takeWhile_all])
  from assms obtain de where len: "parse_record_length payload s = Inr (de, n)"
    and e: "checked_add_u64 s n = Some e" "n \<noteq> 0" "e \<le> length payload" "payload ! (e - 1) = 0x0A"
    and cur: "cur = de + 1" "\<not> cur \<ge> e - 1" and eq: "eq \<noteq> 0"
    and pos: "position (\<lambda>b. b = 0x3D) (take 16 (slice_of cur (e - 1) payload)) = Some eq"
    by (auto simp: parse_record_frame_def Let_def and_then_eq_Inr MAX_KEYWORD_BYTES_def not_le
        split: if_splits prod.splits)
  from len have "de = s + length ?ds" "parse_decimal ?ds = Inr n" "length ?ds \<le> 20"
    "\<not> (de = s \<or> de = length payload \<or> payload ! de \<noteq> 0x20)" "\<not> (length ?ds > 1 \<and> hd ?ds = 0x30)"
    by (auto simp: parse_record_length_def Let_def and_then_eq_Inr MAX_RECORD_LENGTH_DIGITS_def
        split: if_splits)
  then show ?thesis
    using e cur eq position_take [OF pos]
    by (auto simp: audit_record_frame_def Let_def ds PAX_MAX_RECORD_LENGTH_DIGITS_def
        PAX_MAX_KEYWORD_BYTES_def checked_add_u64_def split: if_splits)
qed

lemma audit_keyword_follows:
  assumes "parse_keyword_value k v sp ss = Inr (kw, val, sp', ss')"
  shows "audit_keyword k v (case val of PathValue _ \<Rightarrow> None | SizeValue n \<Rightarrow> Some n) sp ss = Inr (kw, sp', ss')"
proof (cases kw)
  case KeywordPath
  with parse_keyword_value_ok [OF assms] obtain p where "k = PATH_KEYWORD" "\<not> sp" "sp'" "ss' = ss"
    "val = PathValue p" "from_utf8 v = Some p" "v \<noteq> []" "length v \<le> 8191" "0 \<notin> set v" by auto
  with KeywordPath show ?thesis by (simp add: audit_keyword_def PAX_MAX_EFFECTIVE_PATH_BYTES_def)
next
  case KeywordSize
  with parse_keyword_value_ok [OF assms] obtain n where k: "k = SIZE_KEYWORD" "\<not> ss" "ss'" "sp' = sp"
    "val = SizeValue n" and c: "canonical_decimal v" and n: "digits_value 10 0 v = n" "n \<le> u64_max" by auto
  have "parse_decimal v = Inr n" using n by (simp add: parse_decimal_ok)
  then have "parse_pax_decimal v = Some n"
    using c decimal_agrees [of v] by (simp add: canonical_decimal_digits)
  moreover have "SIZE_KEYWORD \<noteq> PATH_KEYWORD" by (simp add: PATH_KEYWORD_def SIZE_KEYWORD_def)
  ultimately show ?thesis
    using k c KeywordSize
    by (auto simp: audit_keyword_def canonical_decimal_digits PAX_MAX_RECORD_LENGTH_DIGITS_def)
qed

lemma audit_pax_record_follows:
  assumes "parse_record payload po st = Inr st'" "rs_records st' = rs_records st @ [r]"
    "list_get records (length (rs_records st)) = Some (pax_record_evidence_of r)"
  shows "audit_pax_record payload po records
      \<lparr>ar_cursor = rs_cursor st, ar_record_index = length (rs_records st), ar_saw_path = rs_saw_path st,
       ar_saw_size = rs_saw_size st\<rparr> =
    Inr \<lparr>ar_cursor = rs_cursor st', ar_record_index = length (rs_records st'), ar_saw_path = rs_saw_path st',
       ar_saw_size = rs_saw_size st'\<rparr>"
proof -
  from assms(1) obtain cur n e eq kw val sp ss where
    fr: "parse_record_frame payload (rs_cursor st) = Inr (cur, n, e, eq)"
    and kv: "parse_keyword_value (take eq (slice_of cur (e - 1) payload))
      (drop (eq + 1) (slice_of cur (e - 1) payload)) (rs_saw_path st) (rs_saw_size st) =
      Inr (kw, val, sp, ss)"
    and adds: "cur + (eq + 1) \<le> u64_max" "po + rs_cursor st \<le> u64_max" "po + (cur + (eq + 1)) \<le> u64_max"
    and st': "st' = \<lparr>rs_records = rs_records st @
             [\<lparr>pr_keyword = kw, pr_value = val, pr_record = \<lparr>offset = po + rs_cursor st, rlen = n\<rparr>,
               pr_value_range = \<lparr>offset = po + (cur + (eq + 1)),
                 rlen = length (drop (eq + 1) (slice_of cur (e - 1) payload))\<rparr>,
               pr_raw_value_bytes = drop (eq + 1) (slice_of cur (e - 1) payload)\<rparr>],
           rs_cursor = e, rs_saw_path = sp, rs_saw_size = ss\<rparr>"
    by (auto simp: parse_record_def Let_def and_then_eq_Inr split: if_splits prod.splits)
  have adds': "checked_add_u64 cur (eq + 1) = Some (cur + (eq + 1))"
    "checked_add_u64 po (rs_cursor st) = Some (po + rs_cursor st)"
    "checked_add_u64 po (cur + (eq + 1)) = Some (po + (cur + (eq + 1)))"
    using adds by (simp_all add: checked_add_u64_def)
  have r: "r = \<lparr>pr_keyword = kw, pr_value = val, pr_record = \<lparr>offset = po + rs_cursor st, rlen = n\<rparr>,
               pr_value_range = \<lparr>offset = po + (cur + (eq + 1)),
                 rlen = length (drop (eq + 1) (slice_of cur (e - 1) payload))\<rparr>,
               pr_raw_value_bytes = drop (eq + 1) (slice_of cur (e - 1) payload)\<rparr>"
    using assms(2) by (simp add: st')
  note kv' = audit_keyword_follows [OF kv]
  show ?thesis
    unfolding audit_pax_record_def audit_record_state.simps assms(3) ok_or_simps and_then_simps Let_def
      audit_record_frame_follows [OF fr] prod.case adds'
    by (simp add: r st' pax_record_evidence_of_def kv' del: One_nat_def)
qed

lemma parse_records_appends:
  "parse_records_loop payload po st = Inr recs \<Longrightarrow>
     \<exists>rs. recs = rs_records st @ rs \<and> (\<forall>r \<in> set rs. rs_cursor st \<le> offset (pr_record r))"
proof (rule pax_records.loop_appends [where res = id, simplified])
  fix s s'
  assume "parse_records_step payload po s = Inr (Inl s')"
  then have "parse_record payload po s = Inr s'"
    by (auto simp: parse_records_step_def and_then_eq_Inr split: if_splits)
  then obtain r where "rs_records s' = rs_records s @ [r]"
    "pr_record r = \<lparr>offset = po + rs_cursor s, rlen = rs_cursor s' - rs_cursor s\<rparr>"
    by (rule parse_record_ok)
  then show "\<exists>xs. rs_records s' = rs_records s @ xs \<and> (\<forall>x \<in> set xs. rs_cursor s \<le> offset (pr_record x))"
    by (intro exI [of _ "[r]"]) simp
qed (auto simp: parse_records_step_def and_then_eq_Inr split: if_splits)

definition record_states_agree ::
  "bytes \<Rightarrow> nat \<Rightarrow> pax_record list \<Rightarrow> record_state \<Rightarrow> audit_record_state \<Rightarrow> bool"
where
  "record_states_agree payload po recs st t \<longleftrightarrow>
     parse_records_loop payload po st = Inr recs \<and>
     t = \<lparr>ar_cursor = rs_cursor st, ar_record_index = length (rs_records st), ar_saw_path = rs_saw_path st,
          ar_saw_size = rs_saw_size st\<rparr>"

interpretation record_audit: reader_simulation
    "parse_records_step payload po" "parse_records_loop payload po" rs_cursor "length payload"
    "audit_records_step payload po (map pax_record_evidence_of recs)"
    "audit_records_loop payload po (map pax_record_evidence_of recs)" ar_cursor "length payload"
    "record_states_agree payload po recs" "\<lambda>_ _. True" for payload po recs
proof
  fix s t s'
  assume R: "record_states_agree payload po recs s t" and step: "parse_records_step payload po s = Inr (Inl s')"
  have l: "parse_records_loop payload po s' = Inr recs"
    using R pax_records.loop_simps(2) [OF step] by (simp add: record_states_agree_def)
  from step have p: "parse_record payload po s = Inr s'" and lt: "rs_cursor s < length payload"
    by (auto simp: parse_records_step_def and_then_eq_Inr split: if_splits)
  from p obtain r where r: "rs_records s' = rs_records s @ [r]" by (rule parse_record_ok)
  from parse_records_appends [OF l] r obtain rs where "recs = rs_records s @ r # rs" by auto
  then have "list_get (map pax_record_evidence_of recs) (length (rs_records s)) = Some (pax_record_evidence_of r)"
    using list_get_append [of pax_record_evidence_of] by blast
  note audit_pax_record_follows [OF p r this]
  with R l lt show "\<exists>t'. audit_records_step payload po (map pax_record_evidence_of recs) t = Inr (Inl t') \<and>
      record_states_agree payload po recs s' t'"
    by (simp add: record_states_agree_def audit_records_step_def)
next
  fix s t r
  assume R: "record_states_agree payload po recs s t" and step: "parse_records_step payload po s = Inr (Inr r)"
  then have "r = recs" "rs_records s = recs" "\<not> rs_cursor s < length payload"
    by (auto simp: record_states_agree_def pax_records.loop_simps(3) parse_records_step_def and_then_eq_Inr
        split: if_splits)
  with R show "\<exists>q. audit_records_step payload po (map pax_record_evidence_of recs) t = Inr (Inr q) \<and> True"
    by (simp add: record_states_agree_def audit_records_step_def)
qed

lemma audit_pax_records_complete:
  assumes "parse_records payload po = Inr recs"
  shows "audit_pax_records payload po (map pax_record_evidence_of recs) = Inr ()"
proof -
  have "records_spec payload po recs" using assms by (rule parse_records_spec)
  then have n: "recs \<noteq> []" "length recs \<le> 2" by (simp_all add: records_spec_def)
  have "record_states_agree payload po recs
      \<lparr>rs_records = [], rs_cursor = 0, rs_saw_path = False, rs_saw_size = False\<rparr>
      \<lparr>ar_cursor = 0, ar_record_index = 0, ar_saw_path = False, ar_saw_size = False\<rparr>"
    using assms by (simp add: record_states_agree_def parse_records_def)
  from record_audit.simulates [OF this assms [unfolded parse_records_def]] n
  show ?thesis by (simp add: audit_pax_records_def)
qed

subsection \<open>Overrides\<close>

record pax_audit_overrides =
  ao_path :: "pax_value_source option"
  ao_size :: "pax_value_source option"

definition default_audit_overrides :: pax_audit_overrides where
  "default_audit_overrides = \<lparr>ao_path = None, ao_size = None\<rparr>"

definition value_source :: "pax_extension_kind \<Rightarrow> nat \<Rightarrow> nat \<Rightarrow> pax_value_source" where
  "value_source kind i j = (case kind of ExtGlobal \<Rightarrow> SrcGlobal i j | ExtLocal \<Rightarrow> SrcLocal i j)"

fun audit_override_records ::
  "pax_extension_kind \<Rightarrow> nat \<Rightarrow> nat \<Rightarrow> pax_record_evidence list \<Rightarrow> pax_audit_overrides \<Rightarrow> finding + pax_audit_overrides"
where
  "audit_override_records kind i j [] st = Inr st"
| "audit_override_records kind i j (r # rs) st =
     (if j > u32_max then Inl inconsistent
      else audit_override_records kind i (j + 1) rs
             (case re_keyword r of
                KeywordPath \<Rightarrow> st\<lparr>ao_path := Some (value_source kind i j)\<rparr>
              | KeywordSize \<Rightarrow> st\<lparr>ao_size := Some (value_source kind i j)\<rparr>))"

definition overrides_from_extension :: "pax_extension_evidence \<Rightarrow> nat \<Rightarrow> finding + pax_audit_overrides" where
  "overrides_from_extension x i =
     (if i > u32_max then Inl inconsistent
      else audit_override_records (xe_kind x) i 0 (xe_records x) default_audit_overrides)"

definition overrides_update_from :: "pax_audit_overrides \<Rightarrow> pax_audit_overrides \<Rightarrow> pax_audit_overrides" where
  "overrides_update_from self update =
     \<lparr>ao_path = (if ao_path update \<noteq> None then ao_path update else ao_path self),
      ao_size = (if ao_size update \<noteq> None then ao_size update else ao_size self)\<rparr>"

definition pax_source_record ::
  "pax_extension_evidence list \<Rightarrow> pax_value_source \<Rightarrow> pax_keyword \<Rightarrow> pax_record_evidence option"
where
  "pax_source_record extensions src keyword =
     (let look = (\<lambda>i j kind.
        case list_get extensions i of
          None \<Rightarrow> None
        | Some x \<Rightarrow>
            if xe_kind x \<noteq> kind then None
            else (case list_get (xe_records x) j of
                    None \<Rightarrow> None
                  | Some r \<Rightarrow> if re_keyword r = keyword then Some r else None))
      in case src of
           SrcUstar \<Rightarrow> None
         | SrcGlobal i j \<Rightarrow> look i j ExtGlobal
         | SrcLocal i j \<Rightarrow> look i j ExtLocal)"

subsection \<open>Extensions and members\<close>

text \<open>The range check both share: one aligned record at the cursor; returns its end.\<close>

definition audit_pax_ranges ::
  "finding \<Rightarrow> byte_range \<Rightarrow> byte_range \<Rightarrow> byte_range \<Rightarrow> bool \<Rightarrow> nat \<Rightarrow> nat \<Rightarrow> finding + nat"
where
  "audit_pax_ranges fail header payload padding size_ok expected_header covering_end =
     and_then (checked_range_end header) (\<lambda>header_end.
     and_then (checked_range_end payload) (\<lambda>payload_end.
     and_then (checked_range_end padding) (\<lambda>padding_end.
     let expected_padding = (TAR_BLOCK_LEN - rlen payload mod TAR_BLOCK_LEN) mod TAR_BLOCK_LEN
     in if offset header \<noteq> expected_header \<or> rlen header \<noteq> TAR_BLOCK_LEN \<or> offset payload \<noteq> header_end \<or>
           \<not> size_ok \<or> offset padding \<noteq> payload_end \<or> rlen padding \<noteq> expected_padding \<or>
           padding_end mod TAR_BLOCK_LEN \<noteq> 0 \<or> padding_end > covering_end
        then Inl fail else Inr padding_end)))"

definition audit_one_pax_extension ::
  "(bytes \<Rightarrow> bytes) \<Rightarrow> snapshot \<Rightarrow> pax_extension_evidence \<Rightarrow> nat \<Rightarrow> nat \<Rightarrow> finding + nat"
where
  "audit_one_pax_extension sha sn x expected_header covering_end =
     and_then (audit_pax_ranges inconsistent (xe_header x) (xe_payload x) (xe_padding x)
         (rlen (xe_payload x) \<le> PAX_MAX_EXTENSION_BYTES) expected_header covering_end) (\<lambda>padding_end.
     and_then (map_err (\<lambda>_. inconsistent) (read_exact_at sn (offset (xe_header x)) TAR_BLOCK_LEN)) (\<lambda>header.
     and_then (audit_pax_header header) (\<lambda>facts.
     let expected_typeflag = (case xe_kind x of ExtGlobal \<Rightarrow> 0x67 | ExtLocal \<Rightarrow> 0x78)
     in if hf_typeflag facts \<noteq> expected_typeflag \<or> hf_size facts \<noteq> rlen (xe_payload x) \<or>
           hf_mode facts \<noteq> xe_mode x \<or> hf_mtime facts \<noteq> xe_mtime x \<or>
           hf_checksum facts \<noteq> xe_header_checksum x \<or>
           \<not> pax_header_name_matches header (xe_raw_name_bytes x) \<or>
           hex_sha256 sha header \<noteq> xe_header_sha256 x
        then Inl inconsistent
        else
        and_then (map_err (\<lambda>_. inconsistent)
            (read_vec sn (offset (xe_payload x)) (rlen (xe_payload x)))) (\<lambda>payload.
        if hex_sha256 sha payload \<noteq> xe_payload_sha256 x then Inl inconsistent
        else
        and_then (audit_pax_records payload (offset (xe_payload x)) (xe_records x)) (\<lambda>_.
        and_then (audit_zero_range sn (xe_padding x)) (\<lambda>_.
        Inr padding_end))))))"

text \<open>The effective name and size of a member, replayed from the recorded sources.\<close>

definition audit_effective ::
  "finding \<Rightarrow> pax_extension_evidence list \<Rightarrow> tar_pax_member_evidence \<Rightarrow> finding + bytes \<times> nat"
where
  "audit_effective fail extensions e =
     and_then
       (case pe_path_source e of
          SrcUstar \<Rightarrow> Inr (pe_base_name_bytes e)
        | src \<Rightarrow> and_then (ok_or fail (pax_source_record extensions src KeywordPath)) (\<lambda>r.
                   Inr (re_raw_value_bytes r)))
       (\<lambda>effective_name.
     and_then
       (case pe_size_source e of
          SrcUstar \<Rightarrow> Inr (pe_base_size e)
        | src \<Rightarrow> ok_or fail (Option.bind (pax_source_record extensions src KeywordSize) re_parsed_size))
       (\<lambda>effective_size.
     Inr (effective_name, effective_size)))"

definition expected_source :: "pax_value_source option \<Rightarrow> pax_value_source option \<Rightarrow> pax_value_source" where
  "expected_source local global =
     (case local of Some v \<Rightarrow> v | None \<Rightarrow> (case global of Some v \<Rightarrow> v | None \<Rightarrow> SrcUstar))"

definition audit_one_pax_member ::
  "(bytes \<Rightarrow> bytes) \<Rightarrow> snapshot \<Rightarrow> ir_member \<Rightarrow> pax_extension_evidence list \<Rightarrow> pax_audit_overrides \<Rightarrow>
     pax_audit_overrides option \<Rightarrow> nat \<Rightarrow> nat \<Rightarrow> finding + nat"
where
  "audit_one_pax_member sha sn m extensions globals local expected_header covering_end =
     (let fail = on_member (im_decoded_name m) inconsistent
      in if member_format m \<notin> {TarPax, TarGzipPax} then Inl fail
         else
         and_then (ok_or fail (member_tar_pax_evidence m)) (\<lambda>evidence.
         let tar = pe_tar evidence in
         and_then (audit_pax_ranges fail (te_header tar) (te_payload tar) (te_padding tar)
             (rlen (te_payload tar) = im_declared_uncomp_size m) expected_header covering_end) (\<lambda>padding_end.
         and_then (map_err (\<lambda>_. fail) (read_exact_at sn (offset (te_header tar)) TAR_BLOCK_LEN)) (\<lambda>header.
         and_then (map_err (on_member (im_decoded_name m)) (audit_pax_header header)) (\<lambda>facts.
         let source_is_directory = (hf_typeflag facts = 0x35)
         in if hf_typeflag facts \<notin> {0, 0x30, 0x35} \<or>
               source_is_directory \<noteq> (im_kind m = MemberDirectory) \<or>
               (source_is_directory \<and> im_declared_uncomp_size m \<noteq> 0) \<or>
               hf_size facts \<noteq> pe_base_size evidence \<or> hf_mode facts \<noteq> te_mode tar \<or>
               hf_mtime facts \<noteq> te_mtime tar \<or> hf_checksum facts \<noteq> te_header_checksum tar \<or>
               \<not> pax_header_name_matches header (pe_base_name_bytes evidence) \<or>
               hex_sha256 sha header \<noteq> te_header_sha256 tar
            then Inl fail
            else if pe_path_source evidence \<noteq> expected_source (Option.bind local ao_path) (ao_path globals) \<or>
                    pe_size_source evidence \<noteq> expected_source (Option.bind local ao_size) (ao_size globals)
            then Inl fail
            else
            and_then (audit_effective fail extensions evidence) (\<lambda>(effective_name, effective_size).
            if effective_name = [] \<or> length effective_name > PAX_MAX_EFFECTIVE_PATH_BYTES \<or>
               0 \<in> set effective_name \<or> from_utf8 effective_name = None \<or>
               im_raw_name_bytes m \<noteq> effective_name \<or> as_bytes (im_decoded_name m) \<noteq> effective_name \<or>
               im_declared_uncomp_size m \<noteq> effective_size
            then Inl fail
            else
            and_then (map_err (on_member (im_decoded_name m)) (audit_zero_range sn (te_padding tar))) (\<lambda>_.
            Inr padding_end))))))) "

subsection \<open>The scan\<close>

record audit_pax_state =
  aps_cursor :: nat
  aps_extension_index :: nat
  aps_member_index :: nat
  aps_globals :: pax_audit_overrides
  aps_pending_local :: "pax_audit_overrides option"

definition audit_pax_step ::
  "(bytes \<Rightarrow> bytes) \<Rightarrow> snapshot \<Rightarrow> pax_extension_evidence list \<Rightarrow> ir_member list \<Rightarrow> nat \<Rightarrow> audit_pax_state \<Rightarrow>
     finding + (audit_pax_state + audit_pax_state)"
where
  "audit_pax_step sha sn extensions members member_end st =
     (if \<not> aps_cursor st < member_end then Inr (Inr st)
      else
      let next_extension = list_get extensions (aps_extension_index st);
          next_member = list_get members (aps_member_index st);
          extension_here = (case next_extension of None \<Rightarrow> None
            | Some x \<Rightarrow> if offset (xe_header x) = aps_cursor st then Some x else None);
          member_here = (case next_member of None \<Rightarrow> None
            | Some m \<Rightarrow> (case member_tar_pax_evidence m of None \<Rightarrow> None
                | Some e \<Rightarrow> if offset (te_header (pe_tar e)) = aps_cursor st then Some m else None))
      in case (extension_here, member_here) of
           (Some x, None) \<Rightarrow>
             if aps_pending_local st \<noteq> None then Inl inconsistent
             else
             and_then (audit_one_pax_extension sha sn x (aps_cursor st) member_end) (\<lambda>cursor.
             and_then (overrides_from_extension x (aps_extension_index st)) (\<lambda>update.
             Inr (Inl (st\<lparr>aps_cursor := cursor,
               aps_globals := (case xe_kind x of ExtGlobal \<Rightarrow> overrides_update_from (aps_globals st) update
                               | ExtLocal \<Rightarrow> aps_globals st),
               aps_pending_local := (case xe_kind x of ExtGlobal \<Rightarrow> aps_pending_local st
                                     | ExtLocal \<Rightarrow> Some update),
               aps_extension_index := aps_extension_index st + 1\<rparr>))))
         | (None, Some m) \<Rightarrow>
             and_then (audit_one_pax_member sha sn m extensions (aps_globals st) (aps_pending_local st)
                 (aps_cursor st) member_end) (\<lambda>cursor.
             Inr (Inl (st\<lparr>aps_cursor := cursor, aps_pending_local := None,
               aps_member_index := aps_member_index st + 1\<rparr>)))
         | _ \<Rightarrow> Inl inconsistent)"

lemma audit_pax_ranges_ok:
  assumes "audit_pax_ranges fail header payload padding ok x e = Inr y"
  shows "chain x [header, payload, padding] y" "rlen header = 512" "ok" "y \<le> e"
    "rlen padding = pad_len (rlen payload)"
  using assms
  by (auto simp: audit_pax_ranges_def Let_def and_then_eq_Inr TAR_BLOCK_LEN_def pad_len_def split: if_splits)

lemma audit_pax_ranges_end: "audit_pax_ranges fail header payload padding ok x e = Inr y \<Longrightarrow> x < y \<and> y \<le> e"
  using audit_pax_ranges_ok [of fail header payload padding ok x e y] by auto

lemma audit_one_pax_extension_end:
  "audit_one_pax_extension sha sn x c e = Inr y \<Longrightarrow> c < y \<and> y \<le> e"
  by (auto simp: audit_one_pax_extension_def Let_def and_then_eq_Inr split: if_splits
      dest!: audit_pax_ranges_end)

lemma audit_one_pax_member_end:
  "audit_one_pax_member sha sn m exts g l c e = Inr y \<Longrightarrow> c < y \<and> y \<le> e"
  by (auto simp: audit_one_pax_member_def Let_def and_then_eq_Inr split: if_splits
      dest!: audit_pax_ranges_end)

lemma audit_pax_progress:
  assumes "audit_pax_step sha sn exts ms e st = Inr (Inl st')"
  shows "aps_cursor st < aps_cursor st' \<and> aps_cursor st' \<le> e"
  using assms
  by (auto simp: audit_pax_step_def Let_def and_then_eq_Inr split: if_splits option.splits
      dest!: audit_one_pax_extension_end audit_one_pax_member_end)

function audit_pax_loop ::
  "(bytes \<Rightarrow> bytes) \<Rightarrow> snapshot \<Rightarrow> pax_extension_evidence list \<Rightarrow> ir_member list \<Rightarrow> nat \<Rightarrow> audit_pax_state \<Rightarrow>
     finding + audit_pax_state"
where
  "audit_pax_loop sha sn extensions members member_end st =
     and_then (audit_pax_step sha sn extensions members member_end st) (\<lambda>next.
       case next of
         Inl st' \<Rightarrow> audit_pax_loop sha sn extensions members member_end st'
       | Inr final \<Rightarrow> Inr final)"
  by pat_completeness auto
termination
  by (relation "measure (\<lambda>(sha, sn, exts, ms, e, st). e - aps_cursor st)") (auto dest: audit_pax_progress)

declare audit_pax_loop.simps [simp del]

interpretation audit_pax: block_reader "audit_pax_step sha sn exts ms e" "audit_pax_loop sha sn exts ms e"
    aps_cursor e for sha sn exts ms e
  by unfold_locales (subst audit_pax_loop.simps, rule refl, rule audit_pax_progress)

definition audit_pax_start :: audit_pax_state where
  "audit_pax_start = \<lparr>aps_cursor = 0, aps_extension_index = 0, aps_member_index = 0,
     aps_globals = default_audit_overrides, aps_pending_local = None\<rparr>"

definition audit_pax_identity :: "snapshot \<Rightarrow> source_digest \<Rightarrow> archive_ir \<Rightarrow> finding + unit" where
  "audit_pax_identity sn digest ir =
     (case ir_format ir of
        TarPax \<Rightarrow> if ir_source_digest ir \<noteq> digest then Inl inconsistent else Inr ()
      | TarGzipPax \<Rightarrow>
          and_then (ok_or inconsistent (ir_gzip_evidence ir)) (\<lambda>gzip.
          derived_identity sn digest (gz_derived_output_len gzip) (gz_derived_output_sha256 gzip))
      | _ \<Rightarrow> Inl inconsistent)"

definition audit_tar_pax_covering ::
  "(bytes \<Rightarrow> bytes) \<Rightarrow> snapshot \<Rightarrow> source_digest \<Rightarrow> archive_ir \<Rightarrow> finding + unit"
where
  "audit_tar_pax_covering sha sn digest ir =
     (if ir_format ir \<notin> {TarPax, TarGzipPax} then Inl inconsistent
      else
      and_then (audit_pax_identity sn digest ir) (\<lambda>_.
      and_then (ok_or inconsistent (ir_tar_pax_evidence ir)) (\<lambda>archive.
      if length (pae_extensions archive) > PAX_MAX_EXTENSIONS \<or> length (pae_extensions archive) > u32_max
      then Inl inconsistent
      else
      let c = pae_tar archive in
      and_then (checked_range_end (tc_member_records c)) (\<lambda>member_end.
      and_then (checked_range_end (tc_terminator c)) (\<lambda>terminator_end.
      and_then (checked_range_end (tc_trailing_zeros c)) (\<lambda>trailing_end.
      if offset (tc_member_records c) \<noteq> 0 \<or> offset (tc_terminator c) \<noteq> member_end \<or>
         rlen (tc_terminator c) \<noteq> TAR_BLOCK_LEN * 2 \<or> offset (tc_trailing_zeros c) \<noteq> terminator_end \<or>
         trailing_end \<noteq> snapshot_len sn \<or> snapshot_len sn mod TAR_BLOCK_LEN \<noteq> 0
      then Inl inconsistent
      else
      and_then (audit_pax_loop sha sn (pae_extensions archive) (ir_members ir) member_end audit_pax_start) (\<lambda>st.
      if aps_cursor st \<noteq> member_end \<or> aps_extension_index st \<noteq> length (pae_extensions archive) \<or>
         aps_member_index st \<noteq> length (ir_members ir)
      then Inl inconsistent
      else if aps_pending_local st \<noteq> None then Inl inconsistent
      else
      and_then (audit_zero_range sn (tc_terminator c)) (\<lambda>_.
      audit_zero_range sn (tc_trailing_zeros c)))))))))"

end
