(* ===== verification/CoveringGnu.thy ===== *)
theory CoveringGnu
  imports CoveringPax
begin

text \<open>
  The covering audit of old-GNU archives, \<open>audit_tar_gnu_longname_covering\<close> of \<open>covering.rs\<close>: it
  walks the source again with its own header decoder, replays the pending carrier and compares
  carriers and members with the recorded evidence.
\<close>

definition GNU_MAX_CARRIERS :: nat where "GNU_MAX_CARRIERS = 1024"
definition GNU_MAX_PATH_BYTES :: nat where "GNU_MAX_PATH_BYTES = 8191"

record audit_gnu_state =
  ags_cursor :: nat
  ags_carrier_index :: nat
  ags_member_index :: nat
  ags_pending :: "nat option"

text \<open>The extent of the record at the cursor: payload end, padded size and record end.\<close>

definition audit_gnu_extent :: "nat \<Rightarrow> nat \<Rightarrow> nat \<Rightarrow> finding + nat \<times> nat \<times> nat" where
  "audit_gnu_extent header_end sz member_end =
     and_then (ok_or inconsistent
         (checked_add_u64 sz ((TAR_BLOCK_LEN - sz mod TAR_BLOCK_LEN) mod TAR_BLOCK_LEN))) (\<lambda>padded_size.
     and_then (ok_or inconsistent (checked_add_u64 header_end sz)) (\<lambda>payload_end.
     and_then (ok_or inconsistent (checked_add_u64 header_end padded_size)) (\<lambda>record_end.
     if record_end > member_end then Inl inconsistent else Inr (payload_end, padded_size, record_end))))"

definition audit_gnu_carrier ::
  "(bytes \<Rightarrow> bytes) \<Rightarrow> snapshot \<Rightarrow> gnu_carrier_evidence list \<Rightarrow> bytes \<Rightarrow> gnu_header_facts \<Rightarrow>
     nat \<Rightarrow> nat \<Rightarrow> nat \<Rightarrow> audit_gnu_state \<Rightarrow> finding + audit_gnu_state"
where
  "audit_gnu_carrier sha sn carriers header facts header_end payload_end padded_size st =
     (if ags_pending st \<noteq> None then Inl inconsistent
      else if gf_size facts < 2 \<or> gf_size facts > GNU_MAX_PATH_BYTES + 1 then Inl inconsistent
      else
      and_then (ok_or inconsistent (list_get carriers (ags_carrier_index st))) (\<lambda>carrier.
      if ce_header carrier \<noteq> \<lparr>offset = ags_cursor st, rlen = TAR_BLOCK_LEN\<rparr> \<or>
         ce_payload carrier \<noteq> \<lparr>offset = header_end, rlen = gf_size facts\<rparr> \<or>
         ce_path carrier \<noteq> \<lparr>offset = header_end, rlen = gf_size facts - 1\<rparr> \<or>
         ce_padding carrier \<noteq> \<lparr>offset = payload_end, rlen = padded_size - gf_size facts\<rparr> \<or>
         ce_raw_name_bytes carrier \<noteq> gf_name facts \<or> ce_mode carrier \<noteq> gf_mode facts \<or>
         ce_mtime carrier \<noteq> gf_mtime facts \<or> ce_header_checksum carrier \<noteq> gf_checksum facts \<or>
         ce_header_sha256 carrier \<noteq> hex_sha256 sha header
      then Inl inconsistent
      else
      and_then (map_err (\<lambda>_. inconsistent) (read_vec sn header_end (gf_size facts))) (\<lambda>payload.
      let path = take (length payload - 1) payload
      in if last payload \<noteq> 0 \<or> 0 \<in> set path \<or> from_utf8 path = None \<or> ce_path_bytes carrier \<noteq> path \<or>
            ce_payload_sha256 carrier \<noteq> hex_sha256 sha payload
         then Inl inconsistent
         else
         and_then (audit_zero_range sn (ce_padding carrier)) (\<lambda>_.
         if ags_carrier_index st > u32_max then Inl inconsistent
         else Inr (st\<lparr>ags_pending := Some (ags_carrier_index st),
                      ags_carrier_index := ags_carrier_index st + 1\<rparr>)))))"

text \<open>The name a member must have: of the pending carrier, else of its header.\<close>

definition audit_gnu_effective ::
  "finding \<Rightarrow> gnu_carrier_evidence list \<Rightarrow> gnu_header_facts \<Rightarrow> gnu_path_source \<Rightarrow> nat option \<Rightarrow> finding + bytes"
where
  "audit_gnu_effective fail carriers facts path_source pending =
     (case pending of
        Some index \<Rightarrow>
          if path_source \<noteq> Carrier index then Inl fail
          else ok_or inconsistent (map_option ce_path_bytes (list_get carriers index))
      | None \<Rightarrow>
          if path_source \<noteq> HeaderName \<or> from_utf8 (gf_name facts) = None then Inl fail
          else Inr (gf_name facts))"

definition strip_suffix_slash :: "rust_str \<Rightarrow> rust_str option" where
  "strip_suffix_slash s = (if s \<noteq> [] \<and> last s = slash then Some (butlast s) else None)"

text \<open>The normalization a member may carry: a directory one stripped slash and otherwise its own
  name, a file none.\<close>

definition audit_gnu_normalization :: "ir_member \<Rightarrow> bool" where
  "audit_gnu_normalization m =
     (let strip_actions =
            length (filter (\<lambda>action. action = StripDirectoryTrailingSlash) (im_normalization_actions m))
      in if im_kind m = MemberDirectory
         then (case strip_suffix_slash (im_decoded_name m) of
                 Some path \<Rightarrow> strip_actions = 1 \<and> as_bytes (im_canonical_path m) = as_bytes path
               | None \<Rightarrow> strip_actions = 0 \<and> as_bytes (im_canonical_path m) = as_bytes (im_decoded_name m))
         else strip_actions = 0)"

definition audit_gnu_member ::
  "(bytes \<Rightarrow> bytes) \<Rightarrow> snapshot \<Rightarrow> gnu_carrier_evidence list \<Rightarrow> ir_member list \<Rightarrow> bytes \<Rightarrow> gnu_header_facts \<Rightarrow>
     nat \<Rightarrow> nat \<Rightarrow> nat \<Rightarrow> audit_gnu_state \<Rightarrow> finding + audit_gnu_state"
where
  "audit_gnu_member sha sn carriers members header facts header_end payload_end padded_size st =
     and_then (ok_or inconsistent (list_get members (ags_member_index st))) (\<lambda>m.
     if member_format m \<notin> {TarGnuLongName, TarGzipGnuLongName} then Inl inconsistent
     else
     and_then (ok_or inconsistent (member_tar_gnu_evidence m)) (\<lambda>evidence.
     let fail = on_member (im_decoded_name m) inconsistent;
         tar = ge_tar evidence;
         expected_kind = (if gf_typeflag facts = 0x35 then MemberDirectory else MemberFile)
     in if im_kind m \<noteq> expected_kind \<or> im_declared_uncomp_size m \<noteq> gf_size facts \<or>
           ge_base_name_bytes evidence \<noteq> gf_name facts \<or>
           te_header tar \<noteq> \<lparr>offset = ags_cursor st, rlen = TAR_BLOCK_LEN\<rparr> \<or>
           te_payload tar \<noteq> \<lparr>offset = header_end, rlen = gf_size facts\<rparr> \<or>
           te_padding tar \<noteq> \<lparr>offset = payload_end, rlen = padded_size - gf_size facts\<rparr> \<or>
           te_mode tar \<noteq> gf_mode facts \<or> te_mtime tar \<noteq> gf_mtime facts \<or>
           te_header_checksum tar \<noteq> gf_checksum facts \<or> te_header_sha256 tar \<noteq> hex_sha256 sha header
        then Inl fail
        else
        and_then (audit_gnu_effective fail carriers facts (ge_path_source evidence) (ags_pending st))
          (\<lambda>expected_effective.
        if im_raw_name_bytes m \<noteq> expected_effective \<or> as_bytes (im_decoded_name m) \<noteq> expected_effective \<or>
           join_on slash (im_components m) \<noteq> im_canonical_path m
        then Inl fail
        else if \<not> audit_gnu_normalization m then Inl fail
        else
        and_then (map_err (on_member (im_decoded_name m)) (audit_zero_range sn (te_padding tar))) (\<lambda>_.
        Inr (st\<lparr>ags_pending := None, ags_member_index := ags_member_index st + 1\<rparr>)))))"

definition audit_gnu_step ::
  "(bytes \<Rightarrow> bytes) \<Rightarrow> snapshot \<Rightarrow> gnu_carrier_evidence list \<Rightarrow> ir_member list \<Rightarrow> nat \<Rightarrow> audit_gnu_state \<Rightarrow>
     finding + (audit_gnu_state + audit_gnu_state)"
where
  "audit_gnu_step sha sn carriers members member_end st =
     (if \<not> ags_cursor st < member_end then Inr (Inr st)
      else
      and_then (ok_or inconsistent (checked_add_u64 (ags_cursor st) TAR_BLOCK_LEN)) (\<lambda>header_end.
      if header_end > member_end then Inl inconsistent
      else
      and_then (map_err (\<lambda>_. inconsistent) (read_exact_at sn (ags_cursor st) TAR_BLOCK_LEN)) (\<lambda>header.
      and_then (audit_gnu_header header) (\<lambda>facts.
      and_then (audit_gnu_extent header_end (gf_size facts) member_end)
        (\<lambda>(payload_end, padded_size, record_end).
      and_then
        (if gf_typeflag facts = 0x4C
         then audit_gnu_carrier sha sn carriers header facts header_end payload_end padded_size st
         else audit_gnu_member sha sn carriers members header facts header_end payload_end padded_size st)
        (\<lambda>st'. Inr (Inl (st'\<lparr>ags_cursor := record_end\<rparr>))))))))"

lemma audit_gnu_extent_ok:
  "audit_gnu_extent h sz e = Inr (p, ps, r) \<Longrightarrow>
     p = h + sz \<and> ps = sz + pad_len sz \<and> r = h + sz + pad_len sz \<and> r \<le> e \<and> r \<le> u64_max"
  by (auto simp: audit_gnu_extent_def and_then_eq_Inr checked_add_u64_eq_Some TAR_BLOCK_LEN_def pad_len_def
      split: if_splits)

lemma audit_gnu_extent_complete:
  "\<lbrakk>h + sz + pad_len sz \<le> e; h + sz + pad_len sz \<le> u64_max\<rbrakk> \<Longrightarrow>
     audit_gnu_extent h sz e = Inr (h + sz, sz + pad_len sz, h + sz + pad_len sz)"
  by (simp add: audit_gnu_extent_def checked_add_u64_def TAR_BLOCK_LEN_def pad_len_def)

lemma audit_gnu_progress:
  assumes "audit_gnu_step sha sn cs ms e st = Inr (Inl st')"
  shows "ags_cursor st < ags_cursor st' \<and> ags_cursor st' \<le> e"
  using assms
  by (auto simp: audit_gnu_step_def and_then_eq_Inr checked_add_u64_eq_Some TAR_BLOCK_LEN_def
      split: if_splits dest!: audit_gnu_extent_ok)

function audit_gnu_loop ::
  "(bytes \<Rightarrow> bytes) \<Rightarrow> snapshot \<Rightarrow> gnu_carrier_evidence list \<Rightarrow> ir_member list \<Rightarrow> nat \<Rightarrow> audit_gnu_state \<Rightarrow>
     finding + audit_gnu_state"
where
  "audit_gnu_loop sha sn carriers members member_end st =
     and_then (audit_gnu_step sha sn carriers members member_end st) (\<lambda>next.
       case next of
         Inl st' \<Rightarrow> audit_gnu_loop sha sn carriers members member_end st'
       | Inr final \<Rightarrow> Inr final)"
  by pat_completeness auto
termination
  by (relation "measure (\<lambda>(sha, sn, cs, ms, e, st). e - ags_cursor st)") (auto dest: audit_gnu_progress)

declare audit_gnu_loop.simps [simp del]

interpretation audit_gnu: block_reader "audit_gnu_step sha sn cs ms e" "audit_gnu_loop sha sn cs ms e"
    ags_cursor e for sha sn cs ms e
  by unfold_locales (subst audit_gnu_loop.simps, rule refl, rule audit_gnu_progress)

definition audit_gnu_start :: audit_gnu_state where
  "audit_gnu_start = \<lparr>ags_cursor = 0, ags_carrier_index = 0, ags_member_index = 0, ags_pending = None\<rparr>"

definition audit_gnu_identity :: "snapshot \<Rightarrow> source_digest \<Rightarrow> archive_ir \<Rightarrow> finding + unit" where
  "audit_gnu_identity sn digest ir =
     (case ir_format ir of
        TarGnuLongName \<Rightarrow> if ir_source_digest ir \<noteq> digest then Inl inconsistent else Inr ()
      | TarGzipGnuLongName \<Rightarrow>
          and_then (ok_or inconsistent (ir_gzip_evidence ir)) (\<lambda>gzip.
          derived_identity sn digest (gz_derived_output_len gzip) (gz_derived_output_sha256 gzip))
      | _ \<Rightarrow> Inl inconsistent)"

definition audit_tar_gnu_longname_covering ::
  "(bytes \<Rightarrow> bytes) \<Rightarrow> snapshot \<Rightarrow> source_digest \<Rightarrow> archive_ir \<Rightarrow> finding + unit"
where
  "audit_tar_gnu_longname_covering sha sn digest ir =
     (if ir_format ir \<notin> {TarGnuLongName, TarGzipGnuLongName} then Inl inconsistent
      else
      and_then (audit_gnu_identity sn digest ir) (\<lambda>_.
      and_then (ok_or inconsistent (ir_tar_gnu_evidence ir)) (\<lambda>archive.
      if length (gae_carriers archive) > GNU_MAX_CARRIERS then Inl inconsistent
      else
      let c = gae_tar archive in
      and_then (checked_range_end (tc_member_records c)) (\<lambda>member_end.
      and_then (checked_range_end (tc_terminator c)) (\<lambda>terminator_end.
      and_then (checked_range_end (tc_trailing_zeros c)) (\<lambda>trailing_end.
      if offset (tc_member_records c) \<noteq> 0 \<or> offset (tc_terminator c) \<noteq> member_end \<or>
         rlen (tc_terminator c) \<noteq> TAR_BLOCK_LEN * 2 \<or> offset (tc_trailing_zeros c) \<noteq> terminator_end \<or>
         trailing_end \<noteq> snapshot_len sn
      then Inl inconsistent
      else
      and_then (audit_gnu_loop sha sn (gae_carriers archive) (ir_members ir) member_end audit_gnu_start) (\<lambda>st.
      if ags_pending st \<noteq> None \<or> ags_carrier_index st \<noteq> length (gae_carriers archive) \<or>
         ags_member_index st \<noteq> length (ir_members ir) \<or> ags_cursor st \<noteq> member_end
      then Inl inconsistent
      else
      and_then (map_err (\<lambda>_. inconsistent)
          (read_exact_at sn (offset (tc_terminator c)) (TAR_BLOCK_LEN * 2))) (\<lambda>terminator.
      if \<not> all_zero terminator then Inl inconsistent
      else audit_zero_range sn (tc_trailing_zeros c)))))))))"

end
