(* ===== verification/PaxAudit.thy ===== *)
theory PaxAudit
  imports CoveringPax
begin

text \<open>
  The pax audit accepts what the pax reader produced: the audit loop follows the reader loop, with
  the overrides replayed as sources only. The simulation relation fixes the finished archive, so
  that the tables the audit looks into are known.
\<close>

subsection \<open>Overrides as sources\<close>

definition sources_of :: "pax_extension_kind \<Rightarrow> override_state \<Rightarrow> pax_audit_overrides" where
  "sources_of kind os =
     \<lparr>ao_path = map_option (\<lambda>v. value_source kind (sv_extension_index v) (sv_record_index v)) (os_path os),
      ao_size = map_option (\<lambda>v. value_source kind (sv_extension_index v) (sv_record_index v)) (os_size os)\<rparr>"

definition record_typed :: "pax_record \<Rightarrow> bool" where
  "record_typed r \<longleftrightarrow>
     (case pr_value r of
        PathValue p \<Rightarrow> pr_keyword r = KeywordPath \<and> from_utf8 (pr_raw_value_bytes r) = Some p
      | SizeValue n \<Rightarrow> pr_keyword r = KeywordSize)"

lemma record_at_typed: "record_at payload po r \<Longrightarrow> record_typed r"
  by (auto simp: record_at_def record_typed_def split: pax_record_value.splits)

lemma audit_override_records_follows:
  "\<lbrakk>\<forall>r \<in> set recs. record_typed r; j + length recs \<le> u32_max + 1\<rbrakk> \<Longrightarrow>
     audit_override_records kind i j (map pax_record_evidence_of recs) (sources_of kind os) =
       Inr (sources_of kind (foldl (override_record i) os (enumerate j recs)))"
proof (induction recs arbitrary: j os)
  case (Cons r recs)
  let ?os = "override_record i os (j, r)"
  have "(case re_keyword (pax_record_evidence_of r) of
      KeywordPath \<Rightarrow> (sources_of kind os)\<lparr>ao_path := Some (value_source kind i j)\<rparr>
    | KeywordSize \<Rightarrow> (sources_of kind os)\<lparr>ao_size := Some (value_source kind i j)\<rparr>) = sources_of kind ?os"
    using Cons.prems(1)
    by (auto simp: record_typed_def override_record_def sources_of_def pax_record_evidence_of_def
        split: pax_record_value.splits)
  with Cons show ?case by simp
qed simp

lemma sources_of_default [simp]: "sources_of kind default_override = default_audit_overrides"
  by (simp add: sources_of_def default_override_def default_audit_overrides_def)

lemma sources_of_update:
  "sources_of kind (update_from a b) = overrides_update_from (sources_of kind a) (sources_of kind b)"
  by (auto simp: sources_of_def update_from_def overrides_update_from_def split: option.splits)

text \<open>Each override value stands in a record of the table it names.\<close>

definition value_in ::
  "('a \<Rightarrow> pax_record_value) \<Rightarrow> pax_extension_kind \<Rightarrow> pax_extension list \<Rightarrow> 'a state_value \<Rightarrow> bool"
where
  "value_in mk kind exts v \<longleftrightarrow>
     (\<exists>x r. list_get exts (sv_extension_index v) = Some x \<and> px_kind x = kind \<and>
        list_get (px_records x) (sv_record_index v) = Some r \<and> pr_value r = mk (sv_value v))"

definition overrides_in :: "pax_extension_kind \<Rightarrow> pax_extension list \<Rightarrow> override_state \<Rightarrow> bool" where
  "overrides_in kind exts os \<longleftrightarrow>
     (\<forall>v. os_path os = Some v \<longrightarrow> value_in PathValue kind exts v) \<and>
     (\<forall>v. os_size os = Some v \<longrightarrow> value_in SizeValue kind exts v)"

lemma list_get_mono: "list_get xs i = Some x \<Longrightarrow> list_get (xs @ ys) i = Some x"
  by (auto simp: list_get_def nth_append split: if_splits)

lemma list_get_map: "list_get (map f xs) i = map_option f (list_get xs i)"
  by (simp add: list_get_def)

lemma list_get_snoc: "list_get (xs @ [x]) (length xs) = Some x"
  by (simp add: list_get_def)

lemma overrides_in_mono: "overrides_in kind exts os \<Longrightarrow> overrides_in kind (exts @ ys) os"
  unfolding overrides_in_def value_in_def by (blast intro: list_get_mono)

lemma overrides_in_update:
  "\<lbrakk>overrides_in kind exts a; overrides_in kind exts b\<rbrakk> \<Longrightarrow> overrides_in kind exts (update_from a b)"
  by (auto simp: overrides_in_def update_from_def split: option.splits)

lemma overrides_in_default [simp]: "overrides_in kind exts default_override"
  by (simp add: overrides_in_def default_override_def)

lemma from_records_values:
  "(\<forall>v. os_path (from_records recs i) = Some v \<longrightarrow> sv_extension_index v = i \<and>
      (\<exists>r. list_get recs (sv_record_index v) = Some r \<and> pr_value r = PathValue (sv_value v))) \<and>
   (\<forall>v. os_size (from_records recs i) = Some v \<longrightarrow> sv_extension_index v = i \<and>
      (\<exists>r. list_get recs (sv_record_index v) = Some r \<and> pr_value r = SizeValue (sv_value v)))"
proof (induction recs rule: rev_induct)
  case Nil
  then show ?case by (simp add: from_records_def default_override_def)
next
  case (snoc r recs)
  have step: "from_records (recs @ [r]) i = override_record i (from_records recs i) (length recs, r)"
    by (simp add: from_records_def enumerate_snoc)
  from snoc show ?case
    unfolding step override_record_def
    by (cases "pr_value r") (auto simp: list_get_snoc dest!: list_get_mono [of recs _ _ "[r]"])
qed

lemma from_records_in:
  "\<lbrakk>list_get exts i = Some x; px_kind x = kind\<rbrakk> \<Longrightarrow> overrides_in kind exts (from_records (px_records x) i)"
  using from_records_values [of "px_records x" i] unfolding overrides_in_def value_in_def by metis

text \<open>The record a source names, in the evidence tables.\<close>

lemma pax_source_record_found:
  assumes "value_in mk kind exts v" "\<forall>x \<in> set exts. \<forall>r \<in> set (px_records x). record_typed r"
  shows "\<exists>r. pr_value r = mk (sv_value v) \<and> record_typed r \<and>
    (pr_keyword r = kw \<longrightarrow> pax_source_record (map pax_extension_evidence_of (exts @ ys))
      (value_source kind (sv_extension_index v) (sv_record_index v)) kw = Some (pax_record_evidence_of r))"
proof -
  from assms(1) obtain x r where x: "list_get exts (sv_extension_index v) = Some x" "px_kind x = kind"
    and r: "list_get (px_records x) (sv_record_index v) = Some r" "pr_value r = mk (sv_value v)"
    by (auto simp: value_in_def)
  have "x \<in> set exts" "r \<in> set (px_records x)"
    using x(1) r(1) by (auto simp: list_get_def split: if_splits)
  then have "record_typed r" using assms(2) by blast
  moreover have "pax_source_record (map pax_extension_evidence_of (exts @ ys))
      (value_source kind (sv_extension_index v) (sv_record_index v)) kw = Some (pax_record_evidence_of r)"
    if "pr_keyword r = kw"
    using that x(2) list_get_mono [OF x(1), of ys] r(1) unfolding list_get_map pax_source_record_def Let_def
    by (cases kind) (simp_all add: list_get_map value_source_def pax_extension_evidence_of_def
        pax_record_evidence_of_def)
  ultimately show ?thesis using r(2) by blast
qed

subsection \<open>Effective values\<close>

lemma resolve_path_expected:
  assumes "resolve_path raw g p = Inr (name, src)"
  shows "src = expected_source (Option.bind (map_option (sources_of ExtLocal) p) ao_path)
    (ao_path (sources_of ExtGlobal g))"
  using assms
  by (cases p) (auto simp: resolve_path_def expected_source_def sources_of_def value_source_def and_then_eq_Inr
      split: option.splits prod.splits)

lemma resolve_size_expected:
  assumes "resolve_size sz g p = (n, src)"
  shows "src = expected_source (Option.bind (map_option (sources_of ExtLocal) p) ao_size)
    (ao_size (sources_of ExtGlobal g))"
  using assms
  by (cases p) (auto simp: resolve_size_def expected_source_def sources_of_def value_source_def
      split: option.splits)

lemma path_source_value:
  assumes "value_in PathValue kind exts v" "\<forall>x \<in> set exts. \<forall>r \<in> set (px_records x). record_typed r"
  shows "\<exists>r. pax_source_record (map pax_extension_evidence_of (exts @ ys))
      (value_source kind (sv_extension_index v) (sv_record_index v)) KeywordPath = Some r \<and>
    re_raw_value_bytes r = as_bytes (sv_value v)"
proof -
  from pax_source_record_found [OF assms, of KeywordPath ys]
  obtain r where r: "pr_value r = PathValue (sv_value v)" "record_typed r"
    "pr_keyword r = KeywordPath \<longrightarrow> pax_source_record (map pax_extension_evidence_of (exts @ ys))
      (value_source kind (sv_extension_index v) (sv_record_index v)) KeywordPath = Some (pax_record_evidence_of r)"
    by blast
  then have "pr_keyword r = KeywordPath" "from_utf8 (pr_raw_value_bytes r) = Some (sv_value v)"
    by (simp_all add: record_typed_def)
  with r(3) from_utf8_as_bytes show ?thesis by (auto simp: pax_record_evidence_of_def)
qed

lemma size_source_value:
  assumes "value_in SizeValue kind exts v" "\<forall>x \<in> set exts. \<forall>r \<in> set (px_records x). record_typed r"
  shows "\<exists>r. pax_source_record (map pax_extension_evidence_of (exts @ ys))
      (value_source kind (sv_extension_index v) (sv_record_index v)) KeywordSize = Some r \<and>
    re_parsed_size r = Some (sv_value v)"
proof -
  from pax_source_record_found [OF assms, of KeywordSize ys]
  obtain r where r: "pr_value r = SizeValue (sv_value v)" "record_typed r"
    "pr_keyword r = KeywordSize \<longrightarrow> pax_source_record (map pax_extension_evidence_of (exts @ ys))
      (value_source kind (sv_extension_index v) (sv_record_index v)) KeywordSize = Some (pax_record_evidence_of r)"
    by blast
  then have "pr_keyword r = KeywordSize" by (simp add: record_typed_def)
  with r show ?thesis by (auto simp: pax_record_evidence_of_def)
qed

definition env_recorded :: "pax_extension list \<Rightarrow> override_state \<Rightarrow> override_state option \<Rightarrow> bool" where
  "env_recorded exts g p \<longleftrightarrow> overrides_in ExtGlobal exts g \<and>
     (\<forall>l. p = Some l \<longrightarrow> overrides_in ExtLocal exts l) \<and>
     (\<forall>x \<in> set exts. \<forall>r \<in> set (px_records x). record_typed r)"

lemma value_in_decoded:
  assumes "value_in PathValue kind exts v" "\<forall>x \<in> set exts. \<forall>r \<in> set (px_records x). record_typed r"
  shows "\<exists>bs. from_utf8 bs = Some (sv_value v)"
  using pax_source_record_found [OF assms] by (fastforce simp: record_typed_def)

lemma resolve_path_decoded:
  assumes "resolve_path raw g p = Inr (name, src)" "env_recorded exts g p"
  shows "from_utf8 (as_bytes name) = Some name"
proof -
  have "\<exists>bs. from_utf8 bs = Some name"
    using assms value_in_decoded
    by (cases p) (auto simp: env_recorded_def overrides_in_def resolve_path_def and_then_eq_Inr
        split: option.splits prod.splits)
  then show ?thesis using from_utf8_as_bytes by auto
qed

lemma effective_path_follows:
  assumes "resolve_path raw g p = Inr (name, src)" "env_recorded exts g p"
  shows "(case src of
      SrcUstar \<Rightarrow> Inr raw
    | src \<Rightarrow> and_then (ok_or fail (pax_source_record (map pax_extension_evidence_of (exts @ ys)) src KeywordPath))
        (\<lambda>r. Inr (re_raw_value_bytes r))) = Inr (as_bytes name)"
proof -
  from assms(2) have typed: "\<forall>x \<in> set exts. \<forall>r \<in> set (px_records x). record_typed r"
    and g: "\<And>v. os_path g = Some v \<Longrightarrow> value_in PathValue ExtGlobal exts v"
    and l: "\<And>l v. p = Some l \<Longrightarrow> os_path l = Some v \<Longrightarrow> value_in PathValue ExtLocal exts v"
    by (simp_all add: env_recorded_def overrides_in_def)
  from assms(1) consider
    (local) l v where "p = Some l" "os_path l = Some v" "name = sv_value v"
      "src = value_source ExtLocal (sv_extension_index v) (sv_record_index v)"
  | (global) v where "os_path g = Some v" "name = sv_value v"
      "src = value_source ExtGlobal (sv_extension_index v) (sv_record_index v)"
  | (base) "src = SrcUstar" "from_utf8 raw = Some name"
    by (cases p) (auto simp: resolve_path_def value_source_def and_then_eq_Inr split: option.splits prod.splits)
  then show ?thesis
  proof cases
    case local
    with path_source_value [OF l [OF local(1,2)] typed, of ys] show ?thesis by (auto simp: value_source_def)
  next
    case global
    with path_source_value [OF g [OF global(1)] typed, of ys] show ?thesis by (auto simp: value_source_def)
  next
    case base
    with from_utf8_as_bytes show ?thesis by auto
  qed
qed

lemma effective_size_follows:
  assumes "resolve_size sz g p = (n, src)" "env_recorded exts g p"
  shows "(case src of
      SrcUstar \<Rightarrow> Inr sz
    | src \<Rightarrow> ok_or fail (Option.bind
        (pax_source_record (map pax_extension_evidence_of (exts @ ys)) src KeywordSize) re_parsed_size)) = Inr n"
proof -
  from assms(2) have typed: "\<forall>x \<in> set exts. \<forall>r \<in> set (px_records x). record_typed r"
    and g: "\<And>v. os_size g = Some v \<Longrightarrow> value_in SizeValue ExtGlobal exts v"
    and l: "\<And>l v. p = Some l \<Longrightarrow> os_size l = Some v \<Longrightarrow> value_in SizeValue ExtLocal exts v"
    by (simp_all add: env_recorded_def overrides_in_def)
  from assms(1) consider
    (local) l v where "p = Some l" "os_size l = Some v" "n = sv_value v"
      "src = value_source ExtLocal (sv_extension_index v) (sv_record_index v)"
  | (global) v where "os_size g = Some v" "n = sv_value v"
      "src = value_source ExtGlobal (sv_extension_index v) (sv_record_index v)"
  | (base) "src = SrcUstar" "n = sz"
    by (cases p) (auto simp: resolve_size_def value_source_def split: option.splits)
  then show ?thesis
  proof cases
    case local
    with size_source_value [OF l [OF local(1,2)] typed, of ys] show ?thesis by (auto simp: value_source_def)
  next
    case global
    with size_source_value [OF g [OF global(1)] typed, of ys] show ?thesis by (auto simp: value_source_def)
  qed simp
qed

subsection \<open>Records in the source\<close>

lemma audit_pax_ranges_complete:
  assumes "chain x [header, payload, padding] y" "rlen header = 512" "rlen padding = pad_len (rlen payload)"
    "ok" "y \<le> e" "y \<le> u64_max" "x mod 512 = 0"
  shows "audit_pax_ranges fail header payload padding ok x e = Inr y \<and> y mod 512 = 0"
proof -
  from assms(1,2) have r: "offset header = x" "offset payload = x + 512"
    "offset padding = x + 512 + rlen payload" "y = x + 512 + rlen payload + rlen padding" by auto
  have "512 dvd rlen payload + pad_len (rlen payload)" by (rule pad_len_dvd)
  then have "512 dvd y" using assms(3,7) r by (simp add: dvd_eq_mod_eq_0 [symmetric] add.assoc)
  then have dvd: "y mod 512 = 0" by simp
  have "offset header + rlen header \<le> u64_max" "offset payload + rlen payload \<le> u64_max"
    "offset padding + rlen padding \<le> u64_max" using r assms(2,6) by simp_all
  then have "checked_range_end header = Inr (x + 512)" "checked_range_end payload = Inr (x + 512 + rlen payload)"
    "checked_range_end padding = Inr y" using r assms(2) by simp_all
  with r assms dvd show ?thesis
    by (simp add: audit_pax_ranges_def Let_def TAR_BLOCK_LEN_def pad_len_def [symmetric])
qed

lemma pax_kind_typeflag:
  assumes "pax_kind header = Inr k"
  shows "k = GlobalExtension \<Longrightarrow> header ! 156 = 0x67" "k = LocalExtension \<Longrightarrow> header ! 156 = 0x78"
    "k = DirectoryKind \<Longrightarrow> header ! 156 = 0x35" "k = FileKind \<Longrightarrow> header ! 156 \<in> {0, 0x30}"
  using assms by (auto simp: pax_kind_def Let_def split: if_splits)

lemma read_header_memory:
  assumes "reads_ok sn" "snapshot_ok sn" "rlen r = 512" "offset r + 512 \<le> snapshot_len sn"
  shows "read_exact_at sn (offset r) TAR_BLOCK_LEN = Inr (range_bytes sn r)" "length (range_bytes sn r) = 512"
  using assms by (simp_all add: read_exact_at_memory in_bounds_def TAR_BLOCK_LEN_def range_bytes_def snapshot_ok_def)

lemma audit_extension_follows:
  assumes mem: "reads_ok sn" "snapshot_ok sn"
    and at: "pax_extension_at sha sn x" and ch: "chain c (extension_ranges x) y"
    and h: "rlen (px_header x) = 512" and y: "y \<le> e" "y \<le> snapshot_len sn" and c: "c mod 512 = 0"
  shows "audit_one_pax_extension sha sn (pax_extension_evidence_of x) c e = Inr y \<and> y mod 512 = 0"
proof -
  let ?header = "range_bytes sn (px_header x)" and ?e = "pax_extension_evidence_of x"
  have u: "y \<le> u64_max" using y(2) mem(2) by (simp add: snapshot_ok_def)
  from ch h have r: "offset (px_header x) = c" "offset (px_payload x) = c + 512"
    "c + 512 + rlen (px_payload x) + rlen (px_padding x) = y"
    "offset (px_padding x) = c + 512 + rlen (px_payload x)"
    by (auto simp: extension_ranges_def)
  note hd = read_header_memory [OF mem h, unfolded r(1)]
  have ph: "pax_parse_header sha ?header (offset (px_header x)) =
      Inr \<lparr>ph_raw_name = px_raw_name x, ph_size = rlen (px_payload x), ph_mode = px_mode x,
            ph_mtime = px_mtime x, ph_header_checksum = px_header_checksum x,
            ph_header_sha256 = px_header_sha256 x, ph_header = px_header x,
            ph_kind = (case px_kind x of ExtGlobal \<Rightarrow> GlobalExtension | ExtLocal \<Rightarrow> LocalExtension)\<rparr>"
    using at by (simp add: pax_extension_at_def)
  have le: "c + 512 \<le> snapshot_len sn" using r y(2) by simp
  note facts = audit_pax_header_complete [OF ph hd(2) [OF le]] and ok = pax_parse_header_ok [OF ph]
  have tf: "?header ! 156 = (case px_kind x of ExtGlobal \<Rightarrow> 0x67 | ExtLocal \<Rightarrow> 0x78)"
    using pax_kind_typeflag [OF ok(4)] by (cases "px_kind x") simp_all
  have rng: "audit_pax_ranges inconsistent (px_header x) (px_payload x) (px_padding x)
      (rlen (px_payload x) \<le> PAX_MAX_EXTENSION_BYTES) c e = Inr y \<and> y mod 512 = 0"
    using ch at h y u c
    by (intro audit_pax_ranges_complete) (simp_all add: extension_ranges_def pax_extension_at_def
        PAX_MAX_EXTENSION_BYTES_def)
  have "read_vec sn (offset (px_payload x)) (rlen (px_payload x)) = Inr (range_bytes sn (px_payload x))"
    using mem(1) r y(2) u by (simp add: read_vec_eq read_exact_at_memory in_bounds_def range_bytes_def)
  moreover have "audit_pax_records (range_bytes sn (px_payload x)) (offset (px_payload x))
      (map pax_record_evidence_of (px_records x)) = Inr ()"
    using at by (intro audit_pax_records_complete) (simp add: pax_extension_at_def)
  moreover have "audit_zero_range sn (px_padding x) = Inr ()"
    using at r y(2) by (intro audit_zero_range_memory [OF mem]) (simp add: zero_at_def pax_extension_at_def)
  moreover have "pax_header_name_matches ?header (px_raw_name x)"
    using pax_header_name_complete [OF ok(5)] by simp
  moreover have "hex_sha256 sha ?header = px_header_sha256 x"
    "hex_sha256 sha (range_bytes sn (px_payload x)) = px_payload_sha256 x"
    using ok(9) at by (simp_all add: pax_extension_at_def)
  ultimately show ?thesis
    using rng hd(1) [OF le] facts tf r(1)
    by (simp add: audit_one_pax_extension_def pax_extension_evidence_of_def Let_def)
qed

lemma from_pax_planned_sel [simp]:
  fixes w m parts acts
  defines "im \<equiv> from_tar_pax_planned_for_format w m parts acts"
  shows "im_decoded_name im = pm_name m" "im_raw_name_bytes im = as_bytes (pm_name m)"
    "im_declared_uncomp_size im = pm_size m" "im_kind im = kind_of (pm_is_dir m)"
    "member_format im \<in> {TarPax, TarGzipPax}"
    "member_tar_pax_evidence im = Some \<lparr>pe_tar = \<lparr>te_header = pm_header m, te_payload = pm_payload m,
        te_padding = pm_padding m, te_mode = pm_mode m, te_mtime = pm_mtime m,
        te_header_checksum = pm_header_checksum m, te_header_sha256 = pm_header_sha256 m\<rparr>,
        pe_base_name_bytes = pm_raw_name m, pe_base_size = pm_header_size m,
        pe_path_source = pm_path_source m, pe_size_source = pm_size_source m\<rparr>"
  unfolding im_def
  by (cases w; simp add: from_tar_pax_planned_for_format_def member_tar_pax_evidence_def member_format_def Let_def)+

lemma resolve_path_valid:
  "resolve_path raw g p = Inr (name, src) \<Longrightarrow> validate_effective_path name = Inr ()"
  by (auto simp: resolve_path_def and_then_eq_Inr split: prod.splits)

lemma audit_member_follows:
  assumes mem: "reads_ok sn" "snapshot_ok sn"
    and at: "pax_member_at sha sn m" and ch: "chain c (member_ranges m) y"
    and h: "pm_header m = \<lparr>offset = c, rlen = 512\<rparr>" and y: "y \<le> e" "y \<le> snapshot_len sn" and c: "c mod 512 = 0"
    and path: "resolve_path (pm_raw_name m) g p = Inr (pm_name m, pm_path_source m)"
    and size: "resolve_size (pm_header_size m) g p = (pm_size m, pm_size_source m)"
    and env: "env_recorded exts g p"
  shows "audit_one_pax_member sha sn (from_tar_pax_planned_for_format w m parts acts)
      (map pax_extension_evidence_of (exts @ ys)) (sources_of ExtGlobal g)
      (map_option (sources_of ExtLocal) p) c e = Inr y \<and> y mod 512 = 0"
proof -
  let ?header = "range_bytes sn (pm_header m)" and ?im = "from_tar_pax_planned_for_format w m parts acts"
  have u: "y \<le> u64_max" using y(2) mem(2) by (simp add: snapshot_ok_def)
  from ch h have r: "offset (pm_payload m) = c + 512"
    "c + 512 + rlen (pm_payload m) + rlen (pm_padding m) = y"
    "offset (pm_padding m) = c + 512 + rlen (pm_payload m)"
    by (auto simp: member_ranges_def)
  have le: "offset (pm_header m) + 512 \<le> snapshot_len sn" using r y(2) h by simp
  note hd = read_header_memory [OF mem _ le]
  have ph: "pax_parse_header sha ?header (offset (pm_header m)) =
      Inr \<lparr>ph_raw_name = pm_raw_name m, ph_size = pm_header_size m, ph_mode = pm_mode m,
            ph_mtime = pm_mtime m, ph_header_checksum = pm_header_checksum m,
            ph_header_sha256 = pm_header_sha256 m, ph_header = pm_header m,
            ph_kind = (if pm_is_dir m then DirectoryKind else FileKind)\<rparr>"
    using at by (simp add: pax_member_at_def)
  have len: "length ?header = 512" using hd(2) h by simp
  note facts = audit_pax_header_complete [OF ph len] and ok = pax_parse_header_ok [OF ph]
  have tf: "?header ! 156 \<in> {0, 0x30, 0x35}" "?header ! 156 = 0x35 \<longleftrightarrow> pm_is_dir m"
    using pax_kind_typeflag [OF ok(4)] by (cases "pm_is_dir m"; auto)+
  have rng: "audit_pax_ranges (on_member (pm_name m) inconsistent) (pm_header m) (pm_payload m) (pm_padding m)
      (rlen (pm_payload m) = pm_size m) c e = Inr y \<and> y mod 512 = 0"
    using ch at h y u c
    by (intro audit_pax_ranges_complete) (simp_all add: member_ranges_def pax_member_at_def)
  have dir: "kind_of (pm_is_dir m) = MemberDirectory \<longrightarrow> pm_size m = 0"
    using at by (simp add: pax_member_at_def kind_of_def)
  have eff: "audit_effective fail (map pax_extension_evidence_of (exts @ ys))
      \<lparr>pe_tar = t, pe_base_name_bytes = pm_raw_name m, pe_base_size = pm_header_size m,
        pe_path_source = pm_path_source m, pe_size_source = pm_size_source m\<rparr> =
      Inr (as_bytes (pm_name m), pm_size m)" for fail t
    unfolding audit_effective_def tar_pax_member_evidence.simps
      effective_path_follows [OF path env] effective_size_follows [OF size env] by simp
  have valid: "as_bytes (pm_name m) \<noteq> []" "length (as_bytes (pm_name m)) \<le> 8191" "0 \<notin> set (as_bytes (pm_name m))"
    using resolve_path_valid [OF path]
    by (auto simp: validate_effective_path_def validate_path_bytes_def MAX_EFFECTIVE_PATH_BYTES_def split: if_splits)
  note scalar = resolve_path_decoded [OF path env]
  have z: "audit_zero_range sn (pm_padding m) = Inr ()"
    using at r y(2) by (intro audit_zero_range_memory [OF mem]) (simp add: zero_at_def pax_member_at_def)
  have src: "pm_path_source m = expected_source (Option.bind (map_option (sources_of ExtLocal) p) ao_path)
      (ao_path (sources_of ExtGlobal g))"
    "pm_size_source m = expected_source (Option.bind (map_option (sources_of ExtLocal) p) ao_size)
      (ao_size (sources_of ExtGlobal g))"
    using resolve_path_expected [OF path] resolve_size_expected [OF size] by simp_all
  have name: "pax_header_name_matches ?header (pm_raw_name m)" "hex_sha256 sha ?header = pm_header_sha256 m"
    using pax_header_name_complete [OF ok(5)] ok(9) by simp_all
  have head: "read_exact_at sn (offset (pm_header m)) TAR_BLOCK_LEN = Inr ?header" using hd(1) h by simp
  have kind: "(?header ! 156 = 0x35) = (kind_of (pm_is_dir m) = MemberDirectory)"
    using tf(2) by (simp add: kind_of_def)
  show ?thesis
    unfolding audit_one_pax_member_def Let_def from_pax_planned_sel ok_or_simps and_then_simps
      tar_pax_member_evidence.simps tar_member_evidence.simps head map_err_simps facts eff
    using from_pax_planned_sel(5) [of w m parts acts] rng tf(1) kind dir name src valid scalar z
    by (simp add: PAX_MAX_EFFECTIVE_PATH_BYTES_def del: insert_iff)
qed

subsection \<open>The simulation\<close>

lemma pax_loop_members:
  "pax_loop sha sn mf mm st = Inr a \<Longrightarrow>
     \<exists>ms. pa_members a = ps_members st @ ms \<and> (\<forall>m \<in> set ms. ps_offset st \<le> offset (pm_header m))"
proof (rule pax.loop_appends)
  fix s s'
  assume "pax_step sha sn mf mm s = Inr (Inl s')"
  then show "\<exists>ms. ps_members s' = ps_members s @ ms \<and> (\<forall>m \<in> set ms. ps_offset s \<le> offset (pm_header m))"
    by (cases rule: pax_step_cases) auto
qed (auto elim!: pax_step_stop dest: pax_finish_ok(6))

lemma pax_loop_extensions:
  "pax_loop sha sn mf mm st = Inr a \<Longrightarrow>
     \<exists>xs. pa_extensions a = ps_extensions st @ xs \<and> (\<forall>x \<in> set xs. ps_offset st \<le> offset (px_header x))"
proof (rule pax.loop_appends)
  fix s s'
  assume "pax_step sha sn mf mm s = Inr (Inl s')"
  then show "\<exists>xs. ps_extensions s' = ps_extensions s @ xs \<and> (\<forall>x \<in> set xs. ps_offset s \<le> offset (px_header x))"
    by (cases rule: pax_step_cases) (auto simp: extension_ranges_def)
qed (auto elim!: pax_step_stop dest: pax_finish_ok(6))

lemma pax_loop_offset:
  assumes "pax_loop sha sn mf mm st = Inr a"
  shows "ps_offset st \<le> offset (pa_terminator a)"
proof -
  from assms order_refl have "\<exists>t. ps_offset st \<le> ps_offset t \<and> pax_step sha sn mf mm t = Inr (Inr a)"
    by (rule pax.loop_invariant) (auto dest: pax_progress)
  then show ?thesis by (auto elim!: pax_step_stop dest: pax_finish_ok(6))
qed

lemma planned_get:
  assumes "map fst ps = xs @ ys"
  shows "list_get (map f ps) (length xs) =
    (case ys of [] \<Rightarrow> None | y # _ \<Rightarrow> Some (f (y, snd (ps ! length xs))))"
proof (cases ys)
  case Nil
  then have "length ps = length xs" using arg_cong [OF assms, of length] by simp
  then show ?thesis by (simp add: Nil list_get_def)
next
  case (Cons y ys')
  then have len: "length xs < length ps" using arg_cong [OF assms, of length] by simp
  have "fst (ps ! length xs) = y"
    using nth_map [OF len, of fst] assms Cons by (simp add: nth_append)
  then have "ps ! length xs = (y, snd (ps ! length xs))" by (metis prod.collapse)
  with len Cons show ?thesis by (simp add: list_get_def)
qed

definition pax_states_agree ::
  "(bytes \<Rightarrow> bytes) \<Rightarrow> snapshot \<Rightarrow> nat \<Rightarrow> nat \<Rightarrow> pax_archive \<Rightarrow> pax_state \<Rightarrow> audit_pax_state \<Rightarrow> bool"
where
  "pax_states_agree sha sn mf mm a st t \<longleftrightarrow>
     pax_loop sha sn mf mm st = Inr a \<and> ps_offset st mod 512 = 0 \<and>
     env_recorded (ps_extensions st) (ps_globals st) (ps_pending_local st) \<and>
     length (ps_extensions st) \<le> 1024 \<and>
     t = \<lparr>aps_cursor = ps_offset st, aps_extension_index = length (ps_extensions st),
          aps_member_index = length (ps_members st), aps_globals = sources_of ExtGlobal (ps_globals st),
          aps_pending_local = map_option (sources_of ExtLocal) (ps_pending_local st)\<rparr>"

lemma env_recorded_extension:
  assumes env: "env_recorded exts g None" and typed: "\<forall>r \<in> set (px_records x). record_typed r"
  shows "env_recorded (exts @ [x])
    (case px_kind x of ExtGlobal \<Rightarrow> update_from g (from_records (px_records x) (length exts)) | ExtLocal \<Rightarrow> g)
    (case px_kind x of ExtGlobal \<Rightarrow> None | ExtLocal \<Rightarrow> Some (from_records (px_records x) (length exts)))"
proof -
  have "overrides_in (px_kind x) (exts @ [x]) (from_records (px_records x) (length exts))"
    by (rule from_records_in [OF list_get_snoc refl])
  then show ?thesis
    using env typed overrides_in_mono [of ExtGlobal exts g "[x]"] overrides_in_update
    by (cases "px_kind x") (auto simp: env_recorded_def)
qed

lemma env_recorded_member: "env_recorded exts g p \<Longrightarrow> env_recorded exts g None"
  by (simp add: env_recorded_def)

lemma extension_typed:
  assumes "pax_extension_at sha sn x"
  shows "\<forall>r \<in> set (px_records x). record_typed r" "length (px_records x) \<le> 2"
proof -
  from assms have "records_spec (range_bytes sn (px_payload x)) (offset (px_payload x)) (px_records x)"
    by (intro parse_records_spec) (simp add: pax_extension_at_def)
  then show "\<forall>r \<in> set (px_records x). record_typed r" "length (px_records x) \<le> 2"
    by (auto simp: records_spec_def record_at_typed)
qed

lemma overrides_from_extension_follows:
  assumes "pax_extension_at sha sn x" "i \<le> 1024"
  shows "overrides_from_extension (pax_extension_evidence_of x) i =
    Inr (sources_of (px_kind x) (from_records (px_records x) i))"
  using audit_override_records_follows [of "px_records x" 0 "px_kind x" i default_override]
    extension_typed [OF assms(1)] assms(2)
  by (simp add: overrides_from_extension_def pax_extension_evidence_of_def from_records_def u32_max_def)

abbreviation pax_ir_members :: "bool \<Rightarrow> (pax_member \<times> rust_str list \<times> normalization_action list) list \<Rightarrow> ir_member list" where
  "pax_ir_members w ps \<equiv> map (\<lambda>(m, parts, acts). from_tar_pax_planned_for_format w m parts acts) ps"

lemma audit_pax_step_extension:
  assumes mem: "reads_ok sn" "snapshot_ok sn" and ps: "map fst ps = pa_members a"
    and R: "pax_states_agree sha sn mf mm a st t" and l: "pax_loop sha sn mf mm st' = Inr a"
    and x: "pax_extension_at sha sn x" "chain (ps_offset st) (extension_ranges x) (ps_offset st')"
      "ps_offset st' \<le> snapshot_len sn" "ps_pending_local st = None" "length (ps_extensions st) < 1024"
      "rlen (px_header x) = 512" "ps_members st' = ps_members st" "ps_extensions st' = ps_extensions st @ [x]"
      "ps_globals st' = (case px_kind x of
         ExtGlobal \<Rightarrow> update_from (ps_globals st) (from_records (px_records x) (length (ps_extensions st)))
       | ExtLocal \<Rightarrow> ps_globals st)"
      "ps_pending_local st' = (case px_kind x of ExtGlobal \<Rightarrow> None
       | ExtLocal \<Rightarrow> Some (from_records (px_records x) (length (ps_extensions st))))"
  shows "\<exists>t'. audit_pax_step sha sn (map pax_extension_evidence_of (pa_extensions a)) (pax_ir_members w ps)
      (offset (pa_terminator a)) t = Inr (Inl t') \<and> pax_states_agree sha sn mf mm a st' t'"
proof -
  let ?c = "ps_offset st" and ?y = "ps_offset st'" and ?e = "offset (pa_terminator a)"
  let ?n = "length (ps_extensions st)" and ?k = "length (ps_members st)"
  have off: "offset (px_header x) = ?c" "?c < ?y" using x(2,6) by (auto simp: extension_ranges_def)
  have e: "?y \<le> ?e" by (rule pax_loop_offset [OF l])
  from R have c: "?c mod 512 = 0" and env: "env_recorded (ps_extensions st) (ps_globals st) None"
    by (simp_all add: pax_states_agree_def x(4))
  note ext = audit_extension_follows [OF mem x(1,2,6) e x(3) c]
  from pax_loop_extensions [OF l] x(8) obtain xs where "pa_extensions a = ps_extensions st @ x # xs" by auto
  then have get: "list_get (map pax_extension_evidence_of (pa_extensions a)) ?n = Some (pax_extension_evidence_of x)"
    using list_get_append [of pax_extension_evidence_of] by metis
  from pax_loop_members [OF l] x(7) obtain ms where "pa_members a = ps_members st @ ms"
    and later: "\<forall>m \<in> set ms. ?y \<le> offset (pm_header m)" by auto
  with ps have mget: "list_get (pax_ir_members w ps) ?k =
    (case ms of [] \<Rightarrow> None | m # _ \<Rightarrow> Some (case (m, snd (ps ! ?k)) of (m, parts, acts) \<Rightarrow>
       from_tar_pax_planned_for_format w m parts acts))"
    by (intro planned_get) simp
  have none: "(case list_get (pax_ir_members w ps) ?k of None \<Rightarrow> None
            | Some m \<Rightarrow> (case member_tar_pax_evidence m of None \<Rightarrow> None
                | Some e \<Rightarrow> if offset (te_header (pe_tar e)) = ?c then Some m else None)) = None"
    using later off(2) unfolding mget by (cases ms) (auto simp: case_prod_beta)
  have upd: "overrides_from_extension (pax_extension_evidence_of x) ?n =
      Inr (sources_of (px_kind x) (from_records (px_records x) ?n))"
    using overrides_from_extension_follows [OF x(1), of ?n] x(5) by simp
  have ev: "offset (xe_header (pax_extension_evidence_of x)) = ?c" "xe_kind (pax_extension_evidence_of x) = px_kind x"
    using off(1) by (simp_all add: pax_extension_evidence_of_def)
  have t: "t = \<lparr>aps_cursor = ?c, aps_extension_index = ?n, aps_member_index = ?k,
      aps_globals = sources_of ExtGlobal (ps_globals st), aps_pending_local = None\<rparr>"
    using R x(4) by (simp add: pax_states_agree_def)
  define t' where "t' = \<lparr>aps_cursor = ?y, aps_extension_index = ?n + 1, aps_member_index = ?k,
      aps_globals = sources_of ExtGlobal (ps_globals st'),
      aps_pending_local = map_option (sources_of ExtLocal) (ps_pending_local st')\<rparr>"
  have "audit_pax_step sha sn (map pax_extension_evidence_of (pa_extensions a)) (pax_ir_members w ps) ?e t = Inr (Inl t')"
    unfolding audit_pax_step_def Let_def t audit_pax_state.simps get none option.case ev
    using off(2) e ext upd
    by (cases "px_kind x") (simp_all add: t'_def x(9,10) ev sources_of_update)
  moreover have "pax_states_agree sha sn mf mm a st' t'"
    using l ext env_recorded_extension [OF env extension_typed(1) [OF x(1)]] x(5)
    by (simp add: pax_states_agree_def t'_def x(7-10))
  ultimately show ?thesis by blast
qed

lemma audit_pax_step_member:
  assumes mem: "reads_ok sn" "snapshot_ok sn" and ps: "map fst ps = pa_members a"
    and R: "pax_states_agree sha sn mf mm a st t" and l: "pax_loop sha sn mf mm st' = Inr a"
    and m: "pax_member_at sha sn m" "chain (ps_offset st) (member_ranges m) (ps_offset st')"
      "ps_offset st' \<le> snapshot_len sn" "pm_header m = \<lparr>offset = ps_offset st, rlen = 512\<rparr>"
      "ps_members st' = ps_members st @ [m]" "ps_extensions st' = ps_extensions st"
      "ps_globals st' = ps_globals st" "ps_pending_local st' = None"
      "resolve_path (pm_raw_name m) (ps_globals st) (ps_pending_local st) = Inr (pm_name m, pm_path_source m)"
      "resolve_size (pm_header_size m) (ps_globals st) (ps_pending_local st) = (pm_size m, pm_size_source m)"
  shows "\<exists>t'. audit_pax_step sha sn (map pax_extension_evidence_of (pa_extensions a)) (pax_ir_members w ps)
      (offset (pa_terminator a)) t = Inr (Inl t') \<and> pax_states_agree sha sn mf mm a st' t'"
proof -
  let ?c = "ps_offset st" and ?y = "ps_offset st'" and ?e = "offset (pa_terminator a)"
  let ?n = "length (ps_extensions st)" and ?k = "length (ps_members st)"
  have lt: "?c < ?y" using m(2,4) by (auto simp: member_ranges_def)
  have e: "?y \<le> ?e" by (rule pax_loop_offset [OF l])
  from R have c: "?c mod 512 = 0"
    and env: "env_recorded (ps_extensions st) (ps_globals st) (ps_pending_local st)"
    by (simp_all add: pax_states_agree_def)
  from pax_loop_extensions [OF l] m(6) obtain xs where xs: "pa_extensions a = ps_extensions st @ xs"
    and later: "\<forall>x \<in> set xs. ?y \<le> offset (px_header x)" by auto
  have none: "(case list_get (map pax_extension_evidence_of (pa_extensions a)) ?n of None \<Rightarrow> None
            | Some x \<Rightarrow> if offset (xe_header x) = ?c then Some x else None) = None"
    using later lt unfolding xs
    by (cases xs) (auto simp: list_get_def nth_append pax_extension_evidence_of_def)
  from pax_loop_members [OF l] m(5) obtain ms where ms: "pa_members a = ps_members st @ m # ms" by auto
  obtain parts acts where pa: "snd (ps ! ?k) = (parts, acts)" by fastforce
  have mget: "list_get (pax_ir_members w ps) ?k = Some (from_tar_pax_planned_for_format w m parts acts)"
    using planned_get [OF ps [unfolded ms],
        of "\<lambda>(m, parts, acts). from_tar_pax_planned_for_format w m parts acts"] pa by simp
  note mem' = audit_member_follows [OF mem m(1,2,4) e m(3) c m(9,10) env, of w parts acts xs, folded xs]
  have t: "t = \<lparr>aps_cursor = ?c, aps_extension_index = ?n, aps_member_index = ?k,
      aps_globals = sources_of ExtGlobal (ps_globals st),
      aps_pending_local = map_option (sources_of ExtLocal) (ps_pending_local st)\<rparr>"
    using R by (simp add: pax_states_agree_def)
  define t' where "t' = \<lparr>aps_cursor = ?y, aps_extension_index = ?n, aps_member_index = ?k + 1,
      aps_globals = sources_of ExtGlobal (ps_globals st), aps_pending_local = None\<rparr>"
  have "audit_pax_step sha sn (map pax_extension_evidence_of (pa_extensions a)) (pax_ir_members w ps) ?e t = Inr (Inl t')"
    unfolding audit_pax_step_def Let_def t audit_pax_state.simps mget none option.case from_pax_planned_sel
      tar_pax_member_evidence.simps tar_member_evidence.simps m(4) byte_range.simps
    using lt e mem' by (simp add: t'_def)
  moreover have "pax_states_agree sha sn mf mm a st' t'"
    using l mem' env_recorded_member [OF env] R by (simp add: pax_states_agree_def t'_def m(5-8))
  ultimately show ?thesis by blast
qed

interpretation pax_audit: reader_simulation "pax_step sha sn mf mm" "pax_loop sha sn mf mm" ps_offset
    "snapshot_len sn" "audit_pax_step sha sn (map pax_extension_evidence_of (pa_extensions a)) (pax_ir_members w ps)
      (offset (pa_terminator a))"
    "audit_pax_loop sha sn (map pax_extension_evidence_of (pa_extensions a)) (pax_ir_members w ps)
      (offset (pa_terminator a))" aps_cursor "offset (pa_terminator a)"
    "\<lambda>st t. reads_ok sn \<and> snapshot_ok sn \<and> map fst ps = pa_members a \<and> pax_states_agree sha sn mf mm a st t"
    "\<lambda>r t. aps_cursor t = offset (pa_terminator a) \<and> aps_extension_index t = length (pa_extensions a) \<and>
      aps_member_index t = length (pa_members a) \<and> aps_pending_local t = None"
  for sha sn mf mm a w ps
proof
  fix s t s'
  assume R: "reads_ok sn \<and> snapshot_ok sn \<and> map fst ps = pa_members a \<and> pax_states_agree sha sn mf mm a s t"
    and step: "pax_step sha sn mf mm s = Inr (Inl s')"
  have l: "pax_loop sha sn mf mm s' = Inr a"
    using R pax.loop_simps(2) [OF step] by (simp add: pax_states_agree_def)
  from step have "\<exists>t'. audit_pax_step sha sn (map pax_extension_evidence_of (pa_extensions a)) (pax_ir_members w ps)
      (offset (pa_terminator a)) t = Inr (Inl t') \<and> pax_states_agree sha sn mf mm a s' t'"
  proof (cases rule: pax_step_cases)
    case (extension x)
    show ?thesis
      by (rule audit_pax_step_extension [of sn ps a sha mf mm s t s' x]) (use R l extension in simp_all)
  next
    case (member m)
    show ?thesis
      by (rule audit_pax_step_member [of sn ps a sha mf mm s t s' m]) (use R l member in simp_all)
  qed
  with R show "\<exists>t'. audit_pax_step sha sn (map pax_extension_evidence_of (pa_extensions a)) (pax_ir_members w ps)
      (offset (pa_terminator a)) t = Inr (Inl t') \<and> reads_ok sn \<and> snapshot_ok sn \<and>
      map fst ps = pa_members a \<and> pax_states_agree sha sn mf mm a s' t'" by blast
next
  fix s t r
  assume R: "reads_ok sn \<and> snapshot_ok sn \<and> map fst ps = pa_members a \<and> pax_states_agree sha sn mf mm a s t"
    and step: "pax_step sha sn mf mm s = Inr (Inr r)"
  then have "r = a" by (auto simp: pax_states_agree_def pax.loop_simps(3))
  with step have f: "pax_finish sn mm s = Inr a" by (auto elim: pax_step_stop)
  have "a = \<lparr>pa_members = ps_members s, pa_extensions = ps_extensions s,
          pa_member_records = \<lparr>offset = 0, rlen = ps_offset s\<rparr>,
          pa_terminator = \<lparr>offset = ps_offset s, rlen = 1024\<rparr>,
          pa_trailing_zeros = \<lparr>offset = ps_offset s + 1024, rlen = snapshot_len sn - (ps_offset s + 1024)\<rparr>,
          pa_metadata_bytes = ps_metadata_bytes s + 1024\<rparr>"
    by (rule pax_finish_ok(6) [OF f])
  then have sel: "pa_members a = ps_members s" "pa_extensions a = ps_extensions s"
    "offset (pa_terminator a) = ps_offset s" by simp_all
  from R have t: "t = \<lparr>aps_cursor = ps_offset s, aps_extension_index = length (ps_extensions s),
          aps_member_index = length (ps_members s), aps_globals = sources_of ExtGlobal (ps_globals s),
          aps_pending_local = None\<rparr>"
    using pax_finish_ok(1) [OF f] by (simp add: pax_states_agree_def)
  show "\<exists>q. audit_pax_step sha sn (map pax_extension_evidence_of (pa_extensions a)) (pax_ir_members w ps)
      (offset (pa_terminator a)) t = Inr (Inr q) \<and> aps_cursor q = offset (pa_terminator a) \<and>
      aps_extension_index q = length (pa_extensions a) \<and> aps_member_index q = length (pa_members a) \<and>
      aps_pending_local q = None"
    by (simp add: audit_pax_step_def t sel)
qed

definition pax_covering_of :: "pax_archive \<Rightarrow> tar_pax_archive_evidence" where
  "pax_covering_of a = \<lparr>pae_tar = \<lparr>tc_member_records = pa_member_records a, tc_terminator = pa_terminator a,
       tc_trailing_zeros = pa_trailing_zeros a\<rparr>,
     pae_extensions = map pax_extension_evidence_of (pa_extensions a)\<rparr>"

lemma pax_audit_complete:
  assumes mem: "reads_ok sn" "snapshot_ok sn" and parse: "parse_pax_portable_v1 sha sn mf mm = Inr a"
    and ps: "map fst ps = pa_members a" and f: "ir_format ir \<in> {TarPax, TarGzipPax}"
    and i: "audit_pax_identity sn digest ir = Inr ()"
    and ev: "ir_tar_pax_evidence ir = Some (pax_covering_of a)" and ms: "ir_members ir = pax_ir_members w ps"
  shows "audit_tar_pax_covering sha sn digest ir = Inr ()"
proof -
  from parse obtain st header where inv: "pax_inv sha sn mf mm st"
    and h: "read_header_block sn (ps_offset st) = Inr header" "is_zero_block header"
    and fin: "pax_finish sn mm st = Inr a" and len: "snapshot_len sn mod 512 = 0"
    by (rule pax_parse_final)
  note fin = pax_finish_ok [OF fin]
  have n: "length (pa_extensions a) \<le> 1024" using inv fin(6) by (simp add: pax_inv_def)
  have z0: "all_zero (slice_of (ps_offset st) (ps_offset st + 512) (content sn))"
    using h read_header_block_ok [OF h(1)] by (simp add: is_zero_block_def)
  have z: "zero_at sn (pa_terminator a)" "zero_at sn (pa_trailing_zeros a)"
    using z0 fin(2,3,4) all_zero_slice_append [of "ps_offset st" "ps_offset st + 512" "ps_offset st + 1024" "content sn"]
    by (simp_all add: fin(6) zero_at_def range_bytes_def)
  have l: "pax_loop sha sn mf mm pax_start = Inr a"
    using parse by (auto simp: parse_pax_portable_v1_def split: if_splits)
  have "reads_ok sn \<and> snapshot_ok sn \<and> map fst ps = pa_members a \<and>
      pax_states_agree sha sn mf mm a pax_start audit_pax_start"
    using mem ps l by (simp add: pax_states_agree_def pax_start_def audit_pax_start_def env_recorded_def)
  from pax_audit.simulates [OF this l, of w] obtain q where
    q: "audit_pax_loop sha sn (map pax_extension_evidence_of (pa_extensions a)) (pax_ir_members w ps)
      (offset (pa_terminator a)) audit_pax_start = Inr q" "aps_cursor q = offset (pa_terminator a)"
      "aps_extension_index q = length (pa_extensions a)" "aps_member_index q = length (pa_members a)"
      "aps_pending_local q = None" by blast
  have u: "snapshot_len sn \<le> u64_max" using mem(2) by (simp add: snapshot_ok_def)
  have lp: "length ps = length (pa_members a)" using arg_cong [OF ps, of length] by simp
  have r: "checked_range_end (pa_member_records a) = Inr (ps_offset st)"
    "checked_range_end (pa_terminator a) = Inr (ps_offset st + 1024)"
    "checked_range_end (pa_trailing_zeros a) = Inr (snapshot_len sn)"
    "offset (pa_member_records a) = 0" "offset (pa_terminator a) = ps_offset st" "rlen (pa_terminator a) = 1024"
    "offset (pa_trailing_zeros a) = ps_offset st + 1024"
    using fin(2) u by (simp_all add: fin(6))
  have "\<not> (length (map pax_extension_evidence_of (pa_extensions a)) > PAX_MAX_EXTENSIONS \<or>
      length (map pax_extension_evidence_of (pa_extensions a)) > u32_max)"
    using n by (simp add: PAX_MAX_EXTENSIONS_def u32_max_def)
  moreover have "\<not> ir_format ir \<notin> {TarPax, TarGzipPax}" using f by blast
  moreover have "audit_zero_range sn (pa_terminator a) = Inr ()" "audit_zero_range sn (pa_trailing_zeros a) = Inr ()"
    by (intro audit_zero_range_memory [OF mem] z)+
  ultimately show ?thesis
    unfolding audit_tar_pax_covering_def i ev ms
    using q r len lp by (simp add: pax_covering_of_def Let_def TAR_BLOCK_LEN_def)
qed

end
