(* ===== verification/GnuAudit.thy ===== *)
theory GnuAudit
  imports CoveringGnu PaxAudit TarPlan
begin

text \<open>
  The old-GNU audit follows the old-GNU reader: step by step it reads the same headers, replays the
  same pending carrier and reaches the same end. Whether it accepts is then decided by the
  normalization recorded with the directories alone.
\<close>

lemma audit_gnu_header_complete:
  assumes "gnu_parse_header sha header offs = Inr h" and len: "length header = 512"
  shows "audit_gnu_header header = Inr \<lparr>gf_name = gh_raw_name h, gf_typeflag = header ! 156, gf_size = gh_size h,
    gf_mode = gh_mode h, gf_mtime = gh_mtime h, gf_checksum = gh_header_checksum h\<rparr>"
proof -
  from assms obtain n where n: "parse_header_numbers header = Inr n" "gh_size h = hn_size n"
      "gh_mode h = hn_mode n" "gh_mtime h = hn_mtime n"
    and d: "check_devices_and_owners header = Inr ()"
    and z: "all_zero (slice_of 345 512 header)" "all_zero (slice_of 157 257 header)"
    and nm: "parse_text_field (slice_of 0 100 header) False = Inr (gh_raw_name h)"
    and k: "gnu_kind header = Inr (gh_kind h)" "gh_kind h = GnuDirectory \<longrightarrow> gh_size h = 0"
    and s: "gh_header_checksum h = header_checksum_of header"
    by (auto simp: gnu_parse_header_def and_then_eq_Inr split: if_splits dest!: verify_checksum_ok)
  note h = gnu_parse_header_ok [OF assms(1)]
  have tf: "header ! 156 \<in> {0, 0x30, 0x35, 0x4C}" "header ! 156 = 0x35 \<longrightarrow> gh_size h = 0"
    using k by (auto simp: gnu_kind_def Let_def split: if_splits)
  have "drop 345 header = slice_of 345 512 header" "take 100 header = slice_of 0 100 header"
    using len by (simp_all add: slice_of_def)
  then show ?thesis
    using z n header_numbers_audit [OF n(1)] devices_owners_audit [OF d] h(1) nm s tf
      audit_checksum_complete [OF h(2) len]
    by (simp add: audit_gnu_header_def pax_text_field_agrees)
qed

lemma gnu_header_digest: "gnu_parse_header sha header offs = Inr h \<Longrightarrow> gh_header_sha256 h = hex_sha256 sha header"
  by (auto simp: gnu_parse_header_def and_then_eq_Inr split: if_splits)

lemma gnu_kind_typeflag:
  assumes "gnu_kind header = Inr k"
  shows "header ! 156 = 0x4C \<longleftrightarrow> k = GnuLongName" "header ! 156 = 0x35 \<longleftrightarrow> k = GnuDirectory"
  using assms by (auto simp: gnu_kind_def Let_def split: if_splits)

lemma audit_carrier_follows:
  assumes mem: "reads_ok sn" "snapshot_ok sn"
    and at: "gnu_carrier_at sha sn c" and ch: "chain (ags_cursor t) (carrier_ranges c) y"
    and y: "y \<le> snapshot_len sn" and h: "gc_header c = \<lparr>offset = ags_cursor t, rlen = 512\<rparr>"
    and p: "ags_pending t = None" "ags_carrier_index t \<le> 1024"
    and get: "list_get carriers (ags_carrier_index t) = Some (gnu_carrier_evidence_of c)"
  shows "audit_gnu_carrier sha sn carriers (range_bytes sn (gc_header c))
      \<lparr>gf_name = gc_raw_name c, gf_typeflag = tf, gf_size = rlen (gc_payload c), gf_mode = gc_mode c,
        gf_mtime = gc_mtime c, gf_checksum = gc_header_checksum c\<rparr>
      (ags_cursor t + 512) (ags_cursor t + 512 + rlen (gc_payload c))
      (rlen (gc_payload c) + pad_len (rlen (gc_payload c))) t =
    Inr (t\<lparr>ags_pending := Some (ags_carrier_index t), ags_carrier_index := ags_carrier_index t + 1\<rparr>)"
proof -
  let ?n = "rlen (gc_payload c)" and ?o = "ags_cursor t"
  from ch h have r: "gc_payload c = \<lparr>offset = ?o + 512, rlen = ?n\<rparr>"
    "gc_padding c = \<lparr>offset = ?o + 512 + ?n, rlen = pad_len ?n\<rparr>" "y = ?o + 512 + ?n + pad_len ?n"
    using at by (cases "gc_payload c"; cases "gc_padding c"; auto simp: carrier_ranges_def gnu_carrier_at_def)+
  from at have a: "gnu_parse_header sha (range_bytes sn (gc_header c)) (offset (gc_header c)) =
       Inr \<lparr>gh_raw_name = gc_raw_name c, gh_size = ?n, gh_mode = gc_mode c,
            gh_mtime = gc_mtime c, gh_header_checksum = gc_header_checksum c,
            gh_header_sha256 = gc_header_sha256 c, gh_header = gc_header c, gh_kind = GnuLongName\<rparr>"
    and z: "all_zero (range_bytes sn (gc_padding c))"
    and pay: "gc_payload_sha256 c = hex_sha256 sha (range_bytes sn (gc_payload c))"
      "range_bytes sn (gc_payload c) = gc_path_bytes c @ [0]"
      "gc_path c = \<lparr>offset = offset (gc_payload c), rlen = length (gc_path_bytes c)\<rparr>"
      "gc_path_bytes c \<noteq> []" "length (gc_path_bytes c) \<le> 8191" "0 \<notin> set (gc_path_bytes c)"
      "from_utf8 (gc_path_bytes c) \<noteq> None"
    unfolding gnu_carrier_at_def by blast+
  have len: "length (range_bytes sn (gc_payload c)) = ?n"
    using y r(3) by (subst (2) r(1), subst r(1)) (simp add: range_bytes_def)
  then have n: "?n = length (gc_path_bytes c) + 1" using pay(2) by simp
  have path: "gc_path c = \<lparr>offset = ?o + 512, rlen = ?n - 1\<rparr>"
    using pay(3) n by (simp add: arg_cong [OF r(1), of offset])
  have two: "\<not> (?n < 2 \<or> ?n > 8192)" using n pay(4,5) by (cases "gc_path_bytes c") simp_all
  have rd: "read_vec sn (?o + 512) ?n = Inr (gc_path_bytes c @ [0])"
    using mem y r(3) pay(2) unfolding range_bytes_def
    by (simp add: read_vec_eq read_exact_at_memory in_bounds_def snapshot_ok_def arg_cong [OF r(1), of offset])
  have az: "audit_zero_range sn (gc_padding c) = Inr ()"
    using z y r(3) by (intro audit_zero_range_memory [OF mem]) (simp add: zero_at_def arg_cong [OF r(2), of offset]
        arg_cong [OF r(2), of rlen])
  have sha: "gc_header_sha256 c = hex_sha256 sha (range_bytes sn (gc_header c))"
    using gnu_header_digest [OF a] by simp
  have ev: "ce_header (gnu_carrier_evidence_of c) = \<lparr>offset = ?o, rlen = 512\<rparr>"
    "ce_payload (gnu_carrier_evidence_of c) = \<lparr>offset = ?o + 512, rlen = ?n\<rparr>"
    "ce_path (gnu_carrier_evidence_of c) = \<lparr>offset = ?o + 512, rlen = ?n - 1\<rparr>"
    "ce_padding (gnu_carrier_evidence_of c) = \<lparr>offset = ?o + 512 + ?n, rlen = pad_len ?n\<rparr>"
    using h r(1,2) path by (simp_all add: gnu_carrier_evidence_of_def)
  have ev': "ce_raw_name_bytes (gnu_carrier_evidence_of c) = gc_raw_name c"
    "ce_mode (gnu_carrier_evidence_of c) = gc_mode c" "ce_mtime (gnu_carrier_evidence_of c) = gc_mtime c"
    "ce_header_checksum (gnu_carrier_evidence_of c) = gc_header_checksum c"
    "ce_header_sha256 (gnu_carrier_evidence_of c) = gc_header_sha256 c"
    "ce_path_bytes (gnu_carrier_evidence_of c) = gc_path_bytes c"
    "ce_payload_sha256 (gnu_carrier_evidence_of c) = hex_sha256 sha (gc_path_bytes c @ [0])"
    using pay(1,2) by (simp_all add: gnu_carrier_evidence_of_def)
  show ?thesis
    unfolding audit_gnu_carrier_def gnu_header_facts.simps get ok_or_simps and_then_simps ev ev' rd map_err_simps
    using p two pay sha az
    by (simp add: r(2) [symmetric] TAR_BLOCK_LEN_def GNU_MAX_PATH_BYTES_def u32_max_def Let_def)
qed

lemma from_gnu_planned_sel [simp]:
  fixes w m parts acts
  defines "im \<equiv> from_tar_gnu_longname_planned_for_format w m parts acts"
  shows "im_decoded_name im = gm_name m" "im_raw_name_bytes im = as_bytes (gm_name m)"
    "im_declared_uncomp_size im = gm_size m" "im_kind im = kind_of (gm_is_dir m)"
    "im_components im = parts" "im_canonical_path im = join_on slash parts" "im_normalization_actions im = acts"
    "member_format im \<in> {TarGnuLongName, TarGzipGnuLongName}"
    "member_tar_gnu_evidence im = Some \<lparr>ge_tar = \<lparr>te_header = gm_header m, te_payload = gm_payload m,
        te_padding = gm_padding m, te_mode = gm_mode m, te_mtime = gm_mtime m,
        te_header_checksum = gm_header_checksum m, te_header_sha256 = gm_header_sha256 m\<rparr>,
        ge_base_name_bytes = gm_raw_name m,
        ge_path_source = (case gm_carrier_index m of None \<Rightarrow> HeaderName | Some i \<Rightarrow> Carrier i)\<rparr>"
  unfolding im_def
  by (cases w; simp add: from_tar_gnu_longname_planned_for_format_def member_tar_gnu_evidence_def member_format_def Let_def)+

text \<open>The pending carrier of the reader is the one the audit has pending, and it names the member.\<close>

definition pending_recorded :: "gnu_carrier list \<Rightarrow> pending_long_name option \<Rightarrow> bool" where
  "pending_recorded carriers pending \<longleftrightarrow>
     (case pending of None \<Rightarrow> True
      | Some p \<Rightarrow> pn_carrier_index p < length carriers \<and>
          from_utf8 (gc_path_bytes (carriers ! pn_carrier_index p)) = Some (pn_path p))"

lemma audit_effective_follows:
  assumes pend: "pending_recorded carriers pending"
    and nm: "case pending of
       None \<Rightarrow> decode_effective_path (gm_raw_name m) = Inr (gm_name m) \<and> gm_carrier_index m = None
     | Some p \<Rightarrow> gm_name m = pn_path p \<and> gm_carrier_index m = Some (pn_carrier_index p)"
    and name: "gf_name facts = gm_raw_name m"
  shows "audit_gnu_effective fail (map gnu_carrier_evidence_of (carriers @ cs)) facts
      (case gm_carrier_index m of None \<Rightarrow> HeaderName | Some i \<Rightarrow> Carrier i)
      (map_option pn_carrier_index pending) = Inr (as_bytes (gm_name m))"
proof (cases pending)
  case None
  with nm have "from_utf8 (gm_raw_name m) = Some (gm_name m)" "gm_carrier_index m = None"
    by (auto dest: decode_effective_path_ok)
  then show ?thesis
    using None name from_utf8_as_bytes [of "gm_raw_name m" "gm_name m"] by (simp add: audit_gnu_effective_def)
next
  case (Some p)
  with pend nm have p: "pn_carrier_index p < length carriers" "gm_carrier_index m = Some (pn_carrier_index p)"
    "from_utf8 (gc_path_bytes (carriers ! pn_carrier_index p)) = Some (gm_name m)"
    by (simp_all add: pending_recorded_def)
  then have "list_get (map gnu_carrier_evidence_of (carriers @ cs)) (pn_carrier_index p) =
      Some (gnu_carrier_evidence_of (carriers ! pn_carrier_index p))"
    by (simp add: list_get_def nth_append)
  with p Some from_utf8_as_bytes [OF p(3)] show ?thesis
    by (simp add: audit_gnu_effective_def gnu_carrier_evidence_of_def)
qed

lemma audit_gnu_member_follows:
  assumes mem: "reads_ok sn" "snapshot_ok sn"
    and at: "gnu_member_at sha sn m" and ch: "chain (ags_cursor t) (gnu_member_ranges m) y"
    and y: "y \<le> snapshot_len sn" and h: "gm_header m = \<lparr>offset = ags_cursor t, rlen = 512\<rparr>"
    and get: "list_get members (ags_member_index t) = Some (from_tar_gnu_longname_planned_for_format w m parts acts)"
    and tf: "tf = 0x35 \<longleftrightarrow> gm_is_dir m"
    and eff: "audit_gnu_effective (on_member (gm_name m) inconsistent) carriers
      \<lparr>gf_name = gm_raw_name m, gf_typeflag = tf, gf_size = gm_size m, gf_mode = gm_mode m,
        gf_mtime = gm_mtime m, gf_checksum = gm_header_checksum m\<rparr>
      (case gm_carrier_index m of None \<Rightarrow> HeaderName | Some i \<Rightarrow> Carrier i) (ags_pending t) =
      Inr (as_bytes (gm_name m))"
    and norm: "audit_gnu_normalization (from_tar_gnu_longname_planned_for_format w m parts acts)"
  shows "audit_gnu_member sha sn carriers members (range_bytes sn (gm_header m))
      \<lparr>gf_name = gm_raw_name m, gf_typeflag = tf, gf_size = gm_size m, gf_mode = gm_mode m,
        gf_mtime = gm_mtime m, gf_checksum = gm_header_checksum m\<rparr>
      (ags_cursor t + 512) (ags_cursor t + 512 + gm_size m) (gm_size m + pad_len (gm_size m)) t =
    Inr (t\<lparr>ags_pending := None, ags_member_index := ags_member_index t + 1\<rparr>)"
proof -
  let ?n = "gm_size m" and ?o = "ags_cursor t"
  from ch h at have r: "gm_payload m = \<lparr>offset = ?o + 512, rlen = ?n\<rparr>"
    "gm_padding m = \<lparr>offset = ?o + 512 + ?n, rlen = pad_len ?n\<rparr>" "y = ?o + 512 + ?n + pad_len ?n"
    by (cases "gm_payload m"; cases "gm_padding m"; auto simp: gnu_member_ranges_def gnu_member_at_def)+
  have az: "audit_zero_range sn \<lparr>offset = ?o + 512 + ?n, rlen = pad_len ?n\<rparr> = Inr ()"
    using at y r(2,3) by (intro audit_zero_range_memory [OF mem]) (simp add: zero_at_def gnu_member_at_def)
  have sha: "gm_header_sha256 m = hex_sha256 sha (range_bytes sn (gm_header m))"
    using at gnu_header_digest [of sha "range_bytes sn (gm_header m)" "offset (gm_header m)"]
    by (force simp: gnu_member_at_def)
  have k: "(if tf = 0x35 then MemberDirectory else MemberFile) = kind_of (gm_is_dir m)"
    using tf by (simp add: kind_of_def)
  show ?thesis
    unfolding audit_gnu_member_def get ok_or_simps and_then_simps from_gnu_planned_sel Let_def
      tar_gnu_member_evidence.simps tar_member_evidence.simps gnu_header_facts.simps k eff r(1,2)
    using from_gnu_planned_sel(8) [of w m parts acts] norm az sha h
    by (simp add: TAR_BLOCK_LEN_def del: insert_iff)
qed

subsection \<open>The simulation\<close>

lemma gnu_loop_members:
  "gnu_loop sha sn mf mm st = Inr a \<Longrightarrow>
     \<exists>ms. ga_members a = gs_members st @ ms \<and> (\<forall>m \<in> set ms. gs_offset st \<le> offset (gm_header m))"
proof (rule gnu.loop_appends)
  fix s s'
  assume "gnu_step sha sn mf mm s = Inr (Inl s')"
  then show "\<exists>ms. gs_members s' = gs_members s @ ms \<and> (\<forall>m \<in> set ms. gs_offset s \<le> offset (gm_header m))"
    by (cases rule: gnu_step_cases) auto
qed (auto elim!: gnu_step_stop dest: gnu_finish_ok(6))

lemma gnu_loop_carriers:
  "gnu_loop sha sn mf mm st = Inr a \<Longrightarrow>
     \<exists>cs. ga_carriers a = gs_carriers st @ cs \<and> (\<forall>c \<in> set cs. gs_offset st \<le> offset (gc_header c))"
proof (rule gnu.loop_appends)
  fix s s'
  assume "gnu_step sha sn mf mm s = Inr (Inl s')"
  then show "\<exists>cs. gs_carriers s' = gs_carriers s @ cs \<and> (\<forall>c \<in> set cs. gs_offset s \<le> offset (gc_header c))"
    by (cases rule: gnu_step_cases) auto
qed (auto elim!: gnu_step_stop dest: gnu_finish_ok(6))

lemma gnu_loop_offset:
  assumes "gnu_loop sha sn mf mm st = Inr a"
  shows "gs_offset st \<le> offset (ga_terminator a)"
proof -
  from assms order_refl have "\<exists>t. gs_offset st \<le> gs_offset t \<and> gnu_step sha sn mf mm t = Inr (Inr a)"
    by (rule gnu.loop_invariant) (auto dest: gnu_progress)
  then show ?thesis by (auto elim!: gnu_step_stop dest: gnu_finish_ok(6))
qed

abbreviation gnu_ir_member :: "bool \<Rightarrow> gnu_member \<times> rust_str list \<times> normalization_action list \<Rightarrow> ir_member" where
  "gnu_ir_member w \<equiv> \<lambda>(m, parts, acts). from_tar_gnu_longname_planned_for_format w m parts acts"

definition gnu_states_agree ::
  "(bytes \<Rightarrow> bytes) \<Rightarrow> snapshot \<Rightarrow> nat \<Rightarrow> nat \<Rightarrow> gnu_archive \<Rightarrow> gnu_state \<Rightarrow> audit_gnu_state \<Rightarrow> bool"
where
  "gnu_states_agree sha sn mf mm a st t \<longleftrightarrow>
     gnu_loop sha sn mf mm st = Inr a \<and> pending_recorded (gs_carriers st) (gs_pending st) \<and>
     length (gs_carriers st) \<le> 1024 \<and>
     t = \<lparr>ags_cursor = gs_offset st, ags_carrier_index = length (gs_carriers st),
          ags_member_index = length (gs_members st), ags_pending = map_option pn_carrier_index (gs_pending st)\<rparr>"

text \<open>The header part of an audit step, at a header the reader decoded.\<close>

lemma audit_gnu_step_header:
  assumes mem: "reads_ok sn" "snapshot_ok sn"
    and h: "r = \<lparr>offset = ags_cursor t, rlen = 512\<rparr>"
      "gnu_parse_header sha (range_bytes sn r) (ags_cursor t) = Inr h"
    and y: "y = ags_cursor t + 512 + gh_size h + pad_len (gh_size h)" "y \<le> e" "y \<le> snapshot_len sn"
    and body: "(if gh_kind h = GnuLongName
       then audit_gnu_carrier sha sn cs (range_bytes sn r)
       else audit_gnu_member sha sn cs ms (range_bytes sn r))
        \<lparr>gf_name = gh_raw_name h, gf_typeflag = range_bytes sn r ! 156, gf_size = gh_size h,
          gf_mode = gh_mode h, gf_mtime = gh_mtime h, gf_checksum = gh_header_checksum h\<rparr>
        (ags_cursor t + 512) (ags_cursor t + 512 + gh_size h) (gh_size h + pad_len (gh_size h)) t = Inr t'"
  shows "audit_gnu_step sha sn cs ms e t = Inr (Inl (t'\<lparr>ags_cursor := y\<rparr>))"
proof -
  have le: "offset r + 512 \<le> snapshot_len sn" "rlen r = 512" using h(1) y by simp_all
  note hd = read_header_memory [OF mem le(2,1)]
  note facts = audit_gnu_header_complete [OF h(2) hd(2)]
  have u: "y \<le> u64_max" using y(3) mem(2) by (simp add: snapshot_ok_def)
  have ext: "audit_gnu_extent (ags_cursor t + 512) (gh_size h) e =
      Inr (ags_cursor t + 512 + gh_size h, gh_size h + pad_len (gh_size h), y)"
    using audit_gnu_extent_complete [of "ags_cursor t + 512" "gh_size h" e] y u by simp
  have add: "checked_add_u64 (ags_cursor t) TAR_BLOCK_LEN = Some (ags_cursor t + 512)"
    using y u by (simp add: checked_add_u64_eq_Some TAR_BLOCK_LEN_def)
  have rd: "read_exact_at sn (ags_cursor t) TAR_BLOCK_LEN = Inr (range_bytes sn r)" using hd(1) h(1) by simp
  have kind: "range_bytes sn r ! 156 = 0x4C \<longleftrightarrow> gh_kind h = GnuLongName"
    using gnu_kind_typeflag(1) [OF gnu_parse_header_ok(4) [OF h(2)]] .
  show ?thesis
    unfolding audit_gnu_step_def add ok_or_simps and_then_simps rd map_err_simps facts gnu_header_facts.simps
      ext prod.case kind
    using body y by (cases "gh_kind h = GnuLongName") simp_all
qed

lemma audit_gnu_step_carrier:
  assumes mem: "reads_ok sn" "snapshot_ok sn"
    and R: "gnu_states_agree sha sn mf mm a st t" and l: "gnu_loop sha sn mf mm st' = Inr a"
    and c: "gnu_carrier_at sha sn c" "chain (gs_offset st) (carrier_ranges c) (gs_offset st')"
      "gs_offset st' \<le> snapshot_len sn" "gs_pending st = None" "length (gs_carriers st) < 1024"
      "gc_header c = \<lparr>offset = gs_offset st, rlen = 512\<rparr>" "gs_members st' = gs_members st"
      "gs_carriers st' = gs_carriers st @ [c]"
      "gs_pending st' = Some \<lparr>pn_path = the (from_utf8 (gc_path_bytes c)),
         pn_carrier_index = length (gs_carriers st)\<rparr>"
  shows "\<exists>t'. audit_gnu_step sha sn (map gnu_carrier_evidence_of (ga_carriers a)) ms
      (offset (ga_terminator a)) t = Inr (Inl t') \<and> gnu_states_agree sha sn mf mm a st' t'"
proof -
  let ?y = "gs_offset st'"
  have e: "?y \<le> offset (ga_terminator a)" by (rule gnu_loop_offset [OF l])
  from R have t: "t = \<lparr>ags_cursor = gs_offset st, ags_carrier_index = length (gs_carriers st),
      ags_member_index = length (gs_members st), ags_pending = None\<rparr>"
    by (simp add: gnu_states_agree_def c(4))
  from gnu_loop_carriers [OF l] c(8) obtain cs where "ga_carriers a = gs_carriers st @ c # cs" by auto
  then have get: "list_get (map gnu_carrier_evidence_of (ga_carriers a)) (ags_carrier_index t) =
      Some (gnu_carrier_evidence_of c)"
    using list_get_append [of gnu_carrier_evidence_of] t by simp
  have cur: "ags_cursor t = gs_offset st" using t by simp
  from c(1) have ph: "gnu_parse_header sha (range_bytes sn (gc_header c)) (ags_cursor t) =
       Inr \<lparr>gh_raw_name = gc_raw_name c, gh_size = rlen (gc_payload c), gh_mode = gc_mode c,
            gh_mtime = gc_mtime c, gh_header_checksum = gc_header_checksum c,
            gh_header_sha256 = gc_header_sha256 c, gh_header = gc_header c, gh_kind = GnuLongName\<rparr>"
    by (simp add: gnu_carrier_at_def c(6) cur)
  have y: "?y = ags_cursor t + 512 + rlen (gc_payload c) + pad_len (rlen (gc_payload c))"
    using c(1,2,6) cur by (auto simp: carrier_ranges_def gnu_carrier_at_def)
  note body = audit_carrier_follows [OF mem c(1) _ c(3) _ _ _ get, unfolded cur, OF c(2,6)]
  have "audit_gnu_step sha sn (map gnu_carrier_evidence_of (ga_carriers a)) ms (offset (ga_terminator a)) t =
      Inr (Inl (t\<lparr>ags_pending := Some (ags_carrier_index t), ags_carrier_index := ags_carrier_index t + 1,
        ags_cursor := ?y\<rparr>))"
    using audit_gnu_step_header [OF mem _ ph _ e c(3), unfolded gnu_parsed_header.simps, of
        "map gnu_carrier_evidence_of (ga_carriers a)" ms] c(5,6) y cur body t by simp
  moreover have "gnu_states_agree sha sn mf mm a st' (t\<lparr>ags_pending := Some (ags_carrier_index t),
      ags_carrier_index := ags_carrier_index t + 1, ags_cursor := ?y\<rparr>)"
    using l c(1,5) by (auto simp: gnu_states_agree_def t c(7-9) pending_recorded_def gnu_carrier_at_def)
  ultimately show ?thesis by blast
qed

lemma audit_gnu_step_member:
  assumes mem: "reads_ok sn" "snapshot_ok sn" and ps: "map fst ps = ga_members a"
    and norm: "\<forall>p \<in> set ps. audit_gnu_normalization (gnu_ir_member w p)"
    and R: "gnu_states_agree sha sn mf mm a st t" and l: "gnu_loop sha sn mf mm st' = Inr a"
    and m: "gnu_member_at sha sn m" "chain (gs_offset st) (gnu_member_ranges m) (gs_offset st')"
      "gs_offset st' \<le> snapshot_len sn" "gm_header m = \<lparr>offset = gs_offset st, rlen = 512\<rparr>"
      "gs_members st' = gs_members st @ [m]" "gs_carriers st' = gs_carriers st" "gs_pending st' = None"
      "case gs_pending st of
         None \<Rightarrow> decode_effective_path (gm_raw_name m) = Inr (gm_name m) \<and> gm_carrier_index m = None
       | Some p \<Rightarrow> gm_name m = pn_path p \<and> gm_carrier_index m = Some (pn_carrier_index p)"
  shows "\<exists>t'. audit_gnu_step sha sn (map gnu_carrier_evidence_of (ga_carriers a)) (map (gnu_ir_member w) ps)
      (offset (ga_terminator a)) t = Inr (Inl t') \<and> gnu_states_agree sha sn mf mm a st' t'"
proof -
  let ?y = "gs_offset st'" and ?k = "length (gs_members st)"
  have e: "?y \<le> offset (ga_terminator a)" by (rule gnu_loop_offset [OF l])
  from R have t: "t = \<lparr>ags_cursor = gs_offset st, ags_carrier_index = length (gs_carriers st),
      ags_member_index = ?k, ags_pending = map_option pn_carrier_index (gs_pending st)\<rparr>"
    and pend: "pending_recorded (gs_carriers st) (gs_pending st)"
    by (simp_all add: gnu_states_agree_def)
  from gnu_loop_carriers [OF l] m(6) obtain cs where cs: "ga_carriers a = gs_carriers st @ cs" by auto
  from gnu_loop_members [OF l] m(5) obtain ms where ms: "ga_members a = gs_members st @ m # ms" by auto
  obtain parts acts where pa: "snd (ps ! ?k) = (parts, acts)" by fastforce
  have get: "list_get (map (gnu_ir_member w) ps) ?k = Some (from_tar_gnu_longname_planned_for_format w m parts acts)"
    using planned_get [OF ps [unfolded ms], of "gnu_ir_member w"] pa by simp
  have k: "?k < length ps" using arg_cong [OF ps, of length] ms by simp
  have "fst (ps ! ?k) = m" using nth_map [OF k, of fst] ps ms by (simp add: nth_append)
  with pa have "ps ! ?k = (m, parts, acts)" by (metis prod.collapse)
  with norm nth_mem [OF k] have nm: "audit_gnu_normalization (from_tar_gnu_longname_planned_for_format w m parts acts)"
    by fastforce
  have cur: "ags_cursor t = gs_offset st" using t by simp
  from m(1) have ph: "gnu_parse_header sha (range_bytes sn (gm_header m)) (ags_cursor t) =
       Inr \<lparr>gh_raw_name = gm_raw_name m, gh_size = gm_size m, gh_mode = gm_mode m,
            gh_mtime = gm_mtime m, gh_header_checksum = gm_header_checksum m,
            gh_header_sha256 = gm_header_sha256 m, gh_header = gm_header m,
            gh_kind = (if gm_is_dir m then GnuDirectory else GnuFile)\<rparr>"
    by (simp add: gnu_member_at_def m(4) cur)
  have tf: "range_bytes sn (gm_header m) ! 156 = 0x35 \<longleftrightarrow> gm_is_dir m"
    using gnu_kind_typeflag(2) [OF gnu_parse_header_ok(4) [OF ph]] by simp
  have y: "?y = ags_cursor t + 512 + gm_size m + pad_len (gm_size m)"
    using m(1,2,4) cur by (auto simp: gnu_member_ranges_def gnu_member_at_def)
  have body: "audit_gnu_member sha sn (map gnu_carrier_evidence_of (ga_carriers a)) (map (gnu_ir_member w) ps)
      (range_bytes sn (gm_header m))
      \<lparr>gf_name = gm_raw_name m, gf_typeflag = range_bytes sn (gm_header m) ! 156, gf_size = gm_size m,
        gf_mode = gm_mode m, gf_mtime = gm_mtime m, gf_checksum = gm_header_checksum m\<rparr>
      (ags_cursor t + 512) (ags_cursor t + 512 + gm_size m) (gm_size m + pad_len (gm_size m)) t =
    Inr (t\<lparr>ags_pending := None, ags_member_index := ags_member_index t + 1\<rparr>)"
    by (rule audit_gnu_member_follows [OF mem m(1) _ m(3) _ _ tf _ nm])
      (use m(2,4) cur get t audit_effective_follows [OF pend m(8), of _ _ cs] in \<open>simp_all add: cs\<close>)
  have "audit_gnu_step sha sn (map gnu_carrier_evidence_of (ga_carriers a)) (map (gnu_ir_member w) ps)
      (offset (ga_terminator a)) t =
      Inr (Inl (t\<lparr>ags_pending := None, ags_member_index := ags_member_index t + 1, ags_cursor := ?y\<rparr>))"
    using audit_gnu_step_header [OF mem _ ph _ e m(3), unfolded gnu_parsed_header.simps, of
        "map gnu_carrier_evidence_of (ga_carriers a)" "map (gnu_ir_member w) ps"] m(4) y cur body by simp
  moreover have "gnu_states_agree sha sn mf mm a st'
      (t\<lparr>ags_pending := None, ags_member_index := ags_member_index t + 1, ags_cursor := ?y\<rparr>)"
    using l R by (simp add: gnu_states_agree_def t m(5-7) pending_recorded_def)
  ultimately show ?thesis by blast
qed

interpretation gnu_audit: reader_simulation "gnu_step sha sn mf mm" "gnu_loop sha sn mf mm" gs_offset
    "snapshot_len sn" "audit_gnu_step sha sn (map gnu_carrier_evidence_of (ga_carriers a)) (map (gnu_ir_member w) ps)
      (offset (ga_terminator a))"
    "audit_gnu_loop sha sn (map gnu_carrier_evidence_of (ga_carriers a)) (map (gnu_ir_member w) ps)
      (offset (ga_terminator a))" ags_cursor "offset (ga_terminator a)"
    "\<lambda>st t. reads_ok sn \<and> snapshot_ok sn \<and> map fst ps = ga_members a \<and>
      (\<forall>p \<in> set ps. audit_gnu_normalization (gnu_ir_member w p)) \<and> gnu_states_agree sha sn mf mm a st t"
    "\<lambda>r t. ags_cursor t = offset (ga_terminator a) \<and> ags_carrier_index t = length (ga_carriers a) \<and>
      ags_member_index t = length (ga_members a) \<and> ags_pending t = None"
  for sha sn mf mm a w ps
proof
  fix s t s'
  assume R: "reads_ok sn \<and> snapshot_ok sn \<and> map fst ps = ga_members a \<and>
      (\<forall>p \<in> set ps. audit_gnu_normalization (gnu_ir_member w p)) \<and> gnu_states_agree sha sn mf mm a s t"
    and step: "gnu_step sha sn mf mm s = Inr (Inl s')"
  have l: "gnu_loop sha sn mf mm s' = Inr a"
    using R gnu.loop_simps(2) [OF step] by (simp add: gnu_states_agree_def)
  from step have "\<exists>t'. audit_gnu_step sha sn (map gnu_carrier_evidence_of (ga_carriers a)) (map (gnu_ir_member w) ps)
      (offset (ga_terminator a)) t = Inr (Inl t') \<and> gnu_states_agree sha sn mf mm a s' t'"
  proof (cases rule: gnu_step_cases)
    case (carrier c)
    show ?thesis
      by (rule audit_gnu_step_carrier [of sn sha mf mm a s t s' c]) (use R l carrier in simp_all)
  next
    case (member m)
    show ?thesis
      by (rule audit_gnu_step_member [of sn ps a w sha mf mm s t s' m]) (use R l member in simp_all)
  qed
  with R show "\<exists>t'. audit_gnu_step sha sn (map gnu_carrier_evidence_of (ga_carriers a)) (map (gnu_ir_member w) ps)
      (offset (ga_terminator a)) t = Inr (Inl t') \<and> reads_ok sn \<and> snapshot_ok sn \<and>
      map fst ps = ga_members a \<and> (\<forall>p \<in> set ps. audit_gnu_normalization (gnu_ir_member w p)) \<and>
      gnu_states_agree sha sn mf mm a s' t'" by blast
next
  fix s t r
  assume R: "reads_ok sn \<and> snapshot_ok sn \<and> map fst ps = ga_members a \<and>
      (\<forall>p \<in> set ps. audit_gnu_normalization (gnu_ir_member w p)) \<and> gnu_states_agree sha sn mf mm a s t"
    and step: "gnu_step sha sn mf mm s = Inr (Inr r)"
  then have "r = a" by (auto simp: gnu_states_agree_def gnu.loop_simps(3))
  with step have f: "gnu_finish sn mm s = Inr a" by (auto elim: gnu_step_stop)
  from gnu_finish_ok(6) [OF f] have sel: "ga_members a = gs_members s" "ga_carriers a = gs_carriers s"
    "offset (ga_terminator a) = gs_offset s" by simp_all
  from R have t: "t = \<lparr>ags_cursor = gs_offset s, ags_carrier_index = length (gs_carriers s),
          ags_member_index = length (gs_members s), ags_pending = None\<rparr>"
    using gnu_finish_ok(1) [OF f] by (simp add: gnu_states_agree_def)
  show "\<exists>q. audit_gnu_step sha sn (map gnu_carrier_evidence_of (ga_carriers a)) (map (gnu_ir_member w) ps)
      (offset (ga_terminator a)) t = Inr (Inr q) \<and> ags_cursor q = offset (ga_terminator a) \<and>
      ags_carrier_index q = length (ga_carriers a) \<and> ags_member_index q = length (ga_members a) \<and>
      ags_pending q = None"
    by (simp add: audit_gnu_step_def t sel)
qed

definition gnu_covering_of :: "gnu_archive \<Rightarrow> tar_gnu_archive_evidence" where
  "gnu_covering_of a = \<lparr>gae_tar = \<lparr>tc_member_records = ga_member_records a, tc_terminator = ga_terminator a,
       tc_trailing_zeros = ga_trailing_zeros a\<rparr>,
     gae_carriers = map gnu_carrier_evidence_of (ga_carriers a)\<rparr>"

lemma gnu_audit_complete:
  assumes mem: "reads_ok sn" "snapshot_ok sn"
    and parse: "parse_gnu_longname_portable_v1 sha sn mf mm = Inr a"
    and ps: "map fst ps = ga_members a" and f: "ir_format ir \<in> {TarGnuLongName, TarGzipGnuLongName}"
    and norm: "\<forall>p \<in> set ps. audit_gnu_normalization (gnu_ir_member w p)"
    and i: "audit_gnu_identity sn digest ir = Inr ()"
    and ev: "ir_tar_gnu_evidence ir = Some (gnu_covering_of a)" and ms: "ir_members ir = map (gnu_ir_member w) ps"
  shows "audit_tar_gnu_longname_covering sha sn digest ir = Inr ()"
proof -
  from parse obtain st header where inv: "gnu_inv sha sn mf mm st"
    and h: "read_header_block sn (gs_offset st) = Inr header" "is_zero_block header"
    and fin: "gnu_finish sn mm st = Inr a" by (rule gnu_parse_final)
  note fin = gnu_finish_ok [OF fin]
  have n: "length (ga_carriers a) \<le> 1024" using inv fin(6) by (simp add: gnu_inv_def)
  have z0: "all_zero (slice_of (gs_offset st) (gs_offset st + 512) (content sn))"
    using h read_header_block_ok [OF h(1)] by (simp add: is_zero_block_def)
  have z: "all_zero (slice_of (gs_offset st) (gs_offset st + 1024) (content sn))" "zero_at sn (ga_trailing_zeros a)"
    using z0 fin(2,3,4) all_zero_slice_append [of "gs_offset st" "gs_offset st + 512" "gs_offset st + 1024" "content sn"]
    by (simp_all add: fin(6) zero_at_def range_bytes_def)
  have l: "gnu_loop sha sn mf mm gnu_start = Inr a"
    using parse by (auto simp: parse_gnu_longname_portable_v1_def split: if_splits)
  have "reads_ok sn \<and> snapshot_ok sn \<and> map fst ps = ga_members a \<and>
      (\<forall>p \<in> set ps. audit_gnu_normalization (gnu_ir_member w p)) \<and>
      gnu_states_agree sha sn mf mm a gnu_start audit_gnu_start"
    using mem ps norm l by (simp add: gnu_states_agree_def gnu_start_def audit_gnu_start_def pending_recorded_def)
  from gnu_audit.simulates [OF this l] obtain q where
    q: "audit_gnu_loop sha sn (map gnu_carrier_evidence_of (ga_carriers a)) (map (gnu_ir_member w) ps)
      (offset (ga_terminator a)) audit_gnu_start = Inr q" "ags_cursor q = offset (ga_terminator a)"
      "ags_carrier_index q = length (ga_carriers a)" "ags_member_index q = length (ga_members a)"
      "ags_pending q = None" by blast
  have u: "snapshot_len sn \<le> u64_max" using mem(2) by (simp add: snapshot_ok_def)
  have lp: "length ps = length (ga_members a)" using arg_cong [OF ps, of length] by simp
  have r: "checked_range_end (ga_member_records a) = Inr (gs_offset st)"
    "checked_range_end (ga_terminator a) = Inr (gs_offset st + 1024)"
    "checked_range_end (ga_trailing_zeros a) = Inr (snapshot_len sn)"
    "offset (ga_member_records a) = 0" "offset (ga_terminator a) = gs_offset st" "rlen (ga_terminator a) = 1024"
    "offset (ga_trailing_zeros a) = gs_offset st + 1024"
    using fin(2) u by (simp_all add: fin(6))
  have t: "read_exact_at sn (gs_offset st) 1024 = Inr (slice_of (gs_offset st) (gs_offset st + 1024) (content sn))"
    using mem(1) fin(2) u by (simp add: read_exact_at_memory in_bounds_def)
  have "\<not> length (map gnu_carrier_evidence_of (ga_carriers a)) > GNU_MAX_CARRIERS"
    using n by (simp add: GNU_MAX_CARRIERS_def)
  moreover have "\<not> ir_format ir \<notin> {TarGnuLongName, TarGzipGnuLongName}" using f by blast
  moreover have "audit_zero_range sn (ga_trailing_zeros a) = Inr ()"
    by (intro audit_zero_range_memory [OF mem] z)
  ultimately show ?thesis
    unfolding audit_tar_gnu_longname_covering_def i ev ms
    using q r lp t z(1) by (simp add: gnu_covering_of_def Let_def TAR_BLOCK_LEN_def)
qed

subsection \<open>What an accepting audit says of the normalization\<close>

lemma audit_gnu_carrier_index:
  "audit_gnu_carrier sha sn cs header facts he pe ps t = Inr t' \<Longrightarrow> ags_member_index t' = ags_member_index t"
  by (auto simp: audit_gnu_carrier_def Let_def and_then_eq_Inr split: if_splits)

lemma audit_gnu_member_index:
  assumes "audit_gnu_member sha sn cs ms header facts he pe ps t = Inr t'"
  shows "\<exists>m. list_get ms (ags_member_index t) = Some m \<and> audit_gnu_normalization m \<and>
    ags_member_index t' = ags_member_index t + 1"
proof -
  from assms obtain m where m: "list_get ms (ags_member_index t) = Some m"
    by (auto simp: audit_gnu_member_def and_then_eq_Inr)
  with assms show ?thesis
    by (auto simp: audit_gnu_member_def Let_def and_then_eq_Inr simp del: insert_iff split: if_split_asm)
qed

lemma audit_gnu_step_normalized:
  assumes "audit_gnu_step sha sn cs ms e t = Inr (Inl t')"
  shows "ags_member_index t' = ags_member_index t \<or>
    (\<exists>m. list_get ms (ags_member_index t) = Some m \<and> audit_gnu_normalization m \<and>
       ags_member_index t' = ags_member_index t + 1)"
  using assms
  by (auto simp: audit_gnu_step_def and_then_eq_Inr split: if_split_asm
      dest: audit_gnu_carrier_index dest!: audit_gnu_member_index)

lemma gnu_audit_normalized:
  assumes "audit_tar_gnu_longname_covering sha sn digest ir = Inr ()" "m \<in> set (ir_members ir)"
  shows "audit_gnu_normalization m"
proof -
  let ?ms = "ir_members ir"
  from assms(1) obtain cs e q where l: "audit_gnu_loop sha sn cs ?ms e audit_gnu_start = Inr q"
    and q: "ags_member_index q = length ?ms"
    by (auto simp: audit_tar_gnu_longname_covering_def and_then_eq_Inr Let_def split: if_splits)
  let ?I = "\<lambda>t. \<forall>i < ags_member_index t. i < length ?ms \<longrightarrow> audit_gnu_normalization (?ms ! i)"
  have "\<exists>t. ?I t \<and> audit_gnu_step sha sn cs ?ms e t = Inr (Inr q)"
  proof (rule audit_gnu.loop_invariant [OF l, where I = ?I])
    show "?I audit_gnu_start" by (simp add: audit_gnu_start_def)
    show "?I s'" if "?I s" "audit_gnu_step sha sn cs ?ms e s = Inr (Inl s')" for s s'
      using that(1) audit_gnu_step_normalized [OF that(2)]
      by (auto simp: list_get_def less_Suc_eq split: if_splits)
  qed
  then obtain t where "?I t" "audit_gnu_step sha sn cs ?ms e t = Inr (Inr q)" by blast
  moreover from this(2) have "q = t"
    by (auto simp: audit_gnu_step_def and_then_eq_Inr split: if_splits)
  ultimately show ?thesis using q assms(2) by (auto simp: in_set_conv_nth)
qed

text \<open>The path that the audit demands of a directory: its name less one final slash.\<close>

definition less_final_slash :: "rust_str \<Rightarrow> rust_str" where
  "less_final_slash name = (case strip_suffix_slash name of Some path \<Rightarrow> path | None \<Rightarrow> name)"

lemma planned_normalization:
  assumes "planned_ok u b gm_name gm_is_dir (m, parts, acts)"
  shows "audit_gnu_normalization (gnu_ir_member w (m, parts, acts)) \<longleftrightarrow>
    (gm_is_dir m \<longrightarrow> as_bytes (join_on slash parts) = as_bytes (less_final_slash (gm_name m)))"
proof -
  from assms have "acts = (if gm_is_dir m \<and> gm_name m \<noteq> [] \<and> last (gm_name m) = slash
      then [StripDirectoryTrailingSlash] else [])"
    by (auto simp: planned_ok_def prepare_tar_member_name_def Let_def split: if_splits)
  then show ?thesis
    by (simp add: audit_gnu_normalization_def Let_def kind_of_def less_final_slash_def strip_suffix_slash_def)
qed

lemma planned_path_suffix:
  assumes "planned_ok u b gm_name gm_is_dir (m, parts, acts)" "gm_is_dir m"
  shows "\<exists>pre. less_final_slash (gm_name m) = pre @ join_on slash parts \<and>
    (starts_with (gm_name m) [dot, slash] \<longrightarrow> pre \<noteq> [])"
proof -
  have suffix: "\<exists>pre. s = pre @ strip_dot_slash s \<and> (starts_with s [dot, slash] \<longrightarrow> pre \<noteq> [])" for s
  proof (induction s rule: strip_dot_slash.induct)
    case (1 a b' rest)
    show ?case
    proof (cases "a = dot \<and> b' = slash")
      case True
      with 1 obtain pre where "rest = pre @ strip_dot_slash rest" by auto
      then have "a # b' # rest = (a # b' # pre) @ strip_dot_slash rest" by simp
      with True show ?thesis by (intro exI [of _ "a # b' # pre"]) simp
    qed (auto simp: starts_with_def)
  qed (simp_all add: starts_with_def)
  let ?s = "less_final_slash (gm_name m)"
  have s: "?s = (if gm_name m \<noteq> [] \<and> last (gm_name m) = slash then butlast (gm_name m) else gm_name m)"
    by (simp add: less_final_slash_def strip_suffix_slash_def)
  have dotted: "starts_with (gm_name m) [dot, slash] \<Longrightarrow> ?s = [dot] \<or> starts_with ?s [dot, slash]"
    unfolding s starts_with_def
    by (cases "gm_name m" rule: strip_dot_slash.cases) (auto simp: butlast_append)
  from assms have "join_on slash parts =
      (if strip_dot_slash ?s = [] \<or> strip_dot_slash ?s = [dot] then [] else strip_dot_slash ?s)"
    unfolding s by (auto simp: planned_ok_def prepare_tar_member_name_def Let_def split: if_splits)
  moreover from suffix [of ?s] obtain pre where pre: "?s = pre @ strip_dot_slash ?s"
    "starts_with ?s [dot, slash] \<longrightarrow> pre \<noteq> []" by blast
  ultimately consider (root) "join_on slash parts = []" | (kept) "?s = pre @ join_on slash parts" by (auto split: if_splits)
  then show ?thesis
  proof cases
    case root
    then show ?thesis using dotted by (intro exI [of _ ?s]) (auto simp: starts_with_def)
  next
    case kept
    show ?thesis
    proof (cases "?s = [dot]")
      case True
      then have "join_on slash parts = []" using \<open>join_on slash parts = (if strip_dot_slash ?s = [] \<or>
        strip_dot_slash ?s = [dot] then [] else strip_dot_slash ?s)\<close> by simp
      then show ?thesis using True by simp
    next
      case False
      with kept dotted pre(2) show ?thesis by (intro exI [of _ pre]) blast
    qed
  qed
qed

lemma as_bytes_append [simp]: "as_bytes (s @ t) = as_bytes s @ as_bytes t"
  by (simp add: as_bytes_def)

lemma as_bytes_eq_Nil [simp]: "as_bytes s = [] \<longleftrightarrow> s = []"
  by (cases s) (simp_all add: as_bytes_def)

lemma as_bytes_inj:
  assumes "as_bytes s = as_bytes t" "list_all is_scalar s" "list_all is_scalar t"
  shows "s = t"
proof -
  have "Some s = Some t"
    unfolding as_bytes_from_utf8 [OF assms(2), symmetric] as_bytes_from_utf8 [OF assms(3), symmetric] assms(1) ..
  then show ?thesis by simp
qed

lemma gnu_names_scalar:
  assumes "parse_gnu_longname_portable_v1 sha sn mf mm = Inr a" "m \<in> set (ga_members a)"
  shows "list_all is_scalar (gm_name m)"
proof -
  from assms(1) obtain st where inv: "gnu_inv sha sn mf mm st" and fin: "gnu_finish sn mm st = Inr a"
    by (rule gnu_parse_final)
  then have "gnu_name_ok (gs_carriers st) m"
    using gnu_finish_ok(6) [OF fin] assms(2) by (simp add: gnu_inv_def)
  then show ?thesis using from_utf8_as_bytes by (auto simp: gnu_name_ok_def split: option.splits)
qed

lemma planned_normalization_exact:
  assumes "parse_gnu_longname_portable_v1 sha sn mf mm = Inr a" "m \<in> set (ga_members a)"
    and ok: "planned_ok u b gm_name gm_is_dir (m, parts, acts)"
  shows "audit_gnu_normalization (gnu_ir_member w (m, parts, acts)) \<longleftrightarrow>
    (gm_is_dir m \<longrightarrow> join_on slash parts = less_final_slash (gm_name m))"
proof (cases "gm_is_dir m")
  case True
  have "list_all is_scalar (gm_name m)" by (rule gnu_names_scalar [OF assms(1,2)])
  then have s: "list_all is_scalar (less_final_slash (gm_name m))"
    by (auto simp: less_final_slash_def strip_suffix_slash_def list_all_iff dest: in_set_butlastD)
  moreover from planned_path_suffix [OF ok True] s have "list_all is_scalar (join_on slash parts)"
    by auto
  ultimately have "as_bytes (join_on slash parts) = as_bytes (less_final_slash (gm_name m)) \<longleftrightarrow>
      join_on slash parts = less_final_slash (gm_name m)"
    using as_bytes_inj [of "join_on slash parts" "less_final_slash (gm_name m)"] by (intro iffI) simp_all
  then show ?thesis unfolding planned_normalization [OF ok] by simp
next
  case False
  then show ?thesis unfolding planned_normalization [OF ok] by simp
qed

text \<open>The audit of what the reader accepted and the planner admitted decides the normalization alone.\<close>

lemma gnu_audit_iff_normalized:
  assumes "reads_ok sn" "snapshot_ok sn" "parse_gnu_longname_portable_v1 sha sn mf mm = Inr a"
    and "pl_findings (plan_members u b gm_name gm_size gm_is_dir (ga_members a) (plan_start b)) = []"
    and "ps = pl_planned (plan_members u b gm_name gm_size gm_is_dir (ga_members a) (plan_start b))"
    and "ir_format ir \<in> {TarGnuLongName, TarGzipGnuLongName}" "audit_gnu_identity sn digest ir = Inr ()"
    and "ir_tar_gnu_evidence ir = Some (gnu_covering_of a)" "ir_members ir = map (gnu_ir_member w) ps"
  shows "audit_tar_gnu_longname_covering sha sn digest ir = Inr () \<longleftrightarrow>
    (\<forall>(m, parts, acts) \<in> set ps. gm_is_dir m \<longrightarrow> join_on slash parts = less_final_slash (gm_name m))"
proof -
  note clean = plan_clean [OF assms(4), folded assms(5)]
  have norm: "audit_gnu_normalization (gnu_ir_member w (m, parts, acts)) \<longleftrightarrow>
      (gm_is_dir m \<longrightarrow> join_on slash parts = less_final_slash (gm_name m))"
    if "(m, parts, acts) \<in> set ps" for m parts acts
  proof -
    have "m \<in> set (ga_members a)" unfolding clean(1) [symmetric] using that by (force simp: image_iff)
    then show ?thesis using clean(2) that by (intro planned_normalization_exact [OF assms(3)]) blast+
  qed
  have "(\<forall>p \<in> set ps. audit_gnu_normalization (gnu_ir_member w p)) \<longleftrightarrow>
      (\<forall>(m, parts, acts) \<in> set ps. gm_is_dir m \<longrightarrow> join_on slash parts = less_final_slash (gm_name m))"
    using norm by fastforce
  moreover have "audit_tar_gnu_longname_covering sha sn digest ir = Inr () \<longleftrightarrow>
      (\<forall>p \<in> set ps. audit_gnu_normalization (gnu_ir_member w p))"
  proof
    assume "audit_tar_gnu_longname_covering sha sn digest ir = Inr ()"
    from gnu_audit_normalized [OF this] show "\<forall>p \<in> set ps. audit_gnu_normalization (gnu_ir_member w p)"
      unfolding assms(9) by simp
  qed (rule gnu_audit_complete [OF assms(1,2,3) clean(1) assms(6) _ assms(7-9)])
  ultimately show ?thesis by simp
qed

end
