(* ===== verification/Severity.thy ===== *)
theory Severity
  imports CoveringGnu
begin

text \<open>
  Every refusal of a reader or an audit is an error: no function of the readers and audits
  produces a finding of another severity. The planners rely on this where they take the first
  error of a list of findings and panic when there is none.
\<close>

definition fails_error :: "finding + 'a \<Rightarrow> bool" where
  "fails_error r \<longleftrightarrow> (\<forall>f. r = Inl f \<longrightarrow> severity f = Error)"

named_theorems fails \<open>functions that only fail with errors\<close>

lemma fails_error_cases [fails]:
  "fails_error (Inr x)" "fails_error (Inl f) \<longleftrightarrow> severity f = Error"
  "fails_error (and_then r k) \<longleftrightarrow> fails_error r \<and> (\<forall>x. r = Inr x \<longrightarrow> fails_error (k x))"
  "fails_error (ok_or f v) \<longleftrightarrow> v = None \<longrightarrow> severity f = Error"
  "(\<And>f. severity (g f) = severity f) \<Longrightarrow> fails_error (map_err g r) = fails_error r"
  by (auto simp: fails_error_def and_then_def ok_or_def map_err_def split: sum.splits option.splits)

lemma fails_error_const [fails]: "severity f = Error \<Longrightarrow> fails_error (map_err (\<lambda>_. f) r)"
  by (auto simp: fails_error_def map_err_def split: sum.splits)

lemma severity_sel [fails]:
  "severity (finding_error c) = Error" "severity (on_member n f) = severity f"
  "severity (with_hint h f) = severity f" "severity (label_header_member f b) = severity f"
  by (simp_all add: finding_error_def on_member_def with_hint_def label_header_member_def split: option.splits)

lemma severity_consts [fails]:
  "severity pax_syntax = Error" "severity gnu_syntax = Error" "severity gnu_state_error = Error"
  "severity inconsistent = Error" "severity (pax_keyword_refusal k) = Error"
  "severity (unsupported_typeflag_finding h b) = Error"
  by (simp_all add: pax_syntax_def gnu_syntax_def gnu_state_error_def inconsistent_def pax_keyword_refusal_def
      unsupported_typeflag_finding_def Let_def fails split: option.splits)

lemma checked_range_fails [fails]: "fails_error (checked_range x0 x1 x2)"
  by (simp add: fails checked_range_def Let_def split: prod.split sum.split option.split)

lemma read_exact_at_fails [fails]: "fails_error (read_exact_at x0 x1 x2)"
  by (simp add: fails read_exact_at_def split: snapshot_backing.split)

lemma read_vec_fails [fails]: "fails_error (read_vec x0 x1 x2)"
  by (simp add: fails read_vec_def Let_def split: prod.split sum.split option.split)

lemma tar_checked_add_fails [fails]: "fails_error (tar_checked_add x0 x1)"
  by (simp add: fails tar_checked_add_def Let_def split: prod.split sum.split option.split)

lemma parse_octal_digits_fails [fails]: "fails_error (parse_octal_digits x0)"
  by (simp add: fails parse_octal_digits_def Let_def split: prod.split sum.split option.split)

lemma parse_octal_fails [fails]: "fails_error (parse_octal x0)"
  by (simp add: fails parse_octal_def Let_def split: prod.split sum.split option.split)

lemma parse_checksum_fails [fails]: "fails_error (parse_checksum x0)"
  by (simp add: fails parse_checksum_def Let_def split: prod.split sum.split option.split)

lemma parse_device_number_fails [fails]: "fails_error (parse_device_number x0)"
  by (simp add: fails parse_device_number_def Let_def split: prod.split sum.split option.split)

lemma parse_text_field_fails [fails]: "fails_error (parse_text_field x0 x1)"
  by (simp add: fails parse_text_field_def Let_def split: prod.split sum.split option.split)

lemma validate_owner_text_fails [fails]: "fails_error (validate_owner_text x0)"
  by (simp add: fails validate_owner_text_def Let_def split: prod.split sum.split option.split)

lemma ensure_zero_range_fails [fails]: "fails_error (ensure_zero_range x0 x1 x2)"
  by (induction x0 x1 x2 rule: ensure_zero_range.induct) (simp add: fails Let_def ensure_zero_range.simps split: sum.split)+

lemma round_up_block_fails [fails]: "fails_error (round_up_block x0)"
  by (simp add: fails round_up_block_def Let_def split: prod.split sum.split option.split)

lemma parse_header_numbers_fails [fails]: "fails_error (parse_header_numbers x0)"
  by (simp add: fails parse_header_numbers_def Let_def split: prod.split sum.split option.split)

lemma check_devices_and_owners_fails [fails]: "fails_error (check_devices_and_owners x0)"
  by (simp add: fails check_devices_and_owners_def Let_def split: prod.split sum.split option.split)

lemma verify_checksum_fails [fails]: "fails_error (verify_checksum x0)"
  by (simp add: fails verify_checksum_def Let_def split: prod.split sum.split option.split)

lemma read_second_block_fails [fails]: "fails_error (read_second_block x0 x1)"
  by (simp add: fails read_second_block_def Let_def split: prod.split sum.split option.split)

lemma place_member_fails [fails]: "fails_error (place_member x0 x1 x2 x3)"
  by (simp add: fails place_member_def Let_def split: prod.split sum.split option.split)

lemma ustar_is_dir_fails [fails]: "fails_error (ustar_is_dir x0)"
  by (simp add: fails ustar_is_dir_def Let_def split: prod.split sum.split option.split)

lemma ustar_raw_name_fails [fails]: "fails_error (ustar_raw_name x0)"
  by (simp add: fails ustar_raw_name_def Let_def split: prod.split sum.split option.split)

lemma parse_header_fails [fails]: "fails_error (parse_header x0 x1 x2)"
  by (simp add: fails parse_header_def Let_def split: prod.split sum.split option.split)

lemma read_header_block_fails [fails]: "fails_error (read_header_block x0 x1)"
  by (simp add: fails read_header_block_def Let_def split: prod.split sum.split option.split)

lemma ustar_finish_fails [fails]: "fails_error (ustar_finish x0 x1 x2)"
  by (simp add: fails ustar_finish_def Let_def split: prod.split sum.split option.split)

lemma ustar_member_fails [fails]: "fails_error (ustar_member x0 x1 x2 x3 x4 x5)"
  by (simp add: fails ustar_member_def Let_def split: prod.split sum.split option.split)

lemma ustar_step_fails [fails]: "fails_error (ustar_step x0 x1 x2 x3 x4)"
  by (simp add: fails ustar_step_def Let_def split: prod.split sum.split option.split)

lemma ustar_loop_fails [fails]: "fails_error (ustar_loop x0 x1 x2 x3 x4)"
  by (induction x0 x1 x2 x3 x4 rule: ustar_loop.induct) (simp add: fails ustar_loop.simps split: sum.split)+

lemma parse_ustar_portable_v1_fails [fails]: "fails_error (parse_ustar_portable_v1 x0 x1 x2 x3)"
  by (simp add: fails parse_ustar_portable_v1_def Let_def split: prod.split sum.split option.split)

lemma parse_decimal_fails [fails]: "fails_error (parse_decimal x0)"
  by (simp add: fails parse_decimal_def Let_def split: prod.split sum.split option.split)

lemma validate_path_bytes_fails [fails]: "fails_error (validate_path_bytes x0)"
  by (simp add: fails validate_path_bytes_def Let_def split: prod.split sum.split option.split)

lemma validate_effective_path_fails [fails]: "fails_error (validate_effective_path x0)"
  by (simp add: fails validate_effective_path_def Let_def split: prod.split sum.split option.split)

lemma parse_path_value_fails [fails]: "fails_error (parse_path_value x0)"
  by (simp add: fails parse_path_value_def Let_def split: prod.split sum.split option.split)

lemma parse_keyword_value_fails [fails]: "fails_error (parse_keyword_value x0 x1 x2 x3)"
  by (simp add: fails parse_keyword_value_def Let_def split: prod.split sum.split option.split)

lemma parse_record_length_fails [fails]: "fails_error (parse_record_length x0 x1)"
  by (simp add: fails parse_record_length_def Let_def split: prod.split sum.split option.split)

lemma parse_record_frame_fails [fails]: "fails_error (parse_record_frame x0 x1)"
  by (simp add: fails parse_record_frame_def Let_def split: prod.split sum.split option.split)

lemma parse_record_fails [fails]: "fails_error (parse_record x0 x1 x2)"
  by (simp add: fails parse_record_def Let_def split: prod.split sum.split option.split)

lemma parse_records_step_fails [fails]: "fails_error (parse_records_step x0 x1 x2)"
  by (simp add: fails parse_records_step_def Let_def split: prod.split sum.split option.split)

lemma parse_records_loop_fails [fails]: "fails_error (parse_records_loop x0 x1 x2)"
  by (induction x0 x1 x2 rule: parse_records_loop.induct) (simp add: fails parse_records_loop.simps split: sum.split)+

lemma parse_records_fails [fails]: "fails_error (parse_records x0 x1)"
  by (simp add: fails parse_records_def Let_def split: prod.split sum.split option.split)

lemma add_metadata_fails [fails]: "fails_error (add_metadata x0 x1 x2)"
  by (simp add: fails add_metadata_def Let_def split: prod.split sum.split option.split)

lemma resolve_path_fails [fails]: "fails_error (resolve_path x0 x1 x2)"
  by (simp add: fails resolve_path_def Let_def split: prod.split sum.split option.split)

lemma pax_kind_fails [fails]: "fails_error (pax_kind x0)"
  by (simp add: fails pax_kind_def Let_def split: prod.split sum.split option.split)

lemma pax_parse_header_fails [fails]: "fails_error (pax_parse_header x0 x1 x2)"
  by (simp add: fails pax_parse_header_def Let_def split: prod.split sum.split option.split)

lemma pax_finish_fails [fails]: "fails_error (pax_finish x0 x1 x2)"
  by (simp add: fails pax_finish_def Let_def split: prod.split sum.split option.split)

lemma pax_extension_body_fails [fails]: "fails_error (pax_extension_body x0 x1 x2 x3 x4)"
  by (simp add: fails pax_extension_body_def Let_def split: prod.split sum.split option.split)

lemma pax_extension_step_fails [fails]: "fails_error (pax_extension_step x0 x1 x2 x3 x4 x5)"
  by (simp add: fails pax_extension_step_def Let_def split: prod.split sum.split option.split)

lemma pax_member_step_fails [fails]: "fails_error (pax_member_step x0 x1 x2 x3 x4 x5)"
  by (simp add: fails pax_member_step_def Let_def split: prod.split sum.split option.split)

lemma pax_entry_step_fails [fails]: "fails_error (pax_entry_step x0 x1 x2 x3 x4 x5)"
  by (simp add: fails pax_entry_step_def split: header_kind.split)

lemma pax_step_fails [fails]: "fails_error (pax_step x0 x1 x2 x3 x4)"
  by (simp add: fails pax_step_def Let_def split: prod.split sum.split option.split)

lemma pax_loop_fails [fails]: "fails_error (pax_loop x0 x1 x2 x3 x4)"
  by (induction x0 x1 x2 x3 x4 rule: pax_loop.induct) (simp add: fails pax_loop.simps split: sum.split)+

lemma parse_pax_portable_v1_fails [fails]: "fails_error (parse_pax_portable_v1 x0 x1 x2 x3)"
  by (simp add: fails parse_pax_portable_v1_def Let_def split: prod.split sum.split option.split)

lemma gnu_validate_effective_path_fails [fails]: "fails_error (gnu_validate_effective_path x0)"
  by (simp add: fails gnu_validate_effective_path_def Let_def split: prod.split sum.split option.split)

lemma parse_carrier_payload_fails [fails]: "fails_error (parse_carrier_payload x0)"
  by (simp add: fails parse_carrier_payload_def Let_def split: prod.split sum.split option.split)

lemma decode_effective_path_fails [fails]: "fails_error (decode_effective_path x0)"
  by (simp add: fails decode_effective_path_def Let_def split: prod.split sum.split option.split)

lemma gnu_kind_fails [fails]: "fails_error (gnu_kind x0)"
  by (simp add: fails gnu_kind_def Let_def split: prod.split sum.split option.split)

lemma gnu_parse_header_fails [fails]: "fails_error (gnu_parse_header x0 x1 x2)"
  by (simp add: fails gnu_parse_header_def Let_def split: prod.split sum.split option.split)

lemma gnu_finish_fails [fails]: "fails_error (gnu_finish x0 x1 x2)"
  by (simp add: fails gnu_finish_def Let_def split: prod.split sum.split option.split)

lemma gnu_carrier_body_fails [fails]: "fails_error (gnu_carrier_body x0 x1 x2 x3 x4)"
  by (simp add: fails gnu_carrier_body_def Let_def split: prod.split sum.split option.split)

lemma gnu_carrier_step_fails [fails]: "fails_error (gnu_carrier_step x0 x1 x2 x3 x4)"
  by (simp add: fails gnu_carrier_step_def Let_def split: prod.split sum.split option.split)

lemma gnu_member_name_fails [fails]: "fails_error (gnu_member_name x0 x1)"
  by (simp add: fails gnu_member_name_def Let_def split: prod.split sum.split option.split)

lemma gnu_member_step_fails [fails]: "fails_error (gnu_member_step x0 x1 x2 x3 x4 x5)"
  by (simp add: fails gnu_member_step_def Let_def split: prod.split sum.split option.split)

lemma gnu_entry_step_fails [fails]: "fails_error (gnu_entry_step x0 x1 x2 x3 x4 x5)"
  by (simp add: fails gnu_entry_step_def split: gnu_header_kind.split)

lemma gnu_step_fails [fails]: "fails_error (gnu_step x0 x1 x2 x3 x4)"
  by (simp add: fails gnu_step_def Let_def split: prod.split sum.split option.split)

lemma gnu_loop_fails [fails]: "fails_error (gnu_loop x0 x1 x2 x3 x4)"
  by (induction x0 x1 x2 x3 x4 rule: gnu_loop.induct) (simp add: fails gnu_loop.simps split: sum.split)+

lemma parse_gnu_longname_portable_v1_fails [fails]: "fails_error (parse_gnu_longname_portable_v1 x0 x1 x2 x3)"
  by (simp add: fails parse_gnu_longname_portable_v1_def Let_def split: prod.split sum.split option.split)

lemma checked_range_end_fails [fails]: "fails_error (checked_range_end x0)"
  by (simp add: fails checked_range_end_def Let_def split: prod.split sum.split option.split)

lemma audit_zero_scan_fails [fails]: "fails_error (audit_zero_scan x0 x1 x2)"
  by (induction x0 x1 x2 rule: audit_zero_scan.induct) (simp add: fails Let_def audit_zero_scan.simps split: sum.split)+

lemma audit_zero_range_fails [fails]: "fails_error (audit_zero_range x0 x1)"
  by (simp add: fails audit_zero_range_def Let_def split: prod.split sum.split option.split)

lemma derived_identity_fails [fails]: "fails_error (derived_identity x0 x1 x2 x3)"
  by (simp add: fails derived_identity_def Let_def split: prod.split sum.split option.split)

lemma audit_tar_identity_fails [fails]: "fails_error (audit_tar_identity x0 x1 x2)"
  by (simp add: fails audit_tar_identity_def split: archive_format.split)

lemma audit_tar_member_fails [fails]: "fails_error (audit_tar_member x0 x1 x2 x3 x4 x5)"
  by (simp add: fails audit_tar_member_def Let_def split: prod.split sum.split option.split)

lemma audit_tar_members_fails [fails]: "fails_error (audit_tar_members x0 x1 x2 x3 x4 x5)"
  by (induction x0 x1 x2 x3 x4 x5 rule: audit_tar_members.induct) (simp add: fails audit_tar_members.simps split: sum.split)+

lemma audit_tar_covering_fails [fails]: "fails_error (audit_tar_covering x0 x1 x2 x3)"
  by (simp add: fails audit_tar_covering_def Let_def split: prod.split sum.split option.split)

lemma audit_checksum_fails [fails]: "fails_error (audit_checksum x0)"
  by (simp add: fails audit_checksum_def Let_def split: prod.split sum.split option.split)

lemma audit_pax_header_fails [fails]: "fails_error (audit_pax_header x0)"
  by (simp add: fails audit_pax_header_def Let_def split: prod.split sum.split option.split)

lemma audit_gnu_header_fails [fails]: "fails_error (audit_gnu_header x0)"
  by (simp add: fails audit_gnu_header_def Let_def split: prod.split sum.split option.split)

lemma audit_record_frame_fails [fails]: "fails_error (audit_record_frame x0 x1)"
  by (simp add: fails audit_record_frame_def Let_def split: prod.split sum.split option.split)

lemma audit_keyword_fails [fails]: "fails_error (audit_keyword x0 x1 x2 x3 x4)"
  by (simp add: fails audit_keyword_def Let_def split: prod.split sum.split option.split)

lemma audit_pax_record_fails [fails]: "fails_error (audit_pax_record x0 x1 x2 x3)"
  by (simp add: fails audit_pax_record_def Let_def split: prod.split sum.split option.split)

lemma audit_records_step_fails [fails]: "fails_error (audit_records_step x0 x1 x2 x3)"
  by (simp add: fails audit_records_step_def Let_def split: prod.split sum.split option.split)

lemma audit_records_loop_fails [fails]: "fails_error (audit_records_loop x0 x1 x2 x3)"
  by (induction x0 x1 x2 x3 rule: audit_records_loop.induct) (simp add: fails audit_records_loop.simps split: sum.split)+

lemma audit_pax_records_fails [fails]: "fails_error (audit_pax_records x0 x1 x2)"
  by (simp add: fails audit_pax_records_def Let_def split: prod.split sum.split option.split)

lemma audit_override_records_fails [fails]: "fails_error (audit_override_records x0 x1 x2 x3 x4)"
  by (induction x0 x1 x2 x3 x4 rule: audit_override_records.induct) (simp add: fails audit_override_records.simps split: sum.split)+

lemma overrides_from_extension_fails [fails]: "fails_error (overrides_from_extension x0 x1)"
  by (simp add: fails overrides_from_extension_def Let_def split: prod.split sum.split option.split)

lemma audit_pax_ranges_fails [fails]: "severity x0 = Error \<Longrightarrow> fails_error (audit_pax_ranges x0 x1 x2 x3 x4 x5 x6)"
  by (simp add: fails audit_pax_ranges_def Let_def split: prod.split sum.split option.split)

lemma audit_one_pax_extension_fails [fails]: "fails_error (audit_one_pax_extension x0 x1 x2 x3 x4)"
  by (simp add: fails audit_one_pax_extension_def Let_def split: prod.split sum.split option.split)

lemma audit_effective_fails [fails]: "severity x0 = Error \<Longrightarrow> fails_error (audit_effective x0 x1 x2)"
  by (simp add: fails audit_effective_def split: pax_value_source.split)

lemma audit_one_pax_member_fails [fails]: "fails_error (audit_one_pax_member x0 x1 x2 x3 x4 x5 x6 x7)"
  by (simp add: fails audit_one_pax_member_def Let_def split: prod.split sum.split option.split)

lemma audit_pax_step_fails [fails]: "fails_error (audit_pax_step x0 x1 x2 x3 x4 x5)"
  by (simp add: fails audit_pax_step_def Let_def split: prod.split sum.split option.split)

lemma audit_pax_loop_fails [fails]: "fails_error (audit_pax_loop x0 x1 x2 x3 x4 x5)"
  by (induction x0 x1 x2 x3 x4 x5 rule: audit_pax_loop.induct) (simp add: fails audit_pax_loop.simps split: sum.split)+

lemma audit_pax_identity_fails [fails]: "fails_error (audit_pax_identity x0 x1 x2)"
  by (simp add: fails audit_pax_identity_def split: archive_format.split)

lemma audit_tar_pax_covering_fails [fails]: "fails_error (audit_tar_pax_covering x0 x1 x2 x3)"
  by (simp add: fails audit_tar_pax_covering_def Let_def split: prod.split sum.split option.split)

lemma audit_gnu_extent_fails [fails]: "fails_error (audit_gnu_extent x0 x1 x2)"
  by (simp add: fails audit_gnu_extent_def Let_def split: prod.split sum.split option.split)

lemma audit_gnu_carrier_fails [fails]: "fails_error (audit_gnu_carrier x0 x1 x2 x3 x4 x5 x6 x7 x8)"
  by (simp add: fails audit_gnu_carrier_def Let_def split: prod.split sum.split option.split)

lemma audit_gnu_effective_fails [fails]: "severity x0 = Error \<Longrightarrow> fails_error (audit_gnu_effective x0 x1 x2 x3 x4)"
  by (simp add: fails audit_gnu_effective_def Let_def split: prod.split sum.split option.split)

lemma audit_gnu_member_fails [fails]: "fails_error (audit_gnu_member x0 x1 x2 x3 x4 x5 x6 x7 x8 x9)"
  by (simp add: fails audit_gnu_member_def Let_def split: prod.split sum.split option.split)

lemma audit_gnu_step_fails [fails]: "fails_error (audit_gnu_step x0 x1 x2 x3 x4 x5)"
  by (simp add: fails audit_gnu_step_def Let_def split: prod.split sum.split option.split)

lemma audit_gnu_loop_fails [fails]: "fails_error (audit_gnu_loop x0 x1 x2 x3 x4 x5)"
  by (induction x0 x1 x2 x3 x4 x5 rule: audit_gnu_loop.induct) (simp add: fails audit_gnu_loop.simps split: sum.split)+

lemma audit_gnu_identity_fails [fails]: "fails_error (audit_gnu_identity x0 x1 x2)"
  by (simp add: fails audit_gnu_identity_def split: archive_format.split)

lemma audit_tar_gnu_longname_covering_fails [fails]: "fails_error (audit_tar_gnu_longname_covering x0 x1 x2 x3)"
  by (simp add: fails audit_tar_gnu_longname_covering_def Let_def split: prod.split sum.split option.split)

end
