(* ===== verification/Plan.thy ===== *)
theory Plan
  imports Outcome Payload TarPlan GnuAudit Severity
begin

text \<open>
  The three TAR planners of \<open>crates/sealr/src/apply.rs\<close>, \<open>plan_tar_domains\<close>, \<open>plan_tar_pax\<close> and
  \<open>plan_tar_gnu_longname\<close>, from the selected snapshot to either a final outcome or an archive that
  is ready for verification: parse, ratio stop, member planning, interpretation, covering audit.
  The three functions have the same stages; the stages are written once, over the parts in which
  the functions differ. The snapshot of the selected domain comes with its digest.
\<close>

subsection \<open>Plan profiles and charges\<close>

datatype tar_plan_profile =
    PlanRaw
  | PlanGzip gzip_wrapper_evidence
  | PlanZstd zstd_wrapper_evidence
  | PlanXz xz_wrapper_evidence
  | PlanBzip2 bzip2_wrapper_evidence

datatype pax_plan_profile = PaxRaw | PaxGzip gzip_wrapper_evidence

datatype gnu_long_name_plan_profile = GnuRaw | GnuGzip gzip_wrapper_evidence

record derived_tar_charge =
  dc_codec :: string
  dc_decoded_len :: nat
  dc_compressed_len :: nat

definition bzip2_compressed_payload_len :: "nat \<Rightarrow> nat \<Rightarrow> nat \<Rightarrow> nat option" where
  "bzip2_compressed_payload_len block_count padding_bits source_len =
     Option.bind (checked_mul_u64 81 block_count) (\<lambda>blocks.
     Option.bind (checked_add_u64 32 blocks) (\<lambda>a.
     Option.bind (checked_add_u64 a 80) (\<lambda>b.
     Option.bind (checked_add_u64 b padding_bits) (\<lambda>metadata_bits.
     checked_sub_u64 source_len (div_ceil metadata_bits 8)))))"

definition charge_gzip :: "gzip_wrapper_evidence \<Rightarrow> derived_tar_charge" where
  "charge_gzip w = \<lparr>dc_codec = ''gzip'', dc_decoded_len = gz_derived_output_len w,
     dc_compressed_len = rlen (gz_compressed_payload w)\<rparr>"

definition charge_zstd :: "zstd_wrapper_evidence \<Rightarrow> derived_tar_charge" where
  "charge_zstd w = \<lparr>dc_codec = ''zstd'', dc_decoded_len = zs_derived_output_len w,
     dc_compressed_len = rlen (zs_compressed_payload w)\<rparr>"

fun xz_compressed_total :: "nat \<Rightarrow> xz_block_evidence list \<Rightarrow> nat option" where
  "xz_compressed_total acc [] = Some acc"
| "xz_compressed_total acc (b # bs) =
     Option.bind (checked_add_u64 acc (rlen (xb_compressed b))) (\<lambda>t. xz_compressed_total t bs)"

definition charge_xz :: "xz_wrapper_evidence \<Rightarrow> finding + derived_tar_charge" where
  "charge_xz w =
     and_then (ok_or (finding_error QuotaOverflow) (xz_compressed_total 0 (xz_blocks w))) (\<lambda>compressed_len.
     Inr \<lparr>dc_codec = ''xz'', dc_decoded_len = xz_derived_output_len w, dc_compressed_len = compressed_len\<rparr>)"

definition charge_bzip2 :: "bzip2_wrapper_evidence \<Rightarrow> nat \<Rightarrow> finding + derived_tar_charge" where
  "charge_bzip2 w source_len =
     and_then (ok_or (finding_error QuotaOverflow)
         (bzip2_compressed_payload_len (min (length (bz_block_bit_offsets w)) u64_max) (bz_padding_bits w) source_len))
       (\<lambda>compressed_len.
     Inr \<lparr>dc_codec = ''bzip2'', dc_decoded_len = bz_derived_output_len w, dc_compressed_len = compressed_len\<rparr>)"

definition ustar_derived_charge :: "tar_plan_profile \<Rightarrow> nat \<Rightarrow> finding + derived_tar_charge option" where
  "ustar_derived_charge profile source_len =
     (case profile of
        PlanRaw \<Rightarrow> Inr None
      | PlanGzip w \<Rightarrow> Inr (Some (charge_gzip w))
      | PlanZstd w \<Rightarrow> Inr (Some (charge_zstd w))
      | PlanXz w \<Rightarrow> and_then (charge_xz w) (\<lambda>c. Inr (Some c))
      | PlanBzip2 w \<Rightarrow> and_then (charge_bzip2 w source_len) (\<lambda>c. Inr (Some c)))"

definition pax_derived_charge :: "pax_plan_profile \<Rightarrow> derived_tar_charge option" where
  "pax_derived_charge profile = (case profile of PaxRaw \<Rightarrow> None | PaxGzip w \<Rightarrow> Some (charge_gzip w))"

definition gnu_derived_charge :: "gnu_long_name_plan_profile \<Rightarrow> derived_tar_charge option" where
  "gnu_derived_charge profile = (case profile of GnuRaw \<Rightarrow> None | GnuGzip w \<Rightarrow> Some (charge_gzip w))"

definition ustar_wrapper_class :: "tar_plan_profile \<Rightarrow> tar_wrapper_class" where
  "ustar_wrapper_class profile =
     (case profile of PlanRaw \<Rightarrow> Raw | PlanGzip _ \<Rightarrow> Gzip | PlanZstd _ \<Rightarrow> Zstd | PlanXz _ \<Rightarrow> Xz | PlanBzip2 _ \<Rightarrow> Bzip2)"

subsection \<open>The ratio stop\<close>

definition derived_numerator :: "nat \<Rightarrow> tar_archive_covering option \<Rightarrow> snapshot \<Rightarrow> nat" where
  "derived_numerator decoded_len covering sn =
     (case covering of
        Some c \<Rightarrow> derived_tar_ratio_numerator decoded_len (offset (tc_terminator c)) (rlen (tc_terminator c))
          (offset (tc_trailing_zeros c)) (rlen (tc_trailing_zeros c))
      | None \<Rightarrow>
          (case verified_ratio_covering sn of
             Some r \<Rightarrow> derived_tar_ratio_numerator decoded_len (offset (rc_terminator r)) (rlen (rc_terminator r))
               (offset (rc_trailing_zeros r)) (rlen (rc_trailing_zeros r))
           | None \<Rightarrow> decoded_len))"

definition denied_quota :: "finding \<Rightarrow> string \<Rightarrow> source_digest \<Rightarrow> outcome" where
  "denied_quota f magic digest = finish digest magic [f] [] (structure_stop Interpreted Denied f)"

definition derived_ratio_stop ::
  "(finding + derived_tar_charge option) \<Rightarrow> tar_archive_covering option \<Rightarrow> snapshot \<Rightarrow> u64 option \<Rightarrow> string \<Rightarrow>
     source_digest \<Rightarrow> outcome option"
where
  "derived_ratio_stop charge covering sn ratio_cap magic digest =
     (case charge of
        Inr None \<Rightarrow> None
      | Inl f \<Rightarrow> Some (denied_quota f magic digest)
      | Inr (Some c) \<Rightarrow>
          (case ratio_cap of
             None \<Rightarrow> None
           | Some r \<Rightarrow>
               let numerator = derived_numerator (dc_decoded_len c) covering sn
               in if \<not> ratio_exceeds (of_nat numerator) (of_nat (dc_compressed_len c)) r then None
                  else Some (denied_quota (finding_error QuotaRatio) magic digest)))"

subsection \<open>Hints on a parse failure\<close>

definition tar_dialect_hint :: "snapshot \<Rightarrow> tar_wrapper_class \<Rightarrow> finding_hint option" where
  "tar_dialect_hint sn cls =
     (if snapshot_len sn < 265 then None
      else Option.bind (result_ok (read_exact_at sn 257 8)) (hint_for_tar_dialect cls))"

definition sibling_format :: "tar_wrapper_class \<Rightarrow> string option" where
  "sibling_format cls = (case cls of Raw \<Rightarrow> Some ''tar-pax'' | Gzip \<Rightarrow> Some ''tar-gzip-pax'' | _ \<Rightarrow> None)"

definition enrich_container_hint :: "finding \<Rightarrow> snapshot \<Rightarrow> tar_wrapper_class \<Rightarrow> finding" where
  "enrich_container_hint f0 sn cls =
     (let f = (if code f0 = TarDialect \<and> hint f0 = None then f0\<lparr>hint := tar_dialect_hint sn cls\<rparr> else f0)
      in case hint f of
           None \<Rightarrow> f
         | Some h \<Rightarrow>
             if formats h \<noteq> [] then f
             else if observed h \<noteq> ''PAX extended header'' \<and> observed h \<noteq> ''PAX global header'' then f
             else (case sibling_format cls of
                     None \<Rightarrow> f
                   | Some sibling \<Rightarrow> f\<lparr>hint := Some (h\<lparr>formats := formats h @ [sibling]\<rparr>)\<rparr>))"

definition hint_format_finding :: "finding \<Rightarrow> snapshot \<Rightarrow> finding" where
  "hint_format_finding f sn =
     (if code f \<notin> {FormatUnsupported, FormatMagic} \<or> hint f \<noteq> None then f
      else
      let len = min (snapshot_len sn) 512
      in if len = 0 then f
         else case read_exact_at sn 0 len of
                Inl _ \<Rightarrow> f
              | Inr bytes_prefix \<Rightarrow> f\<lparr>hint := hint_from_prefix bytes_prefix\<rparr>)"

definition tar_covering_failure_axes :: "bool \<Rightarrow> finding \<Rightarrow> semantic_axes" where
  "tar_covering_failure_axes wrapped f =
     (if wrapped then structure_stop Indeterminate NotEvaluated f else structure_stop Malformed Denied f)"

subsection \<open>The stages the planners share\<close>

record ready_archive =
  ra_ir :: archive_ir
  ra_payloads :: "payload_plan list"
  ra_findings :: "finding list"
  ra_budget :: resource_budget
  ra_source_digest :: source_digest
  ra_magic :: string

text \<open>The \<open>expect\<close> of \<open>first_error\<close> is the value \<open>Panicked\<close>.\<close>

datatype plan_result = Stopped outcome | Ready ready_archive | Panicked

definition plan_parse_failure ::
  "(finding + derived_tar_charge option) \<Rightarrow> snapshot \<Rightarrow> u64 option \<Rightarrow> string \<Rightarrow> string \<Rightarrow> tar_wrapper_class \<Rightarrow>
     source_digest \<Rightarrow> finding \<Rightarrow> outcome"
where
  "plan_parse_failure charge sn ratio_cap magic observed_magic cls digest f =
     (case derived_ratio_stop charge None sn ratio_cap magic digest of
        Some oc \<Rightarrow> oc
      | None \<Rightarrow>
          let f' = enrich_container_hint f sn cls
          in finish digest observed_magic [f'] [] (parse_failure_axes f'))"

definition plan_audited ::
  "bool \<Rightarrow> string \<Rightarrow> resource_budget \<Rightarrow> source_digest \<Rightarrow> finding list \<Rightarrow> payload_plan list \<Rightarrow> archive_ir \<Rightarrow>
     finding + unit \<Rightarrow> plan_result"
where
  "plan_audited wrapped magic budget digest findings payloads ir audit =
     (case audit of
        Inl f \<Rightarrow>
          let findings' = findings @ [f]
          in (case first_error findings' of
                None \<Rightarrow> Panicked
              | Some cause \<Rightarrow>
                  Stopped (with_ir (finish digest magic findings' [] (tar_covering_failure_axes wrapped cause)) ir))
      | Inr _ \<Rightarrow>
          Ready \<lparr>ra_ir = ir, ra_payloads = payloads, ra_findings = findings, ra_budget = budget,
            ra_source_digest = digest, ra_magic = magic\<rparr>)"

definition plan_admission ::
  "bool \<Rightarrow> string \<Rightarrow> resource_budget \<Rightarrow> source_digest \<Rightarrow> ('m planned \<Rightarrow> payload_plan) \<Rightarrow> ('m planned list \<Rightarrow> archive_ir) \<Rightarrow>
     (archive_ir \<Rightarrow> finding + unit) \<Rightarrow> 'm plan_state \<Rightarrow> plan_result"
where
  "plan_admission wrapped magic budget digest payload_of ir_of audit st =
     (if list_ex (\<lambda>f. severity f = Error) (pl_findings st)
      then (case first_error (pl_findings st) of
              None \<Rightarrow> Panicked
            | Some cause \<Rightarrow> Stopped (finish digest magic (pl_findings st) [] (denied_at_admission cause)))
      else
      let payloads = map payload_of (pl_planned st);
          ir = ir_of (pl_planned st)
      in plan_audited wrapped magic budget digest (pl_findings st) payloads ir (audit ir))"

subsection \<open>The planners\<close>

definition ustar_archive_ir ::
  "tar_plan_profile \<Rightarrow> source_digest \<Rightarrow> tar_archive_covering \<Rightarrow> tar_member planned list \<Rightarrow> archive_ir"
where
  "ustar_archive_ir profile digest covering planned =
     \<lparr>ir_source_digest = digest,
      ir_evidence = (case profile of
          PlanRaw \<Rightarrow> ArcTar covering | PlanGzip w \<Rightarrow> ArcTarGzip w covering | PlanZstd w \<Rightarrow> ArcTarZstd w covering
        | PlanXz w \<Rightarrow> ArcTarXz w covering | PlanBzip2 w \<Rightarrow> ArcTarBzip2 w covering),
      ir_members = map (\<lambda>(m, parts, acts).
        from_tar_planned_for_format (ustar_wrapper_class profile) m parts acts) planned\<rparr>"

definition ustar_magic :: "tar_plan_profile \<Rightarrow> string" where
  "ustar_magic profile =
     (case profile of PlanRaw \<Rightarrow> ''tar'' | PlanGzip _ \<Rightarrow> ''gz'' | PlanZstd _ \<Rightarrow> ''zst'' | PlanXz _ \<Rightarrow> ''xz''
      | PlanBzip2 _ \<Rightarrow> ''bz2'')"

definition plan_tar_domains ::
  "(bytes \<Rightarrow> bytes) \<Rightarrow> unicode \<Rightarrow> resource_budget \<Rightarrow> nat \<Rightarrow> nat \<Rightarrow> snapshot \<Rightarrow> source_digest \<Rightarrow> source_digest \<Rightarrow>
     tar_plan_profile \<Rightarrow> plan_result"
where
  "plan_tar_domains sha u budget metadata_budget source_len sn tar_digest digest profile =
     (let magic = ustar_magic profile;
          observed_magic = (if profile \<noteq> PlanRaw \<or> recognizes_ustar sn then magic else ''unknown'');
          charge = ustar_derived_charge profile source_len
      in case parse_ustar_portable_v1 sha sn (unat (max_files budget)) metadata_budget of
           Inl f \<Rightarrow>
             Stopped (plan_parse_failure charge sn (max_ratio budget) magic observed_magic
               (ustar_wrapper_class profile) digest f)
         | Inr parsed \<Rightarrow>
             let covering = tar_covering_of parsed
             in (case derived_ratio_stop charge (Some covering) sn (max_ratio budget) magic digest of
                   Some oc \<Rightarrow> Stopped oc
                 | None \<Rightarrow>
                     plan_admission (profile \<noteq> PlanRaw) magic budget digest
                       (\<lambda>(m, _, _). tar_payload_plan (ustar_wrapper_class profile) m)
                       (ustar_archive_ir profile digest covering) (audit_tar_covering sha sn tar_digest)
                       (plan_members u budget tm_name tm_size tm_is_dir (ta_members parsed) (plan_start budget))))"

definition pax_wrapped :: "pax_plan_profile \<Rightarrow> bool" where
  "pax_wrapped profile = (case profile of PaxRaw \<Rightarrow> False | PaxGzip _ \<Rightarrow> True)"

definition pax_archive_ir ::
  "pax_plan_profile \<Rightarrow> source_digest \<Rightarrow> tar_archive_covering \<Rightarrow> pax_extension_evidence list \<Rightarrow>
     pax_member planned list \<Rightarrow> archive_ir"
where
  "pax_archive_ir profile digest covering extensions planned =
     (let evidence = \<lparr>pae_tar = covering, pae_extensions = extensions\<rparr>
      in \<lparr>ir_source_digest = digest,
          ir_evidence = (case profile of PaxRaw \<Rightarrow> ArcTarPax evidence | PaxGzip w \<Rightarrow> ArcTarGzipPax w evidence),
          ir_members = map (\<lambda>(m, parts, acts).
            from_tar_pax_planned_for_format (pax_wrapped profile) m parts acts) planned\<rparr>)"

definition plan_tar_pax ::
  "(bytes \<Rightarrow> bytes) \<Rightarrow> unicode \<Rightarrow> resource_budget \<Rightarrow> nat \<Rightarrow> snapshot \<Rightarrow> source_digest \<Rightarrow> source_digest \<Rightarrow>
     pax_plan_profile \<Rightarrow> plan_result"
where
  "plan_tar_pax sha u budget metadata_budget sn tar_digest digest profile =
     (let wrapped = pax_wrapped profile;
          magic = (if wrapped then ''gz'' else ''tar'');
          observed_magic = (if wrapped \<or> recognizes_ustar sn then magic else ''unknown'');
          charge = Inr (pax_derived_charge profile);
          cls = (if wrapped then Gzip else Raw)
      in case parse_pax_portable_v1 sha sn (unat (max_files budget)) metadata_budget of
           Inl f \<Rightarrow>
             Stopped (plan_parse_failure charge sn (max_ratio budget) magic observed_magic cls digest f)
         | Inr parsed \<Rightarrow>
             let covering = \<lparr>tc_member_records = pa_member_records parsed, tc_terminator = pa_terminator parsed,
                   tc_trailing_zeros = pa_trailing_zeros parsed\<rparr>
             in (case derived_ratio_stop charge (Some covering) sn (max_ratio budget) magic digest of
                   Some oc \<Rightarrow> Stopped oc
                 | None \<Rightarrow>
                     let extensions = map pax_extension_evidence_of (pa_extensions parsed)
                     in plan_admission wrapped magic budget digest
                       (\<lambda>(m, _, _). pax_payload_plan wrapped m)
                       (pax_archive_ir profile digest covering extensions) (audit_tar_pax_covering sha sn tar_digest)
                       (plan_members u budget pm_name pm_size pm_is_dir (pa_members parsed) (plan_start budget))))"

definition gnu_wrapped :: "gnu_long_name_plan_profile \<Rightarrow> bool" where
  "gnu_wrapped profile = (case profile of GnuRaw \<Rightarrow> False | GnuGzip _ \<Rightarrow> True)"

definition gnu_archive_ir ::
  "gnu_long_name_plan_profile \<Rightarrow> source_digest \<Rightarrow> tar_archive_covering \<Rightarrow> gnu_carrier_evidence list \<Rightarrow>
     gnu_member planned list \<Rightarrow> archive_ir"
where
  "gnu_archive_ir profile digest covering carriers planned =
     (let evidence = \<lparr>gae_tar = covering, gae_carriers = carriers\<rparr>
      in \<lparr>ir_source_digest = digest,
          ir_evidence = (case profile of GnuRaw \<Rightarrow> ArcTarGnuLongName evidence
            | GnuGzip w \<Rightarrow> ArcTarGzipGnuLongName w evidence),
          ir_members = map (\<lambda>(m, parts, acts).
            from_tar_gnu_longname_planned_for_format (gnu_wrapped profile) m parts acts) planned\<rparr>)"

definition plan_tar_gnu_longname ::
  "(bytes \<Rightarrow> bytes) \<Rightarrow> unicode \<Rightarrow> resource_budget \<Rightarrow> nat \<Rightarrow> snapshot \<Rightarrow> source_digest \<Rightarrow> source_digest \<Rightarrow>
     gnu_long_name_plan_profile \<Rightarrow> plan_result"
where
  "plan_tar_gnu_longname sha u budget metadata_budget sn tar_digest digest profile =
     (let wrapped = gnu_wrapped profile;
          magic = (if wrapped then ''gz'' else ''tar'');
          observed_magic = (if wrapped \<or> recognizes_oldgnu sn then magic else ''unknown'');
          charge = Inr (gnu_derived_charge profile);
          cls = (if wrapped then Gzip else Raw)
      in case parse_gnu_longname_portable_v1 sha sn (unat (max_files budget)) metadata_budget of
           Inl f \<Rightarrow>
             Stopped (plan_parse_failure charge sn (max_ratio budget) magic observed_magic cls digest f)
         | Inr parsed \<Rightarrow>
             let covering = \<lparr>tc_member_records = ga_member_records parsed, tc_terminator = ga_terminator parsed,
                   tc_trailing_zeros = ga_trailing_zeros parsed\<rparr>
             in (case derived_ratio_stop charge (Some covering) sn (max_ratio budget) magic digest of
                   Some oc \<Rightarrow> Stopped oc
                 | None \<Rightarrow>
                     let carriers = map gnu_carrier_evidence_of (ga_carriers parsed)
                     in plan_admission wrapped magic budget digest
                       (\<lambda>(m, _, _). gnu_payload_plan wrapped m)
                       (gnu_archive_ir profile digest covering carriers)
                       (audit_tar_gnu_longname_covering sha sn tar_digest)
                       (plan_members u budget gm_name gm_size gm_is_dir (ga_members parsed) (plan_start budget))))"


subsection \<open>Stops\<close>

text \<open>What a planner may return: an orderly stop or a ready archive.\<close>

definition plan_ok :: "plan_result \<Rightarrow> bool" where
  "plan_ok r \<longleftrightarrow> (case r of Stopped oc \<Rightarrow> stopped oc | Ready _ \<Rightarrow> True | Panicked \<Rightarrow> False)"

lemma ustar_derived_charge_fails [fails]: "fails_error (ustar_derived_charge profile n)"
  by (cases profile) (simp_all add: ustar_derived_charge_def charge_xz_def charge_bzip2_def fails)

lemma derived_ratio_stop_stopped:
  "\<lbrakk>fails_error charge; derived_ratio_stop charge c sn r g d = Some oc\<rbrakk> \<Longrightarrow> stopped oc"
  by (auto simp: derived_ratio_stop_def denied_quota_def Let_def fails intro!: stopped_structure
      split: sum.splits option.splits if_splits)

lemma enrich_severity: "severity (enrich_container_hint f sn cls) = severity f"
  by (simp add: enrich_container_hint_def Let_def split: option.split)

lemma plan_parse_failure_stopped:
  assumes "fails_error charge" "severity f = Error"
  shows "stopped (plan_parse_failure charge sn r g og cls d f)"
proof (cases "derived_ratio_stop charge None sn r g d")
  case None
  obtain i a where "a \<noteq> Admitted" "parse_failure_axes (enrich_container_hint f sn cls) =
      structure_stop i a (enrich_container_hint f sn cls)"
    using parse_failure_axes_stop by blast
  with None assms(2) show ?thesis by (auto simp: plan_parse_failure_def Let_def enrich_severity intro!: stopped_structure)
next
  case (Some oc)
  with derived_ratio_stop_stopped [OF assms(1)] show ?thesis by (simp add: plan_parse_failure_def)
qed

lemma plan_audited_ok:
  assumes "fails_error audit"
  shows "plan_ok (plan_audited w g b d fs ps ir audit)"
proof (cases audit)
  case (Inl f)
  with assms have "list_ex (\<lambda>f. severity f = Error) (fs @ [f])" by (simp add: fails)
  then obtain c where c: "first_error (fs @ [f]) = Some c" using first_error_exists by blast
  with first_error_Some [OF c] Inl show ?thesis
    by (auto simp: plan_ok_def plan_audited_def tar_covering_failure_axes_def simp del: set_append
        intro!: stopped_structure)
qed (simp add: plan_ok_def plan_audited_def)

lemma plan_admission_ok:
  assumes "\<And>ir. fails_error (audit ir)"
  shows "plan_ok (plan_admission w g b d pay mk audit st)"
proof (cases "first_error (pl_findings st)")
  case None
  with first_error_exists [of "pl_findings st"] show ?thesis
    by (simp add: plan_admission_def Let_def plan_audited_ok assms)
next
  case (Some c)
  with first_error_Some [OF Some] first_error_exists [of "pl_findings st"] show ?thesis
    by (auto simp: plan_admission_def plan_ok_def intro!: stopped_admission)
qed

text \<open>The stages after the parse, for all three planners.\<close>

lemma plan_stages_ok:
  assumes "fails_error charge" "fails_error parsed" "\<And>a ir. fails_error (audit a ir)"
  shows "plan_ok (case parsed of
      Inl f \<Rightarrow> Stopped (plan_parse_failure charge sn r g og cls d f)
    | Inr a \<Rightarrow> (case derived_ratio_stop charge (c a) sn r g d of
        Some oc \<Rightarrow> Stopped oc
      | None \<Rightarrow> plan_admission w g b d pay (mk a) (audit a) (st a)))"
  using assms derived_ratio_stop_stopped [OF assms(1)] plan_parse_failure_stopped [OF assms(1)]
    plan_admission_ok [of "audit a" for a]
  by (auto simp: plan_ok_def fails split: sum.split option.split)

lemma planner_ok:
  "plan_ok (plan_tar_domains sha u b mb sl sn td d profile)"
  "plan_ok (plan_tar_pax sha u b mb sn td d pax)"
  "plan_ok (plan_tar_gnu_longname sha u b mb sn td d gnu)"
  unfolding plan_tar_domains_def plan_tar_pax_def plan_tar_gnu_longname_def Let_def
  by (rule plan_stages_ok; simp add: fails)+

subsection \<open>Ready archives\<close>

definition ready_of ::
  "string \<Rightarrow> resource_budget \<Rightarrow> source_digest \<Rightarrow> ('m planned \<Rightarrow> payload_plan) \<Rightarrow> ('m planned list \<Rightarrow> archive_ir) \<Rightarrow>
     'm planned list \<Rightarrow> ready_archive"
where
  "ready_of magic budget digest payload_of ir_of planned =
     \<lparr>ra_ir = ir_of planned, ra_payloads = map payload_of planned, ra_findings = [], ra_budget = budget,
      ra_source_digest = digest, ra_magic = magic\<rparr>"

lemma plan_findings_errors:
  "f \<in> set (pl_findings (plan_members u b mname msize mdir ms (plan_start b))) \<Longrightarrow> severity f = Error"
  using plan_members_inv [OF plan_inv_start, of u b mname mdir msize ms] by (simp add: plan_inv_def)

lemma plan_admission_ready:
  assumes "st = plan_members u b mname msize mdir ms (plan_start b)"
  shows "plan_admission w g b d pay mk audit st = Ready ra \<longleftrightarrow>
    pl_findings st = [] \<and> audit (mk (pl_planned st)) = Inr () \<and> ra = ready_of g b d pay mk (pl_planned st)"
proof (cases "pl_findings st")
  case Nil
  then show ?thesis
    by (auto simp: plan_admission_def plan_audited_def ready_of_def Let_def split: sum.split option.split)
next
  case (Cons f fs)
  with assms plan_findings_errors [of f u b mname msize mdir ms] have "list_ex (\<lambda>f. severity f = Error) (pl_findings st)"
    by simp
  with Cons show ?thesis by (simp add: plan_admission_def split: option.split)
qed


lemma planner_stages_ready:
  assumes "st = (\<lambda>a. plan_members u b mname msize mdir (ms a) (plan_start b))"
  shows "(case parsed of
      Inl f \<Rightarrow> Stopped (plan_parse_failure charge sn r g og cls d f)
    | Inr a \<Rightarrow> (case derived_ratio_stop charge (c a) sn r g d of
        Some oc \<Rightarrow> Stopped oc
      | None \<Rightarrow> plan_admission w g b d pay (mk a) audit (st a))) = Ready ra \<longleftrightarrow>
    (\<exists>a. parsed = Inr a \<and> derived_ratio_stop charge (c a) sn r g d = None \<and> pl_findings (st a) = [] \<and>
       audit (mk a (pl_planned (st a))) = Inr () \<and> ra = ready_of g b d pay (mk a) (pl_planned (st a)))"
  using plan_admission_ready [OF fun_cong [OF assms]] by (auto split: sum.split option.split)

text \<open>The identity the driver establishes before planning: the digest is that of the planned snapshot,
  or the wrapper evidence has the length and the digest of the derived snapshot.\<close>

definition ustar_bound :: "tar_plan_profile \<Rightarrow> snapshot \<Rightarrow> source_digest \<Rightarrow> source_digest \<Rightarrow> bool" where
  "ustar_bound profile sn tar_digest digest =
     (case profile of
        PlanRaw \<Rightarrow> digest = tar_digest
      | PlanGzip w \<Rightarrow> gz_derived_output_len w = snapshot_len sn \<and> tar_digest = Available (gz_derived_output_sha256 w)
      | PlanZstd w \<Rightarrow> zs_derived_output_len w = snapshot_len sn \<and> tar_digest = Available (zs_derived_output_sha256 w)
      | PlanXz w \<Rightarrow> xz_derived_output_len w = snapshot_len sn \<and> tar_digest = Available (xz_derived_output_sha256 w)
      | PlanBzip2 w \<Rightarrow> bz_derived_output_len w = snapshot_len sn \<and> tar_digest = Available (bz_derived_output_sha256 w))"

definition pax_bound :: "pax_plan_profile \<Rightarrow> snapshot \<Rightarrow> source_digest \<Rightarrow> source_digest \<Rightarrow> bool" where
  "pax_bound profile sn tar_digest digest =
     (case profile of
        PaxRaw \<Rightarrow> digest = tar_digest
      | PaxGzip w \<Rightarrow> gz_derived_output_len w = snapshot_len sn \<and> tar_digest = Available (gz_derived_output_sha256 w))"

lemma ustar_archive_ir_sel [simp]:
  "ir_format (ustar_archive_ir profile d c ps) = wrapped_format (ustar_wrapper_class profile)"
  "ir_tar_covering (ustar_archive_ir profile d c ps) = Some c"
  "ir_source_digest (ustar_archive_ir profile d c ps) = d"
  "ir_members (ustar_archive_ir profile d c ps) =
     map (\<lambda>(m, parts, acts). from_tar_planned_for_format (ustar_wrapper_class profile) m parts acts) ps"
  by (cases profile; simp add: ustar_archive_ir_def ir_format_def wrapped_format_def ustar_wrapper_class_def
      ir_tar_covering_def)+

lemma ustar_bound_identity:
  "ustar_bound profile sn td d \<Longrightarrow> audit_tar_identity sn td (ustar_archive_ir profile d c ps) = Inr ()"
  by (cases profile) (simp_all add: ustar_bound_def audit_tar_identity_def wrapped_format_def ustar_wrapper_class_def
      derived_identity_def digest_sha256_def ir_gzip_evidence_def ir_zstd_evidence_def ir_xz_evidence_def
      ir_bzip2_evidence_def, simp_all add: ustar_archive_ir_def digest_sha256_def)

lemma ustar_plan_audited:
  assumes "reads_ok sn" "snapshot_ok sn" "ustar_bound profile sn td d"
    and "parse_ustar_portable_v1 sha sn mf mb = Inr a" "map fst ps = ta_members a"
  shows "audit_tar_covering sha sn td (ustar_archive_ir profile d (tar_covering_of a) ps) = Inr ()"
proof (rule tar_covered_audit [OF assms(1,2) _ ustar_bound_identity [OF assms(3)] ustar_archive_ir_sel(2)])
  let ?ir = "ustar_archive_ir profile d (tar_covering_of a) ps"
  show "ir_format ?ir \<in> {TarUstar, TarGzipUstar, TarZstdUstar, TarXzUstar, TarBzip2Ustar}"
    by (cases profile) (simp_all add: wrapped_format_def ustar_wrapper_class_def)
  show "tar_covered sha sn (ir_format ?ir) (ir_members ?ir) (tar_covering_of a)"
    unfolding ustar_archive_ir_sel
    by (rule ustar_spec_covered [OF ustar_parse_spec [OF assms(4)] assms(5)])
qed

abbreviation ustar_plan :: "unicode \<Rightarrow> resource_budget \<Rightarrow> tar_archive \<Rightarrow> tar_member plan_state" where
  "ustar_plan u b a \<equiv> plan_members u b tm_name tm_size tm_is_dir (ta_members a) (plan_start b)"

abbreviation ustar_ready ::
  "unicode \<Rightarrow> resource_budget \<Rightarrow> source_digest \<Rightarrow> tar_plan_profile \<Rightarrow> tar_archive \<Rightarrow> ready_archive"
where
  "ustar_ready u b d profile a \<equiv> ready_of (ustar_magic profile) b d
     (\<lambda>(m, _, _). tar_payload_plan (ustar_wrapper_class profile) m)
     (ustar_archive_ir profile d (tar_covering_of a)) (pl_planned (ustar_plan u b a))"

lemma pax_plan_audited:
  assumes "reads_ok sn" "snapshot_ok sn" "pax_bound profile sn td d"
    and "parse_pax_portable_v1 sha sn mf mb = Inr a" "map fst ps = pa_members a"
  shows "audit_tar_pax_covering sha sn td
    (pax_archive_ir profile d (pae_tar (pax_covering_of a)) (pae_extensions (pax_covering_of a)) ps) = Inr ()"
proof (rule pax_audit_complete [OF assms(1,2,4,5), where w = "pax_wrapped profile"])
  let ?ir = "pax_archive_ir profile d (pae_tar (pax_covering_of a)) (pae_extensions (pax_covering_of a)) ps"
  show "ir_format ?ir \<in> {TarPax, TarGzipPax}" "ir_tar_pax_evidence ?ir = Some (pax_covering_of a)"
    by (cases profile; simp add: pax_archive_ir_def ir_format_def ir_tar_pax_evidence_def)+
  show "audit_pax_identity sn td ?ir = Inr ()"
    using assms(3) by (cases profile) (simp_all add: pax_archive_ir_def audit_pax_identity_def ir_format_def
        ir_gzip_evidence_def pax_bound_def derived_identity_def digest_sha256_def)
  show "ir_members ?ir = pax_ir_members (pax_wrapped profile) ps" by (simp add: pax_archive_ir_def Let_def)
qed

definition gnu_bound :: "gnu_long_name_plan_profile \<Rightarrow> snapshot \<Rightarrow> source_digest \<Rightarrow> source_digest \<Rightarrow> bool" where
  "gnu_bound profile sn tar_digest digest =
     (case profile of
        GnuRaw \<Rightarrow> digest = tar_digest
      | GnuGzip w \<Rightarrow> gz_derived_output_len w = snapshot_len sn \<and> tar_digest = Available (gz_derived_output_sha256 w))"

abbreviation gnu_plan :: "unicode \<Rightarrow> resource_budget \<Rightarrow> gnu_archive \<Rightarrow> gnu_member plan_state" where
  "gnu_plan u b a \<equiv> plan_members u b gm_name gm_size gm_is_dir (ga_members a) (plan_start b)"

abbreviation gnu_exact_directories :: "gnu_member planned list \<Rightarrow> bool" where
  "gnu_exact_directories ps \<equiv>
     (\<forall>(m, parts, acts) \<in> set ps. gm_is_dir m \<longrightarrow> join_on slash parts = less_final_slash (gm_name m))"

lemma gnu_plan_audited:
  assumes "reads_ok sn" "snapshot_ok sn" "gnu_bound profile sn td d"
    and "parse_gnu_longname_portable_v1 sha sn mf mb = Inr a" "pl_findings (gnu_plan u b a) = []"
  shows "audit_tar_gnu_longname_covering sha sn td
      (gnu_archive_ir profile d (gae_tar (gnu_covering_of a)) (gae_carriers (gnu_covering_of a))
        (pl_planned (gnu_plan u b a))) = Inr () \<longleftrightarrow>
    gnu_exact_directories (pl_planned (gnu_plan u b a))"
proof (rule gnu_audit_iff_normalized [OF assms(1,2,4,5) refl, where w = "gnu_wrapped profile"])
  let ?ir = "gnu_archive_ir profile d (gae_tar (gnu_covering_of a)) (gae_carriers (gnu_covering_of a))
        (pl_planned (gnu_plan u b a))"
  show "ir_format ?ir \<in> {TarGnuLongName, TarGzipGnuLongName}" "ir_tar_gnu_evidence ?ir = Some (gnu_covering_of a)"
    by (cases profile; simp add: gnu_archive_ir_def ir_format_def ir_tar_gnu_evidence_def)+
  show "audit_gnu_identity sn td ?ir = Inr ()"
    using assms(3) by (cases profile) (simp_all add: gnu_archive_ir_def audit_gnu_identity_def ir_format_def
        ir_gzip_evidence_def gnu_bound_def derived_identity_def digest_sha256_def)
  show "ir_members ?ir = map (gnu_ir_member (gnu_wrapped profile)) (pl_planned (gnu_plan u b a))"
    by (simp add: gnu_archive_ir_def Let_def)
qed

subsection \<open>Properties\<close>

text \<open>C8. The ustar planner, on a source whose reads succeed with matching identity and behind any wrapper, decides
  admission by the reader, the ratio stop and the member plan alone: it is ready exactly when the
  source parses within the caps, the ratio stop lets it pass and no member leaves a finding, and
  then the ready archive is the plan's. The covering audit never stops it.\<close>

theorem ustar_planner_decides:
  assumes "reads_ok sn" "snapshot_ok sn" "ustar_bound profile sn td d"
  shows "plan_tar_domains sha u b mb sl sn td d profile = Ready ra \<longleftrightarrow>
    (\<exists>a. parse_ustar_portable_v1 sha sn (unat (max_files b)) mb = Inr a \<and>
       derived_ratio_stop (ustar_derived_charge profile sl) (Some (tar_covering_of a)) sn (max_ratio b)
         (ustar_magic profile) d = None \<and>
       pl_findings (ustar_plan u b a) = [] \<and> ra = ustar_ready u b d profile a)"
  unfolding plan_tar_domains_def Let_def planner_stages_ready [OF refl]
  using ustar_plan_audited [OF assms] plan_clean(1) by blast

definition example_plan_budget :: resource_budget where
  "example_plan_budget = example_budget\<lparr>max_files := 2\<rparr>"

lemma example_plan_files [simp]: "unat (max_files example_plan_budget) = 2"
  by (simp add: example_plan_budget_def)

lemma example_admitted_plain:
  "admit_tar_path ascii_unicode [100, 47] True 8 tables_new =
     (Inr ([[100]], [StripDirectoryTrailingSlash]), record_path [100] [100] True tables_new)"
  "admit_tar_path ascii_unicode [100, 47, 97] False 8 (record_path [100] [100] True tables_new) =
     (Inr ([[100], [97]], []),
      record_path [100, 47, 97] [100, 47, 97] False (record_path [100] [100] True tables_new))"
  by (simp_all add: admit_tar_path_def prepare_tar_member_name_def Let_def example_jailed
      portable_name_violation_def is_control_def as_bytes_def encode_char_def
      utf16_units_def profile_case_fold_def portable_unicode_case_fold_def bt_get_def tables_new_def
      path_conflict_def example_ancestors bt_range_next_def record_path_def starts_with_def)

text \<open>Two members named \<open>d/\<close> and \<open>d/a\<close> are planned.\<close>

lemma example_planned:
  assumes "mname m = [100, 47]" "msize m = 0" "mdir m" "mname m' = [100, 47, 97]" "msize m' = 3" "\<not> mdir m'"
  shows "pl_findings (plan_members ascii_unicode example_plan_budget mname msize mdir [m, m']
      (plan_start example_plan_budget)) = []"
    "pl_planned (plan_members ascii_unicode example_plan_budget mname msize mdir [m, m']
      (plan_start example_plan_budget)) = [(m, [[100]], [StripDirectoryTrailingSlash]), (m', [[100], [97]], [])]"
  by (simp_all add: assms plan_member_def plan_path_def plan_start_def example_plan_budget_def example_budget_def
      example_admitted_plain Let_def ratio_exceeds_nat consume_cases quota_new_def u64_max_def)

lemma example_members:
  "\<exists>m m'. ta_members (archive_of id example_entries) = [m, m'] \<and> tm_name m = [100, 47] \<and> tm_size m = 0 \<and>
     tm_is_dir m \<and> tm_name m' = [100, 47, 97] \<and> tm_size m' = 3 \<and> \<not> tm_is_dir m'"
  by (simp add: archive_of_def example_entries_def member_of_def Let_def from_utf8_ascii)

lemma example_ustar_planned:
  "pl_findings (ustar_plan ascii_unicode example_plan_budget (archive_of id example_entries)) = []"
  using example_members example_planned(1) [of tm_name _ tm_size tm_is_dir] by force

theorem ustar_planner_decides_witness:
  "plan_tar_domains id ascii_unicode example_plan_budget 2048 2560 example_snapshot Unavailable Unavailable PlanRaw =
     Ready (ustar_ready ascii_unicode example_plan_budget Unavailable PlanRaw (archive_of id example_entries))"
  by (subst ustar_planner_decides)
    (simp_all add: example_ok ustar_bound_def example_parse example_ustar_planned
      ustar_derived_charge_def derived_ratio_stop_def)

abbreviation pax_plan :: "unicode \<Rightarrow> resource_budget \<Rightarrow> pax_archive \<Rightarrow> pax_member plan_state" where
  "pax_plan u b a \<equiv> plan_members u b pm_name pm_size pm_is_dir (pa_members a) (plan_start b)"

abbreviation pax_ready ::
  "unicode \<Rightarrow> resource_budget \<Rightarrow> source_digest \<Rightarrow> pax_plan_profile \<Rightarrow> pax_archive \<Rightarrow> ready_archive"
where
  "pax_ready u b d profile a \<equiv> ready_of (if pax_wrapped profile then ''gz'' else ''tar'') b d
     (\<lambda>(m, _, _). pax_payload_plan (pax_wrapped profile) m)
     (pax_archive_ir profile d (pae_tar (pax_covering_of a)) (pae_extensions (pax_covering_of a)))
     (pl_planned (pax_plan u b a))"

text \<open>C10. The pax planner, raw or behind gzip, decides in the same way: on a source whose reads succeed with matching
  identity the audit, which replays the override state for itself, never stops what the reader,
  the ratio stop and the member plan let pass.\<close>

theorem pax_planner_decides:
  assumes "reads_ok sn" "snapshot_ok sn" "pax_bound profile sn td d"
  shows "plan_tar_pax sha u b mb sn td d profile = Ready ra \<longleftrightarrow>
    (\<exists>a. parse_pax_portable_v1 sha sn (unat (max_files b)) mb = Inr a \<and>
       derived_ratio_stop (Inr (pax_derived_charge profile)) (Some (pae_tar (pax_covering_of a))) sn (max_ratio b)
         (if pax_wrapped profile then ''gz'' else ''tar'') d = None \<and>
       pl_findings (pax_plan u b a) = [] \<and> ra = pax_ready u b d profile a)"
  unfolding plan_tar_pax_def Let_def planner_stages_ready [OF refl]
  using pax_plan_audited [OF assms] plan_clean(1) [of u b pm_name pm_size pm_is_dir]
  unfolding pax_covering_of_def tar_pax_archive_evidence.select_convs by blast

lemma example_pax_planned:
  "pl_findings (pax_plan ascii_unicode example_plan_budget (pax_archive_of (archive_of id example_entries))) = []"
proof -
  from example_members obtain m m' where "ta_members (archive_of id example_entries) = [m, m']"
    "tm_name m = [100, 47]" "tm_size m = 0" "tm_is_dir m" "tm_name m' = [100, 47, 97]" "tm_size m' = 3"
    "\<not> tm_is_dir m'" by blast
  then show ?thesis
    using example_planned(1) [of pm_name "pax_of_ustar m" pm_size pm_is_dir "pax_of_ustar m'"]
    by (simp add: pax_archive_of_def pax_of_ustar_def)
qed

theorem pax_planner_decides_witness:
  "plan_tar_pax id ascii_unicode example_plan_budget 2048 example_snapshot Unavailable Unavailable PaxRaw =
     Ready (pax_ready ascii_unicode example_plan_budget Unavailable PaxRaw (pax_archive_of (archive_of id example_entries)))"
  by (subst pax_planner_decides)
    (simp_all add: example_ok pax_bound_def example_pax_parse example_pax_planned
      pax_derived_charge_def derived_ratio_stop_def)

abbreviation gnu_ready ::
  "unicode \<Rightarrow> resource_budget \<Rightarrow> source_digest \<Rightarrow> gnu_long_name_plan_profile \<Rightarrow> gnu_archive \<Rightarrow> ready_archive"
where
  "gnu_ready u b d profile a \<equiv> ready_of (if gnu_wrapped profile then ''gz'' else ''tar'') b d
     (\<lambda>(m, _, _). gnu_payload_plan (gnu_wrapped profile) m)
     (gnu_archive_ir profile d (gae_tar (gnu_covering_of a)) (gae_carriers (gnu_covering_of a)))
     (pl_planned (gnu_plan u b a))"

text \<open>C11. The old-GNU planner is ready exactly when, besides the reader, the ratio stop and the member
  plan, the planned path of every directory is the member's name less one final slash: the audit
  replays the source completely, and what it then decides is the normalization of directories
  alone.\<close>

theorem gnu_planner_decides:
  assumes "reads_ok sn" "snapshot_ok sn" "gnu_bound profile sn td d"
  shows "plan_tar_gnu_longname sha u b mb sn td d profile = Ready ra \<longleftrightarrow>
    (\<exists>a. parse_gnu_longname_portable_v1 sha sn (unat (max_files b)) mb = Inr a \<and>
       derived_ratio_stop (Inr (gnu_derived_charge profile)) (Some (gae_tar (gnu_covering_of a))) sn (max_ratio b)
         (if gnu_wrapped profile then ''gz'' else ''tar'') d = None \<and>
       pl_findings (gnu_plan u b a) = [] \<and> gnu_exact_directories (pl_planned (gnu_plan u b a)) \<and>
       ra = gnu_ready u b d profile a)"
  unfolding plan_tar_gnu_longname_def Let_def planner_stages_ready [OF refl]
  using gnu_plan_audited [OF assms, of sha "unat (max_files b)" mb _ u b]
  by (simp add: gnu_covering_of_def) blast

theorem gnu_planner_decides_witness:
  "\<exists>ra. plan_tar_gnu_longname id ascii_unicode (example_budget\<lparr>max_files := 0\<rparr>) 1024
     (memory_snapshot (replicate 1024 0)) Unavailable Unavailable GnuRaw = Ready ra"
  by (subst gnu_planner_decides)
    (simp_all add: memory_snapshot_def snapshot_ok_def u64_max_def gnu_bound_def gnu_derived_charge_def
      derived_ratio_stop_def empty_gnu_parse [unfolded memory_snapshot_def] plan_start_def)

text \<open>C12. Whatever the source, its backing, the budget and the digests, a planner returns a ready archive
  or an orderly stop, and never panics: a stop is a rejection with exit code 2 that writes nothing,
  grants no capability, and names as the cause of its partial view an error among its findings.\<close>

theorem planners_stop_orderly:
  "plan_ok (plan_tar_domains sha u b mb sl sn td d profile) \<and> plan_ok (plan_tar_pax sha u b mb sn td d pax) \<and>
   plan_ok (plan_tar_gnu_longname sha u b mb sn td d gnu)"
  by (intro conjI planner_ok)

text \<open>The ratio stop is exact in the integers: with lengths that fit \<open>u64\<close>, a derived archive passes
  exactly when its charge could be computed and, under a cap, the charged output is at most the cap
  times the compressed payload.\<close>

theorem derived_ratio_stop_exact:
  assumes "\<And>c. charge = Inr (Some c) \<Longrightarrow> dc_decoded_len c \<le> u64_max \<and> dc_compressed_len c \<le> u64_max"
  shows "derived_ratio_stop charge covering sn cap magic digest = None \<longleftrightarrow>
    (\<exists>x. charge = Inr x \<and> (\<forall>c r. x = Some c \<and> cap = Some r \<longrightarrow>
       derived_numerator (dc_decoded_len c) covering sn \<le> unat r * dc_compressed_len c))"
proof -
  have le: "derived_numerator n covering sn \<le> n" for n
    by (simp add: derived_numerator_def numerator_le split: option.split)
  have "ratio_exceeds (of_nat (derived_numerator (dc_decoded_len c) covering sn)) (of_nat (dc_compressed_len c)) r \<longleftrightarrow>
      unat r * dc_compressed_len c < derived_numerator (dc_decoded_len c) covering sn" if "charge = Inr (Some c)" for c r
    using assms [OF that] le [of "dc_decoded_len c"] by (simp add: ratio_exceeds_nat unat_of_nat_u64)
  then show ?thesis
    by (auto simp: derived_ratio_stop_def Let_def split: sum.split option.split)
qed

theorem derived_ratio_stop_exact_witness:
  "derived_ratio_stop (Inr (Some \<lparr>dc_codec = ''gzip'', dc_decoded_len = 100, dc_compressed_len = 10\<rparr>)) None
     (memory_snapshot []) (Some 10) ''gz'' Unavailable = None"
  by (subst derived_ratio_stop_exact)
    (auto simp: u64_max_def derived_numerator_def verified_ratio_covering_def memory_snapshot_def BLOCK_LEN_def)

end
