(* ===== verification/Stream.thy ===== *)
theory Stream
  imports Payload
begin

text \<open>
  Streams over a snapshot: the range reader and the bounded copy of \<open>crates/sealr/src/snapshot.rs\<close>,
  and the Deflate reader of \<open>deflate.rs\<close>. \<open>Read::read\<close> into a buffer of a given length is a function
  from the reader to its result and the reader afterwards; no bytes are the end of the stream. The
  inflater is the package \<open>flate2\<close>: a parameter that takes the pending input and the room for output
  and returns whether the stream ended, how much input it took, and its output, or that the input is corrupt.
\<close>

subsection \<open>The range reader\<close>

record range_reader =
  rr_snapshot :: snapshot
  rr_offset :: nat
  rr_remaining :: nat

text \<open>\<open>SourceSnapshot::reader\<close>, and \<open>Read::read\<close> of the reader into a buffer of the given length.\<close>

definition snapshot_reader :: "snapshot \<Rightarrow> nat \<Rightarrow> nat \<Rightarrow> finding + range_reader" where
  "snapshot_reader sn offs len =
     and_then (checked_range sn offs len) (\<lambda>_.
     Inr \<lparr>rr_snapshot = sn, rr_offset = offs, rr_remaining = len\<rparr>)"

definition range_read :: "range_reader \<Rightarrow> nat \<Rightarrow> (finding + bytes) \<times> range_reader" where
  "range_read r len =
     (if len = 0 \<or> rr_remaining r = 0 then (Inr [], r)
      else
      let count = min (rr_remaining r) len
      in case read_exact_at (rr_snapshot r) (rr_offset r) count of
           Inl f \<Rightarrow> (Inl f, r)
         | Inr chunk \<Rightarrow> (Inr chunk, r\<lparr>rr_offset := rr_offset r + count, rr_remaining := rr_remaining r - count\<rparr>))"

subsection \<open>Bounded copies\<close>

definition COPY_BUFFER_BYTES :: nat where
  "COPY_BUFFER_BYTES = 64 * 1024"

text \<open>The loop of \<open>copy_bounded\<close>: the bytes copied so far are the state of the digest, and the
  destination takes a chunk at a position or fails.\<close>

function copy_loop ::
  "('r \<Rightarrow> nat \<Rightarrow> (finding + bytes) \<times> 'r) \<Rightarrow> (nat \<Rightarrow> bytes \<Rightarrow> bool) \<Rightarrow> nat \<Rightarrow> 'r \<Rightarrow> bytes \<Rightarrow> (finding + bytes) \<times> 'r"
where
  "copy_loop read destination cap r copied =
     (let remaining_plus_one = min (cap - length copied + 1) u64_max;
          read_limit = min remaining_plus_one COPY_BUFFER_BYTES
      in case read r read_limit of
           (Inl f, r') \<Rightarrow> (Inl f, r')
         | (Inr chunk, r') \<Rightarrow>
             if chunk = [] then (Inr copied, r')
             else case checked_add_u64 (length copied) (length chunk) of
                    None \<Rightarrow> (Inl (finding_error QuotaArchive), r')
                  | Some nxt \<Rightarrow>
                      if nxt > cap then (Inl (finding_error QuotaArchive), r')
                      else if \<not> destination (length copied) chunk then (Inl (finding_error SourceIo), r')
                      else copy_loop read destination cap r' (copied @ chunk))"
  by pat_completeness auto
termination
  by (relation "measure (\<lambda>(_, _, cap, _, copied). cap - length copied)")
    (auto simp: checked_add_u64_def simp flip: length_greater_0_conv split: if_splits)

declare copy_loop.simps [simp del]

text \<open>\<open>copy_bounded\<close>, with the bytes that reached the destination.\<close>

definition copy_bounded ::
  "(bytes \<Rightarrow> bytes) \<Rightarrow> ('r \<Rightarrow> nat \<Rightarrow> (finding + bytes) \<times> 'r) \<Rightarrow> (nat \<Rightarrow> bytes \<Rightarrow> bool) \<Rightarrow> 'r \<Rightarrow> nat \<Rightarrow>
     (finding + bytes \<times> nat \<times> string) \<times> 'r"
where
  "copy_bounded sha read destination r cap =
     (let (result, r') = copy_loop read destination cap r []
      in (and_then result (\<lambda>copied. Inr (copied, length copied, hex_sha256 sha copied)), r'))"

subsection \<open>The Deflate reader\<close>

record 'd inflater =
  inf_new :: 'd
  inf_decompress :: "'d \<Rightarrow> bytes \<Rightarrow> nat \<Rightarrow> (bool \<times> nat \<times> bytes \<times> 'd) option"

record 'd deflate_decoder =
  dd_input :: range_reader
  dd_buffer :: bytes
  dd_decoder :: 'd
  dd_total_in :: nat
  dd_total_out :: nat
  dd_ended :: bool
  dd_failed :: bool

text \<open>An I/O error carries the finding of the snapshot; every other error is one of the stream.\<close>

datatype deflate_error = DeflateSource finding | DeflateInvalid

definition deflate_new :: "'d inflater \<Rightarrow> range_reader \<Rightarrow> 'd deflate_decoder" where
  "deflate_new flate r = \<lparr>dd_input = r, dd_buffer = [], dd_decoder = inf_new flate, dd_total_in = 0, dd_total_out = 0,
     dd_ended = False, dd_failed = False\<rparr>"

text \<open>\<open>BufReader::fill_buf\<close> with a buffer of \<open>capacity\<close> bytes.\<close>

definition fill_buf :: "nat \<Rightarrow> 'd deflate_decoder \<Rightarrow> finding + 'd deflate_decoder" where
  "fill_buf capacity dd =
     (if dd_buffer dd \<noteq> [] then Inr dd
      else case range_read (dd_input dd) capacity of
             (Inl f, _) \<Rightarrow> Inl f
           | (Inr chunk, r) \<Rightarrow> Inr (dd\<lparr>dd_input := r, dd_buffer := chunk\<rparr>))"

text \<open>The package takes at most the input it is given and fills at most the room it is given.\<close>

abbreviation pending_input :: "'d deflate_decoder \<Rightarrow> nat" where
  "pending_input dd \<equiv> length (dd_buffer dd) + rr_remaining (dd_input dd)"

lemma range_read_length:
  "range_read r n = (Inr chunk, r') \<Longrightarrow> length chunk + rr_remaining r' = rr_remaining r"
  by (auto simp: range_read_def Let_def dest!: read_exact_at_ok split: if_splits sum.splits)

lemma fill_buf_pending: "fill_buf capacity dd = Inr dd' \<Longrightarrow> pending_input dd' = pending_input dd"
  by (auto simp: fill_buf_def dest: range_read_length split: if_splits prod.splits sum.splits)

function deflate_loop ::
  "'d inflater \<Rightarrow> nat \<Rightarrow> nat \<Rightarrow> 'd deflate_decoder \<Rightarrow> (deflate_error + bytes) \<times> 'd deflate_decoder"
where
  "deflate_loop flate capacity room dd =
     (case fill_buf capacity dd of
        Inl f \<Rightarrow> (Inl (DeflateSource f), dd)
      | Inr dd' \<Rightarrow>
          (case inf_decompress flate (dd_decoder dd') (dd_buffer dd') room of
             None \<Rightarrow> (Inl DeflateInvalid, dd'\<lparr>dd_failed := True\<rparr>)
           | Some (stream_end, taken, emitted, d) \<Rightarrow>
               let consumed = min taken (length (dd_buffer dd'));
                   produced = take room emitted;
                   dd'' = dd'\<lparr>dd_buffer := drop consumed (dd_buffer dd'), dd_decoder := d,
                     dd_total_in := dd_total_in dd' + consumed, dd_total_out := dd_total_out dd' + length produced,
                     dd_ended := stream_end\<rparr>
               in if produced \<noteq> [] \<or> stream_end then (Inr produced, dd'')
                  else if consumed = 0 then (Inl DeflateInvalid, dd''\<lparr>dd_failed := True\<rparr>)
                  else deflate_loop flate capacity room dd''))"
  by pat_completeness auto
termination
  by (relation "measure (\<lambda>(_, _, _, dd). pending_input dd)") (auto simp: min_def simp flip: length_greater_0_conv dest!: fill_buf_pending)

declare deflate_loop.simps [simp del]

definition deflate_read ::
  "'d inflater \<Rightarrow> nat \<Rightarrow> nat \<Rightarrow> 'd deflate_decoder \<Rightarrow> (deflate_error + bytes) \<times> 'd deflate_decoder"
where
  "deflate_read flate capacity room dd =
     (if room = 0 \<or> dd_ended dd then (Inr [], dd)
      else if dd_failed dd then (Inl DeflateInvalid, dd)
      else deflate_loop flate capacity room dd)"

subsection \<open>Reading a range\<close>

lemma snapshot_reader_ok:
  "snapshot_reader sn offs len = Inr r \<longleftrightarrow>
     in_bounds sn offs len \<and> r = \<lparr>rr_snapshot = sn, rr_offset = offs, rr_remaining = len\<rparr>"
  using checked_range_ok [of sn offs len] by (auto simp: snapshot_reader_def and_then_eq_Inr)

text \<open>One read: a nonempty chunk, and the reader of the rest.\<close>

lemma range_read_memory:
  assumes "reads_ok (rr_snapshot r)" "in_bounds (rr_snapshot r) (rr_offset r) (rr_remaining r)"
    and "rr_remaining r \<noteq> 0" "0 < cap"
  obtains n where "0 < n" "n \<le> rr_remaining r" "n \<le> cap"
    "range_read r cap =
       (Inr (slice_of (rr_offset r) (rr_offset r + n) (content (rr_snapshot r))),
        r\<lparr>rr_offset := rr_offset r + n, rr_remaining := rr_remaining r - n\<rparr>)"
proof
  let ?n = "min (rr_remaining r) cap"
  show n: "0 < ?n" "?n \<le> rr_remaining r" "?n \<le> cap" using assms(3,4) by simp_all
  from n(2) assms(2) have "in_bounds (rr_snapshot r) (rr_offset r) ?n" unfolding in_bounds_def by linarith
  with assms(1,3,4) show "range_read r cap =
      (Inr (slice_of (rr_offset r) (rr_offset r + ?n) (content (rr_snapshot r))),
       r\<lparr>rr_offset := rr_offset r + ?n, rr_remaining := rr_remaining r - ?n\<rparr>)"
    unfolding range_read_def by (simp add: read_exact_at_memory Let_def)
qed

abbreviation rr_data :: "range_reader \<Rightarrow> bytes" where
  "rr_data r \<equiv> slice_of (rr_offset r) (rr_offset r + rr_remaining r) (content (rr_snapshot r))"

lemma copy_loop_memory:
  assumes "reads_ok (rr_snapshot r)" "in_bounds (rr_snapshot r) (rr_offset r) (rr_remaining r)"
    and "length copied + rr_remaining r \<le> cap" "cap \<le> u64_max"
  shows "fst (copy_loop range_read (\<lambda>_ _. True) cap r copied) = Inr (copied @ rr_data r)"
  using assms
proof (induction "rr_remaining r" arbitrary: r copied rule: less_induct)
  case less
  define lim where "lim = min (min (cap - length copied + 1) u64_max) COPY_BUFFER_BYTES"
  show ?case
  proof (cases "rr_remaining r = 0")
    case True
    then show ?thesis by (subst copy_loop.simps) (simp add: range_read_def slice_of_def)
  next
    case False
    have "0 < lim" by (simp add: lim_def u64_max_def COPY_BUFFER_BYTES_def)
    with less.prems(1,2) False obtain n where n: "0 < n" "n \<le> rr_remaining r" and rd: "range_read r lim =
        (Inr (slice_of (rr_offset r) (rr_offset r + n) (content (rr_snapshot r))),
         r\<lparr>rr_offset := rr_offset r + n, rr_remaining := rr_remaining r - n\<rparr>)"
      by (rule range_read_memory)
    define chunk where "chunk = slice_of (rr_offset r) (rr_offset r + n) (content (rr_snapshot r))"
    let ?r = "r\<lparr>rr_offset := rr_offset r + n, rr_remaining := rr_remaining r - n\<rparr>"
    have len: "length chunk = n" using less.prems(2) n unfolding chunk_def in_bounds_def length_slice by linarith
    have "copy_loop range_read (\<lambda>_ _. True) cap r copied = copy_loop range_read (\<lambda>_ _. True) cap ?r (copied @ chunk)"
      using rd n len less.prems(3,4)
      by (subst copy_loop.simps) (auto simp: Let_def checked_add_u64_def chunk_def [symmetric] lim_def)
    moreover have "fst (copy_loop range_read (\<lambda>_ _. True) cap ?r (copied @ chunk)) = Inr ((copied @ chunk) @ rr_data ?r)"
      using less.prems n len by (intro less.hyps) (simp_all add: in_bounds_def)
    moreover have "rr_data r = chunk @ rr_data ?r"
      using slice_slice_split [of "rr_offset r" "rr_offset r + n" "rr_offset r + rr_remaining r" "content (rr_snapshot r)"] n
      by (simp add: chunk_def)
    ultimately show ?thesis by simp
  qed
qed

subsection \<open>Reading a Deflate stream\<close>

text \<open>A read conserves the input, adds its output to the counter, fits the room, and returns no
  bytes only at the end of the stream.\<close>

lemma deflate_loop_facts:
  assumes "deflate_loop flate capacity room dd = (Inr out, dd')"
  shows "dd_total_in dd' + pending_input dd' = dd_total_in dd + pending_input dd \<and>
    dd_total_out dd' = dd_total_out dd + length out \<and> length out \<le> room \<and> (out = [] \<longrightarrow> dd_ended dd')"
  using assms
proof (induction flate capacity room dd rule: deflate_loop.induct)
  case (1 flate capacity room dd)
  from "1.prems" obtain d1 where f: "fill_buf capacity dd = Inr d1"
    by (auto simp: deflate_loop.simps [of flate capacity room dd] split: sum.splits)
  with "1.prems" obtain stream_end taken emitted d where
    s: "inf_decompress flate (dd_decoder d1) (dd_buffer d1) room = Some (stream_end, taken, emitted, d)"
    by (auto simp: deflate_loop.simps [of flate capacity room dd] split: option.splits)
  note fill = fill_buf_pending [OF f]
  have same: "dd_total_in d1 = dd_total_in dd" "dd_total_out d1 = dd_total_out dd"
    using f by (auto simp: fill_buf_def split: if_splits prod.splits sum.splits)
  show ?case
  proof (cases "take room emitted \<noteq> [] \<or> stream_end")
    case True
    with "1.prems" f s fill same show ?thesis
      by (auto simp: deflate_loop.simps [of flate capacity room dd] Let_def)
  next
    case False
    with "1.prems" f s fill same "1.IH" [OF f s refl refl refl refl refl refl False] show ?thesis
      by (auto simp: deflate_loop.simps [of flate capacity room dd] Let_def split: if_splits)
  qed
qed

lemma deflate_read_facts:
  assumes "deflate_read flate capacity room dd = (Inr out, dd')" "0 < room"
  shows "dd_total_in dd' + pending_input dd' = dd_total_in dd + pending_input dd"
    "dd_total_out dd' = dd_total_out dd + length out" "length out \<le> room" "out = [] \<Longrightarrow> dd_ended dd'"
  using assms deflate_loop_facts [of flate capacity room dd out dd']
  by (auto simp: deflate_read_def split: if_splits)

end
