(* ===== verification/Verify.thy ===== *)
theory Verify
  imports Stream Policy Quota Ratio
begin

text \<open>
  Bounded verification of one member payload, \<open>verify_payload\<close> of \<open>crates/sealr/src/verification.rs\<close>.
  The payload is read in chunks of at most 64 KiB; every chunk is charged and tested against the
  declared size, the caps and the ratio before it is written and hashed. The bytes written so far are
  the state of the two incremental hashes. CRC-32 and SHA-256 are the packages \<open>crc32fast\<close> and
  \<open>sha2\<close>: parameters. A writer is the predicate that says whether it takes a chunk at a position.
\<close>

definition PAYLOAD_BUFFER_BYTES :: nat where
  "PAYLOAD_BUFFER_BYTES = 64 * 1024"

record payload_state =
  vp_actual :: quota_state
  vp_written :: bytes

type_synonym writer = "nat \<Rightarrow> bytes \<Rightarrow> bool"

definition verify_consume ::
  "payload_plan \<Rightarrow> resource_budget \<Rightarrow> u64 \<Rightarrow> writer \<Rightarrow> bytes \<Rightarrow> payload_state \<Rightarrow> finding + payload_state"
where
  "verify_consume plan budget remaining_total writer chunk st =
     (case consume (vp_actual st) (of_nat (length chunk)) of
        (Inl _, q) \<Rightarrow> Inl (finding_error QuotaOverflow)
      | (Inr actual_bytes, q) \<Rightarrow>
          if unat actual_bytes > pp_uncompressed_size plan then Inl (finding_error QuotaDeclaredLie)
          else if actual_bytes > max_member_bytes budget then Inl (finding_error QuotaMember)
          else if actual_bytes > remaining_total then Inl (finding_error QuotaTotal)
          else if (case max_ratio budget of
                     Some r \<Rightarrow> ratio_exceeds actual_bytes (of_nat (pp_compressed_size plan)) r
                   | None \<Rightarrow> False) then Inl (finding_error QuotaRatio)
          else if \<not> writer (length (vp_written st)) chunk then Inl (finding_error MaterializeIo)
          else Inr (st\<lparr>vp_actual := q, vp_written := vp_written st @ chunk\<rparr>))"

function verify_raw_loop ::
  "payload_plan \<Rightarrow> resource_budget \<Rightarrow> u64 \<Rightarrow> writer \<Rightarrow> range_reader \<Rightarrow> payload_state \<Rightarrow> finding + payload_state"
where
  "verify_raw_loop plan budget remaining_total writer r st =
     (case range_read r PAYLOAD_BUFFER_BYTES of
        (Inl f, _) \<Rightarrow> Inl f
      | (Inr chunk, r') \<Rightarrow>
          if chunk = [] then Inr st
          else case verify_consume plan budget remaining_total writer chunk st of
                 Inl f \<Rightarrow> Inl f
               | Inr st' \<Rightarrow> verify_raw_loop plan budget remaining_total writer r' st')"
  by pat_completeness auto
termination
  by (relation "measure (\<lambda>(_, _, _, _, r, _). rr_remaining r)") (auto dest!: range_read_length [OF sym] simp flip: length_greater_0_conv)

declare verify_raw_loop.simps [simp del]

text \<open>The loop over a Deflate stream ends because every chunk counts towards the declared size.\<close>

lemma verify_consume_grows:
  assumes "verify_consume plan budget remaining_total writer chunk st = Inr st'" "length chunk \<le> u64_max"
  shows "unat (used (vp_actual st')) = unat (used (vp_actual st)) + length chunk"
    "unat (used (vp_actual st')) \<le> pp_uncompressed_size plan"
proof -
  from assms(1) obtain n q where "consume (vp_actual st) (of_nat (length chunk)) = (Inr n, q)"
    "\<not> unat n > pp_uncompressed_size plan" "vp_actual st' = q"
    by (auto simp: verify_consume_def split: prod.splits sum.splits if_splits)
  with consume_ok [of "vp_actual st" "of_nat (length chunk)" n q] assms(2)
  show "unat (used (vp_actual st')) = unat (used (vp_actual st)) + length chunk"
    "unat (used (vp_actual st')) \<le> pp_uncompressed_size plan" by (auto simp: unat_of_nat_u64)
qed

function verify_deflate_loop ::
  "'d inflater \<Rightarrow> payload_plan \<Rightarrow> resource_budget \<Rightarrow> u64 \<Rightarrow> writer \<Rightarrow> 'd deflate_decoder \<Rightarrow> payload_state \<Rightarrow>
     finding + payload_state \<times> 'd deflate_decoder"
where
  "verify_deflate_loop flate plan budget remaining_total writer dd st =
     (case deflate_read flate PAYLOAD_BUFFER_BYTES PAYLOAD_BUFFER_BYTES dd of
        (Inl (DeflateSource f), _) \<Rightarrow> Inl f
      | (Inl DeflateInvalid, _) \<Rightarrow> Inl (finding_error CodecDeflateInvalidStream)
      | (Inr chunk, dd') \<Rightarrow>
          if chunk = [] then Inr (st, dd')
          else case verify_consume plan budget remaining_total writer chunk st of
                 Inl f \<Rightarrow> Inl f
               | Inr st' \<Rightarrow> verify_deflate_loop flate plan budget remaining_total writer dd' st')"
  by pat_completeness auto
termination
proof (relation "measure (\<lambda>(_, plan, _, _, _, _, st). pp_uncompressed_size plan - unat (used (vp_actual st)))",
    goal_cases)
  case (2 flate plan budget remaining_total writer dd st x dd' chunk st')
  then have "length chunk \<le> PAYLOAD_BUFFER_BYTES" "0 < length chunk"
    by (auto dest!: deflate_read_facts(3) [OF sym] simp: PAYLOAD_BUFFER_BYTES_def)
  with verify_consume_grows [OF 2(4)] show ?case
    by (simp add: PAYLOAD_BUFFER_BYTES_def u64_max_def del: length_greater_0_conv)
qed simp

declare verify_deflate_loop.simps [simp del]

definition verify_deflate ::
  "'d inflater \<Rightarrow> payload_plan \<Rightarrow> resource_budget \<Rightarrow> u64 \<Rightarrow> writer \<Rightarrow> range_reader \<Rightarrow> payload_state \<Rightarrow>
     finding + payload_state"
where
  "verify_deflate flate plan budget remaining_total writer r st =
     and_then (verify_deflate_loop flate plan budget remaining_total writer (deflate_new flate r) st) (\<lambda>(st', dd).
     if dd_total_in dd \<noteq> pp_compressed_size plan then Inl (finding_error CodecDeflateTrailingInput)
     else if dd_total_out dd \<noteq> unat (used (vp_actual st')) then Inl (finding_error CodecDeflateInvalidStream)
     else Inr st')"

definition payload_start :: payload_state where
  "payload_start = \<lparr>vp_actual = quota_new (- 1), vp_written = []\<rparr>"

text \<open>\<open>verify_payload\<close>, with the bytes the writer received.\<close>

definition verify_payload_into ::
  "(bytes \<Rightarrow> nat) \<Rightarrow> (bytes \<Rightarrow> bytes) \<Rightarrow> 'd inflater \<Rightarrow> range_reader \<Rightarrow> payload_plan \<Rightarrow> resource_budget \<Rightarrow> u64 \<Rightarrow>
     writer \<Rightarrow> finding + (u64 \<times> nat \<times> bytes) \<times> bytes"
where
  "verify_payload_into crc sha flate r plan budget remaining_total writer =
     and_then
       (case pp_codec plan of
          RawCodec \<Rightarrow> verify_raw_loop plan budget remaining_total writer r payload_start
        | DeflateCodec \<Rightarrow> verify_deflate flate plan budget remaining_total writer r payload_start
        | UnsupportedCodec _ \<Rightarrow> Inl (finding_error MethodUnsupported)) (\<lambda>st.
     let actual = used (vp_actual st);
         checksum = crc (vp_written st)
     in if unat actual \<noteq> pp_uncompressed_size plan then Inl (finding_error QuotaDeclaredLie)
        else if (case pp_integrity plan of Crc32 expected \<Rightarrow> checksum \<noteq> expected | NoIntegrity \<Rightarrow> False)
        then Inl (finding_error CrcMismatch)
        else Inr ((actual, checksum, sha (vp_written st)), vp_written st))"

definition verify_payload ::
  "(bytes \<Rightarrow> nat) \<Rightarrow> (bytes \<Rightarrow> bytes) \<Rightarrow> 'd inflater \<Rightarrow> range_reader \<Rightarrow> payload_plan \<Rightarrow> resource_budget \<Rightarrow> u64 \<Rightarrow>
     writer \<Rightarrow> finding + u64 \<times> nat \<times> bytes"
where
  "verify_payload crc sha flate r plan budget remaining_total writer =
     and_then (verify_payload_into crc sha flate r plan budget remaining_total writer) (\<lambda>(x, _). Inr x)"

definition digest_hex :: "bytes \<Rightarrow> string" where
  "digest_hex digest = concat (map hex_byte digest)"

subsection \<open>What an accepted payload is\<close>

text \<open>A total that passes every test of \<open>verify_consume\<close>.\<close>

definition payload_fits :: "payload_plan \<Rightarrow> resource_budget \<Rightarrow> u64 \<Rightarrow> nat \<Rightarrow> bool" where
  "payload_fits plan b budg n \<longleftrightarrow>
     n \<le> pp_uncompressed_size plan \<and> n \<le> unat (max_member_bytes b) \<and> n \<le> unat budg \<and>
     (\<forall>r. max_ratio b = Some r \<longrightarrow> n \<le> unat r * pp_compressed_size plan)"

lemma payload_fits_mono: "\<lbrakk>payload_fits plan b budg m; n \<le> m\<rbrakk> \<Longrightarrow> payload_fits plan b budg n"
  unfolding payload_fits_def by (meson le_trans)

text \<open>The state after the bytes \<open>d\<close> were written.\<close>

definition payload_at :: "bytes \<Rightarrow> payload_state" where
  "payload_at d = \<lparr>vp_actual = \<lparr>used = of_nat (length d), limit = - 1\<rparr>, vp_written = d\<rparr>"

lemma payload_start_at: "payload_start = payload_at []"
  by (simp add: payload_start_def quota_new_def payload_at_def)

lemma verify_consume_ok:
  assumes "pp_compressed_size plan \<le> u64_max" "length (d @ chunk) \<le> u64_max"
  shows "verify_consume plan b budg w chunk (payload_at d) = Inr st \<longleftrightarrow>
    payload_fits plan b budg (length (d @ chunk)) \<and> w (length d) chunk \<and> st = payload_at (d @ chunk)"
proof -
  let ?n = "length (d @ chunk)"
  have "unat (- 1 :: u64) = u64_max" by (simp add: u64_max_def unsigned_minus_1_eq_mask mask_eq_exp_minus_1)
  then have c: "consume (vp_actual (payload_at d)) (of_nat (length chunk)) =
      (Inr (of_nat ?n), \<lparr>used = of_nat ?n, limit = - 1\<rparr>)"
    using assms(2) by (simp add: consume_cases payload_at_def unat_of_nat_u64)
  have n: "unat (of_nat ?n :: u64) = ?n" by (rule unat_of_nat_u64 [OF assms(2)])
  show ?thesis
    unfolding verify_consume_def c prod.case sum.case n using assms(1)
    by (auto simp: n payload_fits_def payload_at_def unat_of_nat_u64 word_less_nat_alt not_less
        ratio_exceeds_nat simp del: of_nat_add length_append split: option.split)
qed

text \<open>The writer is offered the bytes in pieces of the buffer size, from a position on.\<close>

definition writer_takes :: "writer \<Rightarrow> nat \<Rightarrow> bytes \<Rightarrow> bool" where
  "writer_takes w start data \<longleftrightarrow>
     (\<forall>k. k * PAYLOAD_BUFFER_BYTES < length data \<longrightarrow>
        w (start + k * PAYLOAD_BUFFER_BYTES) (take PAYLOAD_BUFFER_BYTES (drop (k * PAYLOAD_BUFFER_BYTES) data)))"

lemma writer_takes_all [simp]: "writer_takes (\<lambda>_ _. True) start data"
  by (simp add: writer_takes_def)

lemma writer_takes_Nil [simp]: "writer_takes w start []"
  by (simp add: writer_takes_def)

lemma writer_takes_piece:
  assumes "data \<noteq> []"
  shows "writer_takes w start data \<longleftrightarrow>
    w start (take PAYLOAD_BUFFER_BYTES data) \<and> writer_takes w (start + PAYLOAD_BUFFER_BYTES) (drop PAYLOAD_BUFFER_BYTES data)"
proof -
  let ?B = PAYLOAD_BUFFER_BYTES
  let ?P = "\<lambda>k. k * ?B < length data \<longrightarrow> w (start + k * ?B) (take ?B (drop (k * ?B) data))"
  have "writer_takes w start data \<longleftrightarrow> ?P 0 \<and> (\<forall>k. ?P (Suc k))"
    unfolding writer_takes_def by (metis not0_implies_Suc)
  moreover have "?P (Suc k) \<longleftrightarrow> (k * ?B < length (drop ?B data) \<longrightarrow>
      w (start + ?B + k * ?B) (take ?B (drop (k * ?B) (drop ?B data))))" for k
    by (simp add: ac_simps less_diff_conv)
  ultimately show ?thesis using assms by (simp add: writer_takes_def)
qed

lemma range_read_piece:
  assumes "reads_ok (rr_snapshot r)" "in_bounds (rr_snapshot r) (rr_offset r) (rr_remaining r)" "rr_remaining r \<noteq> 0"
  obtains r' where "range_read r PAYLOAD_BUFFER_BYTES = (Inr (take PAYLOAD_BUFFER_BYTES (rr_data r)), r')"
    "rr_snapshot r' = rr_snapshot r" "in_bounds (rr_snapshot r') (rr_offset r') (rr_remaining r')"
    "rr_remaining r' < rr_remaining r" "rr_data r' = drop PAYLOAD_BUFFER_BYTES (rr_data r)"
proof
  let ?n = "min (rr_remaining r) PAYLOAD_BUFFER_BYTES"
  let ?r = "r\<lparr>rr_offset := rr_offset r + ?n, rr_remaining := rr_remaining r - ?n\<rparr>"
  have B: "0 < PAYLOAD_BUFFER_BYTES" by (simp add: PAYLOAD_BUFFER_BYTES_def)
  have "in_bounds (rr_snapshot r) (rr_offset r) ?n" using assms(2) unfolding in_bounds_def by linarith
  then show "range_read r PAYLOAD_BUFFER_BYTES = (Inr (take PAYLOAD_BUFFER_BYTES (rr_data r)), ?r)"
    using assms(1,3) B by (simp add: range_read_def read_exact_at_memory slice_of_def min.commute Let_def)
  show "rr_snapshot ?r = rr_snapshot r" by simp
  show "in_bounds (rr_snapshot ?r) (rr_offset ?r) (rr_remaining ?r)" using assms(2) by (simp add: in_bounds_def)
  show "rr_remaining ?r < rr_remaining r" using assms(3) B by simp
  show "rr_data ?r = drop PAYLOAD_BUFFER_BYTES (rr_data r)"
    by (cases "rr_remaining r \<le> PAYLOAD_BUFFER_BYTES") (simp_all add: slice_of_def drop_take add.commute)
qed

text \<open>One chunk: it passes when the total still fits and the writer takes it; a refusal of the writer alone
  is its finding.\<close>

lemma verify_consume_refused:
  assumes "pp_compressed_size plan \<le> u64_max" "length (d @ chunk) \<le> u64_max"
    "payload_fits plan b budg (length (d @ chunk))" "\<not> w (length d) chunk"
  shows "verify_consume plan b budg w chunk (payload_at d) = Inl (finding_error MaterializeIo)"
proof -
  have "verify_consume plan b budg (\<lambda>_ _. True) chunk (payload_at d) = Inr (payload_at (d @ chunk))"
    using verify_consume_ok [OF assms(1,2)] assms(3) by blast
  then show ?thesis using assms(4)
    by (auto simp: verify_consume_def payload_at_def split: prod.splits sum.splits if_splits)
qed

text \<open>The raw loop over a range that is in bounds.\<close>

lemma verify_raw_loop_ok:
  assumes "reads_ok (rr_snapshot r)" "in_bounds (rr_snapshot r) (rr_offset r) (rr_remaining r)"
    and "pp_compressed_size plan \<le> u64_max" "length (d @ rr_data r) \<le> u64_max" "payload_fits plan b budg (length d)"
  shows "(verify_raw_loop plan b budg w r (payload_at d) = Inr st \<longleftrightarrow>
      payload_fits plan b budg (length (d @ rr_data r)) \<and> writer_takes w (length d) (rr_data r) \<and>
      st = payload_at (d @ rr_data r)) \<and>
    (payload_fits plan b budg (length (d @ rr_data r)) \<and> \<not> writer_takes w (length d) (rr_data r) \<longrightarrow>
      verify_raw_loop plan b budg w r (payload_at d) = Inl (finding_error MaterializeIo))"
  using assms
proof (induction "rr_remaining r" arbitrary: r d rule: less_induct)
  case less
  show ?case
  proof (cases "rr_remaining r = 0")
    case True
    then show ?thesis using less.prems(5)
      by (subst (1 2) verify_raw_loop.simps) (auto simp: range_read_def slice_of_def)
  next
    case False
    with less.prems(1,2) obtain r' where rd: "range_read r PAYLOAD_BUFFER_BYTES = (Inr (take PAYLOAD_BUFFER_BYTES (rr_data r)), r')"
      and r': "rr_snapshot r' = rr_snapshot r" "in_bounds (rr_snapshot r') (rr_offset r') (rr_remaining r')"
        "rr_remaining r' < rr_remaining r" "rr_data r' = drop PAYLOAD_BUFFER_BYTES (rr_data r)"
      by (rule range_read_piece)
    define chunk where "chunk = take PAYLOAD_BUFFER_BYTES (rr_data r)"
    have split: "rr_data r = chunk @ rr_data r'" unfolding chunk_def r'(4) by simp
    have ne: "rr_data r \<noteq> []" using False less.prems(2) unfolding in_bounds_def by (auto simp flip: length_0_conv)
    then have chunk: "chunk \<noteq> []" by (simp add: chunk_def PAYLOAD_BUFFER_BYTES_def)
    have len: "rr_data r' = [] \<or> length chunk = PAYLOAD_BUFFER_BYTES" unfolding chunk_def r'(4) by auto
    have takes: "writer_takes w (length d) (rr_data r) \<longleftrightarrow> w (length d) chunk \<and> writer_takes w (length (d @ chunk)) (rr_data r')"
      using writer_takes_piece [OF ne, of w "length d"] len unfolding chunk_def [symmetric] r'(4) [symmetric] by auto
    have bound: "length (d @ chunk) \<le> u64_max" using less.prems(4) unfolding split by simp
    have unf: "verify_raw_loop plan b budg w r (payload_at d) =
        (case verify_consume plan b budg w chunk (payload_at d) of Inl f \<Rightarrow> Inl f
         | Inr s \<Rightarrow> verify_raw_loop plan b budg w r' s)"
      using chunk by (subst verify_raw_loop.simps) (simp add: rd chunk_def)
    note c = verify_consume_ok [OF less.prems(3) bound, of b budg w]
    have total: "length (d @ rr_data r) = length ((d @ chunk) @ rr_data r')" unfolding split by simp
    have mono: "payload_fits plan b budg (length (d @ rr_data r)) \<Longrightarrow> payload_fits plan b budg (length (d @ chunk))"
      using payload_fits_mono [of plan b budg "length ((d @ chunk) @ rr_data r')" "length (d @ chunk)"] unfolding total by simp
    show ?thesis
    proof (cases "payload_fits plan b budg (length (d @ chunk)) \<and> w (length d) chunk")
      case False
      then have "verify_consume plan b budg w chunk (payload_at d) \<noteq> Inr s" for s using c by blast
      moreover have "verify_consume plan b budg w chunk (payload_at d) = Inl (finding_error MaterializeIo)"
        if "payload_fits plan b budg (length (d @ rr_data r))"
        using verify_consume_refused [OF less.prems(3) bound mono [OF that]] mono [OF that] False by blast
      ultimately show ?thesis using False mono takes unfolding unf by (auto split: sum.split)
    next
      case True
      then have "verify_consume plan b budg w chunk (payload_at d) = Inr (payload_at (d @ chunk))" using c by blast
      moreover have "d @ rr_data r = (d @ chunk) @ rr_data r'" unfolding split by simp
      moreover note less.hyps [of r' "d @ chunk"]
      ultimately show ?thesis
        using less.prems(1,3,4) r' True unfolding unf takes by (simp only: sum.case) simp
    qed
  qed
qed

definition integrity_ok :: "payload_integrity \<Rightarrow> nat \<Rightarrow> bool" where
  "integrity_ok i checksum \<longleftrightarrow> (\<forall>expected. i = Crc32 expected \<longrightarrow> checksum = expected)"

lemma verify_raw_writes:
  assumes "reads_ok sn" "in_bounds sn offs len" "pp_codec plan = RawCodec" "pp_compressed_size plan \<le> u64_max"
  defines "data \<equiv> slice_of offs (offs + len) (content sn)"
  shows "verify_payload_into crc sha flate \<lparr>rr_snapshot = sn, rr_offset = offs, rr_remaining = len\<rparr> plan b budg w = Inr x \<longleftrightarrow>
      len = pp_uncompressed_size plan \<and> payload_fits plan b budg len \<and> writer_takes w 0 data \<and>
      integrity_ok (pp_integrity plan) (crc data) \<and> x = ((of_nat len, crc data, sha data), data)"
    and "\<lbrakk>payload_fits plan b budg len; \<not> writer_takes w 0 data\<rbrakk> \<Longrightarrow>
      verify_payload_into crc sha flate \<lparr>rr_snapshot = sn, rr_offset = offs, rr_remaining = len\<rparr> plan b budg w =
        Inl (finding_error MaterializeIo)"
proof -
  let ?r = "\<lparr>rr_snapshot = sn, rr_offset = offs, rr_remaining = len\<rparr>"
  have len: "len \<le> u64_max" "length data = len" using assms(2) by (auto simp: in_bounds_def data_def)
  have zero: "payload_fits plan b budg 0" by (simp add: payload_fits_def)
  have loop: "(verify_raw_loop plan b budg w ?r payload_start = Inr st \<longleftrightarrow>
      payload_fits plan b budg (length data) \<and> writer_takes w 0 data \<and> st = payload_at data) \<and>
    (payload_fits plan b budg (length data) \<and> \<not> writer_takes w 0 data \<longrightarrow>
      verify_raw_loop plan b budg w ?r payload_start = Inl (finding_error MaterializeIo))" for st
    using verify_raw_loop_ok [of ?r plan "[]" b budg w st] assms(1,2,4) len zero
    unfolding payload_start_at by (simp add: data_def del: length_slice)
  have st: "verify_raw_loop plan b budg w ?r payload_start = Inr st \<longleftrightarrow>
      payload_fits plan b budg len \<and> writer_takes w 0 data \<and> st = payload_at data" for st
    using loop [of st] unfolding len(2) by blast
  show "verify_payload_into crc sha flate ?r plan b budg w = Inr x \<longleftrightarrow>
      len = pp_uncompressed_size plan \<and> payload_fits plan b budg len \<and> writer_takes w 0 data \<and>
      integrity_ok (pp_integrity plan) (crc data) \<and> x = ((of_nat len, crc data, sha data), data)"
    unfolding verify_payload_into_def and_then_eq_Inr assms(3) payload_codec.case st Let_def
    using len by (auto simp: payload_at_def unat_of_nat_u64 integrity_ok_def split: payload_integrity.splits)
  show "verify_payload_into crc sha flate ?r plan b budg w = Inl (finding_error MaterializeIo)"
    if "payload_fits plan b budg len" "\<not> writer_takes w 0 data"
    using loop that unfolding len(2) by (simp add: verify_payload_into_def assms(3))
qed

lemma verify_raw_into:
  assumes "reads_ok sn" "in_bounds sn offs len" "pp_codec plan = RawCodec" "pp_compressed_size plan \<le> u64_max"
  shows "verify_payload_into crc sha flate \<lparr>rr_snapshot = sn, rr_offset = offs, rr_remaining = len\<rparr> plan b budg
      (\<lambda>_ _. True) = Inr x \<longleftrightarrow>
    (let data = slice_of offs (offs + len) (content sn)
     in len = pp_uncompressed_size plan \<and> payload_fits plan b budg len \<and> integrity_ok (pp_integrity plan) (crc data) \<and>
        x = ((of_nat len, crc data, sha data), data))"
  by (simp add: verify_raw_writes(1) [OF assms] Let_def)

subsection \<open>Properties\<close>

text \<open>C14. Verification of a stored payload is exact. Over a range within bounds of a snapshot whose reads succeed it holds exactly
  when the range has the declared size, that size is within the member cap, the remaining total and
  the ratio, the writer takes the bytes in order in pieces of 64 KiB, and the declared CRC, if any, is the
  one of the bytes; the result is then the size, the CRC and the digest of exactly the bytes of the range,
  and these are the bytes the writer got. When only the writer refuses a piece of a range that fits, the finding is \<open>materialize.io\<close>.\<close>

theorem verify_payload_exact:
  assumes "reads_ok sn" "snapshot_reader sn offs len = Inr r" "pp_codec plan = RawCodec"
    and "pp_compressed_size plan \<le> u64_max"
  shows "(verify_payload_into crc sha flate r plan b budg w = Inr (x, written) \<longleftrightarrow>
    (let data = slice_of offs (offs + len) (content sn)
     in len = pp_uncompressed_size plan \<and> len \<le> unat (max_member_bytes b) \<and> len \<le> unat budg \<and>
        (\<forall>cap. max_ratio b = Some cap \<longrightarrow> len \<le> unat cap * pp_compressed_size plan) \<and>
        writer_takes w 0 data \<and> integrity_ok (pp_integrity plan) (crc data) \<and>
        x = (of_nat len, crc data, sha data) \<and> written = data)) \<and>
    (verify_payload crc sha flate r plan b budg w = Inr x \<longleftrightarrow>
      (\<exists>written. verify_payload_into crc sha flate r plan b budg w = Inr (x, written))) \<and>
    (payload_fits plan b budg len \<and> \<not> writer_takes w 0 (slice_of offs (offs + len) (content sn)) \<longrightarrow>
      verify_payload crc sha flate r plan b budg w = Inl (finding_error MaterializeIo))"
proof -
  have r: "r = \<lparr>rr_snapshot = sn, rr_offset = offs, rr_remaining = len\<rparr>" "in_bounds sn offs len"
    using assms(2) by (auto simp: snapshot_reader_ok)
  note writes = verify_raw_writes [OF assms(1) r(2) assms(3,4), folded r(1), where crc = crc and sha = sha and flate = flate
    and b = b and budg = budg and w = w]
  have "verify_payload_into crc sha flate r plan b budg w = Inr (x, written) \<longleftrightarrow>
    (let data = slice_of offs (offs + len) (content sn)
     in len = pp_uncompressed_size plan \<and> len \<le> unat (max_member_bytes b) \<and> len \<le> unat budg \<and>
        (\<forall>cap. max_ratio b = Some cap \<longrightarrow> len \<le> unat cap * pp_compressed_size plan) \<and>
        writer_takes w 0 data \<and> integrity_ok (pp_integrity plan) (crc data) \<and>
        x = (of_nat len, crc data, sha data) \<and> written = data)"
    unfolding writes(1) Let_def by (auto simp: payload_fits_def)
  moreover have "verify_payload crc sha flate r plan b budg w = Inr x \<longleftrightarrow>
      (\<exists>written. verify_payload_into crc sha flate r plan b budg w = Inr (x, written))"
    by (cases x) (auto simp: verify_payload_def and_then_eq_Inr)
  moreover have "verify_payload crc sha flate r plan b budg w = Inl (finding_error MaterializeIo)"
    if "payload_fits plan b budg len" "\<not> writer_takes w 0 (slice_of offs (offs + len) (content sn))"
    using writes(2) [OF that] by (simp add: verify_payload_def)
  ultimately show ?thesis by blast
qed

definition example_payload_plan :: payload_plan where
  "example_payload_plan = tar_plan domain_original \<lparr>offset = 1, rlen = 2\<rparr> 2"

definition example_payload_snapshot :: snapshot where
  "example_payload_snapshot = \<lparr>content = [1, 2, 3, 4], backing = Memory\<rparr>"

theorem verify_payload_exact_witness:
  "verify_payload length id \<lparr>inf_new = (), inf_decompress = (\<lambda>_ _ _. None)\<rparr>
     \<lparr>rr_snapshot = example_payload_snapshot, rr_offset = 1, rr_remaining = 2\<rparr> example_payload_plan
     (cc_budget (compile_controls default_v1)) 10 (\<lambda>pos chunk. chunk = [2, 3]) = Inr (2, 2, [2, 3]) \<and>
   verify_payload length id \<lparr>inf_new = (), inf_decompress = (\<lambda>_ _ _. None)\<rparr>
     \<lparr>rr_snapshot = example_payload_snapshot, rr_offset = 1, rr_remaining = 2\<rparr> example_payload_plan
     (cc_budget (compile_controls default_v1)) 10 (\<lambda>pos chunk. chunk = []) = Inl (finding_error MaterializeIo)"
proof -
  have ok: "reads_ok example_payload_snapshot"
    "snapshot_reader example_payload_snapshot 1 2 = Inr \<lparr>rr_snapshot = example_payload_snapshot, rr_offset = 1, rr_remaining = 2\<rparr>"
    "pp_codec example_payload_plan = RawCodec" "pp_compressed_size example_payload_plan \<le> u64_max"
    by (simp_all add: example_payload_snapshot_def snapshot_reader_ok in_bounds_def u64_max_def example_payload_plan_def tar_plan_def)
  have data: "slice_of 1 (1 + 2) (content example_payload_snapshot) = [2, 3]"
    by (simp add: example_payload_snapshot_def slice_of_def)
  have fits: "payload_fits example_payload_plan (cc_budget (compile_controls default_v1)) 10 2"
    "pp_uncompressed_size example_payload_plan = 2"
    "integrity_ok (pp_integrity example_payload_plan) c" for c
    by (auto simp: payload_fits_def example_payload_plan_def tar_plan_def compile_controls_def default_v1_def integrity_ok_def)
  have takes: "writer_takes (\<lambda>pos chunk. chunk = [2, 3]) 0 [2, 3]" "\<not> writer_takes (\<lambda>pos chunk. chunk = []) 0 [2, 3 :: u8]"
    by (simp_all add: writer_takes_piece, simp_all add: PAYLOAD_BUFFER_BYTES_def)
  note exact = verify_payload_exact [OF ok, where crc = length and sha = id and flate = "\<lparr>inf_new = (), inf_decompress = (\<lambda>_ _ _. None)\<rparr>"
    and b = "cc_budget (compile_controls default_v1)" and budg = 10, unfolded data]
  note taken = exact [where w = "\<lambda>pos chunk. chunk = [2, 3]" and x = "(2, 2, [2, 3])" and written = "[2, 3]"]
  from taken [THEN conjunct1] fits takes(1)
  have "verify_payload_into length id \<lparr>inf_new = (), inf_decompress = (\<lambda>_ _ _. None)\<rparr>
     \<lparr>rr_snapshot = example_payload_snapshot, rr_offset = 1, rr_remaining = 2\<rparr> example_payload_plan
     (cc_budget (compile_controls default_v1)) 10 (\<lambda>pos chunk. chunk = [2, 3]) = Inr ((2, 2, [2, 3]), [2, 3])"
    by (simp add: payload_fits_def)
  with taken [THEN conjunct2, THEN conjunct1]
    exact [where w = "\<lambda>pos chunk. chunk = []", THEN conjunct2, THEN conjunct2] fits(1) takes(2)
  show ?thesis by blast
qed

end
