(* ===== verification/Transform.thy ===== *)
theory Transform
  imports Verify
begin

text \<open>
  Snapshot domains and the graph of transformations between them, \<open>SnapshotSet\<close>, \<open>TransformProfile\<close>
  and \<open>TransformGraph\<close> of \<open>crates/sealr/src/snapshot.rs\<close>. A domain is a snapshot with its digest and
  its caller path. The graph records, for every derived domain, the profile, the input range with
  its digest and the output identity; appending a domain and its record is one operation.
  Allocation failure is not modelled.
\<close>

record source_snapshot =
  so_snapshot :: snapshot
  so_digest :: source_digest
  so_path :: "string option"

type_synonym snapshot_set = "source_snapshot list"

abbreviation so_len :: "source_snapshot \<Rightarrow> nat" where
  "so_len s \<equiv> snapshot_len (so_snapshot s)"

text \<open>\<open>SourceSnapshot::borrowed\<close>, the snapshot of caller bytes.\<close>

definition borrowed :: "(bytes \<Rightarrow> bytes) \<Rightarrow> string option \<Rightarrow> bytes \<Rightarrow> source_snapshot" where
  "borrowed sha path bs = \<lparr>so_snapshot = \<lparr>content = bs, backing = Memory\<rparr>,
     so_digest = Available (hex_sha256 sha bs), so_path = path\<rparr>"

definition from_original :: "source_snapshot \<Rightarrow> snapshot_set" where
  "from_original s = [s]"

definition set_original :: "snapshot_set \<Rightarrow> source_snapshot" where
  "set_original ds = hd ds"

definition set_domain :: "snapshot_set \<Rightarrow> nat \<Rightarrow> source_snapshot option" where
  "set_domain ds d = (if d < length ds then Some (ds ! d) else None)"

definition set_reader :: "snapshot_set \<Rightarrow> domain_range \<Rightarrow> finding + range_reader" where
  "set_reader ds source =
     and_then (ok_or (finding_error CoveringInconsistent) (set_domain ds (dr_domain source))) (\<lambda>s.
     snapshot_reader (so_snapshot s) (offset (dr_range source)) (rlen (dr_range source)))"

definition planned_payload_reader :: "snapshot_set \<Rightarrow> payload_plan \<Rightarrow> rust_str \<Rightarrow> finding + range_reader" where
  "planned_payload_reader ds plan name = map_err (on_member name) (set_reader ds (pp_source plan))"

definition range_sha256 :: "(bytes \<Rightarrow> bytes) \<Rightarrow> snapshot_set \<Rightarrow> domain_range \<Rightarrow> finding + string" where
  "range_sha256 sha ds source =
     and_then (set_reader ds source) (\<lambda>r.
     and_then (fst (copy_bounded sha range_read (\<lambda>_ _. True) r (rlen (dr_range source)))) (\<lambda>(_, len, sha256).
     if len \<noteq> rlen (dr_range source) then Inl (finding_error SourceIo) else Inr sha256))"

subsection \<open>Transform profiles\<close>

datatype transform_profile =
    GzipRfc1952SingleMemberV1 | ZstdRfc8878SingleFrameV1 | XzSingleStreamV1 | Bzip2SingleStreamV1

primrec profile_id :: "transform_profile \<Rightarrow> string" where
  "profile_id GzipRfc1952SingleMemberV1 = ''sealr.transform.gzip.rfc1952-single-member.v1''"
| "profile_id ZstdRfc8878SingleFrameV1 = ''sealr.transform.zstd.rfc8878-single-frame.v1''"
| "profile_id XzSingleStreamV1 = ''sealr.transform.xz.xzfmt-single-stream.v1''"
| "profile_id Bzip2SingleStreamV1 = ''sealr.transform.bzip2.bzip2fmt-single-stream.v1''"

primrec profile_definition :: "transform_profile \<Rightarrow> string" where
  "profile_definition GzipRfc1952SingleMemberV1 =
     ''algorithm=rfc1952-gzip;members=exactly-one;reserved-flags=zero;extra-fields=exact-subfield-framing-si2-nonzero-unique-ids;trailing-data=forbidden;header-crc=verify-when-present;data-crc32=verify;isize=verify;payload=rfc1951-deflate;output=bounded''"
| "profile_definition ZstdRfc8878SingleFrameV1 =
     ''algorithm=rfc8878-zstd;frames=exactly-one;skippable-frames=forbidden;reserved-descriptor-bit=zero;unused-descriptor-bit=zero;dictionary=forbidden;window-size-max-bytes=8388608;frame-content-size=verify-when-present;content-checksum-xxh64=verify-when-present;trailing-data=forbidden;payload=rfc8878-blocks;output=bounded''"
| "profile_definition XzSingleStreamV1 =
     ''algorithm=xz-file-format-1.2.1;streams=exactly-one;blocks=one-to-4096;filter-chain=exactly-lzma2;dictionary-max-bytes=8388608;checks=crc32-crc64-sha256-verified-twice;check-none=forbidden;declared-block-sizes=both-or-neither-verified;backward-size=verify;reserved-bits=zero;stream-padding=forbidden;trailing-data=forbidden;output=bounded''"
| "profile_definition Bzip2SingleStreamV1 =
     ''algorithm=bzip2fmt-1.0.8;streams=exactly-one;blocks=one-to-65536;header-level=1-to-9;randomized-blocks=forbidden;block-magic-scan=chain-fold-verified;block-crcs=decoder-verified-single-block-verified-twice;combined-crc=extracted-and-verified;footer-padding-bits=zero;trailing-data=forbidden;output=bounded''"

primrec profile_digest :: "transform_profile \<Rightarrow> string" where
  "profile_digest GzipRfc1952SingleMemberV1 = ''795a124c278eacf1fb9b4fc3825a74240d6d0e89c29ffdfe6118ff6db53c0a45''"
| "profile_digest ZstdRfc8878SingleFrameV1 = ''86745123584dc79e454f8f1bbf5a1bd1b75d1334902fd629e8eee8f251aa9d19''"
| "profile_digest XzSingleStreamV1 = ''b3c323849a366141edc28e0c5ab0028253430d0f6a5bda2ebec728c3a6543667''"
| "profile_digest Bzip2SingleStreamV1 = ''3520def23a770b24a29ae037ae31d3bfefeb3faf7132b07913ae71dbf028ece4''"

primrec decoder_parameters :: "transform_profile \<Rightarrow> string" where
  "decoder_parameters GzipRfc1952SingleMemberV1 = ''rfc1951-window-bits=15;preset-dictionary=none''"
| "decoder_parameters ZstdRfc8878SingleFrameV1 =
     ''rfc8878-max-window-bytes=8388608;dictionary=none;block-decoding=bounded-incremental''"
| "decoder_parameters XzSingleStreamV1 =
     ''lzma2-dictionary-max-bytes=8388608;decoder-memory-limit-kib=8256;multiple-streams=denied;stream-decoding=bounded-incremental''"
| "decoder_parameters Bzip2SingleStreamV1 =
     ''libbz2-rs-decompress-small=false;memory-ceiling-bytes=3700000;multiple-streams=denied;stream-decoding=bounded-incremental''"

primrec decoder_parameters_digest :: "transform_profile \<Rightarrow> string" where
  "decoder_parameters_digest GzipRfc1952SingleMemberV1 = ''c835627b01c4b54041c627319fab4d5af294a203ac26fbe91cadb6d1f17cd5e1''"
| "decoder_parameters_digest ZstdRfc8878SingleFrameV1 = ''a4a46d31cf8acbbfe043745ba1df4f43b7a955efc28ee8913804a99bae79d503''"
| "decoder_parameters_digest XzSingleStreamV1 = ''ebdf4f3d9624cad6b245054d78f84ca50f8cea18a368e0025d2812dae8799032''"
| "decoder_parameters_digest Bzip2SingleStreamV1 = ''c5c288439edcf5710a640215400fa2481f06fb0a2381ec96db29f7e1ace36195''"

definition ascii_bytes :: "string \<Rightarrow> bytes" where
  "ascii_bytes s = map (\<lambda>c. of_nat (of_char c)) s"

definition is_transform_profile_id :: "string \<Rightarrow> bool" where
  "is_transform_profile_id s \<longleftrightarrow>
     s \<noteq> [] \<and> length s \<le> 255 \<and>
     list_all (\<lambda>c. let b = (of_char c :: nat) in (97 \<le> b \<and> b \<le> 122) \<or> (48 \<le> b \<and> b \<le> 57) \<or> c \<in> {CHR ''.'', CHR ''-'', CHR ''_''}) s"

definition is_sha256_hex :: "string \<Rightarrow> bool" where
  "is_sha256_hex s \<longleftrightarrow>
     length s = 64 \<and> list_all (\<lambda>c. let b = (of_char c :: nat) in (48 \<le> b \<and> b \<le> 57) \<or> (97 \<le> b \<and> b \<le> 102)) s"

text \<open>\<open>u64::to_be_bytes\<close>.\<close>

definition to_be_bytes :: "nat \<Rightarrow> bytes" where
  "to_be_bytes n = map (\<lambda>i. of_nat (n div 256 ^ (7 - i) mod 256)) [0..<8]"

definition transform_profile_sha256 :: "(bytes \<Rightarrow> bytes) \<Rightarrow> string \<Rightarrow> string \<Rightarrow> string" where
  "transform_profile_sha256 sha ident def =
     hex_sha256 sha (ascii_bytes ''sealr.transform-profile.v1'' @ [0] @ to_be_bytes (length ident) @
       ascii_bytes ident @ to_be_bytes (length def) @ ascii_bytes def)"

definition profile_validates :: "(bytes \<Rightarrow> bytes) \<Rightarrow> transform_profile \<Rightarrow> bool" where
  "profile_validates sha p \<longleftrightarrow>
     is_transform_profile_id (profile_id p) \<and> profile_definition p \<noteq> [] \<and> is_sha256_hex (profile_digest p) \<and>
     transform_profile_sha256 sha (profile_id p) (profile_definition p) = profile_digest p \<and>
     is_sha256_hex (decoder_parameters_digest p) \<and>
     hex_sha256 sha (ascii_bytes (decoder_parameters p)) = decoder_parameters_digest p"

subsection \<open>The transform graph\<close>

record transform_record =
  tr_profile :: transform_profile
  tr_profile_id :: string
  tr_profile_sha256 :: string
  tr_decoder_parameters_sha256 :: string
  tr_input :: domain_range
  tr_input_sha256 :: string
  tr_output_domain :: nat
  tr_output_len :: nat
  tr_output_sha256 :: string

type_synonym transform_graph = "transform_record list"

definition u16_max :: nat where
  "u16_max = 65535"

definition record_validates :: "(bytes \<Rightarrow> bytes) \<Rightarrow> snapshot_set \<Rightarrow> nat \<Rightarrow> transform_record \<Rightarrow> bool" where
  "record_validates sha ds index r =
     (let output_number = index + 1
      in if output_number > u16_max then False
         else if \<not> profile_validates sha (tr_profile r) \<or> tr_profile_id r \<noteq> profile_id (tr_profile r) \<or>
            \<not> is_sha256_hex (tr_profile_sha256 r) \<or> tr_profile_sha256 r \<noteq> profile_digest (tr_profile r) \<or>
            \<not> is_sha256_hex (tr_decoder_parameters_sha256 r) \<or>
            tr_decoder_parameters_sha256 r \<noteq> decoder_parameters_digest (tr_profile r) \<or>
            \<not> is_sha256_hex (tr_input_sha256 r) \<or> tr_output_domain r \<noteq> output_number \<or>
            dr_domain (tr_input r) \<ge> output_number
         then False
         else case range_sha256 sha ds (tr_input r) of
                Inl _ \<Rightarrow> False
              | Inr input_sha256 \<Rightarrow>
                  if input_sha256 \<noteq> tr_input_sha256 r then False
                  else case set_domain ds (tr_output_domain r) of
                         None \<Rightarrow> False
                       | Some output \<Rightarrow>
                           so_len output = tr_output_len r \<and> digest_sha256 (so_digest output) = Some (tr_output_sha256 r) \<and>
                           is_sha256_hex (tr_output_sha256 r))"

definition graph_validates :: "(bytes \<Rightarrow> bytes) \<Rightarrow> snapshot_set \<Rightarrow> transform_graph \<Rightarrow> bool" where
  "graph_validates sha ds graph =
     (if length graph + 1 \<noteq> length ds then False
      else list_all (\<lambda>(index, r). record_validates sha ds index r) (enumerate 0 graph))"

definition prepare_transform ::
  "(bytes \<Rightarrow> bytes) \<Rightarrow> snapshot_set \<Rightarrow> transform_graph \<Rightarrow> transform_profile \<Rightarrow> domain_range \<Rightarrow> finding + nat \<times> string"
where
  "prepare_transform sha ds graph profile input =
     (if \<not> profile_validates sha profile then Inl (finding_error CoveringInconsistent)
      else if \<not> graph_validates sha ds graph then Inl (finding_error CoveringInconsistent)
      else if length ds > u16_max then Inl (finding_error QuotaArchive)
      else if dr_domain input \<ge> length ds then Inl (finding_error CoveringInconsistent)
      else and_then (range_sha256 sha ds input) (\<lambda>input_sha256. Inr (length ds, input_sha256)))"

definition append_prepared_transform ::
  "snapshot_set \<Rightarrow> transform_graph \<Rightarrow> transform_profile \<Rightarrow> domain_range \<Rightarrow> string \<Rightarrow> nat \<Rightarrow> source_snapshot \<Rightarrow>
     finding + nat \<times> snapshot_set \<times> transform_graph"
where
  "append_prepared_transform ds graph profile input input_sha256 output_domain s =
     (if backing (so_snapshot s) = Memory \<or> so_path s \<noteq> None then Inl (finding_error CoveringInconsistent)
      else and_then (ok_or (finding_error CoveringInconsistent) (digest_sha256 (so_digest s))) (\<lambda>output_sha256.
      Inr (output_domain, ds @ [s],
        graph @ [\<lparr>tr_profile = profile, tr_profile_id = profile_id profile, tr_profile_sha256 = profile_digest profile,
          tr_decoder_parameters_sha256 = decoder_parameters_digest profile, tr_input = input,
          tr_input_sha256 = input_sha256, tr_output_domain = output_domain, tr_output_len = so_len s,
          tr_output_sha256 = output_sha256\<rparr>])))"

definition append_derived_snapshot ::
  "(bytes \<Rightarrow> bytes) \<Rightarrow> snapshot_set \<Rightarrow> transform_graph \<Rightarrow> transform_profile \<Rightarrow> domain_range \<Rightarrow> source_snapshot \<Rightarrow>
     finding + nat \<times> snapshot_set \<times> transform_graph"
where
  "append_derived_snapshot sha ds graph profile input s =
     and_then (prepare_transform sha ds graph profile input) (\<lambda>(output_domain, input_sha256).
     append_prepared_transform ds graph profile input input_sha256 output_domain s)"

subsection \<open>Appending a domain\<close>

lemma hex_byte_chars: "c \<in> set (hex_byte b) \<Longrightarrow> (48 \<le> (of_char c :: nat) \<and> of_char c \<le> (57 :: nat)) \<or> (97 \<le> (of_char c :: nat) \<and> of_char c \<le> (102 :: nat))"
proof -
  have d: "(48 \<le> (of_char (hex_digit n) :: nat) \<and> of_char (hex_digit n) \<le> (57 :: nat)) \<or>
      (97 \<le> (of_char (hex_digit n) :: nat) \<and> of_char (hex_digit n) \<le> (102 :: nat))" if "n < 16" for n
    using that by (auto simp: hex_digit_def)
  have "unat b div 16 < 16" using unsigned_less [of b, where ?'a = nat] by (simp add: less_mult_imp_div_less)
  with d [of "unat b div 16"] d [of "unat b mod 16"] show "c \<in> set (hex_byte b) \<Longrightarrow> ?thesis" 
    by (auto simp: hex_byte_def)
qed

lemma is_sha256_hex_digest:
  assumes "length (sha bs) = 32"
  shows "is_sha256_hex (hex_sha256 sha bs)"
proof -
  have "length (hex_sha256 sha bs) = 64"
    using assms by (simp add: hex_sha256_def length_concat comp_def hex_byte_def sum_list_triv)
  moreover have "list_all (\<lambda>c. let b = (of_char c :: nat) in (48 \<le> b \<and> b \<le> 57) \<or> (97 \<le> b \<and> b \<le> 102)) (hex_sha256 sha bs)"
    by (auto simp: list_all_iff hex_sha256_def Let_def dest: hex_byte_chars)
  ultimately show ?thesis by (simp add: is_sha256_hex_def)
qed

lemma range_sha256_digest:
  "range_sha256 sha ds source = Inr d \<Longrightarrow> \<exists>bs. d = hex_sha256 sha bs"
  by (auto simp: range_sha256_def copy_bounded_def and_then_eq_Inr split: if_splits prod.splits)

lemma range_sha256_memory:
  assumes "set_domain ds (dr_domain source) = Some s" "reads_ok (so_snapshot s)"
    and "in_bounds (so_snapshot s) (offset (dr_range source)) (rlen (dr_range source))"
  shows "range_sha256 sha ds source = Inr (hex_sha256 sha
    (slice_of (offset (dr_range source)) (offset (dr_range source) + rlen (dr_range source)) (content (so_snapshot s))))"
proof -
  let ?o = "offset (dr_range source)" and ?n = "rlen (dr_range source)"
  let ?r = "\<lparr>rr_snapshot = so_snapshot s, rr_offset = ?o, rr_remaining = ?n\<rparr>"
  have "set_reader ds source = Inr ?r" using assms by (simp add: set_reader_def snapshot_reader_ok)
  moreover have "fst (copy_loop range_read (\<lambda>_ _. True) ?n ?r []) = Inr ([] @ rr_data ?r)"
    using assms by (intro copy_loop_memory) (simp_all add: in_bounds_def)
  moreover have "length (rr_data ?r) = ?n" using assms(3) by (auto simp: in_bounds_def)
  ultimately show ?thesis by (simp add: range_sha256_def copy_bounded_def case_prod_unfold Let_def)
qed

lemma set_domain_append: "d < length ds \<Longrightarrow> set_domain (ds @ [s]) d = set_domain ds d"
  by (simp add: set_domain_def nth_append)

lemma range_sha256_append:
  "dr_domain source < length ds \<Longrightarrow> range_sha256 sha (ds @ [s]) source = range_sha256 sha ds source"
  by (simp add: range_sha256_def set_reader_def set_domain_append)

lemma record_validates_append:
  assumes "record_validates sha ds index r" "index + 1 < length ds"
  shows "record_validates sha (ds @ [s]) index r"
proof -
  from assms have d: "dr_domain (tr_input r) < length ds" "tr_output_domain r < length ds"
    by (auto simp: record_validates_def Let_def split: if_splits)
  show ?thesis
    using assms(1) unfolding record_validates_def range_sha256_append [OF d(1)] set_domain_append [OF d(2)] .
qed

lemma graph_validates_iff:
  "graph_validates sha ds graph \<longleftrightarrow>
     length graph + 1 = length ds \<and> (\<forall>i < length graph. record_validates sha ds i (graph ! i))"
  by (auto simp: graph_validates_def list_all_iff in_set_enumerate_eq)

lemma append_derived_valid:
  assumes "\<And>bs. length (sha bs) = 32" "digest_sha256 (so_digest s) = None \<or> (\<exists>bs. so_digest s = Available (hex_sha256 sha bs))"
    and "append_derived_snapshot sha ds graph profile input s = Inr (d, ds', graph')"
  shows "d = length ds \<and> ds' = ds @ [s] \<and> take (length graph) graph' = graph \<and> length graph' = length graph + 1 \<and>
    backing (so_snapshot s) \<noteq> Memory \<and> so_path s = None \<and> graph_validates sha ds' graph'"
proof -
  from assms(3) obtain isha osha where p: "profile_validates sha profile" "graph_validates sha ds graph"
      "length ds \<le> u16_max" "dr_domain input < length ds" "range_sha256 sha ds input = Inr isha"
    and s: "backing (so_snapshot s) \<noteq> Memory" "so_path s = None" "digest_sha256 (so_digest s) = Some osha"
    and r: "d = length ds" "ds' = ds @ [s]" "graph' = graph @ [\<lparr>tr_profile = profile, tr_profile_id = profile_id profile,
          tr_profile_sha256 = profile_digest profile,
          tr_decoder_parameters_sha256 = decoder_parameters_digest profile, tr_input = input,
          tr_input_sha256 = isha, tr_output_domain = length ds, tr_output_len = so_len s,
          tr_output_sha256 = osha\<rparr>]" (is "_ = _ @ [?r]")
    by (auto simp: append_derived_snapshot_def prepare_transform_def append_prepared_transform_def and_then_eq_Inr
        split: if_split_asm)
  have n: "length graph + 1 = length ds" using p(2) by (simp add: graph_validates_iff)
  have "is_sha256_hex isha" using range_sha256_digest [OF p(5)] is_sha256_hex_digest [of sha] assms(1) by blast
  moreover have "is_sha256_hex osha"
    using assms(1,2) s(3) is_sha256_hex_digest [of sha] by (auto simp: digest_sha256_def)
  ultimately have new: "record_validates sha (ds @ [s]) (length graph) ?r"
    using p s(3) n by (simp add: record_validates_def range_sha256_append profile_validates_def Let_def set_domain_def)
  have "record_validates sha (ds @ [s]) i ((graph @ [?r]) ! i)" if "i < length graph + 1" for i
  proof (cases "i < length graph")
    case True
    with p(2) n show ?thesis by (simp add: graph_validates_iff nth_append record_validates_append)
  next
    case False
    with that new show ?thesis by (simp add: nth_append less_Suc_eq)
  qed
  then show ?thesis using r s n by (simp add: graph_validates_iff)
qed

subsection \<open>Properties\<close>

text \<open>C15. Appending a derived domain keeps the transform graph valid. When \<open>append_derived_snapshot\<close>
  succeeds, the set has exactly the new snapshot more, the graph one record more, the returned
  identifier is that of the new domain, the new snapshot is a private file without a path, and the
  graph validates against the new set; the earlier records keep validating because domains are only
  appended.\<close>

theorem append_derived_snapshot_valid:
  assumes "\<And>bs. length (sha bs) = 32" "digest_sha256 (so_digest s) = None \<or> (\<exists>bs. so_digest s = Available (hex_sha256 sha bs))"
    and "append_derived_snapshot sha ds graph profile input s = Inr (d, ds', graph')"
  shows "d = length ds \<and> ds' = ds @ [s] \<and> take (length graph) graph' = graph \<and> length graph' = length graph + 1 \<and>
    backing (so_snapshot s) \<noteq> Memory \<and> so_path s = None \<and> graph_validates sha ds' graph'"
  using assms by (rule append_derived_valid)

text \<open>A digest function with the pinned values of the gzip profile.\<close>

definition example_sha :: "bytes \<Rightarrow> bytes" where
  "example_sha bs =
     (if take 1 bs = ascii_bytes ''s''
      then [0x79, 0x5A, 0x12, 0x4C, 0x27, 0x8E, 0xAC, 0xF1, 0xFB, 0x9B, 0x4F, 0xC3, 0x82, 0x5A, 0x74, 0x24, 0x0D,
        0x6D, 0x0E, 0x89, 0xC2, 0x9F, 0xFD, 0xFE, 0x61, 0x18, 0xFF, 0x6D, 0xB5, 0x3C, 0x0A, 0x45]
      else if take 1 bs = ascii_bytes ''r''
      then [0xC8, 0x35, 0x62, 0x7B, 0x01, 0xC4, 0xB5, 0x40, 0x41, 0xC6, 0x27, 0x31, 0x9F, 0xAB, 0x4D, 0x5A, 0xF2,
        0x94, 0xA2, 0x03, 0xAC, 0x26, 0xFB, 0xE9, 0x1C, 0xAD, 0xB6, 0xD1, 0xF1, 0x7C, 0xD5, 0xE1]
      else replicate 32 0)"

lemma example_sha_values:
  "example_sha (ascii_bytes (CHR ''s'' # s) @ bs) =
     [0x79, 0x5A, 0x12, 0x4C, 0x27, 0x8E, 0xAC, 0xF1, 0xFB, 0x9B, 0x4F, 0xC3, 0x82, 0x5A, 0x74, 0x24, 0x0D,
        0x6D, 0x0E, 0x89, 0xC2, 0x9F, 0xFD, 0xFE, 0x61, 0x18, 0xFF, 0x6D, 0xB5, 0x3C, 0x0A, 0x45]"
  "example_sha (ascii_bytes (CHR ''r'' # s)) =
     [0xC8, 0x35, 0x62, 0x7B, 0x01, 0xC4, 0xB5, 0x40, 0x41, 0xC6, 0x27, 0x31, 0x9F, 0xAB, 0x4D, 0x5A, 0xF2,
        0x94, 0xA2, 0x03, 0xAC, 0x26, 0xFB, 0xE9, 0x1C, 0xAD, 0xB6, 0xD1, 0xF1, 0x7C, 0xD5, 0xE1]"
  by (simp_all add: example_sha_def ascii_bytes_def)

lemma hex_digits:
  "hex_digit 0 = CHR ''0''" "hex_digit (Suc 0) = CHR ''1''" "hex_digit 1 = CHR ''1''" "hex_digit 2 = CHR ''2''" "hex_digit 3 = CHR ''3''"
  "hex_digit 4 = CHR ''4''" "hex_digit 5 = CHR ''5''" "hex_digit 6 = CHR ''6''" "hex_digit 7 = CHR ''7''"
  "hex_digit 8 = CHR ''8''" "hex_digit 9 = CHR ''9''" "hex_digit 10 = CHR ''a''" "hex_digit 11 = CHR ''b''"
  "hex_digit 12 = CHR ''c''" "hex_digit 13 = CHR ''d''" "hex_digit 14 = CHR ''e''" "hex_digit 15 = CHR ''f''"
  by code_simp+

lemma example_profile_validates: "profile_validates example_sha GzipRfc1952SingleMemberV1"
proof -
  have "hex_sha256 example_sha (ascii_bytes (decoder_parameters GzipRfc1952SingleMemberV1)) =
      decoder_parameters_digest GzipRfc1952SingleMemberV1"
    unfolding hex_sha256_def decoder_parameters.simps example_sha_values by (simp add: hex_byte_def hex_digits)
  moreover have "transform_profile_sha256 example_sha (profile_id GzipRfc1952SingleMemberV1)
      (profile_definition GzipRfc1952SingleMemberV1) = profile_digest GzipRfc1952SingleMemberV1"
    unfolding transform_profile_sha256_def hex_sha256_def example_sha_values by (simp add: hex_byte_def hex_digits)
  moreover have "is_transform_profile_id (profile_id GzipRfc1952SingleMemberV1)"
    "is_sha256_hex (profile_digest GzipRfc1952SingleMemberV1)"
    "is_sha256_hex (decoder_parameters_digest GzipRfc1952SingleMemberV1)"
    by (simp_all add: is_transform_profile_id_def is_sha256_hex_def)
  ultimately show ?thesis by (simp add: profile_validates_def)
qed

definition example_derived :: source_snapshot where
  "example_derived = \<lparr>so_snapshot = \<lparr>content = [7], backing = PrivateFile (\<lambda>_ _. True)\<rparr>,
     so_digest = Available (hex_sha256 example_sha [7]), so_path = None\<rparr>"

definition example_input :: domain_range where
  "example_input = \<lparr>dr_domain = 0, dr_range = \<lparr>offset = 0, rlen = 2\<rparr>\<rparr>"

theorem append_derived_snapshot_valid_witness:
  "\<exists>graph. graph_validates example_sha [borrowed example_sha None [1, 2], example_derived] graph"
proof -
  let ?ds = "[borrowed example_sha None [1, 2]]"
  have "range_sha256 example_sha ?ds example_input = Inr (hex_sha256 example_sha [1, 2])"
    by (subst range_sha256_memory)
      (auto simp: example_input_def set_domain_def borrowed_def in_bounds_def u64_max_def slice_of_def)
  then obtain d ds' graph' where
    a: "append_derived_snapshot example_sha ?ds [] GzipRfc1952SingleMemberV1 example_input example_derived = Inr (d, ds', graph')"
    by (simp add: append_derived_snapshot_def prepare_transform_def append_prepared_transform_def graph_validates_def
        example_profile_validates u16_max_def example_input_def example_derived_def digest_sha256_def)
  have "length (example_sha bs) = 32" for bs by (simp add: example_sha_def)
  from append_derived_snapshot_valid [OF this _ a] show ?thesis
    by (auto simp: example_derived_def)
qed

end
