(* ===== verification/Spool.thy ===== *)
theory Spool
  imports Transform
begin

text \<open>
  How a snapshot comes to be: private spool files and opened sources of \<open>crates/sealr/src/snapshot.rs\<close>.
  The file system is a parameter. A \<open>spool\<close> says for each step on the private file whether it succeeds
  and what the metadata calls report; an \<open>opened_file\<close> gives the operations on the handle of the
  caller's file, whose state they thread, so that its contents may change between any two of them.
\<close>

record spool =
  sp_directory :: bool
  sp_root :: bool
  sp_writer :: bool
  sp_writer_plain :: bool
  sp_write :: "nat \<Rightarrow> bytes \<Rightarrow> bool"
  sp_flush :: bool
  sp_written_len :: "bytes \<Rightarrow> nat option"
  sp_reader :: bool
  sp_reader_plain :: bool
  sp_metadata :: "bytes \<Rightarrow> (bool \<times> nat) option"
  sp_remove :: bool
  sp_read_ok :: "nat \<Rightarrow> nat \<Rightarrow> bool"

text \<open>A step whose failure is reported as \<open>source.io\<close>.\<close>

definition io_step :: "bool \<Rightarrow> finding + unit" where
  "io_step ok = (if ok then Inr () else Inl (finding_error SourceIo))"

text \<open>The steps before the copy, and those after it.\<close>

definition spool_open :: "spool \<Rightarrow> finding + unit" where
  "spool_open sp =
     and_then (io_step (sp_directory sp)) (\<lambda>_. and_then (io_step (sp_root sp)) (\<lambda>_.
     and_then (io_step (sp_writer sp)) (\<lambda>_. io_step (sp_writer_plain sp))))"

definition spool_seal :: "spool \<Rightarrow> nat option \<Rightarrow> bytes \<Rightarrow> finding + unit" where
  "spool_seal sp expected_len copied =
     and_then (io_step (case expected_len of Some n \<Rightarrow> length copied = n | None \<Rightarrow> True)) (\<lambda>_.
     and_then (io_step (sp_flush sp)) (\<lambda>_.
     and_then (ok_or (finding_error SourceIo) (sp_written_len sp copied)) (\<lambda>written_len.
     and_then (io_step (written_len = length copied)) (\<lambda>_.
     and_then (io_step (sp_reader sp)) (\<lambda>_. and_then (io_step (sp_reader_plain sp)) (\<lambda>_.
     and_then (ok_or (finding_error SourceIo) (sp_metadata sp copied)) (\<lambda>(is_file, len).
     and_then (io_step (is_file \<and> len = length copied)) (\<lambda>_. io_step (sp_remove sp)))))))))"

definition private_file_from_bounded_reader ::
  "(bytes \<Rightarrow> bytes) \<Rightarrow> spool \<Rightarrow> string option \<Rightarrow> ('r \<Rightarrow> nat \<Rightarrow> (finding + bytes) \<times> 'r) \<Rightarrow> 'r \<Rightarrow> nat option \<Rightarrow> nat \<Rightarrow>
     (finding + source_snapshot) \<times> 'r"
where
  "private_file_from_bounded_reader sha sp path read r expected_len cap =
     (case spool_open sp of
        Inl f \<Rightarrow> (Inl f, r)
      | Inr _ \<Rightarrow>
          (case copy_bounded sha read (sp_write sp) r cap of
             (Inl f, r') \<Rightarrow> (Inl f, r')
           | (Inr (copied, len, sha256), r') \<Rightarrow>
               (and_then (spool_seal sp expected_len copied) (\<lambda>_.
                  Inr \<lparr>so_snapshot = \<lparr>content = copied, backing = PrivateFile (sp_read_ok sp)\<rparr>,
                       so_digest = Available sha256, so_path = path\<rparr>), r')))"

definition private_derived_from_reader ::
  "(bytes \<Rightarrow> bytes) \<Rightarrow> spool \<Rightarrow> ('r \<Rightarrow> nat \<Rightarrow> (finding + bytes) \<times> 'r) \<Rightarrow> 'r \<Rightarrow> nat \<Rightarrow> (finding + source_snapshot) \<times> 'r"
where
  "private_derived_from_reader sha sp read r cap = private_file_from_bounded_reader sha sp None read r None cap"

definition append_derived_from_reader ::
  "(bytes \<Rightarrow> bytes) \<Rightarrow> spool \<Rightarrow> snapshot_set \<Rightarrow> transform_graph \<Rightarrow> transform_profile \<Rightarrow> domain_range \<Rightarrow>
     ('r \<Rightarrow> nat \<Rightarrow> (finding + bytes) \<times> 'r) \<Rightarrow> 'r \<Rightarrow> nat \<Rightarrow> finding + nat \<times> snapshot_set \<times> transform_graph"
where
  "append_derived_from_reader sha sp ds graph profile input read r cap =
     and_then (prepare_transform sha ds graph profile input) (\<lambda>(output_domain, input_sha256).
     and_then (fst (private_derived_from_reader sha sp read r cap)) (\<lambda>s.
     append_prepared_transform ds graph profile input input_sha256 output_domain s))"

subsection \<open>Opened sources\<close>

record platform_source_state =
  ps_device :: nat
  ps_inode :: nat
  ps_mode :: nat
  ps_modified_seconds :: int
  ps_modified_nanoseconds :: int
  ps_changed_seconds :: int
  ps_changed_nanoseconds :: int

record opened_source_state =
  os_len :: nat
  os_platform :: platform_source_state

record 'f opened_file =
  of_metadata :: "'f \<Rightarrow> (bool \<times> opened_source_state) option \<times> 'f"
  of_read :: "'f \<Rightarrow> nat \<Rightarrow> (finding + bytes) \<times> 'f"
  of_rewind :: "'f \<Rightarrow> bool \<times> 'f"

text \<open>The second pass over the opened file, against the snapshot of the first.\<close>

definition recheck_opened ::
  "(bytes \<Rightarrow> bytes) \<Rightarrow> 'f opened_file \<Rightarrow> opened_source_state \<Rightarrow> nat \<Rightarrow> source_snapshot \<Rightarrow> 'f \<Rightarrow> (finding + source_snapshot) \<times> 'f"
where
  "recheck_opened sha ops before cap s file =
     (case of_metadata ops file of
        (None, file1) \<Rightarrow> (Inl (finding_error SourceIo), file1)
      | (Some (is_file, after), file1) \<Rightarrow>
          if \<not> is_file \<or> after \<noteq> before then (Inl (finding_error SourceIo), file1)
          else (case of_rewind ops file1 of
                  (False, file2) \<Rightarrow> (Inl (finding_error SourceIo), file2)
                | (True, file2) \<Rightarrow>
                    (case copy_bounded sha (of_read ops) (\<lambda>_ _. True) file2 cap of
                       (Inl f, file3) \<Rightarrow> (Inl f, file3)
                     | (Inr (_, reread_len, reread_sha256), file3) \<Rightarrow>
                         if reread_len \<noteq> so_len s \<or> digest_sha256 (so_digest s) \<noteq> Some reread_sha256
                         then (Inl (finding_error SourceIo), file3)
                         else (Inr s, file3))))"

definition private_file_from_opened ::
  "(bytes \<Rightarrow> bytes) \<Rightarrow> spool \<Rightarrow> 'f opened_file \<Rightarrow> string option \<Rightarrow> nat \<Rightarrow> 'f \<Rightarrow> (finding + source_snapshot) \<times> 'f"
where
  "private_file_from_opened sha sp ops path cap file =
     (case of_metadata ops file of
        (None, file1) \<Rightarrow> (Inl (finding_error SourceIo), file1)
      | (Some (is_file, before), file1) \<Rightarrow>
          if \<not> is_file then (Inl (finding_error SourceIo), file1)
          else if os_len before > cap then (Inl (finding_error QuotaArchive), file1)
          else (case private_file_from_bounded_reader sha sp path (of_read ops) file1 (Some (os_len before)) cap of
                  (Inl f, file2) \<Rightarrow> (Inl f, file2)
                | (Inr s, file2) \<Rightarrow> recheck_opened sha ops before cap s file2))"

definition private_file_from_path ::
  "(bytes \<Rightarrow> bytes) \<Rightarrow> spool \<Rightarrow> 'f opened_file \<Rightarrow> string option \<Rightarrow> nat \<Rightarrow> 'f option \<Rightarrow> finding + source_snapshot"
where
  "private_file_from_path sha sp ops path cap opened =
     and_then (ok_or (finding_error SourceIo) opened) (\<lambda>file. fst (private_file_from_opened sha sp ops path cap file))"

subsection \<open>What a snapshot is\<close>

abbreviation copy_limit :: "nat \<Rightarrow> bytes \<Rightarrow> nat" where
  "copy_limit cap copied \<equiv> min (min (cap - length copied + 1) u64_max) COPY_BUFFER_BYTES"

lemma copy_loop_step:
  assumes "copy_loop read destination cap r copied = (Inr bs, r')"
  obtains "read r (copy_limit cap copied) = (Inr [], r')" "bs = copied"
  | chunk r1 where "read r (copy_limit cap copied) = (Inr chunk, r1)" "chunk \<noteq> []" "length (copied @ chunk) \<le> cap"
      "destination (length copied) chunk" "copy_loop read destination cap r1 (copied @ chunk) = (Inr bs, r')"
proof -
  obtain res r1 where rd: "read r (copy_limit cap copied) = (res, r1)" by fastforce
  note unfolded = assms [unfolded copy_loop.simps [of read destination cap r copied] Let_def rd prod.case]
  show thesis
  proof (cases res)
    case (Inl f)
    with unfolded show thesis by simp
  next
    case (Inr chunk)
    show thesis
    proof (cases "chunk = []")
      case True
      with unfolded rd Inr show thesis by (intro that(1)) simp_all
    next
      case False
      with unfolded Inr have "length (copied @ chunk) \<le> cap" "destination (length copied) chunk"
        "copy_loop read destination cap r1 (copied @ chunk) = (Inr bs, r')"
        by (simp_all add: checked_add_u64_def split: if_splits)
      with rd Inr False show thesis by (intro that(2)) simp_all
    qed
  qed
qed

lemma copy_loop_bounded:
  assumes "copy_loop read destination cap r copied = (Inr bs, r')"
  shows "length bs \<le> max cap (length copied)"
  using assms
proof (induction "cap - length copied" arbitrary: r copied rule: less_induct)
  case less
  from less.prems show ?case
  proof (cases rule: copy_loop_step)
    case (2 chunk r1)
    then have "cap - length (copied @ chunk) < cap - length copied" by (cases chunk) auto
    from less.hyps [OF this 2(5)] 2(3) show ?thesis by simp
  qed simp
qed

lemma copy_bounded_ok:
  assumes "copy_bounded sha read destination r cap = (Inr (bs, len, sha256), r')"
  shows "len = length bs" "sha256 = hex_sha256 sha bs" "length bs \<le> cap"
  using assms copy_loop_bounded [of read destination cap r "[]" bs r']
  by (auto simp: copy_bounded_def Let_def and_then_eq_Inr split: prod.splits)

lemma hex_bytes_inj: "concat (map hex_byte xs) = concat (map hex_byte ys) \<Longrightarrow> xs = ys"
proof (induction xs arbitrary: ys)
  case Nil
  then show ?case by (cases ys) (simp_all add: hex_byte_def)
next
  case (Cons x xs)
  then obtain y ys' where ys: "ys = y # ys'" by (cases ys) (simp_all add: hex_byte_def)
  with Cons.prems have "hex_byte x = hex_byte y" "concat (map hex_byte xs) = concat (map hex_byte ys')"
    by (simp_all add: hex_byte_def [of x] hex_byte_def [of y])
  with Cons.IH ys show ?case by (auto dest: hex_byte_inj)
qed

lemma hex_sha256_inj: "hex_sha256 sha xs = hex_sha256 sha ys \<Longrightarrow> sha xs = sha ys"
  unfolding hex_sha256_def by (rule hex_bytes_inj)

text \<open>A snapshot bound to its identity: its digest is that of its bytes.\<close>

definition snapshot_bound :: "(bytes \<Rightarrow> bytes) \<Rightarrow> source_snapshot \<Rightarrow> bool" where
  "snapshot_bound sha s \<longleftrightarrow> so_digest s = Available (hex_sha256 sha (content (so_snapshot s)))"

lemma private_file_bound:
  assumes "private_file_from_bounded_reader sha sp path read r expected_len cap = (Inr s, r')"
  shows "snapshot_bound sha s" "so_len s \<le> cap" "so_path s = path"
    "backing (so_snapshot s) = PrivateFile (sp_read_ok sp)" "\<forall>n. expected_len = Some n \<longrightarrow> so_len s = n"
    "\<exists>copied. copy_loop read (sp_write sp) cap r [] = (Inr copied, r') \<and> content (so_snapshot s) = copied"
  using assms
  by (auto simp: private_file_from_bounded_reader_def snapshot_bound_def and_then_eq_Inr spool_seal_def io_step_def
      copy_bounded_def Let_def dest!: copy_loop_bounded split: sum.splits prod.splits if_splits option.splits)

subsection \<open>Properties\<close>

text \<open>C23. An opened source becomes a snapshot only if it looked the same throughout. When the copy
  succeeds the handle was a regular file of the reported length and within the cap, the first pass
  read exactly the bytes of the snapshot, the metadata after it equals the metadata before it, the
  second pass from the start read as many bytes with the same SHA-256, and the snapshot is a private
  file bound to that digest, whatever another process did to the file meanwhile.\<close>

theorem opened_source_snapshot:
  assumes "private_file_from_opened sha sp ops path cap file = (Inr s, file')"
  shows "\<exists>before f1 f2 f3 f4 reread.
      of_metadata ops file = (Some (True, before), f1) \<and> os_len before = so_len s \<and> so_len s \<le> cap \<and>
      copy_loop (of_read ops) (sp_write sp) cap f1 [] = (Inr (content (so_snapshot s)), f2) \<and>
      of_metadata ops f2 = (Some (True, before), f3) \<and> of_rewind ops f3 = (True, f4) \<and>
      copy_loop (of_read ops) (\<lambda>_ _. True) cap f4 [] = (Inr reread, file') \<and>
      length reread = so_len s \<and> sha reread = sha (content (so_snapshot s)) \<and>
      snapshot_bound sha s \<and> so_path s = path \<and> backing (so_snapshot s) = PrivateFile (sp_read_ok sp)"
proof -
  from assms obtain before f1 f2 where
    1: "of_metadata ops file = (Some (True, before), f1)" "os_len before \<le> cap"
      "private_file_from_bounded_reader sha sp path (of_read ops) f1 (Some (os_len before)) cap = (Inr s, f2)"
      "recheck_opened sha ops before cap s f2 = (Inr s, file')"
    by (auto simp: private_file_from_opened_def recheck_opened_def split: prod.splits option.splits if_splits sum.splits bool.splits)
  from 1(4) obtain f3 f4 reread sha256 where
    2: "of_metadata ops f2 = (Some (True, before), f3)" "of_rewind ops f3 = (True, f4)"
      "copy_bounded sha (of_read ops) (\<lambda>_ _. True) f4 cap = (Inr (reread, so_len s, sha256), file')"
      "digest_sha256 (so_digest s) = Some sha256"
    by (auto simp: recheck_opened_def split: prod.splits option.splits if_splits sum.splits bool.splits)
  note bound = private_file_bound [OF 1(3)]
  from copy_bounded_ok [OF 2(3)] 2(4) bound(1) have "sha reread = sha (content (so_snapshot s))" "length reread = so_len s"
    by (auto simp: snapshot_bound_def digest_sha256_def dest: hex_sha256_inj)
  moreover from 2(3) have "copy_loop (of_read ops) (\<lambda>_ _. True) cap f4 [] = (Inr reread, file')"
    by (auto simp: copy_bounded_def Let_def and_then_eq_Inr split: prod.splits)
  ultimately show ?thesis using 1(1,2) 2(1,2) bound by auto
qed

text \<open>A file of three bytes that nobody touches: its state is the position.\<close>

definition example_file :: "nat opened_file" where
  "example_file = \<lparr>of_metadata = (\<lambda>p. (Some (True, \<lparr>os_len = 3, os_platform = \<lparr>ps_device = 0, ps_inode = 0, ps_mode = 0,
       ps_modified_seconds = 0, ps_modified_nanoseconds = 0, ps_changed_seconds = 0, ps_changed_nanoseconds = 0\<rparr>\<rparr>), p)),
     of_read = (\<lambda>p n. (Inr (take n (drop p [7, 8, 9])), min 3 (p + n))), of_rewind = (\<lambda>p. (True, 0))\<rparr>"

definition example_spool :: spool where
  "example_spool = \<lparr>sp_directory = True, sp_root = True, sp_writer = True, sp_writer_plain = True,
     sp_write = (\<lambda>_ _. True), sp_flush = True, sp_written_len = (\<lambda>bs. Some (length bs)), sp_reader = True,
     sp_reader_plain = True, sp_metadata = (\<lambda>bs. Some (True, length bs)), sp_remove = True, sp_read_ok = (\<lambda>_ _. True)\<rparr>"

lemma example_file_copied:
  "copy_loop (of_read example_file) w 10 0 [] = (Inr [7, 8, 9], 3)" if "w 0 [7, 8, 9]" for w
  using that by (simp add: copy_loop.simps [of _ _ _ 0] copy_loop.simps [of _ _ _ 3] example_file_def COPY_BUFFER_BYTES_def
      u64_max_def checked_add_u64_def Let_def)

theorem opened_source_snapshot_witness:
  "\<exists>s. private_file_from_opened id example_spool example_file None 10 0 = (Inr s, 3) \<and>
     content (so_snapshot s) = [7, 8, 9] \<and> snapshot_bound id s"
proof -
  have "\<exists>s. private_file_from_opened id example_spool example_file None 10 0 = (Inr s, 3)"
    by (simp add: private_file_from_opened_def recheck_opened_def private_file_from_bounded_reader_def spool_open_def
        spool_seal_def io_step_def copy_bounded_def example_file_copied [unfolded example_file_def, simplified]
        example_spool_def example_file_def digest_sha256_def)
  then obtain s where s: "private_file_from_opened id example_spool example_file None 10 0 = (Inr s, 3)" ..
  from opened_source_snapshot [OF s] have "content (so_snapshot s) = [7, 8, 9]" "snapshot_bound id s"
    by (auto simp: example_file_copied example_spool_def) (simp_all add: example_file_def example_file_copied [unfolded example_file_def, simplified])
  with s show ?thesis by blast
qed

end
