(* ===== verification/Gzip.thy ===== *)
theory Gzip
  imports Spool
begin

unbundle bit_operations_syntax

text \<open>
  The strict reader of one RFC 1952 member, \<open>crates/sealr/src/gzip.rs\<close>: header with its optional
  fields, Deflate payload copied to a private file, trailer, and the scan that tells concatenated
  members from other trailing bytes. The bytes hashed so far stand for the state of an incremental
  CRC-32, which is the package \<open>crc32fast\<close> and a parameter \<open>crc\<close>, like the inflater.
\<close>

text \<open>\<open>from_le_bytes\<close>.\<close>

primrec le_value :: "bytes \<Rightarrow> nat" where
  "le_value [] = 0"
| "le_value (b # bs) = unat b + 256 * le_value bs"

definition FIXED_HEADER_LEN :: nat where "FIXED_HEADER_LEN = 10"
definition TRAILER_LEN :: nat where "TRAILER_LEN = 8"
definition DEFLATE_INPUT_BUFFER_BYTES :: nat where "DEFLATE_INPUT_BUFFER_BYTES = 64 * 1024"
definition FLAG_HEADER_CRC :: u8 where "FLAG_HEADER_CRC = 2"
definition FLAG_EXTRA :: u8 where "FLAG_EXTRA = 4"
definition FLAG_NAME :: u8 where "FLAG_NAME = 8"
definition FLAG_COMMENT :: u8 where "FLAG_COMMENT = 16"
definition FLAG_RESERVED :: u8 where "FLAG_RESERVED = 0xE0"

record gzip_limits =
  gl_max_metadata_bytes :: nat
  gl_max_output_bytes :: nat

record gzip_header =
  gh_flags :: u8
  gh_modification_time :: nat
  gh_extra_flags :: u8
  gh_operating_system :: u8
  gh_header :: byte_range
  gh_extra :: "byte_range option"
  gh_extra_subfield_count :: nat
  gh_original_name :: "byte_range option"
  gh_comment :: "byte_range option"
  gh_header_crc16 :: "byte_range option"

datatype gzip_error_kind =
    GzSource | GzTruncated | GzMagic | GzCompressionMethod | GzReservedFlags | GzHeaderLimit | GzExtraField
  | GzHeaderChecksum | GzDeflateStream | GzDeflateAccounting | GzConcatenatedMember | GzTrailingInput
  | GzDataChecksum | GzDeclaredSize | GzOutputLimit | GzTransformAuthority

record gzip_error =
  gze_kind :: gzip_error_kind
  gze_finding :: finding

definition gzip_error_new :: "gzip_error_kind \<Rightarrow> finding_code \<Rightarrow> gzip_error" where
  "gzip_error_new k c = \<lparr>gze_kind = k, gze_finding = finding_error c\<rparr>"

definition gzip_source :: "finding \<Rightarrow> gzip_error" where
  "gzip_source f = \<lparr>gze_kind = GzSource, gze_finding = f\<rparr>"

definition gzip_truncated :: gzip_error where
  "gzip_truncated = gzip_error_new GzTruncated CodecDeflateInvalidStream"

definition gzip_deflate :: gzip_error where
  "gzip_deflate = gzip_error_new GzDeflateStream CodecDeflateInvalidStream"

definition malformed_extra :: gzip_error where
  "malformed_extra = gzip_error_new GzExtraField GzipExtra"

definition metadata_limit :: gzip_error where
  "metadata_limit = gzip_error_new GzHeaderLimit QuotaMetadata"

definition trailing_input :: gzip_error where
  "trailing_input = gzip_error_new GzTrailingInput CodecDeflateTrailingInput"

definition gzip_isize :: "nat \<Rightarrow> nat" where
  "gzip_isize len = len mod 2 ^ 32"

subsection \<open>The header\<close>

definition reserve_header :: "nat \<Rightarrow> nat \<Rightarrow> nat \<Rightarrow> gzip_error + nat" where
  "reserve_header cursor len header_limit =
     and_then (ok_or (gzip_error_new GzHeaderLimit QuotaMetadata) (checked_add_u64 cursor len)) (\<lambda>e.
     if e > header_limit then Inl metadata_limit else Inr e)"

definition gzip_read_exact :: "snapshot \<Rightarrow> nat \<Rightarrow> nat \<Rightarrow> gzip_error + bytes" where
  "gzip_read_exact sn offs len =
     and_then (ok_or gzip_truncated (checked_add_u64 offs len)) (\<lambda>e.
     if e > snapshot_len sn then Inl gzip_truncated else map_err gzip_source (read_exact_at sn offs len))"

function hash_loop :: "snapshot \<Rightarrow> nat \<Rightarrow> nat \<Rightarrow> bytes \<Rightarrow> gzip_error + bytes" where
  "hash_loop sn offs len hashed =
     (if len = 0 then Inr hashed
      else let count = min len 4096
           in and_then (gzip_read_exact sn offs count) (\<lambda>chunk.
              hash_loop sn (offs + count) (len - count) (hashed @ chunk)))"
  by pat_completeness auto
termination
  by (relation "measure (\<lambda>(_, _, len, _). len)") auto

declare hash_loop.simps [simp del]

definition hash_range :: "snapshot \<Rightarrow> nat \<Rightarrow> nat \<Rightarrow> bytes \<Rightarrow> gzip_error + bytes" where
  "hash_range sn offs len hashed =
     and_then (ok_or gzip_truncated (checked_add_u64 offs len)) (\<lambda>e.
     if e > snapshot_len sn then Inl gzip_truncated else hash_loop sn offs len hashed)"

text \<open>The loop of \<open>validate_extra_subfields\<close>: \<open>seen\<close> is the bitmap of the 65536 subfield identifiers.\<close>

function extra_loop :: "snapshot \<Rightarrow> nat \<Rightarrow> nat \<Rightarrow> nat \<Rightarrow> u64 list \<Rightarrow> gzip_error + nat" where
  "extra_loop sn ending cursor count seen =
     (if cursor \<ge> ending then Inr count
      else if ending - cursor < 4 then Inl malformed_extra
      else and_then (gzip_read_exact sn cursor 4) (\<lambda>fixed.
      if fixed ! 1 = 0 then Inl malformed_extra
      else
      let ident = le_value [fixed ! 0, fixed ! 1];
          word = ident div 64;
          mask = push_bit (ident mod 64) 1
      in if seen ! word AND mask \<noteq> 0 then Inl malformed_extra
         else and_then (ok_or malformed_extra
            (Option.bind (checked_add_u64 cursor 4) (\<lambda>v. checked_add_u64 v (le_value [fixed ! 2, fixed ! 3])))) (\<lambda>subfield_end.
         if subfield_end > ending then Inl malformed_extra
         else if count + 1 > 2 ^ 32 - 1 then Inl malformed_extra
         else extra_loop sn ending subfield_end (count + 1) (seen[word := seen ! word OR mask]))))"
  by pat_completeness auto
termination
  by (relation "measure (\<lambda>(_, ending, cursor, _, _). ending - cursor)")
    (auto simp: checked_add_u64_def ok_or_eq_Inr split: if_splits)

declare extra_loop.simps [simp del]

definition validate_extra_subfields :: "snapshot \<Rightarrow> nat \<Rightarrow> nat \<Rightarrow> gzip_error + nat" where
  "validate_extra_subfields sn offs len =
     and_then (ok_or malformed_extra (checked_add_u64 offs len)) (\<lambda>ending.
     extra_loop sn ending offs 0 (replicate 1024 0))"

text \<open>The loop of \<open>read_c_string\<close>: the cursor and the hashed bytes after the terminating NUL. The cursor
  never passes the limit or the end of the source; the code tests for equality.\<close>

function c_string_loop :: "snapshot \<Rightarrow> nat \<Rightarrow> nat \<Rightarrow> bytes \<Rightarrow> gzip_error + nat \<times> bytes" where
  "c_string_loop sn header_limit cursor hashed =
     (if cursor \<ge> header_limit then Inl metadata_limit
      else if cursor \<ge> snapshot_len sn then Inl gzip_truncated
      else
      let count = min (min (header_limit - cursor) (snapshot_len sn - cursor)) 4096
      in and_then (gzip_read_exact sn cursor count) (\<lambda>chunk.
         case position (\<lambda>b. b = 0) chunk of
           Some i \<Rightarrow> Inr (cursor + (i + 1), hashed @ take (i + 1) chunk)
         | None \<Rightarrow> c_string_loop sn header_limit (cursor + count) (hashed @ chunk)))"
  by pat_completeness auto
termination
  by (relation "measure (\<lambda>(sn, _, cursor, _). snapshot_len sn - cursor)") auto

declare c_string_loop.simps [simp del]

definition read_c_string :: "snapshot \<Rightarrow> nat \<Rightarrow> nat \<Rightarrow> bytes \<Rightarrow> gzip_error + byte_range \<times> nat \<times> bytes" where
  "read_c_string sn header_limit cursor hashed =
     and_then (c_string_loop sn header_limit cursor hashed) (\<lambda>(e, hashed').
     Inr (\<lparr>offset = cursor, rlen = e - cursor\<rparr>, e, hashed'))"

text \<open>The optional fields, each from the cursor and the hashed bytes before it to those after it.\<close>

definition read_extra ::
  "snapshot \<Rightarrow> u8 \<Rightarrow> nat \<Rightarrow> nat \<Rightarrow> bytes \<Rightarrow> gzip_error + (byte_range option \<times> nat) \<times> nat \<times> bytes"
where
  "read_extra sn flags header_limit cursor hashed =
     (if flags AND FLAG_EXTRA = 0 then Inr ((None, 0), cursor, hashed)
      else
      and_then (reserve_header cursor 2 header_limit) (\<lambda>cursor1.
      and_then (gzip_read_exact sn cursor 2) (\<lambda>xlen_bytes.
      let xlen = le_value xlen_bytes
      in and_then (reserve_header cursor1 xlen header_limit) (\<lambda>cursor2.
         and_then (validate_extra_subfields sn (cursor + 2) xlen) (\<lambda>subfield_count.
         and_then (hash_range sn (cursor + 2) xlen (hashed @ xlen_bytes)) (\<lambda>hashed'.
         Inr ((Some \<lparr>offset = cursor, rlen = xlen + 2\<rparr>, subfield_count), cursor2, hashed')))))))"

definition read_optional_string ::
  "snapshot \<Rightarrow> bool \<Rightarrow> nat \<Rightarrow> nat \<Rightarrow> bytes \<Rightarrow> gzip_error + byte_range option \<times> nat \<times> bytes"
where
  "read_optional_string sn flagged header_limit cursor hashed =
     (if \<not> flagged then Inr (None, cursor, hashed)
      else and_then (read_c_string sn header_limit cursor hashed) (\<lambda>(r, cursor', hashed'). Inr (Some r, cursor', hashed')))"

definition read_header_crc ::
  "(bytes \<Rightarrow> nat) \<Rightarrow> snapshot \<Rightarrow> u8 \<Rightarrow> nat \<Rightarrow> nat \<Rightarrow> bytes \<Rightarrow> gzip_error + byte_range option \<times> nat"
where
  "read_header_crc crc sn flags header_limit cursor hashed =
     (if flags AND FLAG_HEADER_CRC = 0 then Inr (None, cursor)
      else
      and_then (reserve_header cursor 2 header_limit) (\<lambda>cursor'.
      and_then (gzip_read_exact sn cursor 2) (\<lambda>expected.
      if crc hashed mod 2 ^ 16 \<noteq> le_value expected then Inl (gzip_error_new GzHeaderChecksum CrcMismatch)
      else Inr (Some \<lparr>offset = cursor, rlen = 2\<rparr>, cursor'))))"

definition parse_header_at :: "(bytes \<Rightarrow> nat) \<Rightarrow> snapshot \<Rightarrow> nat \<Rightarrow> nat \<Rightarrow> gzip_error + gzip_header" where
  "parse_header_at crc sn member_offset max_header_bytes =
     (if max_header_bytes < FIXED_HEADER_LEN then Inl metadata_limit
      else
      and_then (ok_or metadata_limit (checked_add_u64 member_offset max_header_bytes)) (\<lambda>header_limit.
      and_then (gzip_read_exact sn member_offset FIXED_HEADER_LEN) (\<lambda>fixed.
      if take 2 fixed \<noteq> [0x1F, 0x8B] then Inl (gzip_error_new GzMagic FormatMagic)
      else if fixed ! 2 \<noteq> 8 then Inl (gzip_error_new GzCompressionMethod FormatUnsupported)
      else if fixed ! 3 AND FLAG_RESERVED \<noteq> 0 then Inl (gzip_error_new GzReservedFlags FormatUnsupported)
      else
      let flags = fixed ! 3
      in and_then (read_extra sn flags header_limit (member_offset + FIXED_HEADER_LEN) fixed)
           (\<lambda>((extra, subfield_count), cursor1, hashed1).
         and_then (read_optional_string sn (flags AND FLAG_NAME \<noteq> 0) header_limit cursor1 hashed1)
           (\<lambda>(original_name, cursor2, hashed2).
         and_then (read_optional_string sn (flags AND FLAG_COMMENT \<noteq> 0) header_limit cursor2 hashed2)
           (\<lambda>(comment, cursor3, hashed3).
         and_then (read_header_crc crc sn flags header_limit cursor3 hashed3) (\<lambda>(header_crc16, cursor4).
         Inr \<lparr>gh_flags = flags, gh_modification_time = le_value (take 4 (drop 4 fixed)),
           gh_extra_flags = fixed ! 8, gh_operating_system = fixed ! 9,
           gh_header = \<lparr>offset = member_offset, rlen = cursor4 - member_offset\<rparr>,
           gh_extra = extra, gh_extra_subfield_count = subfield_count, gh_original_name = original_name,
           gh_comment = comment, gh_header_crc16 = header_crc16\<rparr>)))))))"

subsection \<open>The payload and the trailer\<close>

record trailer_evidence =
  gt_compressed_payload :: byte_range
  gt_trailer :: byte_range
  gt_declared_crc32 :: nat
  gt_declared_isize :: nat

text \<open>\<open>VerifiedDeflateReader\<close>; \<open>vr_completion\<close> is the shared completion cell.\<close>

record 'd verified_deflate_reader =
  vr_decoder :: "'d deflate_decoder"
  vr_hashed :: bytes
  vr_output_len :: nat
  vr_terminal :: bool
  vr_completion :: "(gzip_error + trailer_evidence) option"

definition finish_member ::
  "(bytes \<Rightarrow> nat) \<Rightarrow> snapshot \<Rightarrow> nat \<Rightarrow> 'd verified_deflate_reader \<Rightarrow> gzip_error + trailer_evidence"
where
  "finish_member crc sn payload_offset vr =
     (if dd_total_out (vr_decoder vr) \<noteq> vr_output_len vr
      then Inl (gzip_error_new GzDeflateAccounting CodecDeflateInvalidStream)
      else
      let compressed_len = dd_total_in (vr_decoder vr)
      in and_then (ok_or gzip_truncated (checked_add_u64 payload_offset compressed_len)) (\<lambda>trailer_offset.
         and_then (ok_or gzip_truncated (checked_add_u64 trailer_offset TRAILER_LEN)) (\<lambda>trailer_end.
         if trailer_end > snapshot_len sn then Inl gzip_truncated
         else and_then (gzip_read_exact sn trailer_offset TRAILER_LEN) (\<lambda>trailer.
         let declared_crc32 = le_value (take 4 trailer);
             declared_isize = le_value (drop 4 trailer)
         in if declared_crc32 \<noteq> crc (vr_hashed vr) then Inl (gzip_error_new GzDataChecksum CrcMismatch)
            else if declared_isize \<noteq> gzip_isize (vr_output_len vr) then Inl (gzip_error_new GzDeclaredSize QuotaDeclaredLie)
            else Inr \<lparr>gt_compressed_payload = \<lparr>offset = payload_offset, rlen = compressed_len\<rparr>,
                   gt_trailer = \<lparr>offset = trailer_offset, rlen = TRAILER_LEN\<rparr>,
                   gt_declared_crc32 = declared_crc32, gt_declared_isize = declared_isize\<rparr>))))"

text \<open>A failing read leaves the reader terminal with the error in the cell.\<close>

definition verified_fail ::
  "gzip_error \<Rightarrow> 'd verified_deflate_reader \<Rightarrow> (finding + bytes) \<times> 'd verified_deflate_reader"
where
  "verified_fail e vr = (Inl (gze_finding e), vr\<lparr>vr_terminal := True, vr_completion := Some (Inl e)\<rparr>)"

definition verified_read ::
  "(bytes \<Rightarrow> nat) \<Rightarrow> 'd inflater \<Rightarrow> snapshot \<Rightarrow> nat \<Rightarrow> 'd verified_deflate_reader \<Rightarrow> nat \<Rightarrow>
     (finding + bytes) \<times> 'd verified_deflate_reader"
where
  "verified_read crc flate sn payload_offset vr room =
     (if vr_terminal vr \<or> room = 0 then (Inr [], vr)
      else case deflate_read flate DEFLATE_INPUT_BUFFER_BYTES room (vr_decoder vr) of
             (Inl (DeflateSource f), dd) \<Rightarrow> verified_fail (gzip_source f) (vr\<lparr>vr_decoder := dd\<rparr>)
           | (Inl DeflateInvalid, dd) \<Rightarrow> verified_fail gzip_deflate (vr\<lparr>vr_decoder := dd\<rparr>)
           | (Inr chunk, dd) \<Rightarrow>
               let vr' = vr\<lparr>vr_decoder := dd\<rparr>
               in if chunk = [] then
                    (case finish_member crc sn payload_offset vr' of
                       Inl e \<Rightarrow> verified_fail e vr'
                     | Inr ev \<Rightarrow> (Inr [], vr'\<lparr>vr_terminal := True, vr_completion := Some (Inr ev)\<rparr>))
                  else (case checked_add_u64 (vr_output_len vr') (length chunk) of
                          None \<Rightarrow> verified_fail (gzip_error_new GzOutputLimit QuotaDerived) vr'
                        | Some len \<Rightarrow> (Inr chunk, vr'\<lparr>vr_output_len := len, vr_hashed := vr_hashed vr' @ chunk\<rparr>)))"

subsection \<open>Reads of the header\<close>

lemma gzip_read_exact_ok:
  "gzip_read_exact sn offs len = Inr bs \<Longrightarrow>
     offs + len \<le> u64_max \<and> offs + len \<le> snapshot_len sn \<and> bs = slice_of offs (offs + len) (content sn) \<and> length bs = len"
  by (auto simp: gzip_read_exact_def and_then_eq_Inr map_err_eq_Inr checked_add_u64_def dest!: read_exact_at_ok
      split: if_splits)

lemma reserve_header_ok: "reserve_header cursor len lim = Inr e \<longleftrightarrow> e = cursor + len \<and> e \<le> u64_max \<and> e \<le> lim"
  by (auto simp: reserve_header_def and_then_eq_Inr checked_add_u64_def split: if_splits)

lemma slice_append_slice: "a \<le> b \<Longrightarrow> b \<le> c \<Longrightarrow> slice_of a b xs @ slice_of b c xs = slice_of a c xs"
  using slice_slice_split [of a b c xs] by simp

lemma hash_loop_ok:
  "hash_loop sn offs len hashed = Inr hashed' \<Longrightarrow> hashed' = hashed @ slice_of offs (offs + len) (content sn)"
proof (induction len arbitrary: offs hashed rule: less_induct)
  case (less len)
  show ?case
  proof (cases "len = 0")
    case True
    with less.prems show ?thesis by (simp add: hash_loop.simps [of sn offs 0] slice_of_def)
  next
    case False
    define count where "count = min len 4096"
    from less.prems False obtain chunk where "gzip_read_exact sn offs count = Inr chunk"
      "hash_loop sn (offs + count) (len - count) (hashed @ chunk) = Inr hashed'"
      by (auto simp: hash_loop.simps [of sn offs len] and_then_eq_Inr count_def Let_def)
    moreover from False have c: "0 < count" "count \<le> len" by (auto simp: count_def)
    moreover note less.IH [of "len - count" "offs + count" "hashed @ chunk"]
    ultimately show ?thesis
      using slice_append_slice [of offs "offs + count" "offs + len" "content sn"]
      by (auto dest!: gzip_read_exact_ok)
  qed
qed

lemma hash_range_ok:
  "hash_range sn offs len hashed = Inr hashed' \<Longrightarrow>
     offs + len \<le> snapshot_len sn \<and> hashed' = hashed @ slice_of offs (offs + len) (content sn)"
  by (auto simp: hash_range_def and_then_eq_Inr checked_add_u64_def dest: hash_loop_ok split: if_splits)

text \<open>A string ends with its first NUL.\<close>

definition c_string_at :: "snapshot \<Rightarrow> nat \<Rightarrow> nat \<Rightarrow> bool" where
  "c_string_at sn start e \<longleftrightarrow> start < e \<and> e \<le> snapshot_len sn \<and> content sn ! (e - 1) = 0 \<and>
     (\<forall>i. start \<le> i \<and> i < e - 1 \<longrightarrow> content sn ! i \<noteq> 0)"

lemma c_string_loop_ok:
  assumes "c_string_loop sn lim cursor hashed = Inr (e, hashed')"
  shows "c_string_at sn cursor e \<and> e \<le> lim \<and> hashed' = hashed @ slice_of cursor e (content sn)"
  using assms
proof (induction "snapshot_len sn - cursor" arbitrary: cursor hashed rule: less_induct)
  case less
  define count where "count = min (min (lim - cursor) (snapshot_len sn - cursor)) 4096"
  from less.prems have b: "cursor < lim" "cursor < snapshot_len sn"
    by (auto simp: c_string_loop.simps [of sn lim cursor] split: if_splits)
  then have c: "0 < count" "cursor + count \<le> lim" "cursor + count \<le> snapshot_len sn" by (auto simp: count_def)
  from less.prems b obtain chunk where rd: "gzip_read_exact sn cursor count = Inr chunk"
    and k: "(case position (\<lambda>b. b = 0) chunk of
           Some i \<Rightarrow> Inr (cursor + (i + 1), hashed @ take (i + 1) chunk)
         | None \<Rightarrow> c_string_loop sn lim (cursor + count) (hashed @ chunk)) = Inr (e, hashed')"
    unfolding c_string_loop.simps [of sn lim cursor] Let_def count_def [symmetric] by (auto simp: and_then_eq_Inr)
  have ch: "chunk = slice_of cursor (cursor + count) (content sn)" "length chunk = count"
    using gzip_read_exact_ok [OF rd] by auto
  have nth: "chunk ! i = content sn ! (cursor + i)" if "i < count" for i
    using that c ch by (simp add: slice_nth)
  show ?case
  proof (cases "position (\<lambda>b. b = 0) chunk")
    case (Some i)
    then have i: "i < count" "chunk ! i = 0" "\<forall>j < i. chunk ! j \<noteq> 0" by (simp_all add: position_Some_iff ch(2))
    from Some k have e: "e = cursor + (i + 1)" "hashed' = hashed @ take (i + 1) chunk" by simp_all
    have "take (i + 1) chunk = slice_of cursor e (content sn)"
      using i(1) e(1) unfolding ch(1) by (simp add: slice_of_def min_absorb1)
    moreover have "content sn ! j \<noteq> 0" if "cursor \<le> j" "j < e - 1" for j
      using i(3) nth [of "j - cursor"] that e(1) i(1) by (metis (no_types, lifting) Suc_eq_plus1 add_diff_cancel_right'
          add_diff_inverse_nat diff_add_inverse less_diff_conv2 less_trans not_less add.assoc)
    moreover from i(2) nth [OF i(1)] e(1) have "content sn ! (e - 1) = 0" by simp
    ultimately show ?thesis using e i c by (simp add: c_string_at_def)
  next
    case None
    then have nz: "chunk ! j \<noteq> 0" if "j < count" for j using that ch(2) by (auto simp: position_None_iff in_set_conv_nth)
    from None k have "c_string_loop sn lim (cursor + count) (hashed @ chunk) = Inr (e, hashed')" by simp
    with less.hyps [of "cursor + count" "hashed @ chunk"] c b
    have ih: "c_string_at sn (cursor + count) e" "e \<le> lim" "hashed' = (hashed @ chunk) @ slice_of (cursor + count) e (content sn)"
      by auto
    have "content sn ! j \<noteq> 0" if "cursor \<le> j" "j < e - 1" for j
      using ih(1) nz [of "j - cursor"] nth [of "j - cursor"] that
      by (cases "j < cursor + count") (auto simp: c_string_at_def)
    moreover have "chunk @ slice_of (cursor + count) e (content sn) = slice_of cursor e (content sn)"
      using ih(1) unfolding ch(1) by (intro slice_append_slice) (simp_all add: c_string_at_def)
    ultimately show ?thesis using ih c by (simp add: c_string_at_def)
  qed
qed

subsection \<open>What a header is\<close>

definition extra_at :: "snapshot \<Rightarrow> u8 \<Rightarrow> byte_range option \<Rightarrow> nat \<Rightarrow> nat \<Rightarrow> nat \<Rightarrow> bool" where
  "extra_at sn flags r n a b \<longleftrightarrow>
     (if flags AND FLAG_EXTRA = 0 then r = None \<and> n = 0 \<and> b = a
      else a + 2 \<le> b \<and> b \<le> snapshot_len sn \<and> r = Some \<lparr>offset = a, rlen = b - a\<rparr> \<and>
        le_value (slice_of a (a + 2) (content sn)) = b - (a + 2) \<and>
        extra_loop sn b (a + 2) 0 (replicate 1024 0) = Inr n)"

definition optional_string_at :: "snapshot \<Rightarrow> bool \<Rightarrow> byte_range option \<Rightarrow> nat \<Rightarrow> nat \<Rightarrow> bool" where
  "optional_string_at sn flagged r a b \<longleftrightarrow>
     (if flagged then r = Some \<lparr>offset = a, rlen = b - a\<rparr> \<and> c_string_at sn a b else r = None \<and> b = a)"

definition header_crc_at :: "(bytes \<Rightarrow> nat) \<Rightarrow> snapshot \<Rightarrow> nat \<Rightarrow> u8 \<Rightarrow> byte_range option \<Rightarrow> nat \<Rightarrow> nat \<Rightarrow> bool" where
  "header_crc_at crc sn start flags r a b \<longleftrightarrow>
     (if flags AND FLAG_HEADER_CRC = 0 then r = None \<and> b = a
      else b = a + 2 \<and> b \<le> snapshot_len sn \<and> r = Some \<lparr>offset = a, rlen = 2\<rparr> \<and>
        crc (slice_of start a (content sn)) mod 2 ^ 16 = le_value (slice_of a (a + 2) (content sn)))"

text \<open>The optional fields follow the fixed ten bytes in order and end where the header ends.\<close>

definition gzip_header_at :: "(bytes \<Rightarrow> nat) \<Rightarrow> snapshot \<Rightarrow> nat \<Rightarrow> gzip_header \<Rightarrow> bool" where
  "gzip_header_at crc sn start h \<longleftrightarrow>
     (\<exists>a b c e. let fixed = slice_of start (start + 10) (content sn); flags = gh_flags h in
        start + 10 \<le> snapshot_len sn \<and> take 2 fixed = [0x1F, 0x8B] \<and> fixed ! 2 = 8 \<and> fixed ! 3 = flags \<and>
        flags AND FLAG_RESERVED = 0 \<and> gh_modification_time h = le_value (take 4 (drop 4 fixed)) \<and>
        gh_extra_flags h = fixed ! 8 \<and> gh_operating_system h = fixed ! 9 \<and>
        extra_at sn flags (gh_extra h) (gh_extra_subfield_count h) (start + 10) a \<and>
        optional_string_at sn (flags AND FLAG_NAME \<noteq> 0) (gh_original_name h) a b \<and>
        optional_string_at sn (flags AND FLAG_COMMENT \<noteq> 0) (gh_comment h) b c \<and>
        header_crc_at crc sn start flags (gh_header_crc16 h) c e \<and>
        gh_header h = \<lparr>offset = start, rlen = e - start\<rparr>)"

lemma read_extra_ok:
  assumes "read_extra sn flags lim a hashed = Inr ((r, n), b, hashed')" "a \<le> lim"
  shows "extra_at sn flags r n a b \<and> a \<le> b \<and> b \<le> lim \<and> hashed' = hashed @ slice_of a b (content sn)"
proof (cases "flags AND FLAG_EXTRA = 0")
  case True
  with assms show ?thesis by (auto simp: read_extra_def extra_at_def slice_of_def)
next
  case False
  with assms(1) obtain xl where x: "a + 2 \<le> lim" "gzip_read_exact sn a 2 = Inr xl"
    "b = a + 2 + le_value xl" "b \<le> lim" "validate_extra_subfields sn (a + 2) (le_value xl) = Inr n"
    "hash_range sn (a + 2) (le_value xl) (hashed @ xl) = Inr hashed'" "r = Some \<lparr>offset = a, rlen = le_value xl + 2\<rparr>"
    by (auto simp: read_extra_def and_then_eq_Inr reserve_header_ok Let_def)
  from gzip_read_exact_ok [OF x(2)] have xl: "xl = slice_of a (a + 2) (content sn)" by auto
  from hash_range_ok [OF x(6)] x(3) have h: "b \<le> snapshot_len sn" "hashed' = hashed @ slice_of a b (content sn)"
    using slice_append_slice [of a "a + 2" b "content sn"] by (auto simp: xl)
  from x(5) have "extra_loop sn b (a + 2) 0 (replicate 1024 0) = Inr n"
    by (auto simp: validate_extra_subfields_def and_then_eq_Inr checked_add_u64_def x(3) split: if_splits)
  with False x h xl show ?thesis by (simp add: extra_at_def)
qed

lemma read_optional_string_ok:
  assumes "read_optional_string sn flagged lim a hashed = Inr (r, b, hashed')" "a \<le> lim"
  shows "optional_string_at sn flagged r a b \<and> a \<le> b \<and> b \<le> lim \<and> hashed' = hashed @ slice_of a b (content sn)"
  using assms
  by (auto simp: read_optional_string_def optional_string_at_def read_c_string_def and_then_eq_Inr slice_of_def
      dest!: c_string_loop_ok split: if_splits) (auto simp: c_string_at_def)

lemma read_header_crc_ok:
  assumes "read_header_crc crc sn flags lim a (slice_of start a (content sn)) = Inr (r, b)" "a \<le> lim"
  shows "header_crc_at crc sn start flags r a b \<and> a \<le> b \<and> b \<le> lim"
  using assms
  by (auto simp: read_header_crc_def header_crc_at_def and_then_eq_Inr reserve_header_ok
      dest!: gzip_read_exact_ok split: if_splits)

lemma gzip_header_ok:
  assumes "parse_header_at crc sn start max_header_bytes = Inr h"
  shows "gzip_header_at crc sn start h" "rlen (gh_header h) \<le> max_header_bytes"
proof -
  define lim where "lim = start + max_header_bytes"
  from assms obtain fixed where 1: "10 \<le> max_header_bytes" "lim \<le> u64_max" "gzip_read_exact sn start 10 = Inr fixed"
    "take 2 fixed = [0x1F, 0x8B]" "fixed ! 2 = 8" "fixed ! 3 AND FLAG_RESERVED = 0"
    by (auto simp: parse_header_at_def FIXED_HEADER_LEN_def and_then_eq_Inr checked_add_u64_def lim_def split: if_splits)
  define flags where "flags = fixed ! 3"
  note rd = gzip_read_exact_ok [OF 1(3)]
  from assms 1 have body: "and_then (read_extra sn flags lim (start + 10) fixed) (\<lambda>((extra, n), a, h1).
      and_then (read_optional_string sn (flags AND FLAG_NAME \<noteq> 0) lim a h1) (\<lambda>(name, b, h2).
      and_then (read_optional_string sn (flags AND FLAG_COMMENT \<noteq> 0) lim b h2) (\<lambda>(comment, c, h3).
      and_then (read_header_crc crc sn flags lim c h3) (\<lambda>(crc16, e).
      Inr \<lparr>gh_flags = flags, gh_modification_time = le_value (take 4 (drop 4 fixed)), gh_extra_flags = fixed ! 8,
        gh_operating_system = fixed ! 9, gh_header = \<lparr>offset = start, rlen = e - start\<rparr>, gh_extra = extra,
        gh_extra_subfield_count = n, gh_original_name = name, gh_comment = comment, gh_header_crc16 = crc16\<rparr>)))) = Inr h"
    unfolding parse_header_at_def FIXED_HEADER_LEN_def checked_add_u64_def Let_def lim_def [symmetric] flags_def by simp
  have r: "\<exists>x. m = Inr x" if "and_then m k = Inr y" for m :: "gzip_error + 'x" and k and y :: "'y"
    using that by (cases m) simp_all
  from r [OF body] obtain extra n a h1 where
    2: "read_extra sn flags lim (start + 10) fixed = Inr ((extra, n), a, h1)" by (metis surj_pair)
  note body = body [unfolded 2 and_then_simps prod.case]
  from r [OF body] obtain name b h2 where
    3: "read_optional_string sn (flags AND FLAG_NAME \<noteq> 0) lim a h1 = Inr (name, b, h2)" by (metis surj_pair)
  note body = body [unfolded 3 and_then_simps prod.case]
  from r [OF body] obtain comment c h3 where
    4: "read_optional_string sn (flags AND FLAG_COMMENT \<noteq> 0) lim b h2 = Inr (comment, c, h3)" by (metis surj_pair)
  note body = body [unfolded 4 and_then_simps prod.case]
  from r [OF body] obtain crc16 e where
    5: "read_header_crc crc sn flags lim c h3 = Inr (crc16, e)" by (metis surj_pair)
  note h = body [unfolded 5 and_then_simps prod.case, THEN sum.inject(2) [THEN iffD1], symmetric]
  have "start + 10 \<le> lim" using 1 by (simp add: lim_def)
  from read_extra_ok [OF 2 this] have e1: "extra_at sn flags extra n (start + 10) a" "start + 10 \<le> a" "a \<le> lim"
    and f1: "h1 = slice_of start a (content sn)"
    using rd slice_append_slice [of start "start + 10" a "content sn"] by auto
  from read_optional_string_ok [OF 3 e1(3)] have e2: "optional_string_at sn (flags AND FLAG_NAME \<noteq> 0) name a b" "a \<le> b"
    "b \<le> lim" and f2: "h2 = slice_of start b (content sn)"
    using f1 e1(2) slice_append_slice [of start a b "content sn"] by auto
  from read_optional_string_ok [OF 4 e2(3)] have e3: "optional_string_at sn (flags AND FLAG_COMMENT \<noteq> 0) comment b c" "b \<le> c"
    "c \<le> lim" and f3: "h3 = slice_of start c (content sn)"
    using f2 e1(2) e2(2) slice_append_slice [of start b c "content sn"] by auto
  have fx: "slice_of start (start + 10) (content sn) = fixed" using rd by simp
  note e4 = read_header_crc_ok [OF 5 [unfolded f3] e3(3)]
  show "gzip_header_at crc sn start h"
    unfolding gzip_header_at_def Let_def h gzip_header.select_convs fx
    using 1(4-6) rd e1(1) e2(1) e3(1) e4 flags_def [symmetric]
    by (intro exI [of _ a] exI [of _ b] exI [of _ c] exI [of _ e]) (simp only: simp_thms)
  show "rlen (gh_header h) \<le> max_header_bytes" using e4 by (auto simp: h lim_def)
qed

lemma field_extents:
  "extra_at sn flags r n a b \<Longrightarrow> a \<le> b \<and> (a \<le> snapshot_len sn \<longrightarrow> b \<le> snapshot_len sn)"
  "optional_string_at sn flagged r a b \<Longrightarrow> a \<le> b \<and> (a \<le> snapshot_len sn \<longrightarrow> b \<le> snapshot_len sn)"
  "header_crc_at crc sn start flags r a b \<Longrightarrow> a \<le> b \<and> (a \<le> snapshot_len sn \<longrightarrow> b \<le> snapshot_len sn)"
  by (auto simp: extra_at_def optional_string_at_def header_crc_at_def c_string_at_def split: if_splits)

lemma gzip_header_extent:
  assumes "gzip_header_at crc sn start h"
  shows "offset (gh_header h) = start" "10 \<le> rlen (gh_header h)" "start + rlen (gh_header h) \<le> snapshot_len sn"
  using assms unfolding gzip_header_at_def Let_def by (auto dest!: field_extents)

subsection \<open>Trailing members\<close>

text \<open>The inner loop of \<open>scan_trailing_members\<close>: what the decoder emits within the output cap.\<close>

function scan_output ::
  "'d inflater \<Rightarrow> nat \<Rightarrow> nat \<Rightarrow> 'd deflate_decoder \<Rightarrow> bytes \<Rightarrow> gzip_error + bytes \<times> 'd deflate_decoder"
where
  "scan_output flate max_output output_bytes dd emitted =
     (case deflate_read flate 4096 (32 * 1024) dd of
        (Inl (DeflateSource f), _) \<Rightarrow> Inl (gzip_source f)
      | (Inl DeflateInvalid, _) \<Rightarrow> Inl trailing_input
      | (Inr chunk, dd') \<Rightarrow>
          if chunk = [] then Inr (emitted, dd')
          else case checked_add_u64 (length emitted) (length chunk) of
                 None \<Rightarrow> Inl (gzip_error_new GzOutputLimit QuotaDerived)
               | Some member_output \<Rightarrow>
                   (case checked_add_u64 output_bytes member_output of
                      None \<Rightarrow> Inl (gzip_error_new GzOutputLimit QuotaDerived)
                    | Some aggregate \<Rightarrow>
                        if aggregate > max_output then Inl (gzip_error_new GzOutputLimit QuotaDerived)
                        else scan_output flate max_output output_bytes dd' (emitted @ chunk)))"
  by pat_completeness auto
termination
  by (relation "measure (\<lambda>(_, max_output, _, _, emitted). max_output - length emitted)")
    (auto simp: checked_add_u64_def simp flip: length_greater_0_conv split: if_splits)

declare scan_output.simps [simp del]

text \<open>One trailing member: the end of its trailer, the metadata and the output so far, or an error.\<close>

definition scan_member ::
  "(bytes \<Rightarrow> nat) \<Rightarrow> 'd inflater \<Rightarrow> snapshot \<Rightarrow> gzip_limits \<Rightarrow> nat \<Rightarrow> nat \<Rightarrow> nat \<Rightarrow> gzip_error + nat \<times> nat \<times> nat"
where
  "scan_member crc flate sn limits member_offset metadata_bytes output_bytes =
     (if snapshot_len sn - member_offset < 2 then Inl trailing_input
      else
      and_then (gzip_read_exact sn member_offset 2) (\<lambda>magic.
      if magic \<noteq> [0x1F, 0x8B] then Inl trailing_input
      else if gl_max_metadata_bytes limits < metadata_bytes then Inl metadata_limit
      else if gl_max_metadata_bytes limits - metadata_bytes < TRAILER_LEN then Inl metadata_limit
      else
      and_then (case parse_header_at crc sn member_offset (gl_max_metadata_bytes limits - metadata_bytes - TRAILER_LEN) of
          Inl e \<Rightarrow> if gze_kind e \<in> {GzSource, GzHeaderLimit} then Inl e else Inl trailing_input
        | Inr h \<Rightarrow> Inr h) (\<lambda>h.
      and_then (ok_or metadata_limit (Option.bind (checked_add_u64 metadata_bytes (rlen (gh_header h)))
        (\<lambda>v. checked_add_u64 v TRAILER_LEN))) (\<lambda>metadata_bytes'.
      let payload_offset = range_end (gh_header h)
      in if snapshot_len sn < payload_offset then Inl gzip_truncated
         else
         let input_len = snapshot_len sn - payload_offset
         in if input_len < TRAILER_LEN then Inl trailing_input
            else
            and_then (map_err gzip_source (snapshot_reader sn payload_offset input_len)) (\<lambda>r.
            and_then (scan_output flate (gl_max_output_bytes limits) output_bytes (deflate_new flate r) []) (\<lambda>(emitted, dd).
            and_then (ok_or trailing_input (checked_add_u64 payload_offset (dd_total_in dd))) (\<lambda>trailer_offset.
            and_then (ok_or trailing_input (checked_add_u64 trailer_offset TRAILER_LEN)) (\<lambda>trailer_end.
            if trailer_end > snapshot_len sn then Inl trailing_input
            else
            and_then (gzip_read_exact sn trailer_offset TRAILER_LEN) (\<lambda>trailer.
            if le_value (take 4 trailer) \<noteq> crc emitted \<or> le_value (drop 4 trailer) \<noteq> gzip_isize (length emitted)
            then Inl trailing_input
            else
            and_then (ok_or trailing_input (checked_add_u64 output_bytes (length emitted))) (\<lambda>output_bytes'.
            Inr (trailer_end, metadata_bytes', output_bytes')))))))))))"

lemma scan_member_progress:
  "scan_member crc flate sn limits offs mb ob = Inr (e, mb', ob') \<Longrightarrow> offs < e \<and> e \<le> snapshot_len sn"
  by (auto simp: scan_member_def and_then_eq_Inr map_err_eq_Inr Let_def range_end_def checked_add_u64_def TRAILER_LEN_def
      dest!: gzip_header_ok(1) split: if_splits sum.splits)
    (auto dest: gzip_header_extent)

function scan_trailing_members ::
  "(bytes \<Rightarrow> nat) \<Rightarrow> 'd inflater \<Rightarrow> snapshot \<Rightarrow> gzip_limits \<Rightarrow> nat \<Rightarrow> nat \<Rightarrow> nat \<Rightarrow> gzip_error + unit"
where
  "scan_trailing_members crc flate sn limits member_offset metadata_bytes output_bytes =
     (if member_offset = snapshot_len sn then Inr ()
      else case scan_member crc flate sn limits member_offset metadata_bytes output_bytes of
             Inl e \<Rightarrow> Inl e
           | Inr (trailer_end, metadata_bytes', output_bytes') \<Rightarrow>
               scan_trailing_members crc flate sn limits trailer_end metadata_bytes' output_bytes')"
  by pat_completeness auto
termination
  by (relation "measure (\<lambda>(_, _, sn, _, offs, _, _). snapshot_len sn - offs)") (auto dest: scan_member_progress)

declare scan_trailing_members.simps [simp del]

subsection \<open>One member\<close>

record decoded_gzip_member =
  dg_header :: gzip_header
  dg_compressed_payload :: byte_range
  dg_trailer :: byte_range
  dg_declared_crc32 :: nat
  dg_declared_isize :: nat
  dg_output :: source_snapshot

definition verified_new :: "'d inflater \<Rightarrow> range_reader \<Rightarrow> 'd verified_deflate_reader" where
  "verified_new flate r = \<lparr>vr_decoder = deflate_new flate r, vr_hashed = [], vr_output_len = 0, vr_terminal = False,
     vr_completion = None\<rparr>"

text \<open>The private output with the error the completion cell or the finding stands for.\<close>

definition derive_output ::
  "(bytes \<Rightarrow> nat) \<Rightarrow> (bytes \<Rightarrow> bytes) \<Rightarrow> 'd inflater \<Rightarrow> spool \<Rightarrow> snapshot \<Rightarrow> nat \<Rightarrow> range_reader \<Rightarrow> nat \<Rightarrow>
     gzip_error + source_snapshot \<times> trailer_evidence"
where
  "derive_output crc sha flate sp sn payload_offset input max_output =
     (case private_derived_from_reader sha sp (verified_read crc flate sn payload_offset) (verified_new flate input) max_output of
        (Inl f, vr) \<Rightarrow>
          (case vr_completion vr of
             Some (Inl e) \<Rightarrow> Inl e
           | _ \<Rightarrow>
               if code f = QuotaArchive then Inl (gzip_error_new GzOutputLimit QuotaDerived)
               else Inl (gzip_source f))
      | (Inr s, vr) \<Rightarrow>
          (case vr_completion vr of
             None \<Rightarrow> Inl gzip_deflate
           | Some (Inl e) \<Rightarrow> Inl e
           | Some (Inr evidence) \<Rightarrow> Inr (s, evidence)))"

definition decode_single_member ::
  "(bytes \<Rightarrow> nat) \<Rightarrow> (bytes \<Rightarrow> bytes) \<Rightarrow> 'd inflater \<Rightarrow> spool \<Rightarrow> snapshot \<Rightarrow> gzip_limits \<Rightarrow> gzip_error + decoded_gzip_member"
where
  "decode_single_member crc sha flate sp sn limits =
     (if gl_max_metadata_bytes limits < TRAILER_LEN then Inl metadata_limit
      else
      and_then (parse_header_at crc sn 0 (gl_max_metadata_bytes limits - TRAILER_LEN)) (\<lambda>h.
      let payload_offset = rlen (gh_header h)
      in if snapshot_len sn < payload_offset then Inl gzip_truncated
         else
         let input_len = snapshot_len sn - payload_offset
         in if input_len < TRAILER_LEN then Inl gzip_truncated
            else
            and_then (map_err gzip_source (snapshot_reader sn payload_offset input_len)) (\<lambda>input.
            and_then (derive_output crc sha flate sp sn payload_offset input (gl_max_output_bytes limits)) (\<lambda>(s, evidence).
            if range_end (gt_trailer evidence) \<noteq> snapshot_len sn
            then
              and_then (scan_trailing_members crc flate sn limits (range_end (gt_trailer evidence))
                (payload_offset + TRAILER_LEN) (so_len s)) (\<lambda>_.
              Inl (gzip_error_new GzConcatenatedMember CodecDeflateTrailingInput))
            else
              Inr \<lparr>dg_header = h, dg_compressed_payload = gt_compressed_payload evidence,
                dg_trailer = gt_trailer evidence, dg_declared_crc32 = gt_declared_crc32 evidence,
                dg_declared_isize = gt_declared_isize evidence, dg_output = s\<rparr>))))"

text \<open>\<open>transform_single_member\<close>: the decoded member, the identifier of the derived domain, and the set and
  the graph with it.\<close>

definition transform_single_member ::
  "(bytes \<Rightarrow> nat) \<Rightarrow> (bytes \<Rightarrow> bytes) \<Rightarrow> 'd inflater \<Rightarrow> spool \<Rightarrow> snapshot_set \<Rightarrow> transform_graph \<Rightarrow> gzip_limits \<Rightarrow>
     gzip_error + decoded_gzip_member \<times> nat \<times> snapshot_set \<times> transform_graph"
where
  "transform_single_member crc sha flate sp ds graph limits =
     and_then (decode_single_member crc sha flate sp (so_snapshot (set_original ds)) limits) (\<lambda>decoded.
     and_then (map_err (\<lambda>f. \<lparr>gze_kind = GzTransformAuthority, gze_finding = f\<rparr>)
       (append_derived_snapshot sha ds graph GzipRfc1952SingleMemberV1
         (domain_original \<lparr>offset = 0, rlen = so_len (set_original ds)\<rparr>) (dg_output decoded))) (\<lambda>(output_domain, ds', graph').
     Inr (decoded, output_domain, ds', graph')))"

subsection \<open>What a decoded member is\<close>

text \<open>The verified reader keeps count of what it emitted.\<close>

definition verified_inv :: "'d verified_deflate_reader \<Rightarrow> bytes \<Rightarrow> bool" where
  "verified_inv vr emitted \<longleftrightarrow> vr_hashed vr = emitted \<and> vr_output_len vr = length emitted"

text \<open>The trailer that follows the compressed payload in the source and states the CRC and the size of the output.\<close>

definition trailer_at :: "(bytes \<Rightarrow> nat) \<Rightarrow> snapshot \<Rightarrow> nat \<Rightarrow> bytes \<Rightarrow> trailer_evidence \<Rightarrow> bool" where
  "trailer_at crc sn payload_offset emitted t \<longleftrightarrow>
     (let e = offset (gt_trailer t) in
        offset (gt_compressed_payload t) = payload_offset \<and> e = payload_offset + rlen (gt_compressed_payload t) \<and>
        rlen (gt_trailer t) = 8 \<and> e + 8 \<le> snapshot_len sn \<and> e + 8 \<le> u64_max \<and>
        gt_declared_crc32 t = le_value (slice_of e (e + 4) (content sn)) \<and>
        gt_declared_isize t = le_value (slice_of (e + 4) (e + 8) (content sn)) \<and>
        gt_declared_crc32 t = crc emitted \<and> gt_declared_isize t = gzip_isize (length emitted))"

lemma finish_member_ok:
  assumes "finish_member crc sn po vr = Inr t" "verified_inv vr emitted"
  shows "trailer_at crc sn po emitted t"
proof -
  define e where "e = po + dd_total_in (vr_decoder vr)"
  from assms(1) obtain bs where b: "gzip_read_exact sn e 8 = Inr bs" "e + 8 \<le> u64_max" "e + 8 \<le> snapshot_len sn"
    "le_value (take 4 bs) = crc (vr_hashed vr)" "le_value (drop 4 bs) = gzip_isize (vr_output_len vr)"
    "t = \<lparr>gt_compressed_payload = \<lparr>offset = po, rlen = dd_total_in (vr_decoder vr)\<rparr>, gt_trailer = \<lparr>offset = e, rlen = 8\<rparr>,
      gt_declared_crc32 = le_value (take 4 bs), gt_declared_isize = le_value (drop 4 bs)\<rparr>"
    by (auto simp: finish_member_def and_then_eq_Inr checked_add_u64_def TRAILER_LEN_def Let_def e_def split: if_splits)
  from gzip_read_exact_ok [OF b(1)] have bs: "bs = slice_of e (e + 8) (content sn)" by simp
  have "take 4 bs = slice_of e (e + 4) (content sn)" "drop 4 bs = slice_of (e + 4) (e + 8) (content sn)"
    unfolding bs slice_of_def by (simp_all add: drop_take add.commute)
  with b assms(2) show ?thesis by (simp add: trailer_at_def verified_inv_def Let_def e_def)
qed

definition verified_running :: "'d verified_deflate_reader \<Rightarrow> bytes \<Rightarrow> bool" where
  "verified_running vr emitted \<longleftrightarrow> verified_inv vr emitted \<and> \<not> vr_terminal vr \<and> vr_completion vr = None"

lemma verified_read_chunk:
  assumes "verified_read crc flate sn po vr room = (Inr chunk, vr')" "verified_running vr emitted" "0 < room"
  shows "if chunk = [] then \<exists>t. vr_completion vr' = Some (Inr t) \<and> trailer_at crc sn po emitted t
    else verified_running vr' (emitted @ chunk)"
proof -
  obtain res dd where rd: "deflate_read flate DEFLATE_INPUT_BUFFER_BYTES room (vr_decoder vr) = (res, dd)" by fastforce
  have "verified_inv (vr\<lparr>vr_decoder := dd\<rparr>) emitted" using assms(2) by (simp add: verified_running_def verified_inv_def)
  then have "trailer_at crc sn po emitted t" if "finish_member crc sn po (vr\<lparr>vr_decoder := dd\<rparr>) = Inr t" for t
    using that by (rule finish_member_ok [rotated])
  with assms rd show ?thesis
    by (auto simp: verified_read_def verified_running_def verified_fail_def verified_inv_def Let_def checked_add_u64_def
        split: sum.splits deflate_error.splits option.splits if_splits)
qed

lemma copy_verified:
  assumes "copy_loop (verified_read crc flate sn po) w cap vr copied = (Inr bs, vr')" "verified_running vr copied"
  shows "\<exists>t. vr_completion vr' = Some (Inr t) \<and> trailer_at crc sn po bs t"
  using assms
proof (induction "cap - length copied" arbitrary: vr copied rule: less_induct)
  case less
  have room: "0 < copy_limit cap copied" by (simp add: u64_max_def COPY_BUFFER_BYTES_def)
  from less.prems(1) show ?case
  proof (cases rule: copy_loop_step)
    case 1
    with verified_read_chunk [OF _ less.prems(2) room] show ?thesis by fastforce
  next
    case (2 chunk vr1)
    then have "cap - length (copied @ chunk) < cap - length copied" by (cases chunk) auto
    moreover from verified_read_chunk [OF 2(1) less.prems(2) room] 2(2) have "verified_running vr1 (copied @ chunk)" by simp
    ultimately show ?thesis using less.hyps 2(5) by blast
  qed
qed

text \<open>The specification of a decoded member: header, payload and trailer partition the source, the
  output is a private file bound to its digest, and the trailer states its CRC and size.\<close>

definition gzip_member_spec ::
  "(bytes \<Rightarrow> nat) \<Rightarrow> (bytes \<Rightarrow> bytes) \<Rightarrow> snapshot \<Rightarrow> gzip_limits \<Rightarrow> decoded_gzip_member \<Rightarrow> bool"
where
  "gzip_member_spec crc sha sn limits d \<longleftrightarrow>
     gzip_header_at crc sn 0 (dg_header d) \<and>
     trailer_at crc sn (rlen (gh_header (dg_header d))) (content (so_snapshot (dg_output d)))
       \<lparr>gt_compressed_payload = dg_compressed_payload d, gt_trailer = dg_trailer d,
        gt_declared_crc32 = dg_declared_crc32 d, gt_declared_isize = dg_declared_isize d\<rparr> \<and>
     offset (dg_trailer d) + 8 = snapshot_len sn \<and>
     rlen (gh_header (dg_header d)) + 8 \<le> gl_max_metadata_bytes limits \<and>
     so_len (dg_output d) \<le> gl_max_output_bytes limits \<and> snapshot_bound sha (dg_output d) \<and>
     so_path (dg_output d) = None \<and> backing (so_snapshot (dg_output d)) \<noteq> Memory"

lemma derive_output_ok:
  assumes "derive_output crc sha flate sp sn po input cap = Inr (s, t)"
  shows "trailer_at crc sn po (content (so_snapshot s)) t" "snapshot_bound sha s" "so_len s \<le> cap" "so_path s = None"
    "backing (so_snapshot s) = PrivateFile (sp_read_ok sp)"
proof -
  from assms obtain vr where p: "private_file_from_bounded_reader sha sp None (verified_read crc flate sn po)
      (verified_new flate input) None cap = (Inr s, vr)" and c: "vr_completion vr = Some (Inr t)"
    by (auto simp: derive_output_def private_derived_from_reader_def split: prod.splits sum.splits option.splits if_splits)
  note b = private_file_bound [OF p]
  show "snapshot_bound sha s" "so_len s \<le> cap" "so_path s = None" "backing (so_snapshot s) = PrivateFile (sp_read_ok sp)"
    using b by simp_all
  have "verified_running (verified_new flate input) []"
    by (simp add: verified_running_def verified_inv_def verified_new_def)
  with b(6) c copy_verified show "trailer_at crc sn po (content (so_snapshot s)) t" by fastforce
qed

lemma decode_single_member_ok:
  assumes "decode_single_member crc sha flate sp sn limits = Inr d"
  shows "gzip_member_spec crc sha sn limits d"
proof -
  from assms obtain h input s t where
    1: "8 \<le> gl_max_metadata_bytes limits" "parse_header_at crc sn 0 (gl_max_metadata_bytes limits - 8) = Inr h"
      "derive_output crc sha flate sp sn (rlen (gh_header h)) input (gl_max_output_bytes limits) = Inr (s, t)"
      "range_end (gt_trailer t) = snapshot_len sn"
      "d = \<lparr>dg_header = h, dg_compressed_payload = gt_compressed_payload t, dg_trailer = gt_trailer t,
        dg_declared_crc32 = gt_declared_crc32 t, dg_declared_isize = gt_declared_isize t, dg_output = s\<rparr>"
    by (auto simp: decode_single_member_def TRAILER_LEN_def and_then_eq_Inr Let_def split: if_splits)
  note o = derive_output_ok [OF 1(3)] and h = gzip_header_ok [OF 1(2)]
  have "offset (gt_trailer t) + 8 = snapshot_len sn"
    using o(1) 1(4) by (auto simp: trailer_at_def range_end_def Let_def)
  with o h 1(1) show ?thesis by (cases t) (auto simp: gzip_member_spec_def 1(5))
qed

end
