(* ===== verification/GzipAudit.thy ===== *)
theory GzipAudit
  imports Gzip Covering
begin

unbundle bit_operations_syntax

text \<open>
  The independent audit of a gzip wrapper, \<open>audit_gzip_wrapper_covering\<close> of
  \<open>crates/sealr/src/covering.rs\<close>. It decodes nothing: it replays the header over the original
  snapshot and compares it with the recorded evidence. It accepts exactly the evidence that
  describes the source the way the reader's specification does.
\<close>

function audit_extra_loop :: "snapshot \<Rightarrow> nat \<Rightarrow> nat \<Rightarrow> nat \<Rightarrow> u64 list \<Rightarrow> finding + nat" where
  "audit_extra_loop sn extra_end cursor count seen =
     (if cursor \<ge> extra_end then Inr count
      else if extra_end - cursor < 4 then Inl inconsistent
      else and_then (map_err (\<lambda>_. inconsistent) (read_exact_at sn cursor 4)) (\<lambda>subfield.
      if subfield ! 1 = 0 then Inl inconsistent
      else
      let ident = le_value [subfield ! 0, subfield ! 1];
          word = ident div 64;
          mask = push_bit (ident mod 64) 1
      in if seen ! word AND mask \<noteq> 0 then Inl inconsistent
         else and_then (ok_or inconsistent
            (Option.bind (checked_add_u64 cursor 4) (\<lambda>v. checked_add_u64 v (le_value [subfield ! 2, subfield ! 3])))) (\<lambda>subfield_end.
         if subfield_end > extra_end then Inl inconsistent
         else if count + 1 > 2 ^ 32 - 1 then Inl inconsistent
         else audit_extra_loop sn extra_end subfield_end (count + 1) (seen[word := seen ! word OR mask]))))"
  by pat_completeness auto
termination
  by (relation "measure (\<lambda>(_, ending, cursor, _, _). ending - cursor)")
    (auto simp: checked_add_u64_def split: if_splits)

declare audit_extra_loop.simps [simp del]

text \<open>Each optional field: from the cursor before it to the cursor after it.\<close>

definition audit_gzip_extra :: "snapshot \<Rightarrow> gzip_wrapper_evidence \<Rightarrow> nat \<Rightarrow> finding + nat" where
  "audit_gzip_extra sn ev cursor =
     (if of_nat (gz_flags ev) AND FLAG_EXTRA \<noteq> 0
      then
        and_then (ok_or inconsistent (gz_extra ev)) (\<lambda>extra.
        if offset extra \<noteq> cursor \<or> rlen extra < 2 then Inl inconsistent
        else
        and_then (map_err (\<lambda>_. inconsistent) (read_exact_at sn cursor 2)) (\<lambda>xlen.
        if le_value xlen + 2 \<noteq> rlen extra then Inl inconsistent
        else
        and_then (checked_range_end extra) (\<lambda>extra_end.
        and_then (audit_extra_loop sn extra_end (cursor + 2) 0 (replicate 1024 0)) (\<lambda>count.
        if count \<noteq> gz_extra_subfield_count ev then Inl inconsistent else Inr extra_end))))
      else if gz_extra ev \<noteq> None \<or> gz_extra_subfield_count ev \<noteq> 0 then Inl inconsistent
      else Inr cursor)"

definition audit_gzip_c_string :: "snapshot \<Rightarrow> nat \<Rightarrow> nat \<Rightarrow> bool \<Rightarrow> byte_range option \<Rightarrow> finding + nat" where
  "audit_gzip_c_string sn cursor header_end flagged recorded =
     (if \<not> flagged then (if recorded = None then Inr cursor else Inl inconsistent)
      else
      and_then (ok_or inconsistent recorded) (\<lambda>r.
      and_then (checked_range_end r) (\<lambda>e.
      if offset r \<noteq> cursor \<or> rlen r = 0 \<or> e > header_end then Inl inconsistent
      else
      and_then (map_err (\<lambda>_. inconsistent) (read_vec sn (offset r) (rlen r))) (\<lambda>bs.
      if last bs \<noteq> 0 \<or> 0 \<in> set (butlast bs) then Inl inconsistent else Inr e))))"

definition audit_gzip_header_crc :: "(bytes \<Rightarrow> nat) \<Rightarrow> snapshot \<Rightarrow> gzip_wrapper_evidence \<Rightarrow> nat \<Rightarrow> finding + nat" where
  "audit_gzip_header_crc crc sn ev cursor =
     (if of_nat (gz_flags ev) AND FLAG_HEADER_CRC \<noteq> 0
      then
        and_then (ok_or inconsistent (gz_header_crc16 ev)) (\<lambda>r.
        if offset r \<noteq> cursor \<or> rlen r \<noteq> 2 then Inl inconsistent
        else
        and_then (map_err (\<lambda>_. inconsistent) (read_vec sn 0 cursor)) (\<lambda>header_bytes.
        and_then (map_err (\<lambda>_. inconsistent) (read_exact_at sn cursor 2)) (\<lambda>declared.
        if le_value declared \<noteq> crc header_bytes mod 2 ^ 16 then Inl inconsistent else Inr (cursor + 2))))
      else if gz_header_crc16 ev \<noteq> None then Inl inconsistent
      else Inr cursor)"

definition audit_gzip_fields :: "(bytes \<Rightarrow> nat) \<Rightarrow> snapshot \<Rightarrow> gzip_wrapper_evidence \<Rightarrow> nat \<Rightarrow> finding + nat" where
  "audit_gzip_fields crc sn ev header_end =
     and_then (audit_gzip_extra sn ev 10) (\<lambda>cursor1.
     and_then (audit_gzip_c_string sn cursor1 header_end (of_nat (gz_flags ev) AND FLAG_NAME \<noteq> 0) (gz_original_name ev)) (\<lambda>cursor2.
     and_then (audit_gzip_c_string sn cursor2 header_end (of_nat (gz_flags ev) AND FLAG_COMMENT \<noteq> 0) (gz_comment ev)) (\<lambda>cursor3.
     audit_gzip_header_crc crc sn ev cursor3)))"

definition audit_gzip_trailer :: "snapshot \<Rightarrow> gzip_wrapper_evidence \<Rightarrow> finding + unit" where
  "audit_gzip_trailer sn ev =
     and_then (map_err (\<lambda>_. inconsistent) (read_exact_at sn (offset (gz_trailer ev)) 8)) (\<lambda>trailer.
     if le_value (take 4 trailer) \<noteq> gz_declared_crc32 ev \<or> le_value (take 4 (drop 4 trailer)) \<noteq> gz_declared_isize ev \<or>
        gz_declared_isize ev \<noteq> gzip_isize (gz_derived_output_len ev) \<or> \<not> is_sha256_hex (gz_derived_output_sha256 ev)
     then Inl inconsistent else Inr ())"

definition audit_gzip_wrapper_covering ::
  "(bytes \<Rightarrow> nat) \<Rightarrow> snapshot \<Rightarrow> gzip_wrapper_evidence \<Rightarrow> finding + unit"
where
  "audit_gzip_wrapper_covering crc sn ev =
     and_then (checked_range_end (gz_header ev)) (\<lambda>header_end.
     and_then (checked_range_end (gz_compressed_payload ev)) (\<lambda>payload_end.
     and_then (checked_range_end (gz_trailer ev)) (\<lambda>trailer_end.
     if offset (gz_header ev) \<noteq> 0 \<or> rlen (gz_header ev) < 10 \<or> offset (gz_compressed_payload ev) \<noteq> header_end \<or>
        offset (gz_trailer ev) \<noteq> payload_end \<or> rlen (gz_trailer ev) \<noteq> 8 \<or> trailer_end \<noteq> snapshot_len sn
     then Inl inconsistent
     else
     and_then (map_err (\<lambda>_. inconsistent) (read_exact_at sn 0 10)) (\<lambda>fixed.
     if take 3 fixed \<noteq> [0x1F, 0x8B, 8] \<or> fixed ! 3 AND FLAG_RESERVED \<noteq> 0 \<or> unat (fixed ! 3) \<noteq> gz_flags ev \<or>
        le_value (take 4 (drop 4 fixed)) \<noteq> gz_modification_time ev \<or> unat (fixed ! 8) \<noteq> gz_extra_flags ev \<or>
        unat (fixed ! 9) \<noteq> gz_operating_system ev
     then Inl inconsistent
     else
     and_then (audit_gzip_fields crc sn ev header_end) (\<lambda>cursor.
     if cursor \<noteq> header_end then Inl inconsistent else audit_gzip_trailer sn ev)))))"

subsection \<open>The audit decides the specification\<close>

lemma gzip_read_iff: "gzip_read_exact sn offs n = Inr bs \<longleftrightarrow> read_exact_at sn offs n = Inr bs"
  by (auto simp: gzip_read_exact_def and_then_eq_Inr map_err_eq_Inr checked_add_u64_def in_bounds_def
      dest: read_exact_at_ok)

lemma audit_extra_loop_iff: "audit_extra_loop sn b a n seen = Inr m \<longleftrightarrow> extra_loop sn b a n seen = Inr m"
proof (induction "b - a" arbitrary: a n seen rule: less_induct)
  case less
  note unf = audit_extra_loop.simps [of sn b a] extra_loop.simps [of sn b a]
  show ?case
  proof (cases "b \<le> a \<or> b - a < 4")
    case True
    then show ?thesis by (auto simp: unf)
  next
    case range: False
    show ?thesis
    proof (cases "read_exact_at sn a 4")
      case (Inl f)
      then have "gzip_read_exact sn a 4 \<noteq> Inr bs" for bs by (simp add: gzip_read_iff)
      then obtain g where "gzip_read_exact sn a 4 = Inl g" by (cases "gzip_read_exact sn a 4") auto
      with range Inl show ?thesis by (simp add: unf)
    next
      case (Inr x)
      then have g: "gzip_read_exact sn a 4 = Inr x" by (simp add: gzip_read_iff)
      define word mask where "word = le_value [x ! 0, x ! 1] div 64" and "mask = (push_bit (le_value [x ! 0, x ! 1] mod 64) 1 :: u64)"
      define e where "e = Option.bind (checked_add_u64 a 4) (\<lambda>v. checked_add_u64 v (le_value [x ! 2, x ! 3]))"
      note unf' = unf [unfolded Inr g Let_def and_then_simps map_err_simps, folded word_def mask_def e_def]
      show ?thesis
      proof (cases e)
        case None
        with range show ?thesis by (simp add: unf')
      next
        case (Some e')
        then have "a + 4 \<le> e'" by (auto simp: e_def checked_add_u64_def bind_eq_Some_conv split: if_splits)
        with range Some less.hyps [of e' "n + 1" "seen[word := seen ! word OR mask]"] show ?thesis by (auto simp: unf')
      qed
    qed
  qed
qed

text \<open>A source whose reads succeed and whose length is a \<open>u64\<close>.\<close>

abbreviation readable :: "snapshot \<Rightarrow> bool" where
  "readable sn \<equiv> reads_ok sn \<and> snapshot_ok sn"

lemma read_in_source:
  assumes "readable sn"
  shows "read_exact_at sn offs n = Inr bs \<longleftrightarrow> offs + n \<le> snapshot_len sn \<and> bs = slice_of offs (offs + n) (content sn)"
proof
  assume "read_exact_at sn offs n = Inr bs"
  from read_exact_at_ok [OF this]
  show "offs + n \<le> snapshot_len sn \<and> bs = slice_of offs (offs + n) (content sn)" by (simp add: in_bounds_def)
next
  assume "offs + n \<le> snapshot_len sn \<and> bs = slice_of offs (offs + n) (content sn)"
  with assms show "read_exact_at sn offs n = Inr bs"
    by (simp add: read_exact_at_memory in_bounds_def snapshot_ok_def)
qed

lemma range_end_in_source:
  "snapshot_ok sn \<Longrightarrow> offset r + rlen r \<le> snapshot_len sn \<Longrightarrow> checked_range_end r = Inr (offset r + rlen r)"
  by (simp add: checked_range_end_def checked_add_u64_def snapshot_ok_def)

lemma range_end_bounded: "checked_range_end r = Inr e \<Longrightarrow> e = offset r + rlen r \<and> e \<le> u64_max"
  by (auto simp: checked_range_end_def checked_add_u64_def split: if_splits)

lemma audit_gzip_extra_iff:
  assumes "readable sn" "a \<le> b" "b \<le> snapshot_len sn"
  shows "audit_gzip_extra sn ev a = Inr b \<longleftrightarrow>
    extra_at sn (of_nat (gz_flags ev)) (gz_extra ev) (gz_extra_subfield_count ev) a b"
proof (cases "of_nat (gz_flags ev) AND FLAG_EXTRA = 0")
  case True
  then show ?thesis by (auto simp: audit_gzip_extra_def extra_at_def)
next
  case False
  show ?thesis
  proof
    assume "audit_gzip_extra sn ev a = Inr b"
    with False show "extra_at sn (of_nat (gz_flags ev)) (gz_extra ev) (gz_extra_subfield_count ev) a b"
      using assms
      by (auto simp: audit_gzip_extra_def extra_at_def and_then_eq_Inr read_in_source audit_extra_loop_iff
          dest!: range_end_bounded split: if_splits)
  next
    assume "extra_at sn (of_nat (gz_flags ev)) (gz_extra ev) (gz_extra_subfield_count ev) a b"
    then have e: "a + 2 \<le> b" "gz_extra ev = Some \<lparr>offset = a, rlen = b - a\<rparr>"
      "le_value (slice_of a (a + 2) (content sn)) = b - (a + 2)"
      "extra_loop sn b (a + 2) 0 (replicate 1024 0) = Inr (gz_extra_subfield_count ev)"
      using False by (simp_all add: extra_at_def)
    moreover have "checked_range_end \<lparr>offset = a, rlen = b - a\<rparr> = Inr b"
      using assms range_end_in_source [of sn "\<lparr>offset = a, rlen = b - a\<rparr>"] by simp
    moreover have "read_exact_at sn a 2 = Inr (slice_of a (a + 2) (content sn))"
      using assms e(1) by (simp add: read_in_source)
    ultimately show "audit_gzip_extra sn ev a = Inr b"
      using False by (simp add: audit_gzip_extra_def audit_extra_loop_iff [THEN iffD2])
  qed
qed

lemma string_slice:
  assumes "a < b" "b \<le> snapshot_len sn"
  shows "last (slice_of a b (content sn)) = 0 \<and> 0 \<notin> set (butlast (slice_of a b (content sn))) \<longleftrightarrow> c_string_at sn a b"
proof -
  have len: "length (slice_of a b (content sn)) = b - a" using assms by simp
  with assms(1) have ne: "slice_of a b (content sn) \<noteq> []" by (metis diff_is_0_eq leD list.size(3))
  have "last (slice_of a b (content sn)) = content sn ! (b - 1)"
    using ne len assms by (simp add: last_conv_nth slice_nth)
  moreover have "0 \<in> set (butlast (slice_of a b (content sn))) \<longleftrightarrow> (\<exists>i. a \<le> i \<and> i < b - 1 \<and> content sn ! i = 0)"
  proof -
    have "butlast (slice_of a b (content sn)) = slice_of a (b - 1) (content sn)"
      using len assms by (simp add: butlast_conv_take slice_of_def)
    then show ?thesis using assms by (auto simp: in_set_slice_iff)
  qed
  ultimately show ?thesis using assms by (auto simp: c_string_at_def)
qed

lemma audit_gzip_c_string_iff:
  assumes "readable sn" "he \<le> snapshot_len sn" "a \<le> he"
  shows "audit_gzip_c_string sn a he flagged r = Inr b \<longleftrightarrow> optional_string_at sn flagged r a b \<and> b \<le> he"
proof (cases flagged)
  case False
  with assms(3) show ?thesis by (auto simp: audit_gzip_c_string_def optional_string_at_def)
next
  case True
  show ?thesis
  proof
    assume "audit_gzip_c_string sn a he flagged r = Inr b"
    with True obtain bs where "r = Some \<lparr>offset = a, rlen = b - a\<rparr>" "a < b" "b \<le> he"
      "read_exact_at sn a (b - a) = Inr bs" "last bs = 0" "0 \<notin> set (butlast bs)"
      by (auto simp: audit_gzip_c_string_def and_then_eq_Inr read_vec_eq dest!: range_end_bounded split: if_splits)
    with True assms string_slice [of a b sn] show "optional_string_at sn flagged r a b \<and> b \<le> he"
      by (simp add: optional_string_at_def read_in_source)
  next
    assume "optional_string_at sn flagged r a b \<and> b \<le> he"
    then have "r = Some \<lparr>offset = a, rlen = b - a\<rparr>" "c_string_at sn a b" "b \<le> he" and ab: "a < b" "b \<le> snapshot_len sn"
      using True assms(2) by (auto simp: optional_string_at_def c_string_at_def)
    moreover have "checked_range_end \<lparr>offset = a, rlen = b - a\<rparr> = Inr b"
      using assms(1) ab range_end_in_source [of sn "\<lparr>offset = a, rlen = b - a\<rparr>"] by simp
    moreover have "read_exact_at sn a (b - a) = Inr (slice_of a b (content sn))"
      using assms(1) ab by (simp add: read_in_source)
    ultimately show "audit_gzip_c_string sn a he flagged r = Inr b"
      using True string_slice [of a b sn] by (simp add: audit_gzip_c_string_def read_vec_eq)
  qed
qed

lemma audit_gzip_header_crc_iff:
  assumes "readable sn" "b \<le> snapshot_len sn" "a \<le> b"
  shows "audit_gzip_header_crc crc sn ev a = Inr b \<longleftrightarrow>
    header_crc_at crc sn 0 (of_nat (gz_flags ev)) (gz_header_crc16 ev) a b"
proof (cases "of_nat (gz_flags ev) AND FLAG_HEADER_CRC = 0")
  case True
  then show ?thesis by (auto simp: audit_gzip_header_crc_def header_crc_at_def)
next
  case False
  show ?thesis
  proof
    assume "audit_gzip_header_crc crc sn ev a = Inr b"
    with False obtain r h declared where "gz_header_crc16 ev = Some r" "offset r = a" "rlen r = 2"
      "read_exact_at sn 0 a = Inr h" "read_exact_at sn a 2 = Inr declared" "le_value declared = crc h mod 2 ^ 16" "b = a + 2"
      by (auto simp: audit_gzip_header_crc_def and_then_eq_Inr read_vec_eq split: if_splits)
    with assms False show "header_crc_at crc sn 0 (of_nat (gz_flags ev)) (gz_header_crc16 ev) a b"
      by (cases r) (simp add: header_crc_at_def read_in_source)
  next
    assume "header_crc_at crc sn 0 (of_nat (gz_flags ev)) (gz_header_crc16 ev) a b"
    then have b: "b = a + 2" "gz_header_crc16 ev = Some \<lparr>offset = a, rlen = 2\<rparr>"
      "crc (slice_of 0 a (content sn)) mod 2 ^ 16 = le_value (slice_of a (a + 2) (content sn))"
      using False by (simp_all add: header_crc_at_def)
    moreover have "read_exact_at sn 0 a = Inr (slice_of 0 a (content sn))"
      "read_exact_at sn a 2 = Inr (slice_of a (a + 2) (content sn))"
      using assms b(1) by (simp_all add: read_in_source)
    ultimately show "audit_gzip_header_crc crc sn ev a = Inr b"
      using False by (simp add: audit_gzip_header_crc_def read_vec_eq)
  qed
qed

text \<open>The wrapper evidence of a decoded member, and the header an evidence records.\<close>

definition gzip_wrapper_of :: "decoded_gzip_member \<Rightarrow> string \<Rightarrow> gzip_wrapper_evidence" where
  "gzip_wrapper_of d output_sha256 =
     (let h = dg_header d
      in \<lparr>gz_flags = unat (gh_flags h), gz_modification_time = gh_modification_time h,
          gz_extra_flags = unat (gh_extra_flags h), gz_operating_system = unat (gh_operating_system h),
          gz_header = gh_header h, gz_extra = gh_extra h, gz_extra_subfield_count = gh_extra_subfield_count h,
          gz_original_name = gh_original_name h, gz_comment = gh_comment h, gz_header_crc16 = gh_header_crc16 h,
          gz_compressed_payload = dg_compressed_payload d, gz_trailer = dg_trailer d,
          gz_declared_crc32 = dg_declared_crc32 d, gz_declared_isize = dg_declared_isize d,
          gz_derived_output_len = so_len (dg_output d), gz_derived_output_sha256 = output_sha256\<rparr>)"

definition recorded_header :: "gzip_wrapper_evidence \<Rightarrow> gzip_header" where
  "recorded_header ev = \<lparr>gh_flags = of_nat (gz_flags ev), gh_modification_time = gz_modification_time ev,
     gh_extra_flags = of_nat (gz_extra_flags ev), gh_operating_system = of_nat (gz_operating_system ev),
     gh_header = gz_header ev, gh_extra = gz_extra ev, gh_extra_subfield_count = gz_extra_subfield_count ev,
     gh_original_name = gz_original_name ev, gh_comment = gz_comment ev, gh_header_crc16 = gz_header_crc16 ev\<rparr>"

text \<open>The evidence describes the source: its fields are bytes, the header is the source's, payload and
  trailer follow it to the end, and the trailer is the recorded one and fits the derived length.\<close>

definition gzip_covered :: "(bytes \<Rightarrow> nat) \<Rightarrow> snapshot \<Rightarrow> gzip_wrapper_evidence \<Rightarrow> bool" where
  "gzip_covered crc sn ev \<longleftrightarrow>
     gz_flags ev < 256 \<and> gz_extra_flags ev < 256 \<and> gz_operating_system ev < 256 \<and>
     gzip_header_at crc sn 0 (recorded_header ev) \<and>
     (let e = offset (gz_trailer ev) in
        offset (gz_compressed_payload ev) = rlen (gz_header ev) \<and>
        e = rlen (gz_header ev) + rlen (gz_compressed_payload ev) \<and> rlen (gz_trailer ev) = 8 \<and> e + 8 = snapshot_len sn \<and>
        gz_declared_crc32 ev = le_value (slice_of e (e + 4) (content sn)) \<and>
        gz_declared_isize ev = le_value (slice_of (e + 4) (e + 8) (content sn))) \<and>
     gz_declared_isize ev = gzip_isize (gz_derived_output_len ev) \<and> is_sha256_hex (gz_derived_output_sha256 ev)"

lemma audit_cursors_advance:
  "audit_gzip_extra sn ev a = Inr b \<Longrightarrow> a \<le> b"
  "audit_gzip_c_string sn a he flagged r = Inr b \<Longrightarrow> a \<le> b"
  "audit_gzip_header_crc crc sn ev a = Inr b \<Longrightarrow> a \<le> b"
  by (auto simp: audit_gzip_extra_def audit_gzip_c_string_def audit_gzip_header_crc_def and_then_eq_Inr
      dest!: range_end_bounded split: if_splits)

lemma trailer_slices:
  "take 4 (slice_of e (e + 8) xs) = slice_of e (e + 4) xs" "take 4 (drop 4 (slice_of e (e + 8) xs)) = slice_of (e + 4) (e + 8) xs"
  by (simp_all add: slice_of_def drop_take add.commute)

lemma audit_gzip_trailer_iff:
  assumes "readable sn" "offset (gz_trailer ev) + 8 \<le> snapshot_len sn"
  shows "audit_gzip_trailer sn ev = Inr () \<longleftrightarrow>
    (let e = offset (gz_trailer ev) in
       gz_declared_crc32 ev = le_value (slice_of e (e + 4) (content sn)) \<and>
       gz_declared_isize ev = le_value (slice_of (e + 4) (e + 8) (content sn))) \<and>
    gz_declared_isize ev = gzip_isize (gz_derived_output_len ev) \<and> is_sha256_hex (gz_derived_output_sha256 ev)"
proof -
  have "read_exact_at sn (offset (gz_trailer ev)) 8 =
      Inr (slice_of (offset (gz_trailer ev)) (offset (gz_trailer ev) + 8) (content sn))"
    using assms by (simp add: read_in_source)
  then show ?thesis by (auto simp: audit_gzip_trailer_def trailer_slices Let_def)
qed

text \<open>The optional fields of the audit end at the header's end exactly when they are the source's.\<close>

definition header_fields_at :: "(bytes \<Rightarrow> nat) \<Rightarrow> snapshot \<Rightarrow> gzip_wrapper_evidence \<Rightarrow> nat \<Rightarrow> bool" where
  "header_fields_at crc sn ev e \<longleftrightarrow>
     (\<exists>a b c. let flags = of_nat (gz_flags ev) in
        extra_at sn flags (gz_extra ev) (gz_extra_subfield_count ev) 10 a \<and>
        optional_string_at sn (flags AND FLAG_NAME \<noteq> 0) (gz_original_name ev) a b \<and>
        optional_string_at sn (flags AND FLAG_COMMENT \<noteq> 0) (gz_comment ev) b c \<and>
        header_crc_at crc sn 0 flags (gz_header_crc16 ev) c e)"

lemma audit_gzip_fields_iff:
  assumes "readable sn" "e \<le> snapshot_len sn"
  shows "audit_gzip_fields crc sn ev e = Inr e \<longleftrightarrow> header_fields_at crc sn ev e"
proof
  assume "audit_gzip_fields crc sn ev e = Inr e"
  then obtain a b c where s: "audit_gzip_extra sn ev 10 = Inr a"
    "audit_gzip_c_string sn a e (of_nat (gz_flags ev) AND FLAG_NAME \<noteq> 0) (gz_original_name ev) = Inr b"
    "audit_gzip_c_string sn b e (of_nat (gz_flags ev) AND FLAG_COMMENT \<noteq> 0) (gz_comment ev) = Inr c"
    "audit_gzip_header_crc crc sn ev c = Inr e"
    by (auto simp: audit_gzip_fields_def and_then_eq_Inr)
  note le = audit_cursors_advance(1) [OF s(1)] audit_cursors_advance(2) [OF s(2)] audit_cursors_advance(2) [OF s(3)]
    audit_cursors_advance(3) [OF s(4)]
  with s assms show "header_fields_at crc sn ev e"
    unfolding header_fields_at_def Let_def
    by (intro exI [of _ a] exI [of _ b] exI [of _ c])
      (simp add: audit_gzip_extra_iff audit_gzip_c_string_iff audit_gzip_header_crc_iff)
next
  assume "header_fields_at crc sn ev e"
  then obtain a b c where s: "extra_at sn (of_nat (gz_flags ev)) (gz_extra ev) (gz_extra_subfield_count ev) 10 a"
    "optional_string_at sn (of_nat (gz_flags ev) AND FLAG_NAME \<noteq> 0) (gz_original_name ev) a b"
    "optional_string_at sn (of_nat (gz_flags ev) AND FLAG_COMMENT \<noteq> 0) (gz_comment ev) b c"
    "header_crc_at crc sn 0 (of_nat (gz_flags ev)) (gz_header_crc16 ev) c e"
    unfolding header_fields_at_def Let_def by blast
  note le = s(1) [THEN field_extents(1)] s(2) [THEN field_extents(2)] s(3) [THEN field_extents(2)] s(4) [THEN field_extents(3)]
  have "audit_gzip_extra sn ev 10 = Inr a" using s(1) assms le by (simp add: audit_gzip_extra_iff)
  moreover have "audit_gzip_c_string sn a e (of_nat (gz_flags ev) AND FLAG_NAME \<noteq> 0) (gz_original_name ev) = Inr b"
    using s(2) assms le by (simp add: audit_gzip_c_string_iff)
  moreover have "audit_gzip_c_string sn b e (of_nat (gz_flags ev) AND FLAG_COMMENT \<noteq> 0) (gz_comment ev) = Inr c"
    using s(3) assms le by (simp add: audit_gzip_c_string_iff)
  moreover have "audit_gzip_header_crc crc sn ev c = Inr e" using s(4) assms le by (simp add: audit_gzip_header_crc_iff)
  ultimately show "audit_gzip_fields crc sn ev e = Inr e" by (simp add: audit_gzip_fields_def)
qed

lemma fixed_header_iff:
  assumes "10 \<le> length xs" "fixed = slice_of 0 10 xs"
  shows "take 3 fixed = [0x1F, 0x8B, 8] \<longleftrightarrow> take 2 fixed = [0x1F, 0x8B] \<and> fixed ! 2 = (8 :: u8)"
proof -
  from assms have "length fixed = 10" by simp
  then have "take 3 fixed = take 2 fixed @ [fixed ! 2]" using take_Suc_conv_app_nth [of 2 fixed] by simp
  then show ?thesis by (auto simp: append_eq_Cons_conv)
qed

lemma byte_field: "n < 256 \<and> w = (of_nat n :: u8) \<longleftrightarrow> unat w = n"
  using unat_u8_less [of w] by (auto simp: unat_of_nat)

lemma recorded_header_iff:
  "gzip_header_at crc sn 0 (recorded_header ev) \<longleftrightarrow>
     (let fixed = slice_of 0 10 (content sn); flags = of_nat (gz_flags ev) in
        10 \<le> snapshot_len sn \<and> take 2 fixed = [0x1F, 0x8B] \<and> fixed ! 2 = 8 \<and> fixed ! 3 = flags \<and>
        flags AND FLAG_RESERVED = 0 \<and> gz_modification_time ev = le_value (take 4 (drop 4 fixed)) \<and>
        fixed ! 8 = of_nat (gz_extra_flags ev) \<and> fixed ! 9 = of_nat (gz_operating_system ev)) \<and>
     offset (gz_header ev) = 0 \<and> header_fields_at crc sn ev (rlen (gz_header ev))"
proof -
  obtain n where h: "gz_header ev = \<lparr>offset = offset (gz_header ev), rlen = n\<rparr>" by (metis byte_range.cases byte_range.select_convs(1))
  show ?thesis
    unfolding gzip_header_at_def header_fields_at_def recorded_header_def Let_def gzip_header.select_convs
    by (subst h, subst (2) h) (auto simp: eq_commute [of "of_nat _ :: u8"])
qed

lemma header_fields_extent: "header_fields_at crc sn ev e \<Longrightarrow> 10 \<le> e"
  by (auto simp: header_fields_at_def Let_def dest!: field_extents)

lemma gzip_audit_iff:
  assumes "reads_ok sn" "snapshot_ok sn"
  shows "audit_gzip_wrapper_covering crc sn ev = Inr () \<longleftrightarrow> gzip_covered crc sn ev"
proof -
  let ?ho = "offset (gz_header ev)" and ?h = "rlen (gz_header ev)" and ?to = "offset (gz_trailer ev)"
  let ?fixed = "slice_of 0 10 (content sn)"
  define shape where "shape \<longleftrightarrow> ?ho = 0 \<and> 10 \<le> ?h \<and> offset (gz_compressed_payload ev) = ?h \<and>
      ?to = ?h + rlen (gz_compressed_payload ev) \<and> rlen (gz_trailer ev) = 8 \<and> ?to + 8 = snapshot_len sn"
  define start where "start \<longleftrightarrow> take 2 ?fixed = [0x1F, 0x8B] \<and> ?fixed ! 2 = 8 \<and> ?fixed ! 3 AND FLAG_RESERVED = 0 \<and>
      unat (?fixed ! 3) = gz_flags ev \<and> gz_modification_time ev = le_value (take 4 (drop 4 ?fixed)) \<and>
      unat (?fixed ! 8) = gz_extra_flags ev \<and> unat (?fixed ! 9) = gz_operating_system ev"
  have spec: "gzip_covered crc sn ev \<longleftrightarrow> shape \<and> start \<and> header_fields_at crc sn ev ?h \<and> audit_gzip_trailer sn ev = Inr ()"
    unfolding gzip_covered_def recorded_header_iff shape_def start_def Let_def
    using assms audit_gzip_trailer_iff [of sn ev] header_fields_extent [of crc sn ev ?h]
    by (auto simp: Let_def byte_field [symmetric])
  show ?thesis
  proof (cases shape)
    case False
    have "audit_gzip_wrapper_covering crc sn ev \<noteq> Inr ()"
      using False by (auto simp: audit_gzip_wrapper_covering_def and_then_eq_Inr shape_def dest!: range_end_bounded)
    with False spec show ?thesis by simp
  next
    case True
    then have "checked_range_end (gz_header ev) = Inr ?h" "checked_range_end (gz_compressed_payload ev) = Inr ?to"
      "checked_range_end (gz_trailer ev) = Inr (snapshot_len sn)" "read_exact_at sn 0 10 = Inr ?fixed"
      and l: "10 \<le> snapshot_len sn" "?h \<le> snapshot_len sn"
      using assms by (simp_all add: shape_def range_end_in_source [of sn] read_in_source)
    note e = this
    have "audit_gzip_wrapper_covering crc sn ev = Inr () \<longleftrightarrow> start \<and> audit_gzip_fields crc sn ev ?h = Inr ?h \<and>
        audit_gzip_trailer sn ev = Inr ()"
      using True e(1-4) fixed_header_iff [OF l(1) refl]
      by (auto simp: audit_gzip_wrapper_covering_def and_then_eq_Inr shape_def start_def split: if_splits)
    with True spec audit_gzip_fields_iff [of sn ?h crc ev] assms l show ?thesis by simp
  qed
qed

subsection \<open>Properties\<close>

text \<open>C17. The gzip audit decides its specification. On a source whose reads succeed it accepts a recorded
  wrapper exactly when the recorded fields are the header of the source, field by field, the
  payload and the trailer follow it to the last byte, the trailer bytes are the recorded CRC and
  size, the size is the derived length modulo 2 to the 32, and the derived digest is a SHA-256.\<close>

theorem gzip_audit_exact:
  assumes "reads_ok sn" "snapshot_ok sn"
  shows "audit_gzip_wrapper_covering crc sn ev = Inr () \<longleftrightarrow> gzip_covered crc sn ev"
  using assms by (rule gzip_audit_iff)

text \<open>A member with an empty payload and a plain header.\<close>

definition example_gzip_source :: snapshot where
  "example_gzip_source = \<lparr>content = [0x1F, 0x8B, 8, 0, 0, 0, 0, 0, 0, 255, 3, 0, 0, 0, 0, 0, 0, 0, 0, 0], backing = Memory\<rparr>"

definition example_gzip_evidence :: gzip_wrapper_evidence where
  "example_gzip_evidence = \<lparr>gz_flags = 0, gz_modification_time = 0, gz_extra_flags = 0, gz_operating_system = 255,
     gz_header = \<lparr>offset = 0, rlen = 10\<rparr>, gz_extra = None, gz_extra_subfield_count = 0, gz_original_name = None,
     gz_comment = None, gz_header_crc16 = None, gz_compressed_payload = \<lparr>offset = 10, rlen = 2\<rparr>,
     gz_trailer = \<lparr>offset = 12, rlen = 8\<rparr>, gz_declared_crc32 = 0, gz_declared_isize = 0, gz_derived_output_len = 0,
     gz_derived_output_sha256 = replicate 64 (CHR ''0'')\<rparr>"

theorem gzip_audit_exact_witness: "gzip_covered (\<lambda>_. 0) example_gzip_source example_gzip_evidence"
proof -
  have "reads_ok example_gzip_source" "snapshot_ok example_gzip_source"
    by (simp_all add: example_gzip_source_def reads_ok_def snapshot_ok_def u64_max_def)
  moreover have "audit_gzip_wrapper_covering (\<lambda>_. 0) example_gzip_source example_gzip_evidence = Inr ()"
    by (simp add: audit_gzip_wrapper_covering_def audit_gzip_fields_def audit_gzip_extra_def audit_gzip_c_string_def
        audit_gzip_header_crc_def audit_gzip_trailer_def example_gzip_source_def example_gzip_evidence_def
        checked_range_end_def checked_add_u64_def read_exact_at_def checked_range_def u64_max_def slice_of_def
        gzip_isize_def is_sha256_hex_def list_all_iff)
  ultimately show ?thesis by (simp add: gzip_audit_exact)
qed

lemma gzip_member_covered:
  assumes "gzip_member_spec crc sha sn limits d" "\<And>bs. length (sha bs) = 32"
  shows "gzip_covered crc sn (gzip_wrapper_of d (hex_sha256 sha (content (so_snapshot (dg_output d)))))" (is "gzip_covered _ _ ?ev")
proof -
  have "recorded_header ?ev = dg_header d" by (simp add: recorded_header_def gzip_wrapper_of_def Let_def)
  with assms show ?thesis
    unfolding gzip_covered_def
    by (auto simp: gzip_member_spec_def trailer_at_def gzip_wrapper_of_def Let_def is_sha256_hex_digest unat_u8_less)
qed

text \<open>C16. What the gzip reader decodes passes the audit. When it decodes a member, the header is the
  source's, header, compressed payload and trailer partition the source within the metadata cap,
  the output is a private file bound to its digest and within the output cap, the trailer states
  its CRC and its size, and the audit accepts the wrapper evidence made of it.\<close>

theorem gzip_reader_audited:
  assumes "decode_single_member crc sha flate sp sn limits = Inr d" "reads_ok sn" "snapshot_ok sn"
    and "\<And>bs. length (sha bs) = 32"
  shows "gzip_member_spec crc sha sn limits d \<and>
    audit_gzip_wrapper_covering crc sn (gzip_wrapper_of d (hex_sha256 sha (content (so_snapshot (dg_output d))))) = Inr ()"
proof -
  note spec = decode_single_member_ok [OF assms(1)]
  from gzip_member_covered [OF this assms(4)] spec assms(2,3) show ?thesis by (simp add: gzip_audit_iff)
qed

text \<open>An inflater that takes the two bytes of the empty Deflate stream and ends.\<close>

definition example_flate :: "unit inflater" where
  "example_flate = \<lparr>inf_new = (), inf_decompress = (\<lambda>_ input _. if input = [] then None else Some (True, 2, [], ()))\<rparr>"

lemmas example_gzip_reads = gzip_read_exact_def checked_add_u64_def read_exact_at_def checked_range_def u64_max_def
  slice_of_def example_gzip_source_def

lemma example_gzip_header:
  "parse_header_at (\<lambda>_. 0) example_gzip_source 0 56 =
     Inr \<lparr>gh_flags = 0, gh_modification_time = 0, gh_extra_flags = 0, gh_operating_system = 255,
       gh_header = \<lparr>offset = 0, rlen = 10\<rparr>, gh_extra = None, gh_extra_subfield_count = 0, gh_original_name = None,
       gh_comment = None, gh_header_crc16 = None\<rparr>"
  by (simp add: parse_header_at_def FIXED_HEADER_LEN_def read_extra_def read_optional_string_def read_header_crc_def
      example_gzip_reads)

lemma example_gzip_input:
  "snapshot_reader example_gzip_source 10 10 = Inr \<lparr>rr_snapshot = example_gzip_source, rr_offset = 10, rr_remaining = 10\<rparr>"
  by (simp add: snapshot_reader_ok in_bounds_def example_gzip_source_def u64_max_def)

lemma example_gzip_read:
  "verified_read (\<lambda>_. 0) example_flate example_gzip_source 10
     (verified_new example_flate \<lparr>rr_snapshot = example_gzip_source, rr_offset = 10, rr_remaining = 10\<rparr>) 65 =
   (Inr [], \<lparr>vr_decoder = \<lparr>dd_input = \<lparr>rr_snapshot = example_gzip_source, rr_offset = 20, rr_remaining = 0\<rparr>,
       dd_buffer = [0, 0, 0, 0, 0, 0, 0, 0], dd_decoder = (), dd_total_in = 2, dd_total_out = 0, dd_ended = True, dd_failed = False\<rparr>,
     vr_hashed = [], vr_output_len = 0, vr_terminal = True,
     vr_completion = Some (Inr \<lparr>gt_compressed_payload = \<lparr>offset = 10, rlen = 2\<rparr>, gt_trailer = \<lparr>offset = 12, rlen = 8\<rparr>,
       gt_declared_crc32 = 0, gt_declared_isize = 0\<rparr>)\<rparr>)"
  by (simp add: verified_read_def verified_new_def deflate_read_def deflate_new_def deflate_loop.simps fill_buf_def
      range_read_def finish_member_def DEFLATE_INPUT_BUFFER_BYTES_def example_flate_def TRAILER_LEN_def gzip_isize_def
      example_gzip_reads)

lemma example_gzip_decoded:
  "\<exists>d. decode_single_member (\<lambda>_. 0) (\<lambda>_. replicate 32 0) example_flate example_spool example_gzip_source
      \<lparr>gl_max_metadata_bytes = 64, gl_max_output_bytes = 64\<rparr> = Inr d"
proof -
  have "snapshot_len example_gzip_source = 20" by (simp add: example_gzip_source_def)
  then show ?thesis
    by (simp add: decode_single_member_def TRAILER_LEN_def example_gzip_header example_gzip_input derive_output_def
        private_derived_from_reader_def private_file_from_bounded_reader_def spool_open_def spool_seal_def io_step_def
        copy_bounded_def copy_loop.simps example_spool_def COPY_BUFFER_BYTES_def example_gzip_read u64_max_def
        range_end_def Let_def)
qed

theorem gzip_reader_audited_witness:
  "\<exists>d. decode_single_member (\<lambda>_. 0) (\<lambda>_. replicate 32 0) example_flate example_spool example_gzip_source
      \<lparr>gl_max_metadata_bytes = 64, gl_max_output_bytes = 64\<rparr> = Inr d \<and>
    audit_gzip_wrapper_covering (\<lambda>_. 0) example_gzip_source
      (gzip_wrapper_of d (hex_sha256 (\<lambda>_. replicate 32 0) (content (so_snapshot (dg_output d))))) = Inr ()"
proof -
  from example_gzip_decoded obtain d where d: "decode_single_member (\<lambda>_. 0) (\<lambda>_. replicate 32 0) example_flate
      example_spool example_gzip_source \<lparr>gl_max_metadata_bytes = 64, gl_max_output_bytes = 64\<rparr> = Inr d"
    by blast
  have "reads_ok example_gzip_source" "snapshot_ok example_gzip_source"
    by (simp_all add: example_gzip_source_def reads_ok_def snapshot_ok_def u64_max_def)
  from gzip_reader_audited [OF d this] d show ?thesis by auto
qed

end
