(* ===== verification/Crc.thy ===== *)
theory Crc
  imports Utf8
begin

unbundle bit_operations_syntax

text \<open>
  The table-driven checksums the program implements itself: the reflected CRC-64 of
  \<open>crates/sealr/src/xz.rs\<close> and the CRC-32 of \<open>bzip2.rs\<close>, which shifts the other way. Both are
  equal to the bit-serial register they tabulate; the argument is made once, in a locale.
\<close>

definition CRC64_POLY :: u64 where
  "CRC64_POLY = 0xC96C5795D7870F42"

definition crc64_step :: "u64 \<Rightarrow> u64" where
  "crc64_step v = (if v AND 1 \<noteq> 0 then drop_bit 1 v XOR CRC64_POLY else drop_bit 1 v)"

definition CRC64_TABLE :: "u64 list" where
  "CRC64_TABLE = map (\<lambda>i. (crc64_step ^^ 8) (of_nat i)) [0..<256]"

definition crc64_update :: "u64 \<Rightarrow> bytes \<Rightarrow> u64" where
  "crc64_update v bs = fold (\<lambda>b v. CRC64_TABLE ! unat (ucast v XOR b) XOR drop_bit 8 v) bs v"

definition crc64 :: "bytes \<Rightarrow> u64" where
  "crc64 bs = NOT (crc64_update (NOT 0) bs)"

definition BZIP2_CRC32_POLY :: "32 word" where
  "BZIP2_CRC32_POLY = 0x04C11DB7"

definition bzip2_step :: "32 word \<Rightarrow> 32 word" where
  "bzip2_step v = (if v AND 0x80000000 \<noteq> 0 then push_bit 1 v XOR BZIP2_CRC32_POLY else push_bit 1 v)"

definition BZIP2_CRC32_TABLE :: "32 word list" where
  "BZIP2_CRC32_TABLE = map (\<lambda>i. (bzip2_step ^^ 8) (push_bit 24 (of_nat i))) [0..<256]"

definition bzip2_crc_update :: "32 word \<Rightarrow> bytes \<Rightarrow> 32 word" where
  "bzip2_crc_update v bs = fold (\<lambda>b v. push_bit 8 v XOR BZIP2_CRC32_TABLE ! unat (ucast (drop_bit 24 v) XOR b)) bs v"

definition bzip2_crc32 :: "bytes \<Rightarrow> 32 word" where
  "bzip2_crc32 bs = NOT (bzip2_crc_update (NOT 0) bs)"

text \<open>\<open>fold_combined_crc\<close>: \<open>u32::rotate_left\<close> by one bit, then the block CRC.\<close>

definition fold_combined_crc :: "32 word \<Rightarrow> 32 word \<Rightarrow> 32 word" where
  "fold_combined_crc combined block_crc = (push_bit 1 combined OR drop_bit 31 combined) XOR block_crc"

subsection \<open>Registers that shift bytes out\<close>

text \<open>A register whose step is linear: \<open>lane\<close> puts a byte where the register shifts it out, \<open>front\<close>
  reads that byte, and a register with a zero byte in front only shifts for eight steps.\<close>

locale shift_register =
  fixes step :: "'w::len word \<Rightarrow> 'w word" and lane :: "u8 \<Rightarrow> 'w word" and front :: "'w word \<Rightarrow> u8"
    and shift :: "'w word \<Rightarrow> 'w word"
  assumes step_xor: "step (v XOR w) = step v XOR step w"
    and lane_xor: "lane (a XOR b) = lane a XOR lane b"
    and front_cleared: "front (v XOR lane (front v)) = 0"
    and shifted: "front v = 0 \<Longrightarrow> (step ^^ 8) v = shift v"
    and shift_lane: "shift (v XOR lane b) = shift v"
begin

lemma steps_xor: "(step ^^ n) (v XOR w) = (step ^^ n) v XOR (step ^^ n) w"
  by (induction n) (simp_all add: step_xor)

lemma byte_step: "(step ^^ 8) (v XOR lane b) = (step ^^ 8) (lane (front v XOR b)) XOR shift v"
proof -
  have "v XOR lane b = (v XOR lane (front v)) XOR lane (front v XOR b)"
    by (simp add: lane_xor ac_simps)
  then have "(step ^^ 8) (v XOR lane b) = (step ^^ 8) (v XOR lane (front v)) XOR (step ^^ 8) (lane (front v XOR b))"
    by (simp add: steps_xor)
  also have "(step ^^ 8) (v XOR lane (front v)) = shift v"
    by (simp add: shifted front_cleared shift_lane)
  finally show ?thesis by (simp add: ac_simps)
qed

end

subsection \<open>The two registers\<close>

lemma crc64_step_bit: "crc64_step v = drop_bit 1 v XOR (if bit v 0 then CRC64_POLY else 0)"
proof -
  have "v AND 1 \<noteq> 0 \<longleftrightarrow> bit v 0" by (auto simp: and_one_eq odd_iff_mod_2_eq_one [symmetric] bit_0 split: if_splits)
  then show ?thesis by (simp add: crc64_step_def)
qed

lemma bzip2_step_bit: "bzip2_step v = push_bit 1 v XOR (if bit v 31 then BZIP2_CRC32_POLY else 0)"
proof -
  have "v AND 0x80000000 \<noteq> 0 \<longleftrightarrow> bit v 31" using and_exp_eq_0_iff_not_bit [of v 31] by simp
  then show ?thesis by (simp add: bzip2_step_def)
qed

lemma crc64_only_shifts: "(\<forall>i < n. \<not> bit v i) \<Longrightarrow> (crc64_step ^^ n) v = drop_bit n v"
proof (induction n arbitrary: v)
  case (Suc n)
  then have "crc64_step v = drop_bit 1 v" by (simp add: crc64_step_bit)
  moreover have "\<forall>i < n. \<not> bit (drop_bit 1 v) i" using Suc.prems by (simp add: bit_simps)
  ultimately show ?case using Suc.IH [of "drop_bit 1 v"] by (simp add: funpow_Suc_right del: funpow.simps)
qed simp

lemma bzip2_only_shifts: "(\<forall>i < n. \<not> bit v (31 - i)) \<Longrightarrow> n \<le> 32 \<Longrightarrow> (bzip2_step ^^ n) v = push_bit n v"
proof (induction n arbitrary: v)
  case (Suc n)
  from Suc.prems(1) have "\<not> bit v 31" by (metis diff_zero zero_less_Suc)
  then have "bzip2_step v = push_bit 1 v" by (simp add: bzip2_step_bit)
  moreover have "\<not> bit (push_bit 1 v) (31 - i)" if "i < n" for i
    using that Suc.prems(1) [rule_format, of "i + 1"] by (auto simp: bit_push_bit_iff simp del: push_bit_Suc)
  ultimately show ?case using Suc.IH [of "push_bit 1 v"] Suc.prems(2)
    by (simp add: funpow_Suc_right push_bit_push_bit del: funpow.simps push_bit_Suc)
qed simp

interpretation crc64_register: shift_register crc64_step "ucast :: u8 \<Rightarrow> u64" "ucast :: u64 \<Rightarrow> u8" "drop_bit 8"
proof
  fix v w :: u64 and a b :: u8
  show "crc64_step (v XOR w) = crc64_step v XOR crc64_step w"
    by (auto simp: crc64_step_bit bit_eq_iff bit_simps)
  show "(ucast (a XOR b) :: u64) = ucast a XOR ucast b" by (auto simp: bit_eq_iff bit_simps)
  show "(ucast (v XOR ucast (ucast v :: u8)) :: u8) = 0" by (auto simp: bit_eq_iff bit_simps)
  show "(crc64_step ^^ 8) v = drop_bit 8 v" if "(ucast v :: u8) = 0"
  proof (rule crc64_only_shifts)
    show "\<forall>i < 8. \<not> bit v i" using that by (auto simp: bit_eq_iff bit_simps)
  qed
  show "drop_bit 8 (v XOR ucast b) = drop_bit 8 v" by (auto simp: bit_eq_iff bit_simps dest: bit_imp_le_length)
qed

interpretation bzip2_register: shift_register bzip2_step "\<lambda>b. push_bit 24 (ucast b)" "\<lambda>v. ucast (drop_bit 24 v)" "push_bit 8"
proof
  fix v w :: "32 word" and a b :: u8
  show "bzip2_step (v XOR w) = bzip2_step v XOR bzip2_step w"
    by (auto simp: bzip2_step_bit bit_eq_iff bit_simps)
  show "push_bit 24 (ucast (a XOR b) :: 32 word) = push_bit 24 (ucast a) XOR push_bit 24 (ucast b)"
    by (auto simp: bit_eq_iff bit_simps)
  show "(ucast (drop_bit 24 (v XOR push_bit 24 (ucast (ucast (drop_bit 24 v) :: u8)))) :: u8) = 0"
    by (auto simp: bit_eq_iff bit_simps)
  show "(bzip2_step ^^ 8) v = push_bit 8 v" if "(ucast (drop_bit 24 v) :: u8) = 0"
  proof (rule bzip2_only_shifts)
    have "\<not> bit v (24 + k)" if "k < 8" for k using that \<open>ucast (drop_bit 24 v) = 0\<close> by (auto simp: bit_eq_iff bit_simps)
    note zero = this
    have "\<not> bit v (31 - i)" if "i < 8" for i
    proof -
      have "24 + (7 - i) = 31 - i" using that by arith
      with zero [of "7 - i"] show ?thesis by (simp only:) simp
    qed
    then show "\<forall>i < 8. \<not> bit v (31 - i)" by blast
  qed simp
  show "push_bit 8 (v XOR push_bit 24 (ucast b)) = push_bit 8 v"
    by (auto simp: bit_eq_iff bit_simps dest: bit_imp_le_length)
qed

lemma crc64_table: "CRC64_TABLE ! unat b = (crc64_step ^^ 8) (ucast b)" for b :: u8
  using unat_u8_less [of b] by (simp add: CRC64_TABLE_def)

lemma bzip2_table: "BZIP2_CRC32_TABLE ! unat b = (bzip2_step ^^ 8) (push_bit 24 (ucast b))" for b :: u8
  using unat_u8_less [of b] by (simp add: BZIP2_CRC32_TABLE_def)

subsection \<open>Properties\<close>

text \<open>C20. The table-driven checksums are the bit-serial ones. The CRC-64 of the xz check and the CRC-32 of
  the bzip2 blocks, computed with their tables of 256 entries, are for every input the registers
  that start at all ones, take each byte into the front of the register, step eight times, and are
  complemented at the end.\<close>

theorem crc_tables_exact:
  "crc64 bs = NOT (fold (\<lambda>b v. (crc64_step ^^ 8) (v XOR ucast b)) bs (NOT 0)) \<and>
   bzip2_crc32 bs = NOT (fold (\<lambda>b v. (bzip2_step ^^ 8) (v XOR push_bit 24 (ucast b))) bs (NOT 0))"
proof -
  have "(\<lambda>(b :: u8) v. CRC64_TABLE ! unat (ucast v XOR b) XOR drop_bit 8 v) = (\<lambda>b v. (crc64_step ^^ 8) (v XOR ucast b))"
    by (intro ext) (simp only: crc64_table crc64_register.byte_step)
  moreover have "(\<lambda>(b :: u8) v. push_bit 8 v XOR BZIP2_CRC32_TABLE ! unat (ucast (drop_bit 24 v) XOR b)) =
      (\<lambda>b v. (bzip2_step ^^ 8) (v XOR push_bit 24 (ucast b)))"
    by (intro ext) (simp only: bzip2_table bzip2_register.byte_step xor.commute)
  ultimately show ?thesis by (simp only: crc64_def crc64_update_def bzip2_crc32_def bzip2_crc_update_def)
qed

end
