(* ===== verification/WrapperAudit.thy ===== *)
theory WrapperAudit
  imports GzipAudit Crc
begin

unbundle bit_operations_syntax

text \<open>
  The audits of the zstd, xz and bzip2 wrappers and of the 7z container,
  \<open>audit_zstd_wrapper_covering\<close>, \<open>audit_xz_wrapper_covering\<close>, \<open>audit_bzip2_wrapper_covering\<close> and
  \<open>audit_sevenz_covering\<close> of \<open>crates/sealr/src/covering.rs\<close>. None of them decodes: each replays the
  container over the original snapshot. Every failure is the finding of an inconsistent covering.
\<close>

subsection \<open>Zstd\<close>

definition ZSTD_MAGIC :: nat where "ZSTD_MAGIC = 0xFD2FB528"
definition MAX_WINDOW_BYTES :: nat where "MAX_WINDOW_BYTES = 8 * 1024 * 1024"
definition MIN_WINDOW_BYTES :: nat where "MIN_WINDOW_BYTES = 1024"

text \<open>The length of the content size field by the two flag bits.\<close>

definition fcs_len :: "u8 \<Rightarrow> bool \<Rightarrow> nat" where
  "fcs_len descriptor single_segment =
     (let flag = unat (drop_bit 6 descriptor)
      in if flag = 0 then (if single_segment then 1 else 0) else if flag = 1 then 2 else if flag = 2 then 4 else 8)"

definition fcs_value :: "bytes \<Rightarrow> nat" where
  "fcs_value bs = (if length bs = 2 then le_value bs + 256 else le_value bs)"

definition window_of :: "nat \<Rightarrow> nat" where
  "window_of window = (let base = 2 ^ (10 + window div 8) in base + (base div 8) * (window mod 8))"

text \<open>The window descriptor and the content size, with the cursor after them.\<close>

definition audit_zstd_fields :: "snapshot \<Rightarrow> u8 \<Rightarrow> finding + nat option \<times> nat option \<times> nat" where
  "audit_zstd_fields sn descriptor =
     (let single_segment = (descriptor AND 0x20 \<noteq> 0)
      in and_then (if single_segment then Inr (None, 5)
           else and_then (map_err (\<lambda>_. inconsistent) (read_exact_at sn 5 1)) (\<lambda>w. Inr (Some (unat (hd w)), 6))) (\<lambda>(window_descriptor, cursor).
         let n = fcs_len descriptor single_segment
         in if n = 0 then Inr (window_descriptor, None, cursor)
            else and_then (map_err (\<lambda>_. inconsistent) (read_exact_at sn cursor n)) (\<lambda>bs.
            Inr (window_descriptor, Some (fcs_value bs), cursor + n))))"

definition audit_zstd_checksum :: "snapshot \<Rightarrow> zstd_wrapper_evidence \<Rightarrow> bool \<Rightarrow> finding + unit" where
  "audit_zstd_checksum sn ev checksum_flag =
     (if checksum_flag
      then and_then (map_err (\<lambda>_. inconsistent) (read_exact_at sn (offset (zs_trailer ev)) 4)) (\<lambda>trailer.
        if Some (le_value trailer) \<noteq> zs_declared_checksum ev then Inl inconsistent else Inr ())
      else if zs_declared_checksum ev \<noteq> None then Inl inconsistent else Inr ())"

definition audit_zstd_wrapper_covering :: "snapshot \<Rightarrow> zstd_wrapper_evidence \<Rightarrow> finding + unit" where
  "audit_zstd_wrapper_covering sn ev =
     and_then (checked_range_end (zs_header ev)) (\<lambda>header_end.
     and_then (checked_range_end (zs_compressed_payload ev)) (\<lambda>payload_end.
     and_then (checked_range_end (zs_trailer ev)) (\<lambda>trailer_end.
     if offset (zs_header ev) \<noteq> 0 \<or> offset (zs_compressed_payload ev) \<noteq> header_end \<or>
        offset (zs_trailer ev) \<noteq> payload_end \<or> trailer_end \<noteq> snapshot_len sn \<or> rlen (zs_compressed_payload ev) < 3
     then Inl inconsistent
     else
     and_then (map_err (\<lambda>_. inconsistent) (read_exact_at sn 0 5)) (\<lambda>fixed.
     if le_value (take 4 fixed) \<noteq> ZSTD_MAGIC then Inl inconsistent
     else
     let descriptor = fixed ! 4;
         single_segment = (descriptor AND 0x20 \<noteq> 0);
         checksum_flag = (descriptor AND 4 \<noteq> 0)
     in if unat descriptor \<noteq> zs_descriptor ev \<or> descriptor AND 0x18 \<noteq> 0 \<or> descriptor AND 3 \<noteq> 0 then Inl inconsistent
        else if single_segment \<noteq> zs_single_segment ev \<or> checksum_flag \<noteq> zs_checksum_flag ev then Inl inconsistent
        else if rlen (zs_trailer ev) \<noteq> (if checksum_flag then 4 else 0) then Inl inconsistent
        else
        and_then (audit_zstd_fields sn descriptor) (\<lambda>(window_descriptor, frame_content_size, cursor).
        if window_descriptor \<noteq> zs_window_descriptor ev then Inl inconsistent
        else if frame_content_size \<noteq> zs_frame_content_size ev \<or> cursor \<noteq> rlen (zs_header ev) then Inl inconsistent
        else if (case frame_content_size of Some declared \<Rightarrow> declared \<noteq> zs_derived_output_len ev | None \<Rightarrow> False)
        then Inl inconsistent
        else
        and_then (case window_descriptor of
            Some window \<Rightarrow> Inr (window_of window)
          | None \<Rightarrow> ok_or inconsistent frame_content_size) (\<lambda>window_size.
        if window_size \<noteq> zs_window_size ev \<or> window_size > MAX_WINDOW_BYTES \<or>
           \<not> single_segment \<and> window_size < MIN_WINDOW_BYTES
        then Inl inconsistent
        else
        and_then (audit_zstd_checksum sn ev checksum_flag) (\<lambda>_.
        if \<not> is_sha256_hex (zs_derived_output_sha256 ev) then Inl inconsistent else Inr ())))))))"

subsection \<open>Xz\<close>

definition XZ_HEADER_MAGIC :: bytes where "XZ_HEADER_MAGIC = [0xFD, 0x37, 0x7A, 0x58, 0x5A, 0]"
definition XZ_FOOTER_MAGIC :: bytes where "XZ_FOOTER_MAGIC = [0x59, 0x5A]"
definition MAX_DICT_BYTES :: nat where "MAX_DICT_BYTES = 8 * 1024 * 1024"
definition XZ_MAX_BLOCKS :: nat where "XZ_MAX_BLOCKS = 4096"

definition check_len :: "nat \<Rightarrow> nat option" where
  "check_len check_id = (if check_id = 1 then Some 4 else if check_id = 4 then Some 8 else if check_id = 10 then Some 32 else None)"

definition next_multiple_of_4 :: "nat \<Rightarrow> nat" where
  "next_multiple_of_4 n = (n + 3) div 4 * 4"

text \<open>One block: the offset the next one starts at.\<close>

definition audit_xz_block :: "(bytes \<Rightarrow> nat) \<Rightarrow> snapshot \<Rightarrow> nat \<Rightarrow> nat \<Rightarrow> xz_block_evidence \<Rightarrow> finding + nat" where
  "audit_xz_block crc sn expected_check_len expected_offset b =
     (let h = xb_header b; c = xb_compressed b; p = xb_padding b; k = xb_check b
      in if offset h \<noteq> expected_offset \<or> rlen h < 8 \<or> rlen h mod 4 \<noteq> 0 then Inl inconsistent
         else
         and_then (map_err (\<lambda>_. inconsistent) (read_vec sn (offset h) (rlen h))) (\<lambda>hb.
         if (unat (hd hb) + 1) * 4 \<noteq> rlen h then Inl inconsistent
         else
         let crc_at = length hb - 4
         in if crc (take crc_at hb) \<noteq> le_value (drop crc_at hb) then Inl inconsistent
            else
            let flags = hb ! 1
            in if flags AND 0x3C \<noteq> 0 \<or> flags AND 3 \<noteq> 0 then Inl inconsistent
               else if (flags AND 0x40 \<noteq> 0) \<noteq> (xb_declared_compressed b \<noteq> None) \<or>
                  (flags AND 0x80 \<noteq> 0) \<noteq> (xb_declared_uncompressed b \<noteq> None) \<or>
                  (xb_declared_compressed b \<noteq> None) \<noteq> (xb_declared_uncompressed b \<noteq> None)
               then Inl inconsistent
               else if (case (xb_declared_compressed b, xb_declared_uncompressed b) of
                    (Some compressed, Some uncompressed) \<Rightarrow> compressed \<noteq> rlen c \<or> uncompressed \<noteq> xb_uncompressed_len b
                  | _ \<Rightarrow> False)
               then Inl inconsistent
               else if xb_dict_size b > MAX_DICT_BYTES then Inl inconsistent
               else
               and_then (checked_range_end c) (\<lambda>c_end.
               and_then (checked_range_end p) (\<lambda>p_end.
               if offset c \<noteq> offset h + rlen h \<or> rlen c = 0 \<or> offset p \<noteq> c_end \<or>
                  rlen p \<noteq> next_multiple_of_4 (rlen h + rlen c) - (rlen h + rlen c) \<or> offset k \<noteq> p_end \<or>
                  rlen k \<noteq> expected_check_len \<or> length (xb_check_value b) \<noteq> expected_check_len
               then Inl inconsistent
               else
               and_then (map_err (\<lambda>_. inconsistent) (read_vec sn (offset p) (rlen p))) (\<lambda>padding.
               if \<not> all_zero padding then Inl inconsistent
               else
               and_then (map_err (\<lambda>_. inconsistent) (read_vec sn (offset k) (rlen k))) (\<lambda>check.
               if check \<noteq> xb_check_value b then Inl inconsistent else checked_range_end k))))))"

fun audit_xz_blocks ::
  "(bytes \<Rightarrow> nat) \<Rightarrow> snapshot \<Rightarrow> nat \<Rightarrow> xz_block_evidence list \<Rightarrow> nat \<Rightarrow> nat \<Rightarrow> finding + nat \<times> nat"
where
  "audit_xz_blocks crc sn expected_check_len [] expected_offset uncompressed_total = Inr (expected_offset, uncompressed_total)"
| "audit_xz_blocks crc sn expected_check_len (b # bs) expected_offset uncompressed_total =
     and_then (audit_xz_block crc sn expected_check_len expected_offset b) (\<lambda>next_offset.
     and_then (ok_or inconsistent (checked_add_u64 uncompressed_total (xb_uncompressed_len b))) (\<lambda>next_total.
     audit_xz_blocks crc sn expected_check_len bs next_offset next_total))"

text \<open>The stream header, the footer and the index.\<close>

definition audit_xz_header :: "(bytes \<Rightarrow> nat) \<Rightarrow> snapshot \<Rightarrow> xz_wrapper_evidence \<Rightarrow> finding + unit" where
  "audit_xz_header crc sn ev =
     (if xz_header ev \<noteq> \<lparr>offset = 0, rlen = 12\<rparr> then Inl inconsistent
      else
      and_then (map_err (\<lambda>_. inconsistent) (read_exact_at sn 0 12)) (\<lambda>h.
      if take 6 h \<noteq> XZ_HEADER_MAGIC \<or> h ! 6 \<noteq> 0 \<or> unat (h ! 7) \<noteq> xz_check_id ev \<or>
         crc (take 2 (drop 6 h)) \<noteq> le_value (drop 8 h)
      then Inl inconsistent else Inr ()))"

definition audit_xz_footer :: "(bytes \<Rightarrow> nat) \<Rightarrow> snapshot \<Rightarrow> xz_wrapper_evidence \<Rightarrow> finding + unit" where
  "audit_xz_footer crc sn ev =
     and_then (checked_range_end (xz_footer ev)) (\<lambda>footer_end.
     if rlen (xz_footer ev) \<noteq> 12 \<or> footer_end \<noteq> snapshot_len sn then Inl inconsistent
     else
     and_then (map_err (\<lambda>_. inconsistent) (read_exact_at sn (offset (xz_footer ev)) 12)) (\<lambda>f.
     if drop 10 f \<noteq> XZ_FOOTER_MAGIC \<or> f ! 8 \<noteq> 0 \<or> unat (f ! 9) \<noteq> xz_check_id ev \<or>
        crc (take 6 (drop 4 f)) \<noteq> le_value (take 4 f)
     then Inl inconsistent
     else if (le_value (take 4 (drop 4 f)) + 1) * 4 \<noteq> rlen (xz_index ev) then Inl inconsistent
     else Inr ()))"

definition audit_xz_index :: "(bytes \<Rightarrow> nat) \<Rightarrow> snapshot \<Rightarrow> xz_wrapper_evidence \<Rightarrow> finding + unit" where
  "audit_xz_index crc sn ev =
     and_then (checked_range_end (xz_index ev)) (\<lambda>index_end.
     if index_end \<noteq> offset (xz_footer ev) then Inl inconsistent
     else
     and_then (map_err (\<lambda>_. inconsistent) (read_vec sn (offset (xz_index ev)) (rlen (xz_index ev)))) (\<lambda>ib.
     if ib = [] \<or> hd ib \<noteq> 0 then Inl inconsistent
     else
     let crc_offset = length ib - 4
     in if crc (take crc_offset ib) \<noteq> le_value (drop crc_offset ib) then Inl inconsistent else Inr ()))"

definition audit_xz_wrapper_covering :: "(bytes \<Rightarrow> nat) \<Rightarrow> snapshot \<Rightarrow> xz_wrapper_evidence \<Rightarrow> finding + unit" where
  "audit_xz_wrapper_covering crc sn ev =
     and_then (ok_or inconsistent (check_len (xz_check_id ev))) (\<lambda>expected_check_len.
     if xz_blocks ev = [] \<or> length (xz_blocks ev) > XZ_MAX_BLOCKS then Inl inconsistent
     else
     and_then (audit_xz_header crc sn ev) (\<lambda>_.
     and_then (audit_xz_footer crc sn ev) (\<lambda>_.
     and_then (audit_xz_index crc sn ev) (\<lambda>_.
     and_then (audit_xz_blocks crc sn expected_check_len (xz_blocks ev) 12 0) (\<lambda>(expected_offset, uncompressed_total).
     if expected_offset \<noteq> offset (xz_index ev) then Inl inconsistent
     else if uncompressed_total \<noteq> xz_derived_output_len ev then Inl inconsistent
     else if \<not> is_sha256_hex (xz_derived_output_sha256 ev) then Inl inconsistent
     else Inr ())))))"

subsection \<open>Bzip2\<close>

definition BZIP2_BLOCK_MAGIC :: nat where "BZIP2_BLOCK_MAGIC = 0x314159265359"
definition BZIP2_EOS_MAGIC :: nat where "BZIP2_EOS_MAGIC = 0x177245385090"
definition BZIP2_MAX_BLOCKS :: nat where "BZIP2_MAX_BLOCKS = 65536"

text \<open>Bytes shifted in from the right, and a field of bits above a shift.\<close>

definition be_value :: "bytes \<Rightarrow> nat" where
  "be_value bs = fold (\<lambda>b v. v * 256 + unat b) bs 0"

definition bits_above :: "nat \<Rightarrow> nat \<Rightarrow> nat \<Rightarrow> nat" where
  "bits_above v shift width = v div 2 ^ shift mod 2 ^ width"

text \<open>How many of the eight shifts of the last sixteen bytes show the end-of-stream magic.\<close>

definition footer_matches :: "nat \<Rightarrow> nat \<Rightarrow> nat" where
  "footer_matches tail_value tail_len =
     length (filter (\<lambda>pad. bits_above tail_value (pad + 32) 48 = BZIP2_EOS_MAGIC)
       (takeWhile (\<lambda>pad. pad + 80 \<le> tail_len * 8) [0..<8]))"

definition audit_bzip2_footer :: "snapshot \<Rightarrow> bzip2_wrapper_evidence \<Rightarrow> finding + unit" where
  "audit_bzip2_footer sn ev =
     (let tail_len = min (snapshot_len sn) 16
      in and_then (map_err (\<lambda>_. inconsistent) (read_vec sn (snapshot_len sn - tail_len) tail_len)) (\<lambda>tail.
         let v = be_value tail; pad = bz_padding_bits ev
         in if footer_matches v tail_len \<noteq> 1 then Inl inconsistent
            else if bits_above v (pad + 32) 48 \<noteq> BZIP2_EOS_MAGIC then Inl inconsistent
            else if bits_above v pad 32 \<noteq> bz_combined_crc ev then Inl inconsistent
            else if v mod 2 ^ pad \<noteq> 0 then Inl inconsistent
            else Inr ()))"

text \<open>The scan for block magics: the 64-bit accumulator, the position and the offsets found. The shifts
  of one byte are tried from seven down to zero; more offsets than recorded end the scan.\<close>

fun scan_shifts :: "nat \<Rightarrow> nat \<Rightarrow> nat \<Rightarrow> nat \<Rightarrow> nat list \<Rightarrow> nat list \<Rightarrow> finding + nat list" where
  "scan_shifts block_count footer_magic_start acc end_bits [] scanned = Inr scanned"
| "scan_shifts block_count footer_magic_start acc end_bits (shift # shifts) scanned =
     (let start = end_bits - shift - 48
      in if start < 32 \<or> start + 48 > footer_magic_start \<or> bits_above acc shift 48 \<noteq> BZIP2_BLOCK_MAGIC
         then scan_shifts block_count footer_magic_start acc end_bits shifts scanned
         else if length (scanned @ [start]) > block_count then Inl inconsistent
         else scan_shifts block_count footer_magic_start acc end_bits shifts (scanned @ [start]))"

fun scan_bytes :: "nat \<Rightarrow> nat \<Rightarrow> bytes \<Rightarrow> nat \<Rightarrow> nat \<Rightarrow> nat list \<Rightarrow> finding + nat \<times> nat \<times> nat list" where
  "scan_bytes block_count footer_magic_start [] acc posn scanned = Inr (acc, posn, scanned)"
| "scan_bytes block_count footer_magic_start (b # bs) acc posn scanned =
     (let acc' = (acc * 256 + unat b) mod 2 ^ 64;
          posn' = posn + 1;
          end_bits = posn' * 8
      in if end_bits < 80 then scan_bytes block_count footer_magic_start bs acc' posn' scanned
         else and_then (scan_shifts block_count footer_magic_start acc' end_bits (rev [0..<8]) scanned)
           (scan_bytes block_count footer_magic_start bs acc' posn'))"

function scan_blocks :: "snapshot \<Rightarrow> nat \<Rightarrow> nat \<Rightarrow> nat \<Rightarrow> nat \<Rightarrow> nat \<Rightarrow> nat list \<Rightarrow> finding + nat list" where
  "scan_blocks sn block_count footer_magic_start cursor acc posn scanned =
     (if cursor \<ge> snapshot_len sn then Inr scanned
      else
      let step = min (64 * 1024) (snapshot_len sn - cursor)
      in and_then (map_err (\<lambda>_. inconsistent) (read_vec sn cursor step)) (\<lambda>chunk.
         and_then (scan_bytes block_count footer_magic_start chunk acc posn scanned) (\<lambda>(acc', posn', scanned').
         scan_blocks sn block_count footer_magic_start (cursor + step) acc' posn' scanned')))"
  by pat_completeness auto
termination
  by (relation "measure (\<lambda>(sn, _, _, cursor, _, _, _). snapshot_len sn - cursor)") auto

declare scan_blocks.simps [simp del]

fun audit_bzip2_blocks :: "snapshot \<Rightarrow> nat \<Rightarrow> (nat \<times> nat) list \<Rightarrow> 32 word \<Rightarrow> finding + 32 word" where
  "audit_bzip2_blocks sn footer_magic_start [] combined = Inr combined"
| "audit_bzip2_blocks sn footer_magic_start ((offs, expected_crc) # blocks) combined =
     (if offs + 81 > footer_magic_start then Inl inconsistent
      else
      let crc_start = offs + 48; first_byte = crc_start div 8
      in and_then (map_err (\<lambda>_. inconsistent) (read_exact_at sn first_byte 6)) (\<lambda>bs.
         let window = be_value bs; lead = crc_start - first_byte * 8; crc = bits_above window (16 - lead) 32
         in if crc \<noteq> expected_crc then Inl inconsistent
            else if bits_above window (15 - lead) 1 \<noteq> 0 then Inl inconsistent
            else audit_bzip2_blocks sn footer_magic_start blocks (fold_combined_crc combined (of_nat crc))))"

definition audit_bzip2_geometry :: "snapshot \<Rightarrow> bzip2_wrapper_evidence \<Rightarrow> finding + unit" where
  "audit_bzip2_geometry sn ev =
     (let block_count = length (bz_block_bit_offsets ev)
      in if bz_header ev \<noteq> \<lparr>offset = 0, rlen = 4\<rparr> then Inl inconsistent
         else if bz_level ev < 1 \<or> bz_level ev > 9 then Inl inconsistent
         else if bz_padding_bits ev > 7 then Inl inconsistent
         else if checked_add_u64 (bz_payload_bits ev) (bz_padding_bits ev) \<noteq> checked_mul_u64 (snapshot_len sn) 8
         then Inl inconsistent
         else if block_count = 0 \<or> block_count > BZIP2_MAX_BLOCKS \<or> block_count \<noteq> length (bz_block_crcs ev)
         then Inl inconsistent
         else
         and_then (map_err (\<lambda>_. inconsistent) (read_exact_at sn 0 4)) (\<lambda>h.
         if take 3 h \<noteq> [0x42, 0x5A, 0x68] \<or> unat (h ! 3) \<noteq> bz_level ev + 0x30 then Inl inconsistent else Inr ()))"

definition audit_bzip2_wrapper_covering :: "snapshot \<Rightarrow> bzip2_wrapper_evidence \<Rightarrow> finding + unit" where
  "audit_bzip2_wrapper_covering sn ev =
     and_then (audit_bzip2_geometry sn ev) (\<lambda>_.
     and_then (audit_bzip2_footer sn ev) (\<lambda>_.
     let footer_magic_start = bz_payload_bits ev - 80
     in and_then (scan_blocks sn (length (bz_block_bit_offsets ev)) footer_magic_start 0 0 0 []) (\<lambda>scanned.
        if scanned \<noteq> bz_block_bit_offsets ev then Inl inconsistent
        else
        and_then (audit_bzip2_blocks sn footer_magic_start (zip (bz_block_bit_offsets ev) (bz_block_crcs ev)) 0) (\<lambda>combined.
        if unat combined \<noteq> bz_combined_crc ev then Inl inconsistent
        else if \<not> is_sha256_hex (bz_derived_output_sha256 ev) then Inl inconsistent
        else Inr ()))))"

subsection \<open>7z\<close>

definition ir_sevenz_evidence :: "archive_ir \<Rightarrow> sevenz_archive_evidence option" where
  "ir_sevenz_evidence ir = (case ir_evidence ir of ArcSevenZ e \<Rightarrow> Some e | _ \<Rightarrow> None)"

definition SEVENZ_SIGNATURE :: bytes where "SEVENZ_SIGNATURE = [0x37, 0x7A, 0xBC, 0xAF, 0x27, 0x1C]"

definition audit_sevenz_headers :: "(bytes \<Rightarrow> nat) \<Rightarrow> snapshot \<Rightarrow> sevenz_archive_evidence \<Rightarrow> finding + unit" where
  "audit_sevenz_headers crc sn ev =
     and_then (map_err (\<lambda>_. inconsistent) (read_exact_at sn 0 32)) (\<lambda>h.
     if take 6 h \<noteq> SEVENZ_SIGNATURE \<or> h ! 6 \<noteq> 0 \<or> unat (h ! 7) \<noteq> sa_version_minor ev then Inl inconsistent
     else if crc (drop 12 h) \<noteq> le_value (take 4 (drop 8 h)) then Inl inconsistent
     else
     let next_size = le_value (take 8 (drop 20 h)); next_crc = le_value (drop 28 h)
     in and_then (ok_or inconsistent (checked_add_u64 32 (le_value (take 8 (drop 12 h))))) (\<lambda>next_start.
        if sa_next_header ev \<noteq> \<lparr>offset = next_start, rlen = next_size\<rparr> \<or> sa_next_header_crc ev \<noteq> next_crc then Inl inconsistent
        else
        and_then (checked_range_end (sa_next_header ev)) (\<lambda>header_end.
        if header_end \<noteq> snapshot_len sn then Inl inconsistent
        else
        and_then (map_err (\<lambda>_. inconsistent) (read_vec sn (offset (sa_next_header ev)) (rlen (sa_next_header ev)))) (\<lambda>hb.
        if crc hb \<noteq> next_crc then Inl inconsistent
        else if hb = [] \<or> hd hb \<noteq> 1 then Inl inconsistent
        else
        and_then (checked_range_end (sa_pack_region ev)) (\<lambda>pack_end.
        if offset (sa_pack_region ev) \<noteq> 32 \<or> pack_end \<noteq> offset (sa_next_header ev) then Inl inconsistent
        else Inr ())))))"

fun audit_sevenz_substreams :: "sevenz_substream_evidence list \<Rightarrow> nat \<Rightarrow> finding + nat" where
  "audit_sevenz_substreams [] cursor = Inr cursor"
| "audit_sevenz_substreams (s # ss) cursor =
     (if offset (ss_payload s) \<noteq> cursor \<or> rlen (ss_payload s) = 0 then Inl inconsistent
      else and_then (checked_range_end (ss_payload s)) (audit_sevenz_substreams ss))"

fun audit_sevenz_folders :: "(bytes \<Rightarrow> nat) \<Rightarrow> snapshot \<Rightarrow> sevenz_folder_evidence list \<Rightarrow> nat \<Rightarrow> finding + nat" where
  "audit_sevenz_folders crc sn [] cursor = Inr cursor"
| "audit_sevenz_folders crc sn (f # fs) cursor =
     (let p = sf_pack_stream f
      in if offset p \<noteq> cursor then Inl inconsistent
         else if sf_unpack_size f \<noteq> rlen p then Inl inconsistent
         else
         and_then (checked_range_end p) (\<lambda>cursor'.
         and_then (audit_sevenz_substreams (sf_substreams f) (offset p)) (\<lambda>sub_cursor.
         if sub_cursor \<noteq> cursor' then Inl inconsistent
         else
         and_then (map_err (\<lambda>_. inconsistent) (read_vec sn (offset p) (rlen p))) (\<lambda>fb.
         if (case sf_pack_crc f of Some declared \<Rightarrow> crc fb \<noteq> declared | None \<Rightarrow> False) then Inl inconsistent
         else if (case sf_folder_crc f of Some declared \<Rightarrow> crc fb \<noteq> declared | None \<Rightarrow> False) then Inl inconsistent
         else audit_sevenz_folders crc sn fs cursor'))))"

text \<open>Members take the substreams in order; an empty member has the empty range at the end of the pack region.\<close>

fun audit_sevenz_members :: "nat \<Rightarrow> ir_member list \<Rightarrow> sevenz_substream_evidence list \<Rightarrow> finding + sevenz_substream_evidence list" where
  "audit_sevenz_members empty_offset [] ss = Inr ss"
| "audit_sevenz_members empty_offset (m # ms) ss =
     (case im_evidence m of
        MemSevenZ ev \<Rightarrow>
          if rlen (se_payload ev) = 0
          then (if offset (se_payload ev) \<noteq> empty_offset \<or> se_declared_crc ev \<noteq> None then Inl inconsistent
                else audit_sevenz_members empty_offset ms ss)
          else (case ss of
                  [] \<Rightarrow> Inl inconsistent
                | s # ss' \<Rightarrow>
                    if ss_payload s \<noteq> se_payload ev \<or> ss_declared_crc s \<noteq> se_declared_crc ev \<or>
                       im_declared_uncomp_size m \<noteq> rlen (se_payload ev)
                    then Inl inconsistent
                    else audit_sevenz_members empty_offset ms ss')
      | _ \<Rightarrow> Inl inconsistent)"

definition audit_sevenz_covering :: "(bytes \<Rightarrow> nat) \<Rightarrow> snapshot \<Rightarrow> archive_ir \<Rightarrow> finding + unit" where
  "audit_sevenz_covering crc sn ir =
     (if ir_format ir \<noteq> SevenZCopy then Inl inconsistent
      else
      and_then (ok_or inconsistent (ir_sevenz_evidence ir)) (\<lambda>ev.
      and_then (audit_sevenz_headers crc sn ev) (\<lambda>_.
      and_then (audit_sevenz_folders crc sn (sa_folders ev) 32) (\<lambda>cursor.
      if cursor \<noteq> offset (sa_next_header ev) then Inl inconsistent
      else
      and_then (audit_sevenz_members (offset (sa_next_header ev)) (ir_members ir) (concat (map sf_substreams (sa_folders ev)))) (\<lambda>rest.
      if rest \<noteq> [] then Inl inconsistent else Inr ())))))"

end
