(* ===== verification/Bzip2Audit.thy ===== *)
theory Bzip2Audit
  imports WrapperAudit
begin

text \<open>
  The bzip2 audit decides a specification over the bits of the source. bzip2 blocks are not byte
  aligned: \<open>audit_bzip2_wrapper_covering\<close> of \<open>crates/sealr/src/covering.rs\<close> finds them by shifting
  the source through a 64-bit accumulator in chunks. The specification reads fields of the source as
  one big-endian number; the accumulator, the footer window and the block windows are lemmas.
\<close>

subsection \<open>Fields of bits\<close>

text \<open>The \<open>w\<close> bits from bit \<open>s\<close> on, most significant first.\<close>

definition bit_field :: "bytes \<Rightarrow> nat \<Rightarrow> nat \<Rightarrow> nat" where
  "bit_field bs s w = bits_above (be_value bs) (8 * length bs - s - w) w"

lemma be_value_snoc [simp]: "be_value (bs @ [b]) = be_value bs * 256 + unat b"
  by (simp add: be_value_def)

lemma be_value_Nil [simp]: "be_value [] = 0"
  by (simp add: be_value_def)

lemma be_value_append: "be_value (xs @ ys) = be_value xs * 2 ^ (8 * length ys) + be_value ys"
  by (induction ys rule: rev_induct) (simp_all add: power_add algebra_simps flip: append_assoc)

lemma be_value_bound: "be_value bs < 2 ^ (8 * length bs)"
proof (induction bs rule: rev_induct)
  case (snoc b bs)
  have "unat b < 256" using unsigned_less [of b] by simp
  moreover from snoc have "be_value bs + 1 \<le> 2 ^ (8 * length bs)" by simp
  then have "(be_value bs + 1) * 256 \<le> 2 ^ (8 * length bs) * 256" by (rule mult_le_mono1)
  ultimately show ?case by (simp add: power_add)
qed simp

lemma bits_above_mod:
  assumes "sh + w \<le> n"
  shows "bits_above (v mod 2 ^ n) sh w = bits_above v sh w"
proof -
  have "v mod 2 ^ n = v mod (2 ^ sh * 2 ^ (n - sh))" using assms by (simp flip: power_add)
  then have "v mod 2 ^ n div 2 ^ sh = v div 2 ^ sh mod 2 ^ (n - sh)" by (simp add: mod_mult2_eq)
  moreover have "(2::nat) ^ w dvd 2 ^ (n - sh)" using assms by (simp add: le_imp_power_dvd)
  ultimately show ?thesis by (simp add: bits_above_def mod_mod_cancel)
qed

lemma bits_above_prefix:
  "b \<le> length bs \<Longrightarrow> bits_above (be_value (take b bs)) sh w = bits_above (be_value bs) (8 * (length bs - b) + sh) w"
proof -
  assume b: "b \<le> length bs"
  have "be_value bs = be_value (take b bs) * 2 ^ (8 * (length bs - b)) + be_value (drop b bs)"
    using be_value_append [of "take b bs" "drop b bs"] by simp
  moreover have "be_value (drop b bs) < 2 ^ (8 * (length bs - b))" using be_value_bound [of "drop b bs"] by simp
  ultimately have "be_value bs div 2 ^ (8 * (length bs - b)) = be_value (take b bs)" by simp
  then show ?thesis by (simp add: bits_above_def power_add div_mult2_eq)
qed

text \<open>A window of bytes shows the bits of the source at its place.\<close>

lemma prefix_bits:
  assumes "b \<le> length bs" "sh + w \<le> 8 * b"
  shows "bits_above (be_value (take b bs)) sh w = bit_field bs (8 * b - sh - w) w"
proof -
  have "8 * (length bs - b) + sh = 8 * length bs - (8 * b - sh - w) - w" using assms by simp
  then show ?thesis using bits_above_prefix [OF assms(1)] by (simp add: bit_field_def)
qed

lemma slice_bits:
  assumes "a \<le> b" "b \<le> length bs" "sh + w \<le> 8 * (b - a)"
  shows "bits_above (be_value (slice_of a b bs)) sh w = bit_field bs (8 * b - sh - w) w"
proof -
  have "take b bs = take a bs @ slice_of a b bs"
    using assms(1) by (simp add: slice_of_def flip: take_add)
  moreover have "length (slice_of a b bs) = b - a" using assms by simp
  ultimately have "be_value (take b bs) = be_value (take a bs) * 2 ^ (8 * (b - a)) + be_value (slice_of a b bs)"
    by (metis be_value_append)
  moreover have "be_value (slice_of a b bs) < 2 ^ (8 * (b - a))"
    using be_value_bound [of "slice_of a b bs"] \<open>length (slice_of a b bs) = b - a\<close> by simp
  ultimately have "be_value (slice_of a b bs) = be_value (take b bs) mod 2 ^ (8 * (b - a))" by simp
  moreover have "sh + w \<le> 8 * b" using assms by simp
  ultimately show ?thesis using bits_above_mod [OF assms(3)] prefix_bits [OF assms(2), of sh w] by simp
qed

subsection \<open>The scan for block magics\<close>

lemma upt_split_at: "a \<le> b \<Longrightarrow> [0..<b] = [0..<a] @ [a..<b]"
  using upt_add_eq_append [of 0 a "b - a"] by simp

text \<open>The places of the block magic between the stream header and the footer.\<close>

definition block_start :: "bytes \<Rightarrow> nat \<Rightarrow> nat \<Rightarrow> bool" where
  "block_start bs footer s \<longleftrightarrow> 32 \<le> s \<and> s + 48 \<le> footer \<and> bit_field bs s 48 = BZIP2_BLOCK_MAGIC"

definition block_starts :: "bytes \<Rightarrow> nat \<Rightarrow> nat list" where
  "block_starts bs footer = filter (block_start bs footer) [0..<8 * length bs]"

definition at_most :: "nat \<Rightarrow> nat list \<Rightarrow> finding + nat list" where
  "at_most n starts = (if length starts > n then Inl inconsistent else Inr starts)"

lemma scan_shifts_filter:
  "length scanned \<le> n \<Longrightarrow> scan_shifts n footer acc e shifts scanned =
     at_most n (scanned @ filter (\<lambda>s. 32 \<le> s \<and> s + 48 \<le> footer \<and> bits_above acc (e - s - 48) 48 = BZIP2_BLOCK_MAGIC)
       (map (\<lambda>shift. e - shift - 48) shifts))"
  if "\<forall>shift\<in>set shifts. shift + 48 \<le> e"
  using that
proof (induction shifts arbitrary: scanned)
  case Nil
  then show ?case by (simp add: at_most_def)
next
  case (Cons shift shifts)
  then have "e - (e - shift - 48) - 48 = shift" by simp
  with Cons show ?case by (auto simp: at_most_def Let_def)
qed

text \<open>The eight shifts of one byte, from seven down, are the eight starts that end in this byte.\<close>

lemma byte_starts:
  assumes "e \<ge> 80"
  shows "map (\<lambda>shift. e - shift - 48) (rev [0..<8]) = [e - 55..<e - 47]"
  using assms by (intro nth_equalityI) (auto simp: rev_nth)

lemma shift_in_mod: "(v mod m * 256 + b) mod m = (v * 256 + b) mod (m::nat)"
  by (metis mod_add_left_eq mod_mult_left_eq)

lemma scan_step:
  assumes p: "p < length bs" and n: "length (filter (block_start bs footer) [0..<8 * p - 47]) \<le> n"
    and acc: "acc = be_value (take p bs) mod 2 ^ 64"
  defines "acc' \<equiv> (acc * 256 + unat (bs ! p)) mod 2 ^ 64"
  shows "acc' = be_value (take (Suc p) bs) mod 2 ^ 64"
    and "(if 8 * Suc p < 80 then Inr (filter (block_start bs footer) [0..<8 * p - 47])
      else scan_shifts n footer acc' (8 * Suc p) (rev [0..<8]) (filter (block_start bs footer) [0..<8 * p - 47])) =
      at_most n (filter (block_start bs footer) [0..<8 * Suc p - 47])"
proof -
  have "take (Suc p) bs = take p bs @ [bs ! p]" using p by (rule take_Suc_conv_app_nth)
  then show acc': "acc' = be_value (take (Suc p) bs) mod 2 ^ 64" by (simp only: acc'_def acc shift_in_mod be_value_snoc)
  show "(if 8 * Suc p < 80 then Inr (filter (block_start bs footer) [0..<8 * p - 47])
      else scan_shifts n footer acc' (8 * Suc p) (rev [0..<8]) (filter (block_start bs footer) [0..<8 * p - 47])) =
      at_most n (filter (block_start bs footer) [0..<8 * Suc p - 47])"
  proof (cases "8 * Suc p < 80")
    case True
    then have "filter (block_start bs footer) [0..<8 * Suc p - 47] = []" "filter (block_start bs footer) [0..<8 * p - 47] = []"
      by (auto simp: filter_empty_conv block_start_def)
    with True show ?thesis by (simp add: at_most_def)
  next
    case False
    have upto: "[0..<8 * Suc p - 47] = [0..<8 * p - 47] @ [8 * Suc p - 55..<8 * Suc p - 47]"
      using upt_split_at [of "8 * p - 47" "8 * Suc p - 47"] False by simp
    have "filter (\<lambda>s. 32 \<le> s \<and> s + 48 \<le> footer \<and> bits_above acc' (8 * Suc p - s - 48) 48 = BZIP2_BLOCK_MAGIC)
        [8 * Suc p - 55..<8 * Suc p - 47] = filter (block_start bs footer) [8 * Suc p - 55..<8 * Suc p - 47]"
    proof (rule filter_cong [OF refl])
      fix s assume "s \<in> set [8 * Suc p - 55..<8 * Suc p - 47]"
      then have s: "8 * Suc p - 55 \<le> s" "s < 8 * Suc p - 47" by auto
      have "bits_above acc' (8 * Suc p - s - 48) 48 = bits_above (be_value (take (Suc p) bs)) (8 * Suc p - s - 48) 48"
        unfolding acc' by (rule bits_above_mod) (use s in linarith)
      also have "\<dots> = bit_field bs (8 * Suc p - (8 * Suc p - s - 48) - 48) 48"
        by (rule prefix_bits) (use p s False in linarith)+
      also have "8 * Suc p - (8 * Suc p - s - 48) - 48 = s" using s False by linarith
      finally show "(32 \<le> s \<and> s + 48 \<le> footer \<and> bits_above acc' (8 * Suc p - s - 48) 48 = BZIP2_BLOCK_MAGIC) \<longleftrightarrow>
        block_start bs footer s" by (simp add: block_start_def)
    qed
    moreover have "\<forall>shift\<in>set (rev [0..<8]). shift + 48 \<le> 8 * Suc p" using False by auto
    ultimately have "scan_shifts n footer acc' (8 * Suc p) (rev [0..<8]) (filter (block_start bs footer) [0..<8 * p - 47]) =
      at_most n (filter (block_start bs footer) [0..<8 * p - 47] @ filter (block_start bs footer) [8 * Suc p - 55..<8 * Suc p - 47])"
      using False n by (subst scan_shifts_filter) (simp_all only: byte_starts not_less)
    with False show ?thesis unfolding upto by (simp only: if_False filter_append)
  qed
qed

lemma scan_bytes_starts:
  assumes "p + length chunk \<le> length bs" "chunk = slice_of p (p + length chunk) bs"
    and "length (filter (block_start bs footer) [0..<8 * p - 47]) \<le> n" "acc = be_value (take p bs) mod 2 ^ 64"
  shows "scan_bytes n footer chunk acc p (filter (block_start bs footer) [0..<8 * p - 47]) =
    and_then (at_most n (filter (block_start bs footer) [0..<8 * (p + length chunk) - 47]))
      (\<lambda>starts. Inr (be_value (take (p + length chunk) bs) mod 2 ^ 64, p + length chunk, starts))"
  using assms
proof (induction chunk arbitrary: p acc)
  case Nil
  then show ?case by (simp add: at_most_def)
next
  case (Cons b chunk)
  let ?scanned = "\<lambda>k. filter (block_start bs footer) [0..<8 * k - 47]"
  have p: "p < length bs" using Cons.prems(1) by simp
  have b: "b = bs ! p"
    using arg_cong [OF Cons.prems(2), of "\<lambda>l. l ! 0"] slice_nth [of 0 "p + length (b # chunk)" p bs] p by simp
  have chunk: "chunk = slice_of (Suc p) (Suc p + length chunk) bs"
    using arg_cong [OF Cons.prems(2), of tl] p
    by (simp add: slice_of_def tl_take tl_drop flip: drop_Suc)
  define acc' where "acc' = (acc * 256 + unat b) mod 2 ^ 64"
  note step = scan_step [OF p Cons.prems(3,4), folded b, folded acc'_def]
  have len: "length (?scanned (Suc p)) \<le> length (?scanned (p + length (b # chunk)))"
  proof -
    have "[0..<8 * (p + length (b # chunk)) - 47] = [0..<8 * Suc p - 47] @ [8 * Suc p - 47..<8 * (p + length (b # chunk)) - 47]"
      by (rule upt_split_at) simp_all
    then show ?thesis by simp
  qed
  have unf: "scan_bytes n footer (b # chunk) acc p (?scanned p) =
    and_then (if 8 * Suc p < 80 then Inr (?scanned p) else scan_shifts n footer acc' (8 * Suc p) (rev [0..<8]) (?scanned p))
      (scan_bytes n footer chunk acc' (Suc p))"
    by (simp add: Let_def acc'_def mult.commute)
  also note step(2)
  finally have unf: "scan_bytes n footer (b # chunk) acc p (?scanned p) =
    and_then (at_most n (?scanned (Suc p))) (scan_bytes n footer chunk acc' (Suc p))" .
  show ?case
  proof (cases "length (?scanned (Suc p)) \<le> n")
    case True
    have "scan_bytes n footer (b # chunk) acc p (?scanned p) = scan_bytes n footer chunk acc' (Suc p) (?scanned (Suc p))"
      unfolding unf using True by (simp add: at_most_def)
    also have "\<dots> = and_then (at_most n (?scanned (Suc p + length chunk)))
      (\<lambda>starts. Inr (be_value (take (Suc p + length chunk) bs) mod 2 ^ 64, Suc p + length chunk, starts))"
      using Cons.prems(1) chunk True step(1) by (intro Cons.IH) simp_all
    finally show ?thesis by simp
  next
    case False
    with len have "\<not> length (?scanned (p + length (b # chunk))) \<le> n" by linarith
    with False show ?thesis unfolding unf by (simp add: at_most_def)
  qed
qed

lemma scan_blocks_from:
  assumes ok: "readable sn" and p: "p \<le> snapshot_len sn"
    and n: "length (filter (block_start (content sn) footer) [0..<8 * p - 47]) \<le> n"
  shows "scan_blocks sn n footer p (be_value (take p (content sn)) mod 2 ^ 64) p
      (filter (block_start (content sn) footer) [0..<8 * p - 47]) =
    at_most n (filter (block_start (content sn) footer) [0..<8 * snapshot_len sn - 47])"
  using p n
proof (induction "snapshot_len sn - p" arbitrary: p rule: less_induct)
  case less
  let ?scanned = "\<lambda>k. filter (block_start (content sn) footer) [0..<8 * k - 47]"
  note unf = scan_blocks.simps [of sn n footer p "be_value (take p (content sn)) mod 2 ^ 64" p "?scanned p"]
  show ?case
  proof (cases "snapshot_len sn \<le> p")
    case True
    with less.prems have "p = snapshot_len sn" by simp
    with less.prems show ?thesis by (subst unf) (simp add: at_most_def)
  next
    case False
    define step where "step = min (64 * 1024) (snapshot_len sn - p)"
    note unf = unf [unfolded Let_def, folded step_def]
    from False have step: "p + step \<le> snapshot_len sn" "0 < step" by (simp_all add: step_def)
    define chunk where "chunk = slice_of p (p + step) (content sn)"
    have len: "length chunk = step" using step by (simp add: chunk_def)
    have read: "read_vec sn p step = Inr chunk" using read_in_source [OF ok] step by (simp add: read_vec_eq chunk_def)
    have bytes: "scan_bytes n footer chunk (be_value (take p (content sn)) mod 2 ^ 64) p (?scanned p) =
      and_then (at_most n (?scanned (p + step))) (\<lambda>starts. Inr (be_value (take (p + step) (content sn)) mod 2 ^ 64, p + step, starts))"
      using scan_bytes_starts [of p chunk "content sn" footer n "be_value (take p (content sn)) mod 2 ^ 64"] step less.prems
      by (simp add: len chunk_def [symmetric])
    show ?thesis
    proof (cases "length (?scanned (p + step)) \<le> n")
      case True
      have "snapshot_len sn - (p + step) < snapshot_len sn - p" using step False by linarith
      from less.hyps [OF this step(1) True] True False show ?thesis
        unfolding unf read map_err_simps and_then_simps bytes by (simp add: at_most_def)
    next
      case more: False
      have "[0..<8 * snapshot_len sn - 47] = [0..<8 * (p + step) - 47] @ [8 * (p + step) - 47..<8 * snapshot_len sn - 47]"
        using step by (intro upt_split_at) simp_all
      then have "length (?scanned (p + step)) \<le> length (?scanned (snapshot_len sn))" by simp
      with more False show ?thesis
        unfolding unf read map_err_simps and_then_simps bytes by (simp add: at_most_def)
    qed
  qed
qed

lemma scan_blocks_exact:
  assumes "readable sn" "footer \<le> 8 * snapshot_len sn"
  shows "scan_blocks sn n footer 0 0 0 [] = at_most n (block_starts (content sn) footer)"
proof -
  have "filter (block_start (content sn) footer) [0..<8 * snapshot_len sn] =
    filter (block_start (content sn) footer) [0..<8 * snapshot_len sn - 47]"
  proof -
    have "[0..<8 * snapshot_len sn] = [0..<8 * snapshot_len sn - 47] @ [8 * snapshot_len sn - 47..<8 * snapshot_len sn]"
      by (rule upt_split_at) simp_all
    moreover have "filter (block_start (content sn) footer) [8 * snapshot_len sn - 47..<8 * snapshot_len sn] = []"
      using assms(2) by (auto simp: filter_empty_conv block_start_def)
    ultimately show ?thesis by simp
  qed
  with scan_blocks_from [OF assms(1), of 0 footer n] show ?thesis by (simp add: block_starts_def)
qed

subsection \<open>The audit decides the specification\<close>

text \<open>What a recorded bzip2 stream has to be: the header, one place for the footer magic among the
  eight paddings, the combined checksum and zero padding after it, and the blocks exactly where the
  block magic stands, each followed by its checksum and a clear randomised flag.\<close>

definition bzip2_footer_at :: "bytes \<Rightarrow> nat \<Rightarrow> bool" where
  "bzip2_footer_at bs pad \<longleftrightarrow>
     pad \<le> 7 \<and> pad + 80 \<le> 8 * length bs \<and> bit_field bs (8 * length bs - pad - 80) 48 = BZIP2_EOS_MAGIC"

definition bzip2_block_at :: "bytes \<Rightarrow> nat \<Rightarrow> nat \<times> nat \<Rightarrow> bool" where
  "bzip2_block_at bs footer = (\<lambda>(offs, crc).
     offs + 81 \<le> footer \<and> bit_field bs (offs + 48) 32 = crc \<and> bit_field bs (offs + 80) 1 = 0)"

definition combined_crc_of :: "nat list \<Rightarrow> 32 word" where
  "combined_crc_of crcs = fold (\<lambda>crc combined. fold_combined_crc combined (of_nat crc)) crcs 0"

definition bzip2_covered :: "bytes \<Rightarrow> bzip2_wrapper_evidence \<Rightarrow> bool" where
  "bzip2_covered bs ev \<longleftrightarrow>
     bz_header ev = \<lparr>offset = 0, rlen = 4\<rparr> \<and> 1 \<le> bz_level ev \<and> bz_level ev \<le> 9 \<and>
     take 3 bs = [0x42, 0x5A, 0x68] \<and> 4 \<le> length bs \<and> unat (bs ! 3) = bz_level ev + 0x30 \<and>
     bz_payload_bits ev + bz_padding_bits ev = 8 * length bs \<and>
     {pad. bzip2_footer_at bs pad} = {bz_padding_bits ev} \<and>
     bit_field bs (bz_payload_bits ev - 32) 32 = bz_combined_crc ev \<and>
     bit_field bs (bz_payload_bits ev) (bz_padding_bits ev) = 0 \<and>
     bz_block_bit_offsets ev = block_starts bs (bz_payload_bits ev - 80) \<and>
     0 < length (bz_block_bit_offsets ev) \<and> length (bz_block_bit_offsets ev) \<le> BZIP2_MAX_BLOCKS \<and>
     length (bz_block_crcs ev) = length (bz_block_bit_offsets ev) \<and>
     list_all (bzip2_block_at bs (bz_payload_bits ev - 80)) (zip (bz_block_bit_offsets ev) (bz_block_crcs ev)) \<and>
     unat (combined_crc_of (bz_block_crcs ev)) = bz_combined_crc ev \<and> is_sha256_hex (bz_derived_output_sha256 ev)"

lemma audit_bzip2_block_window:
  assumes "readable sn" "offs + 81 \<le> footer" "footer \<le> 8 * snapshot_len sn - 80"
  defines "first_byte \<equiv> (offs + 48) div 8"
  defines "bs \<equiv> slice_of first_byte (first_byte + 6) (content sn)"
  defines "lead \<equiv> offs + 48 - first_byte * 8"
  shows "read_exact_at sn first_byte 6 = Inr bs"
    and "bits_above (be_value bs) (16 - lead) 32 = bit_field (content sn) (offs + 48) 32"
    and "bits_above (be_value bs) (15 - lead) 1 = bit_field (content sn) (offs + 80) 1"
proof -
  have lead: "lead \<le> 7" "offs + 48 = 8 * first_byte + lead" unfolding lead_def first_byte_def by linarith+
  then have inside: "first_byte + 6 \<le> snapshot_len sn" using assms(2,3) by linarith
  then show "read_exact_at sn first_byte 6 = Inr bs" by (simp add: read_in_source [OF assms(1)] bs_def)
  define high low where "high = 16 - lead" and "low = 15 - lead"
  with lead have "high + lead = 16" "low + lead = 15" by simp_all
  with lead(2) have "8 * (first_byte + 6) = offs + 48 + 32 + high \<and> 8 * (first_byte + 6) = offs + 80 + 1 + low" by presburger
  then have "8 * (first_byte + 6) - high - 32 = offs + 48" "8 * (first_byte + 6) - low - 1 = offs + 80"
    by (auto dest: arg_cong [of _ _ "\<lambda>v. v - low - 1"] arg_cong [of _ _ "\<lambda>v. v - high - 32"])
  then show "bits_above (be_value bs) (16 - lead) 32 = bit_field (content sn) (offs + 48) 32"
    "bits_above (be_value bs) (15 - lead) 1 = bit_field (content sn) (offs + 80) 1"
    using slice_bits [of first_byte "first_byte + 6" "content sn" "16 - lead" 32]
      slice_bits [of first_byte "first_byte + 6" "content sn" "15 - lead" 1] inside lead(1)
    by (simp_all add: bs_def high_def low_def add.commute)
qed

lemma audit_bzip2_blocks_iff:
  assumes "readable sn" "footer \<le> 8 * snapshot_len sn - 80"
  shows "audit_bzip2_blocks sn footer blocks c = Inr c' \<longleftrightarrow>
    list_all (bzip2_block_at (content sn) footer) blocks \<and>
    c' = fold (\<lambda>crc combined. fold_combined_crc combined (of_nat crc)) (map snd blocks) c"
proof (induction blocks arbitrary: c)
  case Nil
  then show ?case by auto
next
  case (Cons block blocks)
  obtain offs crc where block: "block = (offs, crc)" by (cases block)
  show ?case
  proof (cases "offs + 81 \<le> footer")
    case True
    define first_byte where "first_byte = (offs + 48) div 8"
    define bs where "bs = slice_of first_byte (first_byte + 6) (content sn)"
    define lead where "lead = offs + 48 - first_byte * 8"
    note window = audit_bzip2_block_window [OF assms(1) True assms(2), folded first_byte_def, folded bs_def lead_def]
    have "audit_bzip2_blocks sn footer (block # blocks) c =
      (if bit_field (content sn) (offs + 48) 32 \<noteq> crc then Inl inconsistent
       else if bit_field (content sn) (offs + 80) 1 \<noteq> 0 then Inl inconsistent
       else audit_bzip2_blocks sn footer blocks (fold_combined_crc c (of_nat crc)))"
      using True unfolding block audit_bzip2_blocks.simps Let_def first_byte_def [symmetric] lead_def [symmetric]
      by (simp only: window map_err_simps and_then_simps) auto
    with True show ?thesis by (auto simp: block Cons.IH bzip2_block_at_def)
  next
    case False
    then show ?thesis by (simp add: block bzip2_block_at_def)
  qed
qed

lemma footer_shifts: "takeWhile (\<lambda>pad. pad + 80 \<le> n * 8) [0..<8] = [0..<min 8 (n * 8 + 1 - 80)]"
proof -
  have "takeWhile (\<lambda>pad. pad < m) [0..<k] = [0..<min k m]" for m k :: nat
    by (induction k) (auto simp: takeWhile_append takeWhile_eq_all_conv min_def intro: arg_cong)
  moreover have "(\<lambda>pad. pad + 80 \<le> n * 8) = (\<lambda>pad. pad < n * 8 + 1 - 80)" by (auto simp: fun_eq_iff)
  ultimately show ?thesis by (simp only:)
qed

lemma tail_bits:
  assumes "pad + 80 \<le> 8 * length bs" "pad \<le> 7" "sh + w \<le> pad + 80"
  defines "n \<equiv> min (length bs) 16"
  shows "bits_above (be_value (slice_of (length bs - n) (length bs) bs)) sh w = bit_field bs (8 * length bs - sh - w) w"
  by (rule slice_bits) (use assms in \<open>simp_all add: n_def min_def split: if_splits\<close>)

lemma footer_matches_iff:
  fixes bs :: bytes
  defines "n \<equiv> min (length bs) 16"
  defines "v \<equiv> be_value (slice_of (length bs - n) (length bs) bs)"
  shows "footer_matches v n = card {pad. bzip2_footer_at bs pad}"
proof -
  have in_tail: "pad + 80 \<le> n * 8 \<longleftrightarrow> pad + 80 \<le> 8 * length bs" if "pad \<le> 7" for pad
    using that by (auto simp: n_def min_def)
  have "bzip2_footer_at bs pad \<longleftrightarrow> pad < min 8 (n * 8 + 1 - 80) \<and> bits_above v (pad + 32) 48 = BZIP2_EOS_MAGIC" for pad
    using in_tail [of pad] tail_bits [of pad bs "pad + 32" 48]
    by (auto simp: bzip2_footer_at_def v_def n_def [symmetric] less_diff_conv add.commute)
  then have "{pad. bzip2_footer_at bs pad} =
    set (filter (\<lambda>pad. bits_above v (pad + 32) 48 = BZIP2_EOS_MAGIC) [0..<min 8 (n * 8 + 1 - 80)])" by auto
  then show ?thesis
    by (simp only: footer_matches_def footer_shifts distinct_card [OF distinct_filter [OF distinct_upt]])
qed

text \<open>A magic recorded further left than the shortest stream allows would be the magic shifted.\<close>

lemma footer_fits:
  fixes bs :: bytes
  defines "n \<equiv> min (length bs) 16"
  defines "v \<equiv> be_value (slice_of (length bs - n) (length bs) bs)"
  assumes one: "bzip2_footer_at bs q" and pad: "pad \<le> 7" and magic: "bits_above v (pad + 32) 48 = BZIP2_EOS_MAGIC"
  shows "pad + 80 \<le> 8 * length bs"
proof (rule ccontr)
  assume "\<not> pad + 80 \<le> 8 * length bs"
  moreover from one have "q + 80 \<le> 8 * length bs" by (simp add: bzip2_footer_at_def)
  ultimately have len: "length bs = 10" and "q = 0" "pad \<noteq> 0" using pad by presburger+
  with one tail_bits [of 0 bs 32 48] have "bits_above v 32 48 = BZIP2_EOS_MAGIC"
    by (simp add: bzip2_footer_at_def v_def n_def)
  moreover have "v < 2 ^ 80" using be_value_bound [of "slice_of (length bs - n) (length bs) bs"] len by (simp add: v_def n_def)
  then have "v div 2 ^ 32 < 2 ^ 48" by (simp add: div_less_iff_less_mult)
  ultimately have "v div 2 ^ 32 = BZIP2_EOS_MAGIC" by (simp add: bits_above_def)
  then have "bits_above v (pad + 32) 48 = BZIP2_EOS_MAGIC div 2 ^ pad mod 2 ^ 48"
    by (simp only: bits_above_def power_add mult.commute [of "2 ^ pad"] div_mult2_eq)
  with magic have "BZIP2_EOS_MAGIC div 2 ^ pad mod 2 ^ 48 = BZIP2_EOS_MAGIC" by simp
  moreover have "pad \<in> {1, 2, 3, 4, 5, 6, 7}" using pad \<open>pad \<noteq> 0\<close> by auto
  ultimately show False by (auto simp: BZIP2_EOS_MAGIC_def)
qed

lemma audit_bzip2_footer_iff:
  assumes ok: "readable sn" and pad: "bz_padding_bits ev \<le> 7"
    and bits: "bz_payload_bits ev + bz_padding_bits ev = 8 * snapshot_len sn"
  shows "audit_bzip2_footer sn ev = Inr () \<longleftrightarrow>
    {p. bzip2_footer_at (content sn) p} = {bz_padding_bits ev} \<and>
    bit_field (content sn) (bz_payload_bits ev - 32) 32 = bz_combined_crc ev \<and>
    bit_field (content sn) (bz_payload_bits ev) (bz_padding_bits ev) = 0"
proof -
  let ?bs = "content sn" and ?pad = "bz_padding_bits ev"
  define n v where "n = min (length ?bs) 16" and "v = be_value (slice_of (length ?bs - n) (length ?bs) ?bs)"
  have n: "snapshot_len sn - n + n = snapshot_len sn" by (simp add: n_def)
  have read: "read_vec sn (snapshot_len sn - n) n = Inr (slice_of (length ?bs - n) (length ?bs) ?bs)"
    unfolding read_vec_eq read_in_source [OF ok] n by simp
  have unf: "audit_bzip2_footer sn ev = Inr () \<longleftrightarrow>
    card {p. bzip2_footer_at ?bs p} = 1 \<and> bits_above v (?pad + 32) 48 = BZIP2_EOS_MAGIC \<and>
    bits_above v ?pad 32 = bz_combined_crc ev \<and> v mod 2 ^ ?pad = 0"
    unfolding audit_bzip2_footer_def Let_def n_def [symmetric] read map_err_simps and_then_simps v_def [symmetric]
      footer_matches_iff [of ?bs, folded n_def, folded v_def] by auto
  have fields: "bits_above v (?pad + 32) 48 = BZIP2_EOS_MAGIC \<longleftrightarrow> bzip2_footer_at ?bs ?pad"
    "bits_above v ?pad 32 = bit_field ?bs (bz_payload_bits ev - 32) 32"
    "v mod 2 ^ ?pad = bit_field ?bs (bz_payload_bits ev) ?pad" if fits: "?pad + 80 \<le> 8 * length ?bs"
  proof -
    note tail = tail_bits [OF fits pad, folded n_def, folded v_def]
    show "bits_above v (?pad + 32) 48 = BZIP2_EOS_MAGIC \<longleftrightarrow> bzip2_footer_at ?bs ?pad"
      using tail [of "?pad + 32" 48] fits pad by (simp add: bzip2_footer_at_def add.commute)
    have "8 * length ?bs - ?pad = bz_payload_bits ev" using bits by simp
    then show "bits_above v ?pad 32 = bit_field ?bs (bz_payload_bits ev - 32) 32"
      "v mod 2 ^ ?pad = bit_field ?bs (bz_payload_bits ev) ?pad"
      using tail [of ?pad 32] tail [of 0 ?pad] by (simp_all add: bits_above_def)
  qed
  have fits: "?pad + 80 \<le> 8 * length ?bs" if "card {p. bzip2_footer_at ?bs p} = 1" "bits_above v (?pad + 32) 48 = BZIP2_EOS_MAGIC"
  proof -
    from that(1) obtain q where "bzip2_footer_at ?bs q" by (auto simp: card_1_singleton_iff)
    from footer_fits [OF this pad] that(2) show ?thesis by (simp add: v_def n_def)
  qed
  show ?thesis
  proof
    assume "audit_bzip2_footer sn ev = Inr ()"
    with unf have one: "card {p. bzip2_footer_at ?bs p} = 1" and magic: "bits_above v (?pad + 32) 48 = BZIP2_EOS_MAGIC"
      and rest: "bits_above v ?pad 32 = bz_combined_crc ev" "v mod 2 ^ ?pad = 0" by auto
    from one obtain q where q: "{p. bzip2_footer_at ?bs p} = {q}" by (auto simp: card_1_singleton_iff)
    from fields [OF fits [OF one magic]] magic have "bzip2_footer_at ?bs ?pad" by simp
    with q have "?pad = q" by (metis mem_Collect_eq singletonD)
    with q have "{p. bzip2_footer_at ?bs p} = {?pad}" by simp
    with fields [OF fits [OF one magic]] rest
    show "{p. bzip2_footer_at ?bs p} = {?pad} \<and> bit_field ?bs (bz_payload_bits ev - 32) 32 = bz_combined_crc ev \<and>
      bit_field ?bs (bz_payload_bits ev) ?pad = 0" by simp
  next
    assume spec: "{p. bzip2_footer_at ?bs p} = {?pad} \<and> bit_field ?bs (bz_payload_bits ev - 32) 32 = bz_combined_crc ev \<and>
      bit_field ?bs (bz_payload_bits ev) ?pad = 0"
    then have pad_at: "bzip2_footer_at ?bs ?pad" by blast
    then have "?pad + 80 \<le> 8 * length ?bs" by (simp add: bzip2_footer_at_def)
    from fields [OF this] spec pad_at show "audit_bzip2_footer sn ev = Inr ()" by (simp add: unf)
  qed
qed

lemma audit_bzip2_geometry_iff:
  assumes ok: "readable sn" and len: "8 * snapshot_len sn \<le> u64_max"
  shows "audit_bzip2_geometry sn ev = Inr () \<longleftrightarrow>
    bz_header ev = \<lparr>offset = 0, rlen = 4\<rparr> \<and> 1 \<le> bz_level ev \<and> bz_level ev \<le> 9 \<and> bz_padding_bits ev \<le> 7 \<and>
    bz_payload_bits ev + bz_padding_bits ev = 8 * snapshot_len sn \<and>
    0 < length (bz_block_bit_offsets ev) \<and> length (bz_block_bit_offsets ev) \<le> BZIP2_MAX_BLOCKS \<and>
    length (bz_block_crcs ev) = length (bz_block_bit_offsets ev) \<and>
    4 \<le> snapshot_len sn \<and> take 3 (content sn) = [0x42, 0x5A, 0x68] \<and> unat (content sn ! 3) = bz_level ev + 0x30"
proof -
  have size: "checked_mul_u64 (snapshot_len sn) 8 = Some (8 * snapshot_len sn)" using len by (simp add: mult.commute)
  have head: "take 3 (slice_of 0 4 (content sn)) = take 3 (content sn)" "slice_of 0 4 (content sn) ! 3 = content sn ! 3"
    by (simp_all add: slice_of_def)
  show ?thesis
    using len unfolding audit_bzip2_geometry_def Let_def size
    by (auto simp: and_then_eq_Inr map_err_eq_Inr read_in_source [OF ok] head not_less split: if_splits)
qed

lemma bzip2_audit_iff:
  assumes ok: "readable sn" and len: "8 * snapshot_len sn \<le> u64_max"
  shows "audit_bzip2_wrapper_covering sn ev = Inr () \<longleftrightarrow> bzip2_covered (content sn) ev"
proof (cases "audit_bzip2_geometry sn ev = Inr ()")
  case False
  then obtain e where "audit_bzip2_geometry sn ev = Inl e" by (cases "audit_bzip2_geometry sn ev") auto
  moreover from False have "\<not> bzip2_covered (content sn) ev"
    unfolding audit_bzip2_geometry_iff [OF assms] bzip2_covered_def by (auto simp: bzip2_footer_at_def)
  ultimately show ?thesis by (simp add: audit_bzip2_wrapper_covering_def)
next
  case geometry: True
  note g = geometry [unfolded audit_bzip2_geometry_iff [OF assms]]
  show ?thesis
  proof (cases "audit_bzip2_footer sn ev = Inr ()")
    case False
    then obtain e where "audit_bzip2_footer sn ev = Inl e" by (cases "audit_bzip2_footer sn ev") auto
    with False g geometry audit_bzip2_footer_iff [OF ok, of ev] show ?thesis
      by (auto simp: audit_bzip2_wrapper_covering_def bzip2_covered_def)
  next
    case footer: True
    with g have f: "{p. bzip2_footer_at (content sn) p} = {bz_padding_bits ev}"
      "bit_field (content sn) (bz_payload_bits ev - 32) 32 = bz_combined_crc ev"
      "bit_field (content sn) (bz_payload_bits ev) (bz_padding_bits ev) = 0"
      using audit_bzip2_footer_iff [OF ok, of ev] by auto
    define footer where "footer = bz_payload_bits ev - 80"
    have inside: "footer \<le> 8 * snapshot_len sn" "footer \<le> 8 * snapshot_len sn - 80" using g by (auto simp: footer_def)
    have "audit_bzip2_wrapper_covering sn ev = Inr () \<longleftrightarrow>
      bz_block_bit_offsets ev = block_starts (content sn) footer \<and>
      list_all (bzip2_block_at (content sn) footer) (zip (bz_block_bit_offsets ev) (bz_block_crcs ev)) \<and>
      unat (combined_crc_of (bz_block_crcs ev)) = bz_combined_crc ev \<and> is_sha256_hex (bz_derived_output_sha256 ev)"
      using g unfolding audit_bzip2_wrapper_covering_def geometry footer
      by (auto simp: and_then_eq_Inr footer_def [symmetric] scan_blocks_exact [OF ok inside(1)] at_most_def
          audit_bzip2_blocks_iff [OF ok inside(2)] combined_crc_of_def split: if_splits)
    with g f show ?thesis by (auto simp: bzip2_covered_def footer_def)
  qed
qed

text \<open>C19. The bzip2 audit accepts recorded evidence exactly when it describes the bits of the source:
  the header, the one footer among the eight paddings with the combined checksum and zero bits after
  it, the blocks at every place of the block magic between header and footer and nowhere else, each
  with its checksum and a clear randomised flag, and the block checksums folding to the combined one.
  The 64-bit accumulator fed in chunks of 64 KiB misses no magic and invents none.\<close>

theorem bzip2_audit_exact:
  assumes "reads_ok sn" "8 * snapshot_len sn \<le> u64_max"
  shows "audit_bzip2_wrapper_covering sn ev = Inr () \<longleftrightarrow> bzip2_covered (content sn) ev"
  using bzip2_audit_iff [of sn ev] assms by (simp add: snapshot_ok_def)

text \<open>A stream with one block of an empty body.\<close>

definition example_bzip2_source :: snapshot where
  "example_bzip2_source = \<lparr>content = [0x42, 0x5A, 0x68, 0x39, 0x31, 0x41, 0x59, 0x26, 0x53, 0x59, 0, 0, 0, 7, 0,
     0x17, 0x72, 0x45, 0x38, 0x50, 0x90, 0, 0, 0, 7], backing = Memory\<rparr>"

definition example_bzip2_evidence :: bzip2_wrapper_evidence where
  "example_bzip2_evidence = \<lparr>bz_level = 9, bz_header = \<lparr>offset = 0, rlen = 4\<rparr>, bz_payload_bits = 200, bz_padding_bits = 0,
     bz_block_bit_offsets = [32], bz_block_crcs = [7], bz_combined_crc = 7, bz_derived_output_len = 0,
     bz_derived_output_sha256 = replicate 64 (CHR ''0'')\<rparr>"

lemmas example_bzip2_reads = read_vec_def read_exact_at_def checked_range_def checked_add_u64_def checked_mul_u64_def u64_max_def
  slice_of_def

lemma example_bzip2_geometry: "audit_bzip2_geometry example_bzip2_source example_bzip2_evidence = Inr ()"
  by (simp add: audit_bzip2_geometry_def example_bzip2_source_def example_bzip2_evidence_def example_bzip2_reads BZIP2_MAX_BLOCKS_def)

lemma example_bzip2_footer: "audit_bzip2_footer example_bzip2_source example_bzip2_evidence = Inr ()"
  by (simp add: audit_bzip2_footer_def example_bzip2_source_def example_bzip2_evidence_def example_bzip2_reads
      footer_matches_def bits_above_def be_value_def BZIP2_EOS_MAGIC_def upt_rec)

lemma example_bzip2_value: "be_value (content example_bzip2_source) = 0x425a6839314159265359000000070017724538509000000007"
  by (simp add: example_bzip2_source_def be_value_def)

lemma example_bzip2_scan: "scan_blocks example_bzip2_source 1 120 0 0 0 [] = Inr [32]"
proof -
  let ?at = "block_start (content example_bzip2_source) 120"
  have len: "length (content example_bzip2_source) = 25" by (simp add: example_bzip2_source_def)
  then have bits: "8 * length (content example_bzip2_source) = 200" by simp
  have "filter ?at [0..<32] = []" "filter ?at [73..<200] = []" by (auto simp: filter_empty_conv block_start_def)
  moreover have "[0..<200] = [0..<32] @ [32..<73] @ [73..<200]"
    by (rule trans [OF upt_split_at [of 73 200]], simp, subst upt_split_at [of 32 73], simp, rule append_assoc)
  moreover have "filter ?at [32..<73] = [32]"
    unfolding block_start_def bit_field_def example_bzip2_value len bits_above_def BZIP2_BLOCK_MAGIC_def
    by simp
  ultimately have "block_starts (content example_bzip2_source) 120 = [32]" 
    by (simp only: block_starts_def bits filter_append append_Nil append_Nil2)
  moreover have "readable example_bzip2_source" "120 \<le> 8 * snapshot_len example_bzip2_source"
    by (simp_all add: example_bzip2_source_def reads_ok_def snapshot_ok_def u64_max_def)
  ultimately show ?thesis using scan_blocks_exact by (simp add: at_most_def)
qed

lemma example_bzip2_blocks: "audit_bzip2_blocks example_bzip2_source 120 [(32, 7)] 0 = Inr 7"
  by (simp add: example_bzip2_source_def example_bzip2_reads bits_above_def be_value_def fold_combined_crc_def)

theorem bzip2_audit_exact_witness: "bzip2_covered (content example_bzip2_source) example_bzip2_evidence"
proof -
  have "reads_ok example_bzip2_source" "8 * snapshot_len example_bzip2_source \<le> u64_max"
    by (simp_all add: example_bzip2_source_def reads_ok_def u64_max_def)
  moreover have "audit_bzip2_wrapper_covering example_bzip2_source example_bzip2_evidence = Inr ()"
    using example_bzip2_scan example_bzip2_blocks
    by (simp add: audit_bzip2_wrapper_covering_def example_bzip2_geometry example_bzip2_footer)
       (simp add: example_bzip2_evidence_def is_sha256_hex_def list_all_iff)
  ultimately show ?thesis using bzip2_audit_exact by blast
qed

end
