(* ===== verification/Composite.thy ===== *)
theory Composite
  imports Plan Bzip2Audit
begin

text \<open>
  The checks between planning and execution, \<open>validate_ready_archive\<close>, \<open>validate_ready_source_identity\<close>
  and the composite audits of \<open>crates/sealr/src/apply.rs\<close>. A ready archive is re-checked against the
  snapshots: identity, payload plans, formats, and for a wrapped TAR the transform graph, the
  wrapper audit over the original bytes, the TAR audit over the derived bytes, and the wrapper's own
  integrity value over the derived bytes. CRC-32, SHA-256 and XXH64 are packages and parameters;
  CRC-64 and the bzip2 CRC are those of \<open>Crc\<close>.
\<close>

subsection \<open>Reading the derived snapshot again\<close>

text \<open>The read loop of the audits: 64 KiB at a time until no bytes come; the bytes are what was hashed.\<close>

lemma range_read_shrinks: "range_read r n = (Inr chunk, r') \<Longrightarrow> chunk \<noteq> [] \<Longrightarrow> rr_remaining r' < rr_remaining r"
  by (auto simp: range_read_def Let_def split: if_splits sum.splits)

function drain_loop :: "range_reader \<Rightarrow> bytes \<Rightarrow> finding + bytes" where
  "drain_loop r hashed =
     (case range_read r (64 * 1024) of
        (Inl f, _) \<Rightarrow> Inl f
      | (Inr chunk, r') \<Rightarrow> if chunk = [] then Inr hashed else drain_loop r' (hashed @ chunk))"
  by pat_completeness auto
termination
  by (relation "measure (\<lambda>(r, _). rr_remaining r)") (auto dest!: range_read_shrinks [OF sym])

declare drain_loop.simps [simp del]

definition drain :: "snapshot \<Rightarrow> finding + bytes" where
  "drain sn = and_then (snapshot_reader sn 0 (snapshot_len sn)) (\<lambda>r. drain_loop r [])"

text \<open>The chunked reads of the bzip2 audit, without a reader.\<close>

function rehash_loop :: "snapshot \<Rightarrow> nat \<Rightarrow> 32 word \<Rightarrow> finding + 32 word" where
  "rehash_loop sn cursor hasher =
     (if cursor \<ge> snapshot_len sn then Inr hasher
      else
      let step = min (64 * 1024) (snapshot_len sn - cursor)
      in and_then (read_vec sn cursor step) (\<lambda>chunk.
         rehash_loop sn (cursor + step) (bzip2_crc_update hasher chunk)))"
  by pat_completeness auto
termination
  by (relation "measure (\<lambda>(sn, cursor, _). snapshot_len sn - cursor)") auto

declare rehash_loop.simps [simp del]

definition to_le_bytes :: "nat \<Rightarrow> nat \<Rightarrow> bytes" where
  "to_le_bytes n v = map (\<lambda>i. of_nat (v div 256 ^ i mod 256)) [0..<n]"

definition check_matches :: "(bytes \<Rightarrow> nat) \<Rightarrow> (bytes \<Rightarrow> bytes) \<Rightarrow> nat \<Rightarrow> bytes \<Rightarrow> bytes \<Rightarrow> bool" where
  "check_matches crc sha check_id bs expected =
     (if check_id = 1 then expected = to_le_bytes 4 (crc bs)
      else if check_id = 4 then expected = to_le_bytes 8 (unat (crc64 bs))
      else if check_id = 10 then expected = sha bs
      else False)"

subsection \<open>The composite audits\<close>

text \<open>The part the four audits share: two snapshots, one valid record, and the record binds them.\<close>

definition composite_bound ::
  "(bytes \<Rightarrow> bytes) \<Rightarrow> transform_profile \<Rightarrow> nat \<Rightarrow> string \<Rightarrow> snapshot_set \<Rightarrow> transform_graph \<Rightarrow> bool"
where
  "composite_bound sha profile output_len output_sha256 ds graph =
     (let original = ds ! 0; derived = ds ! 1; r = graph ! 0
      in tr_profile r = profile \<and>
         tr_input r = \<lparr>dr_domain = 0, dr_range = \<lparr>offset = 0, rlen = so_len original\<rparr>\<rparr> \<and>
         Some (tr_input_sha256 r) = digest_sha256 (so_digest original) \<and>
         tr_output_domain r = 1 \<and> tr_output_len r = so_len derived \<and> tr_output_len r = output_len \<and>
         digest_sha256 (so_digest derived) = Some (tr_output_sha256 r) \<and> tr_output_sha256 r = output_sha256)"

definition composite_domains ::
  "(bytes \<Rightarrow> bytes) \<Rightarrow> transform_profile \<Rightarrow> ('w \<Rightarrow> nat) \<Rightarrow> ('w \<Rightarrow> string) \<Rightarrow> 'w option \<Rightarrow> snapshot_set \<Rightarrow> transform_graph \<Rightarrow>
     finding + source_snapshot \<times> source_snapshot \<times> 'w"
where
  "composite_domains sha profile output_len output_sha256 wrapper ds graph =
     (if length ds \<noteq> 2 \<or> length graph \<noteq> 1 \<or> \<not> graph_validates sha ds graph then Inl inconsistent
      else
      and_then (ok_or inconsistent (set_domain ds 1)) (\<lambda>derived.
      and_then (ok_or inconsistent wrapper) (\<lambda>w.
      if \<not> composite_bound sha profile (output_len w) (output_sha256 w) ds graph then Inl inconsistent
      else Inr (set_original ds, derived, w))))"

definition audit_tar_gzip_composite ::
  "(bytes \<Rightarrow> nat) \<Rightarrow> (bytes \<Rightarrow> bytes) \<Rightarrow> snapshot_set \<Rightarrow> transform_graph \<Rightarrow> archive_ir \<Rightarrow> finding + unit"
where
  "audit_tar_gzip_composite crc sha ds graph ir =
     and_then (composite_domains sha GzipRfc1952SingleMemberV1 gz_derived_output_len gz_derived_output_sha256
       (ir_gzip_evidence ir) ds graph) (\<lambda>(original, derived, wrapper).
     and_then (audit_gzip_wrapper_covering crc (so_snapshot original) wrapper) (\<lambda>_.
     and_then (case ir_format ir of
         TarGzipUstar \<Rightarrow> audit_tar_covering sha (so_snapshot derived) (so_digest derived) ir
       | TarGzipPax \<Rightarrow> audit_tar_pax_covering sha (so_snapshot derived) (so_digest derived) ir
       | TarGzipGnuLongName \<Rightarrow> audit_tar_gnu_longname_covering sha (so_snapshot derived) (so_digest derived) ir
       | _ \<Rightarrow> Inl inconsistent) (\<lambda>_.
     and_then (drain (so_snapshot derived)) (\<lambda>hashed.
     if crc hashed \<noteq> gz_declared_crc32 wrapper \<or> gz_declared_isize wrapper \<noteq> gzip_isize (so_len derived)
     then Inl inconsistent else Inr ()))))"

definition audit_tar_zstd_composite ::
  "(bytes \<Rightarrow> nat) \<Rightarrow> (bytes \<Rightarrow> bytes) \<Rightarrow> snapshot_set \<Rightarrow> transform_graph \<Rightarrow> archive_ir \<Rightarrow> finding + unit"
where
  "audit_tar_zstd_composite xxh64 sha ds graph ir =
     and_then (composite_domains sha ZstdRfc8878SingleFrameV1 zs_derived_output_len zs_derived_output_sha256
       (ir_zstd_evidence ir) ds graph) (\<lambda>(original, derived, wrapper).
     and_then (audit_zstd_wrapper_covering (so_snapshot original) wrapper) (\<lambda>_.
     and_then (audit_tar_covering sha (so_snapshot derived) (so_digest derived) ir) (\<lambda>_.
     if (case zs_frame_content_size wrapper of Some declared \<Rightarrow> declared \<noteq> so_len derived | None \<Rightarrow> False)
     then Inl inconsistent
     else case zs_declared_checksum wrapper of
            Some declared \<Rightarrow>
              and_then (drain (so_snapshot derived)) (\<lambda>hashed.
              if xxh64 hashed mod 2 ^ 32 \<noteq> declared then Inl inconsistent else Inr ())
          | None \<Rightarrow> if zs_checksum_flag wrapper then Inl inconsistent else Inr ())))"

fun audit_xz_checks ::
  "(bytes \<Rightarrow> nat) \<Rightarrow> (bytes \<Rightarrow> bytes) \<Rightarrow> snapshot \<Rightarrow> nat \<Rightarrow> xz_block_evidence list \<Rightarrow> nat \<Rightarrow> finding + nat"
where
  "audit_xz_checks crc sha sn check_id [] cursor = Inr cursor"
| "audit_xz_checks crc sha sn check_id (b # bs) cursor =
     and_then (read_vec sn cursor (xb_uncompressed_len b)) (\<lambda>decoded.
     if \<not> check_matches crc sha check_id decoded (xb_check_value b) then Inl inconsistent
     else and_then (ok_or inconsistent (checked_add_u64 cursor (xb_uncompressed_len b)))
       (audit_xz_checks crc sha sn check_id bs))"

definition audit_tar_xz_composite ::
  "(bytes \<Rightarrow> nat) \<Rightarrow> (bytes \<Rightarrow> bytes) \<Rightarrow> snapshot_set \<Rightarrow> transform_graph \<Rightarrow> archive_ir \<Rightarrow> finding + unit"
where
  "audit_tar_xz_composite crc sha ds graph ir =
     and_then (composite_domains sha XzSingleStreamV1 xz_derived_output_len xz_derived_output_sha256
       (ir_xz_evidence ir) ds graph) (\<lambda>(original, derived, wrapper).
     and_then (audit_xz_wrapper_covering crc (so_snapshot original) wrapper) (\<lambda>_.
     and_then (audit_tar_covering sha (so_snapshot derived) (so_digest derived) ir) (\<lambda>_.
     and_then (audit_xz_checks crc sha (so_snapshot derived) (xz_check_id wrapper) (xz_blocks wrapper) 0) (\<lambda>cursor.
     if cursor \<noteq> so_len derived then Inl inconsistent else Inr ()))))"

definition audit_tar_bzip2_composite ::
  "(bytes \<Rightarrow> bytes) \<Rightarrow> snapshot_set \<Rightarrow> transform_graph \<Rightarrow> archive_ir \<Rightarrow> finding + unit"
where
  "audit_tar_bzip2_composite sha ds graph ir =
     and_then (composite_domains sha Bzip2SingleStreamV1 bz_derived_output_len bz_derived_output_sha256
       (ir_bzip2_evidence ir) ds graph) (\<lambda>(original, derived, wrapper).
     and_then (audit_bzip2_wrapper_covering (so_snapshot original) wrapper) (\<lambda>_.
     and_then (audit_tar_covering sha (so_snapshot derived) (so_digest derived) ir) (\<lambda>_.
     if length (bz_block_crcs wrapper) = 1
     then and_then (rehash_loop (so_snapshot derived) 0 (not 0)) (\<lambda>hasher.
       if unat (not hasher) \<noteq> bz_combined_crc wrapper then Inl inconsistent else Inr ())
     else Inr ())))"

subsection \<open>Ready archives\<close>

definition format_is_transform_wrapped :: "archive_format \<Rightarrow> bool" where
  "format_is_transform_wrapped f \<longleftrightarrow>
     f \<in> {TarGzipUstar, TarGzipPax, TarGzipGnuLongName, TarZstdUstar, TarXzUstar, TarBzip2Ustar}"

definition validate_ready_source_identity :: "snapshot_set \<Rightarrow> archive_ir \<Rightarrow> source_digest \<Rightarrow> finding + unit" where
  "validate_ready_source_identity ds ir digest =
     (if digest \<noteq> so_digest (set_original ds) \<or> digest \<noteq> ir_source_digest ir then Inl inconsistent else Inr ())"

definition raw_domains :: "(bytes \<Rightarrow> bytes) \<Rightarrow> snapshot_set \<Rightarrow> transform_graph \<Rightarrow> finding + unit" where
  "raw_domains sha ds graph =
     (if \<not> graph_validates sha ds graph \<or> length ds \<noteq> 1 \<or> graph \<noteq> [] then Inl inconsistent else Inr ())"

record audit_hashes =
  ah_crc32 :: "bytes \<Rightarrow> nat"
  ah_sha256 :: "bytes \<Rightarrow> bytes"
  ah_xxh64 :: "bytes \<Rightarrow> nat"

text \<open>The domains each format needs: raw archives one snapshot, wrapped archives a composite audit.\<close>

definition validate_domains ::
  "audit_hashes \<Rightarrow> snapshot_set \<Rightarrow> transform_graph \<Rightarrow> archive_ir \<Rightarrow> finding + unit"
where
  "validate_domains h ds graph ir =
     (case ir_format ir of
        TarGzipUstar \<Rightarrow> audit_tar_gzip_composite (ah_crc32 h) (ah_sha256 h) ds graph ir
      | TarGzipPax \<Rightarrow> audit_tar_gzip_composite (ah_crc32 h) (ah_sha256 h) ds graph ir
      | TarGzipGnuLongName \<Rightarrow> audit_tar_gzip_composite (ah_crc32 h) (ah_sha256 h) ds graph ir
      | TarZstdUstar \<Rightarrow> audit_tar_zstd_composite (ah_xxh64 h) (ah_sha256 h) ds graph ir
      | TarXzUstar \<Rightarrow> audit_tar_xz_composite (ah_crc32 h) (ah_sha256 h) ds graph ir
      | TarBzip2Ustar \<Rightarrow> audit_tar_bzip2_composite (ah_sha256 h) ds graph ir
      | SevenZCopy \<Rightarrow>
          and_then (raw_domains (ah_sha256 h) ds graph) (\<lambda>_.
          audit_sevenz_covering (ah_crc32 h) (so_snapshot (set_original ds)) ir)
      | _ \<Rightarrow> raw_domains (ah_sha256 h) ds graph)"

definition validate_ready_archive ::
  "audit_hashes \<Rightarrow> snapshot_set \<Rightarrow> transform_graph \<Rightarrow> archive_ir \<Rightarrow> payload_plan list \<Rightarrow> finding + unit"
where
  "validate_ready_archive h ds graph ir payloads =
     (if ir_source_digest ir \<noteq> so_digest (set_original ds) then Inl inconsistent
      else if length payloads \<noteq> length (ir_members ir) \<or>
        list_ex (\<lambda>(payload, m). \<not> matches_member payload m) (zip payloads (ir_members ir))
      then Inl inconsistent
      else if list_ex (\<lambda>m. member_format m \<noteq> ir_format ir) (ir_members ir) then Inl inconsistent
      else validate_domains h ds graph ir)"

subsection \<open>What the loops compute\<close>

lemma drain_loop_exact:
  assumes "reads_ok (rr_snapshot r)" "in_bounds (rr_snapshot r) (rr_offset r) (rr_remaining r)"
  shows "drain_loop r hashed = Inr (hashed @ rr_data r)"
  using assms
proof (induction "rr_remaining r" arbitrary: r hashed rule: less_induct)
  case less
  show ?case
  proof (cases "rr_remaining r = 0")
    case True
    then show ?thesis by (subst drain_loop.simps) (simp add: range_read_def slice_of_def)
  next
    case False
    obtain n where n: "0 < n" "n \<le> rr_remaining r"
      and read: "range_read r (64 * 1024) = (Inr (slice_of (rr_offset r) (rr_offset r + n) (content (rr_snapshot r))),
        r\<lparr>rr_offset := rr_offset r + n, rr_remaining := rr_remaining r - n\<rparr>)" (is "_ = (Inr ?chunk, ?r)")
      using range_read_memory [OF less.prems False, of "64 * 1024"] by auto
    have "length ?chunk = n" using n less.prems(2) by (auto simp: in_bounds_def)
    then have "?chunk \<noteq> []" using n(1) by (metis length_0_conv less_irrefl)
    then have step: "drain_loop r hashed = drain_loop ?r (hashed @ ?chunk)"
      unfolding drain_loop.simps [of r] read by (simp del: length_slice)
    have "rr_remaining ?r < rr_remaining r" using n by simp
    moreover have "in_bounds (rr_snapshot ?r) (rr_offset ?r) (rr_remaining ?r)"
      using n less.prems(2) by (auto simp: in_bounds_def)
    ultimately have "drain_loop ?r (hashed @ ?chunk) = Inr ((hashed @ ?chunk) @ rr_data ?r)"
      using less.hyps less.prems(1) by simp
    with step have "drain_loop r hashed = Inr ((hashed @ ?chunk) @ rr_data ?r)" by simp
    also have "(hashed @ ?chunk) @ rr_data ?r = hashed @ rr_data r"
      using n slice_slice_split [of "rr_offset r" "rr_offset r + n" "rr_offset r + rr_remaining r" "content (rr_snapshot r)"] by simp
    finally show ?thesis .
  qed
qed

lemma drain_exact: "readable sn \<Longrightarrow> drain sn = Inr (content sn)"
  using iffD2 [OF snapshot_reader_ok [of sn 0 "snapshot_len sn"], OF conjI [OF _ refl]]
  by (simp add: drain_def in_bounds_def snapshot_ok_def drain_loop_exact slice_full)

lemma rehash_exact:
  assumes "readable sn" "cursor \<le> snapshot_len sn"
  shows "rehash_loop sn cursor hasher = Inr (bzip2_crc_update hasher (drop cursor (content sn)))"
  using assms(2)
proof (induction "snapshot_len sn - cursor" arbitrary: cursor hasher rule: less_induct)
  case less
  note unf = rehash_loop.simps [of sn cursor hasher]
  show ?case
  proof (cases "snapshot_len sn \<le> cursor")
    case True
    then show ?thesis unfolding unf by (simp add: bzip2_crc_update_def)
  next
    case False
    define step where "step = min (64 * 1024) (snapshot_len sn - cursor)"
    note unf = unf [unfolded Let_def, folded step_def]
    from False have step: "cursor + step \<le> snapshot_len sn" "0 < step" by (simp_all add: step_def)
    let ?chunk = "slice_of cursor (cursor + step) (content sn)"
    have read: "read_vec sn cursor step = Inr ?chunk" using read_in_source [OF assms(1)] step by (simp add: read_vec_eq)
    have "drop cursor (content sn) = ?chunk @ drop (cursor + step) (content sn)"
      by (simp add: slice_of_def add.commute) (metis append_take_drop_id drop_drop add.commute)
    then have "bzip2_crc_update hasher (drop cursor (content sn)) =
      bzip2_crc_update (bzip2_crc_update hasher ?chunk) (drop (cursor + step) (content sn))"
      by (simp add: bzip2_crc_update_def)
    moreover have "snapshot_len sn - (cursor + step) < snapshot_len sn - cursor" using step False by linarith
    ultimately show ?thesis using less.hyps [of "cursor + step"] False step
      unfolding unf read by simp
  qed
qed

lemma bzip2_rehash_exact: "readable sn \<Longrightarrow> and_then (rehash_loop sn 0 (not 0)) (\<lambda>h. f (not h)) = f (bzip2_crc32 (content sn))"
  by (simp add: rehash_exact bzip2_crc32_def)

subsection \<open>Planned archives validate\<close>

definition ready_consistent :: "source_digest \<Rightarrow> ready_archive \<Rightarrow> bool" where
  "ready_consistent d ra \<longleftrightarrow>
     ra_source_digest ra = d \<and> ir_source_digest (ra_ir ra) = d \<and>
     list_all2 matches_member (ra_payloads ra) (ir_members (ra_ir ra)) \<and>
     list_all (\<lambda>m. member_format m = ir_format (ra_ir ra)) (ir_members (ra_ir ra))"

lemma validate_consistent:
  assumes "ready_consistent d ra" "so_digest (set_original ds) = d"
  shows "validate_ready_source_identity ds (ra_ir ra) (ra_source_digest ra) = Inr ()"
    and "validate_ready_archive h ds graph (ra_ir ra) (ra_payloads ra) = validate_domains h ds graph (ra_ir ra)"
  using assms by (auto simp: ready_consistent_def validate_ready_source_identity_def validate_ready_archive_def
      list_all2_iff list_ex_iff list_all_iff)

lemma list_all2_mapped: "list_all2 P (map f xs) (map g xs) \<longleftrightarrow> (\<forall>x\<in>set xs. P (f x) (g x))"
  by (induction xs) auto

lemma planned_member_format [simp]:
  "member_format (from_tar_planned_for_format cls m parts acts) = wrapped_format cls"
  "member_format (from_tar_pax_planned_for_format w pm parts acts) = (if w then TarGzipPax else TarPax)"
  "member_format (from_tar_gnu_longname_planned_for_format w gm parts acts) = (if w then TarGzipGnuLongName else TarGnuLongName)"
  by (cases cls; simp add: member_format_def from_tar_planned_for_format_def from_tar_pax_planned_for_format_def
      from_tar_gnu_longname_planned_for_format_def wrapped_format_def Let_def)+

lemma ustar_ready_consistent:
  assumes "plan_tar_domains sha u b mb sl sn td d profile = Ready ra"
  shows "ready_consistent d ra" "ir_format (ra_ir ra) = wrapped_format (ustar_wrapper_class profile)"
    "audit_tar_covering sha sn td (ra_ir ra) = Inr ()"
    "ir_gzip_evidence (ra_ir ra) = (case profile of PlanGzip w \<Rightarrow> Some w | _ \<Rightarrow> None)"
proof -
  from assms obtain a ps where ra: "ra = ready_of (ustar_magic profile) b d (\<lambda>(m, _, _). tar_payload_plan (ustar_wrapper_class profile) m)
      (ustar_archive_ir profile d (tar_covering_of a)) ps"
    and audit: "audit_tar_covering sha sn td (ustar_archive_ir profile d (tar_covering_of a) ps) = Inr ()"
    unfolding plan_tar_domains_def Let_def planner_stages_ready [OF refl] by blast
  show "ready_consistent d ra" "ir_format (ra_ir ra) = wrapped_format (ustar_wrapper_class profile)"
    "audit_tar_covering sha sn td (ra_ir ra) = Inr ()"
    using audit by (auto simp: ra ready_of_def ready_consistent_def list_all2_mapped list_all_iff)
  show "ir_gzip_evidence (ra_ir ra) = (case profile of PlanGzip w \<Rightarrow> Some w | _ \<Rightarrow> None)"
    by (cases profile) (simp_all add: ra ready_of_def ustar_archive_ir_def ir_gzip_evidence_def)
qed

lemma pax_ready_consistent:
  assumes "plan_tar_pax sha u b mb sn td d profile = Ready ra"
  shows "ready_consistent d ra" "ir_format (ra_ir ra) = (if pax_wrapped profile then TarGzipPax else TarPax)"
    "audit_tar_pax_covering sha sn td (ra_ir ra) = Inr ()"
    "ir_gzip_evidence (ra_ir ra) = (case profile of PaxGzip w \<Rightarrow> Some w | PaxRaw \<Rightarrow> None)"
proof -
  from assms obtain c es g ps where ra: "ra = ready_of g b d (\<lambda>(m, _, _). pax_payload_plan (pax_wrapped profile) m)
      (pax_archive_ir profile d c es) ps"
    and audit: "audit_tar_pax_covering sha sn td (pax_archive_ir profile d c es ps) = Inr ()"
    unfolding plan_tar_pax_def Let_def planner_stages_ready [OF refl] by blast
  from audit show "ready_consistent d ra" "ir_format (ra_ir ra) = (if pax_wrapped profile then TarGzipPax else TarPax)"
    "audit_tar_pax_covering sha sn td (ra_ir ra) = Inr ()"
    "ir_gzip_evidence (ra_ir ra) = (case profile of PaxGzip w \<Rightarrow> Some w | PaxRaw \<Rightarrow> None)"
    by (cases profile; auto simp: ra ready_of_def ready_consistent_def list_all2_mapped list_all_iff pax_wrapped_def
        pax_archive_ir_def ir_format_def ir_gzip_evidence_def Let_def)+
qed

lemma gnu_ready_consistent:
  assumes "plan_tar_gnu_longname sha u b mb sn td d profile = Ready ra"
  shows "ready_consistent d ra" "ir_format (ra_ir ra) = (if gnu_wrapped profile then TarGzipGnuLongName else TarGnuLongName)"
    "audit_tar_gnu_longname_covering sha sn td (ra_ir ra) = Inr ()"
    "ir_gzip_evidence (ra_ir ra) = (case profile of GnuGzip w \<Rightarrow> Some w | GnuRaw \<Rightarrow> None)"
proof -
  from assms obtain c es g ps where ra: "ra = ready_of g b d (\<lambda>(m, _, _). gnu_payload_plan (gnu_wrapped profile) m)
      (gnu_archive_ir profile d c es) ps"
    and audit: "audit_tar_gnu_longname_covering sha sn td (gnu_archive_ir profile d c es ps) = Inr ()"
    unfolding plan_tar_gnu_longname_def Let_def planner_stages_ready [OF refl] by blast
  from audit show "ready_consistent d ra"
    "ir_format (ra_ir ra) = (if gnu_wrapped profile then TarGzipGnuLongName else TarGnuLongName)"
    "audit_tar_gnu_longname_covering sha sn td (ra_ir ra) = Inr ()"
    "ir_gzip_evidence (ra_ir ra) = (case profile of GnuGzip w \<Rightarrow> Some w | GnuRaw \<Rightarrow> None)"
    by (cases profile; auto simp: ra ready_of_def ready_consistent_def list_all2_mapped list_all_iff gnu_wrapped_def
        gnu_archive_ir_def ir_format_def ir_gzip_evidence_def Let_def)+
qed

lemma raw_domains_original: "raw_domains sha (from_original s) [] = Inr ()"
  by (simp add: raw_domains_def from_original_def graph_validates_def)

text \<open>The domains the gzip transform leaves behind are bound by its record.\<close>

lemma gzip_transform_bound:
  assumes transform: "transform_single_member crc sha flate sp (from_original s) [] limits = Inr (d, domain, ds, graph)"
    and ok: "readable (so_snapshot s)" "snapshot_bound sha s" and sha: "\<And>bs. length (sha bs) = 32"
  defines "w \<equiv> gzip_wrapper_of d (hex_sha256 sha (content (so_snapshot (dg_output d))))"
  shows "composite_domains sha GzipRfc1952SingleMemberV1 gz_derived_output_len gz_derived_output_sha256 (Some w) ds graph =
      Inr (s, dg_output d, w)" (is ?domains)
    and "domain = 1" "ds = [s, dg_output d]" "gzip_member_spec crc sha (so_snapshot s) limits d"
    and "audit_gzip_wrapper_covering crc (so_snapshot s) w = Inr ()"
proof -
  let ?input = "domain_original \<lparr>offset = 0, rlen = so_len s\<rparr>"
  from transform have decoded: "decode_single_member crc sha flate sp (so_snapshot s) limits = Inr d"
    and append: "append_derived_snapshot sha [s] [] GzipRfc1952SingleMemberV1 ?input (dg_output d) = Inr (domain, ds, graph)"
    by (auto simp: transform_single_member_def from_original_def set_original_def and_then_eq_Inr map_err_eq_Inr)
  show spec: "gzip_member_spec crc sha (so_snapshot s) limits d" by (rule decode_single_member_ok [OF decoded])
  have bound: "so_digest (dg_output d) = Available (hex_sha256 sha (content (so_snapshot (dg_output d))))"
    using spec by (simp add: gzip_member_spec_def snapshot_bound_def)
  then have valid: "domain = 1" "ds = [s, dg_output d]" "length graph = 1" "graph_validates sha ds graph"
    using append_derived_valid [OF sha _ append] by auto
  then show "domain = 1" "ds = [s, dg_output d]" by simp_all
  have "range_sha256 sha [s] ?input = Inr (hex_sha256 sha (slice_of 0 (so_len s) (content (so_snapshot s))))"
    using ok by (subst range_sha256_memory [of _ _ s])
      (simp_all add: set_domain_def domain_original_def ORIGINAL_def in_bounds_def snapshot_ok_def)
  then have "composite_bound sha GzipRfc1952SingleMemberV1 (gz_derived_output_len w) (gz_derived_output_sha256 w) ds graph"
    using append bound ok(2)
    by (auto simp: composite_bound_def append_derived_snapshot_def prepare_transform_def append_prepared_transform_def
        and_then_eq_Inr domain_original_def ORIGINAL_def digest_sha256_def w_def gzip_wrapper_of_def snapshot_bound_def slice_full Let_def
        split: if_splits)
  then show ?domains using valid by (simp add: composite_domains_def set_domain_def set_original_def)
  have "gzip_covered crc (so_snapshot s) w"
    unfolding w_def by (rule gzip_member_covered [OF spec sha])
  then show "audit_gzip_wrapper_covering crc (so_snapshot s) w = Inr ()" using ok by (simp add: gzip_audit_iff)
qed

text \<open>A raw archive needs nothing more than its plan.\<close>

lemma raw_plans_validate:
  assumes "plan_tar_domains sha u b mb sl sn (so_digest s) (so_digest s) PlanRaw = Ready ra \<or>
    plan_tar_pax sha u b mb sn (so_digest s) (so_digest s) PaxRaw = Ready ra \<or>
    plan_tar_gnu_longname sha u b mb sn (so_digest s) (so_digest s) GnuRaw = Ready ra"
  shows "validate_ready_source_identity (from_original s) (ra_ir ra) (ra_source_digest ra) = Inr ()"
    and "validate_ready_archive h (from_original s) [] (ra_ir ra) (ra_payloads ra) = Inr ()"
proof -
  have consistent: "ready_consistent (so_digest s) ra \<and> ir_format (ra_ir ra) \<in> {TarUstar, TarPax, TarGnuLongName}"
    using assms ustar_ready_consistent(1,2) [of sha u b mb sl sn "so_digest s" "so_digest s" PlanRaw ra]
      pax_ready_consistent(1,2) [of sha u b mb sn "so_digest s" "so_digest s" PaxRaw ra]
      gnu_ready_consistent(1,2) [of sha u b mb sn "so_digest s" "so_digest s" GnuRaw ra]
    by (auto simp: wrapped_format_def ustar_wrapper_class_def pax_wrapped_def gnu_wrapped_def)
  have original: "so_digest (set_original (from_original s)) = so_digest s" by (simp add: set_original_def from_original_def)
  note validate = validate_consistent [OF conjunct1 [OF consistent] original]
  show "validate_ready_source_identity (from_original s) (ra_ir ra) (ra_source_digest ra) = Inr ()" by (rule validate(1))
  show "validate_ready_archive h (from_original s) [] (ra_ir ra) (ra_payloads ra) = Inr ()"
    unfolding validate(2) using consistent by (auto simp: validate_domains_def raw_domains_original)
qed

lemma gzip_composite_accepts:
  assumes "composite_domains sha GzipRfc1952SingleMemberV1 gz_derived_output_len gz_derived_output_sha256
      (ir_gzip_evidence ir) ds graph = Inr (s, derived, w)"
    and "audit_gzip_wrapper_covering crc (so_snapshot s) w = Inr ()" "readable (so_snapshot derived)"
    and "gz_declared_crc32 w = crc (content (so_snapshot derived))" "gz_declared_isize w = gzip_isize (so_len derived)"
    and "ir_format ir = TarGzipUstar \<and> audit_tar_covering sha (so_snapshot derived) (so_digest derived) ir = Inr () \<or>
      ir_format ir = TarGzipPax \<and> audit_tar_pax_covering sha (so_snapshot derived) (so_digest derived) ir = Inr () \<or>
      ir_format ir = TarGzipGnuLongName \<and> audit_tar_gnu_longname_covering sha (so_snapshot derived) (so_digest derived) ir = Inr ()"
  shows "audit_tar_gzip_composite crc sha ds graph ir = Inr ()"
  using assms by (auto simp: audit_tar_gzip_composite_def drain_exact)

lemma gzip_planned_validates:
  assumes "transform_single_member crc sha flate sp (from_original s) [] limits = Inr (d, domain, ds, graph)"
    and "reads_ok (so_snapshot s)" "snapshot_ok (so_snapshot s)" "snapshot_bound sha s" "\<And>bs. length (sha bs) = 32"
    and "reads_ok (so_snapshot (dg_output d))" "snapshot_ok (so_snapshot (dg_output d))"
    and "w = gzip_wrapper_of d (hex_sha256 sha (content (so_snapshot (dg_output d))))"
    and "tar = so_snapshot (dg_output d)" "td = so_digest (dg_output d)"
    and "plan_tar_domains sha u b mb sl tar td (so_digest s) (PlanGzip w) = Ready ra \<or>
      plan_tar_pax sha u b mb tar td (so_digest s) (PaxGzip w) = Ready ra \<or>
      plan_tar_gnu_longname sha u b mb tar td (so_digest s) (GnuGzip w) = Ready ra"
  shows "domain = 1 \<and> validate_ready_source_identity ds (ra_ir ra) (ra_source_digest ra) = Inr () \<and>
    validate_ready_archive \<lparr>ah_crc32 = crc, ah_sha256 = sha, ah_xxh64 = xxh\<rparr> ds graph (ra_ir ra) (ra_payloads ra) = Inr ()"
proof -
  note bound = gzip_transform_bound [OF assms(1) conjI [OF assms(2,3)] assms(4,5), folded assms(8)]
  have ready: "ready_consistent (so_digest s) ra \<and> ir_gzip_evidence (ra_ir ra) = Some w \<and>
    (ir_format (ra_ir ra) = TarGzipUstar \<and> audit_tar_covering sha tar td (ra_ir ra) = Inr () \<or>
     ir_format (ra_ir ra) = TarGzipPax \<and> audit_tar_pax_covering sha tar td (ra_ir ra) = Inr () \<or>
     ir_format (ra_ir ra) = TarGzipGnuLongName \<and> audit_tar_gnu_longname_covering sha tar td (ra_ir ra) = Inr ())"
    using assms(11) ustar_ready_consistent [of sha u b mb sl tar td "so_digest s" "PlanGzip w" ra]
      pax_ready_consistent [of sha u b mb tar td "so_digest s" "PaxGzip w" ra]
      gnu_ready_consistent [of sha u b mb tar td "so_digest s" "GnuGzip w" ra]
    by (auto simp: wrapped_format_def ustar_wrapper_class_def pax_wrapped_def gnu_wrapped_def)
  have integrity: "gz_declared_crc32 w = crc (content tar)" "gz_declared_isize w = gzip_isize (snapshot_len tar)"
    using bound(4) by (auto simp: assms(8,9) gzip_wrapper_of_def gzip_member_spec_def trailer_at_def Let_def)
  have "audit_tar_gzip_composite crc sha ds graph (ra_ir ra) = Inr ()"
    using bound(1,5) ready integrity assms(6,7) unfolding assms(9,10)
    by (intro gzip_composite_accepts [where s = s and derived = "dg_output d" and w = w]) auto
  moreover have "so_digest (set_original ds) = so_digest s" by (simp add: bound(3) set_original_def)
  ultimately show ?thesis
    using validate_consistent [OF conjunct1 [OF ready]] ready bound(2) by (auto simp: validate_domains_def)
qed

text \<open>C18. What the gzip transform and a TAR planner hand to execution passes every check made before
  it. For an original whose digest is that of its bytes, whose reads and those of the derived file
  succeed, an archive any of the three planners makes ready over the derived bytes validates: the
  identity, the payload plans and formats, the transform graph with its digests computed anew, the
  replay of the gzip header and trailer, the TAR audit, and the CRC and size over the derived bytes.
  The composite audit can only stop an archive whose bytes changed after planning.\<close>

theorem gzip_plans_validate:
  assumes "transform_single_member crc sha flate sp (from_original s) [] limits = Inr (d, domain, ds, graph)"
    and "reads_ok (so_snapshot s)" "snapshot_ok (so_snapshot s)" "snapshot_bound sha s" "\<And>bs. length (sha bs) = 32"
    and "reads_ok (so_snapshot (dg_output d))" "snapshot_ok (so_snapshot (dg_output d))"
    and "w = gzip_wrapper_of d (hex_sha256 sha (content (so_snapshot (dg_output d))))"
    and "tar = so_snapshot (dg_output d)" "td = so_digest (dg_output d)"
    and "plan_tar_domains sha u b mb sl tar td (so_digest s) (PlanGzip w) = Ready ra \<or>
      plan_tar_pax sha u b mb tar td (so_digest s) (PaxGzip w) = Ready ra \<or>
      plan_tar_gnu_longname sha u b mb tar td (so_digest s) (GnuGzip w) = Ready ra"
  shows "domain = 1 \<and> validate_ready_source_identity ds (ra_ir ra) (ra_source_digest ra) = Inr () \<and>
    validate_ready_archive \<lparr>ah_crc32 = crc, ah_sha256 = sha, ah_xxh64 = xxh\<rparr> ds graph (ra_ir ra) (ra_payloads ra) = Inr ()"
  using assms by (rule gzip_planned_validates)

text \<open>A gzip member whose output is the empty TAR archive.\<close>

definition example_tgz :: bytes where
  "example_tgz = [0x1F, 0x8B, 8, 0, 0, 0, 0, 0, 0, 255, 3, 0, 0, 0, 0, 0, 0, 4, 0, 0]"

definition example_tgz_flate :: "unit inflater" where
  "example_tgz_flate = \<lparr>inf_new = (), inf_decompress = (\<lambda>_ _ _. Some (True, 2, replicate 1024 0, ()))\<rparr>"

abbreviation "example_tgz_snapshot \<equiv> \<lparr>content = example_tgz, backing = Memory\<rparr>"

abbreviation "example_tgz_input \<equiv> \<lparr>rr_snapshot = example_tgz_snapshot, rr_offset = 10, rr_remaining = 10\<rparr>"

lemmas example_tgz_reads = gzip_read_exact_def checked_add_u64_def read_exact_at_def checked_range_def u64_max_def
  slice_of_def example_tgz_def

lemma example_tgz_header:
  "parse_header_at (\<lambda>_. 0) example_tgz_snapshot 0 56 =
     Inr \<lparr>gh_flags = 0, gh_modification_time = 0, gh_extra_flags = 0, gh_operating_system = 255,
       gh_header = \<lparr>offset = 0, rlen = 10\<rparr>, gh_extra = None, gh_extra_subfield_count = 0, gh_original_name = None,
       gh_comment = None, gh_header_crc16 = None\<rparr>"
  by (simp add: parse_header_at_def FIXED_HEADER_LEN_def read_extra_def read_optional_string_def read_header_crc_def
      example_tgz_reads)

abbreviation example_tgz_mid :: "bytes \<Rightarrow> unit verified_deflate_reader" where
  "example_tgz_mid hashed \<equiv> \<lparr>vr_decoder = \<lparr>dd_input = \<lparr>rr_snapshot = example_tgz_snapshot, rr_offset = 20, rr_remaining = 0\<rparr>,
       dd_buffer = [0, 0, 0, 0, 0, 4, 0, 0], dd_decoder = (), dd_total_in = 2, dd_total_out = 1024, dd_ended = True, dd_failed = False\<rparr>,
     vr_hashed = hashed, vr_output_len = 1024, vr_terminal = False, vr_completion = None\<rparr>"

lemma example_tgz_read:
  "verified_read (\<lambda>_. 0) example_tgz_flate example_tgz_snapshot 10 (verified_new example_tgz_flate example_tgz_input) 1025 =
     (Inr (replicate 1024 0), example_tgz_mid (replicate 1024 0))"
  by (simp add: verified_read_def verified_new_def deflate_read_def deflate_new_def deflate_loop.simps fill_buf_def
      range_read_def DEFLATE_INPUT_BUFFER_BYTES_def example_tgz_flate_def TRAILER_LEN_def example_tgz_reads)

lemma example_tgz_end:
  "verified_read (\<lambda>_. 0) example_tgz_flate example_tgz_snapshot 10 (example_tgz_mid hashed) (Suc 0) =
     (Inr [], (example_tgz_mid hashed)\<lparr>vr_terminal := True,
       vr_completion := Some (Inr \<lparr>gt_compressed_payload = \<lparr>offset = 10, rlen = 2\<rparr>, gt_trailer = \<lparr>offset = 12, rlen = 8\<rparr>,
         gt_declared_crc32 = 0, gt_declared_isize = 1024\<rparr>)\<rparr>)"
  by (simp add: verified_read_def deflate_read_def finish_member_def TRAILER_LEN_def gzip_isize_def example_tgz_reads)

abbreviation "example_tgz_original \<equiv> borrowed example_sha None example_tgz"

abbreviation "example_tgz_limits \<equiv> \<lparr>gl_max_metadata_bytes = 64, gl_max_output_bytes = 1024\<rparr>"

abbreviation "example_tgz_output \<equiv> \<lparr>so_snapshot = \<lparr>content = replicate 1024 0, backing = PrivateFile (\<lambda>_ _. True)\<rparr>,
  so_digest = Available (hex_sha256 example_sha (replicate 1024 0)), so_path = None\<rparr>"

lemma example_tgz_decoded:
  obtains d where "decode_single_member (\<lambda>_. 0) example_sha example_tgz_flate example_spool example_tgz_snapshot
      example_tgz_limits = Inr d" "dg_output d = example_tgz_output"
proof -
  have len: "length example_tgz = 20" by (simp add: example_tgz_def)
  have input: "snapshot_reader example_tgz_snapshot 10 10 = Inr example_tgz_input"
    by (simp add: snapshot_reader_ok in_bounds_def len u64_max_def)
  have copy: "copy_loop (verified_read (\<lambda>_. 0) example_tgz_flate example_tgz_snapshot 10) (\<lambda>_ _. True) 1024
      (verified_new example_tgz_flate example_tgz_input) [] =
    (Inr (replicate 1024 0), snd (verified_read (\<lambda>_. 0) example_tgz_flate example_tgz_snapshot 10
      (example_tgz_mid (replicate 1024 0)) 1))"
    by (subst copy_loop.simps, simp add: COPY_BUFFER_BYTES_def u64_max_def example_tgz_read checked_add_u64_def)
      (subst copy_loop.simps, simp add: COPY_BUFFER_BYTES_def u64_max_def example_tgz_end)
  show ?thesis
    by (rule that, simp add: decode_single_member_def TRAILER_LEN_def example_tgz_header input derive_output_def len
        private_derived_from_reader_def private_file_from_bounded_reader_def spool_open_def spool_seal_def io_step_def
        copy_bounded_def example_spool_def copy example_tgz_end range_end_def u64_max_def Let_def, simp)
qed

lemma example_tgz_transformed:
  obtains d domain ds graph where "dg_output d = example_tgz_output"
    "transform_single_member (\<lambda>_. 0) example_sha example_tgz_flate example_spool (from_original example_tgz_original) []
      example_tgz_limits = Inr (d, domain, ds, graph)"
proof -
  obtain d where d: "decode_single_member (\<lambda>_. 0) example_sha example_tgz_flate example_spool example_tgz_snapshot
      example_tgz_limits = Inr d" "dg_output d = example_tgz_output" by (rule example_tgz_decoded)
  let ?input = "domain_original \<lparr>offset = 0, rlen = so_len example_tgz_original\<rparr>"
  have "range_sha256 example_sha [example_tgz_original] ?input = Inr (hex_sha256 example_sha example_tgz)"
    by (subst range_sha256_memory [of _ _ example_tgz_original])
      (simp_all add: set_domain_def domain_original_def ORIGINAL_def in_bounds_def borrowed_def example_tgz_def u64_max_def slice_of_def)
  then have "append_derived_snapshot example_sha [example_tgz_original] [] GzipRfc1952SingleMemberV1 ?input example_tgz_output \<noteq> Inl f" for f
    by (simp add: append_derived_snapshot_def prepare_transform_def append_prepared_transform_def graph_validates_def
        example_profile_validates u16_max_def domain_original_def ORIGINAL_def digest_sha256_def)
  then obtain domain ds graph where "append_derived_snapshot example_sha [example_tgz_original] [] GzipRfc1952SingleMemberV1
      ?input example_tgz_output = Inr (domain, ds, graph)" by (metis sum.exhaust prod.exhaust)
  with d show ?thesis
    by (intro that [of d domain ds graph]) (simp_all add: transform_single_member_def from_original_def set_original_def borrowed_def)
qed

definition example_empty_tar :: tar_archive where
  "example_empty_tar = \<lparr>ta_members = [], ta_member_records = \<lparr>offset = 0, rlen = 0\<rparr>,
     ta_terminator = \<lparr>offset = 0, rlen = 1024\<rparr>, ta_trailing_zeros = \<lparr>offset = 1024, rlen = 0\<rparr>, ta_metadata_bytes = 1024\<rparr>"

lemma example_empty_parsed:
  assumes "content sn = replicate 1024 0" "reads_ok sn"
  shows "parse_ustar_portable_v1 sha sn 2 2048 = Inr example_empty_tar"
  using assms by (intro ustar_spec_parse)
    (auto simp: ustar_spec_def example_empty_tar_def snapshot_ok_def u64_max_def range_bytes_def slice_of_def all_zero_def list_all_iff)

lemma example_tgz_planned:
  assumes "dg_output d = example_tgz_output"
    and "w = gzip_wrapper_of d (hex_sha256 example_sha (content (so_snapshot (dg_output d))))"
  shows "\<exists>ra. plan_tar_domains example_sha ascii_unicode (example_plan_budget\<lparr>max_ratio := None\<rparr>) 2048 20
    (so_snapshot example_tgz_output) (so_digest example_tgz_output) (so_digest example_tgz_original) (PlanGzip w) = Ready ra"
proof -
  let ?sn = "so_snapshot example_tgz_output"
  have ok: "reads_ok ?sn" "snapshot_ok ?sn" by (simp_all add: reads_ok_def snapshot_ok_def u64_max_def)
  have parsed: "parse_ustar_portable_v1 example_sha ?sn 2 2048 = Inr example_empty_tar"
    by (rule example_empty_parsed) (simp_all add: reads_ok_def)
  moreover have "ustar_bound (PlanGzip w) ?sn (so_digest example_tgz_output) (so_digest example_tgz_original)"
    using assms by (simp add: ustar_bound_def gzip_wrapper_of_def Let_def)
  note ustar_plan_audited [OF ok this parsed, of "[]"]
  ultimately show ?thesis
    unfolding plan_tar_domains_def Let_def planner_stages_ready [OF refl]
    by (simp add: example_empty_tar_def derived_ratio_stop_def ustar_derived_charge_def plan_start_def)
qed

theorem gzip_plans_validate_witness:
  "\<exists>ds graph (ra :: ready_archive). ir_format (ra_ir ra) = TarGzipUstar \<and> length ds = 2 \<and>
    validate_ready_archive \<lparr>ah_crc32 = \<lambda>_. 0, ah_sha256 = example_sha, ah_xxh64 = \<lambda>_. 0\<rparr> ds graph (ra_ir ra) (ra_payloads ra) = Inr ()"
proof -
  obtain d domain ds graph where d: "dg_output d = example_tgz_output" and t:
    "transform_single_member (\<lambda>_. 0) example_sha example_tgz_flate example_spool (from_original example_tgz_original) []
      example_tgz_limits = Inr (d, domain, ds, graph)" by (rule example_tgz_transformed)
  let ?w = "gzip_wrapper_of d (hex_sha256 example_sha (content (so_snapshot (dg_output d))))"
  obtain ra where ra: "plan_tar_domains example_sha ascii_unicode (example_plan_budget\<lparr>max_ratio := None\<rparr>) 2048 20
    (so_snapshot example_tgz_output) (so_digest example_tgz_output) (so_digest example_tgz_original) (PlanGzip ?w) = Ready ra"
    using example_tgz_planned [OF d refl] by blast
  have sha: "length (example_sha bs) = 32" for bs by (simp add: example_sha_def)
  have original: "reads_ok (so_snapshot example_tgz_original)" "snapshot_ok (so_snapshot example_tgz_original)"
    "snapshot_bound example_sha example_tgz_original"
    by (simp_all add: borrowed_def snapshot_ok_def u64_max_def example_tgz_def snapshot_bound_def)
  have derived: "reads_ok (so_snapshot (dg_output d))" "snapshot_ok (so_snapshot (dg_output d))"
    by (simp_all add: d reads_ok_def snapshot_ok_def u64_max_def)
  have "ds = [example_tgz_original, dg_output d]"
    using gzip_transform_bound(3) [OF t conjI [OF original(1,2)] original(3) sha] .
  moreover have "ir_format (ra_ir ra) = TarGzipUstar"
    using ustar_ready_consistent(2) [OF ra] by (simp add: wrapped_format_def ustar_wrapper_class_def)
  moreover note gzip_plans_validate [OF t original sha derived refl refl refl, unfolded d, OF disjI1, OF ra [unfolded d],
      where xxh = "\<lambda>_. 0"]
  ultimately have "ir_format (ra_ir ra) = TarGzipUstar \<and> length ds = 2 \<and> validate_ready_archive
      \<lparr>ah_crc32 = \<lambda>_. 0, ah_sha256 = example_sha, ah_xxh64 = \<lambda>_. 0\<rparr> ds graph (ra_ir ra) (ra_payloads ra) = Inr ()" by simp
  then show ?thesis by blast
qed

end
