(* ===== verification/Capability.thy ===== *)
theory Capability
  imports Transform Paths
begin

text \<open>
  The capability of a verified archive, \<open>crates/sealr/src/verified.rs\<close>: bounded retention plans, the
  capture of selected members during verification, and reads of verified members. \<open>BTreeSet\<close> and
  \<open>BTreeMap\<close> are the ordered maps of \<open>Paths\<close>. Whether a reservation of memory succeeds is the
  parameter \<open>reserve\<close>; \<open>usize\<close> has 64 bits, so no size exceeds the platform. The backend is the one
  in the same process; the supervised backend of Linux is not modelled.
\<close>

subsection \<open>Retention plans\<close>

definition MAX_RETENTION_PATHS :: nat where "MAX_RETENTION_PATHS = 64"
definition MAX_RETENTION_PATH_BYTES :: nat where "MAX_RETENTION_PATH_BYTES = 4096"
definition MAX_RETENTION_TOTAL_PATH_BYTES :: nat where "MAX_RETENTION_TOTAL_PATH_BYTES = 16384"

datatype retention_plan_error = TooManyPaths | PathTooLong | TotalPathBytesExceeded | NonCanonicalPath

record retention_plan =
  rp_paths :: "unit btree_map"
  rp_path_bytes :: nat
  rp_max_member_bytes :: u64
  rp_max_total_bytes :: u64

definition retention_plan_new :: "u64 \<Rightarrow> u64 \<Rightarrow> retention_plan" where
  "retention_plan_new max_member max_total =
     \<lparr>rp_paths = [], rp_path_bytes = 0, rp_max_member_bytes = max_member, rp_max_total_bytes = max_total\<rparr>"

definition add_path :: "unicode \<Rightarrow> retention_plan \<Rightarrow> rust_str \<Rightarrow> retention_plan_error + retention_plan" where
  "add_path u plan path =
     (if bt_get (rp_paths plan) path \<noteq> None then Inr plan
      else if length (rp_paths plan) \<ge> MAX_RETENTION_PATHS then Inl TooManyPaths
      else if length (as_bytes path) > MAX_RETENTION_PATH_BYTES then Inl PathTooLong
      else
      and_then (ok_or TotalPathBytesExceeded (checked_add_u64 (rp_path_bytes plan) (length (as_bytes path)))) (\<lambda>next_path_bytes.
      if next_path_bytes > MAX_RETENTION_TOTAL_PATH_BYTES then Inl TotalPathBytesExceeded
      else
      and_then (map_err (\<lambda>_. NonCanonicalPath) (jail_name u path (2 ^ 32 - 1))) (\<lambda>jailed.
      if jn_actions jailed \<noteq> [] \<or> join_on slash (jn_components jailed) \<noteq> path then Inl NonCanonicalPath
      else Inr (plan\<lparr>rp_path_bytes := next_path_bytes, rp_paths := bt_insert path () (rp_paths plan)\<rparr>))))"

subsection \<open>Captures\<close>

datatype retention_status =
    StatusNotRequested | StatusRetained | StatusNotFound | StatusNotFile | StatusMemberLimitExceeded
  | StatusTotalLimitExceeded | StatusPlatformLimit | StatusAllocationFailed | StatusIntegrityMismatch

datatype retention_entry =
    Selected (expected_size: nat) | Retained (retained: bytes) | NotFoundEntry | NotFileEntry | MemberLimitEntry
  | TotalLimitEntry | PlatformLimitEntry | AllocationFailedEntry | IntegrityMismatchEntry

primrec entry_status :: "retention_entry \<Rightarrow> retention_status" where
  "entry_status (Selected n) = StatusIntegrityMismatch"
| "entry_status (Retained bs) = StatusRetained"
| "entry_status NotFoundEntry = StatusNotFound"
| "entry_status NotFileEntry = StatusNotFile"
| "entry_status MemberLimitEntry = StatusMemberLimitExceeded"
| "entry_status TotalLimitEntry = StatusTotalLimitExceeded"
| "entry_status PlatformLimitEntry = StatusPlatformLimit"
| "entry_status AllocationFailedEntry = StatusAllocationFailed"
| "entry_status IntegrityMismatchEntry = StatusIntegrityMismatch"

type_synonym retention_build = "retention_entry btree_map"

text \<open>Collecting the members by path: of two members with one path the later stays.\<close>

definition members_by_path_of :: "ir_member list \<Rightarrow> ir_member btree_map" where
  "members_by_path_of ms = fold (\<lambda>m t. bt_insert (im_canonical_path m) m t) ms []"

definition retention_entry_of ::
  "retention_plan \<Rightarrow> ir_member option \<Rightarrow> quota_state \<Rightarrow> retention_entry \<times> quota_state"
where
  "retention_entry_of plan member q =
     (case member of
        None \<Rightarrow> (NotFoundEntry, q)
      | Some m \<Rightarrow>
          if im_kind m = MemberDirectory then (NotFileEntry, q)
          else if im_declared_uncomp_size m > unat (rp_max_member_bytes plan) then (MemberLimitEntry, q)
          else (case consume q (of_nat (im_declared_uncomp_size m)) of
                  (Inr _, q') \<Rightarrow> (Selected (im_declared_uncomp_size m), q')
                | (Inl _, q') \<Rightarrow> (TotalLimitEntry, q')))"

fun retention_entries ::
  "retention_plan \<Rightarrow> ir_member btree_map \<Rightarrow> rust_str list \<Rightarrow> quota_state \<Rightarrow> retention_build \<Rightarrow> retention_build"
where
  "retention_entries plan members [] q entries = entries"
| "retention_entries plan members (path # paths) q entries =
     (case retention_entry_of plan (bt_get members path) q of
        (entry, q') \<Rightarrow> retention_entries plan members paths q' (bt_insert path entry entries))"

definition retention_plan_build :: "retention_plan option \<Rightarrow> archive_ir \<Rightarrow> retention_build" where
  "retention_plan_build plan ir =
     (case plan of
        None \<Rightarrow> []
      | Some p \<Rightarrow> retention_entries p (members_by_path_of (ir_members ir)) (map fst (rp_paths p))
          (quota_new (rp_max_total_bytes p)) [])"

text \<open>The capture begins as an empty vector with room for the declared size.\<close>

definition begin_capture :: "(nat \<Rightarrow> bool) \<Rightarrow> rust_str \<Rightarrow> retention_build \<Rightarrow> bytes option \<times> retention_build" where
  "begin_capture reserve path entries =
     (case bt_get entries path of
        Some (Selected n) \<Rightarrow>
          if \<not> reserve n then (None, bt_insert path AllocationFailedEntry entries) else (Some [], entries)
      | _ \<Rightarrow> (None, entries))"

definition finish_capture :: "rust_str \<Rightarrow> bytes option \<Rightarrow> retention_build \<Rightarrow> retention_build" where
  "finish_capture path captured entries =
     (case captured of
        None \<Rightarrow> entries
      | Some bs \<Rightarrow>
          (case bt_get entries path of
             Some (Selected n) \<Rightarrow>
               bt_insert path (if length bs = n then Retained bs else IntegrityMismatchEntry) entries
           | _ \<Rightarrow> entries))"

subsection \<open>The capability\<close>

datatype member_read_error =
    ReadNotFound | ReadNotFile | ReadLimitExceeded | ReadPlatformLimit | ReadAllocationFailed | ReadSourceIo
  | ReadIntegrityMismatch

record verified_archive =
  va_snapshots :: snapshot_set
  va_payloads :: "payload_plan list"
  va_ir :: archive_ir
  va_budget :: resource_budget
  va_members_by_path :: "nat btree_map"
  va_retention :: retention_build

definition index_by_path :: "ir_member list \<Rightarrow> nat btree_map" where
  "index_by_path ms = fold (\<lambda>(i, m) t. bt_insert (im_canonical_path m) i t) (enumerate 0 ms) []"

definition verified_archive_new ::
  "snapshot_set \<Rightarrow> archive_ir \<Rightarrow> payload_plan list \<Rightarrow> resource_budget \<Rightarrow> retention_build \<Rightarrow> verified_archive"
where
  "verified_archive_new ds ir payloads budget retention =
     \<lparr>va_snapshots = ds, va_payloads = payloads, va_ir = ir, va_budget = budget,
      va_members_by_path = index_by_path (ir_members ir), va_retention = retention\<rparr>"

definition va_member :: "verified_archive \<Rightarrow> rust_str \<Rightarrow> ir_member option" where
  "va_member va path = map_option (\<lambda>i. ir_members (va_ir va) ! i) (bt_get (va_members_by_path va) path)"

definition va_retention_status :: "verified_archive \<Rightarrow> rust_str \<Rightarrow> retention_status" where
  "va_retention_status va path =
     (case bt_get (va_retention va) path of Some e \<Rightarrow> entry_status e | None \<Rightarrow> StatusNotRequested)"

definition retained_member :: "verified_archive \<Rightarrow> rust_str \<Rightarrow> bytes option" where
  "retained_member va path = (case bt_get (va_retention va) path of Some (Retained bs) \<Rightarrow> Some bs | _ \<Rightarrow> None)"

definition entry_retained :: "retention_entry \<Rightarrow> nat" where
  "entry_retained e = (case e of Retained bs \<Rightarrow> length bs | _ \<Rightarrow> 0)"

definition retained_bytes :: "verified_archive \<Rightarrow> nat" where
  "retained_bytes va = sum_list (map (\<lambda>(_, e). entry_retained e) (va_retention va))"

definition verified_regular_member :: "verified_archive \<Rightarrow> rust_str \<Rightarrow> member_read_error + nat \<times> nat" where
  "verified_regular_member va path =
     and_then (ok_or ReadNotFound (bt_get (va_members_by_path va) path)) (\<lambda>i.
     let m = ir_members (va_ir va) ! i
     in if im_kind m = MemberDirectory then Inl ReadNotFile
        else if im_verification m \<noteq> Verified then Inl ReadIntegrityMismatch
        else and_then (ok_or ReadIntegrityMismatch (im_actual_uncomp_size m)) (\<lambda>n. Inr (i, n)))"

definition member_read_error_of :: "finding \<Rightarrow> member_read_error" where
  "member_read_error_of f = (if code f = SourceIo then ReadSourceIo else ReadIntegrityMismatch)"

text \<open>The second verification of a member: the bytes it streamed, if they agree with the record.\<close>

definition reverify_member ::
  "(bytes \<Rightarrow> nat) \<Rightarrow> (bytes \<Rightarrow> bytes) \<Rightarrow> 'd inflater \<Rightarrow> verified_archive \<Rightarrow> nat \<Rightarrow> nat \<Rightarrow> member_read_error + bytes"
where
  "reverify_member crc sha flate va i expected =
     (let m = ir_members (va_ir va) ! i; plan = va_payloads va ! i
      in and_then (map_err member_read_error_of (planned_payload_reader (va_snapshots va) plan (im_decoded_name m))) (\<lambda>r.
         and_then (map_err member_read_error_of
           (verify_payload_into crc sha flate r plan (va_budget va) (of_nat expected) (\<lambda>_ _. True))) (\<lambda>((actual, checksum, digest), written).
         if unat actual \<noteq> expected \<or> Some checksum \<noteq> im_actual_crc m \<or> im_content_sha256 m \<noteq> Some (digest_hex digest)
         then Inl ReadIntegrityMismatch
         else Inr written)))"

definition read_member ::
  "(bytes \<Rightarrow> nat) \<Rightarrow> (bytes \<Rightarrow> bytes) \<Rightarrow> 'd inflater \<Rightarrow> (nat \<Rightarrow> bool) \<Rightarrow> verified_archive \<Rightarrow> rust_str \<Rightarrow> nat \<Rightarrow>
     member_read_error + bytes"
where
  "read_member crc sha flate reserve va path max_bytes =
     and_then (verified_regular_member va path) (\<lambda>(i, expected).
     if expected > max_bytes then Inl ReadLimitExceeded
     else case retained_member va path of
            Some bs \<Rightarrow>
              if length bs \<noteq> expected then Inl ReadIntegrityMismatch
              else if \<not> reserve expected then Inl ReadAllocationFailed
              else Inr bs
          | None \<Rightarrow>
              if \<not> reserve expected then Inl ReadAllocationFailed
              else reverify_member crc sha flate va i expected)"

text \<open>The bounded sink: everything past the cap is dropped.\<close>

definition prefix_write :: "nat \<Rightarrow> bytes \<Rightarrow> bytes \<Rightarrow> bytes" where
  "prefix_write cap kept chunk =
     (if length kept < cap then kept @ take (min (cap - length kept) (length chunk)) chunk else kept)"

definition read_member_prefix ::
  "(bytes \<Rightarrow> nat) \<Rightarrow> (bytes \<Rightarrow> bytes) \<Rightarrow> 'd inflater \<Rightarrow> (nat \<Rightarrow> bool) \<Rightarrow> verified_archive \<Rightarrow> rust_str \<Rightarrow> nat \<Rightarrow>
     member_read_error + bytes"
where
  "read_member_prefix crc sha flate reserve va path prefix_cap =
     and_then (verified_regular_member va path) (\<lambda>(i, expected).
     let keep = min expected prefix_cap
     in case retained_member va path of
          Some bs \<Rightarrow>
            if length bs \<noteq> expected then Inl ReadIntegrityMismatch
            else if \<not> reserve keep then Inl ReadAllocationFailed
            else Inr (take keep bs)
        | None \<Rightarrow>
            if \<not> reserve keep then Inl ReadAllocationFailed
            else and_then (reverify_member crc sha flate va i expected) (\<lambda>written. Inr (prefix_write keep [] written)))"

subsection \<open>Tables built by insertion\<close>

lemma bt_fold_sorted: "bt_sorted t \<Longrightarrow> bt_sorted (fold (\<lambda>x t. bt_insert (key x) (val x) t) xs t)"
  by (induction xs arbitrary: t) (simp_all add: bt_sorted_insert)

text \<open>Of several insertions under one key the last one counts.\<close>

lemma find_append: "find P (xs @ ys) = (case find P xs of Some x \<Rightarrow> Some x | None \<Rightarrow> find P ys)"
  by (induction xs) simp_all

lemma find_SomeD: "find P xs = Some x \<Longrightarrow> x \<in> set xs \<and> P x"
  by (induction xs) (auto split: if_splits)

lemma bt_get_fold:
  "bt_sorted t \<Longrightarrow> bt_get (fold (\<lambda>x t. bt_insert (key x) (val x) t) xs t) k =
     (case find (\<lambda>x. key x = k) (rev xs) of Some x \<Rightarrow> Some (val x) | None \<Rightarrow> bt_get t k)"
proof (induction xs arbitrary: t)
  case (Cons x xs)
  then show ?case by (auto simp: find_append bt_sorted_insert bt_get_insert split: option.split)
qed simp

lemma bt_sorted_Nil [simp]: "bt_sorted []"
  by (simp add: bt_sorted_def)

lemma index_by_path_get:
  assumes "distinct (map im_canonical_path ms)"
  shows "bt_get (index_by_path ms) path = Some i \<longleftrightarrow> i < length ms \<and> im_canonical_path (ms ! i) = path"
proof -
  let ?key = "\<lambda>(i :: nat, m). im_canonical_path m"
  have "index_by_path ms = fold (\<lambda>x t. bt_insert (?key x) (fst x) t) (enumerate 0 ms) []"
    unfolding index_by_path_def by (intro fold_cong) auto
  then have get: "bt_get (index_by_path ms) path =
      map_option fst (find (\<lambda>x. ?key x = path) (rev (enumerate 0 ms)))"
    using bt_get_fold [of "[]" ?key fst "enumerate 0 ms" path] by (simp add: bt_get_def split: option.split)
  have unique: "j = i" if "i < length ms" "j < length ms" "im_canonical_path (ms ! i) = im_canonical_path (ms ! j)" for i j
    using that assms by (metis length_map nth_eq_iff_index_eq nth_map)
  show ?thesis
  proof
    assume "bt_get (index_by_path ms) path = Some i"
    then obtain m where "find (\<lambda>x. ?key x = path) (rev (enumerate 0 ms)) = Some (i, m)" by (auto simp: get)
    from find_SomeD [OF this] show "i < length ms \<and> im_canonical_path (ms ! i) = path" by (auto simp: in_set_enumerate_eq)
  next
    assume i: "i < length ms \<and> im_canonical_path (ms ! i) = path"
    then have "(i, ms ! i) \<in> set (rev (enumerate 0 ms))" by (simp add: in_set_enumerate_eq)
    then have "find (\<lambda>x. ?key x = path) (rev (enumerate 0 ms)) \<noteq> None" using i by (auto simp: find_None_iff)
    then obtain j m where f: "find (\<lambda>x. ?key x = path) (rev (enumerate 0 ms)) = Some (j, m)" by auto
    from find_SomeD [OF this] i unique [of i j] have "j = i" by (auto simp: in_set_enumerate_eq)
    with f get show "bt_get (index_by_path ms) path = Some i" by simp
  qed
qed

subsection \<open>Retention stays within its limits\<close>

text \<open>What an entry may still hold or holds.\<close>

definition entry_committed :: "retention_entry \<Rightarrow> nat" where
  "entry_committed e = (case e of Selected n \<Rightarrow> n | Retained bs \<Rightarrow> length bs | _ \<Rightarrow> 0)"

definition committed_total :: "retention_build \<Rightarrow> nat" where
  "committed_total entries = sum_list (map (\<lambda>(_, e). entry_committed e) entries)"

definition retention_inv :: "retention_plan \<Rightarrow> retention_build \<Rightarrow> bool" where
  "retention_inv plan entries \<longleftrightarrow>
     bt_sorted entries \<and> committed_total entries \<le> unat (rp_max_total_bytes plan) \<and>
     (\<forall>(_, e) \<in> set entries. entry_committed e \<le> unat (rp_max_member_bytes plan))"

text \<open>The builds a verification pass can reach: the plan, then captures begun and finished for any paths
  in any order and with any bytes.\<close>

inductive retention_reaches :: "retention_plan \<Rightarrow> archive_ir \<Rightarrow> retention_build \<Rightarrow> bool"
  for plan :: retention_plan and ir :: archive_ir where
  planned: "retention_reaches plan ir (retention_plan_build (Some plan) ir)"
| begun: "retention_reaches plan ir entries \<Longrightarrow> retention_reaches plan ir (snd (begin_capture reserve path entries))"
| finished: "retention_reaches plan ir entries \<Longrightarrow> retention_reaches plan ir (finish_capture path captured entries)"

lemma bt_insert_set: "set (bt_insert k v m) \<subseteq> insert (k, v) (set m)"
  by (induction k v m rule: bt_insert.induct) auto

lemma committed_total_insert:
  "bt_sorted m \<Longrightarrow> committed_total (bt_insert k e m) + (case bt_get m k of Some e' \<Rightarrow> entry_committed e' | None \<Rightarrow> 0) =
     committed_total m + entry_committed e"
proof (induction k e m rule: bt_insert.induct)
  case (2 k e k' e' m)
  have "map_of m k = None" if "k < k' \<or> k = k'"
    using 2(2) that by (auto simp: bt_sorted_def map_of_eq_None_iff)
  with 2 show ?case by (auto simp: committed_total_def bt_get_def bt_sorted_def split: option.splits)
qed (simp add: committed_total_def bt_get_def)

lemma retention_inv_insert:
  assumes "retention_inv plan m" "bt_get m k = Some e'" "entry_committed e \<le> entry_committed e'"
  shows "retention_inv plan (bt_insert k e m)"
proof -
  from assms have "(k, e') \<in> set m" by (auto simp: retention_inv_def bt_get_mem)
  moreover from assms have "committed_total (bt_insert k e m) \<le> committed_total m"
    using committed_total_insert [of m k e] by (simp add: retention_inv_def)
  moreover note assms
  ultimately show ?thesis
    unfolding retention_inv_def using bt_sorted_insert [of m k e] bt_insert_set [of k e m] by fastforce
qed

lemma retention_entry_of_quota:
  assumes "retention_entry_of plan m q = (e, q')" "quota_inv q"
  shows "unat (used q') = unat (used q) + entry_committed e" "quota_inv q'" "limit q' = limit q"
    "entry_committed e \<le> unat (rp_max_member_bytes plan)"
proof -
  have size: "unat (of_nat n :: u64) = n" if "\<not> unat (rp_max_member_bytes plan) < n" for n
    using that order_trans [OF _ unat_le_u64_max, of n "rp_max_member_bytes plan"] by (intro unat_of_nat_u64) simp
  from assms have "unat (used q') = unat (used q) + entry_committed e \<and> quota_inv q' \<and> limit q' = limit q \<and>
    entry_committed e \<le> unat (rp_max_member_bytes plan)"
    by (auto simp: retention_entry_of_def entry_committed_def size quota_inv_def word_le_nat_alt dest: consume_ok consume_error_unchanged
        split: option.splits if_splits prod.splits sum.splits)
  then show "unat (used q') = unat (used q) + entry_committed e" "quota_inv q'" "limit q' = limit q"
    "entry_committed e \<le> unat (rp_max_member_bytes plan)" by auto
qed

lemma retention_entries_inv:
  assumes "retention_inv plan entries" "quota_inv q" "limit q = rp_max_total_bytes plan"
    and "committed_total entries \<le> unat (used q)"
  shows "retention_inv plan (retention_entries plan members paths q entries)"
  using assms
proof (induction plan members paths q entries rule: retention_entries.induct)
  case (2 plan members path paths q entries)
  obtain e q' where e: "retention_entry_of plan (bt_get members path) q = (e, q')" by fastforce
  note quota = retention_entry_of_quota [OF e 2(3)]
  have sorted: "bt_sorted entries" using 2(2) by (simp add: retention_inv_def)
  have total: "committed_total (bt_insert path e entries) \<le> unat (used q')"
    using committed_total_insert [OF sorted, of path e] 2(5) quota(1) by simp
  moreover have "unat (used q') \<le> unat (rp_max_total_bytes plan)"
    using quota(2,3) 2(4) by (simp add: quota_inv_def word_le_nat_alt)
  ultimately have "retention_inv plan (bt_insert path e entries)"
    using 2(2) quota(4) bt_insert_set [of path e entries] bt_sorted_insert [OF sorted, of path e]
    unfolding retention_inv_def by fastforce
  with 2(1) [OF e [symmetric]] e quota 2(4) total show ?case by simp
qed simp

lemma retention_reaches_inv: "retention_reaches plan ir entries \<Longrightarrow> retention_inv plan entries"
proof (induction rule: retention_reaches.induct)
  case planned
  have "retention_inv plan []" by (simp add: retention_inv_def committed_total_def)
  then show ?case
    using retention_entries_inv [of plan "[]" "quota_new (rp_max_total_bytes plan)"]
    by (simp add: retention_plan_build_def quota_new_def quota_inv_def committed_total_def)
next
  case (begun entries reserve path)
  then show ?case
    using retention_inv_insert [of plan entries path _ AllocationFailedEntry]
    by (auto simp: begin_capture_def entry_committed_def split: option.split retention_entry.split)
next
  case (finished entries path captured)
  then show ?case
    using retention_inv_insert [of plan entries path]
    by (auto simp: finish_capture_def entry_committed_def split: option.split retention_entry.split)
qed

subsection \<open>Reads of verified members\<close>

lemma prefix_write_append: "prefix_write cap (prefix_write cap kept xs) ys = prefix_write cap kept (xs @ ys)"
  by (auto simp: prefix_write_def min_def)

text \<open>The bytes a raw payload plan names.\<close>

definition payload_bytes :: "snapshot_set \<Rightarrow> payload_plan \<Rightarrow> bytes" where
  "payload_bytes ds plan =
     slice_of (offset (dr_range (pp_source plan))) (range_end (dr_range (pp_source plan)))
       (content (so_snapshot (ds ! dr_domain (pp_source plan))))"

text \<open>A raw payload that can be read: its domain exists, its reads succeed and its range is within it.\<close>

definition payload_readable :: "snapshot_set \<Rightarrow> payload_plan \<Rightarrow> bool" where
  "payload_readable ds plan \<longleftrightarrow>
     dr_domain (pp_source plan) < length ds \<and> reads_ok (so_snapshot (ds ! dr_domain (pp_source plan))) \<and>
     in_bounds (so_snapshot (ds ! dr_domain (pp_source plan))) (offset (dr_range (pp_source plan))) (rlen (dr_range (pp_source plan))) \<and>
     pp_codec plan = RawCodec \<and> pp_compressed_size plan \<le> u64_max"

definition payload_range_reader :: "snapshot_set \<Rightarrow> payload_plan \<Rightarrow> range_reader" where
  "payload_range_reader ds plan = \<lparr>rr_snapshot = so_snapshot (ds ! dr_domain (pp_source plan)),
     rr_offset = offset (dr_range (pp_source plan)), rr_remaining = rlen (dr_range (pp_source plan))\<rparr>"

lemma planned_reader_ok:
  "payload_readable ds plan \<Longrightarrow> planned_payload_reader ds plan name = Inr (payload_range_reader ds plan)"
  by (simp add: payload_readable_def planned_payload_reader_def set_reader_def set_domain_def snapshot_reader_ok
      payload_range_reader_def)

lemma payload_bytes_slice:
  assumes "payload_readable ds plan"
  shows "payload_bytes ds plan = slice_of (offset (dr_range (pp_source plan)))
      (offset (dr_range (pp_source plan)) + rlen (dr_range (pp_source plan))) (content (so_snapshot (ds ! dr_domain (pp_source plan))))"
    and "length (payload_bytes ds plan) = rlen (dr_range (pp_source plan))"
  using assms by (auto simp: payload_readable_def payload_bytes_def range_end_def in_bounds_def)

lemma payload_verified_iff:
  assumes "payload_readable ds plan"
  shows "verify_payload_into crc sha flate (payload_range_reader ds plan) plan b budg (\<lambda>_ _. True) = Inr x \<longleftrightarrow>
      (let data = payload_bytes ds plan
       in length data = pp_uncompressed_size plan \<and> payload_fits plan b budg (length data) \<and>
          integrity_ok (pp_integrity plan) (crc data) \<and> x = ((of_nat (length data), crc data, sha data), data))"
proof -
  note ok = assms [unfolded payload_readable_def]
  show ?thesis
    unfolding payload_range_reader_def payload_bytes_slice(2) [OF assms] Let_def
    by (subst verify_raw_into) (use ok in \<open>simp_all add: payload_bytes_slice(1) [OF assms] Let_def\<close>)
qed

text \<open>What an archive handed out as verified is: one payload plan per member, no path twice, and the
  record of every file agrees with the bytes its plan names, which the caps admit; what is retained
  of a member are these bytes.\<close>

definition member_sound :: "(bytes \<Rightarrow> nat) \<Rightarrow> (bytes \<Rightarrow> bytes) \<Rightarrow> verified_archive \<Rightarrow> nat \<Rightarrow> bool" where
  "member_sound crc sha va i \<longleftrightarrow>
     (let m = ir_members (va_ir va) ! i; plan = va_payloads va ! i; data = payload_bytes (va_snapshots va) plan
      in payload_readable (va_snapshots va) plan \<and> length data = pp_uncompressed_size plan \<and>
         payload_fits plan (va_budget va) (- 1) (length data) \<and> integrity_ok (pp_integrity plan) (crc data) \<and>
         im_verification m = Verified \<and> im_actual_uncomp_size m = Some (length data) \<and>
         im_actual_crc m = Some (crc data) \<and> im_content_sha256 m = Some (digest_hex (sha data)) \<and>
         (\<forall>bs. retained_member va (im_canonical_path m) = Some bs \<longrightarrow> bs = data))"

definition capability_sound :: "(bytes \<Rightarrow> nat) \<Rightarrow> (bytes \<Rightarrow> bytes) \<Rightarrow> verified_archive \<Rightarrow> bool" where
  "capability_sound crc sha va \<longleftrightarrow>
     va_members_by_path va = index_by_path (ir_members (va_ir va)) \<and>
     distinct (map im_canonical_path (ir_members (va_ir va))) \<and>
     length (va_payloads va) = length (ir_members (va_ir va)) \<and>
     (\<forall>i < length (ir_members (va_ir va)).
        im_kind (ir_members (va_ir va) ! i) = MemberFile \<longrightarrow> member_sound crc sha va i)"

lemma payload_fits_budget:
  "payload_fits plan b (- 1) n \<Longrightarrow> n \<le> u64_max \<Longrightarrow> payload_fits plan b (of_nat n) n"
  by (simp add: payload_fits_def unat_of_nat_u64)

lemma reverify_sound:
  assumes "member_sound crc sha va i"
  shows "reverify_member crc sha flate va i (length (payload_bytes (va_snapshots va) (va_payloads va ! i))) =
    Inr (payload_bytes (va_snapshots va) (va_payloads va ! i))"
proof -
  let ?plan = "va_payloads va ! i" and ?m = "ir_members (va_ir va) ! i"
  define data where "data = payload_bytes (va_snapshots va) ?plan"
  from assms have m: "payload_readable (va_snapshots va) ?plan" "length data = pp_uncompressed_size ?plan"
    "payload_fits ?plan (va_budget va) (- 1) (length data)" "integrity_ok (pp_integrity ?plan) (crc data)"
    "im_actual_crc ?m = Some (crc data)" "im_content_sha256 ?m = Some (digest_hex (sha data))"
    by (auto simp: member_sound_def Let_def data_def)
  have len: "length data \<le> u64_max"
    using m(3) order_trans [OF _ unat_le_u64_max] by (auto simp: payload_fits_def)
  have "verify_payload_into crc sha flate (payload_range_reader (va_snapshots va) ?plan) ?plan (va_budget va) (of_nat (length data)) (\<lambda>_ _. True) =
      Inr ((of_nat (length data), crc data, sha data), data)"
    using m payload_fits_budget [OF m(3) len] unfolding payload_verified_iff [OF m(1)] by (simp add: data_def [symmetric])
  with m len show ?thesis by (simp add: reverify_member_def planned_reader_ok Let_def unat_of_nat_u64 data_def [symmetric])
qed

text \<open>C25. Reads of a verified archive give the verified bytes and nothing else. A path that is no
  member or a directory is refused as such; of a file \<open>read_member\<close> returns exactly the bytes of its
  payload when they fit the caller's limit and memory can be reserved, whether they were retained
  or are streamed and verified again, and \<open>read_member_prefix\<close> exactly the prefix of these bytes.\<close>

theorem member_reads_exact:
  assumes "capability_sound crc sha va"
  shows "(\<forall>i < length (ir_members (va_ir va)).
      let m = ir_members (va_ir va) ! i; data = payload_bytes (va_snapshots va) (va_payloads va ! i); path = im_canonical_path m
      in read_member crc sha flate reserve va path cap =
           (if im_kind m = MemberDirectory then Inl ReadNotFile
            else if length data > cap then Inl ReadLimitExceeded
            else if reserve (length data) then Inr data else Inl ReadAllocationFailed) \<and>
         read_member_prefix crc sha flate reserve va path cap =
           (if im_kind m = MemberDirectory then Inl ReadNotFile
            else if reserve (min (length data) cap) then Inr (take cap data) else Inl ReadAllocationFailed)) \<and>
    (\<forall>path. path \<notin> set (map im_canonical_path (ir_members (va_ir va))) \<longrightarrow>
       read_member crc sha flate reserve va path cap = Inl ReadNotFound)"
proof (intro conjI allI impI)
  fix i
  assume i: "i < length (ir_members (va_ir va))"
  let ?m = "ir_members (va_ir va) ! i" and ?path = "im_canonical_path (ir_members (va_ir va) ! i)"
  define data where "data = payload_bytes (va_snapshots va) (va_payloads va ! i)"
  from assms i have index: "bt_get (va_members_by_path va) ?path = Some i"
    by (simp add: capability_sound_def index_by_path_get)
  have "read_member crc sha flate reserve va ?path cap =
      (if im_kind ?m = MemberDirectory then Inl ReadNotFile else if length data > cap then Inl ReadLimitExceeded
       else if reserve (length data) then Inr data else Inl ReadAllocationFailed) \<and>
    read_member_prefix crc sha flate reserve va ?path cap =
      (if im_kind ?m = MemberDirectory then Inl ReadNotFile
       else if reserve (min (length data) cap) then Inr (take cap data) else Inl ReadAllocationFailed)"
  proof (cases "im_kind ?m = MemberDirectory")
    case True
    with index show ?thesis
      by (simp add: read_member_def read_member_prefix_def verified_regular_member_def Let_def)
  next
    case False
    then have "im_kind ?m = MemberFile" by (cases "im_kind ?m") auto
    with assms i have sound: "member_sound crc sha va i" by (auto simp: capability_sound_def)
    then have m: "im_verification ?m = Verified" "im_actual_uncomp_size ?m = Some (length data)"
      "\<And>bs. retained_member va ?path = Some bs \<Longrightarrow> bs = data"
      by (auto simp: member_sound_def Let_def data_def)
    have regular: "verified_regular_member va ?path = Inr (i, length data)"
      using index False m by (simp add: verified_regular_member_def Let_def)
    show ?thesis
      using False m(3) reverify_sound [OF sound, of flate]
      by (auto simp: read_member_def read_member_prefix_def regular data_def [symmetric] prefix_write_def min_def Let_def
          split: option.split)
  qed
  then show "let m = ir_members (va_ir va) ! i; data = payload_bytes (va_snapshots va) (va_payloads va ! i); path = im_canonical_path m
      in read_member crc sha flate reserve va path cap =
           (if im_kind m = MemberDirectory then Inl ReadNotFile
            else if length data > cap then Inl ReadLimitExceeded
            else if reserve (length data) then Inr data else Inl ReadAllocationFailed) \<and>
         read_member_prefix crc sha flate reserve va path cap =
           (if im_kind m = MemberDirectory then Inl ReadNotFile
            else if reserve (min (length data) cap) then Inr (take cap data) else Inl ReadAllocationFailed)"
    by (simp add: data_def Let_def)
next
  fix path
  assume "path \<notin> set (map im_canonical_path (ir_members (va_ir va)))"
  with assms have "bt_get (va_members_by_path va) path \<noteq> Some i" for i
    by (auto simp: capability_sound_def index_by_path_get)
  then have "bt_get (va_members_by_path va) path = None" by auto
  then show "read_member crc sha flate reserve va path cap = Inl ReadNotFound"
    by (simp add: read_member_def verified_regular_member_def)
qed

text \<open>An archive of one file whose payload is the middle of four bytes.\<close>

definition example_file_member :: ir_member where
  "example_file_member = \<lparr>im_raw_name_bytes = [97], im_decoded_name = [97], im_canonical_path = [97], im_components = [[97]],
     im_kind = MemberFile, im_declared_uncomp_size = 2,
     im_evidence = MemTar \<lparr>te_header = \<lparr>offset = 0, rlen = 0\<rparr>, te_payload = \<lparr>offset = 1, rlen = 2\<rparr>,
       te_padding = \<lparr>offset = 3, rlen = 1\<rparr>, te_mode = 0, te_mtime = 0, te_header_checksum = 0, te_header_sha256 = []\<rparr>,
     im_actual_uncomp_size = Some 2, im_actual_crc = Some 2, im_content_sha256 = Some (digest_hex [2, 3]),
     im_verification = Verified, im_normalization_actions = []\<rparr>"

definition example_capability :: verified_archive where
  "example_capability = verified_archive_new [borrowed id None [1, 2, 3, 4]]
     \<lparr>ir_source_digest = Unavailable, ir_evidence = ArcTar \<lparr>tc_member_records = \<lparr>offset = 0, rlen = 0\<rparr>,
        tc_terminator = \<lparr>offset = 0, rlen = 0\<rparr>, tc_trailing_zeros = \<lparr>offset = 0, rlen = 0\<rparr>\<rparr>,
      ir_members = [example_file_member]\<rparr> [example_payload_plan] (cc_budget (compile_controls default_v1)) []"

theorem member_reads_exact_witness:
  "read_member length id \<lparr>inf_new = (), inf_decompress = (\<lambda>_ _ _. None)\<rparr> (\<lambda>_. True) example_capability [97] 2 = Inr [2, 3] \<and>
   read_member length id \<lparr>inf_new = (), inf_decompress = (\<lambda>_ _ _. None)\<rparr> (\<lambda>_. True) example_capability [98] 2 = Inl ReadNotFound"
proof -
  have "unat (- 1 :: u64) = 2 ^ 64 - 1" by (simp add: unsigned_minus_1_eq_mask mask_eq_exp_minus_1)
  then have "capability_sound length id example_capability"
    by (simp add: capability_sound_def member_sound_def example_capability_def verified_archive_new_def example_file_member_def
        payload_readable_def payload_bytes_def example_payload_plan_def tar_plan_def domain_original_def ORIGINAL_def
        borrowed_def in_bounds_def u64_max_def range_end_def slice_of_def payload_fits_def integrity_ok_def
        compile_controls_def default_v1_def retained_member_def bt_get_def Let_def)
  note exact = member_reads_exact [OF this, of "\<lparr>inf_new = (), inf_decompress = (\<lambda>_ _ _. None)\<rparr>" "\<lambda>_. True" 2]
  have members: "ir_members (va_ir example_capability) = [example_file_member]" "im_canonical_path example_file_member = [97]"
    "payload_bytes (va_snapshots example_capability) (va_payloads example_capability ! 0) = [2, 3]"
    by (simp_all add: example_capability_def verified_archive_new_def example_file_member_def payload_bytes_def
        example_payload_plan_def tar_plan_def domain_original_def ORIGINAL_def borrowed_def range_end_def slice_of_def u64_max_def)
  have "im_kind example_file_member = MemberFile" by (simp add: example_file_member_def)
  with exact show ?thesis by (simp add: members Let_def)
qed

text \<open>C26. Retention stays within its limits through every verification pass. Whatever captures are begun
  and finished, in any order, for any paths and with any bytes, the bytes retained never exceed the
  plan's total, and no member retained exceeds the plan's member limit.\<close>

theorem retention_bounded:
  assumes "retention_reaches plan ir entries"
  shows "retained_bytes (verified_archive_new ds ir payloads budget entries) \<le> unat (rp_max_total_bytes plan) \<and>
    (\<forall>path bs. retained_member (verified_archive_new ds ir payloads budget entries) path = Some bs \<longrightarrow>
       length bs \<le> unat (rp_max_member_bytes plan))"
proof -
  note inv = retention_reaches_inv [OF assms, unfolded retention_inv_def]
  have "sum_list (map (\<lambda>(_, e). entry_retained e) entries) \<le> committed_total entries"
    unfolding committed_total_def
    by (intro sum_list_mono) (auto simp: entry_retained_def entry_committed_def split: retention_entry.split)
  moreover have "length bs \<le> unat (rp_max_member_bytes plan)" if "bt_get entries path = Some (Retained bs)" for path bs
    using that inv by (fastforce simp: bt_get_mem entry_committed_def)
  ultimately show ?thesis
    using inv by (auto simp: retained_bytes_def retained_member_def verified_archive_new_def
        split: option.splits retention_entry.splits)
qed

definition example_retention :: retention_plan where
  "example_retention = \<lparr>rp_paths = [([97], ())], rp_path_bytes = 1, rp_max_member_bytes = 3, rp_max_total_bytes = 3\<rparr>"

theorem retention_bounded_witness:
  "retained_bytes (verified_archive_new [] (va_ir example_capability) [] (va_budget example_capability)
     [([97], Retained [2, 3])]) \<le> 3"
proof -
  let ?ir = "va_ir example_capability"
  have "retention_plan_build (Some example_retention) ?ir = [([97], Selected 2)]"
    by (simp add: retention_plan_build_def example_retention_def example_capability_def verified_archive_new_def
        members_by_path_of_def example_file_member_def retention_entry_of_def bt_get_def consume_cases quota_new_def u64_max_def)
  then have "finish_capture [97] (Some [2, 3]) (retention_plan_build (Some example_retention) ?ir) = [([97], Retained [2, 3])]"
    by (simp add: finish_capture_def bt_get_def)
  then have "retention_reaches example_retention ?ir [([97], Retained [2, 3])]"
    using retention_reaches.finished [OF retention_reaches.planned] by metis
  from retention_bounded [OF this] show ?thesis by (simp add: example_retention_def)
qed

end
