(* ===== verification/Execute.thy ===== *)
theory Execute
  imports Composite Capability
begin

text \<open>
  Execution of a ready archive, \<open>execute_ready_archive\<close> of \<open>crates/sealr/src/apply.rs\<close>: the checks
  before it, the verification of every member in order, with or without a destination, the audit of
  what was staged, the commit, and the capability of the outcome. The member transitions are those
  of \<open>crates/sealr/src/ir.rs\<close>, writing a member those of \<open>crates/sealr/src/materialize.rs\<close>. The
  materializer is a record of operations on a state \<open>'s\<close> of the file system and is a parameter: nothing
  is assumed of it except what a theorem names. A file written by it is the writer it returns; the
  bytes that reached it are handed to \<open>mz_written\<close>, and \<open>mz_torn\<close> is what a failed write leaves
  behind. The report on the materialization that is passed through to the outcome is left out.
\<close>

subsection \<open>Member transitions\<close>

definition mark_directory_verified :: "(bytes \<Rightarrow> bytes) \<Rightarrow> ir_member \<Rightarrow> ir_member" where
  "mark_directory_verified sha m = m\<lparr>im_actual_uncomp_size := Some 0,
     im_actual_crc := Some (case im_evidence m of
         MemZip z \<Rightarrow> ze_declared_crc z | MemZip64 z \<Rightarrow> ze_declared_crc (z64_zip z) | _ \<Rightarrow> 0),
     im_content_sha256 := Some (hex_sha256 sha []), im_verification := Verified\<rparr>"

definition mark_file_verified :: "nat \<Rightarrow> nat \<Rightarrow> string \<Rightarrow> ir_member \<Rightarrow> ir_member" where
  "mark_file_verified actual checksum digest m = m\<lparr>im_actual_uncomp_size := Some actual, im_actual_crc := Some checksum,
     im_content_sha256 := Some digest, im_verification := Verified\<rparr>"

definition mark_failed :: "string \<Rightarrow> ir_member \<Rightarrow> ir_member" where
  "mark_failed why m = m\<lparr>im_verification := Failed why\<rparr>"

subsection \<open>The materializer\<close>

record 's materializer =
  mz_create :: "bool \<Rightarrow> 's \<Rightarrow> (finding list + unit) \<times> 's"
  mz_enable_directory_sync :: "'s \<Rightarrow> 's"
  mz_persist_stage_retention :: "string \<Rightarrow> 's \<Rightarrow> finding option \<times> 's"
  mz_create_directory :: "rust_str list \<Rightarrow> rust_str \<Rightarrow> 's \<Rightarrow> finding option \<times> 's"
  mz_create_file :: "rust_str list \<Rightarrow> 's \<Rightarrow> (finding + writer) \<times> 's"
  mz_torn :: "rust_str list \<Rightarrow> finding \<Rightarrow> 's \<Rightarrow> 's"
  mz_written :: "rust_str list \<Rightarrow> bytes \<Rightarrow> 's \<Rightarrow> 's"
  mz_flush :: "rust_str list \<Rightarrow> 's \<Rightarrow> bool \<times> 's"
  mz_sync_all :: "rust_str list \<Rightarrow> 's \<Rightarrow> bool \<times> 's"
  mz_audit_against :: "archive_ir \<Rightarrow> 's \<Rightarrow> finding option \<times> 's"
  mz_commit :: "'s \<Rightarrow> finding option \<times> 's"
  mz_take_retention_discard_error :: "'s \<Rightarrow> finding option \<times> 's"
  mz_take_parent_directory_sync_error :: "'s \<Rightarrow> finding option \<times> 's"
  mz_abort :: "'s \<Rightarrow> finding option \<times> 's"

record exec_request =
  xr_dest :: bool
  xr_atomic :: bool
  xr_stage_retention_path :: "string option"
  xr_retention_plan :: "retention_plan option"
  xr_member_sync :: bool
  xr_directory_sync :: bool

definition process_member_to_file ::
  "audit_hashes \<Rightarrow> 'd inflater \<Rightarrow> 's materializer \<Rightarrow> range_reader \<Rightarrow> payload_plan \<Rightarrow> resource_budget \<Rightarrow> u64 \<Rightarrow> bool \<Rightarrow>
     rust_str list \<Rightarrow> writer \<Rightarrow> 's \<Rightarrow> (finding + (u64 \<times> nat \<times> bytes) \<times> bytes) \<times> 's"
where
  "process_member_to_file h flate mz r plan budget remaining_total sync_members parts writer s =
     (case verify_payload_into (ah_crc32 h) (ah_sha256 h) flate r plan budget remaining_total writer of
        Inl f \<Rightarrow> (Inl f, mz_torn mz parts f s)
      | Inr (result, written) \<Rightarrow>
          (case mz_flush mz parts (mz_written mz parts written s) of
             (False, s1) \<Rightarrow> (Inl (finding_error MaterializeIo), s1)
           | (True, s1) \<Rightarrow>
               if sync_members
               then (case mz_sync_all mz parts s1 of
                       (False, s2) \<Rightarrow> (Inl (finding_error MaterializeIo), s2)
                     | (True, s2) \<Rightarrow> (Inr (result, written), s2))
               else (Inr (result, written), s1)))"

text \<open>A failed abort is tried once more; both findings are kept.\<close>

definition abort_and_report :: "'s materializer \<Rightarrow> bool \<Rightarrow> finding list \<Rightarrow> 's \<Rightarrow> finding list \<times> 's" where
  "abort_and_report mz staged findings s =
     (if \<not> staged then (findings, s)
      else case mz_abort mz s of
             (None, s1) \<Rightarrow> (findings, s1)
           | (Some first_cleanup, s1) \<Rightarrow>
               (case mz_abort mz s1 of
                  (None, s2) \<Rightarrow> (findings @ [first_cleanup], s2)
                | (Some final_cleanup, s2) \<Rightarrow> (findings @ [first_cleanup, final_cleanup], s2)))"

subsection \<open>The member loop\<close>

record 's exec_state =
  ex_members :: "ir_member list"
  ex_views :: "member_view list"
  ex_total :: quota_state
  ex_retention :: retention_build
  ex_world :: 's

definition set_member :: "nat \<Rightarrow> (ir_member \<Rightarrow> ir_member) \<Rightarrow> 's exec_state \<Rightarrow> 's exec_state" where
  "set_member i f st = st\<lparr>ex_members := (ex_members st)[i := f (ex_members st ! i)]\<rparr>"

definition add_view :: "nat \<Rightarrow> 's exec_state \<Rightarrow> 's exec_state" where
  "add_view i st = st\<lparr>ex_views := ex_views st @ [member_view_of (ex_members st ! i)]\<rparr>"

text \<open>A member that fails: the finding, and the state with the member marked.\<close>

definition member_fails :: "nat \<Rightarrow> finding \<Rightarrow> 's exec_state \<Rightarrow> (finding \<times> 's exec_state) + 's exec_state" where
  "member_fails i f st = Inl (f, set_member i (mark_failed (as_str (code f))) st)"

definition execute_directory ::
  "audit_hashes \<Rightarrow> 's materializer \<Rightarrow> bool \<Rightarrow> nat \<Rightarrow> 's exec_state \<Rightarrow> (finding \<times> 's exec_state) + 's exec_state"
where
  "execute_directory h mz staged i st =
     (let m = ex_members st ! i;
          (err, s1) = (if staged then mz_create_directory mz (im_components m) (im_decoded_name m) (ex_world st)
                       else (None, ex_world st));
          st1 = st\<lparr>ex_world := s1\<rparr>
      in case err of
           Some f \<Rightarrow> member_fails i f st1
         | None \<Rightarrow> Inr (add_view i (set_member i (mark_directory_verified (ah_sha256 h)) st1)))"

text \<open>The bytes of a file go through verification into the destination, the capture, both or neither.\<close>

definition process_member ::
  "audit_hashes \<Rightarrow> 'd inflater \<Rightarrow> 's materializer \<Rightarrow> bool \<Rightarrow> bool \<Rightarrow> resource_budget \<Rightarrow> rust_str list \<Rightarrow> range_reader \<Rightarrow>
     payload_plan \<Rightarrow> u64 \<Rightarrow> 's \<Rightarrow> (finding + (u64 \<times> nat \<times> bytes) \<times> bytes) \<times> 's"
where
  "process_member h flate mz staged sync_members budget parts r plan remaining_total s =
     (if staged
      then (case mz_create_file mz parts s of
              (Inl f, s1) \<Rightarrow> (Inl f, s1)
            | (Inr writer, s1) \<Rightarrow> process_member_to_file h flate mz r plan budget remaining_total sync_members parts writer s1)
      else (verify_payload_into (ah_crc32 h) (ah_sha256 h) flate r plan budget remaining_total (\<lambda>_ _. True), s))"

definition execute_file ::
  "audit_hashes \<Rightarrow> 'd inflater \<Rightarrow> (nat \<Rightarrow> bool) \<Rightarrow> 's materializer \<Rightarrow> bool \<Rightarrow> bool \<Rightarrow> resource_budget \<Rightarrow> snapshot_set \<Rightarrow>
     nat \<Rightarrow> payload_plan \<Rightarrow> 's exec_state \<Rightarrow> (finding \<times> 's exec_state) + 's exec_state"
where
  "execute_file h flate reserve mz staged sync_members budget ds i plan st =
     (let m = ex_members st ! i;
          path = im_canonical_path m;
          (capture, retention) = begin_capture reserve path (ex_retention st);
          st1 = st\<lparr>ex_retention := retention\<rparr>
      in case planned_payload_reader ds plan (im_decoded_name m) of
           Inl f \<Rightarrow> member_fails i f st1
         | Inr r \<Rightarrow>
             (case process_member h flate mz staged sync_members budget (im_components m) r plan
                (remaining (ex_total st1)) (ex_world st1) of
                (Inl f, s1) \<Rightarrow> member_fails i (on_member (im_decoded_name m) f) (st1\<lparr>ex_world := s1\<rparr>)
              | (Inr ((actual, checksum, digest), written), s1) \<Rightarrow>
                  let st2 = st1\<lparr>ex_world := s1\<rparr>
                  in (case consume (ex_total st2) actual of
                        (Inl Overflow, q) \<Rightarrow>
                          member_fails i (on_member (im_decoded_name m) (finding_error QuotaOverflow)) (st2\<lparr>ex_total := q\<rparr>)
                      | (Inl (Exceeded _ _), q) \<Rightarrow>
                          member_fails i (on_member (im_decoded_name m) (finding_error QuotaTotal)) (st2\<lparr>ex_total := q\<rparr>)
                      | (Inr _, q) \<Rightarrow>
                          Inr (add_view i (set_member i (mark_file_verified (unat actual) checksum (digest_hex digest))
                            (st2\<lparr>ex_total := q,
                                 ex_retention := finish_capture path (map_option (\<lambda>_. written) capture) (ex_retention st2)\<rparr>))))))"

definition execute_member ::
  "audit_hashes \<Rightarrow> 'd inflater \<Rightarrow> (nat \<Rightarrow> bool) \<Rightarrow> 's materializer \<Rightarrow> bool \<Rightarrow> bool \<Rightarrow> resource_budget \<Rightarrow> snapshot_set \<Rightarrow>
     nat \<Rightarrow> payload_plan \<Rightarrow> 's exec_state \<Rightarrow> (finding \<times> 's exec_state) + 's exec_state"
where
  "execute_member h flate reserve mz staged sync_members budget ds i plan st =
     (if im_kind (ex_members st ! i) = MemberDirectory then execute_directory h mz staged i st
      else execute_file h flate reserve mz staged sync_members budget ds i plan st)"

fun execute_members ::
  "audit_hashes \<Rightarrow> 'd inflater \<Rightarrow> (nat \<Rightarrow> bool) \<Rightarrow> 's materializer \<Rightarrow> bool \<Rightarrow> bool \<Rightarrow> resource_budget \<Rightarrow> snapshot_set \<Rightarrow>
     nat \<Rightarrow> payload_plan list \<Rightarrow> 's exec_state \<Rightarrow> (finding \<times> 's exec_state) + 's exec_state"
where
  "execute_members h flate reserve mz staged sync_members budget ds i [] st = Inr st"
| "execute_members h flate reserve mz staged sync_members budget ds i (plan # plans) st =
     and_then (execute_member h flate reserve mz staged sync_members budget ds i plan st) (\<lambda>st'.
     execute_members h flate reserve mz staged sync_members budget ds (Suc i) plans st')"

subsection \<open>Set-up, publication and the whole execution\<close>

text \<open>Inserting every path reports a path that is there already.\<close>

primrec unique_paths :: "ir_member list \<Rightarrow> unit btree_map \<Rightarrow> bool" where
  "unique_paths [] t \<longleftrightarrow> True"
| "unique_paths (m # ms) t \<longleftrightarrow>
     bt_get t (im_canonical_path m) = None \<and> unique_paths ms (bt_insert (im_canonical_path m) () t)"

definition validate_verified_archive_authority :: "archive_ir \<Rightarrow> finding + unit" where
  "validate_verified_archive_authority ir =
     (if list_ex (\<lambda>m. im_verification m \<noteq> Verified) (ir_members ir) then Inl inconsistent
      else if \<not> unique_paths (ir_members ir) [] then Inl inconsistent
      else Inr ())"

text \<open>The stage of a destination: the findings of a set-up that failed, or whether there is a stage.\<close>

definition set_up_stage :: "'s materializer \<Rightarrow> exec_request \<Rightarrow> finding list \<Rightarrow> 's \<Rightarrow> (finding list + bool) \<times> 's" where
  "set_up_stage mz req findings s =
     (if \<not> xr_dest req then (Inr False, s)
      else case mz_create mz (xr_atomic req) s of
             (Inl setup_findings, s1) \<Rightarrow> (Inl (findings @ setup_findings), s1)
           | (Inr _, s1) \<Rightarrow>
               let s2 = (if xr_directory_sync req then mz_enable_directory_sync mz s1 else s1)
               in case xr_stage_retention_path req of
                    None \<Rightarrow> (Inr True, s2)
                  | Some path \<Rightarrow>
                      (case mz_persist_stage_retention mz path s2 of
                         (None, s3) \<Rightarrow> (Inr True, s3)
                       | (Some f, s3) \<Rightarrow>
                           (case abort_and_report mz True (findings @ [f]) s3 of (fs, s4) \<Rightarrow> (Inl fs, s4))))"

definition list_of :: "'a option \<Rightarrow> 'a list" where
  "list_of x = (case x of None \<Rightarrow> [] | Some y \<Rightarrow> [y])"

text \<open>The audit of the stage and its commit: the findings of a publication that failed, or all findings.\<close>

definition publish ::
  "'s materializer \<Rightarrow> bool \<Rightarrow> archive_ir \<Rightarrow> finding list \<Rightarrow> 's \<Rightarrow> (finding list + finding list) \<times> 's"
where
  "publish mz staged ir findings s =
     (if \<not> staged then (Inr findings, s)
      else case mz_audit_against mz ir s of
             (Some f, s1) \<Rightarrow> (case abort_and_report mz True (findings @ [f]) s1 of (fs, s2) \<Rightarrow> (Inl fs, s2))
           | (None, s1) \<Rightarrow>
               (case mz_commit mz s1 of
                  (Some f, s2) \<Rightarrow> (case abort_and_report mz True (findings @ [f]) s2 of (fs, s3) \<Rightarrow> (Inl fs, s3))
                | (None, s2) \<Rightarrow>
                    let (discard, s3) = mz_take_retention_discard_error mz s2;
                        (parent, s4) = mz_take_parent_directory_sync_error mz s3
                    in (Inr (findings @ list_of discard @ list_of parent), s4)))"

text \<open>\<open>first_error\<close> panics when no finding is an error.\<close>

datatype exec_result = ExecPanicked | ExecDone (exec_outcome: outcome) (exec_capability: "verified_archive option")

definition done_with ::
  "ready_archive \<Rightarrow> finding list \<Rightarrow> member_view list \<Rightarrow> (finding \<Rightarrow> semantic_axes) \<Rightarrow> archive_ir \<Rightarrow>
     verified_archive option \<Rightarrow> exec_result"
where
  "done_with ra findings views axes_of ir capability =
     (case first_error findings of
        None \<Rightarrow> ExecPanicked
      | Some why \<Rightarrow>
          let oc = finish (ra_source_digest ra) (ra_magic ra) findings views (axes_of why)
          in ExecDone (if capability = None then with_ir oc ir else with_verified_archive oc ir) capability)"

definition authority_axes :: "nat \<Rightarrow> bool \<Rightarrow> finding \<Rightarrow> semantic_axes" where
  "authority_axes planned_count staged f =
     \<lparr>ax_interpretation = Indeterminate, ax_admission = Admitted,
      ax_verification = PartialVerification planned_count 0,
      ax_effect = (if staged then FailedEffect else NotRequested),
      ax_view_completeness = PartialView VerificationPhase (as_str (code f))\<rparr>"

text \<open>What follows the member loop.\<close>

definition execute_verified ::
  "'s materializer \<Rightarrow> bool \<Rightarrow> snapshot_set \<Rightarrow> ready_archive \<Rightarrow> 's exec_state \<Rightarrow> exec_result \<times> 's"
where
  "execute_verified mz staged ds ra st =
     (let ir = (ra_ir ra)\<lparr>ir_members := ex_members st\<rparr>
      in case validate_verified_archive_authority ir of
           Inl f \<Rightarrow>
             (case abort_and_report mz staged (ra_findings ra @ [f]) (ex_world st) of
                (fs, s) \<Rightarrow>
                  (ExecDone (with_ir (finish (ra_source_digest ra) (ra_magic ra) fs (ex_views st)
                     (authority_axes (length (ex_members st)) staged f)) ir) None, s))
         | Inr _ \<Rightarrow>
             let views = sort_key mv_path (ex_views st);
                 archive = verified_archive_new ds ir (ra_payloads ra) (ra_budget ra) (ex_retention st)
             in case publish mz staged ir (ra_findings ra) (ex_world st) of
                  (Inl fs, s) \<Rightarrow> (done_with ra fs views admitted_publication_failed ir (Some archive), s)
                | (Inr fs, s) \<Rightarrow>
                    (ExecDone (with_verified_archive (finish (ra_source_digest ra) (ra_magic ra) fs views
                       (if staged then materialize_committed else inspect_complete)) ir) (Some archive), s))"

definition execute_ready_archive ::
  "audit_hashes \<Rightarrow> 'd inflater \<Rightarrow> (nat \<Rightarrow> bool) \<Rightarrow> 's materializer \<Rightarrow> exec_request \<Rightarrow> snapshot_set \<Rightarrow> transform_graph \<Rightarrow>
     ready_archive \<Rightarrow> 's \<Rightarrow> exec_result \<times> 's"
where
  "execute_ready_archive h flate reserve mz req ds graph ra s =
     (let ir = ra_ir ra; planned_count = length (ir_members ir)
      in case and_then (validate_ready_source_identity ds ir (ra_source_digest ra)) (\<lambda>_.
           validate_ready_archive h ds graph ir (ra_payloads ra)) of
           Inl f \<Rightarrow>
             (ExecDone (with_ir (finish (ra_source_digest ra) (ra_magic ra) (ra_findings ra @ [f]) []
                (if format_is_transform_wrapped (ir_format ir) then structure_stop Indeterminate NotEvaluated f
                 else structure_stop Malformed Denied f)) ir) None, s)
         | Inr _ \<Rightarrow>
             (case set_up_stage mz req (ra_findings ra) s of
                (Inl fs, s1) \<Rightarrow> (done_with ra fs [] admitted_setup_failed ir None, s1)
              | (Inr staged, s1) \<Rightarrow>
                  let start = \<lparr>ex_members = ir_members ir, ex_views = [], ex_total = quota_new (max_total_bytes (ra_budget ra)),
                        ex_retention = retention_plan_build (xr_retention_plan req) ir, ex_world = s1\<rparr>
                  in case execute_members h flate reserve mz staged (xr_member_sync req) (ra_budget ra) ds 0 (ra_payloads ra) start of
                       Inl (f, st) \<Rightarrow>
                         (case abort_and_report mz staged (ra_findings ra @ [f]) (ex_world st) of
                            (fs, s2) \<Rightarrow>
                              (done_with ra fs (ex_views st)
                                 (\<lambda>why. admitted_verification_stop (length (ex_views st)) (planned_count - length (ex_views st)) why staged)
                                 (ir\<lparr>ir_members := ex_members st\<rparr>) None, s2))
                     | Inr st \<Rightarrow> execute_verified mz staged ds ra st))"

subsection \<open>Inspection verifies every member\<close>

text \<open>A payload plan that verification accepts.\<close>

definition payload_sound :: "audit_hashes \<Rightarrow> snapshot_set \<Rightarrow> resource_budget \<Rightarrow> payload_plan \<Rightarrow> bool" where
  "payload_sound h ds b plan \<longleftrightarrow>
     payload_readable ds plan \<and> length (payload_bytes ds plan) = pp_uncompressed_size plan \<and>
     payload_fits plan b (- 1) (pp_uncompressed_size plan) \<and>
     integrity_ok (pp_integrity plan) (ah_crc32 h (payload_bytes ds plan))"

definition verified_member :: "audit_hashes \<Rightarrow> snapshot_set \<Rightarrow> ir_member \<Rightarrow> payload_plan \<Rightarrow> ir_member" where
  "verified_member h ds m plan =
     (let data = payload_bytes ds plan
      in if im_kind m = MemberDirectory then mark_directory_verified (ah_sha256 h) m
         else mark_file_verified (length data) (ah_crc32 h data) (digest_hex (ah_sha256 h data)) m)"

definition file_size :: "ir_member \<Rightarrow> payload_plan \<Rightarrow> nat" where
  "file_size m plan = (if im_kind m = MemberDirectory then 0 else pp_uncompressed_size plan)"

definition retain_member ::
  "(nat \<Rightarrow> bool) \<Rightarrow> snapshot_set \<Rightarrow> ir_member \<times> payload_plan \<Rightarrow> retention_build \<Rightarrow> retention_build"
where
  "retain_member reserve ds = (\<lambda>(m, plan) entries.
     if im_kind m = MemberDirectory then entries
     else case begin_capture reserve (im_canonical_path m) entries of
            (capture, entries') \<Rightarrow>
              finish_capture (im_canonical_path m) (map_option (\<lambda>_. payload_bytes ds plan) capture) entries')"

lemma process_member_inspect:
  assumes "payload_sound h ds b plan" "pp_uncompressed_size plan \<le> unat rem"
  shows "process_member h flate mz False sync b parts (payload_range_reader ds plan) plan rem s =
    (let data = payload_bytes ds plan in
       (Inr ((of_nat (length data), ah_crc32 h data, ah_sha256 h data), data), s))"
proof -
  from assms have ok: "payload_readable ds plan" "payload_fits plan b rem (pp_uncompressed_size plan)"
    by (auto simp: payload_sound_def payload_fits_def)
  with assms(1) have "verify_payload_into (ah_crc32 h) (ah_sha256 h) flate (payload_range_reader ds plan) plan b rem (\<lambda>_ _. True) =
     Inr ((of_nat (length (payload_bytes ds plan)), ah_crc32 h (payload_bytes ds plan), ah_sha256 h (payload_bytes ds plan)),
       payload_bytes ds plan)"
    unfolding payload_verified_iff [OF ok(1)] by (simp add: payload_sound_def Let_def)
  then show ?thesis by (simp add: process_member_def Let_def)
qed

lemma quota_consume_fits:
  assumes "quota_inv q" "unat (used q) + n \<le> unat (limit q)"
  shows "consume q (of_nat n) = (Inr (used q + of_nat n), q\<lparr>used := used q + of_nat n\<rparr>)" "quota_inv (q\<lparr>used := used q + of_nat n\<rparr>)"
    "unat (used q + of_nat n) = unat (used q) + n"
proof -
  have max: "unat (used q) + n \<le> u64_max" by (rule order_trans [OF assms(2) unat_le_u64_max])
  then have n: "unat (of_nat n :: u64) = n" by (intro unat_of_nat_u64) simp
  show sum: "unat (used q + of_nat n) = unat (used q) + n"
    using max by (simp add: unat_word_ariths n u64_max_def)
  show "consume q (of_nat n) = (Inr (used q + of_nat n), q\<lparr>used := used q + of_nat n\<rparr>)"
    using assms max by (simp add: consume_cases n)
  show "quota_inv (q\<lparr>used := used q + of_nat n\<rparr>)" using assms(2) by (simp add: quota_inv_def word_le_nat_alt sum)
qed

lemma retain_member_file:
  "im_kind m \<noteq> MemberDirectory \<Longrightarrow> begin_capture reserve (im_canonical_path m) ret = (c, ret') \<Longrightarrow>
     retain_member reserve ds (m, plan) ret =
       finish_capture (im_canonical_path m) (map_option (\<lambda>_. payload_bytes ds plan) c) ret'"
  by (simp add: retain_member_def)

lemma execute_member_inspect:
  assumes "im_kind m = MemberFile \<longrightarrow> payload_sound h ds b plan"
    and "quota_inv q" "unat (used q) + file_size m plan \<le> unat (limit q)"
  shows "execute_member h flate reserve mz False sync b ds (length pre) plan
      \<lparr>ex_members = pre @ m # ms, ex_views = vs, ex_total = q, ex_retention = ret, ex_world = s\<rparr> =
    Inr \<lparr>ex_members = pre @ verified_member h ds m plan # ms, ex_views = vs @ [member_view_of (verified_member h ds m plan)],
      ex_total = q\<lparr>used := used q + of_nat (file_size m plan)\<rparr>, ex_retention = retain_member reserve ds (m, plan) ret, ex_world = s\<rparr>"
proof (cases "im_kind m = MemberDirectory")
  case True
  then show ?thesis
    by (simp add: execute_member_def execute_directory_def add_view_def set_member_def verified_member_def retain_member_def
        file_size_def Let_def)
next
  case False
  then have regular: "im_kind m = MemberFile" by (cases "im_kind m") auto
  with assms(1) have sound: "payload_sound h ds b plan" by simp
  then have len: "length (payload_bytes ds plan) = pp_uncompressed_size plan" and "payload_readable ds plan"
    by (simp_all add: payload_sound_def)
  then have reader: "planned_payload_reader ds plan name = Inr (payload_range_reader ds plan)" for name
    by (simp add: planned_reader_ok)
  from assms(3) regular have fits: "unat (used q) + pp_uncompressed_size plan \<le> unat (limit q)" by (simp add: file_size_def)
  then have "pp_uncompressed_size plan \<le> unat (remaining q)" using assms(2) by (simp add: remaining_exact)
  note process = process_member_inspect [OF sound this, of flate mz sync _ s, unfolded Let_def len]
  have size: "unat (of_nat (pp_uncompressed_size plan) :: u64) = pp_uncompressed_size plan"
    using order_trans [OF fits unat_le_u64_max] by (intro unat_of_nat_u64) simp
  obtain c ret' where c: "begin_capture reserve (im_canonical_path m) ret = (c, ret')" by fastforce
  show ?thesis
    using regular
    by (simp add: execute_member_def execute_file_def c reader process quota_consume_fits(1) [OF assms(2) fits] size
        add_view_def set_member_def verified_member_def retain_member_file [OF False c] file_size_def len Let_def)
qed

lemma execute_members_inspect:
  assumes "list_all2 (\<lambda>m plan. im_kind m = MemberFile \<longrightarrow> payload_sound h ds b plan) ms plans"
    and "quota_inv q" "unat (used q) + sum_list (map2 file_size ms plans) \<le> unat (limit q)"
  shows "\<exists>q'. execute_members h flate reserve mz False sync b ds (length pre) plans
      \<lparr>ex_members = pre @ ms, ex_views = vs, ex_total = q, ex_retention = ret, ex_world = s\<rparr> =
    Inr \<lparr>ex_members = pre @ map2 (verified_member h ds) ms plans,
      ex_views = vs @ map member_view_of (map2 (verified_member h ds) ms plans), ex_total = q',
      ex_retention = fold (retain_member reserve ds) (zip ms plans) ret, ex_world = s\<rparr>"
  using assms
proof (induction ms plans arbitrary: pre vs q ret rule: list_all2_induct)
  case (Cons m ms plan plans)
  let ?q = "q\<lparr>used := used q + of_nat (file_size m plan)\<rparr>"
  have "unat (used q) + file_size m plan \<le> unat (limit q)" using Cons.prems by simp
  note step = execute_member_inspect [OF Cons(1) Cons.prems(1) this]
    and quota = quota_consume_fits(2,3) [OF Cons.prems(1) this]
  have "unat (used ?q) + sum_list (map2 file_size ms plans) \<le> unat (limit ?q)" using Cons.prems(2) quota(2) by simp
  from Cons.IH [OF quota(1) this, of "pre @ [verified_member h ds m plan]" "vs @ [member_view_of (verified_member h ds m plan)]"
    "retain_member reserve ds (m, plan) ret"] show ?case by (simp add: step)
qed simp

text \<open>What is retained at the end was captured from its member.\<close>

lemma retain_member_sound:
  assumes "bt_sorted entries"
  shows "bt_sorted (retain_member reserve ds mp entries)"
    and "bt_get (retain_member reserve ds mp entries) path = Some (Retained bs) \<Longrightarrow>
      bt_get entries path = Some (Retained bs) \<or> im_kind (fst mp) \<noteq> MemberDirectory \<and>
      path = im_canonical_path (fst mp) \<and> bs = payload_bytes ds (snd mp)"
  using assms
  by (auto simp: retain_member_def begin_capture_def finish_capture_def bt_sorted_insert bt_get_insert
      split: prod.splits if_splits option.splits retention_entry.splits)

lemma retain_members_sound:
  assumes "bt_sorted entries"
  shows "bt_get (fold (retain_member reserve ds) mps entries) path = Some (Retained bs) \<Longrightarrow>
      bt_get entries path = Some (Retained bs) \<or> (\<exists>(m, plan) \<in> set mps. im_kind m \<noteq> MemberDirectory \<and>
      path = im_canonical_path m \<and> bs = payload_bytes ds plan)"
  using assms
proof (induction mps arbitrary: entries)
  case (Cons mp mps)
  from Cons.IH [of "retain_member reserve ds mp entries"] Cons.prems retain_member_sound [OF Cons.prems(2)]
  show ?case by (cases mp) fastforce
qed simp

lemma retention_entries_fresh:
  "bt_sorted entries \<Longrightarrow> (\<And>path bs. bt_get entries path \<noteq> Some (Retained bs)) \<Longrightarrow>
     bt_sorted (retention_entries plan members paths q entries) \<and>
     bt_get (retention_entries plan members paths q entries) path \<noteq> Some (Retained bs)"
proof (induction plan members paths q entries rule: retention_entries.induct)
  case (2 plan members path' paths q entries)
  obtain e q' where e: "retention_entry_of plan (bt_get members path') q = (e, q')" by fastforce
  then have "e \<noteq> Retained bs" for bs
    by (auto simp: retention_entry_of_def split: option.splits if_splits prod.splits sum.splits)
  with 2(2,3) have "bt_sorted (bt_insert path' e entries)" "\<And>p bs. bt_get (bt_insert path' e entries) p \<noteq> Some (Retained bs)"
    by (simp_all add: bt_sorted_insert bt_get_insert)
  with 2(1) [OF e [symmetric]] e show ?case by auto
qed simp

lemma retention_plan_fresh:
  "bt_sorted (retention_plan_build plan ir)" "bt_get (retention_plan_build plan ir) path \<noteq> Some (Retained bs)"
  using retention_entries_fresh [of "[]"] by (auto simp: retention_plan_build_def bt_get_def split: option.split)

lemma unique_paths_iff:
  "bt_sorted t \<Longrightarrow> unique_paths ms t \<longleftrightarrow>
     distinct (map im_canonical_path ms) \<and> (\<forall>m \<in> set ms. bt_get t (im_canonical_path m) = None)"
  by (induction ms arbitrary: t) (auto simp: bt_sorted_insert bt_get_insert image_iff)

lemma verified_member_sel [simp]:
  "im_canonical_path (verified_member h ds m plan) = im_canonical_path m"
  "im_kind (verified_member h ds m plan) = im_kind m"
  "im_verification (verified_member h ds m plan) = Verified"
  by (simp_all add: verified_member_def mark_directory_verified_def mark_file_verified_def Let_def)

lemma verified_paths:
  "length ms = length plans \<Longrightarrow> map im_canonical_path (map2 (verified_member h ds) ms plans) = map im_canonical_path ms"
  by (induction ms plans rule: list_induct2) simp_all

lemma verified_capability_sound:
  assumes sound: "list_all2 (\<lambda>m plan. im_kind m = MemberFile \<longrightarrow> payload_sound h ds b plan) ms plans"
    and paths: "distinct (map im_canonical_path ms)"
    and retained: "\<And>path bs. bt_get ret path = Some (Retained bs) \<Longrightarrow> \<exists>(m, plan) \<in> set (zip ms plans).
      path = im_canonical_path m \<and> bs = payload_bytes ds plan"
    and "ir_members ir = map2 (verified_member h ds) ms plans"
  shows "capability_sound (ah_crc32 h) (ah_sha256 h) (verified_archive_new ds ir plans b ret)"
proof -
  let ?va = "verified_archive_new ds ir plans b ret"
  have len: "length ms = length plans" using sound by (rule list_all2_lengthD)
  have "member_sound (ah_crc32 h) (ah_sha256 h) ?va i" if i: "i < length ms" and regular: "im_kind (ms ! i) = MemberFile" for i
  proof -
    from sound i regular len have "payload_sound h ds b (plans ! i)" by (simp add: list_all2_conv_all_nth)
    moreover have "bs = payload_bytes ds (plans ! i)"
      if "retained_member ?va (im_canonical_path (ms ! i)) = Some bs" for bs
    proof -
      from that have "bt_get ret (im_canonical_path (ms ! i)) = Some (Retained bs)"
        by (auto simp: retained_member_def verified_archive_new_def split: option.splits retention_entry.splits)
      from retained [OF this] obtain j where "j < length ms" "im_canonical_path (ms ! j) = im_canonical_path (ms ! i)"
        "bs = payload_bytes ds (plans ! j)" using len by (auto simp: in_set_zip)
      moreover from this paths i have "j = i" by (metis length_map nth_eq_iff_index_eq nth_map)
      ultimately show ?thesis by simp
    qed
    ultimately show ?thesis
      using i len regular assms(4)
      by (simp add: member_sound_def payload_sound_def verified_archive_new_def verified_member_def mark_file_verified_def Let_def)
  qed
  with assms(4) len paths show ?thesis
    by (simp add: capability_sound_def verified_archive_new_def verified_paths del: map_map)
qed

lemma inspection_succeeds:
  assumes "validate_ready_source_identity ds (ra_ir ra) (ra_source_digest ra) = Inr ()"
    and "validate_ready_archive h ds graph (ra_ir ra) (ra_payloads ra) = Inr ()"
    and sound: "list_all2 (\<lambda>m plan. im_kind m = MemberFile \<longrightarrow> payload_sound h ds (ra_budget ra) plan)
      (ir_members (ra_ir ra)) (ra_payloads ra)"
    and paths: "distinct (map im_canonical_path (ir_members (ra_ir ra)))"
    and total: "sum_list (map2 file_size (ir_members (ra_ir ra)) (ra_payloads ra)) \<le> unat (max_total_bytes (ra_budget ra))"
    and "\<not> xr_dest req"
  shows "\<exists>oc va. execute_ready_archive h flate reserve mz req ds graph ra s = (ExecDone oc (Some va), s) \<and>
    oc_axes oc = inspect_complete \<and> oc_verdict oc = compat_verdict inspect_complete \<and> oc_findings oc = ra_findings ra \<and> oc_archive_ir oc = Some (va_ir va) \<and>
    va_snapshots va = ds \<and> va_payloads va = ra_payloads ra \<and>
    ir_members (va_ir va) = map2 (verified_member h ds) (ir_members (ra_ir ra)) (ra_payloads ra) \<and>
    oc_members oc = sort_key mv_path (map member_view_of (ir_members (va_ir va))) \<and>
    capability_sound (ah_crc32 h) (ah_sha256 h) va"
proof -
  define ms where "ms = ir_members (ra_ir ra)"
  define vs where "vs = map2 (verified_member h ds) ms (ra_payloads ra)"
  define ret where "ret = fold (retain_member reserve ds) (zip ms (ra_payloads ra)) (retention_plan_build (xr_retention_plan req) (ra_ir ra))"
  let ?ir = "(ra_ir ra)\<lparr>ir_members := vs\<rparr>"
  let ?va = "verified_archive_new ds ?ir (ra_payloads ra) (ra_budget ra) ret"
  have len: "length ms = length (ra_payloads ra)" using sound by (simp add: ms_def list_all2_lengthD)
  have "quota_inv (quota_new l) \<and> unat (used (quota_new l)) = 0 \<and> limit (quota_new l) = l" for l
    by (simp add: quota_new_def quota_inv_def)
  with execute_members_inspect [OF sound, of "quota_new (max_total_bytes (ra_budget ra))" flate reserve mz "xr_member_sync req" "[]" "[]"
      "retention_plan_build (xr_retention_plan req) (ra_ir ra)" s] total
  obtain q where run: "execute_members h flate reserve mz False (xr_member_sync req) (ra_budget ra) ds 0 (ra_payloads ra)
      \<lparr>ex_members = ms, ex_views = [], ex_total = quota_new (max_total_bytes (ra_budget ra)),
        ex_retention = retention_plan_build (xr_retention_plan req) (ra_ir ra), ex_world = s\<rparr> =
      Inr \<lparr>ex_members = vs, ex_views = map member_view_of vs, ex_total = q, ex_retention = ret, ex_world = s\<rparr>"
    by (auto simp: ms_def vs_def ret_def)
  have "distinct (map im_canonical_path vs)" using paths len unfolding vs_def by (simp add: verified_paths ms_def del: map_map)
  moreover have "\<forall>m \<in> set vs. im_verification m = Verified" by (auto simp: vs_def)
  ultimately have authority: "validate_verified_archive_authority ?ir = Inr ()"
    by (simp add: validate_verified_archive_authority_def unique_paths_iff list_ex_iff bt_get_def)
  have "\<exists>(m, plan) \<in> set (zip ms (ra_payloads ra)). path = im_canonical_path m \<and> bs = payload_bytes ds plan"
    if "bt_get ret path = Some (Retained bs)" for path bs
    using retain_members_sound [OF retention_plan_fresh(1) that [unfolded ret_def]] by (auto simp: retention_plan_fresh(2))
  then have "capability_sound (ah_crc32 h) (ah_sha256 h) ?va"
    using sound paths by (intro verified_capability_sound [where ms = ms]) (auto simp: ms_def vs_def)
  then show ?thesis
    using assms(1,2,6) run authority
    by (auto simp: execute_ready_archive_def set_up_stage_def execute_verified_def publish_def Let_def ms_def [symmetric]
        vs_def [symmetric] verified_archive_new_def)
qed

lemma plan_members_ratio:
  assumes "pl_findings (plan_members u b mname msize mdir ms st) = []" "plan_inv u b mname mdir st"
    and "\<forall>m \<in> set ms. msize m \<le> u64_max" "max_ratio b = Some r"
  shows "\<forall>m \<in> set ms. msize m \<le> unat r * msize m"
  using assms
proof (induction ms arbitrary: st)
  case (Cons m ms)
  note inv = plan_member_inv [OF Cons.prems(2), of msize m]
  show ?case
  proof (cases "plan_member u b mname msize mdir m st")
    case (Inl st')
    with Cons.prems inv show ?thesis by simp
  next
    case (Inr st')
    with Cons.prems inv have rest: "pl_findings (plan_members u b mname msize mdir ms st') = []"
      and inv': "plan_inv u b mname mdir st'" by simp_all
    from plan_members_findings [OF rest inv'] Inr Cons.prems(3,4) have "msize m \<le> unat r * msize m"
      by (auto simp: plan_member_def push_finding_def ratio_exceeds_nat unat_of_nat_u64 Let_def not_less split: if_splits)
    with Cons.IH [OF rest inv'] Cons.prems show ?thesis by simp
  qed
qed simp

text \<open>The payloads of a planned TAR archive verify.\<close>

lemma tar_plan_sound:
  fixes pay :: "'m \<Rightarrow> byte_range" and msize :: "'m \<Rightarrow> nat"
  assumes ps: "ps = pl_planned (plan_members u b mname msize mdir ms (plan_start b))"
    and clean: "pl_findings (plan_members u b mname msize mdir ms (plan_start b)) = []"
    and pay: "\<And>m. m \<in> set ms \<Longrightarrow> rlen (pay m) = msize m \<and> in_bounds sn (offset (pay m)) (msize m)"
    and dom: "\<And>r. in_domain r = \<lparr>dr_domain = k, dr_range = r\<rparr>" "k < length ds" "so_snapshot (ds ! k) = sn" "reads_ok sn"
    and mk: "\<And>p. im_kind (mk p) = kind_of (mdir (fst p))" "\<And>p. im_canonical_path (mk p) = planned_path p"
  shows "list_all2 (\<lambda>m plan. im_kind m = MemberFile \<longrightarrow> payload_sound h ds b plan)
      (map mk ps) (map (\<lambda>(m, _, _). tar_plan in_domain (pay m) (msize m)) ps)"
    and "distinct (map im_canonical_path (map mk ps))"
    and "sum_list (map2 file_size (map mk ps) (map (\<lambda>(m, _, _). tar_plan in_domain (pay m) (msize m)) ps)) \<le> unat (max_total_bytes b)"
proof -
  have size: "\<forall>m \<in> set ms. msize m \<le> u64_max" using pay by (meson add_leD2 in_bounds_def)
  note tree = plan_members_tree [OF size clean ps]
  have mem: "fst p \<in> set ms" if "p \<in> set ps" for p using tree that by force
  have "payload_sound h ds b (tar_plan in_domain (pay m) (msize m))" if m: "m \<in> set ms" for m
  proof -
    let ?plan = "tar_plan in_domain (pay m) (msize m)"
    have "msize m \<le> unat r * msize m" if "max_ratio b = Some r" for r
      using plan_members_ratio [OF clean plan_inv_start size that] m by blast
    moreover have "unat (- 1 :: u64) = u64_max" by (simp add: u64_max_def unsigned_minus_1_eq_mask mask_eq_exp_minus_1)
    moreover have readable: "payload_readable ds ?plan"
      using pay [OF m] dom by (simp add: payload_readable_def tar_plan_def in_bounds_def)
    ultimately show ?thesis
      using tree m size pay [OF m] payload_bytes_slice(2) [OF readable] dom(1)
      by (simp add: payload_sound_def payload_fits_def tar_plan_def integrity_ok_def)
  qed
  with mem show "list_all2 (\<lambda>m plan. im_kind m = MemberFile \<longrightarrow> payload_sound h ds b plan)
      (map mk ps) (map (\<lambda>(m, _, _). tar_plan in_domain (pay m) (msize m)) ps)"
    by (auto simp: list_all2_mapped split: prod.split)
  show "distinct (map im_canonical_path (map mk ps))" using tree mk(2) by (simp add: comp_def)
  have "sum_list (map2 file_size (map mk ps) (map (\<lambda>(m, _, _). tar_plan in_domain (pay m) (msize m)) ps)) \<le>
      sum_list (map (msize \<circ> fst) ps)"
    by (induction ps) (auto simp: file_size_def tar_plan_def)
  also have "sum_list (map (msize \<circ> fst) ps) = sum_list (map msize ms)" using tree by (metis map_map)
  finally show "sum_list (map2 file_size (map mk ps) (map (\<lambda>(m, _, _). tar_plan in_domain (pay m) (msize m)) ps)) \<le>
      unat (max_total_bytes b)" using tree by simp
qed

lemma ustar_payload_bounds:
  assumes "parse_ustar_portable_v1 sha sn mf mm = Inr a" "snapshot_ok sn" "m \<in> set (ta_members a)"
  shows "rlen (tm_payload m) = tm_size m \<and> in_bounds sn (offset (tm_payload m)) (tm_size m)"
proof -
  note spec = ustar_parse_spec [OF assms(1), unfolded ustar_spec_def]
  then have len: "rlen (tm_payload m) = tm_size m" using assms(3) by (auto simp: ustar_member_at_def)
  have "tm_payload m \<in> set (concat (map ustar_ranges (ta_members a)) @ [ta_terminator a, ta_trailing_zeros a])"
    using assms(3) by (auto simp: ustar_ranges_def)
  from chain_bounds [OF conjunct1 [OF spec] this] len assms(2) show ?thesis by (simp add: in_bounds_def snapshot_ok_def)
qed

lemma item_members_set: "m \<in> set (item_members items) \<Longrightarrow> MemItem m \<in> set items"
  by (induction items rule: item_members.induct) auto

lemma pax_payload_bounds:
  assumes "parse_pax_portable_v1 sha sn mf mm = Inr a" "snapshot_ok sn" "m \<in> set (pa_members a)"
  shows "rlen (pm_payload m) = pm_size m \<and> in_bounds sn (offset (pm_payload m)) (pm_size m)"
proof -
  note spec = pax_parse_parts [OF assms(1)]
  then have len: "rlen (pm_payload m) = pm_size m" using assms(3) by (auto simp: pax_member_at_def)
  from spec obtain items where items: "item_members items = pa_members a"
    "chain 0 (concat (map item_ranges items) @ [pa_terminator a, pa_trailing_zeros a]) (snapshot_len sn)" by blast
  have "MemItem m \<in> set items" using items(1) assms(3) item_members_set by metis
  then have "pm_payload m \<in> set (concat (map item_ranges items) @ [pa_terminator a, pa_trailing_zeros a])"
    by (force simp: member_ranges_def)
  from chain_bounds [OF items(2) this] len assms(2) show ?thesis by (simp add: in_bounds_def snapshot_ok_def)
qed

lemma gnu_payload_bounds:
  assumes "parse_gnu_longname_portable_v1 sha sn mf mm = Inr a" "snapshot_ok sn" "m \<in> set (ga_members a)"
  shows "rlen (gm_payload m) = gm_size m \<and> in_bounds sn (offset (gm_payload m)) (gm_size m)"
proof -
  note spec = gnu_parse_parts [OF assms(1)]
  then have len: "rlen (gm_payload m) = gm_size m" using assms(3) by (auto simp: gnu_member_at_def)
  have "gm_payload m \<in> set (concat (map (gnu_block (ga_carriers a)) (ga_members a)) @ [ga_terminator a, ga_trailing_zeros a])"
    using assms(3) by (auto simp: gnu_block_def gnu_member_ranges_def)
  from chain_bounds [OF conjunct1 [OF spec] this] len assms(2) show ?thesis by (simp add: in_bounds_def snapshot_ok_def)
qed

text \<open>A ready archive whose execution has nothing left to refuse.\<close>

definition ready_sound :: "audit_hashes \<Rightarrow> snapshot_set \<Rightarrow> resource_budget \<Rightarrow> ready_archive \<Rightarrow> bool" where
  "ready_sound h ds b ra \<longleftrightarrow>
     ra_budget ra = b \<and> ra_findings ra = [] \<and>
     list_all2 (\<lambda>m plan. im_kind m = MemberFile \<longrightarrow> payload_sound h ds b plan) (ir_members (ra_ir ra)) (ra_payloads ra) \<and>
     distinct (map im_canonical_path (ir_members (ra_ir ra))) \<and>
     sum_list (map2 file_size (ir_members (ra_ir ra)) (ra_payloads ra)) \<le> unat (max_total_bytes b)"

lemma ready_of_sound:
  fixes pay :: "'m \<Rightarrow> byte_range" and msize :: "'m \<Rightarrow> nat"
  assumes "ra = ready_of g b d (\<lambda>(m, _, _). tar_plan in_domain (pay m) (msize m)) ir_of
      (pl_planned (plan_members u b mname msize mdir ms (plan_start b)))"
    and "pl_findings (plan_members u b mname msize mdir ms (plan_start b)) = []"
    and "\<And>m. m \<in> set ms \<Longrightarrow> rlen (pay m) = msize m \<and> in_bounds sn (offset (pay m)) (msize m)"
    and "\<And>r. in_domain r = \<lparr>dr_domain = k, dr_range = r\<rparr>" "k < length ds" "so_snapshot (ds ! k) = sn" "reads_ok sn"
    and "\<And>p. im_kind (mk p) = kind_of (mdir (fst p))" "\<And>p. im_canonical_path (mk p) = planned_path p"
    and "\<And>ps. ir_members (ir_of ps) = map mk ps"
  shows "ready_sound h ds b ra"
  using tar_plan_sound [OF refl assms(2-9)]
  unfolding ready_sound_def assms(1) ready_of_def ready_archive.simps assms(10) by blast

lemma ustar_ready_sound:
  assumes "plan_tar_domains sha u b mb sl sn td d profile = Ready ra" "readable sn"
    and "k = (if profile = PlanRaw then 0 else 1)" "k < length ds" "so_snapshot (ds ! k) = sn"
  shows "ready_sound h ds b ra"
proof -
  let ?mk = "\<lambda>(m, parts, acts). from_tar_planned_for_format (ustar_wrapper_class profile) m parts acts"
  from assms(1) obtain a where parse: "parse_ustar_portable_v1 sha sn (unat (max_files b)) mb = Inr a"
    and clean: "pl_findings (plan_members u b tm_name tm_size tm_is_dir (ta_members a) (plan_start b)) = []"
    and ra: "ra = ready_of (ustar_magic profile) b d (\<lambda>(m, _, _). tar_payload_plan (ustar_wrapper_class profile) m)
      (ustar_archive_ir profile d (tar_covering_of a)) (pl_planned (plan_members u b tm_name tm_size tm_is_dir (ta_members a) (plan_start b)))"
    unfolding plan_tar_domains_def Let_def planner_stages_ready [OF refl] by blast
  show ?thesis
    by (rule ready_of_sound [OF ra [unfolded tar_payload_plan_shape] clean, where mk = ?mk and sn = sn and k = k])
      (use assms ustar_payload_bounds [OF parse] in \<open>auto simp: from_tar_planned_for_format_def ustar_archive_ir_def Let_def
        domain_original_def domain_derived_def ORIGINAL_def FIRST_DERIVED_def ustar_wrapper_class_def split: tar_plan_profile.splits\<close>)
qed

lemma pax_ready_sound:
  assumes "plan_tar_pax sha u b mb sn td d profile = Ready ra" "readable sn"
    and "k = (if profile = PaxRaw then 0 else 1)" "k < length ds" "so_snapshot (ds ! k) = sn"
  shows "ready_sound h ds b ra"
proof -
  let ?mk = "\<lambda>(m, parts, acts). from_tar_pax_planned_for_format (pax_wrapped profile) m parts acts"
  from assms(1) obtain a c es g where parse: "parse_pax_portable_v1 sha sn (unat (max_files b)) mb = Inr a"
    and clean: "pl_findings (plan_members u b pm_name pm_size pm_is_dir (pa_members a) (plan_start b)) = []"
    and ra: "ra = ready_of g b d (\<lambda>(m, _, _). pax_payload_plan (pax_wrapped profile) m)
      (pax_archive_ir profile d c es) (pl_planned (plan_members u b pm_name pm_size pm_is_dir (pa_members a) (plan_start b)))"
    unfolding plan_tar_pax_def Let_def planner_stages_ready [OF refl] by blast
  show ?thesis
    by (rule ready_of_sound [OF ra [unfolded pax_payload_plan_shape] clean, where mk = ?mk and sn = sn and k = k])
      (use assms pax_payload_bounds [OF parse] in \<open>auto simp: from_tar_pax_planned_for_format_def pax_archive_ir_def Let_def
        domain_original_def domain_derived_def ORIGINAL_def FIRST_DERIVED_def pax_wrapped_def split: pax_plan_profile.splits\<close>)
qed

lemma gnu_ready_sound:
  assumes "plan_tar_gnu_longname sha u b mb sn td d profile = Ready ra" "readable sn"
    and "k = (if profile = GnuRaw then 0 else 1)" "k < length ds" "so_snapshot (ds ! k) = sn"
  shows "ready_sound h ds b ra"
proof -
  let ?mk = "\<lambda>(m, parts, acts). from_tar_gnu_longname_planned_for_format (gnu_wrapped profile) m parts acts"
  from assms(1) obtain a c es g where parse: "parse_gnu_longname_portable_v1 sha sn (unat (max_files b)) mb = Inr a"
    and clean: "pl_findings (plan_members u b gm_name gm_size gm_is_dir (ga_members a) (plan_start b)) = []"
    and ra: "ra = ready_of g b d (\<lambda>(m, _, _). gnu_payload_plan (gnu_wrapped profile) m)
      (gnu_archive_ir profile d c es) (pl_planned (plan_members u b gm_name gm_size gm_is_dir (ga_members a) (plan_start b)))"
    unfolding plan_tar_gnu_longname_def Let_def planner_stages_ready [OF refl] by blast
  show ?thesis
    by (rule ready_of_sound [OF ra [unfolded gnu_payload_plan_shape] clean, where mk = ?mk and sn = sn and k = k])
      (use assms gnu_payload_bounds [OF parse] in \<open>auto simp: from_tar_gnu_longname_planned_for_format_def gnu_archive_ir_def Let_def
        domain_original_def domain_derived_def ORIGINAL_def FIRST_DERIVED_def gnu_wrapped_def split: gnu_long_name_plan_profile.splits\<close>)
qed

text \<open>The ready archives of the three TAR planners over the bytes of a source, raw or through the gzip
  transform.\<close>

definition planned_from ::
  "audit_hashes \<Rightarrow> 'd inflater \<Rightarrow> spool \<Rightarrow> unicode \<Rightarrow> resource_budget \<Rightarrow> nat \<Rightarrow> source_snapshot \<Rightarrow> snapshot_set \<Rightarrow>
     transform_graph \<Rightarrow> ready_archive \<Rightarrow> bool"
where
  "planned_from h flate sp u b mb src ds graph ra \<longleftrightarrow>
     ds = from_original src \<and> graph = [] \<and>
       (\<exists>sl. plan_tar_domains (ah_sha256 h) u b mb sl (so_snapshot src) (so_digest src) (so_digest src) PlanRaw = Ready ra \<or>
          plan_tar_pax (ah_sha256 h) u b mb (so_snapshot src) (so_digest src) (so_digest src) PaxRaw = Ready ra \<or>
          plan_tar_gnu_longname (ah_sha256 h) u b mb (so_snapshot src) (so_digest src) (so_digest src) GnuRaw = Ready ra) \<or>
     (\<exists>limits d domain w tar td sl.
       transform_single_member (ah_crc32 h) (ah_sha256 h) flate sp (from_original src) [] limits = Inr (d, domain, ds, graph) \<and>
       w = gzip_wrapper_of d (hex_sha256 (ah_sha256 h) (content (so_snapshot (dg_output d)))) \<and>
       tar = so_snapshot (dg_output d) \<and> td = so_digest (dg_output d) \<and> readable tar \<and>
       (plan_tar_domains (ah_sha256 h) u b mb sl tar td (so_digest src) (PlanGzip w) = Ready ra \<or>
        plan_tar_pax (ah_sha256 h) u b mb tar td (so_digest src) (PaxGzip w) = Ready ra \<or>
        plan_tar_gnu_longname (ah_sha256 h) u b mb tar td (so_digest src) (GnuGzip w) = Ready ra))"

lemma planned_from_sound:
  assumes "planned_from h flate sp u b mb src ds graph ra" "readable (so_snapshot src)" "snapshot_bound (ah_sha256 h) src"
    and "\<And>bs. length (ah_sha256 h bs) = 32"
  shows "validate_ready_source_identity ds (ra_ir ra) (ra_source_digest ra) = Inr ()"
    and "validate_ready_archive h ds graph (ra_ir ra) (ra_payloads ra) = Inr ()" and "ready_sound h ds b ra"
proof -
  have eta: "\<lparr>ah_crc32 = ah_crc32 h, ah_sha256 = ah_sha256 h, ah_xxh64 = ah_xxh64 h\<rparr> = h" by simp
  have "validate_ready_source_identity ds (ra_ir ra) (ra_source_digest ra) = Inr () \<and>
    validate_ready_archive h ds graph (ra_ir ra) (ra_payloads ra) = Inr () \<and> ready_sound h ds b ra"
    using assms(1) unfolding planned_from_def
  proof (elim disjE exE conjE, goal_cases)
    case (4 limits d domain w tar td sl)
    note validates = gzip_planned_validates [OF 4(1) _ _ assms(3,4) _ _ 4(2-4) disjI1 [OF 4(5)]]
    have "ds = [src, dg_output d]" using gzip_transform_bound(3) [OF 4(1) assms(2-4)] .
    with 4 assms(2) ustar_ready_sound [OF 4(5), of 1 ds h] validates [where xxh = "ah_xxh64 h", unfolded eta] show ?case by auto
  next
    case (5 limits d domain w tar td sl)
    note validates = gzip_planned_validates [OF 5(1) _ _ assms(3,4) _ _ 5(2-4) disjI2 [OF disjI1 [OF 5(5)]]]
    have "ds = [src, dg_output d]" using gzip_transform_bound(3) [OF 5(1) assms(2-4)] .
    with 5 assms(2) pax_ready_sound [OF 5(5), of 1 ds h] validates [where xxh = "ah_xxh64 h", unfolded eta] show ?case by auto
  next
    case (6 limits d domain w tar td sl)
    note validates = gzip_planned_validates [OF 6(1) _ _ assms(3,4) _ _ 6(2-4) disjI2 [OF disjI2 [OF 6(5)]]]
    have "ds = [src, dg_output d]" using gzip_transform_bound(3) [OF 6(1) assms(2-4)] .
    with 6 assms(2) gnu_ready_sound [OF 6(5), of 1 ds h] validates [where xxh = "ah_xxh64 h", unfolded eta] show ?case by auto
  next
    case (1 sl)
    with assms(2) raw_plans_validate [OF disjI1 [OF 1(3)]] ustar_ready_sound [OF 1(3), of 0 ds h]
    show ?case by (simp add: from_original_def)
  next
    case (2 sl)
    with assms(2) raw_plans_validate [OF disjI2 [OF disjI1 [OF 2(3)]]] pax_ready_sound [OF 2(3), of 0 ds h]
    show ?case by (simp add: from_original_def)
  next
    case (3 sl)
    with assms(2) raw_plans_validate [OF disjI2 [OF disjI2 [OF 3(3)]]] gnu_ready_sound [OF 3(3), of 0 ds h]
    show ?case by (simp add: from_original_def)
  qed
  then show "validate_ready_source_identity ds (ra_ir ra) (ra_source_digest ra) = Inr ()"
    "validate_ready_archive h ds graph (ra_ir ra) (ra_payloads ra) = Inr ()" "ready_sound h ds b ra" by simp_all
qed

text \<open>C5. An archive that was planned is inspected to the end. For a source whose digest is that of its
  bytes and whose reads succeed, whatever one of the three TAR planners made ready, raw or through
  the gzip transform, execution without a destination ends with the verdict that allows it: exit
  code 0, no finding, every member verified with the size and digests of its bytes, the views
  in the order of their paths, the file system untouched, and a capability whose reads are sound.
  After admission nothing but a failing read can refuse it.\<close>

theorem planned_archives_inspect:
  assumes "planned_from h flate sp u b mb src ds graph ra" "readable (so_snapshot src)" "snapshot_bound (ah_sha256 h) src"
    and "\<And>bs. length (ah_sha256 h bs) = 32" "\<not> xr_dest req"
  shows "\<exists>oc va. execute_ready_archive h flate' reserve mz req ds graph ra s = (ExecDone oc (Some va), s) \<and>
    oc_verdict oc = Allowed False \<and> cli_exit_code oc = 0 \<and> oc_findings oc = [] \<and> oc_archive_ir oc = Some (va_ir va) \<and>
    ir_members (va_ir va) = map2 (verified_member h ds) (ir_members (ra_ir ra)) (ra_payloads ra) \<and>
    oc_members oc = sort_key mv_path (map member_view_of (ir_members (va_ir va))) \<and>
    capability_sound (ah_crc32 h) (ah_sha256 h) va"
proof -
  note sound = planned_from_sound [OF assms(1-4)]
  from inspection_succeeds [OF sound(1,2) _ _ _ assms(5), of flate' reserve mz s] sound(3)
  obtain oc va where run: "execute_ready_archive h flate' reserve mz req ds graph ra s = (ExecDone oc (Some va), s)"
    "oc_axes oc = inspect_complete" "oc_verdict oc = compat_verdict inspect_complete" "oc_findings oc = []" "oc_archive_ir oc = Some (va_ir va)"
    "ir_members (va_ir va) = map2 (verified_member h ds) (ir_members (ra_ir ra)) (ra_payloads ra)"
    "oc_members oc = sort_key mv_path (map member_view_of (ir_members (va_ir va)))"
    "capability_sound (ah_crc32 h) (ah_sha256 h) va" unfolding ready_sound_def by auto
  then have "oc_verdict oc = Allowed False" "cli_exit_code oc = 0"
    by (simp_all add: cli_exit_code_def compat_verdict_def compat_exit_code_def inspect_complete_def)
  with run show ?thesis by blast
qed

definition no_materializer :: "unit materializer" where
  "no_materializer = \<lparr>mz_create = (\<lambda>_ s. (Inl [], s)), mz_enable_directory_sync = id, mz_persist_stage_retention = (\<lambda>_ s. (None, s)),
     mz_create_directory = (\<lambda>_ _ s. (None, s)), mz_create_file = (\<lambda>_ s. (Inr (\<lambda>_ _. True), s)), mz_torn = (\<lambda>_ _ s. s),
     mz_written = (\<lambda>_ _ s. s), mz_flush = (\<lambda>_ s. (True, s)), mz_sync_all = (\<lambda>_ s. (True, s)),
     mz_audit_against = (\<lambda>_ s. (None, s)), mz_commit = (\<lambda>s. (None, s)), mz_take_retention_discard_error = (\<lambda>s. (None, s)),
     mz_take_parent_directory_sync_error = (\<lambda>s. (None, s)), mz_abort = (\<lambda>s. (None, s))\<rparr>"

text \<open>The archive of a directory and a file, planned from memory.\<close>

definition example_source :: source_snapshot where
  "example_source = borrowed example_sha None (render_archive example_entries)"

definition example_hashes :: audit_hashes where
  "example_hashes = \<lparr>ah_crc32 = (\<lambda>_. 0), ah_sha256 = example_sha, ah_xxh64 = (\<lambda>_. 0)\<rparr>"

lemma example_source_ok: "readable (so_snapshot example_source)" "snapshot_bound (ah_sha256 example_hashes) example_source"
  "so_snapshot example_source = example_snapshot" "length (ah_sha256 example_hashes bs) = 32"
  using example_ok
  by (simp_all add: example_source_def example_hashes_def borrowed_def snapshot_bound_def example_sha_def memory_snapshot_def)

lemma example_source_planned:
  "\<exists>ra. planned_from example_hashes flate sp ascii_unicode example_plan_budget 2048 example_source (from_original example_source) [] ra \<and>
     map im_kind (ir_members (ra_ir ra)) = [MemberDirectory, MemberFile]"
proof -
  let ?d = "so_digest example_source" and ?sha = "ah_sha256 example_hashes"
  let ?a = "archive_of ?sha example_entries"
  have parsed: "parse_ustar_portable_v1 ?sha example_snapshot 2 2048 = Inr ?a" by (rule example_parse)
  obtain m m' where ms: "ta_members ?a = [m, m']" and m: "tm_name m = [100, 47]" "tm_size m = 0" "tm_is_dir m"
    "tm_name m' = [100, 47, 97]" "tm_size m' = 3" "\<not> tm_is_dir m'"
    by (simp add: archive_of_def example_entries_def member_of_def Let_def from_utf8_ascii)
  note planned = example_planned [where mname = tm_name and msize = tm_size and mdir = tm_is_dir, OF m, folded ms]
  have "ustar_bound PlanRaw example_snapshot ?d ?d" by (simp add: ustar_bound_def)
  from ustar_plan_audited [OF _ example_ok this parsed plan_clean(1) [OF planned(1)]] planned
  have "plan_tar_domains ?sha ascii_unicode example_plan_budget 2048 0 example_snapshot ?d ?d PlanRaw =
      Ready (ustar_ready ascii_unicode example_plan_budget ?d PlanRaw ?a)"
    unfolding plan_tar_domains_def Let_def planner_stages_ready [OF refl]
    by (auto simp: parsed derived_ratio_stop_def ustar_derived_charge_def)
  moreover have "map im_kind (ir_members (ra_ir (ustar_ready ascii_unicode example_plan_budget ?d PlanRaw ?a))) = [MemberDirectory, MemberFile]"
    by (simp add: ready_of_def ustar_archive_ir_def planned(2) from_tar_planned_for_format_def kind_of_def m Let_def)
  ultimately show ?thesis
    by (intro exI [of _ "ustar_ready ascii_unicode example_plan_budget ?d PlanRaw ?a"]) (auto simp: planned_from_def example_source_ok(3))
qed

definition inspect_request :: exec_request where
  "inspect_request = \<lparr>xr_dest = False, xr_atomic = True, xr_stage_retention_path = None, xr_retention_plan = None,
     xr_member_sync = False, xr_directory_sync = False\<rparr>"

theorem planned_archives_inspect_witness:
  "\<exists>(ra :: ready_archive) oc va. map im_kind (ir_members (ra_ir ra)) = [MemberDirectory, MemberFile] \<and>
    execute_ready_archive example_hashes example_tgz_flate (\<lambda>_. True) no_materializer inspect_request
      (from_original example_source) [] ra () = (ExecDone oc (Some va), ()) \<and>
    cli_exit_code oc = 0 \<and> capability_sound (ah_crc32 example_hashes) (ah_sha256 example_hashes) va"
proof -
  obtain ra where ra: "planned_from example_hashes example_tgz_flate example_spool ascii_unicode example_plan_budget 2048 example_source
      (from_original example_source) [] ra" "map im_kind (ir_members (ra_ir ra)) = [MemberDirectory, MemberFile]"
    using example_source_planned [of example_tgz_flate example_spool] by (elim exE conjE)
  have "\<not> xr_dest inspect_request" by (simp add: inspect_request_def)
  from planned_archives_inspect [OF ra(1) example_source_ok(1,2,4) this, of example_tgz_flate "\<lambda>_. True" no_materializer "()"]
  obtain oc va where "execute_ready_archive example_hashes example_tgz_flate (\<lambda>_. True) no_materializer inspect_request
      (from_original example_source) [] ra () = (ExecDone oc (Some va), ())"
    "cli_exit_code oc = 0" "capability_sound (ah_crc32 example_hashes) (ah_sha256 example_hashes) va" by (elim exE conjE)
  with ra(2) show ?thesis by (intro exI conjI)
qed

subsection \<open>What execution does to the file system\<close>

text \<open>Without a stage the members leave the file system alone.\<close>

lemma execute_members_unstaged:
  "(case execute_members h flate reserve mz False sync b ds i plans st of
      Inl (f, st') \<Rightarrow> ex_world st' | Inr st' \<Rightarrow> ex_world st') = ex_world st"
proof (induction plans arbitrary: i st)
  case (Cons plan plans)
  have step: "(case execute_member h flate reserve mz False sync b ds i plan st of
      Inl (f, st') \<Rightarrow> ex_world st' | Inr st' \<Rightarrow> ex_world st') = ex_world st"
    by (auto simp: execute_member_def execute_directory_def execute_file_def process_member_def member_fails_def set_member_def
        add_view_def Let_def split: sum.split prod.split quota_error.split)
  show ?case
  proof (cases "execute_member h flate reserve mz False sync b ds i plan st")
    case (Inl e)
    with step show ?thesis by (simp add: and_then_def split: prod.splits)
  next
    case (Inr st')
    with step Cons.IH [of "Suc i" st'] show ?thesis by (simp add: and_then_def)
  qed
qed simp

text \<open>How a state of the file system can be left: untouched, by a set-up that failed, or by an abort.\<close>

definition left_clean :: "'s materializer \<Rightarrow> bool \<Rightarrow> 's \<Rightarrow> 's \<Rightarrow> bool" where
  "left_clean mz atomic s s' \<longleftrightarrow>
     s' = s \<or> (\<exists>fs. mz_create mz atomic s = (Inl fs, s')) \<or> (\<exists>fs s1. s' = snd (abort_and_report mz True fs s1))"

definition published :: "'s materializer \<Rightarrow> archive_ir \<Rightarrow> 's \<Rightarrow> bool" where
  "published mz ir s' \<longleftrightarrow>
     (\<exists>s1 s2 s3. mz_audit_against mz ir s1 = (None, s2) \<and> mz_commit mz s2 = (None, s3) \<and>
        s' = snd (mz_take_parent_directory_sync_error mz (snd (mz_take_retention_discard_error mz s3))))"

lemma publish_cases:
  assumes "publish mz staged ir fs s = (r, s')"
  shows "(\<not> staged \<and> r = Inr fs \<and> s' = s) \<or> (staged \<and> (\<exists>fs'. r = Inl fs') \<and> (\<exists>fs s1. s' = snd (abort_and_report mz True fs s1))) \<or>
    (staged \<and> (\<exists>fs'. r = Inr fs') \<and> published mz ir s')"
  using assms unfolding publish_def published_def
  by (auto simp: Let_def split: if_splits prod.splits option.splits) (metis snd_conv)+

lemma done_with_sel:
  assumes "done_with ra fs vs axes_of ir va = ExecDone oc va'"
  shows "va' = va \<and> (\<exists>why. first_error fs = Some why \<and> oc_axes oc = axes_of why \<and> oc_verdict oc = compat_verdict (axes_of why) \<and>
    (oc_wrote oc \<longleftrightarrow> compat_verdict (axes_of why) = Allowed True)) \<and> oc_archive_ir oc = Some ir \<and> oc_findings oc = fs"
  using assms by (auto simp: done_with_def Let_def split: option.splits if_splits)

text \<open>The effect an outcome reports is the one that happened.\<close>

definition effect_truthful ::
  "'s materializer \<Rightarrow> bool \<Rightarrow> bool \<Rightarrow> 's \<Rightarrow> outcome \<Rightarrow> verified_archive option \<Rightarrow> 's \<Rightarrow> bool"
where
  "effect_truthful mz dest atomic s oc va s' \<longleftrightarrow>
     (\<not> dest \<longrightarrow> s' = s \<and> ax_effect (oc_axes oc) = NotRequested) \<and>
     (if oc_wrote oc
      then dest \<and> (\<exists>ir. oc_archive_ir oc = Some ir \<and> published mz ir s' \<and> (\<forall>m \<in> set (ir_members ir). im_verification m = Verified))
      else left_clean mz atomic s s') \<and>
     (va \<noteq> None \<longleftrightarrow> ax_verification (oc_axes oc) = CompleteVerification)"

lemma abort_unstaged [simp]: "abort_and_report mz False fs s = (fs, s)"
  by (simp add: abort_and_report_def)

lemma abort_left_clean:
  assumes "abort_and_report mz staged fs s1 = (fs', s')" "\<not> staged \<longrightarrow> s1 = s"
  shows "left_clean mz atomic s s'" "\<not> staged \<longrightarrow> s' = s"
proof -
  show "\<not> staged \<longrightarrow> s' = s" using assms by auto
  show "left_clean mz atomic s s'"
  proof (cases staged)
    case True
    with assms(1) have "s' = snd (abort_and_report mz True fs s1)" by simp
    then show ?thesis unfolding left_clean_def by blast
  qed (use assms in \<open>simp add: left_clean_def\<close>)
qed

lemma partial_not_wrote [simp]:
  "compat_verdict (admitted_setup_failed f) = Rejected" "compat_verdict (admitted_publication_failed f) = Rejected"
  "compat_verdict (admitted_verification_stop v p f w) = Rejected" "compat_verdict (authority_axes n w f) = Rejected"
  "compat_verdict (structure_stop i a f) = Rejected"
  "compat_verdict materialize_committed = Allowed True" "compat_verdict inspect_complete = Allowed False"
  by (simp_all add: compat_verdict_def admitted_setup_failed_def admitted_publication_failed_def admitted_verification_stop_def
      authority_axes_def structure_stop_def materialize_committed_def inspect_complete_def Let_def
      split: admission_status.split prod.split)

lemma verification_axes [simp]:
  "ax_verification (admitted_setup_failed f) = StructureOnly" "ax_verification (admitted_publication_failed f) = CompleteVerification"
  "ax_verification (admitted_verification_stop v p f w) = PartialVerification v p"
  "ax_verification (authority_axes n w f) = PartialVerification n 0"
  "ax_verification materialize_committed = CompleteVerification" "ax_verification inspect_complete = CompleteVerification"
  "ax_effect (admitted_verification_stop v p f w) = (if w then FailedEffect else NotRequested)"
  "ax_effect (authority_axes n w f) = (if w then FailedEffect else NotRequested)" "ax_effect inspect_complete = NotRequested"
  by (simp_all add: admitted_setup_failed_def admitted_publication_failed_def admitted_verification_stop_def authority_axes_def
      materialize_committed_def inspect_complete_def Let_def split: prod.split)

lemma set_up_cases:
  assumes "set_up_stage mz req fs s = (r, s1)"
  shows "(xr_dest req \<and> (\<exists>fs'. r = Inl fs') \<and> left_clean mz (xr_atomic req) s s1) \<or>
    (\<exists>staged. r = Inr staged \<and> (staged \<longleftrightarrow> xr_dest req) \<and> (\<not> staged \<longrightarrow> s1 = s))"
  using assms unfolding set_up_stage_def left_clean_def
  by (auto simp: Let_def split: if_splits prod.splits option.splits sum.splits) (metis snd_conv)+

lemma execute_verified_truthful:
  assumes "execute_verified mz staged ds ra st = (ExecDone oc va, s')" "\<not> staged \<longrightarrow> ex_world st = s"
  shows "effect_truthful mz staged atomic s oc va s'"
proof (cases "validate_verified_archive_authority ((ra_ir ra)\<lparr>ir_members := ex_members st\<rparr>)")
  case (Inl f)
  obtain fs s2 where a: "abort_and_report mz staged (ra_findings ra @ [f]) (ex_world st) = (fs, s2)" by fastforce
  with abort_left_clean [OF a assms(2)] Inl assms(1) show ?thesis
    by (auto simp: execute_verified_def effect_truthful_def Let_def)
next
  case (Inr x)
  then have verified: "\<forall>m \<in> set (ex_members st). im_verification m = Verified"
    by (auto simp: validate_verified_archive_authority_def list_ex_iff split: if_splits)
  let ?ir = "(ra_ir ra)\<lparr>ir_members := ex_members st\<rparr>"
  obtain r s2 where p: "publish mz staged ?ir (ra_findings ra) (ex_world st) = (r, s2)" by fastforce
  from publish_cases [OF this] show ?thesis
  proof (elim disjE conjE exE)
    fix fs fs1 s1
    assume "staged" "r = Inl fs" "s2 = snd (abort_and_report mz True fs1 s1)"
    with p assms(1) Inr show ?thesis
      by (auto simp: execute_verified_def Let_def effect_truthful_def left_clean_def dest: done_with_sel)
  qed (use p assms Inr verified in \<open>auto simp: execute_verified_def Let_def effect_truthful_def left_clean_def\<close>)
qed

lemma execution_truthful:
  assumes "execute_ready_archive h flate reserve mz req ds graph ra s = (ExecDone oc va, s')"
  shows "effect_truthful mz (xr_dest req) (xr_atomic req) s oc va s'"
proof (cases "and_then (validate_ready_source_identity ds (ra_ir ra) (ra_source_digest ra)) (\<lambda>_.
    validate_ready_archive h ds graph (ra_ir ra) (ra_payloads ra))")
  case (Inl f)
  with assms show ?thesis by (auto simp: execute_ready_archive_def effect_truthful_def left_clean_def Let_def split: if_splits)
next
  case (Inr x)
  obtain r s1 where set_up: "set_up_stage mz req (ra_findings ra) s = (r, s1)" by fastforce
  from set_up_cases [OF this] show ?thesis
  proof (elim disjE conjE exE)
    fix fs
    assume "xr_dest req" "r = Inl fs" "left_clean mz (xr_atomic req) s s1"
    with set_up assms Inr show ?thesis by (auto simp: execute_ready_archive_def Let_def effect_truthful_def dest: done_with_sel)
  next
    fix staged
    assume st: "r = Inr staged" "staged \<longleftrightarrow> xr_dest req" "\<not> staged \<longrightarrow> s1 = s"
    define start where "start = \<lparr>ex_members = ir_members (ra_ir ra), ex_views = [], ex_total = quota_new (max_total_bytes (ra_budget ra)),
      ex_retention = retention_plan_build (xr_retention_plan req) (ra_ir ra), ex_world = s1\<rparr>"
    define run where "run = execute_members h flate reserve mz staged (xr_member_sync req) (ra_budget ra) ds 0 (ra_payloads ra) start"
    have world: "\<not> staged \<longrightarrow> (case run of Inl (f, st') \<Rightarrow> ex_world st' | Inr st' \<Rightarrow> ex_world st') = s"
      using st(3) execute_members_unstaged [of h flate reserve mz "xr_member_sync req" "ra_budget ra" ds 0 "ra_payloads ra" start]
      by (auto simp: run_def start_def)
    show ?thesis
    proof (cases run)
      case (Inr st')
      with assms set_up st \<open>and_then _ _ = Inr x\<close> have "execute_verified mz staged ds ra st' = (ExecDone oc va, s')"
        by (simp add: execute_ready_archive_def Let_def run_def start_def)
      with world Inr st(2) show ?thesis using execute_verified_truthful [of mz staged ds ra st' oc va s' s] by simp
    next
      case (Inl e)
      obtain f st' where e: "e = (f, st')" by fastforce
      obtain fs s2 where a: "abort_and_report mz staged (ra_findings ra @ [f]) (ex_world st') = (fs, s2)" by fastforce
      have "\<not> staged \<longrightarrow> ex_world st' = s" using world Inl e by simp
      with abort_left_clean [OF a this] a assms set_up st \<open>and_then _ _ = Inr x\<close> Inl e show ?thesis
        by (auto simp: execute_ready_archive_def Let_def run_def start_def effect_truthful_def dest!: done_with_sel)
    qed
  qed
qed

text \<open>C6. The reported effect is the effect. Whatever the materializer does, inspection without a
  destination never calls it and reports no effect; an outcome says that it wrote only after every
  member of its interpretation was verified, the stage was audited against that interpretation and
  the commit succeeded; otherwise the file system is as it was, or as a failed set-up or an abort
  left it. And a capability is handed out exactly with complete verification.\<close>

theorem execution_effects:
  assumes "execute_ready_archive h flate reserve mz req ds graph ra s = (ExecDone oc va, s')"
  shows "(\<not> xr_dest req \<longrightarrow> s' = s \<and> ax_effect (oc_axes oc) = NotRequested) \<and>
    (if oc_wrote oc
     then xr_dest req \<and> (\<exists>ir. oc_archive_ir oc = Some ir \<and> published mz ir s' \<and> (\<forall>m \<in> set (ir_members ir). im_verification m = Verified))
     else left_clean mz (xr_atomic req) s s') \<and>
    (va \<noteq> None \<longleftrightarrow> ax_verification (oc_axes oc) = CompleteVerification)"
  using execution_truthful [OF assms] by (simp add: effect_truthful_def)

theorem execution_effects_witness:
  "\<exists>(ra :: ready_archive) oc va. execute_ready_archive example_hashes example_tgz_flate (\<lambda>_. True) no_materializer inspect_request
     (from_original example_source) [] ra () = (ExecDone oc va, ()) \<and> ax_effect (oc_axes oc) = NotRequested"
proof -
  obtain ra where ra: "planned_from example_hashes example_tgz_flate example_spool ascii_unicode example_plan_budget 2048 example_source
      (from_original example_source) [] ra" using example_source_planned [of example_tgz_flate example_spool] by (elim exE conjE)
  have dest: "\<not> xr_dest inspect_request" by (simp add: inspect_request_def)
  note sound = planned_from_sound [OF ra example_source_ok(1,2,4)]
  from inspection_succeeds [OF sound(1,2) _ _ _ dest, of example_tgz_flate "\<lambda>_. True" no_materializer "()"] sound(3)
  obtain oc va where run: "execute_ready_archive example_hashes example_tgz_flate (\<lambda>_. True) no_materializer inspect_request
     (from_original example_source) [] ra () = (ExecDone oc (Some va), ())" unfolding ready_sound_def by auto
  from execution_effects [OF run] dest have "ax_effect (oc_axes oc) = NotRequested" by simp
  with run show ?thesis by (intro exI conjI)
qed

end
