(* ===== verification/Drive.thy ===== *)
theory Drive
  imports Execute
begin

text \<open>
  The operations of \<open>crates/sealr/src/apply.rs\<close> for the raw TAR dialects and for gzip: compile the policy for
  the format, acquire the source, plan, and execute what is ready. The platform is one record: the hash
  packages, the inflater, private files, opened files, the Unicode tables, memory reservation and the
  materializer are parameters. The operations of the other formats are not modelled.
\<close>

subsection \<open>Requests and sources\<close>

datatype 'f source = PathSource "string option" "'f option" | BytesSource "string option" bytes

record 'f request =
  rq_source :: "'f source"
  rq_policy :: policy
  rq_dest :: bool
  rq_stage_retention_path :: "string option"
  rq_retention_plan :: "retention_plan option"

record ('d, 'f, 's) platform =
  pf_hashes :: audit_hashes
  pf_inflater :: "'d inflater"
  pf_spool :: spool
  pf_files :: "'f opened_file"
  pf_unicode :: unicode
  pf_reserve :: "nat \<Rightarrow> bool"
  pf_materializer :: "'s materializer"

record source_failure_record =
  sf_digest :: source_digest
  sf_finding :: finding

definition read_source ::
  "(bytes \<Rightarrow> bytes) \<Rightarrow> spool \<Rightarrow> 'f opened_file \<Rightarrow> 'f source \<Rightarrow> resource_budget \<Rightarrow> source_failure_record + source_snapshot"
where
  "read_source sha sp ops src budget =
     (case src of
        PathSource path opened \<Rightarrow>
          map_err (\<lambda>f. \<lparr>sf_digest = Unavailable, sf_finding = f\<rparr>)
            (private_file_from_path sha sp ops path (unat (max_archive_bytes budget)) opened)
      | BytesSource path data \<Rightarrow>
          if length data > unat (max_archive_bytes budget)
          then Inl \<lparr>sf_digest = Available (hex_sha256 sha data), sf_finding = finding_error QuotaArchive\<rparr>
          else Inr (borrowed sha path data))"

definition reject_only :: "source_digest \<Rightarrow> finding list \<Rightarrow> semantic_axes \<Rightarrow> outcome" where
  "reject_only digest findings axes = finish digest ''unknown'' findings [] axes"

definition source_failure_outcome :: "source_failure_record \<Rightarrow> outcome" where
  "source_failure_outcome failure =
     (let admission = (if code (sf_finding failure) = QuotaArchive then Denied else NotEvaluated)
      in reject_only (sf_digest failure) [sf_finding failure] (source_failure (sf_finding failure) admission))"

text \<open>The beginning every operation shares.\<close>

definition with_source ::
  "('d, 'f, 's) platform \<Rightarrow> 'f request \<Rightarrow> string \<Rightarrow> 's \<Rightarrow> (compiled_controls \<Rightarrow> source_snapshot \<Rightarrow> exec_result \<times> 's) \<Rightarrow>
     exec_result \<times> 's"
where
  "with_source pf req format s k =
     (case compile_for_format (rq_policy req) format of
        Inl f \<Rightarrow> (ExecDone (reject_only Unavailable [f] (policy_compile_failed f)) None, s)
      | Inr controls \<Rightarrow>
          (case read_source (ah_sha256 (pf_hashes pf)) (pf_spool pf) (pf_files pf) (rq_source req) (cc_budget controls) of
             Inl failure \<Rightarrow> (ExecDone (source_failure_outcome failure) None, s)
           | Inr src \<Rightarrow> k controls src))"

definition request_of :: "'f request \<Rightarrow> compiled_controls \<Rightarrow> exec_request" where
  "request_of req controls =
     \<lparr>xr_dest = rq_dest req, xr_atomic = po_atomic (rq_policy req), xr_stage_retention_path = rq_stage_retention_path req,
      xr_retention_plan = rq_retention_plan req, xr_member_sync = member_sync (cc_effect controls),
      xr_directory_sync = directory_sync (cc_effect controls)\<rparr>"

text \<open>The end of every planner: what is ready is executed.\<close>

definition finish_plan ::
  "('d, 'f, 's) platform \<Rightarrow> 'f request \<Rightarrow> compiled_controls \<Rightarrow> snapshot_set \<Rightarrow> transform_graph \<Rightarrow> plan_result \<Rightarrow> 's \<Rightarrow>
     exec_result \<times> 's"
where
  "finish_plan pf req controls ds graph plan s =
     (case plan of
        Stopped oc \<Rightarrow> (ExecDone oc None, s)
      | Panicked \<Rightarrow> (ExecPanicked, s)
      | Ready ra \<Rightarrow>
          execute_ready_archive (pf_hashes pf) (pf_inflater pf) (pf_reserve pf) (pf_materializer pf) (request_of req controls)
            ds graph ra s)"

subsection \<open>The raw dialects\<close>

definition apply_tar_with_options :: "('d, 'f, 's) platform \<Rightarrow> 'f request \<Rightarrow> 's \<Rightarrow> exec_result \<times> 's" where
  "apply_tar_with_options pf req s =
     with_source pf req POLICY_FORMAT_TAR_USTAR s (\<lambda>controls src.
     let budget = cc_budget controls
     in finish_plan pf req controls (from_original src) []
          (plan_tar_domains (ah_sha256 (pf_hashes pf)) (pf_unicode pf) budget (unat (max_metadata_bytes budget)) (so_len src)
             (so_snapshot src) (so_digest src) (so_digest src) PlanRaw) s)"

definition apply_tar_pax_with_options :: "('d, 'f, 's) platform \<Rightarrow> 'f request \<Rightarrow> 's \<Rightarrow> exec_result \<times> 's" where
  "apply_tar_pax_with_options pf req s =
     with_source pf req POLICY_FORMAT_TAR_PAX s (\<lambda>controls src.
     let budget = cc_budget controls
     in finish_plan pf req controls (from_original src) []
          (plan_tar_pax (ah_sha256 (pf_hashes pf)) (pf_unicode pf) budget (unat (max_metadata_bytes budget))
             (so_snapshot src) (so_digest src) (so_digest src) PaxRaw) s)"

definition apply_tar_gnu_longname_with_options :: "('d, 'f, 's) platform \<Rightarrow> 'f request \<Rightarrow> 's \<Rightarrow> exec_result \<times> 's" where
  "apply_tar_gnu_longname_with_options pf req s =
     with_source pf req POLICY_FORMAT_TAR_GNU_LONGNAME s (\<lambda>controls src.
     let budget = cc_budget controls
     in finish_plan pf req controls (from_original src) []
          (plan_tar_gnu_longname (ah_sha256 (pf_hashes pf)) (pf_unicode pf) budget (unat (max_metadata_bytes budget))
             (so_snapshot src) (so_digest src) (so_digest src) GnuRaw) s)"

subsection \<open>Gzip\<close>

datatype tar_gzip_profile = GzipUstarProfile | GzipPaxProfile | GzipGnuProfile

definition gzip_policy_format :: "tar_gzip_profile \<Rightarrow> string" where
  "gzip_policy_format profile =
     (case profile of GzipUstarProfile \<Rightarrow> POLICY_FORMAT_TAR_GZIP_USTAR | GzipPaxProfile \<Rightarrow> POLICY_FORMAT_TAR_GZIP_PAX
      | GzipGnuProfile \<Rightarrow> POLICY_FORMAT_TAR_GZIP_GNU_LONGNAME)"

definition observed_gzip_magic :: "snapshot \<Rightarrow> string" where
  "observed_gzip_magic sn =
     (if snapshot_len sn < 2 then ''unknown''
      else case read_exact_at sn 0 2 of
             Inr magic \<Rightarrow> if magic = [0x1F, 0x8B] then ''gz'' else ''unknown''
           | Inl _ \<Rightarrow> ''unknown'')"

definition gzip_failure_axes :: "gzip_error \<Rightarrow> semantic_axes" where
  "gzip_failure_axes e =
     (let (i, a) =
        (case gze_kind e of
           GzSource \<Rightarrow> (Indeterminate, NotEvaluated)
         | GzCompressionMethod \<Rightarrow> (Unsupported, NotEvaluated)
         | GzReservedFlags \<Rightarrow> (Unsupported, NotEvaluated)
         | GzConcatenatedMember \<Rightarrow> (Unsupported, NotEvaluated)
         | GzHeaderLimit \<Rightarrow> (Interpreted, Denied)
         | GzOutputLimit \<Rightarrow> (Interpreted, Denied)
         | GzTransformAuthority \<Rightarrow> (Indeterminate, NotEvaluated)
         | _ \<Rightarrow> (Malformed, NotEvaluated))
      in structure_stop i a (gze_finding e))"

text \<open>A stop with one finding before planning.\<close>

definition gzip_stop :: "source_digest \<Rightarrow> string \<Rightarrow> finding \<Rightarrow> semantic_axes \<Rightarrow> 's \<Rightarrow> exec_result \<times> 's" where
  "gzip_stop digest magic f axes s = (ExecDone (finish digest magic [f] [] axes) None, s)"

text \<open>The planner of a profile over the derived bytes.\<close>

definition plan_gzip ::
  "('d, 'f, 's) platform \<Rightarrow> resource_budget \<Rightarrow> tar_gzip_profile \<Rightarrow> source_snapshot \<Rightarrow> source_snapshot \<Rightarrow>
     gzip_wrapper_evidence \<Rightarrow> nat \<Rightarrow> plan_result"
where
  "plan_gzip pf budget profile src derived w tar_metadata_budget =
     (case profile of
        GzipUstarProfile \<Rightarrow>
          plan_tar_domains (ah_sha256 (pf_hashes pf)) (pf_unicode pf) budget tar_metadata_budget (so_len src)
            (so_snapshot derived) (so_digest derived) (so_digest src) (PlanGzip w)
      | GzipPaxProfile \<Rightarrow>
          plan_tar_pax (ah_sha256 (pf_hashes pf)) (pf_unicode pf) budget tar_metadata_budget
            (so_snapshot derived) (so_digest derived) (so_digest src) (PaxGzip w)
      | GzipGnuProfile \<Rightarrow>
          plan_tar_gnu_longname (ah_sha256 (pf_hashes pf)) (pf_unicode pf) budget tar_metadata_budget
            (so_snapshot derived) (so_digest derived) (so_digest src) (GnuGzip w))"

text \<open>The \<open>expect\<close> of the digest and that of the metadata budget are the two panics.\<close>

definition apply_gzip_wrapped ::
  "('d, 'f, 's) platform \<Rightarrow> 'f request \<Rightarrow> tar_gzip_profile \<Rightarrow> compiled_controls \<Rightarrow> source_snapshot \<Rightarrow>
     decoded_gzip_member \<Rightarrow> snapshot_set \<Rightarrow> transform_graph \<Rightarrow> 's \<Rightarrow> exec_result \<times> 's"
where
  "apply_gzip_wrapped pf req profile controls src d ds graph s =
     (case digest_sha256 (so_digest (dg_output d)) of
        None \<Rightarrow> (ExecPanicked, s)
      | Some output_sha256 \<Rightarrow>
          let budget = cc_budget controls; w = gzip_wrapper_of d output_sha256
          in case audit_gzip_wrapper_covering (ah_crc32 (pf_hashes pf)) (so_snapshot src) w of
               Inl f \<Rightarrow> gzip_stop (so_digest src) ''gz'' f (structure_stop Indeterminate NotEvaluated f) s
             | Inr _ \<Rightarrow>
                 (case checked_add_u64 (rlen (gz_header w)) (rlen (gz_trailer w)) of
                    None \<Rightarrow>
                      let f = finding_error QuotaOverflow
                      in gzip_stop (so_digest src) ''gz'' f (structure_stop Interpreted Denied f) s
                  | Some wrapper_metadata \<Rightarrow>
                      if unat (max_metadata_bytes budget) < wrapper_metadata then (ExecPanicked, s)
                      else finish_plan pf req controls ds graph
                        (plan_gzip pf budget profile src (dg_output d) w (unat (max_metadata_bytes budget) - wrapper_metadata)) s))"

definition apply_tar_gzip_with_options ::
  "('d, 'f, 's) platform \<Rightarrow> 'f request \<Rightarrow> tar_gzip_profile \<Rightarrow> 's \<Rightarrow> exec_result \<times> 's"
where
  "apply_tar_gzip_with_options pf req profile s =
     with_source pf req (gzip_policy_format profile) s (\<lambda>controls src.
     let budget = cc_budget controls; h = pf_hashes pf
     in case transform_single_member (ah_crc32 h) (ah_sha256 h) (pf_inflater pf) (pf_spool pf) (from_original src) []
          \<lparr>gl_max_metadata_bytes = unat (max_metadata_bytes budget),
           gl_max_output_bytes = unat (max_derived_archive_bytes budget)\<rparr> of
          Inl e \<Rightarrow>
            gzip_stop (so_digest src) (observed_gzip_magic (so_snapshot src)) (hint_format_finding (gze_finding e) (so_snapshot src))
              (gzip_failure_axes e) s
        | Inr (d, domain, ds, graph) \<Rightarrow>
            if domain \<noteq> FIRST_DERIVED
            then let f = finding_error CoveringInconsistent
                 in gzip_stop (so_digest src) ''gz'' f (structure_stop Indeterminate NotEvaluated f) s
            else apply_gzip_wrapped pf req profile controls src d ds graph s)"

text \<open>The selections modelled, dispatched.\<close>

datatype tar_selection = SelectUstar | SelectGzip tar_gzip_profile | SelectPax | SelectGnuLongName

definition apply_selected :: "('d, 'f, 's) platform \<Rightarrow> 'f request \<Rightarrow> tar_selection \<Rightarrow> 's \<Rightarrow> exec_result \<times> 's" where
  "apply_selected pf req selection s =
     (case selection of
        SelectUstar \<Rightarrow> apply_tar_with_options pf req s
      | SelectGzip profile \<Rightarrow> apply_tar_gzip_with_options pf req profile s
      | SelectPax \<Rightarrow> apply_tar_pax_with_options pf req s
      | SelectGnuLongName \<Rightarrow> apply_tar_gnu_longname_with_options pf req s)"

subsection \<open>Findings of the execution are errors\<close>

lemma range_read_fails [fails]: "fails_error (fst (range_read r n))"
  using read_exact_at_fails [of "rr_snapshot r" "rr_offset r" "min (rr_remaining r) n"]
  by (auto simp: range_read_def fails_error_def Let_def split: sum.split prod.split)

lemma verify_consume_fails [fails]: "fails_error (verify_consume plan b rem w chunk st)"
  by (auto simp: verify_consume_def fails split: prod.split sum.split)

lemma verify_raw_loop_fails [fails]: "fails_error (verify_raw_loop plan b rem w r st)"
proof (induction plan b rem w r st rule: verify_raw_loop.induct)
  case (1 plan b rem w r st)
  show ?case
    using 1 range_read_fails [of r PAYLOAD_BUFFER_BYTES] verify_consume_fails
    by (subst verify_raw_loop.simps) (auto simp: fails_error_def split: prod.splits sum.splits)
qed

lemma fill_buf_fails [fails]: "fails_error (fill_buf cap dd)"
  using range_read_fails [of "dd_input dd" cap] by (auto simp: fill_buf_def fails_error_def split: prod.split sum.split)

lemma deflate_loop_source_error:
  "fst (deflate_loop flate cap room dd) = Inl (DeflateSource f) \<Longrightarrow> severity f = Error"
proof (induction flate cap room dd rule: deflate_loop.induct)
  case (1 flate cap room dd)
  from 1(2) 1(1) fill_buf_fails [of cap dd] show ?case
    by (subst (asm) deflate_loop.simps) (auto simp: fails_error_def Let_def split: sum.splits option.splits if_splits)
qed

lemma deflate_read_source_error:
  "deflate_read flate cap room dd = (Inl (DeflateSource f), dd') \<Longrightarrow> severity f = Error"
  using deflate_loop_source_error [of flate cap room dd f] by (auto simp: deflate_read_def split: if_splits)

lemma verify_deflate_loop_fails [fails]: "fails_error (verify_deflate_loop flate plan b rem w dd st)"
proof (induction flate plan b rem w dd st rule: verify_deflate_loop.induct)
  case (1 flate plan b rem w dd st)
  show ?case
    using 1 deflate_read_source_error [of flate PAYLOAD_BUFFER_BYTES PAYLOAD_BUFFER_BYTES dd] verify_consume_fails [of plan b rem w _ st]
    by (subst verify_deflate_loop.simps) (auto simp: fails_error_def fails split: prod.splits sum.splits deflate_error.splits)
qed

lemma verify_payload_into_fails [fails]: "fails_error (verify_payload_into crc sha flate r plan b rem w)"
  unfolding verify_payload_into_def verify_deflate_def
  by (auto simp: fails Let_def split: payload_codec.split payload_integrity.split prod.split)

lemma planned_payload_reader_fails [fails]: "fails_error (planned_payload_reader ds plan name)"
  by (simp add: planned_payload_reader_def set_reader_def snapshot_reader_def fails)

lemma execute_members_fails:
  "execute_members h flate reserve mz False sync b ds i plans st = Inl (f, st') \<Longrightarrow> severity f = Error"
proof (induction plans arbitrary: i st)
  case (Cons plan plans)
  have "execute_member h flate reserve mz False sync b ds i plan st = Inl (f, st') \<Longrightarrow> severity f = Error"
    unfolding execute_member_def execute_directory_def execute_file_def process_member_def member_fails_def Let_def
    by (auto simp: fails split: if_splits sum.splits prod.splits quota_error.splits
        dest: planned_payload_reader_fails [unfolded fails_error_def, rule_format]
          verify_payload_into_fails [unfolded fails_error_def, rule_format])
  with Cons show ?case by (auto simp: and_then_def split: sum.splits)
qed simp

subsection \<open>Commands without a destination\<close>

text \<open>Inspection ends with a capability and exit code 0, or with neither.\<close>

definition inspected :: "exec_result \<Rightarrow> bool" where
  "inspected r \<longleftrightarrow> (\<exists>oc va. r = ExecDone oc va \<and> \<not> oc_wrote oc \<and>
     (if va = None then cli_exit_code oc = 2 \<and> oc_verdict oc = Rejected else cli_exit_code oc = 0 \<and> oc_verdict oc = Allowed False))"

lemma inspected_reject:
  assumes "compat_verdict (oc_axes oc) = Rejected" "oc_verdict oc = Rejected" "\<not> oc_wrote oc" "ax_effect (oc_axes oc) = NotRequested"
  shows "inspected (ExecDone oc None)"
  using assms
  by (auto simp: inspected_def cli_exit_code_def compat_exit_code_def compat_verdict_def
      split: admission_status.splits verification_status.splits)

lemma inspected_complete: "inspected (ExecDone (with_verified_archive (finish d g fs vs inspect_complete) ir) (Some va))"
  by (simp add: inspected_def cli_exit_code_def compat_exit_code_def inspect_complete_def compat_verdict_def)

lemma execute_inspected:
  assumes "\<not> xr_dest req" "ra_findings ra = []"
  shows "inspected (fst (execute_ready_archive h flate reserve mz req ds graph ra s)) \<and>
    snd (execute_ready_archive h flate reserve mz req ds graph ra s) = s"
proof (cases "and_then (validate_ready_source_identity ds (ra_ir ra) (ra_source_digest ra)) (\<lambda>_.
    validate_ready_archive h ds graph (ra_ir ra) (ra_payloads ra))")
  case (Inl f)
  then show ?thesis by (auto simp: execute_ready_archive_def Let_def intro!: inspected_reject)
next
  case (Inr x)
  define start where "start = \<lparr>ex_members = ir_members (ra_ir ra), ex_views = [], ex_total = quota_new (max_total_bytes (ra_budget ra)),
    ex_retention = retention_plan_build (xr_retention_plan req) (ra_ir ra), ex_world = s\<rparr>"
  define run where "run = execute_members h flate reserve mz False (xr_member_sync req) (ra_budget ra) ds 0 (ra_payloads ra) start"
  have world: "(case run of Inl (f, st') \<Rightarrow> ex_world st' | Inr st' \<Rightarrow> ex_world st') = s"
    unfolding run_def execute_members_unstaged by (simp add: start_def)
  show ?thesis
  proof (cases run)
    case (Inl e)
    obtain f st' where e: "e = (f, st')" by fastforce
    then have "severity f = Error" using Inl execute_members_fails unfolding run_def by metis
    then have "first_error [f] = Some f" by (simp add: first_error_def)
    with Inl \<open>and_then _ _ = Inr x\<close> e world assms show ?thesis
      by (auto simp: execute_ready_archive_def set_up_stage_def Let_def run_def start_def done_with_def intro!: inspected_reject)
  next
    case (Inr st')
    then have "execute_ready_archive h flate reserve mz req ds graph ra s = execute_verified mz False ds ra st'"
      using \<open>and_then _ _ = Inr x\<close> assms by (simp add: execute_ready_archive_def set_up_stage_def Let_def run_def start_def)
    with Inr world show ?thesis
      by (auto simp: execute_verified_def publish_def Let_def split: sum.split intro!: inspected_reject inspected_complete)
  qed
qed

lemma reject_only_inspected:
  "ax_effect axes = NotRequested \<Longrightarrow> compat_verdict axes = Rejected \<Longrightarrow> inspected (ExecDone (reject_only d fs axes) None)"
  by (intro inspected_reject) (simp_all add: reject_only_def)

lemma with_source_inspected:
  assumes "\<And>controls src. compile_for_format (rq_policy req) format = Inr controls \<Longrightarrow>
      inspected (fst (k controls src)) \<and> snd (k controls src) = s"
  shows "inspected (fst (with_source pf req format s k)) \<and> snd (with_source pf req format s k) = s"
  using assms
  by (auto simp: with_source_def source_failure_outcome_def Let_def source_failure_def policy_compile_failed_def compat_verdict_def
      intro!: reject_only_inspected split: sum.split)

lemma plan_ready_findings:
  "plan_tar_domains sha u b mb sl sn td d profile = Ready ra \<Longrightarrow> ra_findings ra = []"
  "plan_tar_pax sha u b mb sn td d pax = Ready ra \<Longrightarrow> ra_findings ra = []"
  "plan_tar_gnu_longname sha u b mb sn td d gnu = Ready ra \<Longrightarrow> ra_findings ra = []"
  unfolding plan_tar_domains_def plan_tar_pax_def plan_tar_gnu_longname_def Let_def planner_stages_ready [OF refl]
  by (auto simp: ready_of_def)

lemma finish_plan_inspected:
  assumes "\<not> rq_dest req" "plan_ok plan" "\<And>ra. plan = Ready ra \<Longrightarrow> ra_findings ra = []"
  shows "inspected (fst (finish_plan pf req controls ds graph plan s)) \<and> snd (finish_plan pf req controls ds graph plan s) = s"
proof (cases plan)
  case (Stopped oc)
  with assms(2) show ?thesis
    by (auto simp: finish_plan_def plan_ok_def stopped_def inspected_def rejected_def)
next
  case (Ready ra)
  with assms show ?thesis by (simp add: finish_plan_def execute_inspected request_of_def)
qed (use assms(2) in \<open>simp add: plan_ok_def\<close>)

lemma gzip_wrapped_inspected:
  assumes "\<not> rq_dest req" and d: "gzip_member_spec (ah_crc32 (pf_hashes pf)) (ah_sha256 (pf_hashes pf)) sn limits d"
    and "gl_max_metadata_bytes limits = unat (max_metadata_bytes (cc_budget controls))"
  shows "inspected (fst (apply_gzip_wrapped pf req profile controls src d ds graph s)) \<and>
    snd (apply_gzip_wrapped pf req profile controls src d ds graph s) = s"
proof -
  obtain digest where digest: "digest_sha256 (so_digest (dg_output d)) = Some digest"
    using d by (auto simp: gzip_member_spec_def snapshot_bound_def digest_sha256_def)
  let ?w = "gzip_wrapper_of d digest"
  have meta: "rlen (gz_header ?w) + rlen (gz_trailer ?w) \<le> unat (max_metadata_bytes (cc_budget controls))"
    using d assms(3) by (simp add: gzip_member_spec_def gzip_wrapper_of_def trailer_at_def Let_def)
  have added: "checked_add_u64 (rlen (gz_header ?w)) (rlen (gz_trailer ?w)) = Some (rlen (gz_header ?w) + rlen (gz_trailer ?w))"
    using order_trans [OF meta unat_le_u64_max] by (simp add: checked_add_u64_def)
  have "plan_ok (plan_gzip pf b profile src derived w mb)" for b derived w mb
    by (simp add: plan_gzip_def planner_ok split: tar_gzip_profile.split)
  moreover have "plan_gzip pf b profile src derived w mb = Ready ra \<Longrightarrow> ra_findings ra = []" for b derived w mb ra
    by (auto simp: plan_gzip_def split: tar_gzip_profile.splits dest: plan_ready_findings)
  ultimately have "inspected (fst (finish_plan pf req controls ds graph (plan_gzip pf b profile src derived w mb) s)) \<and>
      snd (finish_plan pf req controls ds graph (plan_gzip pf b profile src derived w mb) s) = s" for b derived w mb
    by (intro finish_plan_inspected [OF assms(1)])
  with meta show ?thesis
    unfolding apply_gzip_wrapped_def digest option.case Let_def added
    by (auto simp: gzip_stop_def intro!: inspected_reject split: sum.split)
qed

lemma gzip_failure_rejects: "compat_verdict (gzip_failure_axes e) = Rejected" "ax_effect (gzip_failure_axes e) = NotRequested"
  by (simp_all add: gzip_failure_axes_def split: prod.split)

text \<open>C4. Inspection is orderly for every command. Whatever the source, a path or bytes, the policy and the
  behaviour of the file system, the inflater and the hashes, a command for one of the TAR dialects, raw or
  behind gzip, that has no destination never panics and leaves the file system of the destination alone; it
  ends with exit code 0, the verdict that allows the archive and a capability, or with exit code 2, a
  rejection and no capability.\<close>

theorem commands_inspect_orderly:
  assumes "\<not> rq_dest req"
  shows "\<exists>oc va. apply_selected pf req selection s = (ExecDone oc va, s) \<and> \<not> oc_wrote oc \<and>
    (if va = None then cli_exit_code oc = 2 \<and> oc_verdict oc = Rejected else cli_exit_code oc = 0 \<and> oc_verdict oc = Allowed False)"
proof -
  have "inspected (fst (apply_selected pf req selection s)) \<and> snd (apply_selected pf req selection s) = s"
  proof (cases selection)
    case SelectUstar
    show ?thesis
      unfolding SelectUstar apply_selected_def apply_tar_with_options_def tar_selection.case Let_def
      by (intro with_source_inspected finish_plan_inspected [OF assms] planner_ok) (rule plan_ready_findings)
  next
    case SelectPax
    show ?thesis
      unfolding SelectPax apply_selected_def apply_tar_pax_with_options_def tar_selection.case Let_def
      by (intro with_source_inspected finish_plan_inspected [OF assms] planner_ok) (rule plan_ready_findings)
  next
    case SelectGnuLongName
    show ?thesis
      unfolding SelectGnuLongName apply_selected_def apply_tar_gnu_longname_with_options_def tar_selection.case Let_def
      by (intro with_source_inspected finish_plan_inspected [OF assms] planner_ok) (rule plan_ready_findings)
  next
    case (SelectGzip profile)
    show ?thesis
      unfolding SelectGzip apply_selected_def apply_tar_gzip_with_options_def tar_selection.case Let_def
      by (intro with_source_inspected)
        (auto simp: gzip_stop_def gzip_failure_rejects transform_single_member_def and_then_eq_Inr map_err_eq_Inr
          intro!: inspected_reject gzip_wrapped_inspected [OF assms, THEN conjunct1] gzip_wrapped_inspected [OF assms, THEN conjunct2]
          dest!: decode_single_member_ok split: sum.splits prod.splits)
  qed
  then show ?thesis unfolding inspected_def by (metis prod.collapse)
qed

subsection \<open>The ustar command on bytes\<close>

lemma ustar_raw_ready_iff:
  assumes "readable sn"
  shows "(\<exists>ra. plan_tar_domains sha u b mb sl sn d d PlanRaw = Ready ra) \<longleftrightarrow>
    (\<exists>a. ustar_spec sha sn (unat (max_files b)) mb a \<and> pl_findings (ustar_plan u b a) = [])"
proof -
  have bound: "ustar_bound PlanRaw sn d d" by (simp add: ustar_bound_def)
  have ok: "reads_ok sn" "snapshot_ok sn" using assms by simp_all
  have "audit_tar_covering sha sn d (ustar_archive_ir PlanRaw d (tar_covering_of a) (pl_planned (ustar_plan u b a))) = Inr ()"
    if "parse_ustar_portable_v1 sha sn mf mb = Inr a" "pl_findings (ustar_plan u b a) = []" for a mf
    by (rule ustar_plan_audited [OF ok bound that(1) plan_clean(1) [OF that(2)]])
  moreover have "derived_ratio_stop (ustar_derived_charge PlanRaw sl) c sn r g d = None" for c r g
    by (simp add: derived_ratio_stop_def ustar_derived_charge_def)
  moreover have "parse_ustar_portable_v1 sha sn mf mb = Inr a \<longleftrightarrow> ustar_spec sha sn mf mb a" for mf a
    using ustar_parse_spec ustar_spec_parse [OF ok] by blast
  ultimately show ?thesis
    unfolding plan_tar_domains_def Let_def planner_stages_ready [OF refl] by auto
qed

lemma inspect_complete_exit: "oc_axes oc = inspect_complete \<Longrightarrow> cli_exit_code oc = 0"
  by (simp add: cli_exit_code_def compat_exit_code_def inspect_complete_def)

text \<open>The archives the ustar command allows under a policy.\<close>

definition ustar_allowed :: "('d, 'f, 's) platform \<Rightarrow> policy \<Rightarrow> bytes \<Rightarrow> bool" where
  "ustar_allowed pf p data \<longleftrightarrow>
     (\<exists>controls a. compile_for_format p POLICY_FORMAT_TAR_USTAR = Inr controls \<and>
        length data \<le> unat (max_archive_bytes (cc_budget controls)) \<and>
        ustar_spec (ah_sha256 (pf_hashes pf)) (memory_snapshot data) (unat (max_files (cc_budget controls)))
          (unat (max_metadata_bytes (cc_budget controls))) a \<and>
        pl_findings (ustar_plan (pf_unicode pf) (cc_budget controls) a) = [])"

text \<open>C3. The ustar command decides the description. Given bytes and no destination, it ends with exit code 0
  exactly when the policy selects the format and the bytes, within its caps, have a description as a
  portable ustar archive whose members leave no finding; then no finding is reported and the capability's
  reads are sound. For all other bytes it ends with exit code 2 and without a capability.\<close>

theorem ustar_command_decides:
  assumes "rq_source req = BytesSource path data" "\<not> rq_dest req" "length data \<le> u64_max"
    and "\<And>bs. length (ah_sha256 (pf_hashes pf) bs) = 32"
  shows "if ustar_allowed pf (rq_policy req) data
    then \<exists>oc va. apply_tar_with_options pf req s = (ExecDone oc (Some va), s) \<and> cli_exit_code oc = 0 \<and> oc_findings oc = [] \<and>
      capability_sound (ah_crc32 (pf_hashes pf)) (ah_sha256 (pf_hashes pf)) va
    else \<exists>oc. apply_tar_with_options pf req s = (ExecDone oc None, s) \<and> cli_exit_code oc = 2"
proof -
  let ?sha = "ah_sha256 (pf_hashes pf)" and ?f = "POLICY_FORMAT_TAR_USTAR"
  define src where "src = borrowed ?sha path data"
  have src: "so_snapshot src = memory_snapshot data" "readable (memory_snapshot data)" "snapshot_bound ?sha src"
    using assms(3) by (simp_all add: src_def borrowed_def memory_snapshot_def snapshot_bound_def snapshot_ok_def)
  show ?thesis
  proof (cases "compile_for_format (rq_policy req) ?f")
    case (Inl f)
    then show ?thesis
      by (simp add: ustar_allowed_def apply_tar_with_options_def with_source_def reject_only_def cli_exit_code_def
          compat_exit_code_def policy_compile_failed_def)
  next
    case (Inr controls)
    let ?b = "cc_budget controls"
    let ?plan = "plan_tar_domains ?sha (pf_unicode pf) ?b (unat (max_metadata_bytes ?b)) (so_len src) (so_snapshot src)
      (so_digest src) (so_digest src) PlanRaw"
    show ?thesis
    proof (cases "length data \<le> unat (max_archive_bytes ?b)")
      case False
      with Inr assms(1) show ?thesis
        by (auto simp: ustar_allowed_def apply_tar_with_options_def with_source_def read_source_def source_failure_outcome_def
            reject_only_def cli_exit_code_def compat_exit_code_def source_failure_def Let_def)
    next
      case True
      have run: "apply_tar_with_options pf req s = finish_plan pf req controls (from_original src) [] ?plan s"
        using Inr True assms(1) by (simp add: apply_tar_with_options_def with_source_def read_source_def src_def Let_def)
      have allowed: "ustar_allowed pf (rq_policy req) data \<longleftrightarrow> (\<exists>ra. ?plan = Ready ra)"
        using ustar_raw_ready_iff [OF src(2), of ?sha "pf_unicode pf" ?b "unat (max_metadata_bytes ?b)"] True Inr
        by (simp add: ustar_allowed_def src(1))
      show ?thesis
      proof (cases ?plan)
        case (Ready ra)
        then have "planned_from (pf_hashes pf) (pf_inflater pf) (pf_spool pf) (pf_unicode pf) ?b (unat (max_metadata_bytes ?b)) src
            (from_original src) [] ra" by (auto simp: planned_from_def)
        note sound = planned_from_sound [OF this, unfolded src(1), OF src(2,3) assms(4)]
        have "\<not> xr_dest (request_of req controls)" using assms(2) by (simp add: request_of_def)
        from inspection_succeeds [OF sound(1,2) _ _ _ this, of "pf_inflater pf" "pf_reserve pf" "pf_materializer pf" s] sound(3)
        show ?thesis unfolding run allowed ready_sound_def by (auto simp: Ready finish_plan_def inspect_complete_exit)
      next
        case (Stopped oc)
        with planner_ok(1) [of ?sha "pf_unicode pf" ?b "unat (max_metadata_bytes ?b)" "so_len src" "so_snapshot src" "so_digest src"
            "so_digest src" PlanRaw] have "cli_exit_code oc = 2" by (simp add: plan_ok_def stopped_def)
        with Stopped show ?thesis unfolding run allowed by (simp add: finish_plan_def)
      next
        case Panicked
        with planner_ok(1) [of ?sha "pf_unicode pf" ?b "unat (max_metadata_bytes ?b)" "so_len src" "so_snapshot src" "so_digest src"
            "so_digest src" PlanRaw] show ?thesis by (simp add: plan_ok_def)
      qed
    qed
  qed
qed

text \<open>The empty TAR archive under a policy that allows it.\<close>

definition example_platform :: "(unit, unit, unit) platform" where
  "example_platform = \<lparr>pf_hashes = example_hashes, pf_inflater = example_tgz_flate, pf_spool = example_spool,
     pf_files = \<lparr>of_metadata = (\<lambda>f. (None, f)), of_read = (\<lambda>f _. (Inr [], f)), of_rewind = (\<lambda>f. (True, f))\<rparr>,
     pf_unicode = ascii_unicode, pf_reserve = (\<lambda>_. True), pf_materializer = no_materializer\<rparr>"

definition example_request :: "bytes \<Rightarrow> unit request" where
  "example_request data = \<lparr>rq_source = BytesSource None data, rq_policy = default_v2, rq_dest = False,
     rq_stage_retention_path = None, rq_retention_plan = None\<rparr>"

theorem commands_inspect_orderly_witness:
  "\<exists>oc va. apply_selected example_platform (example_request []) SelectPax () = (ExecDone oc va, ()) \<and> \<not> oc_wrote oc"
  using commands_inspect_orderly [of "example_request []" example_platform SelectPax "()"] by (auto simp: example_request_def)

theorem ustar_command_decides_witness:
  "(\<exists>oc va. apply_tar_with_options example_platform (example_request (replicate 1024 0)) () = (ExecDone oc (Some va), ()) \<and>
     cli_exit_code oc = 0) \<and>
   (\<exists>oc. apply_tar_with_options example_platform (example_request [1]) () = (ExecDone oc None, ()) \<and> cli_exit_code oc = 2)"
proof -
  have controls: "compile_for_format default_v2 POLICY_FORMAT_TAR_USTAR = Inr (compile_controls default_v2)"
    using default_policies_spec by (simp add: compile_for_format_def policy_compile_iff allows_format_def default_v2_def)
  have "ustar_spec sha (memory_snapshot (replicate 1024 0)) 10000 4194304 example_empty_tar" for sha
    by (auto simp: ustar_spec_def example_empty_tar_def range_bytes_def slice_of_def all_zero_def list_all_iff)
  then have yes: "ustar_allowed example_platform default_v2 (replicate 1024 0)"
    unfolding ustar_allowed_def using controls
    by (auto simp: compile_controls_def default_v2_def default_v1_def example_empty_tar_def plan_start_def intro!: exI [of _ example_empty_tar])
  have no: "\<not> ustar_allowed example_platform default_v2 [1]"
    by (auto simp: ustar_allowed_def ustar_spec_def)
  have sha: "length (ah_sha256 (pf_hashes example_platform) bs) = 32" for bs by (simp add: example_platform_def example_source_ok(4))
  show ?thesis
    using ustar_command_decides [of "example_request (replicate 1024 0)" None "replicate 1024 0" example_platform "()"] yes
      ustar_command_decides [of "example_request [1]" None "[1]" example_platform "()"] no sha
    by (auto simp: example_request_def u64_max_def)
qed

end
