(* ===== verification/SevenZ.thy ===== *)
theory SevenZ
  imports WrapperAudit
begin

text \<open>
  The reader of the restricted 7z container, \<open>crates/sealr/src/sevenz.rs\<close>: signature header, the raw next
  header with its minimal numbers, streams and file records, and the resolution of members. The header
  reader is the bytes it has left; positions compare as lengths. CRC-32 is the package \<open>crc32fast\<close>: the
  parameter \<open>crc\<close>. The \<open>expect\<close> on the next substream is the value \<open>None\<close> of the member loop.
  \<open>SevenZFolderParsed\<close> and \<open>SevenZSubStreamParsed\<close> have the fields of the evidence records of \<open>ir.rs\<close>, which
  \<open>apply.rs\<close> copies them into; they are those records here.
\<close>

definition SIGNATURE_HEADER_LEN :: nat where "SIGNATURE_HEADER_LEN = 32"

definition K_END :: nat where "K_END = 0x00"
definition K_HEADER :: nat where "K_HEADER = 0x01"
definition K_MAIN_STREAMS :: nat where "K_MAIN_STREAMS = 0x04"
definition K_FILES_INFO :: nat where "K_FILES_INFO = 0x05"
definition K_PACK_INFO :: nat where "K_PACK_INFO = 0x06"
definition K_UNPACK_INFO :: nat where "K_UNPACK_INFO = 0x07"
definition K_SUBSTREAMS_INFO :: nat where "K_SUBSTREAMS_INFO = 0x08"
definition K_SIZE :: nat where "K_SIZE = 0x09"
definition K_CRC :: nat where "K_CRC = 0x0A"
definition K_FOLDER :: nat where "K_FOLDER = 0x0B"
definition K_CODERS_UNPACK_SIZE :: nat where "K_CODERS_UNPACK_SIZE = 0x0C"
definition K_NUM_UNPACK_STREAM :: nat where "K_NUM_UNPACK_STREAM = 0x0D"
definition K_EMPTY_STREAM :: nat where "K_EMPTY_STREAM = 0x0E"
definition K_EMPTY_FILE :: nat where "K_EMPTY_FILE = 0x0F"
definition K_NAME :: nat where "K_NAME = 0x11"
definition K_CTIME :: nat where "K_CTIME = 0x12"
definition K_ATIME :: nat where "K_ATIME = 0x13"
definition K_MTIME :: nat where "K_MTIME = 0x14"
definition K_WIN_ATTRIBUTES :: nat where "K_WIN_ATTRIBUTES = 0x15"
definition K_ENCODED_HEADER :: nat where "K_ENCODED_HEADER = 0x17"
definition K_DUMMY :: nat where "K_DUMMY = 0x19"

definition FILE_ATTRIBUTE_DIRECTORY :: nat where "FILE_ATTRIBUTE_DIRECTORY = 0x10"

record sevenz_member =
  zm_raw_name_bytes :: bytes
  zm_name :: rust_str
  zm_is_dir :: bool
  zm_size :: nat
  zm_payload :: byte_range
  zm_declared_crc :: "nat option"
  zm_attributes :: "nat option"
  zm_mtime :: "nat option"

record sevenz_parsed =
  zp_version_minor :: nat
  zp_pack_region :: byte_range
  zp_next_header :: byte_range
  zp_next_header_crc :: nat
  zp_folders :: "sevenz_folder_evidence list"
  zp_name_region_bytes :: nat
  zp_dummy_bytes :: nat
  zp_metadata_bytes :: nat
  zp_members :: "sevenz_member list"

abbreviation sz_structure :: finding where
  "sz_structure \<equiv> finding_error SevenZInvalidStructure"

abbreviation sz_unsupported :: finding where
  "sz_unsupported \<equiv> finding_error FormatUnsupported"

definition recognizes_sevenz :: "snapshot \<Rightarrow> bool" where
  "recognizes_sevenz sn \<longleftrightarrow> 6 \<le> snapshot_len sn \<and> read_exact_at sn 0 6 = Inr SEVENZ_SIGNATURE"

subsection \<open>The header reader\<close>

definition hr_byte :: "bytes \<Rightarrow> finding + u8 \<times> bytes" where
  "hr_byte bs = (case bs of [] \<Rightarrow> Inl sz_structure | b # rest \<Rightarrow> Inr (b, rest))"

definition hr_take :: "nat \<Rightarrow> bytes \<Rightarrow> finding + bytes \<times> bytes" where
  "hr_take n bs = (if length bs < n then Inl sz_structure else Inr (take n bs, drop n bs))"

text \<open>\<open>u8::leading_ones\<close>.\<close>

definition leading_ones :: "nat \<Rightarrow> nat" where
  "leading_ones b =
     (if b < 0x80 then 0 else if b < 0xC0 then 1 else if b < 0xE0 then 2 else if b < 0xF0 then 3
      else if b < 0xF8 then 4 else if b < 0xFC then 5 else if b < 0xFE then 6 else if b < 0xFF then 7 else 8)"

definition minimal_number_extra :: "nat \<Rightarrow> nat" where
  "minimal_number_extra v =
     (case find (\<lambda>extra. v < 2 ^ (7 + 7 * extra)) [0..<7] of
        Some extra \<Rightarrow> extra
      | None \<Rightarrow> if v < 2 ^ 56 then 7 else 8)"

text \<open>The bits of the first byte below its ones are the highest, the tail follows from the lowest byte on;
  the two do not overlap, so their bitwise or is their sum.\<close>

definition number_tail :: "nat \<Rightarrow> bytes \<Rightarrow> finding + nat \<times> bytes" where
  "number_tail first bs =
     (let extra = leading_ones first;
          mask_bits = (if extra \<ge> 7 then 0 else first mod 2 ^ (7 - extra))
      in and_then (hr_take extra bs) (\<lambda>(tail, rest).
         let value = mask_bits * 2 ^ (8 * extra) + le_value tail
         in if extra \<noteq> minimal_number_extra value then Inl sz_structure else Inr (value, rest)))"

definition hr_number :: "bytes \<Rightarrow> finding + nat \<times> bytes" where
  "hr_number bs =
     and_then (hr_byte bs) (\<lambda>(first, rest).
     if leading_ones (unat first) = 0 then Inr (unat first, rest) else number_tail (unat first) rest)"

definition hr_real_u64 :: "bytes \<Rightarrow> finding + nat \<times> bytes" where
  "hr_real_u64 bs = and_then (hr_take 8 bs) (\<lambda>(x, rest). Inr (le_value x, rest))"

definition hr_u32_le :: "bytes \<Rightarrow> finding + nat \<times> bytes" where
  "hr_u32_le bs = and_then (hr_take 4 bs) (\<lambda>(x, rest). Inr (le_value x, rest))"

definition bounded_count :: "bytes \<Rightarrow> finding + nat \<times> bytes" where
  "bounded_count bs =
     and_then (hr_number bs) (\<lambda>(value, rest). if value > length rest then Inl sz_structure else Inr (value, rest))"

definition msb_bit :: "bytes \<Rightarrow> nat \<Rightarrow> bool" where
  "msb_bit bs i \<longleftrightarrow> bit (bs ! (i div 8)) (7 - i mod 8)"

definition bit_vector :: "nat \<Rightarrow> bytes \<Rightarrow> finding + bool list \<times> bytes" where
  "bit_vector count bs =
     (let byte_len = (count + 7) div 8
      in and_then (hr_take byte_len bs) (\<lambda>(x, rest).
         if count mod 8 \<noteq> 0 \<and> unat (x ! (byte_len - 1)) mod 2 ^ (8 - count mod 8) \<noteq> 0 then Inl sz_structure
         else Inr (map (msb_bit x) [0..<count], rest)))"

definition parse_defined_vector :: "nat \<Rightarrow> bytes \<Rightarrow> finding + bool list \<times> bytes" where
  "parse_defined_vector count bs =
     and_then (hr_byte bs) (\<lambda>(all_defined, rest).
     if all_defined = 0 then bit_vector count rest
     else if all_defined = 1 then Inr (replicate count True, rest)
     else Inl sz_structure)"

text \<open>A value for every flag that is set.\<close>

fun read_flagged :: "(bytes \<Rightarrow> finding + 'a \<times> bytes) \<Rightarrow> bool list \<Rightarrow> bytes \<Rightarrow> finding + 'a option list \<times> bytes" where
  "read_flagged r [] bs = Inr ([], bs)"
| "read_flagged r (flag # flags) bs =
     (if flag
      then and_then (r bs) (\<lambda>(v, rest).
           and_then (read_flagged r flags rest) (\<lambda>(vs, rest'). Inr (Some v # vs, rest')))
      else and_then (read_flagged r flags bs) (\<lambda>(vs, rest'). Inr (None # vs, rest')))"

definition hr_digests :: "nat \<Rightarrow> bytes \<Rightarrow> finding + nat option list \<times> bytes" where
  "hr_digests count bs =
     and_then
       (and_then (hr_byte bs) (\<lambda>(all_defined, rest).
        if all_defined = 0 then bit_vector count rest
        else if all_defined = 1 then Inr (replicate count True, rest)
        else Inl sz_structure)) (\<lambda>(defined, rest).
     read_flagged hr_u32_le defined rest)"

fun read_many :: "(bytes \<Rightarrow> finding + 'a \<times> bytes) \<Rightarrow> nat \<Rightarrow> bytes \<Rightarrow> finding + 'a list \<times> bytes" where
  "read_many r 0 bs = Inr ([], bs)"
| "read_many r (Suc n) bs =
     and_then (r bs) (\<lambda>(v, rest). and_then (read_many r n rest) (\<lambda>(vs, rest'). Inr (v # vs, rest')))"

subsection \<open>Progress of the reader\<close>

lemma hr_byte_shrinks: "hr_byte bs = Inr (b, rest) \<Longrightarrow> length rest < length bs"
  by (auto simp: hr_byte_def split: list.splits)

lemma hr_take_shrinks: "hr_take n bs = Inr (x, rest) \<Longrightarrow> length rest + n = length bs"
  by (auto simp: hr_take_def split: if_splits)

lemma number_tail_shrinks: "number_tail b bs = Inr (v, rest) \<Longrightarrow> length rest + leading_ones b = length bs"
  unfolding number_tail_def and_then_eq_Inr Let_def by (clarify, drule hr_take_shrinks) (simp split: if_split_asm)

lemma hr_number_shrinks:
  assumes "hr_number bs = Inr (v, rest)"
  shows "length rest < length bs"
proof -
  from assms obtain b bs1 where b: "hr_byte bs = Inr (b, bs1)"
    "(if leading_ones (unat b) = 0 then Inr (unat b, bs1) else number_tail (unat b) bs1) = Inr (v, rest)"
    unfolding hr_number_def and_then_eq_Inr by force
  then show ?thesis using hr_byte_shrinks [OF b(1)] number_tail_shrinks [of "unat b" bs1 v rest] by (auto split: if_split_asm)
qed

lemma hr_u32_shrinks: "hr_u32_le bs = Inr (v, rest) \<Longrightarrow> length rest \<le> length bs"
  by (auto simp: hr_u32_le_def and_then_eq_Inr dest: hr_take_shrinks)

lemma hr_u64_shrinks: "hr_real_u64 bs = Inr (v, rest) \<Longrightarrow> length rest \<le> length bs"
  by (auto simp: hr_real_u64_def and_then_eq_Inr dest: hr_take_shrinks)

lemma bounded_count_shrinks: "bounded_count bs = Inr (v, rest) \<Longrightarrow> length rest < length bs"
  by (auto simp: bounded_count_def and_then_eq_Inr split: if_splits dest: hr_number_shrinks)

lemma bit_vector_shrinks: "bit_vector n bs = Inr (v, rest) \<Longrightarrow> length rest \<le> length bs"
  by (auto simp: bit_vector_def and_then_eq_Inr Let_def split: if_splits dest: hr_take_shrinks)

lemma read_flagged_shrinks:
  "\<lbrakk>read_flagged r flags bs = Inr (vs, rest); \<And>bs v rest. r bs = Inr (v, rest) \<Longrightarrow> length rest \<le> length bs\<rbrakk> \<Longrightarrow>
     length rest \<le> length bs"
  by (induction r flags bs arbitrary: vs rest rule: read_flagged.induct) (fastforce simp: and_then_eq_Inr split: if_splits)+

lemma defined_vector_shrinks: "parse_defined_vector n bs = Inr (v, rest) \<Longrightarrow> length rest < length bs"
  by (auto simp: parse_defined_vector_def and_then_eq_Inr split: if_splits dest!: hr_byte_shrinks bit_vector_shrinks)

lemma hr_digests_shrinks: "hr_digests n bs = Inr (v, rest) \<Longrightarrow> length rest < length bs"
  unfolding hr_digests_def parse_defined_vector_def [symmetric]
  by (auto simp: and_then_eq_Inr dest!: defined_vector_shrinks read_flagged_shrinks [OF _ hr_u32_shrinks])

lemma read_many_shrinks:
  "\<lbrakk>read_many r n bs = Inr (vs, rest); \<And>bs v rest. r bs = Inr (v, rest) \<Longrightarrow> length rest \<le> length bs\<rbrakk> \<Longrightarrow>
     length rest \<le> length bs"
  by (induction r n bs arbitrary: vs rest rule: read_many.induct) (fastforce simp: and_then_eq_Inr)+

lemma numbers_shrink: "read_many hr_number n bs = Inr (vs, rest) \<Longrightarrow> length rest \<le> length bs"
  by (erule read_many_shrinks) (drule hr_number_shrinks, simp)

subsection \<open>Streams\<close>

record parsed_folder =
  pf_unpack_size :: nat
  pf_folder_crc :: "nat option"
  pf_substream_sizes :: "nat list"
  pf_substream_crcs :: "nat option list"

record streams_info =
  si_pack_sizes :: "nat list"
  si_pack_crcs :: "nat option list"
  si_folders :: "parsed_folder list"

function pack_info_loop :: "nat \<Rightarrow> nat list \<Rightarrow> nat option list \<Rightarrow> bytes \<Rightarrow> finding + (nat list \<times> nat option list) \<times> bytes" where
  "pack_info_loop num_pack sizes crcs bs =
     (case hr_number bs of
        Inl f \<Rightarrow> Inl f
      | Inr (ident, rest) \<Rightarrow>
          if ident = K_END then Inr ((sizes, crcs), rest)
          else if ident = K_SIZE
          then (if sizes \<noteq> [] then Inl sz_structure
                else case read_many hr_number num_pack rest of
                       Inl f \<Rightarrow> Inl f
                     | Inr (sizes', rest') \<Rightarrow>
                         if sizes' = [] \<and> num_pack > 0 then Inl sz_structure else pack_info_loop num_pack sizes' crcs rest')
          else if ident = K_CRC
          then (case hr_digests num_pack rest of
                  Inl f \<Rightarrow> Inl f
                | Inr (crcs', rest') \<Rightarrow> pack_info_loop num_pack sizes crcs' rest')
          else Inl sz_unsupported)"
  by pat_completeness auto
termination
  by (relation "measure (\<lambda>(_, _, _, bs). length bs)")
    (auto dest!: hr_number_shrinks hr_digests_shrinks numbers_shrink)

declare pack_info_loop.simps [simp del]

definition parse_pack_info :: "bytes \<Rightarrow> finding + (nat list \<times> nat option list) \<times> bytes" where
  "parse_pack_info bs =
     and_then (hr_number bs) (\<lambda>(ident, bs).
     if ident \<noteq> K_PACK_INFO then Inl sz_structure
     else
     and_then (hr_number bs) (\<lambda>(pack_pos, bs).
     if pack_pos \<noteq> 0 then Inl sz_structure
     else
     and_then (bounded_count bs) (\<lambda>(num_pack, bs).
     and_then (pack_info_loop num_pack [] (replicate num_pack None) bs) (\<lambda>((sizes, crcs), bs).
     if length sizes \<noteq> num_pack then Inl sz_structure else Inr ((sizes, crcs), bs)))))"

text \<open>One coder, Copy.\<close>

definition copy_coder :: "bytes \<Rightarrow> finding + unit \<times> bytes" where
  "copy_coder bs =
     and_then (hr_number bs) (\<lambda>(num_coders, bs).
     if num_coders \<noteq> 1 then Inl sz_unsupported
     else
     and_then (hr_byte bs) (\<lambda>(flags, bs).
     if bit flags 7 then Inl sz_structure
     else if bit flags 4 then Inl sz_unsupported
     else if bit flags 5 then Inl sz_unsupported
     else
     and_then (hr_take (unat flags mod 16) bs) (\<lambda>(codec_id, bs).
     if codec_id \<noteq> [0] then Inl sz_unsupported else Inr ((), bs))))"

function folder_crc_loop :: "nat \<Rightarrow> nat option list \<Rightarrow> bytes \<Rightarrow> finding + nat option list \<times> bytes" where
  "folder_crc_loop num_folders crcs bs =
     (case hr_number bs of
        Inl f \<Rightarrow> Inl f
      | Inr (ident, rest) \<Rightarrow>
          if ident = K_END then Inr (crcs, rest)
          else if ident = K_CRC
          then (case hr_digests num_folders rest of
                  Inl f \<Rightarrow> Inl f
                | Inr (crcs', rest') \<Rightarrow> folder_crc_loop num_folders crcs' rest')
          else Inl sz_unsupported)"
  by pat_completeness auto
termination
  by (relation "measure (\<lambda>(_, _, bs). length bs)") (auto dest!: hr_number_shrinks hr_digests_shrinks)

declare folder_crc_loop.simps [simp del]

text \<open>The unpack sizes and digests of the folders.\<close>

definition parse_unpack_info :: "bytes \<Rightarrow> finding + (nat list \<times> nat option list) \<times> bytes" where
  "parse_unpack_info bs =
     and_then (hr_number bs) (\<lambda>(ident, bs).
     if ident \<noteq> K_UNPACK_INFO then Inl sz_structure
     else
     and_then (hr_number bs) (\<lambda>(marker, bs).
     if marker \<noteq> K_FOLDER then Inl sz_structure
     else
     and_then (bounded_count bs) (\<lambda>(num_folders, bs).
     and_then (hr_byte bs) (\<lambda>(external, bs).
     if external \<noteq> 0 then Inl sz_unsupported
     else
     and_then (read_many copy_coder num_folders bs) (\<lambda>(_, bs).
     and_then (hr_number bs) (\<lambda>(marker, bs).
     if marker \<noteq> K_CODERS_UNPACK_SIZE then Inl sz_structure
     else
     and_then (read_many hr_number num_folders bs) (\<lambda>(unpack_sizes, bs).
     and_then (folder_crc_loop num_folders (replicate num_folders None) bs) (\<lambda>(folder_crcs, bs).
     Inr ((unpack_sizes, folder_crcs), bs)))))))))"

fun read_sized :: "nat \<Rightarrow> nat \<Rightarrow> bytes \<Rightarrow> finding + (nat list \<times> nat) \<times> bytes" where
  "read_sized 0 consumed bs = Inr (([], consumed), bs)"
| "read_sized (Suc n) consumed bs =
     and_then (hr_number bs) (\<lambda>(sz, bs).
     and_then (ok_or sz_structure (checked_add_u64 consumed sz)) (\<lambda>consumed'.
     and_then (read_sized n consumed' bs) (\<lambda>((sizes, total_size), bs). Inr ((sz # sizes, total_size), bs))))"

text \<open>The sizes of the substreams of a folder: all but the last are written down.\<close>

definition folder_sizes :: "nat \<Rightarrow> nat \<Rightarrow> bytes \<Rightarrow> finding + nat list \<times> bytes" where
  "folder_sizes count unpack_size bs =
     and_then (read_sized (count - 1) 0 bs) (\<lambda>((sizes, consumed), bs).
     if count > 0
     then (if unpack_size < consumed then Inl sz_structure else Inr (sizes @ [unpack_size - consumed], bs))
     else Inr (sizes, bs))"

fun explicit_sizes :: "(nat \<times> nat) list \<Rightarrow> bytes \<Rightarrow> finding + nat list list \<times> bytes" where
  "explicit_sizes [] bs = Inr ([], bs)"
| "explicit_sizes ((count, unpack_size) # folders) bs =
     and_then (folder_sizes count unpack_size bs) (\<lambda>(sizes, bs).
     and_then (explicit_sizes folders bs) (\<lambda>(rest, bs). Inr (sizes # rest, bs)))"

record substreams_info =
  su_counts :: "nat list"
  su_sizes :: "nat list list"
  su_digests :: "nat option list option"

text \<open>An optional part: a property with its reader, then the next property.\<close>

definition optional_part :: "nat \<Rightarrow> (bytes \<Rightarrow> finding + 'a \<times> bytes) \<Rightarrow> 'a \<Rightarrow> nat \<Rightarrow> bytes \<Rightarrow> finding + ('a \<times> nat) \<times> bytes" where
  "optional_part ident r absent property bs =
     (if property = ident
      then and_then (r bs) (\<lambda>(x, bs). and_then (hr_number bs) (\<lambda>(property', bs). Inr ((x, property'), bs)))
      else Inr ((absent, property), bs))"

definition parse_substreams_info :: "nat list \<Rightarrow> nat option list \<Rightarrow> bytes \<Rightarrow> finding + substreams_info \<times> bytes" where
  "parse_substreams_info unpack_sizes folder_crcs bs =
     (let num_folders = length unpack_sizes
      in and_then (hr_number bs) (\<lambda>(property, bs).
         and_then (optional_part K_NUM_UNPACK_STREAM (read_many bounded_count num_folders) (replicate num_folders 1) property bs)
           (\<lambda>((counts, property), bs).
         and_then (optional_part K_SIZE (explicit_sizes (zip counts unpack_sizes)) [] property bs) (\<lambda>((sizes, property), bs).
         let unknown = sum_list (map (\<lambda>(count, c). if count = 1 \<and> c \<noteq> None then 0 else count) (zip counts folder_crcs))
         in and_then (optional_part K_CRC (\<lambda>bs. and_then (hr_digests unknown bs) (\<lambda>(ds, bs). Inr (Some ds, bs))) None property bs)
           (\<lambda>((digests, property), bs).
         if property \<noteq> K_END then Inl sz_unsupported
         else Inr (\<lparr>su_counts = counts, su_sizes = sizes, su_digests = digests\<rparr>, bs))))))"

text \<open>The folders with their substreams; the digest cursor counts the digests used.\<close>

fun build_folders ::
  "nat option list option \<Rightarrow> (nat \<times> nat \<times> nat option \<times> nat list option) list \<Rightarrow> nat \<Rightarrow> finding + parsed_folder list \<times> nat"
where
  "build_folders digests [] cursor = Inr ([], cursor)"
| "build_folders digests ((count, unpack_size, folder_crc, explicit) # fs) cursor =
     (if count = 0 then Inl sz_structure
      else if explicit = None \<and> count \<noteq> 1 then Inl sz_structure
      else
      let sizes = (case explicit of None \<Rightarrow> [unpack_size] | Some sizes \<Rightarrow> sizes)
      in if 0 \<in> set sizes then Inl sz_structure
         else
         let (crcs, cursor') =
           (if count = 1 \<and> folder_crc \<noteq> None then ([folder_crc], cursor)
            else (map (\<lambda>i. case digests of
                             None \<Rightarrow> None
                           | Some ds \<Rightarrow> if cursor + i < length ds then ds ! (cursor + i) else None) [0..<count], cursor + count))
         in and_then (build_folders digests fs cursor') (\<lambda>(folders, last_cursor).
            Inr (\<lparr>pf_unpack_size = unpack_size, pf_folder_crc = folder_crc, pf_substream_sizes = sizes,
                  pf_substream_crcs = crcs\<rparr> # folders, last_cursor)))"

definition parse_streams_info :: "bytes \<Rightarrow> finding + streams_info \<times> bytes" where
  "parse_streams_info bs =
     and_then (parse_pack_info bs) (\<lambda>((pack_sizes, pack_crcs), bs).
     and_then (parse_unpack_info bs) (\<lambda>((unpack_sizes, folder_crcs), bs).
     let num_folders = length unpack_sizes
     in and_then (hr_number bs) (\<lambda>(ident, bs).
        and_then
          (if ident = K_SUBSTREAMS_INFO
           then and_then (parse_substreams_info unpack_sizes folder_crcs bs) (\<lambda>(su, bs).
                and_then (hr_number bs) (\<lambda>(ident', bs). Inr ((su, ident'), bs)))
           else Inr ((\<lparr>su_counts = replicate num_folders 1, su_sizes = [], su_digests = None\<rparr>, ident), bs)) (\<lambda>((su, ident), bs).
        if ident \<noteq> K_END then Inl sz_structure
        else
        and_then (build_folders (su_digests su)
          (zip (su_counts su) (zip unpack_sizes (zip folder_crcs
             (if su_sizes su = [] then replicate num_folders None else map Some (su_sizes su))))) 0) (\<lambda>(folders, digest_cursor).
        if (case su_digests su of Some values \<Rightarrow> digest_cursor \<noteq> length values | None \<Rightarrow> False) then Inl sz_structure
        else Inr (\<lparr>si_pack_sizes = pack_sizes, si_pack_crcs = pack_crcs, si_folders = folders\<rparr>, bs))))))"

subsection \<open>Files\<close>

text \<open>\<open>char::decode_utf16\<close>.\<close>

fun decode_utf16 :: "nat list \<Rightarrow> rust_str option" where
  "decode_utf16 [] = Some []"
| "decode_utf16 (u # us) =
     (if u < 0xD800 \<or> 0xDFFF < u then map_option (\<lambda>cs. u # cs) (decode_utf16 us)
      else if 0xDC00 \<le> u then None
      else case us of
             [] \<Rightarrow> None
           | v # vs \<Rightarrow>
               if 0xDC00 \<le> v \<and> v \<le> 0xDFFF
               then map_option (\<lambda>cs. (0x10000 + (u - 0xD800) * 0x400 + (v - 0xDC00)) # cs) (decode_utf16 vs)
               else None)"

fun u16_units :: "bytes \<Rightarrow> nat list" where
  "u16_units (a # b # bs) = le_value [a, b] # u16_units bs"
| "u16_units bs = []"

text \<open>The loop over the name region: the bytes of the current name, the names so far, and what is left.\<close>

fun names_loop ::
  "nat \<Rightarrow> bytes \<Rightarrow> (bytes \<times> rust_str) list \<Rightarrow> bytes \<Rightarrow> finding + (bytes \<times> rust_str) list \<times> bytes \<times> bytes"
where
  "names_loop count raw names (a # b # rest) =
     (if a = 0 \<and> b = 0
      then (if raw = [] then Inl sz_structure
            else case decode_utf16 (u16_units raw) of
                   None \<Rightarrow> Inl sz_structure
                 | Some name \<Rightarrow>
                     let names' = names @ [(raw, name)]
                     in if length names' = count then Inr (names', [], rest) else names_loop count [] names' rest)
      else names_loop count (raw @ [a, b]) names rest)"
| "names_loop count raw names [b] = Inl sz_structure"
| "names_loop count raw names [] = Inr (names, raw, [])"

definition decode_names :: "bytes \<Rightarrow> nat \<Rightarrow> finding + (bytes \<times> rust_str) list" where
  "decode_names region count =
     (if odd (length region) then Inl sz_structure
      else
      and_then (names_loop count [] [] region) (\<lambda>(names, raw, rest).
      if length names \<noteq> count then Inl sz_structure
      else if raw \<noteq> [] \<or> rest \<noteq> [] then Inl sz_structure
      else Inr names))"

definition parse_time_record :: "nat \<Rightarrow> bytes \<Rightarrow> finding + nat option list \<times> bytes" where
  "parse_time_record count bs =
     and_then (parse_defined_vector count bs) (\<lambda>(defined, bs).
     and_then (hr_byte bs) (\<lambda>(external, bs).
     if external \<noteq> 0 then Inl sz_unsupported else read_flagged hr_real_u64 defined bs))"

record files_info =
  fi_empty_stream :: "bool list option"
  fi_empty_file :: "bool list option"
  fi_names :: "(bytes \<times> rust_str) list option"
  fi_attributes :: "nat option list"
  fi_mtimes :: "nat option list"
  fi_name_region_bytes :: nat
  fi_dummy_bytes :: nat

text \<open>A later attribute record overwrites the attributes it defines.\<close>

definition overlay :: "'a option list \<Rightarrow> 'a option list \<Rightarrow> 'a option list" where
  "overlay fresh old = map2 (\<lambda>x y. case x of Some v \<Rightarrow> Some v | None \<Rightarrow> y) fresh old"

definition files_property :: "nat \<Rightarrow> nat \<Rightarrow> nat \<Rightarrow> files_info \<Rightarrow> bytes \<Rightarrow> finding + files_info \<times> bytes" where
  "files_property num_files ident sz fi bs =
     (if ident = K_EMPTY_STREAM
      then (if fi_empty_stream fi \<noteq> None then Inl sz_structure
            else and_then (bit_vector num_files bs) (\<lambda>(bits, bs). Inr (fi\<lparr>fi_empty_stream := Some bits\<rparr>, bs)))
      else if ident = K_EMPTY_FILE
      then and_then (ok_or sz_structure (fi_empty_stream fi)) (\<lambda>bits.
           if fi_empty_file fi \<noteq> None then Inl sz_structure
           else and_then (bit_vector (length (filter id bits)) bs) (\<lambda>(bits', bs). Inr (fi\<lparr>fi_empty_file := Some bits'\<rparr>, bs)))
      else if ident = K_NAME
      then (if fi_names fi \<noteq> None then Inl sz_structure
            else
            and_then (hr_byte bs) (\<lambda>(external, bs).
            if external \<noteq> 0 then Inl sz_unsupported
            else if sz < 1 then Inl sz_structure
            else
            and_then (hr_take (sz - 1) bs) (\<lambda>(region, bs).
            and_then (decode_names region num_files) (\<lambda>names.
            Inr (fi\<lparr>fi_names := Some names, fi_name_region_bytes := sz - 1\<rparr>, bs)))))
      else if ident = K_CTIME \<or> ident = K_ATIME
      then and_then (parse_time_record num_files bs) (\<lambda>(_, bs). Inr (fi, bs))
      else if ident = K_MTIME
      then and_then (parse_time_record num_files bs) (\<lambda>(times, bs). Inr (fi\<lparr>fi_mtimes := times\<rparr>, bs))
      else if ident = K_WIN_ATTRIBUTES
      then and_then (parse_defined_vector num_files bs) (\<lambda>(defined, bs).
           and_then (hr_byte bs) (\<lambda>(external, bs).
           if external \<noteq> 0 then Inl sz_unsupported
           else
           and_then (read_flagged hr_u32_le defined bs) (\<lambda>(attributes, bs).
           Inr (fi\<lparr>fi_attributes := overlay attributes (fi_attributes fi)\<rparr>, bs))))
      else if ident = K_DUMMY
      then and_then (hr_take sz bs) (\<lambda>(padding, bs).
           if list_ex (\<lambda>b. b \<noteq> 0) padding then Inl sz_structure
           else and_then (ok_or sz_structure (checked_add_u64 (fi_dummy_bytes fi) sz)) (\<lambda>n. Inr (fi\<lparr>fi_dummy_bytes := n\<rparr>, bs)))
      else Inl sz_unsupported)"

function files_loop :: "nat \<Rightarrow> files_info \<Rightarrow> bytes \<Rightarrow> finding + files_info \<times> bytes" where
  "files_loop num_files fi bs =
     (case hr_number bs of
        Inl f \<Rightarrow> Inl f
      | Inr (ident, bs1) \<Rightarrow>
          if ident = K_END then Inr (fi, bs1)
          else (case hr_number bs1 of
                  Inl f \<Rightarrow> Inl f
                | Inr (sz, bs2) \<Rightarrow>
                    if sz > length bs2 then Inl sz_structure
                    else (case files_property num_files ident sz fi bs2 of
                            Inl f \<Rightarrow> Inl f
                          | Inr (fi', bs3) \<Rightarrow>
                              if length bs3 + sz \<noteq> length bs2 then Inl sz_structure else files_loop num_files fi' bs3)))"
  by pat_completeness auto
termination
  by (relation "measure (\<lambda>(_, _, bs). length bs)") (auto dest!: hr_number_shrinks)

declare files_loop.simps [simp del]

definition parse_files_info :: "nat \<Rightarrow> bytes \<Rightarrow> finding + (nat \<times> files_info \<times> (bytes \<times> rust_str) list) \<times> bytes" where
  "parse_files_info files_cap bs =
     and_then (hr_number bs) (\<lambda>(num_files, bs).
     if num_files > files_cap then Inl (finding_error QuotaFiles)
     else if num_files > length bs then Inl sz_structure
     else
     and_then (files_loop num_files
       \<lparr>fi_empty_stream = None, fi_empty_file = None, fi_names = None, fi_attributes = replicate num_files None,
        fi_mtimes = replicate num_files None, fi_name_region_bytes = 0, fi_dummy_bytes = 0\<rparr> bs) (\<lambda>(fi, bs).
     and_then (ok_or sz_structure (fi_names fi)) (\<lambda>names. Inr ((num_files, fi, names), bs))))"

subsection \<open>The archive\<close>

named_theorems shrinks \<open>readers that do not grow what is left\<close>

lemmas reader_shrinks [shrinks] = hr_number_shrinks hr_byte_shrinks hr_take_shrinks bounded_count_shrinks bit_vector_shrinks
  defined_vector_shrinks hr_digests_shrinks numbers_shrink

lemma pack_info_loop_shrinks [shrinks]: "pack_info_loop n sizes crcs bs = Inr (x, rest) \<Longrightarrow> length rest < length bs"
proof (induction "length bs" arbitrary: sizes crcs bs rule: less_induct)
  case less
  from less(2) obtain ident b1 where n: "hr_number bs = Inr (ident, b1)"
    by (subst (asm) pack_info_loop.simps) (auto split: sum.splits)
  from less(2) have "rest = b1 \<or> (\<exists>sizes' crcs' b2. length b2 \<le> length b1 \<and> pack_info_loop n sizes' crcs' b2 = Inr (x, rest))"
    by (subst (asm) pack_info_loop.simps)
      (auto simp: n split: sum.splits if_splits; blast intro: numbers_shrink hr_digests_shrinks [THEN less_imp_le])
  then show ?case
  proof (elim disjE exE conjE)
    fix sizes' crcs' b2
    assume "length b2 \<le> length b1" "pack_info_loop n sizes' crcs' b2 = Inr (x, rest)"
    with hr_number_shrinks [OF n] less(1) [of b2 sizes' crcs'] show ?thesis by simp
  qed (use hr_number_shrinks [OF n] in simp)
qed

lemma folder_crc_loop_shrinks [shrinks]: "folder_crc_loop n crcs bs = Inr (x, rest) \<Longrightarrow> length rest < length bs"
proof (induction "length bs" arbitrary: crcs bs rule: less_induct)
  case less
  from less(2) obtain ident b1 where n: "hr_number bs = Inr (ident, b1)"
    by (subst (asm) folder_crc_loop.simps) (auto split: sum.splits)
  from less(2) have "rest = b1 \<or> (\<exists>crcs' b2. length b2 \<le> length b1 \<and> folder_crc_loop n crcs' b2 = Inr (x, rest))"
    by (subst (asm) folder_crc_loop.simps)
      (auto simp: n split: sum.splits if_splits; blast intro: hr_digests_shrinks [THEN less_imp_le])
  then show ?case
  proof (elim disjE exE conjE)
    fix crcs' b2
    assume "length b2 \<le> length b1" "folder_crc_loop n crcs' b2 = Inr (x, rest)"
    with hr_number_shrinks [OF n] less(1) [of b2 crcs'] show ?thesis by simp
  qed (use hr_number_shrinks [OF n] in simp)
qed

lemma parse_pack_info_shrinks [shrinks]: "parse_pack_info bs = Inr (x, rest) \<Longrightarrow> length rest < length bs"
  by (auto simp: parse_pack_info_def and_then_eq_Inr split: if_splits dest!: shrinks)

lemma copy_coder_shrinks: "copy_coder bs = Inr (x, rest) \<Longrightarrow> length rest \<le> length bs"
  by (auto simp: copy_coder_def and_then_eq_Inr split: if_splits dest!: shrinks)

lemma parse_unpack_info_shrinks [shrinks]: "parse_unpack_info bs = Inr (x, rest) \<Longrightarrow> length rest < length bs"
  by (auto simp: parse_unpack_info_def and_then_eq_Inr split: if_splits dest!: shrinks read_many_shrinks [OF _ copy_coder_shrinks])

lemma read_sized_shrinks: "read_sized n c bs = Inr (x, rest) \<Longrightarrow> length rest \<le> length bs"
proof (induction n arbitrary: c bs x rest)
  case (Suc n)
  from Suc.prems obtain v b1 c' x' where "hr_number bs = Inr (v, b1)" "read_sized n c' b1 = Inr (x', rest)"
    by (auto simp: and_then_eq_Inr)
  with Suc.IH [of c' b1] hr_number_shrinks [of bs v b1] show ?case by fastforce
qed simp

lemma explicit_sizes_shrinks: "explicit_sizes fs bs = Inr (x, rest) \<Longrightarrow> length rest \<le> length bs"
proof (induction fs arbitrary: bs x rest)
  case (Cons f fs)
  from Cons.prems obtain sizes b1 x' where "folder_sizes (fst f) (snd f) bs = Inr (sizes, b1)" "explicit_sizes fs b1 = Inr (x', rest)"
    by (cases f) (auto simp: and_then_eq_Inr)
  with Cons.IH [of b1] read_sized_shrinks [of "fst f - 1" 0 bs] show ?case
    by (fastforce simp: folder_sizes_def and_then_eq_Inr split: if_splits)
qed simp

lemma optional_part_shrinks:
  "\<lbrakk>optional_part ident r absent p bs = Inr (x, rest); \<And>x rest. r bs = Inr (x, rest) \<Longrightarrow> length rest \<le> length bs\<rbrakk> \<Longrightarrow>
     length rest \<le> length bs"
  by (fastforce simp: optional_part_def and_then_eq_Inr split: if_splits dest!: shrinks)

lemma bounded_counts_shrink: "read_many bounded_count n bs = Inr (vs, rest) \<Longrightarrow> length rest \<le> length bs"
  by (erule read_many_shrinks) (drule bounded_count_shrinks, simp)

lemma digests_part_shrinks:
  "optional_part K_CRC (\<lambda>bs. and_then (hr_digests u bs) (\<lambda>(ds, bs). Inr (Some ds, bs))) None p bs = Inr (x, rest) \<Longrightarrow>
     length rest \<le> length bs"
  by (erule optional_part_shrinks) (auto simp: and_then_eq_Inr dest: hr_digests_shrinks)

lemma parts_shrink:
  "optional_part i1 (read_many bounded_count n) a1 p1 bs = Inr (x1, rest1) \<Longrightarrow> length rest1 \<le> length bs"
  "optional_part i2 (explicit_sizes fs) a2 p2 bs = Inr (x2, rest2) \<Longrightarrow> length rest2 \<le> length bs"
  by (erule optional_part_shrinks, erule bounded_counts_shrink) (erule optional_part_shrinks, erule explicit_sizes_shrinks)

lemma parse_substreams_shrinks [shrinks]: "parse_substreams_info us cs bs = Inr (x, rest) \<Longrightarrow> length rest < length bs"
  by (auto simp: parse_substreams_info_def Let_def and_then_eq_Inr split: if_splits dest!: hr_number_shrinks parts_shrink digests_part_shrinks)

lemma streams_shrink: "parse_streams_info bs = Inr (si, rest) \<Longrightarrow> length rest < length bs"
  by (auto simp: parse_streams_info_def and_then_eq_Inr Let_def split: if_splits dest!: shrinks)

lemma files_loop_shrinks [shrinks]: "files_loop n fi bs = Inr (x, rest) \<Longrightarrow> length rest < length bs"
proof (induction "length bs" arbitrary: fi bs rule: less_induct)
  case less
  from less(2) obtain ident b1 where n: "hr_number bs = Inr (ident, b1)"
    by (subst (asm) files_loop.simps) (auto split: sum.splits)
  from less(2) have "rest = b1 \<or> (\<exists>fi' b2. length b2 \<le> length b1 \<and> files_loop n fi' b2 = Inr (x, rest))"
    by (subst (asm) files_loop.simps)
      (auto simp: n split: sum.splits if_splits, metis hr_number_shrinks le_add1 less_imp_le order_trans)
  then show ?case
  proof (elim disjE exE conjE)
    fix fi' b2
    assume "length b2 \<le> length b1" "files_loop n fi' b2 = Inr (x, rest)"
    with hr_number_shrinks [OF n] less(1) [of b2 fi'] show ?thesis by simp
  qed (use hr_number_shrinks [OF n] in simp)
qed

lemma files_shrink: "parse_files_info mf bs = Inr (x, rest) \<Longrightarrow> length rest < length bs"
  by (auto simp: parse_files_info_def and_then_eq_Inr split: if_splits dest!: shrinks)

function header_loop ::
  "nat \<Rightarrow> streams_info option \<Rightarrow> (nat \<times> files_info \<times> (bytes \<times> rust_str) list) option \<Rightarrow> bytes \<Rightarrow>
     finding + (streams_info option \<times> (nat \<times> files_info \<times> (bytes \<times> rust_str) list) option) \<times> bytes"
where
  "header_loop files_cap streams files bs =
     (case hr_number bs of
        Inl f \<Rightarrow> Inl f
      | Inr (ident, bs1) \<Rightarrow>
          if ident = K_END then Inr ((streams, files), bs1)
          else if ident = K_MAIN_STREAMS
          then (if streams \<noteq> None then Inl sz_structure
                else case parse_streams_info bs1 of
                       Inl f \<Rightarrow> Inl f
                     | Inr (si, bs2) \<Rightarrow> header_loop files_cap (Some si) files bs2)
          else if ident = K_FILES_INFO
          then (if files \<noteq> None then Inl sz_structure
                else case parse_files_info files_cap bs1 of
                       Inl f \<Rightarrow> Inl f
                     | Inr (fs, bs2) \<Rightarrow> header_loop files_cap streams (Some fs) bs2)
          else Inl sz_unsupported)"
  by pat_completeness auto
termination
  by (relation "measure (\<lambda>(_, _, _, bs). length bs)") (auto dest!: hr_number_shrinks streams_shrink files_shrink)

declare header_loop.simps [simp del]

text \<open>The substreams of a folder and the folders, placed one after the other.\<close>

fun place_substreams :: "nat \<Rightarrow> (nat \<times> nat option) list \<Rightarrow> finding + sevenz_substream_evidence list \<times> nat" where
  "place_substreams cursor [] = Inr ([], cursor)"
| "place_substreams cursor ((sz, declared) # ss) =
     and_then (ok_or sz_structure (checked_add_u64 cursor sz)) (\<lambda>cursor'.
     and_then (place_substreams cursor' ss) (\<lambda>(subs, last_cursor).
     Inr (\<lparr>ss_payload = \<lparr>offset = cursor, rlen = sz\<rparr>, ss_declared_crc = declared\<rparr> # subs, last_cursor)))"

fun place_folders ::
  "nat \<Rightarrow> nat \<Rightarrow> (parsed_folder \<times> nat \<times> nat option) list \<Rightarrow> finding + sevenz_folder_evidence list \<times> nat"
where
  "place_folders header_start cursor [] = Inr ([], cursor)"
| "place_folders header_start cursor ((folder, pack_size, pack_crc) # fs) =
     (if pf_unpack_size folder \<noteq> pack_size then Inl sz_structure
      else
      and_then (ok_or sz_structure (checked_add_u64 cursor pack_size)) (\<lambda>cursor'.
      if cursor' > header_start then Inl sz_structure
      else
      and_then (place_substreams cursor (zip (pf_substream_sizes folder) (pf_substream_crcs folder))) (\<lambda>(subs, sub_cursor).
      if sub_cursor \<noteq> cursor + pack_size then Inl sz_structure
      else
      and_then (place_folders header_start cursor' fs) (\<lambda>(folders, last_cursor).
      Inr (\<lparr>sf_pack_stream = \<lparr>offset = cursor, rlen = pack_size\<rparr>, sf_pack_crc = pack_crc, sf_unpack_size = pf_unpack_size folder,
            sf_folder_crc = pf_folder_crc folder, sf_substreams = subs\<rparr> # folders, last_cursor)))))"

definition check_crc :: "(bytes \<Rightarrow> nat) \<Rightarrow> snapshot \<Rightarrow> byte_range \<Rightarrow> nat option \<Rightarrow> finding + unit" where
  "check_crc crc sn r declared =
     (case declared of
        None \<Rightarrow> Inr ()
      | Some c \<Rightarrow>
          and_then (read_vec sn (offset r) (rlen r)) (\<lambda>bs.
          if crc bs \<noteq> c then Inl (finding_error CrcMismatch) else Inr ()))"

fun check_crcs :: "(bytes \<Rightarrow> nat) \<Rightarrow> snapshot \<Rightarrow> sevenz_folder_evidence list \<Rightarrow> finding + unit" where
  "check_crcs crc sn [] = Inr ()"
| "check_crcs crc sn (f # fs) =
     and_then (check_crc crc sn (sf_pack_stream f) (sf_pack_crc f)) (\<lambda>_.
     and_then (check_crc crc sn (sf_pack_stream f) (sf_folder_crc f)) (\<lambda>_.
     check_crcs crc sn fs))"

text \<open>Files become members: an empty stream takes the next bit of the empty-file vector, another file the
  next substream.\<close>

fun resolve_members ::
  "nat \<Rightarrow> ((bytes \<times> rust_str) \<times> bool \<times> nat option \<times> nat option) list \<Rightarrow> bool list \<Rightarrow> sevenz_substream_evidence list \<Rightarrow>
     (finding + sevenz_member list) option"
where
  "resolve_members header_start [] empty_files subs = Some (Inr [])"
| "resolve_members header_start (((raw, name), is_empty, attributes, mtime) # files) empty_files subs =
     (let take_member = (\<lambda>is_dir payload declared empty_files' subs'.
        if (case attributes of None \<Rightarrow> False | Some a \<Rightarrow> ((a div FILE_ATTRIBUTE_DIRECTORY) mod 2 = 1) \<noteq> is_dir)
        then Some (Inl sz_structure)
        else case resolve_members header_start files empty_files' subs' of
               None \<Rightarrow> None
             | Some (Inl f) \<Rightarrow> Some (Inl f)
             | Some (Inr ms) \<Rightarrow>
                 Some (Inr (\<lparr>zm_raw_name_bytes = raw, zm_name = name, zm_is_dir = is_dir, zm_size = rlen payload,
                   zm_payload = payload, zm_declared_crc = declared, zm_attributes = attributes, zm_mtime = mtime\<rparr> # ms)))
      in if is_empty
         then (case empty_files of
                 [] \<Rightarrow> Some (Inl sz_structure)
               | is_empty_file # empty_files' \<Rightarrow>
                   take_member (\<not> is_empty_file) \<lparr>offset = header_start, rlen = 0\<rparr> None empty_files' subs)
         else (case subs of
                 [] \<Rightarrow> None
               | s # subs' \<Rightarrow> take_member False (ss_payload s) (ss_declared_crc s) empty_files subs'))"

definition resolve_files ::
  "nat \<Rightarrow> nat \<times> files_info \<times> (bytes \<times> rust_str) list \<Rightarrow> sevenz_folder_evidence list \<Rightarrow> (finding + sevenz_member list) option"
where
  "resolve_files header_start = (\<lambda>(num_files, fi, names) folders.
     let empty_stream = (case fi_empty_stream fi of Some bits \<Rightarrow> bits | None \<Rightarrow> replicate num_files False);
         num_empty = length (filter id empty_stream);
         empty_file = (case fi_empty_file fi of Some bits \<Rightarrow> bits | None \<Rightarrow> replicate num_empty False);
         subs = concat (map sf_substreams folders)
     in if num_files - num_empty \<noteq> length subs then Some (Inl sz_structure)
        else if length names \<noteq> num_files then Some (Inl sz_structure)
        else resolve_members header_start (zip names (zip empty_stream (zip (fi_attributes fi) (fi_mtimes fi)))) empty_file subs)"

text \<open>The next header's grammar: the streams and the files.\<close>

definition parse_next_header ::
  "nat \<Rightarrow> bytes \<Rightarrow> finding + streams_info \<times> (nat \<times> files_info \<times> (bytes \<times> rust_str) list)"
where
  "parse_next_header files_cap header_bytes =
     and_then (hr_number header_bytes) (\<lambda>(first, bs).
     if first = K_ENCODED_HEADER then Inl sz_unsupported
     else if first \<noteq> K_HEADER then Inl sz_structure
     else
     and_then (header_loop files_cap None None bs) (\<lambda>((streams, files), bs).
     if bs \<noteq> [] then Inl sz_structure
     else
     and_then (ok_or sz_unsupported files) (\<lambda>(num_files, fi, names).
     if num_files = 0 then Inl sz_unsupported
     else
     Inr (case streams of Some si \<Rightarrow> si | None \<Rightarrow> \<lparr>si_pack_sizes = [], si_pack_crcs = [], si_folders = []\<rparr>, num_files, fi, names))))"

text \<open>The signature header: start, size and checksum of the next header.\<close>

definition parse_signature_header :: "(bytes \<Rightarrow> nat) \<Rightarrow> snapshot \<Rightarrow> nat \<Rightarrow> finding + nat \<times> nat \<times> nat \<times> bytes" where
  "parse_signature_header crc sn metadata_cap =
     (if snapshot_len sn < SIGNATURE_HEADER_LEN then Inl sz_structure
      else
      and_then (read_exact_at sn 0 32) (\<lambda>h.
      if take 6 h \<noteq> SEVENZ_SIGNATURE then Inl (finding_error FormatMagic)
      else if h ! 6 \<noteq> 0 then Inl sz_unsupported
      else if h ! 7 \<noteq> 4 then Inl sz_unsupported
      else if crc (drop 12 h) \<noteq> le_value (take 4 (drop 8 h)) then Inl (finding_error CrcMismatch)
      else
      let next_offset = le_value (take 8 (drop 12 h)); next_size = le_value (take 8 (drop 20 h)); next_crc = le_value (drop 28 h)
      in if next_size = 0 then Inl sz_unsupported
         else
         and_then (ok_or sz_structure (checked_add_u64 SIGNATURE_HEADER_LEN next_offset)) (\<lambda>header_start.
         and_then (ok_or sz_structure (checked_add_u64 header_start next_size)) (\<lambda>header_end.
         if header_end \<noteq> snapshot_len sn then Inl sz_structure
         else if SIGNATURE_HEADER_LEN + next_size > metadata_cap then Inl (finding_error QuotaMetadata)
         else
         and_then (read_vec sn header_start next_size) (\<lambda>header_bytes.
         if crc header_bytes \<noteq> next_crc then Inl (finding_error CrcMismatch)
         else Inr (header_start, next_size, next_crc, header_bytes))))))"

definition parse_copy_portable_v1 ::
  "(bytes \<Rightarrow> nat) \<Rightarrow> snapshot \<Rightarrow> nat \<Rightarrow> nat \<Rightarrow> (finding + sevenz_parsed) option"
where
  "parse_copy_portable_v1 crc sn files_cap metadata_cap =
     (case and_then (parse_signature_header crc sn metadata_cap) (\<lambda>(header_start, next_size, next_crc, header_bytes).
        and_then (parse_next_header files_cap header_bytes) (\<lambda>(streams, files).
        if length (si_folders streams) \<noteq> length (si_pack_sizes streams) then Inl sz_structure
        else
        and_then (place_folders header_start SIGNATURE_HEADER_LEN
          (zip (si_folders streams) (zip (si_pack_sizes streams) (si_pack_crcs streams)))) (\<lambda>(folders, cursor).
        if cursor \<noteq> header_start then Inl sz_structure
        else
        and_then (check_crcs crc sn folders) (\<lambda>_. Inr (header_start, next_size, next_crc, files, folders))))) of
        Inl f \<Rightarrow> Some (Inl f)
      | Inr (header_start, next_size, next_crc, (num_files, fi, names), folders) \<Rightarrow>
          (case resolve_files header_start (num_files, fi, names) folders of
             None \<Rightarrow> None
           | Some (Inl f) \<Rightarrow> Some (Inl f)
           | Some (Inr members) \<Rightarrow>
               Some (Inr \<lparr>zp_version_minor = 4, zp_pack_region = \<lparr>offset = SIGNATURE_HEADER_LEN, rlen = header_start - SIGNATURE_HEADER_LEN\<rparr>,
                 zp_next_header = \<lparr>offset = header_start, rlen = next_size\<rparr>, zp_next_header_crc = next_crc, zp_folders = folders,
                 zp_name_region_bytes = fi_name_region_bytes fi, zp_dummy_bytes = fi_dummy_bytes fi,
                 zp_metadata_bytes = SIGNATURE_HEADER_LEN + next_size, zp_members = members\<rparr>)))"

subsection \<open>Numbers have one encoding\<close>

definition le_bytes :: "nat \<Rightarrow> nat \<Rightarrow> bytes" where
  "le_bytes n v = map (\<lambda>i. of_nat (v div 256 ^ i)) [0..<n]"

text \<open>How many bits a number can have when so many bytes follow its first, and the encoding with the fewest
  bytes: as many ones as bytes follow, the highest bits, then the bytes from the lowest on.\<close>

definition number_capacity :: "nat \<Rightarrow> nat" where
  "number_capacity extra = (if extra = 8 then 64 else 7 + 7 * extra)"

definition number_encode :: "nat \<Rightarrow> bytes" where
  "number_encode v =
     (let extra = (LEAST e. v < 2 ^ number_capacity e)
      in of_nat (256 - 2 ^ (8 - extra) + v div 2 ^ (8 * extra)) # le_bytes extra v)"

text \<open>The same with the count the reader demands.\<close>

definition minimal_encode :: "nat \<Rightarrow> bytes" where
  "minimal_encode v =
     (let extra = minimal_number_extra v
      in of_nat (256 - 2 ^ (8 - extra) + v div 2 ^ (8 * extra)) # le_bytes extra v)"

lemma le_bytes_Suc: "le_bytes (Suc n) v = of_nat v # le_bytes n (v div 256)"
  unfolding le_bytes_def upt_conv_Cons [OF zero_less_Suc] list.map
  by (simp add: map_Suc_upt [symmetric] comp_def div_mult2_eq del: upt_Suc)

lemma le_value_less: "le_value bs < 256 ^ length bs"
proof (induction bs)
  case (Cons b bs)
  have "unat b < 256" by (rule unat_u8_less)
  with Cons show ?case by simp
qed simp

lemma le_bytes_value: "le_bytes (length bs) (le_value bs + 256 ^ length bs * k) = bs"
proof (induction bs arbitrary: k)
  case (Cons b bs)
  have b: "unat b < 256" by (rule unat_u8_less)
  define x where "x = le_value bs + 256 ^ length bs * k"
  have val: "le_value (b # bs) + 256 ^ length (b # bs) * k = unat b + 256 * x"
    by (simp add: x_def algebra_simps)
  have zero: "(256 :: u8) = 0" by (transfer, simp)
  have head: "of_nat (unat b + 256 * x) = b"
    unfolding of_nat_add of_nat_mult of_nat_numeral zero by simp
  have rest: "(unat b + 256 * x) div 256 = x" using b by simp
  have "le_bytes (Suc (length bs)) (unat b + 256 * x) = b # le_bytes (length bs) x"
    unfolding le_bytes_Suc rest head ..
  then show ?case using Cons.IH [of k] unfolding val x_def [symmetric] by simp
qed (simp add: le_bytes_def)

lemma le_value_bytes: "le_value (le_bytes n v) = v mod 256 ^ n"
proof (induction n arbitrary: v)
  case (Suc n)
  then show ?case
    by (simp add: le_bytes_Suc unsigned_of_nat take_bit_eq_mod mod_mult2_eq)
qed (simp add: le_bytes_def)

lemma minimal_bound:
  "minimal_number_extra v \<le> 8" "minimal_number_extra v < 7 \<Longrightarrow> v < 2 ^ (7 + 7 * minimal_number_extra v)"
  "minimal_number_extra v = 7 \<Longrightarrow> v < 2 ^ 56"
proof -
  have "minimal_number_extra v \<le> 8 \<and> (minimal_number_extra v < 7 \<longrightarrow> v < 2 ^ (7 + 7 * minimal_number_extra v)) \<and>
    (minimal_number_extra v = 7 \<longrightarrow> v < 2 ^ 56)"
  proof (cases "find (\<lambda>extra. v < 2 ^ (7 + 7 * extra)) [0..<7]")
    case (Some e)
    then have "e < 7" "v < 2 ^ (7 + 7 * e)" by (auto simp: find_Some_iff)
    with Some show ?thesis by (simp add: minimal_number_extra_def)
  qed (simp add: minimal_number_extra_def)
  then show "minimal_number_extra v \<le> 8" "minimal_number_extra v < 7 \<Longrightarrow> v < 2 ^ (7 + 7 * minimal_number_extra v)"
    "minimal_number_extra v = 7 \<Longrightarrow> v < 2 ^ 56" by blast+
qed

lemma minimal_small: "v < 128 \<Longrightarrow> minimal_number_extra v = 0"
  by (simp add: minimal_number_extra_def upt_conv_Cons)

lemma mod_interval: "k * n \<le> b \<Longrightarrow> b < k * n + n \<Longrightarrow> b mod n = b - k * n" for b :: nat
  by (metis add.commute add_less_cancel_right le_add_diff_inverse2 mod_less mod_mult_self3)

lemmas mod_intervals = mod_interval [of 2 64] mod_interval [of 6 32] mod_interval [of 14 16] mod_interval [of 30 8]
  mod_interval [of 62 4] mod_interval [of 126 2]

lemma leading_ones_split:
  assumes "b < 256"
  shows "leading_ones b \<le> 8 \<and>
     b = 256 - 2 ^ (8 - leading_ones b) + (if leading_ones b \<ge> 7 then 0 else b mod 2 ^ (7 - leading_ones b))"
proof -
  consider "b < 0x80" | "0x80 \<le> b" "b < 0xC0" | "0xC0 \<le> b" "b < 0xE0" | "0xE0 \<le> b" "b < 0xF0" | "0xF0 \<le> b" "b < 0xF8"
    | "0xF8 \<le> b" "b < 0xFC" | "0xFC \<le> b" "b < 0xFE" | "b = 0xFE" | "b = 0xFF" using assms by linarith
  then show ?thesis by cases (simp_all add: leading_ones_def mod_intervals [simplified])
qed

lemma leading_ones_join:
  assumes "e \<le> 8" "m < 2 ^ (7 - e)"
  shows "leading_ones (256 - 2 ^ (8 - e) + m) = e \<and> 256 - 2 ^ (8 - e) + m < 256 \<and> (256 - 2 ^ (8 - e) + m) mod 2 ^ (7 - e) = m"
proof -
  consider "e = 0" | "e = 1" | "e = 2" | "e = 3" | "e = 4" | "e = 5" | "e = 6" | "e = 7" | "e = 8" using assms(1) by linarith
  then show ?thesis using assms(2) by cases (simp_all add: leading_ones_def mod_intervals [simplified])
qed

lemma pow_256: "(256 :: nat) ^ e = 2 ^ (8 * e)"
  by (simp add: power_mult)

lemma top_bits:
  assumes "e \<le> 8" "m < 2 ^ (7 - e)" "t < 256 ^ e"
  shows "m * 2 ^ (8 * e) + t < (2 :: nat) ^ 64"
proof -
  have "m * 2 ^ (8 * e) + t < (m + 1) * 2 ^ (8 * e)" using assms(3) by (simp add: pow_256)
  also have "\<dots> \<le> 2 ^ (7 - e) * 2 ^ (8 * e)" using assms(2) by (intro mult_right_mono) auto
  also have "\<dots> = 2 ^ (7 - e + 8 * e)" by (simp add: power_add)
  also have "\<dots> \<le> 2 ^ 64" using assms(1) by (intro power_increasing) auto
  finally show ?thesis .
qed

lemma minimal_top:
  assumes "v < 2 ^ 64"
  shows "v div 2 ^ (8 * minimal_number_extra v) < 2 ^ (7 - minimal_number_extra v)"
proof -
  let ?e = "minimal_number_extra v"
  have "v < 2 ^ (7 - ?e) * 2 ^ (8 * ?e)"
  proof -
    consider "?e < 7" | "?e = 7" | "?e = 8" using minimal_bound(1) [of v] by linarith
    then show ?thesis
    proof cases
      case 1
      then have "(2 :: nat) ^ (7 - ?e) * 2 ^ (8 * ?e) = 2 ^ (7 + 7 * ?e)" by (simp flip: power_add)
      then show ?thesis using minimal_bound(2) [OF 1] by simp
    next
      case 2
      then show ?thesis using minimal_bound(3) [OF 2] by simp
    qed (use assms in simp)
  qed
  then show ?thesis by (simp add: less_mult_imp_div_less)
qed

lemma of_nat_u8_inj: "(of_nat a :: u8) = of_nat b \<Longrightarrow> a < 256 \<Longrightarrow> b < 256 \<Longrightarrow> a = b"
  by (drule arg_cong [of _ _ unat]) (simp add: unsigned_of_nat take_bit_eq_mod)

lemma number_tail_step:
  "number_tail b bs = Inr (v, rest) \<longleftrightarrow>
     (\<exists>front. hr_take (leading_ones b) bs = Inr (front, rest) \<and>
        v = (if leading_ones b \<ge> 7 then 0 else b mod 2 ^ (7 - leading_ones b)) * 2 ^ (8 * leading_ones b) + le_value front \<and>
        leading_ones b = minimal_number_extra v)"
  unfolding number_tail_def Let_def
  by (cases "hr_take (leading_ones b) bs") (auto simp: and_then_def split del: if_split split: prod.splits if_split_asm)

lemma number_tail_encode:
  assumes "0 < leading_ones b" "b < 256"
  shows "number_tail b bs = Inr (v, rest) \<longleftrightarrow> v < 2 ^ 64 \<and> of_nat b # bs = minimal_encode v @ rest"
proof
  define e where "e = leading_ones b"
  define m where "m = (if e \<ge> 7 then 0 else b mod 2 ^ (7 - e))"
  have split: "e \<le> 8" "b = 256 - 2 ^ (8 - e) + m" using leading_ones_split [OF assms(2)] unfolding m_def e_def by blast+
  have m: "m < 2 ^ (7 - e)" by (simp add: m_def)
  assume "number_tail b bs = Inr (v, rest)"
  then obtain front where step: "hr_take e bs = Inr (front, rest)" and front4: "v = m * 2 ^ (8 * e) + le_value front"
    and front5: "e = minimal_number_extra v"
    using number_tail_step [of b bs v rest] unfolding e_def [symmetric] m_def [symmetric] by blast
  have front: "e \<le> length bs" "front = take e bs" "rest = drop e bs"
    using step by (simp_all add: hr_take_def split: if_splits)
  have len: "length front = e" using front(1,2) by simp
  then have t: "le_value front < 256 ^ e" using le_value_less [of front] by simp
  have "v div 2 ^ (8 * e) = m" using t unfolding front4 by (simp add: pow_256)
  moreover have "le_bytes e v = front"
    using le_bytes_value [of front m] unfolding len front4 pow_256 by (simp add: ac_simps)
  ultimately show "v < 2 ^ 64 \<and> of_nat b # bs = minimal_encode v @ rest"
    using top_bits [OF split(1) m t] front(2,3) front4 split(2)
    unfolding minimal_encode_def Let_def front5 [symmetric] by simp
next
  assume r: "v < 2 ^ 64 \<and> of_nat b # bs = minimal_encode v @ rest"
  define e where "e = minimal_number_extra v"
  define m where "m = v div 2 ^ (8 * e)"
  have e: "e \<le> 8" and m: "m < 2 ^ (7 - e)"
    using minimal_bound(1) [of v] minimal_top [of v] r unfolding e_def m_def by blast+
  note join = leading_ones_join [OF e m]
  have "(of_nat b :: u8) = of_nat (256 - 2 ^ (8 - e) + m)" and bs: "bs = le_bytes e v @ rest"
    using r unfolding minimal_encode_def Let_def e_def [symmetric] m_def [symmetric] by auto
  then have b: "b = 256 - 2 ^ (8 - e) + m"
    using of_nat_u8_inj [OF _ assms(2)] join by blast
  have len: "length (le_bytes e v) = e" by (simp add: le_bytes_def)
  have bits: "(if e \<ge> 7 then 0 else b mod 2 ^ (7 - e)) = m" using join m unfolding b by auto
  have "m * 2 ^ (8 * e) + le_value (le_bytes e v) = v"
    unfolding le_value_bytes m_def pow_256 by (rule div_mult_mod_eq)
  moreover have "hr_take e bs = Inr (le_bytes e v, rest)" unfolding hr_take_def bs using len by simp
  moreover have "leading_ones b = e" unfolding b using join by blast
  ultimately show "number_tail b bs = Inr (v, rest)"
    unfolding number_tail_step using bits e_def by (intro exI [of _ "le_bytes e v"]) (simp only: simp_thms)
qed

lemma minimal_encode_first:
  assumes "v < 2 ^ 64"
  shows "\<exists>b. minimal_encode v = of_nat b # le_bytes (leading_ones b) v \<and> b < 256 \<and> leading_ones b = minimal_number_extra v \<and>
    b = 256 - 2 ^ (8 - minimal_number_extra v) + v div 2 ^ (8 * minimal_number_extra v)"
  using leading_ones_join [OF minimal_bound(1) minimal_top [OF assms]] unfolding minimal_encode_def Let_def by force

lemma hr_number_minimal: "hr_number bs = Inr (v, rest) \<longleftrightarrow> v < 2 ^ 64 \<and> bs = minimal_encode v @ rest"
proof (cases bs)
  case Nil
  then show ?thesis by (simp add: hr_number_def hr_byte_def and_then_def minimal_encode_def Let_def)
next
  case (Cons b bs')
  have b: "unat b < 256" by (rule unat_u8_less)
  show ?thesis
  proof (cases "leading_ones (unat b) = 0")
    case False
    then show ?thesis using number_tail_encode [OF _ b, of bs' v rest] Cons
      by (simp add: hr_number_def hr_byte_def and_then_def)
  next
    case True
    then have small: "unat b < 128" by (simp add: leading_ones_def split: if_splits)
    then have own: "minimal_encode (unat b) = [b]" by (simp add: minimal_encode_def minimal_small le_bytes_def)
    have "hr_number bs = Inr (unat b, bs')" using Cons True by (simp add: hr_number_def hr_byte_def and_then_def)
    moreover have "unat b = v \<and> bs' = rest" if r: "v < 2 ^ 64" "b # bs' = minimal_encode v @ rest"
    proof -
      obtain c where c: "minimal_encode v = of_nat c # le_bytes (leading_ones c) v" "c < 256" "leading_ones c = minimal_number_extra v"
        "c = 256 - 2 ^ (8 - minimal_number_extra v) + v div 2 ^ (8 * minimal_number_extra v)"
        using minimal_encode_first [OF r(1)] by blast
      have "b = of_nat c" using r(2) c(1) by simp
      then have bc: "unat b = c" using of_nat_u8_inj [of "unat b" c] b c(2) by simp
      then have "minimal_number_extra v = 0" using True c(3) by simp
      then show ?thesis using r(2) c(1,3,4) bc by (simp add: le_bytes_def)
    qed
    ultimately show ?thesis using own small Cons by auto
  qed
qed

lemma minimal_number_extra_least:
  assumes "v < 2 ^ 64"
  shows "minimal_number_extra v = (LEAST e. v < 2 ^ number_capacity e)"
proof (rule Least_equality [symmetric])
  let ?e = "minimal_number_extra v"
  have "?e < 7 \<or> ?e = 7 \<or> ?e = 8" using minimal_bound(1) [of v] by linarith
  then show "v < 2 ^ number_capacity ?e"
    using minimal_bound(2,3) [of v] assms by (auto simp: number_capacity_def)
  fix e
  assume e: "v < 2 ^ number_capacity e"
  show "?e \<le> e"
  proof (rule ccontr)
    assume "\<not> ?e \<le> e"
    then have less: "e < ?e" by simp
    then have small: "e < 8" using minimal_bound(1) [of v] by linarith
    with e have lt: "v < 2 ^ (7 + 7 * e)" by (simp add: number_capacity_def)
    show False
    proof (cases "find (\<lambda>extra. v < 2 ^ (7 + 7 * extra)) [0..<7]")
      case (Some x)
      then have "x = ?e" by (simp add: minimal_number_extra_def)
      with Some less lt show False by (auto simp: find_Some_iff)
    next
      case None
      then have "\<not> e < 7" using lt by (auto simp: find_None_iff)
      with small have "e = 7" by simp
      with lt have "v < 2 ^ 56" by simp
      then have "?e \<le> 7" using None by (simp add: minimal_number_extra_def)
      with less \<open>e = 7\<close> show False by simp
    qed
  qed
qed

lemma hr_number_encode: "hr_number bs = Inr (v, rest) \<longleftrightarrow> v < 2 ^ 64 \<and> bs = number_encode v @ rest"
proof -
  have "number_encode v = minimal_encode v" if "v < 2 ^ 64"
    using minimal_number_extra_least [OF that] by (simp only: number_encode_def minimal_encode_def)
  then show ?thesis using hr_number_minimal [of bs v rest] by auto
qed

subsection \<open>Properties\<close>

text \<open>C22. Every number of a 7z header has exactly one encoding. The reader returns a number exactly when it is
  a 64-bit one and the bytes begin with the encoding of the number that uses the fewest bytes, and it consumes
  exactly that encoding; every longer encoding is refused.\<close>

theorem sevenz_numbers_canonical:
  "hr_number bs = Inr (v, rest) \<longleftrightarrow> v < 2 ^ 64 \<and> bs = number_encode v @ rest"
  by (rule hr_number_encode)

end
