(* ===== verification/SevenZAudit.thy ===== *)
theory SevenZAudit
  imports SevenZ
begin

text \<open>
  The 7z reader against its covering audit: members and evidence as \<open>ir.rs\<close> and \<open>apply.rs\<close> build them from
  what \<open>sevenz.rs\<close> parsed. The reader never reaches its \<open>expect\<close>, and what it accepts the audit accepts.
\<close>

definition from_sevenz_planned :: "sevenz_member \<Rightarrow> rust_str list \<Rightarrow> normalization_action list \<Rightarrow> ir_member" where
  "from_sevenz_planned m components actions =
     \<lparr>im_raw_name_bytes = zm_raw_name_bytes m, im_decoded_name = zm_name m, im_canonical_path = join_on slash components,
      im_components = components, im_kind = (if zm_is_dir m then MemberDirectory else MemberFile),
      im_declared_uncomp_size = zm_size m,
      im_evidence = MemSevenZ \<lparr>se_payload = zm_payload m, se_declared_crc = zm_declared_crc m,
        se_attributes = zm_attributes m, se_mtime = zm_mtime m\<rparr>,
      im_actual_uncomp_size = None, im_actual_crc = None, im_content_sha256 = None, im_verification = Pending,
      im_normalization_actions = actions\<rparr>"

definition with_sevenz :: "source_digest \<Rightarrow> sevenz_archive_evidence \<Rightarrow> ir_member list \<Rightarrow> archive_ir" where
  "with_sevenz digest evidence members = \<lparr>ir_source_digest = digest, ir_evidence = ArcSevenZ evidence, ir_members = members\<rparr>"

definition sevenz_evidence_of :: "sevenz_parsed \<Rightarrow> sevenz_archive_evidence" where
  "sevenz_evidence_of p =
     \<lparr>sa_version_minor = zp_version_minor p, sa_pack_region = zp_pack_region p, sa_next_header = zp_next_header p,
      sa_next_header_crc = zp_next_header_crc p, sa_folders = zp_folders p, sa_name_region_bytes = zp_name_region_bytes p,
      sa_dummy_bytes = zp_dummy_bytes p\<rparr>"

subsection \<open>Shapes of what is read\<close>

lemma read_flagged_length: "read_flagged r flags bs = Inr (vs, rest) \<Longrightarrow> length vs = length flags"
  by (induction r flags bs arbitrary: vs rest rule: read_flagged.induct) (fastforce simp: and_then_eq_Inr split: if_splits)+

lemma bit_vector_length: "bit_vector n bs = Inr (v, rest) \<Longrightarrow> length v = n"
  by (auto simp: bit_vector_def and_then_eq_Inr Let_def split: if_splits)

lemma defined_vector_length: "parse_defined_vector n bs = Inr (v, rest) \<Longrightarrow> length v = n"
  by (auto simp: parse_defined_vector_def and_then_eq_Inr split: if_splits dest: bit_vector_length)

lemma time_record_length: "parse_time_record n bs = Inr (v, rest) \<Longrightarrow> length v = n"
  by (auto simp: parse_time_record_def and_then_eq_Inr split: if_splits dest!: read_flagged_length defined_vector_length)

lemma decode_names_length: "decode_names region n = Inr names \<Longrightarrow> length names = n"
  by (auto simp: decode_names_def and_then_eq_Inr split: if_splits)

lemma read_sized_length: "read_sized n c bs = Inr ((sizes, c'), rest) \<Longrightarrow> length sizes = n"
  by (induction n c bs arbitrary: sizes c' rest rule: read_sized.induct) (fastforce simp: and_then_eq_Inr)+

lemma folder_sizes_length: "folder_sizes count unpack bs = Inr (sizes, rest) \<Longrightarrow> length sizes = count"
  by (auto simp: folder_sizes_def and_then_eq_Inr split: if_splits dest!: read_sized_length)

lemma explicit_sizes_lengths:
  "explicit_sizes fs bs = Inr (szs, rest) \<Longrightarrow> list_all2 (\<lambda>(count, _) sizes. length sizes = count) fs szs"
  by (induction fs bs arbitrary: szs rest rule: explicit_sizes.induct)
    (auto simp: and_then_eq_Inr dest: folder_sizes_length)

text \<open>A parsed folder has no empty substream and a digest slot for each.\<close>

definition folder_wf :: "parsed_folder \<Rightarrow> bool" where
  "folder_wf f \<longleftrightarrow> 0 \<notin> set (pf_substream_sizes f) \<and> length (pf_substream_crcs f) = length (pf_substream_sizes f)"

lemma build_folders_wf:
  assumes "build_folders digests fs cursor = Inr (folders, cursor')"
    and "\<forall>(count, _, _, explicit) \<in> set fs. \<forall>sizes. explicit = Some sizes \<longrightarrow> length sizes = count"
  shows "\<forall>f \<in> set folders. folder_wf f"
  using assms
  by (induction digests fs cursor arbitrary: folders cursor' rule: build_folders.induct)
    (fastforce simp: and_then_eq_Inr Let_def folder_wf_def split: if_splits option.splits prod.splits)+

lemma optional_sizes:
  assumes "optional_part ident (explicit_sizes fs) [] property bs = Inr ((sizes, property'), rest)"
  shows "sizes = [] \<or> list_all2 (\<lambda>(count, _) s. length s = count) fs sizes"
  using assms by (auto simp: optional_part_def and_then_eq_Inr split: if_splits dest: explicit_sizes_lengths)

lemma parse_substreams_sizes:
  assumes "parse_substreams_info us cs bs = Inr (su, rest)"
  shows "su_sizes su = [] \<or> list_all2 (\<lambda>(count, _) s. length s = count) (zip (su_counts su) us) (su_sizes su)"
  using assms
  by (auto simp: parse_substreams_info_def and_then_eq_Inr Let_def split: if_splits prod.splits dest!: optional_sizes)

lemma zipped_sizes:
  assumes "list_all2 (\<lambda>(count, _) s. length s = count) (zip counts us) sizes"
    "(count, u, c, explicit) \<in> set (zip counts (zip us (zip cs (map Some sizes))))" "explicit = Some s"
  shows "length s = count"
proof -
  from assms(2) obtain i where i: "i < length counts" "i < length us" "i < length sizes"
    "count = counts ! i" "explicit = Some (sizes ! i)"
    by (auto simp: in_set_zip)
  then show ?thesis using list_all2_nthD [OF assms(1), of i] assms(3) by simp
qed

lemma and_then_InrE: "and_then m f = Inr y \<Longrightarrow> (\<And>x. m = Inr x \<Longrightarrow> f x = Inr y \<Longrightarrow> P) \<Longrightarrow> P"
  by (auto simp: and_then_eq_Inr)

lemma if_InlE: "(if c then Inl e else m) = Inr y \<Longrightarrow> (\<not> c \<Longrightarrow> m = Inr y \<Longrightarrow> P) \<Longrightarrow> P"
  by (simp split: if_splits)

lemma unsized_folders:
  assumes "build_folders digests (zip counts (zip us (zip cs (replicate n None)))) c = Inr (folders, c')" "f \<in> set folders"
  shows "folder_wf f"
proof -
  have "\<forall>(count, _, _, explicit) \<in> set (zip counts (zip us (zip cs (replicate n None)))).
      \<forall>sizes. explicit = Some sizes \<longrightarrow> length sizes = count"
    by (auto simp: in_set_zip)
  from build_folders_wf [OF assms(1) this] assms(2) show ?thesis by blast
qed

lemma sized_folders:
  assumes "build_folders digests (zip (su_counts su) (zip us (zip cs (map Some (su_sizes su))))) c = Inr (folders, c')"
    "parse_substreams_info us cs' bs = Inr (su, rest)" "su_sizes su \<noteq> []" "f \<in> set folders"
  shows "folder_wf f"
proof -
  have "\<forall>(count, _, _, explicit) \<in> set (zip (su_counts su) (zip us (zip cs (map Some (su_sizes su))))).
      \<forall>sizes. explicit = Some sizes \<longrightarrow> length sizes = count"
    using parse_substreams_sizes [OF assms(2)] assms(3) zipped_sizes by fastforce
  from build_folders_wf [OF assms(1) this] assms(4) show ?thesis by blast
qed

lemma parse_streams_wf:
  assumes "parse_streams_info bs = Inr (si, rest)"
  shows "\<forall>f \<in> set (si_folders si). folder_wf f"
  using assms unfolding parse_streams_info_def Let_def split_beta
  by (elim and_then_InrE if_InlE)
    (auto split: if_split_asm elim!: and_then_InrE intro: unsized_folders sized_folders)

text \<open>The file records have one entry per file.\<close>

definition files_wf :: "nat \<Rightarrow> files_info \<Rightarrow> bool" where
  "files_wf n fi \<longleftrightarrow>
     (\<forall>bits. fi_empty_stream fi = Some bits \<longrightarrow> length bits = n) \<and> length (fi_attributes fi) = n \<and> length (fi_mtimes fi) = n \<and>
     (\<forall>names. fi_names fi = Some names \<longrightarrow> length names = n)"

lemma files_property_wf:
  assumes "files_property n ident sz fi bs = Inr (fi', rest)" "files_wf n fi"
  shows "files_wf n fi'"
  using assms unfolding files_property_def
  by (auto simp: and_then_eq_Inr files_wf_def overlay_def split: if_splits
      dest!: bit_vector_length decode_names_length time_record_length read_flagged_length defined_vector_length)

lemma files_loop_wf: "files_loop n fi bs = Inr (fi', rest) \<Longrightarrow> files_wf n fi \<Longrightarrow> files_wf n fi'"
proof (induction n fi bs rule: files_loop.induct)
  case (1 n fi bs)
  from 1(2) 1(1,3) show ?case
    by (subst (asm) files_loop.simps) (auto split: sum.splits prod.splits if_splits, metis files_property_wf)
qed

lemma parse_files_wf: "parse_files_info c bs = Inr ((n, fi, names), rest) \<Longrightarrow> files_wf n fi \<and> length names = n \<and> n \<le> c"
  unfolding parse_files_info_def
  by (auto simp: and_then_eq_Inr split: if_splits dest!: files_loop_wf)
    (auto simp: files_wf_def ok_or_def split: option.splits)

definition streams_wf :: "streams_info option \<Rightarrow> bool" where
  "streams_wf streams \<longleftrightarrow> (\<forall>si. streams = Some si \<longrightarrow> (\<forall>f \<in> set (si_folders si). folder_wf f))"

definition records_wf :: "nat \<Rightarrow> (nat \<times> files_info \<times> (bytes \<times> rust_str) list) option \<Rightarrow> bool" where
  "records_wf c files \<longleftrightarrow> (\<forall>n fi names. files = Some (n, fi, names) \<longrightarrow> files_wf n fi \<and> length names = n \<and> n \<le> c)"

lemma header_loop_wf:
  "header_loop c streams files bs = Inr ((streams', files'), rest) \<Longrightarrow> streams_wf streams \<Longrightarrow> records_wf c files \<Longrightarrow>
     streams_wf streams' \<and> records_wf c files'"
proof (induction c streams files bs rule: header_loop.induct)
  case (1 c streams files bs)
  have si: "streams_wf (Some si)" if "parse_streams_info b = Inr (si, r)" for si b r
    using parse_streams_wf [OF that] by (simp add: streams_wf_def)
  have fi: "records_wf c (Some x)" if "parse_files_info c b = Inr (x, r)" for x b r
    using that by (cases x) (auto simp: records_wf_def dest: parse_files_wf)
  from 1(3) 1(1,2,4,5) si fi show ?case
    by (subst (asm) header_loop.simps) (auto split: sum.splits prod.splits if_splits)
qed

lemma parse_next_header_wf:
  assumes "parse_next_header c bs = Inr (si, n, fi, names)"
  shows "(\<forall>f \<in> set (si_folders si). folder_wf f) \<and> files_wf n fi \<and> length names = n \<and> n > 0 \<and> n \<le> c"
proof -
  from assms obtain first bs1 streams bs2 where loop: "header_loop c None None bs1 = Inr ((streams, Some (n, fi, names)), bs2)"
    and si: "si = (case streams of Some si \<Rightarrow> si | None \<Rightarrow> \<lparr>si_pack_sizes = [], si_pack_crcs = [], si_folders = []\<rparr>)" and n: "n > 0"
    unfolding parse_next_header_def
    by (elim and_then_InrE) (auto split: if_splits prod.splits option.splits elim!: and_then_InrE simp: ok_or_def)
  have "streams_wf streams \<and> records_wf c (Some (n, fi, names))"
    using header_loop_wf [OF loop] by (simp add: streams_wf_def records_wf_def)
  then show ?thesis using si n by (auto simp: streams_wf_def records_wf_def split: option.splits)
qed

subsection \<open>Placement\<close>

definition sub_nonempty :: "sevenz_substream_evidence \<Rightarrow> bool" where
  "sub_nonempty s \<longleftrightarrow> rlen (ss_payload s) \<noteq> 0"

lemma place_substreams_audited:
  "place_substreams c xs = Inr (subs, c') \<Longrightarrow> \<forall>x \<in> set xs. fst x \<noteq> 0 \<Longrightarrow>
     audit_sevenz_substreams subs c = Inr c' \<and> (\<forall>s \<in> set subs. sub_nonempty s)"
  by (induction c xs arbitrary: subs c' rule: place_substreams.induct)
    (auto simp: and_then_eq_Inr checked_range_end_def sub_nonempty_def ok_or_def split: option.splits)

lemma check_crc_read:
  assumes "check_crc crc sn r declared = Inr ()" "read_vec sn (offset r) (rlen r) = Inr data"
  shows "\<not> (case declared of Some c \<Rightarrow> crc data \<noteq> c | None \<Rightarrow> False)"
  using assms by (auto simp: check_crc_def split: option.splits if_splits)

lemma readable_read_vec: "readable sn \<Longrightarrow> a + n \<le> snapshot_len sn \<Longrightarrow> read_vec sn a n = Inr (slice_of a (a + n) (content sn))"
  unfolding read_vec_eq by (rule read_exact_at_memory) (auto simp: in_bounds_def snapshot_ok_def)

lemma place_folders_audited:
  assumes "place_folders hs c fs = Inr (folders, c')" "\<forall>x \<in> set fs. folder_wf (fst x)" "check_crcs crc sn folders = Inr ()"
    "readable sn" "hs \<le> snapshot_len sn"
  shows "audit_sevenz_folders crc sn folders c = Inr c' \<and> (\<forall>f \<in> set folders. \<forall>s \<in> set (sf_substreams f). sub_nonempty s)"
  using assms(1,2,3)
proof (induction fs arbitrary: c folders)
  case (Cons x fs)
  obtain folder pack_size pack_crc where x: "x = (folder, pack_size, pack_crc)" by (cases x)
  from Cons.prems(1) obtain next_c subs last_c rest where step: "pf_unpack_size folder = pack_size" "checked_add_u64 c pack_size = Some next_c"
    "next_c \<le> hs" "place_substreams c (zip (pf_substream_sizes folder) (pf_substream_crcs folder)) = Inr (subs, c + pack_size)"
    "place_folders hs next_c fs = Inr (rest, c')"
    "folders = \<lparr>sf_pack_stream = \<lparr>offset = c, rlen = pack_size\<rparr>, sf_pack_crc = pack_crc, sf_unpack_size = pf_unpack_size folder,
            sf_folder_crc = pf_folder_crc folder, sf_substreams = subs\<rparr> # rest"
    unfolding x by (auto simp: ok_or_def elim!: and_then_InrE split: if_splits option.splits)
  have c: "next_c = c + pack_size" using step(2) by (auto simp: checked_add_u64_def split: if_splits)
  have crcs: "check_crc crc sn \<lparr>offset = c, rlen = pack_size\<rparr> pack_crc = Inr ()"
    "check_crc crc sn \<lparr>offset = c, rlen = pack_size\<rparr> (pf_folder_crc folder) = Inr ()" "check_crcs crc sn rest = Inr ()"
    using Cons.prems(3) unfolding step(6) by (auto elim!: and_then_InrE)
  have read: "read_vec sn c pack_size = Inr (slice_of c (c + pack_size) (content sn))"
    using step(3) c assms(4,5) by (intro readable_read_vec) auto
  have "folder_wf folder" and rest_wf: "\<forall>x \<in> set fs. folder_wf (fst x)" using Cons.prems(2) x by simp_all
  then have "\<forall>x \<in> set (zip (pf_substream_sizes folder) (pf_substream_crcs folder)). fst x \<noteq> 0"
    unfolding folder_wf_def by (metis set_zip_leftD prod.collapse)
  note subs = place_substreams_audited [OF step(4) this]
  note ih = Cons.IH [OF step(5) rest_wf crcs(3)]
  show ?case
    using ih subs step(1,2) check_crc_read [OF crcs(1)] check_crc_read [OF crcs(2)] read c
    unfolding step(6) by (simp add: checked_range_end_def checked_add_u64_def Let_def)
qed simp

subsection \<open>Members\<close>

abbreviation planned_sevenz :: "sevenz_member \<times> rust_str list \<times> normalization_action list \<Rightarrow> ir_member" where
  "planned_sevenz \<equiv> (\<lambda>(m, components, actions). from_sevenz_planned m components actions)"

lemma from_sevenz_planned_sel [simp]:
  "im_evidence (from_sevenz_planned m parts acts) =
     MemSevenZ \<lparr>se_payload = zm_payload m, se_declared_crc = zm_declared_crc m, se_attributes = zm_attributes m, se_mtime = zm_mtime m\<rparr>"
  "im_declared_uncomp_size (from_sevenz_planned m parts acts) = zm_size m"
  by (simp_all add: from_sevenz_planned_def)

abbreviation streams_left :: "((bytes \<times> rust_str) \<times> bool \<times> nat option \<times> nat option) list \<Rightarrow> nat" where
  "streams_left files \<equiv> length (filter (\<lambda>f. \<not> fst (snd f)) files)"

lemma resolve_members_total:
  "streams_left files = length subs \<Longrightarrow> resolve_members hs files empty_files subs \<noteq> None"
proof (induction files arbitrary: empty_files subs)
  case (Cons f files)
  obtain raw name is_empty attributes mtime where f: "f = ((raw, name), is_empty, attributes, mtime)" by (cases f) auto
  show ?case
  proof (cases is_empty)
    case True
    with Cons.prems f have "streams_left files = length subs" by simp
    from Cons.IH [OF this] True show ?thesis
      unfolding f by (simp split: list.split option.split sum.split) (metis option.distinct(1))
  next
    case False
    with Cons.prems f obtain s subs' where subs: "subs = s # subs'" "streams_left files = length subs'"
      by (cases subs) auto
    from Cons.IH [OF subs(2)] False show ?thesis
      unfolding f subs(1) by (simp split: option.split sum.split) (metis option.distinct(1))
  qed
qed simp

lemma resolve_members_audited:
  "\<lbrakk>resolve_members hs files empty_files subs = Some (Inr (map fst ps)); streams_left files = length subs;
    \<forall>s \<in> set subs. sub_nonempty s\<rbrakk> \<Longrightarrow> audit_sevenz_members hs (map planned_sevenz ps) subs = Inr []"
proof (induction files arbitrary: empty_files subs ps)
  case (Cons f files)
  obtain raw name is_empty attributes mtime where f: "f = ((raw, name), is_empty, attributes, mtime)" by (cases f) auto
  have conv: "m # ms = map fst ps \<longleftrightarrow> (\<exists>parts acts qs. ps = (m, parts, acts) # qs \<and> ms = map fst qs)" for m ms
    by (cases ps) auto
  show ?case
  proof (cases is_empty)
    case True
    with Cons.prems(2) f have len: "streams_left files = length subs" by simp
    from Cons.prems(1) True obtain e empty_files' m parts acts qs where
      "resolve_members hs files empty_files' subs = Some (Inr (map fst qs))" "ps = (m, parts, acts) # qs"
      "zm_payload m = \<lparr>offset = hs, rlen = 0\<rparr>" "zm_declared_crc m = None"
      unfolding f by (auto simp: conv split: list.splits option.splits sum.splits if_splits; blast)
    with Cons.IH [OF _ len Cons.prems(3)] show ?thesis by simp
  next
    case False
    with Cons.prems(2) f obtain s subs' where subs: "subs = s # subs'" "streams_left files = length subs'"
      by (cases subs) auto
    have ne: "rlen (ss_payload s) \<noteq> 0" "\<forall>s \<in> set subs'. sub_nonempty s"
      using Cons.prems(3) subs(1) by (simp_all add: sub_nonempty_def)
    from Cons.prems(1) False obtain m parts acts qs where
      "resolve_members hs files empty_files subs' = Some (Inr (map fst qs))" "ps = (m, parts, acts) # qs"
      "zm_payload m = ss_payload s" "zm_declared_crc m = ss_declared_crc s" "zm_size m = rlen (ss_payload s)"
      unfolding f subs(1) by (auto simp: conv split: option.splits sum.splits if_splits)
    with Cons.IH [OF _ subs(2) ne(2)] ne(1) show ?thesis by (simp add: subs(1))
  qed
qed simp

lemma resolve_members_length:
  "resolve_members hs files empty_files subs = Some (Inr ms) \<Longrightarrow> length ms = length files"
proof (induction files arbitrary: empty_files subs ms)
  case (Cons f files)
  obtain raw name is_empty attributes mtime where f: "f = ((raw, name), is_empty, attributes, mtime)" by (cases f) auto
  from Cons.prems show ?case
    unfolding f by (auto split: if_splits list.splits option.splits sum.splits dest: Cons.IH)
qed simp

lemma filter_zipped_bits:
  assumes "length names = length bits" "length rest = length bits"
  shows "streams_left (zip names (zip bits rest)) = length bits - length (filter id bits)"
proof -
  have "map (\<lambda>f. fst (snd f)) (zip names (zip bits rest)) = bits"
    using assms by (simp flip: map_map [unfolded comp_def])
  then have "length (filter Not (map (\<lambda>f. fst (snd f)) (zip names (zip bits rest)))) = length (filter Not bits)" by (rule arg_cong)
  then have "streams_left (zip names (zip bits rest)) = length (filter Not bits)" by (simp add: filter_map comp_def)
  then show ?thesis using sum_length_filter_compl [of id bits] by simp
qed

text \<open>The resolution of files with well-formed records.\<close>

lemma resolve_files_audited:
  assumes "files_wf n fi" "length names = n" "\<forall>f \<in> set folders. \<forall>s \<in> set (sf_substreams f). sub_nonempty s"
  shows "resolve_files hs (n, fi, names) folders \<noteq> None"
    "resolve_files hs (n, fi, names) folders = Some (Inr (map fst ps)) \<Longrightarrow>
       length ps = n \<and> audit_sevenz_members hs (map planned_sevenz ps) (concat (map sf_substreams folders)) = Inr []"
proof -
  define bits where "bits = (case fi_empty_stream fi of Some bits \<Rightarrow> bits | None \<Rightarrow> replicate n False)"
  define subs where "subs = concat (map sf_substreams folders)"
  define files where "files = zip names (zip bits (zip (fi_attributes fi) (fi_mtimes fi)))"
  define ef where "ef = (case fi_empty_file fi of Some bs \<Rightarrow> bs | None \<Rightarrow> replicate (length (filter id bits)) False)"
  have lens: "length bits = n" "length (zip (fi_attributes fi) (fi_mtimes fi)) = n"
    using assms(1) by (auto simp: bits_def files_wf_def split: option.split)
  then have left: "streams_left files = n - length (filter id bits)" and len: "length files = n"
    using filter_zipped_bits [of names bits] assms(2) by (simp_all add: files_def)
  have ne: "\<forall>s \<in> set subs. sub_nonempty s" using assms(3) by (auto simp: subs_def)
  have eq: "resolve_files hs (n, fi, names) folders =
      (if n - length (filter id bits) \<noteq> length subs then Some (Inl sz_structure) else resolve_members hs files ef subs)"
    unfolding resolve_files_def Let_def prod.case bits_def subs_def files_def ef_def using assms(2) by simp
  show "resolve_files hs (n, fi, names) folders \<noteq> None"
    unfolding eq using left by (auto dest: resolve_members_total [of files subs hs ef])
  assume "resolve_files hs (n, fi, names) folders = Some (Inr (map fst ps))"
  then have "n - length (filter id bits) = length subs" "resolve_members hs files ef subs = Some (Inr (map fst ps))"
    unfolding eq by (simp_all split: if_splits)
  with resolve_members_audited [of hs files ef subs ps] resolve_members_length [of hs files ef subs] left ne len
  show "length ps = n \<and> audit_sevenz_members hs (map planned_sevenz ps) (concat (map sf_substreams folders)) = Inr []"
    by (simp add: subs_def [symmetric])
qed

subsection \<open>The header\<close>

lemma number_encode_1: "number_encode 1 = [1]"
  using minimal_number_extra_least [of 1, symmetric] by (simp add: number_encode_def minimal_small le_bytes_def)

lemma next_header_first:
  assumes "parse_next_header c bs = Inr x"
  shows "bs \<noteq> [] \<and> hd bs = 1"
proof -
  from assms obtain rest where "hr_number bs = Inr (1, rest)"
    unfolding parse_next_header_def by (auto simp: and_then_eq_Inr K_HEADER_def K_ENCODED_HEADER_def split: if_splits)
  then show ?thesis unfolding hr_number_encode number_encode_1 by simp
qed

lemma signature_header_audited:
  assumes "parse_signature_header crc sn mc = Inr (hs, n, c, hb)" "hb \<noteq> []" "hd hb = 1"
    and "sa_version_minor ev = 4" "sa_next_header ev = \<lparr>offset = hs, rlen = n\<rparr>" "sa_next_header_crc ev = c"
    and "sa_pack_region ev = \<lparr>offset = 32, rlen = hs - 32\<rparr>"
  shows "audit_sevenz_headers crc sn ev = Inr () \<and> hs + n = snapshot_len sn \<and> 32 \<le> hs \<and> 32 + n \<le> mc"
proof -
  from assms(1) obtain h where h: "read_exact_at sn 0 32 = Inr h" "take 6 h = SEVENZ_SIGNATURE" "h ! 6 = 0" "h ! 7 = 4"
    "crc (drop 12 h) = le_value (take 4 (drop 8 h))" "n = le_value (take 8 (drop 20 h))" "c = le_value (drop 28 h)"
    "checked_add_u64 32 (le_value (take 8 (drop 12 h))) = Some hs" "checked_add_u64 hs n = Some (snapshot_len sn)"
    "32 + n \<le> mc" "read_vec sn hs n = Inr hb" "crc hb = c"
    unfolding parse_signature_header_def SIGNATURE_HEADER_LEN_def Let_def
    by (auto simp: ok_or_def elim!: and_then_InrE split: if_splits option.splits)
  then have bounds: "hs + n = snapshot_len sn" "32 \<le> hs" "hs \<le> u64_max"
    by (auto simp: checked_add_u64_def split: if_splits)
  have four: "unat (4 :: u8) = 4" by simp
  have "checked_add_u64 32 (hs - 32) = Some hs" using bounds by (simp add: checked_add_u64_def)
  with h four assms(2-) bounds show ?thesis
    by (simp add: audit_sevenz_headers_def checked_range_end_def checked_add_u64_def Let_def)
qed

subsection \<open>The archive\<close>

text \<open>The reader stops with a finding, or everything before the members succeeds.\<close>

lemma parse_sevenz_cases:
  obtains (stop) f where "parse_copy_portable_v1 crc sn fc mc = Some (Inl f)"
  | (members) hs n c hb si nf fi names folders where "parse_signature_header crc sn mc = Inr (hs, n, c, hb)"
    "parse_next_header fc hb = Inr (si, nf, fi, names)"
    "place_folders hs 32 (zip (si_folders si) (zip (si_pack_sizes si) (si_pack_crcs si))) = Inr (folders, hs)"
    "check_crcs crc sn folders = Inr ()"
    "parse_copy_portable_v1 crc sn fc mc = map_option (map_sum id (\<lambda>ms. \<lparr>zp_version_minor = 4,
       zp_pack_region = \<lparr>offset = 32, rlen = hs - 32\<rparr>, zp_next_header = \<lparr>offset = hs, rlen = n\<rparr>, zp_next_header_crc = c,
       zp_folders = folders, zp_name_region_bytes = fi_name_region_bytes fi, zp_dummy_bytes = fi_dummy_bytes fi,
       zp_metadata_bytes = 32 + n, zp_members = ms\<rparr>)) (resolve_files hs (nf, fi, names) folders)"
proof -
  note defs = parse_copy_portable_v1_def SIGNATURE_HEADER_LEN_def
  show thesis
  proof (cases "parse_signature_header crc sn mc")
    case (Inl f)
    then show thesis by (intro stop) (simp add: defs)
  next
    case (Inr x)
    obtain hs n c hb where sig: "parse_signature_header crc sn mc = Inr (hs, n, c, hb)" using Inr by (cases x) auto
    show thesis
    proof (cases "parse_next_header fc hb")
      case (Inl f)
      with sig show thesis by (intro stop) (simp add: defs)
    next
      case (Inr y)
      obtain si nf fi names where nxt: "parse_next_header fc hb = Inr (si, nf, fi, names)" using Inr by (cases y) auto
      show thesis
      proof (cases "length (si_folders si) \<noteq> length (si_pack_sizes si)")
        case True
        with sig nxt show thesis by (intro stop) (simp add: defs)
      next
        case same: False
        show thesis
        proof (cases "place_folders hs 32 (zip (si_folders si) (zip (si_pack_sizes si) (si_pack_crcs si)))")
          case (Inl f)
          with sig nxt same show thesis by (intro stop) (simp add: defs)
        next
          case (Inr z)
          obtain folders cursor where place: "place_folders hs 32 (zip (si_folders si) (zip (si_pack_sizes si) (si_pack_crcs si))) =
              Inr (folders, cursor)" using Inr by (cases z) auto
          show thesis
          proof (cases "cursor = hs \<and> check_crcs crc sn folders = Inr ()")
            case True
            with sig nxt same place show thesis
              by (intro members) (auto simp: defs map_sum_def split: option.split sum.split)
          next
            case False
            have "\<exists>f. parse_copy_portable_v1 crc sn fc mc = Some (Inl f)"
              using False sig nxt same place by (cases "check_crcs crc sn folders") (auto simp: defs)
            then show thesis using stop by blast
          qed
        qed
      qed
    qed
  qed
qed

lemma sevenz_parsed_audited:
  assumes "readable sn"
  shows "parse_copy_portable_v1 crc sn fc mc \<noteq> None"
    "\<lbrakk>parse_copy_portable_v1 crc sn fc mc = Some (Inr p); map fst ps = zp_members p\<rbrakk> \<Longrightarrow>
       length (zp_members p) \<le> fc \<and> zp_metadata_bytes p \<le> mc \<and>
       audit_sevenz_covering crc sn (with_sevenz d (sevenz_evidence_of p) (map planned_sevenz ps)) = Inr ()"
proof -
  have "parse_copy_portable_v1 crc sn fc mc \<noteq> None \<and> (parse_copy_portable_v1 crc sn fc mc = Some (Inr p) \<and> map fst ps = zp_members p \<longrightarrow>
       length (zp_members p) \<le> fc \<and> zp_metadata_bytes p \<le> mc \<and>
       audit_sevenz_covering crc sn (with_sevenz d (sevenz_evidence_of p) (map planned_sevenz ps)) = Inr ())"
  proof (cases rule: parse_sevenz_cases [of crc sn fc mc])
    case (members hs n c hb si nf fi names folders)
    note wf = parse_next_header_wf [OF members(2)] and first = next_header_first [OF members(2)]
    have "hs \<le> snapshot_len sn"
      using signature_header_audited [OF members(1), of "\<lparr>sa_version_minor = 4, sa_pack_region = \<lparr>offset = 32, rlen = hs - 32\<rparr>,
        sa_next_header = \<lparr>offset = hs, rlen = n\<rparr>, sa_next_header_crc = c, sa_folders = [], sa_name_region_bytes = 0, sa_dummy_bytes = 0\<rparr>"]
        first by simp
    moreover have "\<forall>x \<in> set (zip (si_folders si) (zip (si_pack_sizes si) (si_pack_crcs si))). folder_wf (fst x)"
      using wf by (metis prod.collapse set_zip_leftD)
    ultimately have placed: "audit_sevenz_folders crc sn folders 32 = Inr hs"
      "\<forall>f \<in> set folders. \<forall>s \<in> set (sf_substreams f). sub_nonempty s"
      using place_folders_audited [OF members(3) _ members(4) assms] by blast+
    note files = resolve_files_audited [OF _ _ placed(2), of nf fi names hs]
    have "length (zp_members p) \<le> fc \<and> zp_metadata_bytes p \<le> mc \<and>
        audit_sevenz_covering crc sn (with_sevenz d (sevenz_evidence_of p) (map planned_sevenz ps)) = Inr ()"
      if p: "parse_copy_portable_v1 crc sn fc mc = Some (Inr p)" "map fst ps = zp_members p"
    proof -
      from p(1) members(5) obtain ms where "resolve_files hs (nf, fi, names) folders = Some (Inr ms)" and rec: "p = \<lparr>zp_version_minor = 4,
          zp_pack_region = \<lparr>offset = 32, rlen = hs - 32\<rparr>, zp_next_header = \<lparr>offset = hs, rlen = n\<rparr>, zp_next_header_crc = c,
          zp_folders = folders, zp_name_region_bytes = fi_name_region_bytes fi, zp_dummy_bytes = fi_dummy_bytes fi,
          zp_metadata_bytes = 32 + n, zp_members = ms\<rparr>"
        by (cases "resolve_files hs (nf, fi, names) folders"; cases "the (resolve_files hs (nf, fi, names) folders)") auto
      with p(2) have res: "resolve_files hs (nf, fi, names) folders = Some (Inr (map fst ps))" by simp
      from rec have f: "zp_version_minor p = 4" "zp_pack_region p = \<lparr>offset = 32, rlen = hs - 32\<rparr>" "zp_next_header p = \<lparr>offset = hs, rlen = n\<rparr>"
          "zp_next_header_crc p = c" "zp_folders p = folders" "zp_metadata_bytes p = 32 + n"
        by simp_all
      have head: "audit_sevenz_headers crc sn (sevenz_evidence_of p) = Inr () \<and> hs + n = snapshot_len sn \<and> 32 \<le> hs \<and> 32 + n \<le> mc"
        using first f by (intro signature_header_audited [OF members(1)]) (simp_all add: sevenz_evidence_of_def)
      have "length ps = nf" "audit_sevenz_members hs (map planned_sevenz ps) (concat (map sf_substreams folders)) = Inr []"
        using files(2) [OF _ _ res] wf by blast+
      moreover have "length (zp_members p) = length ps" using p(2) by (metis length_map)
      ultimately show ?thesis
        using head placed(1) f wf
        by (simp add: audit_sevenz_covering_def with_sevenz_def ir_format_def ir_sevenz_evidence_def sevenz_evidence_of_def)
    qed
    then show ?thesis using files(1) wf members(5) by auto
  qed simp
  then show "parse_copy_portable_v1 crc sn fc mc \<noteq> None"
    "\<lbrakk>parse_copy_portable_v1 crc sn fc mc = Some (Inr p); map fst ps = zp_members p\<rbrakk> \<Longrightarrow>
       length (zp_members p) \<le> fc \<and> zp_metadata_bytes p \<le> mc \<and>
       audit_sevenz_covering crc sn (with_sevenz d (sevenz_evidence_of p) (map planned_sevenz ps)) = Inr ()" by blast+
qed

subsection \<open>Properties\<close>

text \<open>C21. The 7z reader never panics and its audit accepts what it accepts. On a snapshot whose reads succeed the
  reader returns: the substream it expects for every file with content is there. When it returns an archive, the
  files and the metadata are within the caps, and the independent audit accepts the interpretation that is recorded
  from it: the headers and their checksums, the pack streams and substreams that cover the region between the two
  headers without gap or overlap, and one substream, or the empty range, for every member, whatever paths and
  actions the planner gave the members.\<close>

theorem sevenz_reader_audited:
  assumes "readable sn"
  shows "(\<exists>r. parse_copy_portable_v1 crc sn files_cap metadata_cap = Some r) \<and>
    (parse_copy_portable_v1 crc sn files_cap metadata_cap = Some (Inr p) \<and> map fst ps = zp_members p \<longrightarrow>
       length (zp_members p) \<le> files_cap \<and> zp_metadata_bytes p \<le> metadata_cap \<and>
       audit_sevenz_covering crc sn (with_sevenz digest (sevenz_evidence_of p)
         (map (\<lambda>(m, components, actions). from_sevenz_planned m components actions) ps)) = Inr ())"
  using sevenz_parsed_audited(1) [OF assms, of crc files_cap metadata_cap]
    sevenz_parsed_audited(2) [OF assms, of crc files_cap metadata_cap p ps digest] by blast

text \<open>An archive with one file of one byte; the checksum of this example is constant.\<close>

lemma and_then_step: "m = m' \<Longrightarrow> and_then m f = and_then m' f" by simp

lemma hr_number_small: "unat b < 128 \<Longrightarrow> hr_number (b # bs) = Inr (unat b, bs)"
  by (simp add: hr_number_def hr_byte_def leading_ones_def)

definition example_next_header :: bytes where
  "example_next_header =
     [0x01,
      0x04, 0x06, 0x00, 0x01, 0x09, 0x01, 0x00,
      0x07, 0x0B, 0x01, 0x00, 0x01, 0x01, 0x00, 0x0C, 0x01, 0x00,
      0x00,
      0x05, 0x01, 0x11, 0x05, 0x00, 0x61, 0x00, 0x00, 0x00, 0x00,
      0x00]"

lemmas example_reads = hr_number_small hr_byte_def hr_take_def bounded_count_def K_END_def K_HEADER_def K_MAIN_STREAMS_def K_FILES_INFO_def K_PACK_INFO_def
  K_UNPACK_INFO_def K_SIZE_def K_CRC_def K_FOLDER_def K_CODERS_UNPACK_SIZE_def K_EMPTY_STREAM_def K_EMPTY_FILE_def K_NAME_def K_SUBSTREAMS_INFO_def K_ENCODED_HEADER_def


lemma example_pack_info: "parse_pack_info (0x06 # 0x00 # 0x01 # 0x09 # 0x01 # 0x00 # rest) = Inr (([1], [None]), rest)"
  by (simp add: parse_pack_info_def pack_info_loop.simps example_reads cong: and_then_step)

lemma example_unpack_info:
  "parse_unpack_info (0x07 # 0x0B # 0x01 # 0x00 # 0x01 # 0x01 # 0x00 # 0x0C # 0x01 # 0x00 # rest) = Inr (([1], [None]), rest)"
  by (simp add: parse_unpack_info_def folder_crc_loop.simps copy_coder_def example_reads cong: and_then_step)

lemma example_streams:
  "parse_streams_info (0x06 # 0x00 # 0x01 # 0x09 # 0x01 # 0x00 #
      0x07 # 0x0B # 0x01 # 0x00 # 0x01 # 0x01 # 0x00 # 0x0C # 0x01 # 0x00 # 0x00 # rest) =
     Inr (\<lparr>si_pack_sizes = [1], si_pack_crcs = [None],
       si_folders = [\<lparr>pf_unpack_size = 1, pf_folder_crc = None, pf_substream_sizes = [1], pf_substream_crcs = [None]\<rparr>]\<rparr>, rest)"
  by (simp add: parse_streams_info_def example_pack_info example_unpack_info example_reads Let_def cong: and_then_step)

lemma example_names: "decode_names [0x61, 0x00, 0x00, 0x00] 1 = Inr [([0x61, 0], [0x61])]"
  by (simp add: decode_names_def)

lemma example_files:
  "parse_files_info 2 (0x01 # 0x11 # 0x05 # 0x00 # 0x61 # 0x00 # 0x00 # 0x00 # 0x00 # rest) =
     Inr ((1, \<lparr>fi_empty_stream = None, fi_empty_file = None, fi_names = Some [([0x61, 0], [0x61])], fi_attributes = [None],
       fi_mtimes = [None], fi_name_region_bytes = 4, fi_dummy_bytes = 0\<rparr>, [([0x61, 0], [0x61])]), rest)"
  by (simp add: parse_files_info_def files_loop.simps files_property_def example_names [simplified] example_reads cong: and_then_step)

lemma example_next_header_parsed:
  "parse_next_header 2 example_next_header = Inr (\<lparr>si_pack_sizes = [1], si_pack_crcs = [None],
       si_folders = [\<lparr>pf_unpack_size = 1, pf_folder_crc = None, pf_substream_sizes = [1], pf_substream_crcs = [None]\<rparr>]\<rparr>,
     1, \<lparr>fi_empty_stream = None, fi_empty_file = None, fi_names = Some [([0x61, 0], [0x61])], fi_attributes = [None],
       fi_mtimes = [None], fi_name_region_bytes = 4, fi_dummy_bytes = 0\<rparr>, [([0x61, 0], [0x61])])"
  by (simp add: example_next_header_def parse_next_header_def header_loop.simps example_streams [simplified] example_files [simplified]
      example_reads cong: and_then_step)

definition example_sevenz :: snapshot where
  "example_sevenz = \<lparr>content = SEVENZ_SIGNATURE @ [0, 4] @ [0, 0, 0, 0] @ [1, 0, 0, 0, 0, 0, 0, 0] @ [30, 0, 0, 0, 0, 0, 0, 0] @
     [0, 0, 0, 0] @ [0x61] @ example_next_header, backing = Memory\<rparr>"

lemma example_signature_parsed:
  "parse_signature_header (\<lambda>_. 0) example_sevenz 100 = Inr (33, 30, 0, example_next_header)"
  by (simp add: parse_signature_header_def SIGNATURE_HEADER_LEN_def example_sevenz_def SEVENZ_SIGNATURE_def example_next_header_def
      read_vec_def read_exact_at_def checked_range_def checked_add_u64_def u64_max_def slice_of_def Let_def cong: and_then_step)

definition example_sevenz_parsed :: sevenz_parsed where
  "example_sevenz_parsed = \<lparr>zp_version_minor = 4, zp_pack_region = \<lparr>offset = 32, rlen = 1\<rparr>,
     zp_next_header = \<lparr>offset = 33, rlen = 30\<rparr>, zp_next_header_crc = 0,
     zp_folders = [\<lparr>sf_pack_stream = \<lparr>offset = 32, rlen = 1\<rparr>, sf_pack_crc = None, sf_unpack_size = 1, sf_folder_crc = None,
       sf_substreams = [\<lparr>ss_payload = \<lparr>offset = 32, rlen = 1\<rparr>, ss_declared_crc = None\<rparr>]\<rparr>],
     zp_name_region_bytes = 4, zp_dummy_bytes = 0, zp_metadata_bytes = 62,
     zp_members = [\<lparr>zm_raw_name_bytes = [0x61, 0], zm_name = [0x61], zm_is_dir = False, zm_size = 1,
       zm_payload = \<lparr>offset = 32, rlen = 1\<rparr>, zm_declared_crc = None, zm_attributes = None, zm_mtime = None\<rparr>]\<rparr>"

lemma example_sevenz_parses: "parse_copy_portable_v1 (\<lambda>_. 0) example_sevenz 2 100 = Some (Inr example_sevenz_parsed)"
  by (simp add: parse_copy_portable_v1_def SIGNATURE_HEADER_LEN_def example_signature_parsed example_next_header_parsed
      checked_add_u64_def u64_max_def check_crc_def resolve_files_def example_sevenz_parsed_def Let_def cong: and_then_step)

theorem sevenz_reader_audited_witness:
  "parse_copy_portable_v1 (\<lambda>_. 0) example_sevenz 2 100 = Some (Inr example_sevenz_parsed) \<and>
   audit_sevenz_covering (\<lambda>_. 0) example_sevenz (with_sevenz Unavailable (sevenz_evidence_of example_sevenz_parsed)
     [from_sevenz_planned (hd (zp_members example_sevenz_parsed)) [[0x61]] []]) = Inr ()"
proof -
  have ok: "readable example_sevenz"
    by (simp add: example_sevenz_def SEVENZ_SIGNATURE_def example_next_header_def reads_ok_def snapshot_ok_def u64_max_def)
  have one: "map fst [(hd (zp_members example_sevenz_parsed), [[0x61]], [])] = zp_members example_sevenz_parsed"
    by (simp add: example_sevenz_parsed_def)
  show ?thesis
    using sevenz_reader_audited [OF ok, of "\<lambda>_. 0" 2 100 example_sevenz_parsed
        "[(hd (zp_members example_sevenz_parsed), [[0x61]], [])]" Unavailable]
      example_sevenz_parses one by simp
qed

end
