(* ===== verification/Spec2Isabelle.thy ===== *)
theory Spec2Isabelle
  imports Interval Drive SevenZAudit
begin

text \<open>
  Sealr inspects untrusted archives and extracts them only when every byte is accounted for.
  This library models the part of it that decides what a TAR archive, raw or inside gzip, is and whether it
  may be extracted, the path from a request to a verified archive, and the reader of restricted 7z archives
  (\<open>src/crates/sealr/src\<close>), and proves that part correct.

  The parts and how they interact. A source is acquired as an immutable snapshot (\<open>snapshot.rs\<close>), possibly by
  spooling a file into a private one. A gzip member is decoded into a derived snapshot (\<open>gzip.rs\<close>,
  \<open>snapshot.rs\<close>). A reader turns the bytes into members and byte ranges: portable ustar (\<open>tar.rs\<close>), pax
  (\<open>tar_pax.rs\<close>), old-GNU long names (\<open>tar_gnu.rs\<close>) or 7z with stored streams (\<open>sevenz.rs\<close>). The planner
  (\<open>apply.rs\<close>) charges the members to quotas (\<open>quota.rs\<close>, \<open>ratio.rs\<close>), prepares their names, puts them
  through the path jail (\<open>jail.rs\<close>) and admits the paths against two ordered tables. The result is recorded
  as an interpretation with evidence (\<open>ir.rs\<close>), and payload plans are fixed (\<open>verification.rs\<close>). Before
  anything is extracted an audit (\<open>covering.rs\<close>) that shares no decoding code with the readers checks the
  evidence against the snapshot again. What is ready is executed (\<open>apply.rs\<close>): every payload is verified, on
  its way into a stage when there is a destination, and the result is an outcome (\<open>outcome.rs\<close>) and the
  capability to read members (\<open>verified.rs\<close>). Every refusal is a finding (\<open>findings.rs\<close>), possibly with a
  hint at the container that was meant (\<open>hints.rs\<close>).

  Theories.
  \<^item> \<open>Prelude\<close>: 64-bit arithmetic with checked operations, results as sums with \<open>and_then\<close>, slices,
    scans and the automation the components share. \<open>Utf8\<close>: strict UTF-8 as \<open>str::from_utf8\<close>
    decides it, with both round trips.
  \<^item> \<open>Findings\<close>: the registry of codes, findings, hints and labels of \<open>findings.rs\<close> and \<open>hints.rs\<close>.
  \<^item> \<open>Quota\<close>, \<open>Ratio\<close>, \<open>Interval\<close>: the counter with its contract as the locale \<open>meter\<close>, the ratio
    test and numerator, interval partitions with their specification by coverage counts.
  \<^item> \<open>Snapshot\<close>: exact reads. \<open>Stream\<close>: range readers, bounded copies and the streaming inflater.
    \<open>Spool\<close>: how a path or bytes become a snapshot, with the second pass over a file that may change.
  \<^item> \<open>Reader\<close>: the locales of a reader loop (\<open>block_reader\<close>), of a
    simulation between two loops (\<open>reader_simulation\<close>) and of a loop whose caps are exact
    (\<open>capped_reader\<close>). \<open>TarFields\<close>: the header field decoders.
  \<^item> \<open>Tar\<close>, \<open>TarRender\<close>: the ustar reader, its specification \<open>ustar_spec\<close>, a reference writer and
    the properties. \<open>PaxRecords\<close>, \<open>TarPax\<close>: the record grammar, the override state, the pax
    reader. \<open>TarGnu\<close>: the old-GNU reader.
  \<^item> \<open>Policy\<close>: policies, the twelve defaults, the compiler and the documents of \<open>policy.rs\<close>.
  \<^item> \<open>Jail\<close>, \<open>Paths\<close>, \<open>TarPlan\<close>: the jail, the ordered tables with the locale \<open>ordered_map\<close>, path
    admission, and the member loop that the planners share.
  \<^item> \<open>Ir\<close>, \<open>Payload\<close>: formats, evidence, member constructors, payload plans.
  \<^item> \<open>Covering\<close>, \<open>AuditFields\<close>, \<open>CoveringPax\<close>, \<open>PaxAudit\<close>, \<open>CoveringGnu\<close>, \<open>GnuAudit\<close>: the ustar,
    pax and old-GNU audits, and the simulations that show that the pax and old-GNU audits follow
    their readers step by step.
  \<^item> \<open>Outcome\<close>: the five axes, verdict, exit code, member views and the assembly of an outcome.
    \<open>Severity\<close>: every error of a reader or an audit has severity \<open>Error\<close>. \<open>Plan\<close>: the three
    planners from the parse to a ready archive or a final outcome, with charges and ratio stop.
  \<^item> \<open>Verify\<close>: the bounded verification of a payload into a writer. \<open>Transform\<close>: snapshot sets
    and the graph of derived domains. \<open>Gzip\<close>, \<open>GzipAudit\<close>: the gzip reader and its audit.
    \<open>Crc\<close>: the CRC tables, with the locale of a table-driven register. \<open>WrapperAudit\<close>, \<open>Bzip2Audit\<close>: the
    audits of zstd, xz, bzip2 and 7z evidence, and what the bzip2 one decides.
  \<^item> \<open>Composite\<close>: the checks of a ready archive before execution, with the replay of the gzip transform.
    \<open>Capability\<close>: the verified archive, its reads and retained members. \<open>Execute\<close>: the member loop,
    staging, publication and abort over a materializer. \<open>Drive\<close>: the operations from a request to its result.
  \<^item> \<open>SevenZ\<close>, \<open>SevenZAudit\<close>: the 7z reader with its variable-length numbers, and the reader against its audit.

  What is shown. The ustar reader decides its specification, with exact caps, classified errors,
  and a round trip with a writer; the pax and old-GNU readers produce partitions of the source
  whose parts are what the bytes decode to, with the documented precedence of overrides and one
  member per carrier; a plan without findings is a tree of safe paths within the budget; the
  audits decide or accept exactly what the readers produce, except that the old-GNU audit refuses
  directories whose name starts with a dot and a slash; so each planner is ready exactly when its
  reader, the ratio stop and the member plan let the source pass, and otherwise stops with a
  rejection that writes nothing; a policy compiles exactly when it meets its specification, and its controls
  carry its caps; a stored payload is verified exactly when its bytes fit the plan, the budget and the writer;
  appending a derived domain keeps the graph valid; what the gzip reader decodes passes its audit, and a
  plan over it passes the checks before execution; what is planned is inspected successfully, the file
  system is left untouched, published or aborted, and reads through the capability give the planned bytes;
  numbers of 7z headers have exactly one encoding, and what the 7z reader accepts its audit accepts. The
  loops are total functions with a measure, so every statement that a reader returns a value
  includes that it ends.

  Conventions. Offsets, sizes and lengths that the code keeps as \<open>u64\<close> are naturals with checked
  additions written out where the code checks; the quota, the ratio and the intervals work on
  64-bit and 128-bit words. Errors are \<open>Inl\<close>, results \<open>Inr\<close>, and a panic of the code is a value of its own.
  The detail text of a finding is left out: no decision depends on it. A snapshot is its byte list and its
  backing; that reads in bounds succeed is the hypothesis \<open>reads_ok\<close>, and \<open>readable\<close> adds that the length
  is a \<open>u64\<close>. SHA-256, CRC-32 of payloads, the inflater, the Unicode tables, private files, memory reservation
  and the materializer are parameters. There is no fuel anywhere.

  Not modelled. Allocation failure other than the reservation of retained bytes; the decoders of zstd, xz
  and bzip2; the ZIP and ZIP64 readers and their audits; the operations of ZIP, 7z, zstd, xz and bzip2 archives,
  of which only the parts named above are modelled; the materializer's system calls; the
  supervised backend of a verified archive; semantic records and identities; wheel checks; the supervised
  worker and its protocol; the command line and the release tools.
\<close>

section \<open>Readers and audits together\<close>

definition example_gnu_ir :: archive_ir where
  "example_gnu_ir = \<lparr>ir_source_digest = Unavailable,
     ir_evidence = ArcTarGnuLongName \<lparr>gae_tar = \<lparr>tc_member_records = \<lparr>offset = 0, rlen = 0\<rparr>,
       tc_terminator = \<lparr>offset = 0, rlen = 1024\<rparr>, tc_trailing_zeros = \<lparr>offset = 1024, rlen = 0\<rparr>\<rparr>,
       gae_carriers = []\<rparr>,
     ir_members = []\<rparr>"

text \<open>C40. A directory whose name starts with \<open>./\<close>, which the planner admits with the prefix
  normalized away, is always refused by the old-GNU audit, whatever the source: the archive root of
  \<open>tar -C dir .\<close> and every directory below it make an old-GNU archive inadmissible.\<close>

theorem gnu_dot_slash_directory_refused:
  assumes "planned_ok u b gm_name gm_is_dir (m, parts, acts)" "gm_is_dir m"
    and "starts_with (gm_name m) [dot, slash]"
    and "gnu_ir_member w (m, parts, acts) \<in> set (ir_members ir)"
  shows "audit_tar_gnu_longname_covering sha sn digest ir \<noteq> Inr ()"
proof
  assume "audit_tar_gnu_longname_covering sha sn digest ir = Inr ()"
  from gnu_audit_normalized [OF this assms(4)] planned_normalization [OF assms(1)] assms(2)
  have "as_bytes (join_on slash parts) = as_bytes (less_final_slash (gm_name m))" by simp
  with planned_path_suffix [OF assms(1,2)] assms(3) show False by auto
qed

definition example_gnu_directory :: gnu_member where
  "example_gnu_directory = \<lparr>gm_raw_name = [], gm_name = str_of ''./d/'', gm_size = 0, gm_mode = 0, gm_mtime = 0,
     gm_header_checksum = 0, gm_header_sha256 = [], gm_header = \<lparr>offset = 0, rlen = 512\<rparr>,
     gm_payload = \<lparr>offset = 512, rlen = 0\<rparr>, gm_padding = \<lparr>offset = 512, rlen = 0\<rparr>, gm_is_dir = True,
     gm_carrier_index = None\<rparr>"

theorem gnu_dot_slash_directory_refused_witness:
  "audit_tar_gnu_longname_covering id example_snapshot Unavailable
     (example_gnu_ir\<lparr>ir_members := [gnu_ir_member False (example_gnu_directory, [str_of ''d''], [StripDirectoryTrailingSlash])]\<rparr>)
     \<noteq> Inr ()"
proof (rule gnu_dot_slash_directory_refused [of ascii_unicode example_budget])
  show "planned_ok ascii_unicode example_budget gm_name gm_is_dir
      (example_gnu_directory, [str_of ''d''], [StripDirectoryTrailingSlash])"
    by (simp add: planned_ok_def example_gnu_directory_def prepare_tar_member_name_def Let_def
        example_budget_def safe_component_def jail_eval)
qed (simp_all add: example_gnu_directory_def str_of_def starts_with_def)

end
